(* ===== verification/Uboot_Prelude.thy ===== *)
theory Uboot_Prelude
  imports Main "HOL-Library.Word"
begin

text \<open>
  What the components share: the C types as HOL types, the flat byte memory that the routines of
  \<^verbatim>\<open>lib_generic/string.c\<close> run on, and the generic lemmas on lists, characters and words.

  A C \<^verbatim>\<open>char\<close> is a HOL \<^typ>\<open>char\<close>, one of 256 values; on ARM it is unsigned, so its value as
  an \<^verbatim>\<open>int\<close> is \<open>of_char\<close>. An address is a natural number, with 0 for \<^verbatim>\<open>NULL\<close>: C gives no
  meaning to an address computation that leaves the address space, so nothing wraps here.
\<close>

unbundle bit_operations_syntax

type_synonym u8 = "8 word"
type_synonym u16 = "16 word"
type_synonym u32 = "32 word"
type_synonym u64 = "64 word"
type_synonym addr = nat
type_synonym mem = "nat \<Rightarrow> char"

named_theorems mem_simps \<open>what the bytes of a memory are after an update\<close>

abbreviation NUL :: char where "NUL \<equiv> CHR 0x00"
abbreviation (input) NULL :: addr where "NULL \<equiv> 0"

subsection \<open>Bytes of memory\<close>

text \<open>
  \<open>mem_get m p n\<close> is the contents of the \<open>n\<close> bytes at \<open>p\<close>, \<open>mem_put m p xs\<close> the
  memory after storing the bytes \<open>xs\<close> there. They are the specification language of the
  memory routines, not part of the code.
\<close>

definition mem_get :: "mem \<Rightarrow> addr \<Rightarrow> nat \<Rightarrow> char list" where
  "mem_get m p n = map (\<lambda>i. m (p + i)) [0..<n]"

definition mem_put :: "mem \<Rightarrow> addr \<Rightarrow> char list \<Rightarrow> mem" where
  "mem_put m p xs = (\<lambda>a. if p \<le> a \<and> a < p + length xs then xs ! (a - p) else m a)"

primrec cstr :: "mem \<Rightarrow> addr \<Rightarrow> string \<Rightarrow> bool" where
  "cstr m p [] = (m p = NUL)"
| "cstr m p (c # cs) = (m p = c \<and> c \<noteq> NUL \<and> cstr m (Suc p) cs)"

lemma length_mem_get [simp]: "length (mem_get m p n) = n"
  by (simp add: mem_get_def)

lemma nth_mem_get [simp]: "i < n \<Longrightarrow> mem_get m p n ! i = m (p + i)"
  by (simp add: mem_get_def)

lemma mem_get_0 [simp]: "mem_get m p 0 = []"
  by (simp add: mem_get_def)

lemma mem_get_Suc: "mem_get m p (Suc n) = m p # mem_get m (Suc p) n"
  by (rule nth_equalityI) (auto simp: nth_Cons split: nat.split)

lemma mem_get_snoc: "mem_get m p (Suc n) = mem_get m p n @ [m (p + n)]"
  by (simp add: mem_get_def)

lemma mem_get_add: "mem_get m p (a + b) = mem_get m p a @ mem_get m (p + a) b"
  by (rule nth_equalityI) (auto simp: nth_append)

lemma mem_put_Nil [simp]: "mem_put m p [] = m"
  by (rule ext) (auto simp: mem_put_def)

lemma mem_put_Cons [mem_simps]: "mem_put m p (x # xs) = mem_put (m(p := x)) (Suc p) xs"
proof (rule ext)
  fix a
  show "mem_put m p (x # xs) a = mem_put (m(p := x)) (Suc p) xs a"
    by (auto simp: mem_put_def nth_Cons' diff_diff_left)
qed

lemma mem_put_append [mem_simps]: "mem_put m p (xs @ ys) = mem_put (mem_put m p xs) (p + length xs) ys"
  by (rule ext) (auto simp: mem_put_def nth_append)

lemma mem_put_snoc: "mem_put m p (xs @ [x]) = (mem_put m p xs)(p + length xs := x)"
  by (rule ext) (auto simp: mem_put_def nth_append)

lemma mem_put_outside [mem_simps]: "a < p \<or> p + length xs \<le> a \<Longrightarrow> mem_put m p xs a = m a"
  by (auto simp: mem_put_def)

lemma mem_put_inside [mem_simps]: "i < length xs \<Longrightarrow> mem_put m p xs (p + i) = xs ! i"
  by (simp add: mem_put_def)

lemma mem_get_put [simp]: "mem_get (mem_put m p xs) p (length xs) = xs"
  by (rule nth_equalityI) (auto simp: mem_simps)

lemma mem_get_put_disjoint:
  "p + length xs \<le> q \<or> q + n \<le> p \<Longrightarrow> mem_get (mem_put m p xs) q n = mem_get m q n"
  by (rule nth_equalityI) (auto simp: mem_put_def)

lemma mem_get_cong: "(\<And>i. i < n \<Longrightarrow> m (p + i) = m' (p + i)) \<Longrightarrow> mem_get m p n = mem_get m' p n"
  by (rule nth_equalityI) auto

text \<open>Areas of memory, given by address and length, that do not overlap.\<close>

definition apart :: "nat \<times> nat \<Rightarrow> nat \<times> nat \<Rightarrow> bool" where
  "apart r s \<longleftrightarrow> fst r + snd r \<le> fst s \<or> fst s + snd s \<le> fst r"

subsection \<open>C strings\<close>

lemma cstr_iff_mem_get:
  "cstr m p s \<longleftrightarrow> mem_get m p (Suc (length s)) = s @ [NUL] \<and> NUL \<notin> set s"
  by (induction s arbitrary: p) (auto simp: mem_get_Suc)

lemma cstr_nth: "cstr m p s \<Longrightarrow> i < length s \<Longrightarrow> m (p + i) = s ! i"
  by (induction s arbitrary: p i) (fastforce simp: nth_Cons split: nat.split)+

lemma cstr_end: "cstr m p s \<Longrightarrow> m (p + length s) = NUL"
  by (induction s arbitrary: p) fastforce+

lemma cstr_no_NUL: "cstr m p s \<Longrightarrow> NUL \<notin> set s"
  by (induction s arbitrary: p) auto

lemma cstr_nth_neq: "cstr m p s \<Longrightarrow> i < length s \<Longrightarrow> m (p + i) \<noteq> NUL"
  using cstr_nth cstr_no_NUL by (metis nth_mem)

lemma cstr_suffix: "cstr m p (s @ t) \<Longrightarrow> cstr m (p + length s) t"
  by (induction s arbitrary: p) fastforce+

lemma cstr_drop: "cstr m p s \<Longrightarrow> i \<le> length s \<Longrightarrow> cstr m (p + i) (drop i s)"
  using cstr_suffix [of m p "take i s" "drop i s"] by (simp add: min_absorb2)

lemma cstr_unique: "cstr m p s \<Longrightarrow> cstr m p t \<Longrightarrow> s = t"
proof (induction s arbitrary: p t)
  case Nil
  then show ?case by (cases t) auto
next
  case (Cons c s)
  then show ?case by (cases t) auto
qed

lemma cstr_mem_put [simp]: "NUL \<notin> set s \<Longrightarrow> cstr (mem_put m p (s @ [NUL])) p s"
  using mem_get_put [of m p "s @ [NUL]"] by (simp add: cstr_iff_mem_get)

lemma cstr_cong:
  "(\<And>i. i \<le> length s \<Longrightarrow> m (p + i) = m' (p + i)) \<Longrightarrow> cstr m p s = cstr m' p s"
  using mem_get_cong [of "Suc (length s)" m p m'] by (simp add: cstr_iff_mem_get)

lemma cstr_mem_put_disjoint:
  "p + length xs \<le> q \<or> q + length s < p \<Longrightarrow> cstr (mem_put m p xs) q s = cstr m q s"
  by (rule cstr_cong) (auto simp: mem_put_def)

subsection \<open>Characters as numbers\<close>

lemma of_char_less [simp]: "of_char c < (256 :: int)"
  by (metis nat_of_char_less_256 of_nat_less_numeral_iff of_nat_of_char)

lemma of_char_nonneg [simp]: "(0 :: int) \<le> of_char c"
  by (metis of_nat_0_le_iff of_nat_of_char)

lemma unat_of_char [simp]: "8 \<le> LENGTH('a::len) \<Longrightarrow> unat (of_char c :: 'a word) = of_char c"
proof -
  assume a: "8 \<le> LENGTH('a)"
  have "(2::nat) ^ 8 \<le> 2 ^ LENGTH('a)"
    using a by (rule power_increasing) simp
  then have "of_char c < (2::nat) ^ LENGTH('a)"
    using nat_of_char_less_256 [of c] by (simp add: order_less_le_trans del: nat_of_char_less_256)
  then have "unat (of_nat (of_char c) :: 'a word) = of_char c"
    by (simp add: unat_of_nat)
  then show ?thesis by (simp add: of_nat_of_char)
qed

lemma of_char_word_eq_iff [simp]:
  "8 \<le> LENGTH('a::len) \<Longrightarrow> (of_char c :: 'a word) = of_char d \<longleftrightarrow> c = d"
  by (metis of_char_eq_iff unat_of_char)

subsection \<open>Words\<close>

lemma unat_less_u8: "unat w < 2 ^ 8" for w :: u8
  using unsigned_less [of w] by simp

lemma unat_less_u16: "unat w < 2 ^ 16" for w :: u16
  using unsigned_less [of w] by simp

lemma unat_less_u32: "unat w < 2 ^ 32" for w :: u32
  using unsigned_less [of w] by simp

lemma unat_less_u64: "unat w < 2 ^ 64" for w :: u64
  using unsigned_less [of w] by simp

lemma unat_of_nat_u32: "n < 2 ^ 32 \<Longrightarrow> unat (of_nat n :: u32) = n"
  by (simp add: unat_of_nat take_bit_nat_eq_self)

lemma sint_nonneg_eq_uint: "0 \<le> sint w \<Longrightarrow> sint w = uint w" for w :: "'a::len word"
proof -
  assume "0 \<le> sint w"
  moreover have "sint w < 2 ^ LENGTH('a)"
    by (rule order.strict_trans2 [OF sint_less]) (simp add: power_increasing)
  ultimately show "sint w = uint w"
    by (simp add: uint_sint take_bit_int_eq_self)
qed

lemma sint_nonneg_less: "0 \<le> sint w \<Longrightarrow> unat w < 2 ^ (LENGTH('a) - 1)" for w :: "'a::len word"
proof -
  assume a: "0 \<le> sint w"
  have "int (unat w) < 2 ^ (LENGTH('a) - 1)"
    using sint_nonneg_eq_uint [OF a] sint_less [of w] by simp
  then show "unat w < 2 ^ (LENGTH('a) - 1)"
    by (metis of_nat_less_iff of_nat_numeral of_nat_power)
qed

lemma sint_small_eq_uint: "unat w < 2 ^ (LENGTH('a) - 1) \<Longrightarrow> sint w = uint w" for w :: "'a::len word"
proof -
  assume "unat w < 2 ^ (LENGTH('a) - 1)"
  then have "uint w < 2 ^ (LENGTH('a) - 1)"
    by (metis of_nat_less_iff of_nat_numeral of_nat_power uint_nat)
  moreover have "- (2 ^ (LENGTH('a) - 1)) \<le> uint w"
    by (rule order_trans [of _ 0]) simp_all
  ultimately have "signed_take_bit (LENGTH('a) - 1) (uint w) = uint w"
    by (simp add: signed_take_bit_int_eq_self_iff)
  then show "sint w = uint w"
    by (simp add: sint_uint)
qed

end
