(* ===== verification/C_String.thy ===== *)
theory C_String
  imports Uboot_Prelude "HOL-Library.Monad_Syntax"
begin

text \<open>
  The string and memory routines of \<^verbatim>\<open>lib_generic/string.c\<close>, over the flat memory of
  \<^verbatim>\<open>Uboot_Prelude\<close>. A routine whose loop stops only at a NUL is a partial function: \<open>None\<close>
  says that it does not return. A routine bounded by a count recurses on the count. The routines that
  write return the new memory with the C result.

  ARM configures none of the \<^verbatim>\<open>__HAVE_ARCH_*\<close> replacements (\<^verbatim>\<open>asm-arm/string.h\<close> undefines them), so
  these are the routines in the image. Not modelled: \<^verbatim>\<open>strdup\<close>, which needs the allocator, and
  \<^verbatim>\<open>strnicmp\<close>, which is under \<^verbatim>\<open>#if 0\<close>.
\<close>

section \<open>The code\<close>

subsection \<open>Copying and appending strings\<close>

partial_function (option) strcpy_loop :: "addr \<Rightarrow> addr \<Rightarrow> mem \<Rightarrow> mem option" where
  "strcpy_loop dest src m =
     (let m' = m(dest := m src) in
      if m src \<noteq> NUL then strcpy_loop (dest + 1) (src + 1) m' else Some m')"

definition strcpy :: "addr \<Rightarrow> addr \<Rightarrow> mem \<Rightarrow> (mem \<times> addr) option" where
  "strcpy dest src m = do { m' \<leftarrow> strcpy_loop dest src m; Some (m', dest) }"

fun strncpy_loop :: "nat \<Rightarrow> addr \<Rightarrow> addr \<Rightarrow> mem \<Rightarrow> mem" where
  "strncpy_loop 0 dest src m = m"
| "strncpy_loop (Suc count) dest src m =
     (let m' = m(dest := m src) in
      if m src \<noteq> NUL then strncpy_loop count (dest + 1) (src + 1) m' else m')"

definition strncpy :: "addr \<Rightarrow> addr \<Rightarrow> nat \<Rightarrow> mem \<Rightarrow> mem \<times> addr" where
  "strncpy dest src count m = (strncpy_loop count dest src m, dest)"

text \<open>The loop \<^verbatim>\<open>while (*p) p++;\<close> that \<^verbatim>\<open>strlen\<close>, \<^verbatim>\<open>strcat\<close> and \<^verbatim>\<open>strncat\<close> share.\<close>

partial_function (option) scan_nul :: "mem \<Rightarrow> addr \<Rightarrow> addr option" where
  "scan_nul m sc = (if m sc \<noteq> NUL then scan_nul m (sc + 1) else Some sc)"

definition strlen :: "mem \<Rightarrow> addr \<Rightarrow> nat option" where
  "strlen m s = do { sc \<leftarrow> scan_nul m s; Some (sc - s) }"

definition strcat :: "addr \<Rightarrow> addr \<Rightarrow> mem \<Rightarrow> (mem \<times> addr) option" where
  "strcat dest src m =
     do { d \<leftarrow> scan_nul m dest; m' \<leftarrow> strcpy_loop d src m; Some (m', dest) }"

fun strncat_loop :: "nat \<Rightarrow> addr \<Rightarrow> addr \<Rightarrow> mem \<Rightarrow> mem" where
  "strncat_loop 0 dest src m = m"
| "strncat_loop (Suc count) dest src m =
     (let m' = m(dest := m src) in
      if m src = NUL then m'
      else if count = 0 then m'(dest + 1 := NUL)
      else strncat_loop count (dest + 1) (src + 1) m')"

definition strncat :: "addr \<Rightarrow> addr \<Rightarrow> nat \<Rightarrow> mem \<Rightarrow> (mem \<times> addr) option" where
  "strncat dest src count m =
     (if count = 0 then Some (m, dest)
      else do { d \<leftarrow> scan_nul m dest; Some (strncat_loop count d src m, dest) })"

fun strnlen_loop :: "mem \<Rightarrow> nat \<Rightarrow> addr \<Rightarrow> addr" where
  "strnlen_loop m 0 sc = sc"
| "strnlen_loop m (Suc count) sc = (if m sc \<noteq> NUL then strnlen_loop m count (sc + 1) else sc)"

definition strnlen :: "mem \<Rightarrow> addr \<Rightarrow> nat \<Rightarrow> nat" where
  "strnlen m s count = strnlen_loop m count s - s"

subsection \<open>Comparing strings\<close>

text \<open>The difference of two bytes, narrowed to the \<^verbatim>\<open>signed char\<close> that holds it.\<close>

definition schar_diff :: "char \<Rightarrow> char \<Rightarrow> int" where
  "schar_diff a b = sint (of_char a - of_char b :: u8)"

partial_function (option) strcmp :: "mem \<Rightarrow> addr \<Rightarrow> addr \<Rightarrow> int option" where
  "strcmp m cs ct =
     (let res = schar_diff (m cs) (m ct) in
      if res \<noteq> 0 \<or> m cs = NUL then Some res else strcmp m (cs + 1) (ct + 1))"

fun strncmp :: "mem \<Rightarrow> addr \<Rightarrow> addr \<Rightarrow> nat \<Rightarrow> int" where
  "strncmp m cs ct 0 = 0"
| "strncmp m cs ct (Suc count) =
     (let res = schar_diff (m cs) (m ct) in
      if res \<noteq> 0 \<or> m cs = NUL then res else strncmp m (cs + 1) (ct + 1) count)"

subsection \<open>Searching strings\<close>

partial_function (option) strchr :: "mem \<Rightarrow> addr \<Rightarrow> char \<Rightarrow> addr option" where
  "strchr m s c =
     (if m s \<noteq> c then if m s = NUL then Some NULL else strchr m (s + 1) c else Some s)"

fun strrchr_loop :: "mem \<Rightarrow> addr \<Rightarrow> char \<Rightarrow> addr \<Rightarrow> addr" where
  "strrchr_loop m s c p =
     (if m p = c then p else if s < p then strrchr_loop m s c (p - 1) else NULL)"

definition strrchr :: "mem \<Rightarrow> addr \<Rightarrow> char \<Rightarrow> addr option" where
  "strrchr m s c = do { n \<leftarrow> strlen m s; Some (strrchr_loop m s c (s + n)) }"

text \<open>
  The inner loop of \<^verbatim>\<open>strspn\<close> and \<^verbatim>\<open>strpbrk\<close>: walk the set until the byte or its end is found, and
  give the address where the walk stopped.
\<close>

partial_function (option) set_scan :: "mem \<Rightarrow> char \<Rightarrow> addr \<Rightarrow> addr option" where
  "set_scan m c a = (if m a \<noteq> NUL \<and> c \<noteq> m a then set_scan m c (a + 1) else Some a)"

partial_function (option) strspn_loop :: "mem \<Rightarrow> addr \<Rightarrow> addr \<Rightarrow> nat \<Rightarrow> nat option" where
  "strspn_loop m p accept count =
     (if m p \<noteq> NUL
      then do { a \<leftarrow> set_scan m (m p) accept;
                if m a = NUL then Some count else strspn_loop m (p + 1) accept (count + 1) }
      else Some count)"

definition strspn :: "mem \<Rightarrow> addr \<Rightarrow> addr \<Rightarrow> nat option" where
  "strspn m s accept = strspn_loop m s accept 0"

partial_function (option) strpbrk :: "mem \<Rightarrow> addr \<Rightarrow> addr \<Rightarrow> addr option" where
  "strpbrk m sc1 ct =
     (if m sc1 \<noteq> NUL
      then do { a \<leftarrow> set_scan m (m sc1) ct;
                if m a \<noteq> NUL then Some sc1 else strpbrk m (sc1 + 1) ct }
      else Some NULL)"

text \<open>\<open>tok\<close> is the static pointer \<^verbatim>\<open>___strtok\<close>; the result is memory, new pointer, token.\<close>

definition strtok :: "mem \<Rightarrow> addr \<Rightarrow> addr \<Rightarrow> addr \<Rightarrow> (mem \<times> addr \<times> addr) option" where
  "strtok m tok s ct =
     (let sbegin0 = (if s \<noteq> NULL then s else tok) in
      if sbegin0 = NULL then Some (m, tok, NULL)
      else do {
        n \<leftarrow> strspn m sbegin0 ct;
        let sbegin = sbegin0 + n;
        if m sbegin = NUL then Some (m, NULL, NULL)
        else do {
          send \<leftarrow> strpbrk m sbegin ct;
          if send \<noteq> NULL \<and> m send \<noteq> NUL
          then Some (m(send := NUL), send + 1, sbegin)
          else Some (m, send, sbegin) } })"

text \<open>\<open>s\<close> is the pointer \<^verbatim>\<open>*s\<close> the caller lends; the result is memory, new pointer, token.\<close>

definition strsep :: "mem \<Rightarrow> addr \<Rightarrow> addr \<Rightarrow> (mem \<times> addr \<times> addr) option" where
  "strsep m s ct =
     (if s = NULL then Some (m, s, NULL)
      else do {
        e \<leftarrow> strpbrk m s ct;
        if e \<noteq> NULL then Some (m(e := NUL), e + 1, s) else Some (m, e, s) })"

partial_function (option) strswab_loop :: "addr \<Rightarrow> mem \<Rightarrow> mem option" where
  "strswab_loop p m =
     (if m p \<noteq> NUL \<and> m (p + 1) \<noteq> NUL
      then strswab_loop (p + 2) (m(p := m (p + 1), p + 1 := m p))
      else Some m)"

definition strswab :: "addr \<Rightarrow> mem \<Rightarrow> (mem \<times> addr) option" where
  "strswab s m =
     (if s = NULL \<or> m s = NUL then Some (m, NULL)
      else do { m' \<leftarrow> strswab_loop s m; Some (m', s) })"

subsection \<open>Blocks of memory\<close>

text \<open>A 32-bit store and load, little-endian as on the STM32.\<close>

definition store32 :: "mem \<Rightarrow> addr \<Rightarrow> u32 \<Rightarrow> mem" where
  "store32 m p w =
     m(p := char_of (unat w), p + 1 := char_of (unat (drop_bit 8 w)),
       p + 2 := char_of (unat (drop_bit 16 w)), p + 3 := char_of (unat (drop_bit 24 w)))"

definition load32 :: "mem \<Rightarrow> addr \<Rightarrow> u32" where
  "load32 m p =
     of_char (m p) OR push_bit 8 (of_char (m (p + 1))) OR
     push_bit 16 (of_char (m (p + 2))) OR push_bit 24 (of_char (m (p + 3)))"

definition memset_cl :: "u32 \<Rightarrow> u32" where
  "memset_cl c = ((\<lambda>cl. push_bit 8 cl OR (c AND 0xff)) ^^ 4) 0"

fun memset_words :: "nat \<Rightarrow> addr \<Rightarrow> u32 \<Rightarrow> mem \<Rightarrow> mem \<times> addr \<times> nat" where
  "memset_words count sl cl m =
     (if 4 \<le> count then memset_words (count - 4) (sl + 4) cl (store32 m sl cl) else (m, sl, count))"

fun memset_bytes :: "nat \<Rightarrow> addr \<Rightarrow> char \<Rightarrow> mem \<Rightarrow> mem" where
  "memset_bytes 0 s8 c m = m"
| "memset_bytes (Suc count) s8 c m = memset_bytes count (s8 + 1) c (m(s8 := c))"

definition memset :: "addr \<Rightarrow> u32 \<Rightarrow> nat \<Rightarrow> mem \<Rightarrow> mem \<times> addr" where
  "memset s c count m =
     (let (m', s8, count') =
        (if s AND 3 = 0 then memset_words count s (memset_cl c) m else (m, s, count))
      in (memset_bytes count' s8 (char_of (unat c)) m', s))"

text \<open>The byte-wise copy loop \<^verbatim>\<open>while (count--) *d++ = *s++;\<close> of four of the routines.\<close>

fun copy_fwd :: "nat \<Rightarrow> addr \<Rightarrow> addr \<Rightarrow> mem \<Rightarrow> mem" where
  "copy_fwd 0 d s m = m"
| "copy_fwd (Suc count) d s m = copy_fwd count (d + 1) (s + 1) (m(d := m s))"

definition bcopy :: "addr \<Rightarrow> addr \<Rightarrow> nat \<Rightarrow> mem \<Rightarrow> mem \<times> addr" where
  "bcopy src dest count m = (copy_fwd count dest src m, dest)"

fun memcpy_words :: "nat \<Rightarrow> addr \<Rightarrow> addr \<Rightarrow> mem \<Rightarrow> mem \<times> addr \<times> addr \<times> nat" where
  "memcpy_words count dl sl m =
     (if 4 \<le> count then memcpy_words (count - 4) (dl + 4) (sl + 4) (store32 m dl (load32 m sl))
      else (m, dl, sl, count))"

definition memcpy :: "addr \<Rightarrow> addr \<Rightarrow> nat \<Rightarrow> mem \<Rightarrow> mem \<times> addr" where
  "memcpy dest src count m =
     (let (m', d8, s8, count') =
        (if (dest OR src) AND 3 = 0 then memcpy_words count dest src m else (m, dest, src, count))
      in (copy_fwd count' d8 s8 m', dest))"

fun copy_bwd :: "nat \<Rightarrow> addr \<Rightarrow> addr \<Rightarrow> mem \<Rightarrow> mem" where
  "copy_bwd 0 tmp s m = m"
| "copy_bwd (Suc count) tmp s m = copy_bwd count (tmp - 1) (s - 1) (m(tmp - 1 := m (s - 1)))"

definition memmove :: "addr \<Rightarrow> addr \<Rightarrow> nat \<Rightarrow> mem \<Rightarrow> mem \<times> addr" where
  "memmove dest src count m =
     (if dest \<le> src then (copy_fwd count dest src m, dest)
      else (copy_bwd count (dest + count) (src + count) m, dest))"

fun memcmp :: "mem \<Rightarrow> addr \<Rightarrow> addr \<Rightarrow> nat \<Rightarrow> int" where
  "memcmp m su1 su2 0 = 0"
| "memcmp m su1 su2 (Suc count) =
     (let res = of_char (m su1) - of_char (m su2) in
      if res \<noteq> 0 then res else memcmp m (su1 + 1) (su2 + 1) count)"

fun memscan :: "mem \<Rightarrow> addr \<Rightarrow> int \<Rightarrow> nat \<Rightarrow> addr" where
  "memscan m p c 0 = p"
| "memscan m p c (Suc n) = (if of_char (m p) = c then p else memscan m (p + 1) c n)"

fun strstr_loop :: "mem \<Rightarrow> addr \<Rightarrow> addr \<Rightarrow> nat \<Rightarrow> nat \<Rightarrow> addr" where
  "strstr_loop m s1 s2 l2 0 =
     (if l2 = 0 \<and> memcmp m s1 s2 l2 = 0 then s1 else NULL)"
| "strstr_loop m s1 s2 l2 (Suc l1) =
     (if l2 \<le> Suc l1
      then if memcmp m s1 s2 l2 = 0 then s1 else strstr_loop m (s1 + 1) s2 l2 l1
      else NULL)"

definition strstr :: "mem \<Rightarrow> addr \<Rightarrow> addr \<Rightarrow> addr option" where
  "strstr m s1 s2 =
     do { l2 \<leftarrow> strlen m s2;
          if l2 = 0 then Some s1
          else do { l1 \<leftarrow> strlen m s1; Some (strstr_loop m s1 s2 l2 l1) } }"

fun memchr :: "mem \<Rightarrow> addr \<Rightarrow> u32 \<Rightarrow> nat \<Rightarrow> addr" where
  "memchr m p c 0 = NULL"
| "memchr m p c (Suc n) = (if char_of (unat c) = m p then p else memchr m (p + 1) c n)"

section \<open>What the routines compute\<close>

subsection \<open>Lengths and scans\<close>

lemma scan_nul_cstr: "cstr m p s \<Longrightarrow> scan_nul m p = Some (p + length s)"
proof (induction s arbitrary: p)
  case Nil
  then show ?case by (simp add: scan_nul.simps)
next
  case (Cons c s)
  then show ?case by (subst scan_nul.simps) auto
qed

lemma strlen_cstr: "cstr m p s \<Longrightarrow> strlen m p = Some (length s)"
  by (simp add: strlen_def scan_nul_cstr)

lemma strnlen_cstr: "cstr m p s \<Longrightarrow> strnlen m p n = min n (length s)"
proof -
  have "cstr m p s \<Longrightarrow> strnlen_loop m n p = p + min n (length s)" for p
  proof (induction n arbitrary: p s)
    case 0
    then show ?case by simp
  next
    case (Suc n)
    then show ?case by (cases s) fastforce+
  qed
  then show "cstr m p s \<Longrightarrow> strnlen m p n = min n (length s)"
    by (simp add: strnlen_def)
qed

subsection \<open>Copies\<close>

text \<open>
  A forward copy is right unless the destination starts inside the part of the source that is
  still to be read.
\<close>

lemma strcpy_loop_cstr:
  "cstr m src s \<Longrightarrow> dest \<le> src \<or> src + length s < dest \<Longrightarrow>
     strcpy_loop dest src m = Some (mem_put m dest (s @ [NUL]))"
proof (induction s arbitrary: dest src m)
  case Nil
  then show ?case by (subst strcpy_loop.simps) (simp add: mem_put_Cons)
next
  case (Cons c s)
  then have "cstr (m(dest := c)) (Suc src) s"
    by (subst cstr_cong [where m' = m]) auto
  from Cons.IH [OF this, of "Suc dest"]
  have "strcpy_loop (Suc dest) (Suc src) (m(dest := c)) =
      Some (mem_put (m(dest := c)) (Suc dest) (s @ [NUL]))"
    using Cons.prems(2) by (auto simp del: fun_upd_apply)
  then show ?case
    using Cons.prems(1) by (subst strcpy_loop.simps) (simp add: Let_def mem_put_Cons)
qed

lemma strncpy_loop_eq:
  "cstr m src s \<Longrightarrow> dest \<le> src \<or> src + length s < dest \<Longrightarrow>
     strncpy_loop n dest src m = mem_put m dest (take n (s @ [NUL]))"
proof (induction n arbitrary: s dest src m)
  case 0
  then show ?case by simp
next
  case (Suc n)
  show ?case
  proof (cases s)
    case Nil
    with Suc.prems show ?thesis by (simp add: mem_simps)
  next
    case (Cons c t)
    with Suc.prems have "cstr (m(dest := c)) (Suc src) t"
      by (subst cstr_cong [where m' = m]) auto
    from Suc.IH [OF this, of "Suc dest"]
    have "strncpy_loop n (Suc dest) (Suc src) (m(dest := c)) =
        mem_put (m(dest := c)) (Suc dest) (take n (t @ [NUL]))"
      using Suc.prems(2) Cons by (auto simp del: fun_upd_apply)
    then show ?thesis using Suc.prems(1) Cons by (simp add: mem_put_Cons)
  qed
qed

lemma strncat_loop_eq:
  "cstr m src s \<Longrightarrow> 0 < n \<Longrightarrow> src + length s < dest \<or> dest + min n (length s) < src \<Longrightarrow>
     strncat_loop n dest src m = mem_put m dest (take n s @ [NUL])"
proof (induction n arbitrary: s dest src m)
  case 0
  then show ?case by simp
next
  case (Suc n)
  show ?case
  proof (cases s)
    case Nil
    with Suc.prems show ?thesis by (simp add: mem_simps)
  next
    case (Cons c t)
    with Suc.prems have *: "cstr (m(dest := c)) (Suc src) t"
      by (subst cstr_cong [where m' = m]) auto
    show ?thesis
    proof (cases "n = 0")
      case True
      with Suc.prems Cons show ?thesis by (simp add: mem_simps)
    next
      case False
      with Suc.IH [OF *, of "Suc dest"]
      have "strncat_loop n (Suc dest) (Suc src) (m(dest := c)) =
          mem_put (m(dest := c)) (Suc dest) (take n t @ [NUL])"
        using Suc.prems(3) Cons by (auto simp del: fun_upd_apply)
      then show ?thesis using Suc.prems(1) Cons False by (simp add: mem_put_Cons)
    qed
  qed
qed

lemma copy_fwd_eq:
  "d \<le> s \<or> s + n \<le> d \<Longrightarrow> copy_fwd n d s m = mem_put m d (mem_get m s n)"
proof (induction n arbitrary: d s m)
  case 0
  then show ?case by simp
next
  case (Suc n)
  have "mem_get (m(d := m s)) (Suc s) n = mem_get m (Suc s) n"
    using Suc.prems by (intro mem_get_cong) auto
  moreover have "copy_fwd n (Suc d) (Suc s) (m(d := m s)) =
      mem_put (m(d := m s)) (Suc d) (mem_get (m(d := m s)) (Suc s) n)"
    using Suc.prems by (intro Suc.IH) auto
  ultimately show ?case by (simp add: mem_get_Suc mem_put_Cons)
qed

lemma copy_bwd_eq:
  "s \<le> d \<Longrightarrow> copy_bwd n (d + n) (s + n) m = mem_put m d (mem_get m s n)"
proof (induction n arbitrary: m)
  case 0
  then show ?case by simp
next
  case (Suc n)
  let ?m = "m(d + n := m (s + n))"
  have get: "mem_get ?m s n = mem_get m s n"
    using Suc.prems by (intro mem_get_cong) auto
  have "copy_bwd (Suc n) (d + Suc n) (s + Suc n) m = mem_put ?m d (mem_get ?m s n)"
    using Suc by simp
  also have "\<dots> = mem_put m d (mem_get m s (Suc n))"
    unfolding get by (rule ext) (auto simp: mem_put_def nth_append mem_get_snoc less_Suc_eq)
  finally show ?case .
qed

subsection \<open>Word-wise stores\<close>

lemma bit_of_char_nat: "bit (of_char c :: nat) n \<Longrightarrow> n < 8"
proof -
  have "take_bit 8 (of_char c :: nat) = of_char c"
    by (simp add: take_bit_eq_mod)
  then show "bit (of_char c :: nat) n \<Longrightarrow> n < 8"
    by (metis bit_take_bit_iff)
qed

lemma bit_unat_word: "bit (unat w) n \<longleftrightarrow> bit w n" for w :: "'a::len word"
  by (auto simp: bit_unsigned_iff)

lemma bit_of_char_u32: "bit (of_char c :: u32) n \<longleftrightarrow> bit (of_char c :: nat) n"
  using bit_unat_word [of "of_char c :: u32" n] by simp

lemma bit_of_char_u16: "bit (of_char c :: u16) n \<longleftrightarrow> bit (of_char c :: nat) n"
  using bit_unat_word [of "of_char c :: u16" n] by simp

lemma char_of_unat_iff:
  "char_of (unat w) = c \<longleftrightarrow> (\<forall>n < 8. bit w n = bit (of_char c :: nat) n)" for w :: "'a::len word"
proof -
  have "bit (take_bit 8 (unat w)) n = (n < 8 \<and> bit w n)" for n
    by (simp add: bit_take_bit_iff bit_unat_word)
  then show ?thesis unfolding char_of_eq_iff bit_eq_iff using bit_of_char_nat by auto
qed

lemma char_of_load32:
  "char_of (unat (load32 m p)) = m p"
  "char_of (unat (drop_bit 8 (load32 m p))) = m (p + 1)"
  "char_of (unat (drop_bit 16 (load32 m p))) = m (p + 2)"
  "char_of (unat (drop_bit 24 (load32 m p))) = m (p + 3)"
  by (auto simp: char_of_unat_iff load32_def bit_simps bit_of_char_u32 dest: bit_of_char_nat)

lemma mem_get_4: "mem_get m p 4 = [m p, m (p + 1), m (p + 2), m (p + 3)]"
  by (simp add: mem_get_def upt_rec numeral_3_eq_3)

lemma store32_eq: "store32 m p w = mem_put m p
    [char_of (unat w), char_of (unat (drop_bit 8 w)),
     char_of (unat (drop_bit 16 w)), char_of (unat (drop_bit 24 w))]"
  by (simp add: store32_def mem_put_Cons numeral_3_eq_3)

lemma load32_cong:
  assumes "\<And>i. i < 4 \<Longrightarrow> m' (p + i) = m (q + i)"
  shows "load32 m' p = load32 m q"
  using assms [of 0] assms [of 1] assms [of 2] assms [of 3] by (simp add: load32_def)

lemma store32_load32: "store32 m d (load32 m s) = mem_put m d (mem_get m s 4)"
  by (simp add: store32_eq char_of_load32 mem_get_4)

lemma funpow_4: "(f ^^ 4) x = f (f (f (f x)))"
  by (simp add: numeral_eq_Suc)

lemma char_of_memset_cl:
  "char_of (unat (memset_cl c)) = char_of (unat c)"
  "char_of (unat (drop_bit 8 (memset_cl c))) = char_of (unat c)"
  "char_of (unat (drop_bit 16 (memset_cl c))) = char_of (unat c)"
  "char_of (unat (drop_bit 24 (memset_cl c))) = char_of (unat c)"
proof -
  have ff: "(0xff :: u32) = mask 8"
    by (simp add: mask_eq_exp_minus_1)
  have bits: "bit (of_char (char_of (unat c)) :: nat) n = bit c n" if "n < 8" for n
    using that char_of_unat_iff [of c "char_of (unat c)"] by auto
  show "char_of (unat (memset_cl c)) = char_of (unat c)"
    "char_of (unat (drop_bit 8 (memset_cl c))) = char_of (unat c)"
    "char_of (unat (drop_bit 16 (memset_cl c))) = char_of (unat c)"
    "char_of (unat (drop_bit 24 (memset_cl c))) = char_of (unat c)"
    unfolding memset_cl_def funpow_4 ff char_of_unat_iff
    by (simp_all add: bits bit_simps del: of_char_of)
qed

lemma replicate_4: "replicate 4 x = [x, x, x, x]"
  by (simp add: numeral_eq_Suc)

lemma store32_memset_cl:
  "store32 m p (memset_cl c) = mem_put m p (replicate 4 (char_of (unat c)))"
  by (simp only: store32_eq char_of_memset_cl replicate_4)

lemma memset_bytes_eq: "memset_bytes n p c m = mem_put m p (replicate n c)"
  by (induction n arbitrary: p m) (simp_all add: mem_put_Cons del: fun_upd_apply)

declare memset_words.simps [simp del] memcpy_words.simps [simp del]

lemma memset_words_eq:
  "memset_words n p (memset_cl c) m =
     (mem_put m p (replicate (n - n mod 4) (char_of (unat c))), p + (n - n mod 4), n mod 4)"
proof (induction n arbitrary: p m rule: less_induct)
  case (less n)
  show ?case
  proof (cases "4 \<le> n")
    case False
    then show ?thesis by (subst memset_words.simps) simp
  next
    case True
    define k where "k = n - 4"
    have n: "n = 4 + k" using True by (simp add: k_def)
    have "n - n mod 4 = 4 + (k - k mod 4)"
      unfolding n by (simp add: mod_less_eq_dividend)
    then have "replicate (n - n mod 4) (char_of (unat c)) =
        replicate 4 (char_of (unat c)) @ replicate (k - k mod 4) (char_of (unat c))"
      by (simp only: replicate_add)
    with less.IH [of k "p + 4" "store32 m p (memset_cl c)"] True \<open>n - n mod 4 = _\<close> show ?thesis
      by (subst memset_words.simps)
        (simp add: n store32_memset_cl mem_put_append del: char_of_quasi_inj)
  qed
qed

theorem memset_eq: "memset p c n m = (mem_put m p (replicate n (char_of (unat c))), p)"
proof -
  have "replicate n x = replicate (n - n mod 4) x @ replicate (n mod 4) x" for x :: char
    by (simp add: replicate_add [symmetric])
  then show ?thesis
    by (simp add: memset_def memset_words_eq memset_bytes_eq mem_put_append)
qed

lemma memcpy_words_eq:
  "d \<le> s \<longrightarrow> d = s \<or> d + 4 \<le> s \<Longrightarrow> s < d \<longrightarrow> s + n \<le> d \<Longrightarrow>
   memcpy_words n d s m =
     (mem_put m d (mem_get m s (n - n mod 4)), d + (n - n mod 4), s + (n - n mod 4), n mod 4)"
proof (induction n arbitrary: d s m rule: less_induct)
  case (less n)
  show ?case
  proof (cases "4 \<le> n")
    case False
    then show ?thesis by (subst memcpy_words.simps) simp
  next
    case True
    define k where "k = n - 4"
    let ?m = "mem_put m d (mem_get m s 4)"
    have n: "n = 4 + k" using True by (simp add: k_def)
    have nk: "n - n mod 4 = 4 + (k - k mod 4)"
      unfolding n by (simp add: mod_less_eq_dividend)
    have get: "mem_get ?m (s + 4) (k - k mod 4) = mem_get m (s + 4) (k - k mod 4)"
      using less.prems n by (cases "d = s") (auto simp: mem_put_def intro!: mem_get_cong)
    have "memcpy_words n d s m = memcpy_words k (d + 4) (s + 4) ?m"
      by (subst memcpy_words.simps) (simp add: n store32_load32)
    also have "\<dots> = (mem_put ?m (d + 4) (mem_get ?m (s + 4) (k - k mod 4)),
        d + 4 + (k - k mod 4), s + 4 + (k - k mod 4), k mod 4)"
      using less.prems n by (intro less.IH) auto
    finally show ?thesis
      unfolding get nk mem_get_add mem_put_append length_mem_get by (simp add: n add.assoc)
  qed
qed

lemma or_and_3: "(a OR b) AND 3 = 0 \<longleftrightarrow> a mod 4 = 0 \<and> b mod 4 = 0" for a b :: nat
proof -
  have "(a OR b) AND mask 2 = take_bit 2 a OR take_bit 2 b"
    by (simp add: take_bit_eq_mask [symmetric])
  then have "(a OR b) AND 3 = take_bit 2 a OR take_bit 2 b"
    by (simp add: mask_eq_exp_minus_1)
  then show ?thesis by (simp add: take_bit_eq_mod or_eq_0_iff)
qed

theorem memcpy_eq:
  assumes "dest \<le> src \<or> src + n \<le> dest"
  shows "memcpy dest src n m = (mem_put m dest (mem_get m src n), dest)"
proof (cases "(dest OR src) AND 3 = 0")
  case False
  then show ?thesis using assms by (simp add: memcpy_def copy_fwd_eq)
next
  case True
  then have al: "dest mod 4 = 0" "src mod 4 = 0"
    by (auto simp: or_and_3)
  let ?k = "n - n mod 4"
  let ?m = "mem_put m dest (mem_get m src ?k)"
  have "dest \<le> src \<longrightarrow> dest = src \<or> dest + 4 \<le> src"
    using al by presburger
  then have "memcpy_words n dest src m = (?m, dest + ?k, src + ?k, n mod 4)"
    using assms by (intro memcpy_words_eq) auto
  moreover have "mem_get ?m (src + ?k) (n mod 4) = mem_get m (src + ?k) (n mod 4)"
    using assms by (cases "dest = src") (auto simp: mem_put_def intro!: mem_get_cong)
  moreover have "copy_fwd (n mod 4) (dest + ?k) (src + ?k) ?m =
      mem_put ?m (dest + ?k) (mem_get ?m (src + ?k) (n mod 4))"
    using assms by (intro copy_fwd_eq) auto
  moreover have "mem_get m src n = mem_get m src ?k @ mem_get m (src + ?k) (n mod 4)"
    using mem_get_add [of m src ?k "n mod 4"] by simp
  ultimately show ?thesis
    using True by (simp add: memcpy_def mem_put_append)
qed

theorem memmove_eq: "memmove dest src n m = (mem_put m dest (mem_get m src n), dest)"
  by (simp add: memmove_def copy_fwd_eq copy_bwd_eq)

subsection \<open>Comparisons\<close>

lemma schar_diff_eq_0 [simp]: "schar_diff a b = 0 \<longleftrightarrow> a = b"
  by (simp add: schar_diff_def signed_eq_0_iff)

lemma sint_of_int_u8: "- 128 \<le> x \<Longrightarrow> x < 128 \<Longrightarrow> sint (word_of_int x :: u8) = x"
  by (simp add: int_word_sint)

lemma schar_diff_ascii:
  assumes "of_char a < (128 :: int)" "of_char b < (128 :: int)"
  shows "schar_diff a b = of_char a - of_char b"
proof -
  have "(of_char a - of_char b :: u8) = word_of_int (of_char a - of_char b)"
    by (simp add: of_int_of_char)
  moreover have "- 128 \<le> (of_char a - of_char b :: int)" "(of_char a - of_char b :: int) < 128"
    using assms of_char_nonneg [of a] of_char_nonneg [of b] by linarith+
  ultimately show ?thesis
    by (simp only: schar_diff_def sint_of_int_u8)
qed

text \<open>The value of the first difference of two strings, the specification of \<open>strcmp\<close>.\<close>

fun str_diff :: "string \<Rightarrow> string \<Rightarrow> int" where
  "str_diff [] [] = 0"
| "str_diff [] (d # t) = schar_diff NUL d"
| "str_diff (c # s) [] = schar_diff c NUL"
| "str_diff (c # s) (d # t) = (if c = d then str_diff s t else schar_diff c d)"

lemma strcmp_cstr: "cstr m p s \<Longrightarrow> cstr m q t \<Longrightarrow> strcmp m p q = Some (str_diff s t)"
proof (induction s t arbitrary: p q rule: str_diff.induct)
  case (4 c s d t)
  then show ?case by (subst strcmp.simps) (auto simp: Let_def)
qed (subst strcmp.simps, force simp: Let_def)+

lemma str_diff_eq_0: "NUL \<notin> set s \<Longrightarrow> NUL \<notin> set t \<Longrightarrow> str_diff s t = 0 \<longleftrightarrow> s = t"
  by (induction s t rule: str_diff.induct) auto

definition ascii :: "string \<Rightarrow> bool" where
  "ascii s \<longleftrightarrow> (\<forall>c \<in> set s. of_char c < (128 :: int))"

lemma str_diff_sign:
  "ascii s \<Longrightarrow> ascii t \<Longrightarrow> NUL \<notin> set s \<Longrightarrow> NUL \<notin> set t \<Longrightarrow>
     str_diff s t < 0 \<longleftrightarrow> (map of_char s, map of_char t) \<in> lexord {(a :: nat, b). a < b}"
proof (induction s t rule: str_diff.induct)
  case (2 d t)
  then have "d \<noteq> NUL" and "of_char d < (128 :: int)" by (auto simp: ascii_def)
  then have "schar_diff NUL d = - of_char d"
    by (subst schar_diff_ascii) auto
  moreover have "0 < (of_char d :: int)"
    using \<open>d \<noteq> NUL\<close> of_char_nonneg [of d] of_char_eq_iff [of d NUL, where ?'a = int]
    by (simp add: order_less_le)
  ultimately show ?case by simp
next
  case (3 c s)
  then have "of_char c < (128 :: int)" by (auto simp: ascii_def)
  then have "schar_diff c NUL = of_char c"
    by (subst schar_diff_ascii) auto
  then show ?case by (simp add: not_less)
next
  case (4 c s d t)
  then have a: "of_char c < (128 :: int)" "of_char d < (128 :: int)" by (auto simp: ascii_def)
  have less: "(of_char c :: int) < of_char d \<longleftrightarrow> (of_char c :: nat) < of_char d"
    using of_nat_less_iff [where ?'a = int, of "of_char c" "of_char d"]
    by (simp only: of_nat_of_char)
  from 4 a less show ?case
    by (auto simp: schar_diff_ascii ascii_def)
qed simp

lemma strncmp_eq_0:
  "cstr m p s \<Longrightarrow> cstr m q t \<Longrightarrow> strncmp m p q n = 0 \<longleftrightarrow> take n s = take n t"
proof (induction n arbitrary: p q s t)
  case 0
  then show ?case by simp
next
  case (Suc n)
  then show ?case by (cases s; cases t) (auto simp: Let_def)
qed

lemma memcmp_eq_0: "memcmp m p q n = 0 \<longleftrightarrow> mem_get m p n = mem_get m q n"
  by (induction n arbitrary: p q) (auto simp: mem_get_Suc Let_def)

subsection \<open>Searches\<close>

lemma strchr_cstr:
  "cstr m p s \<Longrightarrow> strchr m p c =
     Some (if c = NUL then p + length s
           else if c \<in> set s then p + length (takeWhile (\<lambda>x. x \<noteq> c) s) else NULL)"
proof (induction s arbitrary: p)
  case Nil
  then show ?case by (subst strchr.simps) auto
next
  case (Cons x s)
  then show ?case by (subst strchr.simps) auto
qed

declare strrchr_loop.simps [simp del]

lemma strrchr_loop_hit:
  "i \<le> n \<Longrightarrow> m (p + i) = c \<Longrightarrow> (\<And>j. i < j \<Longrightarrow> j \<le> n \<Longrightarrow> m (p + j) \<noteq> c) \<Longrightarrow>
     strrchr_loop m p c (p + n) = p + i"
proof (induction n)
  case 0
  then show ?case by (simp add: strrchr_loop.simps)
next
  case (Suc n)
  show ?case
  proof (cases "i = Suc n")
    case True
    with Suc.prems show ?thesis by (subst strrchr_loop.simps) simp
  next
    case False
    then have "m (p + Suc n) \<noteq> c"
      using Suc.prems(1) by (intro Suc.prems(3)) auto
    with False Suc show ?thesis by (subst strrchr_loop.simps) auto
  qed
qed

lemma strrchr_loop_miss:
  "(\<And>j. j \<le> n \<Longrightarrow> m (p + j) \<noteq> c) \<Longrightarrow> strrchr_loop m p c (p + n) = NULL"
proof (induction n)
  case 0
  from "0" [of 0] show ?case by (subst strrchr_loop.simps) simp
next
  case (Suc n)
  have "m (p + Suc n) \<noteq> c" by (rule Suc.prems) simp
  then show ?case using Suc by (subst strrchr_loop.simps) auto
qed

lemma strrchr_cstr:
  assumes "cstr m p s" and "c \<noteq> NUL"
  shows "(c \<notin> set s \<longrightarrow> strrchr m p c = Some NULL) \<and>
    (\<forall>i < length s. s ! i = c \<and> (\<forall>j. i < j \<and> j < length s \<longrightarrow> s ! j \<noteq> c) \<longrightarrow>
       strrchr m p c = Some (p + i))"
proof (intro conjI impI allI)
  have at: "m (p + j) = (s @ [NUL]) ! j" if "j \<le> length s" for j
    using that cstr_nth [OF assms(1)] cstr_end [OF assms(1)] by (auto simp: nth_append)
  have ret: "strrchr m p c = Some (strrchr_loop m p c (p + length s))"
    by (simp add: strrchr_def strlen_cstr [OF assms(1)])
  { assume "c \<notin> set s"
    then have "m (p + j) \<noteq> c" if "j \<le> length s" for j
      using at [OF that] that assms(2) by (auto simp: nth_append)
    then show "strrchr m p c = Some NULL"
      by (simp add: ret strrchr_loop_miss) }
  { fix i
    assume "i < length s" and *: "s ! i = c \<and> (\<forall>j. i < j \<and> j < length s \<longrightarrow> s ! j \<noteq> c)"
    then have "strrchr_loop m p c (p + length s) = p + i"
      using at assms(2) by (intro strrchr_loop_hit) (auto simp: nth_append)
    then show "strrchr m p c = Some (p + i)" by (simp add: ret) }
qed

lemma set_scan_cstr:
  "cstr m q t \<Longrightarrow> c \<noteq> NUL \<Longrightarrow>
     \<exists>a. set_scan m c q = Some a \<and> (m a = NUL \<longleftrightarrow> c \<notin> set t)"
proof (induction t arbitrary: q)
  case Nil
  then show ?case by (subst set_scan.simps) auto
next
  case (Cons d t)
  then show ?case by (subst set_scan.simps) fastforce
qed

lemma strspn_loop_cstr:
  "cstr m p s \<Longrightarrow> cstr m q t \<Longrightarrow>
     strspn_loop m p q n = Some (n + length (takeWhile (\<lambda>c. c \<in> set t) s))"
proof (induction s arbitrary: p n)
  case Nil
  then show ?case by (subst strspn_loop.simps) auto
next
  case (Cons c s)
  then obtain a where "set_scan m c q = Some a" "m a = NUL \<longleftrightarrow> c \<notin> set t"
    using set_scan_cstr [of m q t c] by auto
  then show ?case using Cons by (subst strspn_loop.simps) auto
qed

lemma strspn_cstr:
  "cstr m p s \<Longrightarrow> cstr m q t \<Longrightarrow>
     strspn m p q = Some (length (takeWhile (\<lambda>c. c \<in> set t) s))"
  by (simp add: strspn_def strspn_loop_cstr)

lemma strpbrk_cstr:
  "cstr m p s \<Longrightarrow> cstr m q t \<Longrightarrow>
     strpbrk m p q = Some (if set s \<inter> set t = {} then NULL
                           else p + length (takeWhile (\<lambda>c. c \<notin> set t) s))"
proof (induction s arbitrary: p)
  case Nil
  then show ?case by (subst strpbrk.simps) auto
next
  case (Cons c s)
  then obtain a where "set_scan m c q = Some a" "m a = NUL \<longleftrightarrow> c \<notin> set t"
    using set_scan_cstr [of m q t c] by auto
  then show ?case using Cons by (subst strpbrk.simps) auto
qed

subsection \<open>Splitting strings in place\<close>

text \<open>
  Storing a NUL inside a string cuts it in two.
\<close>

lemma cstr_cut:
  assumes "cstr m p (s @ c # t)"
  shows "cstr (m(p + length s := NUL)) p s"
    and "cstr (m(p + length s := NUL)) (Suc (p + length s)) t"
proof -
  have "cstr m (Suc (p + length s)) t"
    using cstr_suffix [OF assms] by simp
  then show "cstr (m(p + length s := NUL)) (Suc (p + length s)) t"
    by (subst cstr_cong [where m' = m]) auto
  have "NUL \<notin> set s" using cstr_no_NUL [OF assms] by auto
  moreover have "mem_get (m(p + length s := NUL)) p (Suc (length s)) = s @ [NUL]"
    using cstr_nth [OF assms] by (intro nth_equalityI) (auto simp: nth_append less_Suc_eq)
  ultimately show "cstr (m(p + length s := NUL)) p s"
    by (simp add: cstr_iff_mem_get)
qed

lemma cstr_cut_frame:
  "cstr m q t \<Longrightarrow> a < q \<or> q + length t < a \<Longrightarrow> cstr (m(a := c)) q t"
  by (subst cstr_cong [where m' = m]) auto

lemma strsep_cstr:
  assumes s: "cstr m p s" "p \<noteq> NULL" and t: "cstr m q t"
  shows "(set s \<inter> set t = {} \<longrightarrow> strsep m p q = Some (m, NULL, p)) \<and>
    (\<forall>u d v. s = u @ d # v \<and> d \<in> set t \<and> set u \<inter> set t = {} \<longrightarrow>
       (\<exists>m'. strsep m p q = Some (m', Suc (p + length u), p) \<and>
             cstr m' p u \<and> cstr m' (Suc (p + length u)) v))"
proof (intro conjI allI impI)
  assume "set s \<inter> set t = {}"
  then show "strsep m p q = Some (m, NULL, p)"
    using strpbrk_cstr [OF s(1) t] s(2) by (simp add: strsep_def)
next
  fix u d v
  assume *: "s = u @ d # v \<and> d \<in> set t \<and> set u \<inter> set t = {}"
  then have "takeWhile (\<lambda>c. c \<notin> set t) s = u"
    by (auto intro!: takeWhile_append2 [THEN trans])
  with * have "strpbrk m p q = Some (p + length u)"
    using strpbrk_cstr [OF s(1) t] by auto
  moreover have "cstr m p (u @ d # v)" using * s(1) by simp
  ultimately show "\<exists>m'. strsep m p q = Some (m', Suc (p + length u), p) \<and>
      cstr m' p u \<and> cstr m' (Suc (p + length u)) v"
    using s(2) cstr_cut by (intro exI [of _ "m(p + length u := NUL)"]) (simp add: strsep_def)
qed

text \<open>
  \<open>strtok\<close> skips the leading delimiters, returns the next token and leaves the static pointer
  behind the delimiter that ended it.
\<close>

lemma strtok_cstr:
  assumes s: "cstr m p s" "p \<noteq> NULL" and t: "cstr m q t"
    and split: "s = a @ u @ d # v" "set a \<subseteq> set t" "u \<noteq> []" "set u \<inter> set t = {}" "d \<in> set t"
  shows "\<exists>m'. strtok m tok p q = Some (m', p + length (a @ u) + 1, p + length a) \<and>
    cstr m' (p + length a) u \<and> cstr m' (p + length (a @ u) + 1) v"
proof -
  have "takeWhile (\<lambda>c. c \<in> set t) s = a"
    using split by (cases u) (auto intro!: takeWhile_append2 [THEN trans])
  then have spn: "strspn m p q = Some (length a)"
    using strspn_cstr [OF s(1) t] by simp
  have su: "cstr m (p + length a) (u @ d # v)"
    using cstr_suffix [of m p a] s(1) split(1) by simp
  have "takeWhile (\<lambda>c. c \<notin> set t) (u @ d # v) = u"
    using split by (auto intro!: takeWhile_append2 [THEN trans])
  moreover have "set (u @ d # v) \<inter> set t \<noteq> {}" using split by auto
  ultimately have brk: "strpbrk m (p + length a) q = Some (p + length a + length u)"
    using strpbrk_cstr [OF su t] by auto
  have "m (p + length a) \<noteq> NUL" "m (p + length a + length u) \<noteq> NUL"
    using cstr_nth_neq [OF su, of 0] cstr_nth_neq [OF su, of "length u"] by auto
  then show ?thesis
    using s(2) spn brk cstr_cut [OF su]
    by (intro exI [of _ "m(p + length a + length u := NUL)"]) (simp add: strtok_def Let_def add.assoc)
qed

fun swab :: "string \<Rightarrow> string" where
  "swab (a # b # s) = b # a # swab s"
| "swab s = s"

lemma length_swab [simp]: "length (swab s) = length s"
  by (induction s rule: swab.induct) auto

lemma strswab_loop_cstr: "cstr m p s \<Longrightarrow> strswab_loop p m = Some (mem_put m p (swab s))"
proof (induction s arbitrary: p m rule: swab.induct)
  case (1 a b s)
  let ?m = "m(p := b, p + 1 := a)"
  have "cstr ?m (p + 2) s"
    using 1(2) by (subst cstr_cong [where m' = m]) auto
  from 1(1) [OF this] have "strswab_loop (p + 2) ?m = Some (mem_put ?m (p + 2) (swab s))" .
  with 1(2) show ?case
    by (subst strswab_loop.simps) (auto simp: mem_put_Cons simp del: fun_upd_apply)
next
  case "2_1"
  then show ?case by (subst strswab_loop.simps) auto
next
  case "2_2"
  then show ?case
    by (subst strswab_loop.simps) (auto simp: mem_put_Cons fun_upd_idem simp del: fun_upd_apply)
qed

lemma mem_get_cstr: "cstr m p s \<Longrightarrow> n \<le> length s \<Longrightarrow> mem_get m p n = take n s"
  by (rule nth_equalityI) (auto simp: cstr_nth)

lemma memcmp_cstr:
  "cstr m p s \<Longrightarrow> cstr m q t \<Longrightarrow> length t \<le> length s \<Longrightarrow>
     memcmp m p q (length t) = 0 \<longleftrightarrow> take (length t) s = t"
  by (simp add: memcmp_eq_0 mem_get_cstr)

text \<open>\<open>occurs_at t s i\<close>: the string \<open>t\<close> stands at position \<open>i\<close> of \<open>s\<close>.\<close>

definition occurs_at :: "string \<Rightarrow> string \<Rightarrow> nat \<Rightarrow> bool" where
  "occurs_at t s i \<longleftrightarrow> take (length t) (drop i s) = t"

lemma occurs_at_length: "occurs_at t s i \<Longrightarrow> length t \<le> length s - i"
  unfolding occurs_at_def by (metis length_drop length_take min.cobounded1)

lemma strstr_loop_eq:
  assumes "cstr m q t" and "t \<noteq> []"
  shows "cstr m p s \<Longrightarrow>
    (\<exists>i. occurs_at t s i \<and> (\<forall>j < i. \<not> occurs_at t s j) \<and>
        strstr_loop m p q (length t) (length s) = p + i) \<or>
    ((\<forall>i. \<not> occurs_at t s i) \<and> strstr_loop m p q (length t) (length s) = NULL)"
proof (induction s arbitrary: p)
  case Nil
  then show ?case using assms by (auto dest: occurs_at_length)
next
  case (Cons c s)
  show ?case
  proof (cases "length t \<le> length (c # s)")
    case False
    then have "\<not> occurs_at t (c # s) i" for i
      using occurs_at_length [of t "c # s" i] by auto
    with False show ?thesis by simp
  next
    case True
    have hit: "memcmp m p q (length t) = 0 \<longleftrightarrow> occurs_at t (c # s) 0"
      using memcmp_cstr [OF Cons.prems assms(1) True] by (simp add: occurs_at_def)
    have Suc: "occurs_at t (c # s) (Suc i) = occurs_at t s i" for i
      by (simp add: occurs_at_def)
    show ?thesis
    proof (cases "occurs_at t (c # s) 0")
      case True
      with hit \<open>length t \<le> _\<close> show ?thesis by (intro disjI1 exI [of _ 0]) simp
    next
      case False
      then have step: "strstr_loop m p q (length t) (length (c # s)) =
          strstr_loop m (Suc p) q (length t) (length s)"
        using hit \<open>length t \<le> _\<close> by simp
      from Cons have "cstr m (Suc p) s" by simp
      from Cons.IH [OF this] show ?thesis
      proof (elim disjE exE conjE)
        fix i
        assume "occurs_at t s i" "\<forall>j < i. \<not> occurs_at t s j"
          "strstr_loop m (Suc p) q (length t) (length s) = Suc p + i"
        with False step show ?thesis
          by (intro disjI1 exI [of _ "Suc i"]) (auto simp: less_Suc_eq_0_disj Suc)
      next
        assume *: "\<forall>i. \<not> occurs_at t s i" "strstr_loop m (Suc p) q (length t) (length s) = NULL"
        have "\<not> occurs_at t (c # s) i" for i
          using * False by (cases i) (auto simp: Suc)
        with * step show ?thesis by simp
      qed
    qed
  qed
qed

lemma strstr_cstr:
  assumes "cstr m p s" and "cstr m q t"
  shows "(\<exists>i. occurs_at t s i \<and> (\<forall>j < i. \<not> occurs_at t s j) \<and> strstr m p q = Some (p + i)) \<or>
    ((\<forall>i. \<not> occurs_at t s i) \<and> strstr m p q = Some NULL)"
proof (cases "t = []")
  case True
  then have "occurs_at t s 0" by (simp add: occurs_at_def)
  with True assms show ?thesis
    by (intro disjI1 exI [of _ 0]) (simp add: strstr_def strlen_cstr [OF assms(2)])
next
  case False
  then show ?thesis
    using strstr_loop_eq [OF assms(2) False assms(1)] assms by (simp add: strstr_def strlen_cstr)
qed


section \<open>Properties\<close>

text \<open>\<^verbatim>\<open>memmove\<close> copies correctly whatever the overlap of source and destination: the destination
  then holds the bytes the source held before, and no other byte changes.\<close>

theorem memmove_correct: "memmove dest src n m = (mem_put m dest (mem_get m src n), dest)"
  by (rule memmove_eq)

text \<open>\<^verbatim>\<open>memcpy\<close>, with its word-wise loop for aligned pointers, copies correctly when the regions do
  not overlap or the destination is the lower one.\<close>

theorem memcpy_correct:
  assumes "dest \<le> src \<or> src + n \<le> dest"
  shows "memcpy dest src n m = (mem_put m dest (mem_get m src n), dest)"
  by (rule memcpy_eq [OF assms])

theorem memcpy_correct_witness:
  "memcpy 8 4 4 (\<lambda>a. CHR ''u'') = (mem_put (\<lambda>a. CHR ''u'') 8 (mem_get (\<lambda>a. CHR ''u'') 4 4), 8)"
  by (rule memcpy_correct) simp

text \<open>On two C strings \<^verbatim>\<open>strcmp\<close> returns, with 0 exactly for equal strings; for ASCII strings its
  sign is the lexicographic order.\<close>

theorem strcmp_correct:
  assumes "cstr m p s" "cstr m q t"
  shows "\<exists>d. strcmp m p q = Some d \<and> (d = 0 \<longleftrightarrow> s = t) \<and>
    (ascii s \<and> ascii t \<longrightarrow> (d < 0 \<longleftrightarrow> (map of_char s, map of_char t) \<in> lexord {(a :: nat, b). a < b}))"
  using strcmp_cstr [OF assms] cstr_no_NUL [OF assms(1)] cstr_no_NUL [OF assms(2)]
    str_diff_eq_0 [of s t] str_diff_sign [of s t] by auto

theorem strcmp_correct_witness:
  "\<exists>d. strcmp (mem_put (mem_put (\<lambda>_. NUL) 10 ''ab'') 20 ''ac'') 10 20 = Some d \<and> d \<noteq> 0"
proof -
  let ?m = "mem_put (mem_put (\<lambda>_. NUL) 10 ''ab'') 20 ''ac''"
  have "cstr ?m 10 ''ab''" "cstr ?m 20 ''ac''" by (simp_all add: mem_put_def)
  from strcmp_correct [OF this] show ?thesis by auto
qed

text \<open>\<^verbatim>\<open>strstr\<close> returns the address of the first occurrence, and NULL exactly when there is none.\<close>

theorem strstr_correct:
  assumes "cstr m p s" "cstr m q t"
  shows "(\<exists>i. occurs_at t s i \<and> (\<forall>j < i. \<not> occurs_at t s j) \<and> strstr m p q = Some (p + i)) \<or>
    ((\<forall>i. \<not> occurs_at t s i) \<and> strstr m p q = Some NULL)"
  by (rule strstr_cstr [OF assms])

theorem strstr_correct_witness:
  "\<exists>r. strstr (mem_put (mem_put (\<lambda>_. NUL) 10 ''abc'') 20 ''bc'') 10 20 = Some r"
proof -
  let ?m = "mem_put (mem_put (\<lambda>_. NUL) 10 ''abc'') 20 ''bc''"
  have "cstr ?m 10 ''abc''" "cstr ?m 20 ''bc''" by (simp_all add: mem_put_def)
  from strstr_correct [OF this] show ?thesis by auto
qed

end
