(* ===== verification/C_Ctype.thy ===== *)
theory C_Ctype
  imports Uboot_Prelude
begin

text \<open>
  Character classes: the table of \<^verbatim>\<open>lib_generic/ctype.c\<close> and the macros of
  \<^verbatim>\<open>include/linux/ctype.h\<close> that read it. The lemmas turn the table look-ups that the number
  parser makes into ranges of characters.
\<close>

section \<open>The code\<close>

abbreviation (input) CT_U :: u8 where "CT_U \<equiv> 0x01"
abbreviation (input) CT_L :: u8 where "CT_L \<equiv> 0x02"
abbreviation (input) CT_D :: u8 where "CT_D \<equiv> 0x04"
abbreviation (input) CT_C :: u8 where "CT_C \<equiv> 0x08"
abbreviation (input) CT_P :: u8 where "CT_P \<equiv> 0x10"
abbreviation (input) CT_S :: u8 where "CT_S \<equiv> 0x20"
abbreviation (input) CT_X :: u8 where "CT_X \<equiv> 0x40"
abbreviation (input) CT_SP :: u8 where "CT_SP \<equiv> 0x80"

text \<open>The rows of the array, run by run, in the order of the source.\<close>

definition ctype_table :: "u8 list" where
  "ctype_table =
     replicate 9 CT_C @ replicate 5 (CT_C OR CT_S) @ replicate 18 CT_C @
     [CT_S OR CT_SP] @ replicate 15 CT_P @
     replicate 10 CT_D @ replicate 7 CT_P @
     replicate 6 (CT_U OR CT_X) @ replicate 20 CT_U @ replicate 6 CT_P @
     replicate 6 (CT_L OR CT_X) @ replicate 20 CT_L @ replicate 4 CT_P @ [CT_C] @
     replicate 32 0 @
     [CT_S OR CT_SP] @ replicate 31 CT_P @
     replicate 23 CT_U @ [CT_P] @ replicate 7 CT_U @ [CT_L] @
     replicate 23 CT_L @ [CT_P] @ replicate 8 CT_L"

definition ismask :: "char \<Rightarrow> u8" where
  "ismask c = ctype_table ! of_char c"

definition isalnum :: "char \<Rightarrow> bool" where
  "isalnum c \<longleftrightarrow> ismask c AND (CT_U OR CT_L OR CT_D) \<noteq> 0"

definition isdigit :: "char \<Rightarrow> bool" where
  "isdigit c \<longleftrightarrow> ismask c AND CT_D \<noteq> 0"

definition islower :: "char \<Rightarrow> bool" where
  "islower c \<longleftrightarrow> ismask c AND CT_L \<noteq> 0"

definition isupper :: "char \<Rightarrow> bool" where
  "isupper c \<longleftrightarrow> ismask c AND CT_U \<noteq> 0"

definition isspace :: "char \<Rightarrow> bool" where
  "isspace c \<longleftrightarrow> ismask c AND CT_S \<noteq> 0"

definition isprint :: "char \<Rightarrow> bool" where
  "isprint c \<longleftrightarrow> ismask c AND (CT_P OR CT_U OR CT_L OR CT_D OR CT_SP) \<noteq> 0"

definition isxdigit :: "char \<Rightarrow> bool" where
  "isxdigit c \<longleftrightarrow> ismask c AND (CT_D OR CT_X) \<noteq> 0"

definition toupper :: "char \<Rightarrow> char" where
  "toupper c = (if islower c then char_of (of_char c - 32 :: nat) else c)"

definition tolower :: "char \<Rightarrow> char" where
  "tolower c = (if isupper c then char_of (of_char c + 32 :: nat) else c)"

section \<open>What the look-ups decide\<close>

lemma length_ctype_table: "length ctype_table = 256"
  by (simp add: ctype_table_def)

text \<open>The look-up as a case split on the runs of the table.\<close>

lemma ctype_table_nth:
  "n < 256 \<Longrightarrow> ctype_table ! n =
     (if n < 9 then CT_C else if n < 14 then CT_C OR CT_S else if n < 32 then CT_C
      else if n = 32 then CT_S OR CT_SP else if n < 48 then CT_P
      else if n < 58 then CT_D else if n < 65 then CT_P
      else if n < 71 then CT_U OR CT_X else if n < 91 then CT_U else if n < 97 then CT_P
      else if n < 103 then CT_L OR CT_X else if n < 123 then CT_L
      else if n < 127 then CT_P else if n = 127 then CT_C else if n < 160 then 0
      else if n = 160 then CT_S OR CT_SP else if n < 192 then CT_P
      else if n < 215 then CT_U else if n = 215 then CT_P else if n < 223 then CT_U
      else if n = 223 then CT_L else if n < 247 then CT_L else if n = 247 then CT_P else CT_L)"
  by (simp add: ctype_table_def nth_append nth_Cons' less_diff_conv2 split del: if_split cong: if_cong)

lemma ismask_eq: "ismask c = ctype_table ! of_char c" "of_char c < (256 :: nat)"
  by (simp_all add: ismask_def)

lemma isdigit_iff: "isdigit c \<longleftrightarrow> 48 \<le> (of_char c :: nat) \<and> (of_char c :: nat) \<le> 57"
  by (simp add: isdigit_def ismask_eq ctype_table_nth)

lemma isxdigit_iff:
  "isxdigit c \<longleftrightarrow> (48 \<le> (of_char c :: nat) \<and> (of_char c :: nat) \<le> 57) \<or>
     (65 \<le> (of_char c :: nat) \<and> (of_char c :: nat) \<le> 70) \<or>
     (97 \<le> (of_char c :: nat) \<and> (of_char c :: nat) \<le> 102)"
  by (simp add: isxdigit_def ismask_eq ctype_table_nth)

lemma islower_ascii_iff:
  "(of_char c :: nat) < 128 \<Longrightarrow> islower c \<longleftrightarrow> 97 \<le> (of_char c :: nat) \<and> (of_char c :: nat) \<le> 122"
  by (simp add: islower_def ismask_eq ctype_table_nth)

end
