(* ===== verification/C_Div64.thy ===== *)
theory C_Div64
  imports Uboot_Prelude
begin

text \<open>
  64-bit by 32-bit division: \<^verbatim>\<open>__div64_32\<close> of \<^verbatim>\<open>lib_generic/div64.c\<close> and the macro \<^verbatim>\<open>do_div\<close> of
  \<^verbatim>\<open>include/div64.h\<close>, at their widths. The result of both is the pair of the new dividend (the
  quotient) and the remainder. The lemmas show that the shift-and-subtract loop is division.
\<close>

section \<open>The code\<close>

text \<open>The loop that doubles the divisor until it reaches the remainder.\<close>

function div64_double :: "u64 \<Rightarrow> u64 \<Rightarrow> u64 \<Rightarrow> u64 \<times> u64" where
  "div64_double r b d =
     (if 0 < sint b \<and> b < r then div64_double r (b + b) (d + d) else (b, d))"
  by pat_completeness auto
termination
proof (relation "measure (\<lambda>(r, b, d). 2 ^ 64 - unat b)")
  fix r b d :: u64
  assume "0 < sint b \<and> b < r"
  then have "0 < unat b" and "unat b < 2 ^ 63"
    using sint_nonneg_less [of b] by (auto simp: unat_gt_0)
  then show "((r, b + b, d + d), (r, b, d)) \<in> measure (\<lambda>(r, b, d). 2 ^ 64 - unat b)"
    by (simp add: unat_word_ariths)
qed simp

declare div64_double.simps [simp del]

text \<open>The loop that subtracts and halves.\<close>

function div64_halve :: "u64 \<Rightarrow> u64 \<Rightarrow> u64 \<Rightarrow> u64 \<Rightarrow> u64 \<times> u64" where
  "div64_halve r b d res =
     (let (r', res') = (if b \<le> r then (r - b, res + d) else (r, res));
          b' = drop_bit 1 b; d' = drop_bit 1 d
      in if d' \<noteq> 0 then div64_halve r' b' d' res' else (res', r'))"
  by pat_completeness auto
termination
proof (relation "measure (\<lambda>(r, b, d, res). unat d)")
  fix r b d res :: u64 and x r' res' b' d'
  assume "d' = drop_bit 1 d" and "d' \<noteq> 0"
  then have "unat d' = unat d div 2" and "0 < unat d"
    by (simp_all only: unat_drop_bit_eq) (auto simp: drop_bit_eq_div unat_gt_0)
  then show "((r', b', d', res'), (r, b, d, res)) \<in> measure (\<lambda>(r, b, d, res). unat d)"
    by simp
qed simp

declare div64_halve.simps [simp del]

definition div64_32 :: "u64 \<Rightarrow> u32 \<Rightarrow> u64 \<times> u32" where
  "div64_32 n base =
     (let high = ucast (drop_bit 32 n) :: u32;
          (res, r) = (if base \<le> high
            then let h = high div base in (push_bit 32 (ucast h), n - push_bit 32 (ucast (h * base)))
            else (0, n));
          (b, d) = div64_double r (ucast base) 1;
          (res', r') = div64_halve r b d res
      in (res', ucast r'))"

definition do_div :: "u64 \<Rightarrow> u32 \<Rightarrow> u64 \<times> u32" where
  "do_div n base =
     (if drop_bit 32 n = 0 then (ucast (ucast n div base :: u32), ucast n mod base)
      else div64_32 n base)"

section \<open>The loops divide\<close>

lemma div64_double_spec:
  assumes "unat b = B * 2 ^ k" and "unat d = 2 ^ k" and "0 < B"
  shows "\<exists>k' b' d'. div64_double r b d = (b', d') \<and> unat b' = B * 2 ^ k' \<and>
    unat d' = 2 ^ k' \<and> unat r < 2 * unat b'"
  using assms
proof (induction r b d arbitrary: k rule: div64_double.induct)
  case (1 r b d)
  have le: "unat d \<le> unat b" and pos: "0 < unat b" using "1.prems" by simp_all
  show ?case
  proof (cases "0 < sint b \<and> b < r")
    case True
    then have "unat b < 2 ^ 63"
      using sint_nonneg_less [of b] by auto
    with le have "unat (b + b) = 2 * unat b" "unat (d + d) = 2 * unat d"
      by (simp_all add: unat_word_ariths)
    then have "unat (b + b) = B * 2 ^ Suc k" "unat (d + d) = 2 ^ Suc k"
      using "1.prems" by simp_all
    from "1.IH" [OF True this \<open>0 < B\<close>] True show ?thesis
      by (simp add: div64_double.simps [of r b d])
  next
    case False
    have "unat r < 2 * unat b"
    proof (cases "unat b < 2 ^ 63")
      case True
      then have "0 < sint b"
        using sint_small_eq_uint [of b] pos by (simp add: uint_nat del: of_nat_unat)
      with False pos show ?thesis by (simp add: word_le_nat_alt not_less)
    next
      case big: False
      then show ?thesis using unat_less_u64 [of r] by simp
    qed
    with False "1.prems" show ?thesis
      by (auto simp: div64_double.simps [of r b d] intro!: exI [of _ k])
  qed
qed

text \<open>One subtraction keeps the equation \<open>N = quotient * B + remainder\<close>.\<close>

lemma div64_subtract:
  fixes r b d res :: u64
  assumes "unat b = B * unat d" and "0 < B" and "unat r < 2 * unat b"
    and "unat res * B + unat r = N" and "N < 2 ^ 64"
  defines "r' \<equiv> if b \<le> r then r - b else r" and "res' \<equiv> if b \<le> r then res + d else res"
  shows "unat r' < unat b \<and> unat res' * B + unat r' = N"
proof (cases "b \<le> r")
  case True
  then have le: "unat b \<le> unat r" by (simp add: word_le_nat_alt)
  have "unat (r - b) = unat r - unat b" using True by (rule unat_sub)
  have eq: "(unat res + unat d) * B + (unat r - unat b) = N"
    using assms(1,4) le by (simp add: algebra_simps)
  moreover have "unat res + unat d \<le> (unat res + unat d) * B" using assms(2) by simp
  ultimately have "unat res + unat d < 2 ^ 64" using assms(5) by linarith
  then have "unat (res + d) = unat res + unat d" by (simp add: unat_word_ariths)
  with True eq \<open>unat (r - b) = _\<close> le assms(3) show ?thesis by (simp add: r'_def res'_def)
next
  case False
  with assms(4) show ?thesis by (simp add: r'_def res'_def word_le_nat_alt)
qed

lemma unat_drop_bit_1: "unat (drop_bit 1 w) = unat w div 2" for w :: u64
  by (simp only: unat_drop_bit_eq) (simp add: drop_bit_eq_div)

lemma div64_halve_spec:
  assumes "unat b = B * 2 ^ k" and "unat d = 2 ^ k" and "0 < B"
    and "unat r < 2 * unat b" and "unat res * B + unat r = N" and "N < 2 ^ 64"
  shows "\<exists>q s. div64_halve r b d res = (q, s) \<and> unat q = N div B \<and> unat s = N mod B"
  using assms
proof (induction k arbitrary: r b d res)
  case (0 r b d res)
  define r' res' where "r' = (if b \<le> r then r - b else r)" and "res' = (if b \<le> r then res + d else res)"
  have *: "unat r' < B" "unat res' * B + unat r' = N"
    using div64_subtract [of b B d r res N] 0 by (auto simp: r'_def res'_def)
  have "unat (drop_bit 1 d) = 0" using 0 by (simp only: unat_drop_bit_1) simp
  then have "drop_bit 1 d = 0" by (simp only: unat_eq_0)
  then have "div64_halve r b d res = (res', r')"
    by (subst div64_halve.simps) (simp add: r'_def res'_def Let_def)
  moreover have "N div B = unat res'" "N mod B = unat r'"
    using * by (auto simp: div_nat_eqI mod_nat_eqI algebra_simps)
  ultimately show ?case by simp
next
  case (Suc k r b d res)
  define r' res' where "r' = (if b \<le> r then r - b else r)" and "res' = (if b \<le> r then res + d else res)"
  have *: "unat r' < unat b" "unat res' * B + unat r' = N"
    using div64_subtract [of b B d r res N] Suc.prems by (auto simp: r'_def res'_def)
  have half: "unat (drop_bit 1 b) = B * 2 ^ k" "unat (drop_bit 1 d) = 2 ^ k"
    using Suc.prems by (simp_all only: unat_drop_bit_1) simp_all
  moreover from this have "drop_bit 1 d \<noteq> 0" by (metis power_not_zero unat_0 zero_neq_numeral)
  then have "div64_halve r b d res = div64_halve r' (drop_bit 1 b) (drop_bit 1 d) res'"
    by (subst div64_halve.simps) (simp add: r'_def res'_def Let_def)
  moreover have "unat r' < 2 * unat (drop_bit 1 b)"
    using *(1) Suc.prems(1) half by simp
  ultimately show ?case
    using Suc.IH [OF half \<open>0 < B\<close> _ *(2) \<open>N < 2 ^ 64\<close>] by simp
qed

lemma unat_ucast_64 [simp]: "unat (ucast w :: u64) = unat w" for w :: u32
  by (simp add: unsigned_ucast_eq take_bit_nat_eq_self unsigned_less [THEN order.strict_trans])

lemma unat_high: "unat (ucast (drop_bit 32 n) :: u32) = unat n div 2 ^ 32" for n :: u64
proof -
  have "unat n div 2 ^ 32 < 2 ^ 32"
    using unat_less_u64 [of n] by (simp add: less_mult_imp_div_less)
  then show ?thesis
    by (simp only: unsigned_ucast_eq unat_drop_bit_eq) (simp add: take_bit_nat_eq_self drop_bit_eq_div)
qed

lemma unat_push_32: "unat (push_bit 32 (ucast w) :: u64) = unat w * 2 ^ 32" for w :: u32
proof -
  have "unat w * 2 ^ 32 < 2 ^ 64"
    using unat_less_u32 [of w] by simp
  then show ?thesis
    by (simp only: unsigned_push_bit_eq unat_ucast_64) (simp add: push_bit_eq_mult take_bit_nat_eq_self)
qed

lemma div64_32_spec:
  assumes "base \<noteq> 0"
  shows "\<exists>q s. div64_32 n base = (q, s) \<and> unat q = unat n div unat base \<and> unat s = unat n mod unat base"
proof -
  define high :: u32 where "high = ucast (drop_bit 32 n)"
  define h where "h = high div base"
  define res :: u64 where "res = (if base \<le> high then push_bit 32 (ucast h) else 0)"
  define r where "r = (if base \<le> high then n - push_bit 32 (ucast (h * base)) else n)"
  have B: "0 < unat base" using assms by (simp add: unat_gt_0)
  have h: "unat h * unat base \<le> unat high" by (simp add: h_def unat_div_distrib)
  then have "unat (h * base) = unat h * unat base"
    using unat_less_u32 [of high] by (simp add: unat_word_ariths)
  then have sub: "unat (push_bit 32 (ucast (h * base)) :: u64) = unat h * unat base * 2 ^ 32"
    by (simp only: unat_push_32)
  have "unat h * unat base * 2 ^ 32 \<le> unat high * 2 ^ 32" using h by simp
  also have "\<dots> \<le> unat n" by (simp add: high_def unat_high)
  finally have le: "unat h * unat base * 2 ^ 32 \<le> unat n" .
  have eq: "unat res * unat base + unat r = unat n"
    using le sub by (simp add: res_def r_def unat_sub word_le_nat_alt unat_push_32 algebra_simps)
  obtain k b d where bd: "div64_double r (ucast base) 1 = (b, d)" "unat b = unat base * 2 ^ k"
    "unat d = 2 ^ k" "unat r < 2 * unat b"
    using div64_double_spec [of "ucast base" "unat base" 0 1 r] B by auto
  obtain q s where qs: "div64_halve r b d res = (q, s)" "unat q = unat n div unat base"
    "unat s = unat n mod unat base"
    using div64_halve_spec [OF bd(2,3) B bd(4) eq] unat_less_u64 [of n] by auto
  have "unat s < 2 ^ 32"
    using qs(3) B unat_less_u32 [of base]
    by (metis mod_less_divisor order.strict_trans)
  then have "unat (ucast s :: u32) = unat s"
    by (simp add: unsigned_ucast_eq take_bit_nat_eq_self)
  moreover have "div64_32 n base = (q, ucast s)"
    using bd(1) qs(1) by (simp add: div64_32_def Let_def res_def r_def h_def high_def split: if_splits)
  ultimately show ?thesis using qs by simp
qed

lemma do_div_spec:
  assumes "base \<noteq> 0"
  shows "\<exists>q s. do_div n base = (q, s) \<and> unat q = unat n div unat base \<and> unat s = unat n mod unat base"
proof (cases "drop_bit 32 n = 0")
  case False
  then show ?thesis using div64_32_spec [OF assms, of n] by (simp add: do_div_def)
next
  case True
  then have "unat n div 2 ^ 32 = 0"
    using unat_high [of n] by simp
  then have "unat n < 2 ^ 32" by (simp add: div_eq_0_iff)
  then have "unat (ucast n :: u32) = unat n"
    by (simp add: unsigned_ucast_eq take_bit_nat_eq_self)
  then show ?thesis using True by (simp add: do_div_def unat_div_distrib unat_mod_distrib)
qed


text \<open>\<^verbatim>\<open>do_div\<close>, which divides 64 bits by 32 with shifts and subtractions only, gives the exact
  quotient and remainder for every dividend and every non-zero divisor.\<close>

theorem do_div_correct:
  assumes "base \<noteq> 0"
  shows "\<exists>q s. do_div n base = (q, s) \<and> unat q = unat n div unat base \<and> unat s = unat n mod unat base"
  by (rule do_div_spec [OF assms])

theorem do_div_correct_witness:
  "\<exists>q s. do_div 0x123456789ABCDEF 1000 = (q, s) \<and> unat q = 0x123456789ABCDEF div 1000 \<and> unat s = 0x123456789ABCDEF mod 1000"
  using do_div_correct [of 1000 "0x123456789ABCDEF"] by simp

end
