(* ===== verification/C_Format.thy ===== *)
theory C_Format
  imports C_Ctype C_Div64 "HOL-Library.Monad_Syntax"
begin

text \<open>
  Numbers to and from text: the parsers and the formatters of \<^verbatim>\<open>lib_generic/vsprintf.c\<close>.

  A NUL-terminated input is the list of its characters before the NUL; a pointer into it is the
  suffix that is left, so that reading at the end gives the NUL (\<open>at\<close>). A parser returns the
  value and the suffix it stopped at, which is what \<^verbatim>\<open>*endp\<close> receives. A formatter returns the
  characters it appends to the buffer.
\<close>

section \<open>The code\<close>

text \<open>Reading a C string at an index, the NUL at its end included.\<close>

definition at :: "string \<Rightarrow> nat \<Rightarrow> char" where
  "at s i = (if i < length s then s ! i else NUL)"

subsection \<open>Parsing numbers\<close>

definition digit_value :: "char \<Rightarrow> nat" where
  "digit_value c =
     (if isdigit c then of_char c - 48
      else of_char (if islower c then toupper c else c) - 65 + 10)"

fun strtou_digits :: "'a::len word \<Rightarrow> 'a word \<Rightarrow> string \<Rightarrow> 'a word \<times> string" where
  "strtou_digits base result [] = (result, [])"
| "strtou_digits base result (c # cs) =
     (if isxdigit c \<and> of_nat (digit_value c) < base
      then strtou_digits base (result * base + of_nat (digit_value c)) cs
      else (result, c # cs))"

text \<open>The prefix and the base: \<^verbatim>\<open>0x\<close> forces 16, a leading 0 makes base 0 octal, else decimal.\<close>

definition strtou_base :: "string \<Rightarrow> nat \<Rightarrow> nat \<times> string" where
  "strtou_base cp base =
     (let (base1, cp1) =
        (if at cp 0 = CHR ''0''
         then let cp' = tl cp;
                  (b, p) = (if at cp' 0 = CHR ''x'' \<and> isxdigit (at cp' 1)
                            then (16, tl cp') else (base, cp'))
              in (if b = 0 then 8 else b, p)
         else (base, cp))
      in (if base1 = 0 then 10 else base1, cp1))"

definition simple_strtoul :: "string \<Rightarrow> nat \<Rightarrow> u32 \<times> string" where
  "simple_strtoul cp base =
     (let (b, p) = strtou_base cp base in strtou_digits (of_nat b) 0 p)"

definition simple_strtol :: "string \<Rightarrow> nat \<Rightarrow> u32 \<times> string" where
  "simple_strtol cp base =
     (if at cp 0 = CHR ''-''
      then let (v, p) = simple_strtoul (tl cp) base in (- v, p)
      else simple_strtoul cp base)"

definition simple_strtoull :: "string \<Rightarrow> nat \<Rightarrow> u64 \<times> string" where
  "simple_strtoull cp base =
     (let (b, p) = strtou_base cp base in strtou_digits (of_nat b) 0 p)"

definition ustrtoul :: "string \<Rightarrow> nat \<Rightarrow> u32 \<times> string" where
  "ustrtoul cp base =
     (let (result, endp) = simple_strtoul cp base;
          c = at endp 0;
          r1 = (if c = CHR ''G'' then result * 1024 else result);
          r2 = (if c = CHR ''G'' \<or> c = CHR ''M'' then r1 * 1024 else r1);
          kilo = (c = CHR ''G'' \<or> c = CHR ''M'' \<or> c = CHR ''K'' \<or> c = CHR ''k'')
      in if kilo
         then (r2 * 1024,
               if at endp 1 = CHR ''i''
               then (if at endp 2 = CHR ''B'' then drop 3 endp else drop 2 endp) else endp)
         else (r2, endp))"

definition is_digit :: "char \<Rightarrow> bool" where
  "is_digit c \<longleftrightarrow> 48 \<le> (of_char c :: nat) \<and> (of_char c :: nat) \<le> 57"

fun skip_atoi_loop :: "int \<Rightarrow> string \<Rightarrow> int \<times> string" where
  "skip_atoi_loop i [] = (i, [])"
| "skip_atoi_loop i (c # s) =
     (if is_digit c then skip_atoi_loop (i * 10 + of_char c - 48) s else (i, c # s))"

definition skip_atoi :: "string \<Rightarrow> int \<times> string" where
  "skip_atoi s = skip_atoi_loop 0 s"

subsection \<open>Decimal digits without division\<close>

definition pack_hex_byte :: "u8 \<Rightarrow> string" where
  "pack_hex_byte byte =
     [''0123456789abcdef'' ! unat (drop_bit 4 (byte AND 0xf0)), ''0123456789abcdef'' ! unat (byte AND 0x0f)]"

definition put_char :: "u32 \<Rightarrow> char" where
  "put_char d = char_of (unat (d + 48))"

definition put_dec_trunc :: "u32 \<Rightarrow> string" where
  "put_dec_trunc q =
     (let d1 = drop_bit 4 q AND 0xf; d2 = drop_bit 8 q AND 0xf; d3 = drop_bit 12 q;
          d0 = 6 * (d3 + d2 + d1) + (q AND 0xf);
          q0 = drop_bit 11 (d0 * 0xcd);
          d1' = q0 + 9 * d3 + 5 * d2 + d1
      in put_char (d0 - 10 * q0) #
         (if d1' \<noteq> 0
          then let q1 = drop_bit 11 (d1' * 0xcd); d2' = q1 + 2 * d2
               in put_char (d1' - 10 * q1) #
                  (if d2' \<noteq> 0 \<or> d3 \<noteq> 0
                   then let q2 = drop_bit 7 (d2' * 0xd); d3' = q2 + 4 * d3
                        in put_char (d2' - 10 * q2) #
                           (if d3' \<noteq> 0
                            then let q3 = drop_bit 11 (d3' * 0xcd)
                                 in put_char (d3' - 10 * q3) #
                                    (if q3 \<noteq> 0 then [put_char q3] else [])
                            else [])
                   else [])
          else []))"

definition put_dec_full :: "u32 \<Rightarrow> string" where
  "put_dec_full q =
     (let d1 = drop_bit 4 q AND 0xf; d2 = drop_bit 8 q AND 0xf; d3 = drop_bit 12 q;
          d0 = 6 * (d3 + d2 + d1) + (q AND 0xf);
          q0 = drop_bit 11 (d0 * 0xcd);
          d1' = q0 + 9 * d3 + 5 * d2 + d1;
          q1 = drop_bit 11 (d1' * 0xcd);
          d2' = q1 + 2 * d2;
          q2 = drop_bit 7 (d2' * 0xd);
          d3' = q2 + 4 * d3;
          q3 = drop_bit 11 (d3' * 0xcd)
      in [put_char (d0 - 10 * q0), put_char (d1' - 10 * q1), put_char (d2' - 10 * q2),
          put_char (d3' - 10 * q3), put_char q3])"

function put_dec :: "u64 \<Rightarrow> string" where
  "put_dec num =
     (if num < 100000 then put_dec_trunc (ucast num)
      else let (num', r) = do_div num 100000 in put_dec_full r @ put_dec num')"
  by pat_completeness auto
termination
proof (relation "measure unat")
  fix num :: u64 and x num' r
  assume a: "\<not> num < 100000" "x = do_div num 100000" "(num', r) = x"
  then have "unat num' = unat num div 100000"
    using do_div_spec [of 100000 num] by auto
  moreover have "100000 \<le> unat num" using a(1) by (simp add: word_less_nat_alt)
  ultimately show "(num', num) \<in> measure unat" by simp
qed simp

declare put_dec.simps [simp del]

subsection \<open>Formatting\<close>

text \<open>The flags of \<^verbatim>\<open>number()\<close>, and the two padding loops: each returns what it emits and the value
  its counter is left with, since later loops go on from that value.\<close>

definition ZEROPAD :: u32 where "ZEROPAD = 1"
definition SIGN :: u32 where "SIGN = 2"
definition PLUS :: u32 where "PLUS = 4"
definition SPACE :: u32 where "SPACE = 8"
definition LEFT :: u32 where "LEFT = 16"
definition SMALL :: u32 where "SMALL = 32"
definition SPECIAL :: u32 where "SPECIAL = 64"

lemmas flag_defs = ZEROPAD_def SIGN_def PLUS_def SPACE_def LEFT_def SMALL_def SPECIAL_def

definition has :: "u32 \<Rightarrow> u32 \<Rightarrow> bool" where
  "has type fl \<longleftrightarrow> type AND fl \<noteq> 0"

definition pad :: "char \<Rightarrow> int \<Rightarrow> string \<times> int" where
  "pad c sz = (replicate (nat sz) c, min sz 0 - 1)"

definition or_case :: "char \<Rightarrow> u8 \<Rightarrow> char" where
  "or_case c locase = char_of (unat ((of_char c :: u8) OR locase))"

function radix_digits :: "nat \<Rightarrow> u8 \<Rightarrow> u64 \<Rightarrow> string" where
  "radix_digits base locase num =
     (let msk = of_nat base - 1; shift = (if base = 16 then 4 else 3);
          c = or_case (''0123456789ABCDEF'' ! unat ((ucast num :: u8) AND msk)) locase;
          num' = drop_bit shift num
      in if num' \<noteq> 0 then c # radix_digits base locase num' else [c])"
  by pat_completeness auto
termination
proof (relation "measure (\<lambda>(_, _, n). unat n)")
  fix base :: nat and shift :: nat and locase :: u8 and num num' :: u64
  assume a: "shift = (if base = 16 then 4 else 3)" "num' = drop_bit shift num" "num' \<noteq> 0"
  have "unat num' = unat num div 2 ^ shift"
    unfolding a(2) by (simp only: unat_drop_bit_eq) (simp only: drop_bit_eq_div)
  moreover have "0 < unat num'" using a(3) by (simp add: unat_gt_0)
  moreover have "(1 :: nat) < 2 ^ shift" using a(1) by (intro one_less_power) simp_all
  ultimately have "unat num' < unat num" by (metis div_less_dividend div_0 neq0_conv)
  then show "((base, locase, num'), (base, locase, num)) \<in> measure (\<lambda>(_, _, n). unat n)" by simp
qed simp

declare radix_digits.simps [simp del]

text \<open>The digits of \<^verbatim>\<open>number()\<close> in \<^verbatim>\<open>tmp[]\<close>, least significant first.\<close>

definition number_tmp :: "u64 \<Rightarrow> nat \<Rightarrow> u8 \<Rightarrow> string" where
  "number_tmp num base locase =
     (if num = 0 then ''0''
      else if base \<noteq> 10 then radix_digits base locase num
      else put_dec num)"

definition number :: "u64 \<Rightarrow> nat \<Rightarrow> int \<Rightarrow> int \<Rightarrow> u32 \<Rightarrow> string" where
  "number num0 base size0 precision0 type0 =
     (let need_pfx = (has type0 SPECIAL \<and> base \<noteq> 10);
          locase = ucast (type0 AND SMALL);
          type = (if has type0 LEFT then type0 AND NOT ZEROPAD else type0);
          neg = (has type SIGN \<and> num0 <s 0);
          num = (if neg then - num0 else num0);
          sign = (if neg then ''-''
                  else if has type SIGN \<and> has type PLUS then ''+''
                  else if has type SIGN \<and> has type SPACE then '' '' else []);
          size1 = size0 - int (length sign);
          size2 = (if need_pfx then size1 - (if base = 16 then 2 else 1) else size1);
          tmp = number_tmp num base locase;
          precision = max precision0 (int (length tmp));
          size3 = size2 - precision;
          (lead, size4) = (if \<not> has type (ZEROPAD + LEFT) then pad CHR '' '' size3 else ([], size3));
          prefix = (if need_pfx
                    then CHR ''0'' # (if base = 16 then [or_case (CHR ''X'') locase] else []) else []);
          (mid, size5) = (if \<not> has type LEFT
                          then pad (if has type ZEROPAD then CHR ''0'' else CHR '' '') size4 else ([], size4));
          zeros = replicate (nat (precision - int (length tmp))) (CHR ''0'');
          (trail, size6) = pad CHR '' '' size5
      in lead @ sign @ prefix @ mid @ zeros @ rev tmp @ trail)"

text \<open>\<^verbatim>\<open>string()\<close>: the precision is the unsigned count of \<^verbatim>\<open>strnlen\<close>, so that -1 is no limit.\<close>

definition pad_to :: "int \<Rightarrow> int \<Rightarrow> string \<times> int" where
  "pad_to len field_width = (replicate (nat (field_width - len)) CHR '' '', min field_width len - 1)"

definition string_fmt :: "string option \<Rightarrow> int \<Rightarrow> int \<Rightarrow> u32 \<Rightarrow> string" where
  "string_fmt s0 field_width precision flags =
     (let s = (case s0 of None \<Rightarrow> ''<NULL>'' | Some s \<Rightarrow> s);
          len = nat (min (int (length s)) (uint (of_int precision :: u32)));
          (lead, fw) = (if \<not> has flags LEFT then pad_to (int len) field_width else ([], field_width));
          (trail, fw') = pad_to (int len) fw
      in lead @ take len s @ trail)"

definition mac_address_string :: "u8 list \<Rightarrow> int \<Rightarrow> int \<Rightarrow> u32 \<Rightarrow> string" where
  "mac_address_string bytes field_width precision flags =
     string_fmt (Some (concat (map (\<lambda>i. pack_hex_byte (bytes ! i) @
                                     (if \<not> has flags SPECIAL \<and> i \<noteq> 5 then '':'' else [])) [0..<6])))
       field_width precision (flags AND NOT SPECIAL)"

definition ip6_addr_string :: "u8 list \<Rightarrow> int \<Rightarrow> int \<Rightarrow> u32 \<Rightarrow> string" where
  "ip6_addr_string bytes field_width precision flags =
     string_fmt (Some (concat (map (\<lambda>i. pack_hex_byte (bytes ! (2 * i)) @ pack_hex_byte (bytes ! (2 * i + 1)) @
                                     (if \<not> has flags SPECIAL \<and> i \<noteq> 7 then '':'' else [])) [0..<8])))
       field_width precision (flags AND NOT SPECIAL)"

definition ip4_addr_string :: "u8 list \<Rightarrow> int \<Rightarrow> int \<Rightarrow> u32 \<Rightarrow> string" where
  "ip4_addr_string bytes field_width precision flags =
     string_fmt (Some (concat (map (\<lambda>i. rev (put_dec_trunc (ucast (bytes ! i))) @
                                     (if i \<noteq> 3 then ''.'' else [])) [0..<4])))
       field_width precision (flags AND NOT SPECIAL)"

text \<open>\<open>cmd_net\<close> is the build option \<^verbatim>\<open>CONFIG_CMD_NET\<close> and \<open>m\<close> the memory the pointer addresses.\<close>

definition pointer :: "bool \<Rightarrow> (u32 \<Rightarrow> u8) \<Rightarrow> string \<Rightarrow> u32 \<Rightarrow> int \<Rightarrow> int \<Rightarrow> u32 \<Rightarrow> string" where
  "pointer cmd_net m fmt ptr field_width precision flags0 =
     (if ptr = 0 then string_fmt (Some ''(null)'') field_width precision flags0
      else
       let c = at fmt 0;
           bytes = (\<lambda>n. map (\<lambda>i. m (ptr + of_nat i)) [0..<n]);
           raw = (if c = CHR ''m'' \<or> c = CHR ''i'' then flags0 OR SPECIAL else flags0)
       in if cmd_net \<and> (c = CHR ''m'' \<or> c = CHR ''M'')
          then mac_address_string (bytes 6) field_width precision raw
          else if cmd_net \<and> (c = CHR ''i'' \<or> c = CHR ''I'') \<and> at fmt 1 = CHR ''6''
          then ip6_addr_string (bytes 16) field_width precision raw
          else if cmd_net \<and> (c = CHR ''i'' \<or> c = CHR ''I'') \<and> at fmt 1 = CHR ''4''
          then ip4_addr_string (bytes 4) field_width precision raw
          else let flags = (if cmd_net \<and> (c = CHR ''i'' \<or> c = CHR ''I'')
                            then raw AND NOT SPECIAL else flags0) OR SMALL
               in if field_width = -1 then number (ucast ptr) 16 8 precision (flags OR ZEROPAD)
                  else number (ucast ptr) 16 field_width precision flags)"

subsection \<open>The format interpreter\<close>

text \<open>The variable arguments, by the size the callee fetches: on this target \<^verbatim>\<open>int\<close>, \<^verbatim>\<open>long\<close>,
  \<^verbatim>\<open>size_t\<close>, \<^verbatim>\<open>ptrdiff_t\<close> and pointers are one word; a \<^verbatim>\<open>char *\<close> is the string it points to
  (None for the null pointer). Fetching an argument of another size, or one too many, has no
  defined result: the model is then None.\<close>

datatype va_arg = Word u32 | Quad u64 | Str "string option"

fun take_word :: "va_arg list \<Rightarrow> (u32 \<times> va_arg list) option" where
  "take_word (Word w # args) = Some (w, args)"
| "take_word _ = None"

fun take_quad :: "va_arg list \<Rightarrow> (u64 \<times> va_arg list) option" where
  "take_quad (Quad w # args) = Some (w, args)"
| "take_quad _ = None"

fun take_str :: "va_arg list \<Rightarrow> (string option \<times> va_arg list) option" where
  "take_str (Str s # args) = Some (s, args)"
| "take_str _ = None"

fun fmt_flags :: "u32 \<Rightarrow> string \<Rightarrow> u32 \<times> string" where
  "fmt_flags flags [] = (flags, [])"
| "fmt_flags flags (c # fmt) =
     (if c = CHR ''-'' then fmt_flags (flags OR LEFT) fmt
      else if c = CHR ''+'' then fmt_flags (flags OR PLUS) fmt
      else if c = CHR '' '' then fmt_flags (flags OR SPACE) fmt
      else if c = CHR ''#'' then fmt_flags (flags OR SPECIAL) fmt
      else if c = CHR ''0'' then fmt_flags (flags OR ZEROPAD) fmt
      else (flags, c # fmt))"

definition fmt_width :: "u32 \<Rightarrow> string \<Rightarrow> va_arg list \<Rightarrow> (int \<times> u32 \<times> string \<times> va_arg list) option" where
  "fmt_width flags fmt args =
     (if is_digit (at fmt 0) then (let (w, fmt') = skip_atoi fmt in Some (w, flags, fmt', args))
      else if at fmt 0 = CHR ''*''
      then do { (w, args') \<leftarrow> take_word args;
                if sint w < 0 then Some (- sint w, flags OR LEFT, tl fmt, args')
                else Some (sint w, flags, tl fmt, args') }
      else Some (-1, flags, fmt, args))"

definition fmt_precision :: "string \<Rightarrow> va_arg list \<Rightarrow> (int \<times> string \<times> va_arg list) option" where
  "fmt_precision fmt0 args =
     (if at fmt0 0 = CHR ''.''
      then let fmt = tl fmt0
           in if is_digit (at fmt 0) then (let (p, fmt') = skip_atoi fmt in Some (max p 0, fmt', args))
              else if at fmt 0 = CHR ''*''
              then do { (w, args') \<leftarrow> take_word args; Some (max (sint w) 0, tl fmt, args') }
              else Some (0, fmt, args)
      else Some (-1, fmt0, args))"

text \<open>The qualifier, NUL when there is none; a double l counts as L.\<close>

definition fmt_qualifier :: "string \<Rightarrow> char \<times> string" where
  "fmt_qualifier fmt =
     (if at fmt 0 \<in> set ''hlLZzt''
      then if at fmt 0 = CHR ''l'' \<and> at (tl fmt) 0 = CHR ''l'' then (CHR ''L'', tl (tl fmt))
           else (at fmt 0, tl fmt)
      else (NUL, fmt))"

definition fmt_num :: "char \<Rightarrow> u32 \<Rightarrow> va_arg list \<Rightarrow> (u64 \<times> va_arg list) option" where
  "fmt_num qualifier flags args =
     (if qualifier = CHR ''L'' then take_quad args
      else do { (w, args') \<leftarrow> take_word args;
        Some (if qualifier = CHR ''Z'' \<or> qualifier = CHR ''z'' then ucast w
              else if qualifier = CHR ''t'' then scast w
              else if qualifier = CHR ''h''
              then (if has flags SIGN then scast (ucast w :: u16) else ucast (ucast w :: u16))
              else if has flags SIGN then scast w else ucast w, args') })"

text \<open>One conversion: \<open>fmt\<close> is what follows the percent sign and \<open>n\<close> the number of characters
  written so far. It gives the characters it emits, the format and the arguments that are left,
  and the stores of \<^verbatim>\<open>%n\<close>.\<close>

definition vsprintf_conv ::
  "bool \<Rightarrow> (u32 \<Rightarrow> u8) \<Rightarrow> nat \<Rightarrow> string \<Rightarrow> va_arg list \<Rightarrow>
   (string \<times> string \<times> va_arg list \<times> (u32 \<times> u32) list) option" where
  "vsprintf_conv cmd_net m n fmt0 args0 =
    (let (flags0, fmt1) = fmt_flags 0 fmt0 in
     do { (field_width, flags, fmt2, args1) \<leftarrow> fmt_width flags0 fmt1 args0;
          (precision, fmt3, args2) \<leftarrow> fmt_precision fmt2 args1;
          let (qualifier, fmt) = fmt_qualifier fmt3 in
          let c = at fmt 0; rest = tl fmt;
              num = (\<lambda>base fl. do { (v, args') \<leftarrow> fmt_num qualifier fl args2;
                                    Some (number v base field_width precision fl, rest, args', []) }) in
          if c = CHR ''c''
          then do { (w, args') \<leftarrow> take_word args2;
                    let spaces = replicate (nat (field_width - 1)) CHR '' '' in
                    let ch = char_of (unat (ucast w :: u8)) in
                    Some (if has flags LEFT then ch # spaces else spaces @ [ch], rest, args', []) }
          else if c = CHR ''s''
          then do { (s, args') \<leftarrow> take_str args2;
                    Some (string_fmt s field_width precision flags, rest, args', []) }
          else if c = CHR ''p''
          then do { (p, args') \<leftarrow> take_word args2;
                    Some (pointer cmd_net m rest p field_width precision flags,
                          dropWhile isalnum rest, args', []) }
          else if c = CHR ''n''
          then do { (p, args') \<leftarrow> take_word args2; Some ([], rest, args', [(p, of_nat n)]) }
          else if c = CHR ''%'' then Some (''%'', rest, args2, [])
          else if c = CHR ''o'' then num 8 flags
          else if c = CHR ''x'' then num 16 (flags OR SMALL)
          else if c = CHR ''X'' then num 16 flags
          else if c = CHR ''d'' \<or> c = CHR ''i'' then num 10 (flags OR SIGN)
          else if c = CHR ''u'' then num 10 flags
          else Some (if c = NUL then ''%'' else [CHR ''%'', c], rest, args2, []) })"

lemma fmt_flags_length: "length (snd (fmt_flags fl fmt)) \<le> length fmt"
  by (induction fl fmt rule: fmt_flags.induct) auto

lemma skip_atoi_length: "length (snd (skip_atoi_loop i s)) \<le> length s"
  by (induction i s rule: skip_atoi_loop.induct) auto

lemma fmt_width_length: "fmt_width fl fmt args = Some (w, fl', fmt', args') \<Longrightarrow> length fmt' \<le> length fmt"
  using skip_atoi_length [of 0 fmt]
  by (auto simp: fmt_width_def skip_atoi_def split: if_splits prod.splits bind_splits)

lemma fmt_precision_length: "fmt_precision fmt args = Some (w, fmt', args') \<Longrightarrow> length fmt' \<le> length fmt"
  using skip_atoi_length [of 0 "tl fmt"]
  by (auto simp: fmt_precision_def skip_atoi_def Let_def split: if_splits prod.splits bind_splits)

lemma fmt_qualifier_length: "fmt_qualifier fmt = (q, fmt') \<Longrightarrow> length fmt' \<le> length fmt"
  by (auto simp: fmt_qualifier_def split: if_splits)

lemma vsprintf_conv_length:
  assumes "vsprintf_conv cmd_net m n fmt args = Some (out, rest, args', ws)"
  shows "length rest \<le> length fmt"
proof -
  obtain fl fmt1 where 1: "fmt_flags 0 fmt = (fl, fmt1)" by (cases "fmt_flags 0 fmt")
  obtain fw fl' fmt2 args1 where 2: "fmt_width fl fmt1 args = Some (fw, fl', fmt2, args1)"
    using assms 1 by (cases "fmt_width fl fmt1 args") (auto simp: vsprintf_conv_def)
  obtain p fmt3 args2 where 3: "fmt_precision fmt2 args1 = Some (p, fmt3, args2)"
    using assms 1 2 by (cases "fmt_precision fmt2 args1") (auto simp: vsprintf_conv_def)
  obtain q fmt4 where 4: "fmt_qualifier fmt3 = (q, fmt4)" by (cases "fmt_qualifier fmt3")
  have "length fmt4 \<le> length fmt"
    using fmt_flags_length [of 0 fmt] fmt_width_length [OF 2] fmt_precision_length [OF 3]
      fmt_qualifier_length [OF 4] 1 by simp
  moreover have "rest = tl fmt4 \<or> rest = dropWhile isalnum (tl fmt4)"
    using assms unfolding vsprintf_conv_def
    by (simp only: 1 2 3 4 Let_def prod.case Option.bind.bind_lunit)
       (auto split: if_splits bind_splits)
  ultimately show ?thesis
    using length_dropWhile_le [of isalnum "tl fmt4"] by auto
qed

function vsprintf_loop ::
  "bool \<Rightarrow> (u32 \<Rightarrow> u8) \<Rightarrow> string \<Rightarrow> va_arg list \<Rightarrow> string \<Rightarrow> (u32 \<times> u32) list \<Rightarrow> (string \<times> (u32 \<times> u32) list) option"
where
  "vsprintf_loop cmd_net m [] args out ws = Some (out, ws)"
| "vsprintf_loop cmd_net m (c # fmt) args out ws =
     (if c \<noteq> CHR ''%'' then vsprintf_loop cmd_net m fmt args (out @ [c]) ws
      else case vsprintf_conv cmd_net m (length out) fmt args of
             None \<Rightarrow> None
           | Some (e, rest, args', w) \<Rightarrow> vsprintf_loop cmd_net m rest args' (out @ e) (ws @ w))"
  by pat_completeness auto
termination
  by (relation "measure (\<lambda>(_, _, fmt, _). length fmt)") (auto dest!: vsprintf_conv_length)

text \<open>The buffer's contents before the final NUL (its length is the result) and the stores of
  \<^verbatim>\<open>%n\<close>.\<close>

definition vsprintf :: "bool \<Rightarrow> (u32 \<Rightarrow> u8) \<Rightarrow> string \<Rightarrow> va_arg list \<Rightarrow> (string \<times> (u32 \<times> u32) list) option" where
  "vsprintf cmd_net m fmt args = vsprintf_loop cmd_net m fmt args [] []"

section \<open>Decimal digits\<close>

text \<open>The multiplications by reciprocals divide by ten on the range they are used on, and the
  nibbles recombine to the decimal digits.\<close>

lemma div10_205: "x * 205 div 2048 = x div 10" if "x \<le> 1000" for x :: nat
proof -
  have "(10 * k + r) * 205 div 2048 = k" if "r < 10" "10 * k + r \<le> 1000" for k r :: nat
    using that by (intro div_nat_eqI) auto
  from this [of "x mod 10" "x div 10"] that show ?thesis by simp
qed

lemma div10_13: "x * 13 div 128 = x div 10" if "x \<le> 63" for x :: nat
proof -
  have "(10 * k + r) * 13 div 128 = k" if "r < 10" "10 * k + r \<le> 63" for k r :: nat
    using that by (intro div_nat_eqI) auto
  from this [of "x mod 10" "x div 10"] that show ?thesis by simp
qed

lemma dec_split:
  fixes Q :: nat
  defines "e1 \<equiv> Q div 16 mod 16" and "e2 \<equiv> Q div 256 mod 16" and "e3 \<equiv> Q div 4096"
  defines "D0 \<equiv> 6 * (e3 + e2 + e1) + Q mod 16"
  defines "D1 \<equiv> D0 div 10 + 9 * e3 + 5 * e2 + e1"
  defines "D2 \<equiv> D1 div 10 + 2 * e2"
  defines "D3 \<equiv> D2 div 10 + 4 * e3"
  shows "Q = D0 + 10 * (e1 + 25 * e2 + 409 * e3)"
    and "Q div 10 = D1 + 10 * (2 * e2 + 40 * e3)"
    and "Q div 100 = D2 + 10 * (4 * e3)"
    and "Q div 1000 = D3"
proof -
  define e0 where "e0 = Q mod 16"
  have Q: "Q = e0 + 16 * e1 + 256 * e2 + 4096 * e3"
  proof -
    have "Q div 256 = Q div 16 div 16" "Q div 4096 = Q div 256 div 16"
      by (simp_all flip: div_mult2_eq)
    then show ?thesis
      using mod_mult_div_eq [of Q 16] mod_mult_div_eq [of "Q div 16" 16]
        mod_mult_div_eq [of "Q div 256" 16]
      unfolding e0_def e1_def e2_def e3_def by linarith
  qed
  have D0: "D0 = 6 * (e3 + e2 + e1) + e0" by (simp add: D0_def e0_def)
  show 0: "Q = D0 + 10 * (e1 + 25 * e2 + 409 * e3)"
    unfolding D0 using Q by (simp add: algebra_simps)
  have "Q div 10 = D0 div 10 + (e1 + 25 * e2 + 409 * e3)" by (subst 0) simp
  then show 1: "Q div 10 = D1 + 10 * (2 * e2 + 40 * e3)"
    unfolding D1_def by simp
  have "Q div 100 = Q div 10 div 10" by (simp flip: div_mult2_eq)
  then have "Q div 100 = D1 div 10 + (2 * e2 + 40 * e3)" unfolding 1 by simp
  then show 2: "Q div 100 = D2 + 10 * (4 * e3)" unfolding D2_def by simp
  have "Q div 1000 = Q div 100 div 10" by (simp flip: div_mult2_eq)
  then show "Q div 1000 = D3" unfolding 2 D3_def by simp
qed

lemma unat_add_small: "unat a + unat b < 2 ^ 32 \<Longrightarrow> unat (a + b) = unat a + unat b" for a b :: u32
  by (simp add: unat_word_ariths)
lemma unat_mult_small: "unat a * unat b < 2 ^ 32 \<Longrightarrow> unat (a * b) = unat a * unat b" for a b :: u32
  by (simp add: unat_word_ariths)
lemma unat_and_15: "unat (w AND 0xf) = unat w mod 16" for w :: u32
proof -
  have m: "(0xf :: u32) = mask 4" by (simp add: mask_eq_exp_minus_1)
  show ?thesis
    unfolding m by (simp add: take_bit_eq_mask [symmetric] unsigned_take_bit_eq take_bit_eq_mod unat_mod_distrib)
qed
lemma unat_drop_bit: "unat (drop_bit n q) = unat q div 2 ^ n" for q :: u32
  by (simp only: unat_drop_bit_eq) (simp only: drop_bit_eq_div)

definition digit_char :: "nat \<Rightarrow> char" where
  "digit_char n = char_of (48 + n)"

lemma put_char_digit: "unat d < 10 \<Longrightarrow> put_char d = digit_char (unat d)"
proof -
  assume "unat d < 10"
  then have "unat (d + 48) = 48 + unat d" by (simp add: unat_add_small)
  then show ?thesis by (simp only: put_char_def digit_char_def)
qed

lemma div_step:
  fixes d :: u32
  assumes "unat d \<le> 1000"
  shows "unat (drop_bit 11 (d * 0xcd)) = unat d div 10"
    and "unat (d - 10 * drop_bit 11 (d * 0xcd)) = unat d mod 10"
proof -
  have "unat (d * 0xcd) = unat d * 205" using assms by (subst unat_mult_small) auto
  then show *: "unat (drop_bit 11 (d * 0xcd)) = unat d div 10"
    using assms by (simp only: unat_drop_bit) (simp add: div10_205)
  then have "unat (10 * drop_bit 11 (d * 0xcd)) = 10 * (unat d div 10)"
    using assms by (subst unat_mult_small) auto
  then show "unat (d - 10 * drop_bit 11 (d * 0xcd)) = unat d mod 10"
    by (simp add: unat_sub word_le_nat_alt minus_mult_div_eq_mod)
qed
lemma div_step_13:
  fixes d :: u32
  assumes "unat d \<le> 63"
  shows "unat (drop_bit 7 (d * 0xd)) = unat d div 10"
    and "unat (d - 10 * drop_bit 7 (d * 0xd)) = unat d mod 10"
proof -
  have "unat (d * 0xd) = unat d * 13" using assms by (subst unat_mult_small) auto
  then show *: "unat (drop_bit 7 (d * 0xd)) = unat d div 10"
    using assms by (simp only: unat_drop_bit) (simp add: div10_13)
  then have "unat (10 * drop_bit 7 (d * 0xd)) = 10 * (unat d div 10)"
    using assms by (subst unat_mult_small) auto
  then show "unat (d - 10 * drop_bit 7 (d * 0xd)) = unat d mod 10"
    by (simp add: unat_sub word_le_nat_alt minus_mult_div_eq_mod)
qed

lemma put_dec_words:
  fixes q :: u32
  defines "d1 \<equiv> drop_bit 4 q AND 0xf" and "d2 \<equiv> drop_bit 8 q AND 0xf" and "d3 \<equiv> drop_bit 12 q"
  defines "d0 \<equiv> 6 * (d3 + d2 + d1) + (q AND 0xf)"
  defines "q0 \<equiv> drop_bit 11 (d0 * 0xcd)"
  defines "d1' \<equiv> q0 + 9 * d3 + 5 * d2 + d1"
  defines "q1 \<equiv> drop_bit 11 (d1' * 0xcd)"
  defines "d2' \<equiv> q1 + 2 * d2"
  defines "q2 \<equiv> drop_bit 7 (d2' * 0xd)"
  defines "d3' \<equiv> q2 + 4 * d3"
  defines "q3 \<equiv> drop_bit 11 (d3' * 0xcd)"
  assumes Q: "unat q < 100000"
  shows "unat (d0 - 10 * q0) = unat q mod 10"
    and "unat (d1' - 10 * q1) = unat q div 10 mod 10" and "d1' = 0 \<longleftrightarrow> unat q div 10 = 0"
    and "unat (d2' - 10 * q2) = unat q div 100 mod 10" and "d2' = 0 \<and> d3 = 0 \<longleftrightarrow> unat q div 100 = 0"
    and "unat (d3' - 10 * q3) = unat q div 1000 mod 10" and "d3' = 0 \<longleftrightarrow> unat q div 1000 = 0"
    and "unat q3 = unat q div 10000" and "q3 = 0 \<longleftrightarrow> unat q div 10000 = 0"
proof -
  note split = dec_split [of "unat q"]
  define e1 e2 e3 where "e1 = unat q div 16 mod 16" and "e2 = unat q div 256 mod 16"
    and "e3 = unat q div 4096"
  note split = dec_split [of "unat q", folded e1_def e2_def e3_def]
  have b: "e1 < 16" "e2 < 16" "e3 < 25" using Q by (simp_all add: e1_def e2_def e3_def)
  have u: "unat d1 = e1" "unat d2 = e2" "unat d3 = e3"
    by (simp_all only: d1_def d2_def d3_def e1_def e2_def e3_def unat_and_15 unat_drop_bit) simp_all
  define D0 where "D0 = 6 * (e3 + e2 + e1) + unat q mod 16"
  note split = split [folded D0_def]
  have u0: "unat d0 = D0"
    using b by (simp add: d0_def D0_def unat_add_small unat_mult_small u unat_and_15)
  have b0: "D0 \<le> 339" using b unfolding D0_def by auto
  have u0': "unat q0 = D0 div 10" "unat (d0 - 10 * q0) = D0 mod 10"
    using div_step [of d0] u0 b0 by (simp_all add: q0_def)
  define D1 where "D1 = D0 div 10 + 9 * e3 + 5 * e2 + e1"
  note split = split [folded D1_def]
  have u1: "unat d1' = D1"
    using b b0 by (simp add: d1'_def D1_def unat_add_small unat_mult_small u u0')
  have b1: "D1 \<le> 339" using b b0 unfolding D1_def by auto
  have u1': "unat q1 = D1 div 10" "unat (d1' - 10 * q1) = D1 mod 10"
    using div_step [of d1'] u1 b1 by (simp_all add: q1_def)
  define D2 where "D2 = D1 div 10 + 2 * e2"
  note split = split [folded D2_def]
  have u2: "unat d2' = D2"
    using b b1 by (simp add: d2'_def D2_def unat_add_small unat_mult_small u u1')
  have b2: "D2 \<le> 63" using b b1 unfolding D2_def by auto
  have u2': "unat q2 = D2 div 10" "unat (d2' - 10 * q2) = D2 mod 10"
    using div_step_13 [of d2'] u2 b2 by (simp_all add: q2_def)
  define D3 where "D3 = D2 div 10 + 4 * e3"
  note split = split [folded D3_def]
  have u3: "unat d3' = D3"
    using b b2 by (simp add: d3'_def D3_def unat_add_small unat_mult_small u u2')
  have b3: "D3 \<le> 102" using b b2 unfolding D3_def by auto
  have u3': "unat q3 = D3 div 10" "unat (d3' - 10 * q3) = D3 mod 10"
    using div_step [of d3'] u3 b3 by (simp_all add: q3_def)
  show "unat (d0 - 10 * q0) = unat q mod 10"
    unfolding u0' by (subst split(1)) (simp only: mod_mult_self2)
  show "unat (d1' - 10 * q1) = unat q div 10 mod 10"
    unfolding u1' split(2) by (simp only: mod_mult_self2)
  show "unat (d2' - 10 * q2) = unat q div 100 mod 10"
    unfolding u2' split(3) by (simp only: mod_mult_self2)
  show "unat (d3' - 10 * q3) = unat q div 1000 mod 10"
    unfolding u3' split(4) by simp
  show "d1' = 0 \<longleftrightarrow> unat q div 10 = 0"
    unfolding split(2) using u1 by (auto simp: unat_eq_0 [symmetric] D1_def)
  show "d2' = 0 \<and> d3 = 0 \<longleftrightarrow> unat q div 100 = 0"
    unfolding split(3) using u2 u(3) by (auto simp: unat_eq_0 [symmetric])
  show "d3' = 0 \<longleftrightarrow> unat q div 1000 = 0"
    unfolding split(4) using u3 by (auto simp: unat_eq_0 [symmetric])
  have "unat q div 10000 = unat q div 1000 div 10" by (simp flip: div_mult2_eq)
  then show "unat q3 = unat q div 10000" using split(4) u3'(1) by simp
  then show "q3 = 0 \<longleftrightarrow> unat q div 10000 = 0" by (simp only: unat_eq_0 [symmetric])
qed

text \<open>The reference: the decimal digits of a number, least significant first.\<close>

fun dec_rev :: "nat \<Rightarrow> string" where
  "dec_rev n = (if n < 10 then [digit_char n] else digit_char (n mod 10) # dec_rev (n div 10))"

declare dec_rev.simps [simp del]

lemma dec_rev_step: "dec_rev n = digit_char (n mod 10) # (if n div 10 = 0 then [] else dec_rev (n div 10))"
  by (subst dec_rev.simps) auto

lemma put_dec_trunc_eq:
  assumes "unat q < 100000"
  shows "put_dec_trunc q = dec_rev (unat q)"
proof -
  let ?Q = "unat q"
  have div: "?Q div 10 div 10 = ?Q div 100" "?Q div 100 div 10 = ?Q div 1000"
    "?Q div 1000 div 10 = ?Q div 10000"
    by (simp_all flip: div_mult2_eq)
  have top: "?Q div 10000 < 10" using assms by simp
  have "dec_rev ?Q = digit_char (?Q mod 10) # (if ?Q div 10 = 0 then [] else
      digit_char (?Q div 10 mod 10) # (if ?Q div 100 = 0 then [] else
      digit_char (?Q div 100 mod 10) # (if ?Q div 1000 = 0 then [] else
      digit_char (?Q div 1000 mod 10) # (if ?Q div 10000 = 0 then [] else [digit_char (?Q div 10000)]))))"
    using top by (simp only: dec_rev_step [of ?Q] dec_rev_step [of "?Q div 10"]
        dec_rev_step [of "?Q div 100"] dec_rev_step [of "?Q div 1000"] dec_rev.simps [of "?Q div 10000"]
        div if_True)
  then show ?thesis
    unfolding put_dec_trunc_def Let_def
    by (simp only: put_char_digit put_dec_words [OF assms] mod_less_divisor top
        de_Morgan_conj [symmetric] zero_less_numeral) simp
qed

lemma put_dec_full_eq:
  assumes "unat q < 100000"
  shows "put_dec_full q = map (\<lambda>k. digit_char (unat q div 10 ^ k mod 10)) [0..<5]"
proof -
  have top: "unat q div 10000 < 10" using assms by simp
  have "map (\<lambda>k. digit_char (unat q div 10 ^ k mod 10)) [0..<5] =
      [digit_char (unat q mod 10), digit_char (unat q div 10 mod 10), digit_char (unat q div 100 mod 10),
       digit_char (unat q div 1000 mod 10), digit_char (unat q div 10000)]"
    using top by (simp add: upt_rec)
  then show ?thesis
    unfolding put_dec_full_def Let_def
    by (simp only: put_char_digit put_dec_words [OF assms] mod_less_divisor top zero_less_numeral)
qed

lemma dec_rev_low_high:
  "10 ^ k \<le> n \<Longrightarrow> dec_rev n = map (\<lambda>i. digit_char (n div 10 ^ i mod 10)) [0..<k] @ dec_rev (n div 10 ^ k)"
proof (induction k)
  case 0
  then show ?case by simp
next
  case (Suc k)
  have le: "10 ^ k \<le> n" using Suc.prems by simp
  have "n div 10 ^ k div 10 = n div 10 ^ Suc k" by (simp only: power_Suc2 div_mult2_eq)
  moreover have "0 < n div 10 ^ Suc k" using Suc.prems by (simp add: div_greater_zero_iff)
  ultimately have "dec_rev (n div 10 ^ k) = digit_char (n div 10 ^ k mod 10) # dec_rev (n div 10 ^ Suc k)"
    using dec_rev_step [of "n div 10 ^ k"] by simp
  with Suc.IH [OF le] show ?case by simp
qed

lemma low_digit: "i < k \<Longrightarrow> n mod 10 ^ k div 10 ^ i mod 10 = n div 10 ^ i mod (10 :: nat)"
proof -
  assume "i < k"
  then obtain j where k: "k = i + Suc j" by (metis add_Suc_right less_natE)
  have "n mod 10 ^ k div 10 ^ i = n div 10 ^ i mod 10 ^ Suc j"
    unfolding k power_add by (simp only: mod_mult2_eq) simp
  moreover have "n div 10 ^ i mod 10 ^ Suc j mod 10 = n div 10 ^ i mod 10"
    by (rule mod_mod_cancel) simp
  ultimately show "n mod 10 ^ k div 10 ^ i mod 10 = n div 10 ^ i mod 10" by simp
qed

lemma put_dec_eq: "put_dec num = dec_rev (unat num)"
proof (induction num rule: put_dec.induct)
  case (1 num)
  show ?case
  proof (cases "num < 100000")
    case True
    then have "unat num < 100000" by (simp add: word_less_nat_alt)
    then have "unat (ucast num :: u32) = unat num"
      by (simp add: unsigned_ucast_eq take_bit_nat_eq_self)
    with True \<open>unat num < 100000\<close> show ?thesis
      by (simp add: put_dec.simps [of num] put_dec_trunc_eq)
  next
    case False
    then have ge: "10 ^ 5 \<le> unat num" by (simp add: word_less_nat_alt)
    obtain num' r where d: "do_div num 100000 = (num', r)" "unat num' = unat num div 10 ^ 5"
      "unat r = unat num mod 10 ^ 5"
      using do_div_spec [of 100000 num] by auto
    have "put_dec_full r = map (\<lambda>i. digit_char (unat num div 10 ^ i mod 10)) [0..<5]"
    proof -
      have "unat r < 100000" unfolding d(3) by simp
      then have "put_dec_full r = map (\<lambda>i. digit_char (unat num mod 10 ^ 5 div 10 ^ i mod 10)) [0..<5]"
        unfolding d(3) [symmetric] by (rule put_dec_full_eq)
      also have "\<dots> = map (\<lambda>i. digit_char (unat num div 10 ^ i mod 10)) [0..<5]"
        by (rule map_cong [OF refl]) (simp only: low_digit set_upt atLeastLessThan_iff)
      finally show ?thesis .
    qed
    moreover have "put_dec num' = dec_rev (unat num')"
      by (rule 1 [OF False refl d(1) [symmetric]])
    ultimately show ?thesis
      unfolding put_dec.simps [of num] d(1) dec_rev_low_high [OF ge] d(2) [symmetric]
      by (simp only: False if_False Let_def prod.case)
  qed
qed

section \<open>Parsing what was printed\<close>

lemma strtou_digits_eq:
  "strtou_digits b r s =
     (let ok = (\<lambda>c. isxdigit c \<and> of_nat (digit_value c) < b)
      in (foldl (\<lambda>a c. a * b + of_nat (digit_value c)) r (takeWhile ok s), dropWhile ok s))"
  by (induction b r s rule: strtou_digits.induct) (auto simp: Let_def)

text \<open>The reference printer: digits in base \<open>b\<close>, least significant first, digit \<open>d\<close> shown as \<open>f d\<close>.\<close>

fun rad_rev :: "(nat \<Rightarrow> char) \<Rightarrow> nat \<Rightarrow> nat \<Rightarrow> string" where
  "rad_rev f b n = (if b < 2 \<or> n < b then [f n] else f (n mod b) # rad_rev f b (n div b))"

declare rad_rev.simps [simp del]

lemma rad_rev_nonempty [simp]: "rad_rev f b n \<noteq> []"
  by (subst rad_rev.simps) simp

lemma dec_rev_rad: "dec_rev n = rad_rev digit_char 10 n"
proof (induction n rule: dec_rev.induct)
  case (1 n)
  then show ?case by (subst dec_rev.simps, subst rad_rev.simps) simp
qed

definition digit_fun :: "(nat \<Rightarrow> char) \<Rightarrow> nat \<Rightarrow> bool" where
  "digit_fun f b \<longleftrightarrow> 2 \<le> b \<and> b \<le> 16 \<and>
     list_all (\<lambda>d. isxdigit (f d) \<and> digit_value (f d) = d \<and> (f d = CHR ''0'' \<longrightarrow> d = 0)) [0..<b]"

lemma digit_funD:
  assumes "digit_fun f b" and "d < b"
  shows "isxdigit (f d)" and "digit_value (f d) = d" and "f d = CHR ''0'' \<Longrightarrow> d = 0"
  using assms by (auto simp: digit_fun_def list_all_iff)

lemma of_nat_digit_less:
  assumes "d < b" "b \<le> 16" "16 < (2::nat) ^ LENGTH('a)"
  shows "(of_nat d :: 'a::len word) < of_nat b"
proof -
  have "unat (of_nat b :: 'a word) = b" "unat (of_nat d :: 'a word) = d"
    using assms by (simp_all add: unat_of_nat take_bit_nat_eq_self)
  with assms show ?thesis by (simp add: word_less_nat_alt)
qed

lemma strtou_digits_rad:
  assumes "digit_fun f b" and "16 < (2::nat) ^ LENGTH('a)"
  shows "strtou_digits (of_nat b :: 'a::len word) 0 (rev (rad_rev f b n) @ rest) =
         strtou_digits (of_nat b) (of_nat n) rest"
  using assms(1)
proof (induction f b n arbitrary: rest rule: rad_rev.induct)
  case (1 f b n)
  have b: "2 \<le> b" "b \<le> 16" using 1(2) by (simp_all add: digit_fun_def)
  have step: "strtou_digits (of_nat b :: 'a word) r (f d # cs) = strtou_digits (of_nat b) (r * of_nat b + of_nat d) cs"
    if "d < b" for d r cs
    using digit_funD [OF 1(2) that] of_nat_digit_less [OF that b(2) assms(2)] by simp
  show ?case
  proof (cases "n < b")
    case True
    then show ?thesis by (simp add: rad_rev.simps [of f b n] step del: strtou_digits.simps)
  next
    case False
    have "of_nat (n div b) * of_nat b + of_nat (n mod b) = (of_nat n :: 'a word)"
      by (metis of_nat_add of_nat_mult div_mult_mod_eq)
    moreover have "n mod b < b" using b by simp
    ultimately show ?thesis
      using False b 1(1) [OF _ 1(2)]
      by (simp add: rad_rev.simps [of f b n] step del: strtou_digits.simps)
  qed
qed

lemma hd_rad_rev:
  assumes "digit_fun f b"
  shows "n \<noteq> 0 \<Longrightarrow> hd (rev (rad_rev f b n)) \<noteq> CHR ''0''"
  using assms
proof (induction f b n rule: rad_rev.induct)
  case (1 f b n)
  have b: "2 \<le> b" using 1(3) by (simp add: digit_fun_def)
  show ?case
  proof (cases "n < b")
    case True
    then show ?thesis using digit_funD(3) [OF 1(3) True] 1(2) by (auto simp: rad_rev.simps [of f b n])
  next
    case False
    moreover have "n div b \<noteq> 0" using False b by (simp add: div_eq_0_iff)
    ultimately show ?thesis using 1(1) [OF _ _ 1(3)] b
      by (simp add: rad_rev.simps [of f b n] hd_append)
  qed
qed

lemma unat_ucast_8_mod: "unat (ucast n :: u8) = unat n mod 256" for n :: u64
  by (simp add: unsigned_ucast_eq take_bit_eq_mod)

lemma low_digit_mask:
  fixes n :: u64
  shows "unat ((ucast n :: u8) AND 7) = unat n mod 8" and "unat ((ucast n :: u8) AND 15) = unat n mod 16"
proof -
  have m: "(7 :: u8) = mask 3" "(15 :: u8) = mask 4" by (simp_all add: mask_eq_exp_minus_1)
  show "unat ((ucast n :: u8) AND 7) = unat n mod 8" "unat ((ucast n :: u8) AND 15) = unat n mod 16"
    unfolding m take_bit_eq_mask [symmetric] unsigned_take_bit_eq
    by (simp_all only: take_bit_eq_mod unat_ucast_8_mod) (simp_all add: mod_mod_cancel)
qed

lemma radix_digits_rad:
  assumes "base = 8 \<or> base = 16"
  shows "radix_digits base locase n = rad_rev (\<lambda>d. or_case (''0123456789ABCDEF'' ! d) locase) base (unat n)"
  using assms
proof (induction base locase n rule: radix_digits.induct)
  case (1 base locase n)
  let ?f = "\<lambda>d. or_case (''0123456789ABCDEF'' ! d) locase"
  let ?k = "if base = 16 then 4 else 3 :: nat"
  have k: "2 ^ ?k = base" using 1(2) by auto
  have div: "unat (drop_bit ?k n) = unat n div base"
    unfolding unat_drop_bit_eq by (simp only: drop_bit_eq_div k)
  have mod: "unat ((ucast n :: u8) AND (of_nat base - 1)) = unat n mod base"
    using 1(2) low_digit_mask [of n] by auto
  have zero: "drop_bit ?k n = 0 \<longleftrightarrow> unat n < base"
    using div 1(2) by (auto simp: unat_eq_0 [symmetric] div_eq_0_iff)
  have IH: "\<not> unat n < base \<Longrightarrow> radix_digits base locase (drop_bit ?k n) = rad_rev ?f base (unat n div base)"
    using 1(1) [OF refl refl refl refl _ 1(2)] zero div by simp
  have b: "\<not> base < 2" using 1(2) by auto
  show ?case
    unfolding radix_digits.simps [of base locase n] rad_rev.simps [of ?f base "unat n"] Let_def zero mod
    using IH b by (simp only: if_False simp_thms) simp
qed



text \<open>The digit characters by their codes.\<close>

lemma digit_funI:
  assumes "2 \<le> b" "b \<le> 16"
    and code: "\<And>d. d < b \<Longrightarrow> (of_char (f d) :: nat) = 48 + d \<and> d < 10 \<or>
      (of_char (f d) :: nat) = 55 + d \<and> 10 \<le> d \<or> (of_char (f d) :: nat) = 87 + d \<and> 10 \<le> d"
  shows "digit_fun f b"
proof -
  have "isxdigit (f d) \<and> digit_value (f d) = d \<and> (f d = CHR ''0'' \<longrightarrow> d = 0)" if "d < b" for d
    using code [OF that] that assms(2)
    by (auto simp: isxdigit_iff isdigit_iff islower_ascii_iff digit_value_def toupper_def)
  with assms(1,2) show ?thesis by (auto simp: digit_fun_def list_all_iff)
qed

lemma digit_fun_dec: "digit_fun digit_char 10"
  by (rule digit_funI) (simp_all add: digit_char_def)

lemma hex_digit_codes:
  "list_all (\<lambda>d. (of_char (or_case (''0123456789ABCDEF'' ! d) 0) :: nat) = (if d < 10 then 48 + d else 55 + d)) [0..<16]"
  "list_all (\<lambda>d. (of_char (or_case (''0123456789ABCDEF'' ! d) 0x20) :: nat) = (if d < 10 then 48 + d else 87 + d)) [0..<16]"
proof -
  have u: "[0..<16] = [0, 1, 2, 3, 4, 5, 6, 7, 8, 9, 10, 11, 12, 13, 14, 15 :: nat]" by code_simp
  show "list_all (\<lambda>d. (of_char (or_case (''0123456789ABCDEF'' ! d) 0) :: nat) = (if d < 10 then 48 + d else 55 + d)) [0..<16]"
    "list_all (\<lambda>d. (of_char (or_case (''0123456789ABCDEF'' ! d) 0x20) :: nat) = (if d < 10 then 48 + d else 87 + d)) [0..<16]"
    unfolding u or_case_def by simp_all
qed

lemma char_48: "char_of (48 :: nat) = CHR ''0''"
  by code_simp

lemma digit_fun_hex:
  assumes "b = 8 \<or> b = 16" "locase = 0 \<or> locase = 0x20"
  shows "digit_fun (\<lambda>d. or_case (''0123456789ABCDEF'' ! d) locase) b"
proof (rule digit_funI)
  show "2 \<le> b" "b \<le> 16" using assms(1) by auto
  fix d assume "d < b"
  then have "d \<in> set [0..<16]" using assms(1) by auto
  then have "(of_char (or_case (''0123456789ABCDEF'' ! d) 0) :: nat) = (if d < 10 then 48 + d else 55 + d)"
    "(of_char (or_case (''0123456789ABCDEF'' ! d) 0x20) :: nat) = (if d < 10 then 48 + d else 87 + d)"
    using hex_digit_codes unfolding list_all_iff by blast+
  then show "(of_char (or_case (''0123456789ABCDEF'' ! d) locase) :: nat) = 48 + d \<and> d < 10 \<or>
      (of_char (or_case (''0123456789ABCDEF'' ! d) locase) :: nat) = 55 + d \<and> 10 \<le> d \<or>
      (of_char (or_case (''0123456789ABCDEF'' ! d) locase) :: nat) = 87 + d \<and> 10 \<le> d"
    using assms(2) by (cases "d < 10") auto
qed

text \<open>Every conversion the formatter makes without padding gives the digits of the number.\<close>

definition digit_of :: "nat \<Rightarrow> u8 \<Rightarrow> nat \<Rightarrow> char" where
  "digit_of base locase d = (if base = 10 then digit_char d else or_case (''0123456789ABCDEF'' ! d) locase)"

lemma number_tmp_rad:
  assumes "base \<in> {8, 10, 16}" "locase = 0 \<or> locase = 0x20"
  shows "number_tmp n base locase = rad_rev (digit_of base locase) base (unat n)"
    and "digit_fun (digit_of base locase) base"
proof -
  have d: "digit_of 10 locase = digit_char"
    "base \<noteq> 10 \<Longrightarrow> digit_of base locase = (\<lambda>d. or_case (''0123456789ABCDEF'' ! d) locase)"
    by (simp_all add: digit_of_def fun_eq_iff)
  show df: "digit_fun (digit_of base locase) base"
    using assms digit_fun_dec digit_fun_hex [of base locase] d by (cases "base = 10") auto
  have "digit_of base locase 0 = CHR ''0''"
    using assms(2) by (auto simp: digit_of_def digit_char_def or_case_def char_48)
  then have "rad_rev (digit_of base locase) base 0 = ''0''"
    using assms(1) by (auto simp: rad_rev.simps)
  then show "number_tmp n base locase = rad_rev (digit_of base locase) base (unat n)"
    using assms(1) radix_digits_rad [of base locase n] d
    by (cases "base = 10") (auto simp: number_tmp_def put_dec_eq dec_rev_rad)
qed

lemma number_plain:
  assumes "base \<in> {8, 10, 16}" "type = 0 \<or> type = SMALL"
  shows "number n base (-1) (-1) type = rev (number_tmp n base (ucast type))"
proof -
  have "number_tmp n base (ucast type) \<noteq> []"
    by (subst number_tmp_rad(1)) (use assms in \<open>auto simp: SMALL_def\<close>)
  then obtain t ts where tmp: "number_tmp n base (ucast type) = t # ts" by (cases "number_tmp n base (ucast type)") auto
  show ?thesis
  proof (cases "type = 0")
    case True
    then show ?thesis using tmp by (simp add: number_def Let_def pad_def has_def flag_defs)
  next
    case False
    then have t: "type = 32" using assms(2) by (simp add: SMALL_def)
    then show ?thesis using tmp by (simp add: number_def Let_def pad_def has_def flag_defs)
  qed
qed

lemma strtou_parse_print:
  assumes "base \<in> {8, 10, 16}" "locase = 0 \<or> locase = 0x20" and w: "16 < (2::nat) ^ LENGTH('a)"
    and rest: "\<not> isxdigit (at rest 0)" "at rest 0 \<noteq> CHR ''x''"
    and s: "s = rev (number_tmp n base locase) @ rest"
  shows "(let (b, p) = strtou_base s base in strtou_digits (of_nat b :: 'a::len word) 0 p) = (of_nat (unat n), rest)"
proof -
  note nt = number_tmp_rad [OF assms(1,2)]
  have stop: "strtou_digits (of_nat base :: 'a word) v rest = (v, rest)" for v
    using rest(1) by (cases rest) (auto simp: at_def)
  show ?thesis
  proof (cases "n = 0")
    case True
    then have "s = CHR ''0'' # rest" unfolding s by (simp add: number_tmp_def)
    then have "strtou_base s base = (base, rest)"
      using rest(2) assms(1) by (auto simp: strtou_base_def at_def)
    then show ?thesis using True stop by simp
  next
    case False
    let ?t = "rev (number_tmp n base locase)"
    have "hd ?t \<noteq> CHR ''0''" "?t \<noteq> []"
      using hd_rad_rev [OF nt(2), of "unat n"] False unfolding nt(1) by (simp_all add: unat_eq_0)
    then have "at s 0 \<noteq> CHR ''0''" unfolding s by (cases ?t) (auto simp: at_def)
    then have "strtou_base s base = (base, s)" using assms(1) by (auto simp: strtou_base_def)
    then show ?thesis
      using strtou_digits_rad [OF nt(2) w, of "unat n" rest] stop unfolding s nt(1) by simp
  qed
qed
lemma rad_rev_length: "2 \<le> b \<Longrightarrow> n < b ^ Suc k \<Longrightarrow> length (rad_rev f b n) \<le> Suc k"
proof (induction k arbitrary: n)
  case 0
  then show ?case by (subst rad_rev.simps) simp
next
  case (Suc k)
  have "n div b < b ^ Suc k" using Suc.prems by (simp add: less_mult_imp_div_less mult.commute)
  then show ?case using Suc.IH [of "n div b"] Suc.prems by (subst rad_rev.simps) simp
qed

lemma of_nat_unat: "of_nat (unat n) = ucast n" for n :: "'a::len word"
  by transfer simp

lemma number_tmp_nonempty:
  "base \<in> {8, 10, 16} \<Longrightarrow> locase = 0 \<or> locase = 0x20 \<Longrightarrow> number_tmp n base locase \<noteq> []"
  by (simp add: number_tmp_rad(1))

section \<open>Properties\<close>

text \<open>\<^verbatim>\<open>put_dec\<close>, which never divides by ten (multiplications by reciprocals on 16-bit
  groups, a five-digit group per 64-bit division), writes exactly the decimal digits of every
  64-bit number, least significant first and without leading zeros.\<close>

theorem put_dec_correct: "put_dec num = dec_rev (unat num)"
  by (rule put_dec_eq)

text \<open>C28: Printing a number in base 8, 10 or 16 (either letter case) and parsing it back in that
  base gives the number and stops exactly at the first character after it, both in 64 bits and,
  modulo \<open>2 ^ 32\<close>, with the 32-bit parser.\<close>

theorem number_parse_roundtrip:
  assumes "base \<in> {8, 10, 16}" "type = 0 \<or> type = SMALL"
    and "\<not> isxdigit (at rest 0)" "at rest 0 \<noteq> CHR ''x''"
  shows "simple_strtoull (number n base (-1) (-1) type @ rest) base = (n, rest) \<and>
         simple_strtoul (number n base (-1) (-1) type @ rest) base = (ucast n, rest)"
proof (intro conjI)
  have l: "ucast type = (0 :: u8) \<or> ucast type = (0x20 :: u8)" using assms(2) by (auto simp: SMALL_def)
  note parse = strtou_parse_print [OF assms(1) l _ assms(3,4) refl, of n]
  show "simple_strtoull (number n base (-1) (-1) type @ rest) base = (n, rest)"
    using parse [where 'a = 64] unfolding simple_strtoull_def number_plain [OF assms(1,2)] by simp
  show "simple_strtoul (number n base (-1) (-1) type @ rest) base = (ucast n, rest)"
    using parse [where 'a = 32] unfolding simple_strtoul_def number_plain [OF assms(1,2)]
    by (simp add: of_nat_unat)
qed

theorem number_parse_roundtrip_witness:
  "simple_strtoull (number 0xBEEF 16 (-1) (-1) SMALL @ '' go'') 16 = (0xBEEF, '' go'')"
  by (rule number_parse_roundtrip [THEN conjunct1]) (simp_all add: at_def isxdigit_iff)

text \<open>The digits of \<^verbatim>\<open>number()\<close> never overflow its buffer \<^verbatim>\<open>tmp[66]\<close>: at most 22 are
  produced, and at least one.\<close>

theorem number_tmp_fits:
  assumes "base \<in> {8, 10, 16}" "locase = 0 \<or> locase = 0x20"
  shows "1 \<le> length (number_tmp num base locase) \<and> length (number_tmp num base locase) \<le> 22"
proof (intro conjI)
  show "1 \<le> length (number_tmp num base locase)"
    using number_tmp_nonempty [OF assms, of num] by (cases "number_tmp num base locase") auto
  have "unat num < base ^ Suc 21"
    using unat_less_u64 [of num] assms(1) by auto
  then show "length (number_tmp num base locase) \<le> 22"
    using rad_rev_length [of base "unat num" 21] assms(1) unfolding number_tmp_rad(1) [OF assms] by auto
qed

theorem number_tmp_fits_witness: "length (number_tmp (- 1) 8 0) \<le> 22"
  by (rule number_tmp_fits [THEN conjunct2]) simp_all

text \<open>What \<^verbatim>\<open>sprintf (buf, "%X", w)\<close> leaves in the buffer (the way the load commands record
  \<^verbatim>\<open>filesize\<close>) parses back to \<open>w\<close> in base 16, for every 32-bit \<open>w\<close>, and stores nothing else.\<close>

theorem sprintf_hex_parses:
  "\<exists>s. vsprintf cmd_net m ''%X'' [Word w] = Some (s, []) \<and> simple_strtoul s 16 = (w, [])"
proof -
  have d: "\<not> is_digit (CHR ''X'')" by (simp add: is_digit_def)
  have "vsprintf cmd_net m ''%X'' [Word w] = Some (number (ucast w) 16 (-1) (-1) 0, [])"
    by (simp add: vsprintf_def vsprintf_conv_def fmt_width_def fmt_precision_def fmt_qualifier_def
        fmt_num_def at_def d has_def SIGN_def)
  moreover have "simple_strtoul (number (ucast w) 16 (-1) (-1) 0) 16 = (w, [])"
    using strtou_parse_print [of 16 0 "[]" _ "ucast w", where 'a = 32]
    by (simp add: simple_strtoul_def number_plain at_def isxdigit_iff of_nat_unat)
  ultimately show ?thesis by blast
qed

end
