(* ===== verification/Crc.thy ===== *)
theory Crc
  imports C_String
begin

text \<open>
  The checksums: \<^verbatim>\<open>lib_generic/crc32.c\<close> (the environment, images, the \<^verbatim>\<open>crc32\<close> command) and
  \<^verbatim>\<open>lib_generic/crc16.c\<close> (the serial download protocols).

  The target is little-endian, so \<^verbatim>\<open>cpu_to_le32\<close> and \<^verbatim>\<open>le32_to_cpu\<close> are the identity, and a
  word load is \<open>load32\<close>. The reference is the shift register the comment in \<^verbatim>\<open>crc32.c\<close>
  describes, one bit at a time.
\<close>

section \<open>The code\<close>

subsection \<open>CRC-32\<close>

definition crc_poly_terms :: "nat list" where
  "crc_poly_terms = [0, 1, 2, 4, 5, 7, 8, 10, 11, 12, 16, 22, 23, 26]"

definition crc_poly :: u32 where
  "crc_poly = foldl (\<lambda>poly p. poly OR push_bit (31 - p) 1) 0 crc_poly_terms"

definition crc_bit :: "u32 \<Rightarrow> u32" where
  "crc_bit c = (if c AND 1 \<noteq> 0 then crc_poly XOR drop_bit 1 c else drop_bit 1 c)"

definition make_crc_table :: "u32 list" where
  "make_crc_table = map (\<lambda>n. (crc_bit ^^ 8) (of_nat n)) [0..<256]"

definition crc_table :: "u32 list" where
  "crc_table =
     [0x00000000, 0x77073096, 0xee0e612c, 0x990951ba, 0x076dc419, 0x706af48f, 0xe963a535, 0x9e6495a3,
      0x0edb8832, 0x79dcb8a4, 0xe0d5e91e, 0x97d2d988, 0x09b64c2b, 0x7eb17cbd, 0xe7b82d07, 0x90bf1d91,
      0x1db71064, 0x6ab020f2, 0xf3b97148, 0x84be41de, 0x1adad47d, 0x6ddde4eb, 0xf4d4b551, 0x83d385c7,
      0x136c9856, 0x646ba8c0, 0xfd62f97a, 0x8a65c9ec, 0x14015c4f, 0x63066cd9, 0xfa0f3d63, 0x8d080df5,
      0x3b6e20c8, 0x4c69105e, 0xd56041e4, 0xa2677172, 0x3c03e4d1, 0x4b04d447, 0xd20d85fd, 0xa50ab56b,
      0x35b5a8fa, 0x42b2986c, 0xdbbbc9d6, 0xacbcf940, 0x32d86ce3, 0x45df5c75, 0xdcd60dcf, 0xabd13d59,
      0x26d930ac, 0x51de003a, 0xc8d75180, 0xbfd06116, 0x21b4f4b5, 0x56b3c423, 0xcfba9599, 0xb8bda50f,
      0x2802b89e, 0x5f058808, 0xc60cd9b2, 0xb10be924, 0x2f6f7c87, 0x58684c11, 0xc1611dab, 0xb6662d3d,
      0x76dc4190, 0x01db7106, 0x98d220bc, 0xefd5102a, 0x71b18589, 0x06b6b51f, 0x9fbfe4a5, 0xe8b8d433,
      0x7807c9a2, 0x0f00f934, 0x9609a88e, 0xe10e9818, 0x7f6a0dbb, 0x086d3d2d, 0x91646c97, 0xe6635c01,
      0x6b6b51f4, 0x1c6c6162, 0x856530d8, 0xf262004e, 0x6c0695ed, 0x1b01a57b, 0x8208f4c1, 0xf50fc457,
      0x65b0d9c6, 0x12b7e950, 0x8bbeb8ea, 0xfcb9887c, 0x62dd1ddf, 0x15da2d49, 0x8cd37cf3, 0xfbd44c65,
      0x4db26158, 0x3ab551ce, 0xa3bc0074, 0xd4bb30e2, 0x4adfa541, 0x3dd895d7, 0xa4d1c46d, 0xd3d6f4fb,
      0x4369e96a, 0x346ed9fc, 0xad678846, 0xda60b8d0, 0x44042d73, 0x33031de5, 0xaa0a4c5f, 0xdd0d7cc9,
      0x5005713c, 0x270241aa, 0xbe0b1010, 0xc90c2086, 0x5768b525, 0x206f85b3, 0xb966d409, 0xce61e49f,
      0x5edef90e, 0x29d9c998, 0xb0d09822, 0xc7d7a8b4, 0x59b33d17, 0x2eb40d81, 0xb7bd5c3b, 0xc0ba6cad,
      0xedb88320, 0x9abfb3b6, 0x03b6e20c, 0x74b1d29a, 0xead54739, 0x9dd277af, 0x04db2615, 0x73dc1683,
      0xe3630b12, 0x94643b84, 0x0d6d6a3e, 0x7a6a5aa8, 0xe40ecf0b, 0x9309ff9d, 0x0a00ae27, 0x7d079eb1,
      0xf00f9344, 0x8708a3d2, 0x1e01f268, 0x6906c2fe, 0xf762575d, 0x806567cb, 0x196c3671, 0x6e6b06e7,
      0xfed41b76, 0x89d32be0, 0x10da7a5a, 0x67dd4acc, 0xf9b9df6f, 0x8ebeeff9, 0x17b7be43, 0x60b08ed5,
      0xd6d6a3e8, 0xa1d1937e, 0x38d8c2c4, 0x4fdff252, 0xd1bb67f1, 0xa6bc5767, 0x3fb506dd, 0x48b2364b,
      0xd80d2bda, 0xaf0a1b4c, 0x36034af6, 0x41047a60, 0xdf60efc3, 0xa867df55, 0x316e8eef, 0x4669be79,
      0xcb61b38c, 0xbc66831a, 0x256fd2a0, 0x5268e236, 0xcc0c7795, 0xbb0b4703, 0x220216b9, 0x5505262f,
      0xc5ba3bbe, 0xb2bd0b28, 0x2bb45a92, 0x5cb36a04, 0xc2d7ffa7, 0xb5d0cf31, 0x2cd99e8b, 0x5bdeae1d,
      0x9b64c2b0, 0xec63f226, 0x756aa39c, 0x026d930a, 0x9c0906a9, 0xeb0e363f, 0x72076785, 0x05005713,
      0x95bf4a82, 0xe2b87a14, 0x7bb12bae, 0x0cb61b38, 0x92d28e9b, 0xe5d5be0d, 0x7cdcefb7, 0x0bdbdf21,
      0x86d3d2d4, 0xf1d4e242, 0x68ddb3f8, 0x1fda836e, 0x81be16cd, 0xf6b9265b, 0x6fb077e1, 0x18b74777,
      0x88085ae6, 0xff0f6a70, 0x66063bca, 0x11010b5c, 0x8f659eff, 0xf862ae69, 0x616bffd3, 0x166ccf45,
      0xa00ae278, 0xd70dd2ee, 0x4e048354, 0x3903b3c2, 0xa7672661, 0xd06016f7, 0x4969474d, 0x3e6e77db,
      0xaed16a4a, 0xd9d65adc, 0x40df0b66, 0x37d83bf0, 0xa9bcae53, 0xdebb9ec5, 0x47b2cf7f, 0x30b5ffe9,
      0xbdbdf21c, 0xcabac28a, 0x53b39330, 0x24b4a3a6, 0xbad03605, 0xcdd70693, 0x54de5729, 0x23d967bf,
      0xb3667a2e, 0xc4614ab8, 0x5d681b02, 0x2a6f2b94, 0xb40bbe37, 0xc30c8ea1, 0x5a05df1b, 0x2d02ef8d]"

definition DO_CRC :: "u32 \<Rightarrow> u32 \<Rightarrow> u32" where
  "DO_CRC crc x = crc_table ! unat ((crc XOR x) AND 255) XOR drop_bit 8 crc"

text \<open>The three loops of \<^verbatim>\<open>crc32_no_comp\<close>: single bytes up to a word boundary, whole words, and
  the bytes that are left.\<close>

fun crc_align :: "mem \<Rightarrow> u32 \<Rightarrow> addr \<Rightarrow> nat \<Rightarrow> u32 \<times> addr \<times> nat" where
  "crc_align m crc p 0 = (crc, p, 0)"
| "crc_align m crc p (Suc len) =
     (let crc' = DO_CRC crc (of_char (m p))
      in if 0 < len \<and> Suc p mod 4 \<noteq> 0 then crc_align m crc' (Suc p) len
         else (crc', Suc p, len))"

fun crc_words :: "mem \<Rightarrow> u32 \<Rightarrow> addr \<Rightarrow> nat \<Rightarrow> u32 \<times> addr" where
  "crc_words m crc b 0 = (crc, b)"
| "crc_words m crc b (Suc len) =
     crc_words m ((\<lambda>c. DO_CRC c 0) ((\<lambda>c. DO_CRC c 0) ((\<lambda>c. DO_CRC c 0) ((\<lambda>c. DO_CRC c 0)
       (crc XOR load32 m b))))) (b + 4) len"

fun crc_bytes :: "mem \<Rightarrow> u32 \<Rightarrow> addr \<Rightarrow> nat \<Rightarrow> u32" where
  "crc_bytes m crc p 0 = crc"
| "crc_bytes m crc p (Suc len) = crc_bytes m (DO_CRC crc (of_char (m p))) (Suc p) len"

definition crc32_no_comp :: "mem \<Rightarrow> u32 \<Rightarrow> addr \<Rightarrow> nat \<Rightarrow> u32" where
  "crc32_no_comp m crc0 buf len0 =
     (let (crc1, b, len) = (if buf mod 4 \<noteq> 0 \<and> 0 < len0 then crc_align m crc0 buf len0
                            else (crc0, buf, len0));
          rem_len = len mod 4;
          (crc2, p) = crc_words m crc1 b (len div 4)
      in crc_bytes m crc2 p rem_len)"

definition crc32 :: "mem \<Rightarrow> u32 \<Rightarrow> addr \<Rightarrow> nat \<Rightarrow> u32" where
  "crc32 m crc p len = crc32_no_comp m (crc XOR 0xffffffff) p len XOR 0xffffffff"

text \<open>\<^verbatim>\<open>crc32_wd\<close> in a build with a watchdog. A chunk size of 0 never gets on: the loop then has
  no result.\<close>

partial_function (option) crc32_wd_loop :: "mem \<Rightarrow> u32 \<Rightarrow> addr \<Rightarrow> addr \<Rightarrow> nat \<Rightarrow> u32 option" where
  "crc32_wd_loop m crc cur fin chunk_sz =
     (if cur < fin
      then let chunk = (if fin - cur > chunk_sz then chunk_sz else fin - cur)
           in crc32_wd_loop m (crc32 m crc cur chunk) (cur + chunk) fin chunk_sz
      else Some crc)"

definition crc32_wd :: "bool \<Rightarrow> mem \<Rightarrow> u32 \<Rightarrow> addr \<Rightarrow> nat \<Rightarrow> nat \<Rightarrow> u32 option" where
  "crc32_wd watchdog m crc buf len chunk_sz =
     (if watchdog then crc32_wd_loop m crc buf (buf + len) chunk_sz
      else Some (crc32 m crc buf len))"

subsection \<open>CRC-16\<close>

definition crc16_tab :: "u16 list" where
  "crc16_tab =
     [0x0000, 0x1021, 0x2042, 0x3063, 0x4084, 0x50a5, 0x60c6, 0x70e7,
      0x8108, 0x9129, 0xa14a, 0xb16b, 0xc18c, 0xd1ad, 0xe1ce, 0xf1ef,
      0x1231, 0x0210, 0x3273, 0x2252, 0x52b5, 0x4294, 0x72f7, 0x62d6,
      0x9339, 0x8318, 0xb37b, 0xa35a, 0xd3bd, 0xc39c, 0xf3ff, 0xe3de,
      0x2462, 0x3443, 0x0420, 0x1401, 0x64e6, 0x74c7, 0x44a4, 0x5485,
      0xa56a, 0xb54b, 0x8528, 0x9509, 0xe5ee, 0xf5cf, 0xc5ac, 0xd58d,
      0x3653, 0x2672, 0x1611, 0x0630, 0x76d7, 0x66f6, 0x5695, 0x46b4,
      0xb75b, 0xa77a, 0x9719, 0x8738, 0xf7df, 0xe7fe, 0xd79d, 0xc7bc,
      0x48c4, 0x58e5, 0x6886, 0x78a7, 0x0840, 0x1861, 0x2802, 0x3823,
      0xc9cc, 0xd9ed, 0xe98e, 0xf9af, 0x8948, 0x9969, 0xa90a, 0xb92b,
      0x5af5, 0x4ad4, 0x7ab7, 0x6a96, 0x1a71, 0x0a50, 0x3a33, 0x2a12,
      0xdbfd, 0xcbdc, 0xfbbf, 0xeb9e, 0x9b79, 0x8b58, 0xbb3b, 0xab1a,
      0x6ca6, 0x7c87, 0x4ce4, 0x5cc5, 0x2c22, 0x3c03, 0x0c60, 0x1c41,
      0xedae, 0xfd8f, 0xcdec, 0xddcd, 0xad2a, 0xbd0b, 0x8d68, 0x9d49,
      0x7e97, 0x6eb6, 0x5ed5, 0x4ef4, 0x3e13, 0x2e32, 0x1e51, 0x0e70,
      0xff9f, 0xefbe, 0xdfdd, 0xcffc, 0xbf1b, 0xaf3a, 0x9f59, 0x8f78,
      0x9188, 0x81a9, 0xb1ca, 0xa1eb, 0xd10c, 0xc12d, 0xf14e, 0xe16f,
      0x1080, 0x00a1, 0x30c2, 0x20e3, 0x5004, 0x4025, 0x7046, 0x6067,
      0x83b9, 0x9398, 0xa3fb, 0xb3da, 0xc33d, 0xd31c, 0xe37f, 0xf35e,
      0x02b1, 0x1290, 0x22f3, 0x32d2, 0x4235, 0x5214, 0x6277, 0x7256,
      0xb5ea, 0xa5cb, 0x95a8, 0x8589, 0xf56e, 0xe54f, 0xd52c, 0xc50d,
      0x34e2, 0x24c3, 0x14a0, 0x0481, 0x7466, 0x6447, 0x5424, 0x4405,
      0xa7db, 0xb7fa, 0x8799, 0x97b8, 0xe75f, 0xf77e, 0xc71d, 0xd73c,
      0x26d3, 0x36f2, 0x0691, 0x16b0, 0x6657, 0x7676, 0x4615, 0x5634,
      0xd94c, 0xc96d, 0xf90e, 0xe92f, 0x99c8, 0x89e9, 0xb98a, 0xa9ab,
      0x5844, 0x4865, 0x7806, 0x6827, 0x18c0, 0x08e1, 0x3882, 0x28a3,
      0xcb7d, 0xdb5c, 0xeb3f, 0xfb1e, 0x8bf9, 0x9bd8, 0xabbb, 0xbb9a,
      0x4a75, 0x5a54, 0x6a37, 0x7a16, 0x0af1, 0x1ad0, 0x2ab3, 0x3a92,
      0xfd2e, 0xed0f, 0xdd6c, 0xcd4d, 0xbdaa, 0xad8b, 0x9de8, 0x8dc9,
      0x7c26, 0x6c07, 0x5c64, 0x4c45, 0x3ca2, 0x2c83, 0x1ce0, 0x0cc1,
      0xef1f, 0xff3e, 0xcf5d, 0xdf7c, 0xaf9b, 0xbfba, 0x8fd9, 0x9ff8,
      0x6e17, 0x7e36, 0x4e55, 0x5e74, 0x2e93, 0x3eb2, 0x0ed1, 0x1ef0]"

definition crc16_step :: "u16 \<Rightarrow> u8 \<Rightarrow> u16" where
  "crc16_step cksum x =
     crc16_tab ! unat ((drop_bit 8 cksum XOR ucast x) AND 0xFF) XOR push_bit 8 cksum"

fun crc16_loop :: "mem \<Rightarrow> u16 \<Rightarrow> addr \<Rightarrow> nat \<Rightarrow> u16" where
  "crc16_loop m cksum buf 0 = cksum"
| "crc16_loop m cksum buf (Suc len) = crc16_loop m (crc16_step cksum (of_char (m buf))) (Suc buf) len"

definition cyg_crc16 :: "mem \<Rightarrow> addr \<Rightarrow> nat \<Rightarrow> u16" where
  "cyg_crc16 m buf len = crc16_loop m 0 buf len"


section \<open>The tables\<close>

text \<open>A table of a linear function over bit vectors is determined by its entries at the powers of
  two: every block of \<open>2 ^ j\<close> entries is the table so far, shifted by the entry at \<open>2 ^ j\<close>.\<close>

definition table_block :: "'a::len word list \<Rightarrow> nat \<Rightarrow> bool" where
  "table_block T j \<longleftrightarrow> take (2 ^ j) (drop (2 ^ j) T) = map (\<lambda>x. x XOR T ! (2 ^ j)) (take (2 ^ j) T)"

lemma of_nat_add_xor:
  assumes "k < 2 ^ j"
  shows "(of_nat (2 ^ j + k) :: 'a::len word) = of_nat k XOR of_nat (2 ^ j)"
proof -
  have "(of_nat k :: 'a word) AND of_nat (2 ^ j) = 0"
  proof (rule bit_eqI)
    fix i
    have "\<not> bit k j" using assms by (simp add: bit_iff_odd)
    then show "bit ((of_nat k :: 'a word) AND of_nat (2 ^ j)) i = bit 0 i"
      by (auto simp: bit_simps)
  qed
  then show ?thesis by (simp add: disjunctive_add_eq_xor add.commute)
qed

lemma linear_table:
  fixes g :: "'b::len word \<Rightarrow> 'a::len word"
  assumes lin: "\<And>a b. g (a XOR b) = g a XOR g b"
    and len: "length T = 2 ^ N"
    and zero: "T ! 0 = 0"
    and pow: "\<And>j. j < N \<Longrightarrow> T ! (2 ^ j) = g (2 ^ j)"
    and block: "\<And>j. j < N \<Longrightarrow> table_block T j"
  shows "n < 2 ^ N \<Longrightarrow> T ! n = g (of_nat n)"
proof (induction n rule: less_induct)
  case (less n)
  show ?case
  proof (cases "n = 0")
    case True
    have "g 0 = 0" using lin [of 0 0] by simp
    with True zero show ?thesis by simp
  next
    case False
    then obtain j where j: "2 ^ j \<le> n" "n < 2 ^ Suc j"
      using ex_power_ivl1 [of 2 n] by auto
    define k where "k = n - 2 ^ j"
    have n: "n = 2 ^ j + k" and k: "k < 2 ^ j" using j by (simp_all add: k_def)
    have "j < N" using j(1) less.prems by (metis le_less_trans power_less_imp_less_exp one_less_numeral_iff semiring_norm(76))
    have le: "2 ^ Suc j \<le> (2 :: nat) ^ N" using \<open>j < N\<close> by (intro power_increasing) simp_all
    have "2 ^ j \<le> length T" using len \<open>j < N\<close> by simp
    then have "T ! n = take (2 ^ j) (drop (2 ^ j) T) ! k" using k by (simp add: n)
    also have "\<dots> = T ! k XOR T ! (2 ^ j)"
      using block [OF \<open>j < N\<close>] k le len by (simp add: table_block_def)
    also have "T ! k = g (of_nat k)" using less.IH [of k] less.prems n by simp
    finally show ?thesis
      using pow [OF \<open>j < N\<close>] k lin by (simp add: n of_nat_add_xor del: of_nat_add)
  qed
qed

lemma less_8_cases: "j < 8 \<Longrightarrow> j = 0 \<or> j = 1 \<or> j = 2 \<or> j = 3 \<or> j = 4 \<or> j = 5 \<or> j = 6 \<or> j = (7 :: nat)"
  by auto

lemma crc_poly_eq: "crc_poly = 0xedb88320"
  by (simp add: crc_poly_def crc_poly_terms_def push_bit_eq_mult) 

lemma crc_bit_eq: "crc_bit c = (if odd c then 0xedb88320 XOR drop_bit 1 c else drop_bit 1 c)"
  by (simp add: crc_bit_def crc_poly_eq and_one_eq mod_2_eq_odd)

lemma funpow_8: "(f ^^ 8) x = f (f (f (f (f (f (f (f x)))))))"
  by (simp add: numeral_eq_Suc)

lemma odd_xor_word: "odd (a XOR b) \<longleftrightarrow> odd a \<noteq> odd b" for a b :: "'a::len word"
  by (simp flip: bit_0 add: bit_xor_iff)

lemma crc_bit_xor: "crc_bit (a XOR b) = crc_bit a XOR crc_bit b"
proof -
  have d: "drop_bit 1 (a XOR b) = drop_bit 1 a XOR drop_bit 1 b" by simp
  show ?thesis unfolding crc_bit_eq d odd_xor_word by (simp add: ac_simps)
qed

lemma length_crc_table: "length crc_table = 256"
  by (simp add: crc_table_def)

lemma crc_table_block: "j < 8 \<Longrightarrow> table_block crc_table j"
  by (drule less_8_cases, elim disjE) (simp_all add: table_block_def crc_table_def)

lemma crc_table_power: "j < 8 \<Longrightarrow> crc_table ! (2 ^ j) = (crc_bit ^^ 8) (2 ^ j)"
  by (drule less_8_cases, elim disjE) (simp_all add: crc_table_def funpow_8 crc_bit_eq)

lemma crc_table_nth: "n < 256 \<Longrightarrow> crc_table ! n = (crc_bit ^^ 8) (of_nat n)"
  by (rule linear_table [of "crc_bit ^^ 8" crc_table 8])
    (simp_all add: length_crc_table crc_table_block crc_table_power funpow_8 crc_bit_xor, simp add: crc_table_def)


lemma make_crc_table_eq: "make_crc_table = crc_table"
  by (rule nth_equalityI) (simp_all add: make_crc_table_def length_crc_table crc_table_nth)

section \<open>The byte step\<close>

lemma crc_bit_even: "even b \<Longrightarrow> crc_bit b = drop_bit 1 b"
  by (simp add: crc_bit_eq)

lemma crc_bit_funpow_xor: "(crc_bit ^^ k) (a XOR b) = (crc_bit ^^ k) a XOR (crc_bit ^^ k) b"
  by (induction k) (simp_all add: crc_bit_xor)

lemma crc_bit_funpow_shift:
  "(\<And>i. i < k \<Longrightarrow> \<not> bit b i) \<Longrightarrow> (crc_bit ^^ k) b = drop_bit k b"
proof (induction k)
  case (Suc k)
  then have "(crc_bit ^^ Suc k) b = crc_bit (drop_bit k b)" by simp
  moreover have "even (drop_bit k b)" using Suc.prems [of k] by (simp add: bit_iff_odd_drop_bit)
  ultimately show ?case by (simp add: crc_bit_even drop_bit_drop_bit)
qed simp

text \<open>A table look-up and a shift by eight are eight steps of the shift register.\<close>

lemma crc_byte: "crc_table ! unat (c AND 255) XOR drop_bit 8 c = (crc_bit ^^ 8) c"
proof -
  define b where "b = c AND NOT 255"
  have m: "(255 :: u32) = mask 8" by (simp add: mask_eq_exp_minus_1)
  have bits: "\<not> bit b i" if "i < 8" for i using that by (simp add: b_def m bit_simps)
  have c: "c = (c AND 255) XOR b"
    unfolding b_def m by (rule bit_eqI) (auto simp: bit_simps)
  have d: "drop_bit 8 b = drop_bit 8 c"
    unfolding b_def m by (rule bit_eqI) (auto simp: bit_simps dest: bit_imp_le_length)
  have "unat (c AND 255) < 256" unfolding m
    by (simp only: take_bit_eq_mask [symmetric] unsigned_take_bit_eq) (simp add: take_bit_eq_mod)
  then have "crc_table ! unat (c AND 255) = (crc_bit ^^ 8) (c AND 255)" by (simp add: crc_table_nth)
  moreover have "(crc_bit ^^ 8) b = drop_bit 8 c" using crc_bit_funpow_shift [of 8 b] bits d by simp
  ultimately show ?thesis using crc_bit_funpow_xor [of 8 "c AND 255" b] c by metis
qed

text \<open>The reference: xor a byte into the register, then eight steps.\<close>

definition crc_ref :: "u32 \<Rightarrow> char \<Rightarrow> u32" where
  "crc_ref c x = (crc_bit ^^ 8) (c XOR of_char x)"

lemma bit_of_char_high: "8 \<le> i \<Longrightarrow> \<not> bit (of_char x :: u32) i"
  by (auto simp: bit_of_char_u32 dest: bit_of_char_nat)

lemma DO_CRC_char: "DO_CRC c (of_char x) = crc_ref c x"
proof -
  have "drop_bit 8 (c XOR of_char x) = drop_bit 8 c"
    by (rule bit_eqI) (auto simp: bit_simps bit_of_char_high)
  then show ?thesis using crc_byte [of "c XOR of_char x"] by (simp add: DO_CRC_def crc_ref_def)
qed

lemma DO_CRC_0: "DO_CRC c 0 = (crc_bit ^^ 8) c"
  using crc_byte [of c] by (simp add: DO_CRC_def)

lemma load32_xor: "load32 m p = of_char (m p) XOR push_bit 8 (of_char (m (p + 1))) XOR
     push_bit 16 (of_char (m (p + 2))) XOR push_bit 24 (of_char (m (p + 3)))"
  unfolding load32_def
  by (rule bit_eqI) (auto simp: bit_simps bit_of_char_u32 dest: bit_of_char_nat)


text \<open>A byte xored in after eight steps is the byte shifted up and xored in before them.\<close>

lemma crc_defer:
  assumes "\<And>i. 24 \<le> i \<Longrightarrow> \<not> bit v i"
  shows "(crc_bit ^^ 8) X XOR v = (crc_bit ^^ 8) (X XOR push_bit 8 v)"
proof -
  have "drop_bit 8 (push_bit 8 v) = v"
    using assms by (intro bit_eqI) (auto simp: bit_simps not_less [symmetric])
  then have "(crc_bit ^^ 8) (push_bit 8 v) = v"
    using crc_bit_funpow_shift [of 8 "push_bit 8 v"] by (simp add: bit_simps)
  then show ?thesis by (simp add: crc_bit_funpow_xor)
qed

lemma crc_word:
  "(crc_bit ^^ 8) ((crc_bit ^^ 8) ((crc_bit ^^ 8) ((crc_bit ^^ 8) (c XOR load32 m p)))) =
   foldl crc_ref c (mem_get m p 4)"
proof -
  let ?b = "\<lambda>i. of_char (m (p + i)) :: u32"
  have hi: "\<not> bit (push_bit k (?b i)) n" if "24 \<le> n" "k \<le> 16" for k i n
    using that by (auto simp: bit_simps bit_of_char_high)
  have d1: "(crc_bit ^^ 8) X XOR ?b i = (crc_bit ^^ 8) (X XOR push_bit 8 (?b i))" for X i
    using crc_defer [of "?b i"] hi [of _ 0 i] by simp
  have d2: "(crc_bit ^^ 8) X XOR push_bit 8 (?b i) = (crc_bit ^^ 8) (X XOR push_bit 16 (?b i))" for X i
    using crc_defer [of "push_bit 8 (?b i)"] hi [of _ 8 i] by (simp add: push_bit_push_bit)
  have d3: "(crc_bit ^^ 8) X XOR push_bit 16 (?b i) = (crc_bit ^^ 8) (X XOR push_bit 24 (?b i))" for X i
    using crc_defer [of "push_bit 16 (?b i)"] hi [of _ 16 i] by (simp add: push_bit_push_bit)
  show ?thesis
    unfolding mem_get_4 foldl.simps crc_ref_def d1 d2 d3 load32_xor
    using d1 [of _ 0] d2 [of _ 0] d3 [of _ 0] by (simp add: xor.assoc)
qed

section \<open>Whole buffers\<close>

lemma crc_bytes_eq: "crc_bytes m c p n = foldl crc_ref c (mem_get m p n)"
  by (induction m c p n rule: crc_bytes.induct) (simp_all add: mem_get_Suc DO_CRC_char)

lemma crc_words_eq: "crc_words m c b n = (foldl crc_ref c (mem_get m b (4 * n)), b + 4 * n)"
proof (induction n arbitrary: c b)
  case (Suc n)
  have "mem_get m b (4 * Suc n) = mem_get m b 4 @ mem_get m (b + 4) (4 * n)"
    using mem_get_add [of m b 4 "4 * n"] by simp
  with Suc.IH show ?case by (simp add: DO_CRC_0 crc_word)
qed simp

lemma crc_align_eq:
  "0 < n \<Longrightarrow> \<exists>k \<le> n. crc_align m c p n = (foldl crc_ref c (mem_get m p k), p + k, n - k)"
proof (induction m c p n rule: crc_align.induct)
  case (2 m c p n)
  show ?case
  proof (cases "0 < n \<and> Suc p mod 4 \<noteq> 0")
    case True
    then obtain k where "k \<le> n" "crc_align m (crc_ref c (m p)) (Suc p) n =
        (foldl crc_ref (crc_ref c (m p)) (mem_get m (Suc p) k), Suc p + k, n - k)"
      using 2 by (auto simp: DO_CRC_char)
    with True show ?thesis
      by (intro exI [of _ "Suc k"]) (simp add: DO_CRC_char mem_get_Suc Let_def)
  next
    case False
    then show ?thesis
      by (intro exI [of _ 1]) (auto simp: DO_CRC_char mem_get_Suc Let_def)
  qed
qed simp

lemma crc32_no_comp_eq: "crc32_no_comp m c p n = foldl crc_ref c (mem_get m p n)"
proof -
  have tail: "(let (c2, p') = crc_words m c' b (len div 4) in crc_bytes m c2 p' (len mod 4)) =
      foldl crc_ref c' (mem_get m b len)" for c' b len
    using mem_get_add [of m b "4 * (len div 4)" "len mod 4"]
    by (simp add: crc_words_eq crc_bytes_eq)
  show ?thesis
  proof (cases "p mod 4 \<noteq> 0 \<and> 0 < n")
    case True
    then obtain k where "k \<le> n" "crc_align m c p n = (foldl crc_ref c (mem_get m p k), p + k, n - k)"
      using crc_align_eq by blast
    then show ?thesis
      using True tail [of _ "p + k" "n - k"] mem_get_add [of m p k "n - k"]
      by (simp add: crc32_no_comp_def Let_def)
  next
    case False
    then show ?thesis using tail [of c p n] by (auto simp: crc32_no_comp_def Let_def)
  qed
qed


section \<open>Checksums as streams\<close>

text \<open>What the users of a checksum rely on: a register updated byte by byte, where neither two
  registers nor two bytes collide in one step.\<close>

locale stream_checksum =
  fixes upd :: "'c \<Rightarrow> 'b \<Rightarrow> 'c"
  assumes upd_register_inj: "upd c x = upd d x \<Longrightarrow> c = d"
    and upd_byte_inj: "upd c x = upd c y \<Longrightarrow> x = y"
begin

lemma register_inj: "foldl upd c xs = foldl upd d xs \<Longrightarrow> c = d"
  by (induction xs arbitrary: c d) (auto dest: upd_register_inj)

lemma detects_change:
  assumes "i < length xs" "x \<noteq> xs ! i"
  shows "foldl upd c (xs[i := x]) \<noteq> foldl upd c xs"
proof
  let ?c = "foldl upd c (take i xs)"
  assume "foldl upd c (xs[i := x]) = foldl upd c xs"
  moreover have "xs[i := x] = take i xs @ x # drop (Suc i) xs"
    using assms(1) by (simp add: upd_conv_take_nth_drop)
  moreover have "xs = take i xs @ xs ! i # drop (Suc i) xs" using assms(1) by (simp add: id_take_nth_drop)
  ultimately have "foldl upd (upd ?c x) (drop (Suc i) xs) = foldl upd (upd ?c (xs ! i)) (drop (Suc i) xs)"
    by (metis foldl_Cons foldl_append)
  then show False using register_inj upd_byte_inj assms(2) by metis
qed

end

lemma mem_get_fun_upd:
  assumes "p \<le> a" "a < p + n"
  shows "mem_get (m(a := x)) p n = (mem_get m p n)[a - p := x]"
  using assms by (intro nth_equalityI) (auto simp: nth_list_update)

lemma xor_left_cancel: "a XOR b = a XOR c \<longleftrightarrow> b = c" for a b c :: "'a::len word"
  by (metis xor.left_commute xor_self_eq xor.right_neutral)

lemma xor_right_cancel: "a XOR b = c XOR b \<longleftrightarrow> a = c" for a b c :: "'a::len word"
  by (metis xor.commute xor_left_cancel)

lemma crc_bit_top: "bit (crc_bit c) 31 \<longleftrightarrow> odd c"
  by (auto simp: crc_bit_eq bit_simps dest: bit_imp_le_length)

lemma word_eq_drop_bit_1:
  fixes a b :: "'a::len word"
  assumes "odd a \<longleftrightarrow> odd b" and d: "drop_bit 1 a = drop_bit 1 b"
  shows "a = b"
proof (rule bit_eqI)
  fix n
  show "bit a n \<longleftrightarrow> bit b n"
  proof (cases n)
    case 0
    then show ?thesis using assms(1) by (simp add: bit_0)
  next
    case (Suc k)
    then show ?thesis using arg_cong [OF d, of "\<lambda>w. bit w k"] by (simp add: bit_simps)
  qed
qed

lemma crc_bit_inj: "crc_bit a = crc_bit b \<Longrightarrow> a = b"
proof (rule word_eq_drop_bit_1)
  assume eq: "crc_bit a = crc_bit b"
  then show p: "odd a \<longleftrightarrow> odd b" using crc_bit_top by metis
  show "drop_bit 1 a = drop_bit 1 b"
    using eq p by (auto simp: crc_bit_eq xor_left_cancel split: if_splits)
qed

lemma crc_bit_funpow_inj: "(crc_bit ^^ k) a = (crc_bit ^^ k) b \<Longrightarrow> a = b"
  by (induction k) (auto dest: crc_bit_inj)

interpretation crc32s: stream_checksum crc_ref
proof
  show "crc_ref c x = crc_ref d x \<Longrightarrow> c = d" for c d x
    unfolding crc_ref_def by (drule crc_bit_funpow_inj) (simp add: xor_right_cancel)
  show "crc_ref c x = crc_ref c y \<Longrightarrow> x = y" for c x y
    unfolding crc_ref_def by (drule crc_bit_funpow_inj) (simp add: xor_left_cancel of_char_word_eq_iff)
qed

section \<open>CRC-16\<close>

definition crc16_bit :: "u16 \<Rightarrow> u16" where
  "crc16_bit c = (if bit c 15 then push_bit 1 c XOR 0x1021 else push_bit 1 c)"

lemma crc16_bit_xor: "crc16_bit (a XOR b) = crc16_bit a XOR crc16_bit b"
proof -
  have "push_bit 1 (a XOR b) = push_bit 1 a XOR push_bit 1 b" by simp
  then show ?thesis unfolding crc16_bit_def by (simp add: bit_xor_iff ac_simps del: push_bit_xor)
qed

lemma crc16_bit_funpow_xor: "(crc16_bit ^^ k) (a XOR b) = (crc16_bit ^^ k) a XOR (crc16_bit ^^ k) b"
  by (induction k) (simp_all add: crc16_bit_xor)

lemma length_crc16_tab: "length crc16_tab = 256"
  by (simp add: crc16_tab_def)

lemma crc16_tab_block: "j < 8 \<Longrightarrow> table_block crc16_tab j"
  by (drule less_8_cases, elim disjE) (simp_all add: table_block_def crc16_tab_def)

lemma crc16_tab_power: "j < 8 \<Longrightarrow> crc16_tab ! (2 ^ j) = (crc16_bit ^^ 8) (push_bit 8 (2 ^ j))"
  by (drule less_8_cases, elim disjE) (simp_all add: crc16_tab_def funpow_8 crc16_bit_def)

lemma crc16_tab_nth: "n < 256 \<Longrightarrow> crc16_tab ! n = (crc16_bit ^^ 8) (push_bit 8 (of_nat n :: u16))"
  by (rule linear_table [of "\<lambda>w. (crc16_bit ^^ 8) (push_bit 8 w)" crc16_tab 8])
    (simp_all add: length_crc16_tab crc16_tab_block crc16_tab_power crc16_bit_funpow_xor,
     simp add: crc16_tab_def)

lemma crc16_bit_funpow_shift:
  "(\<And>i. 16 - k \<le> i \<Longrightarrow> \<not> bit b i) \<Longrightarrow> k \<le> 16 \<Longrightarrow> (crc16_bit ^^ k) b = push_bit k b"
proof (induction k)
  case (Suc k)
  then have "(crc16_bit ^^ Suc k) b = crc16_bit (push_bit k b)" by simp
  moreover have "\<not> bit (push_bit k b) 15" using Suc.prems by (simp add: bit_simps)
  then have "crc16_bit (push_bit k b) = push_bit (Suc k) b"
    by (simp only: crc16_bit_def if_False push_bit_push_bit plus_1_eq_Suc)
  ultimately show ?case by simp
qed simp

definition crc16_ref :: "u16 \<Rightarrow> u8 \<Rightarrow> u16" where
  "crc16_ref c x = (crc16_bit ^^ 8) (c XOR push_bit 8 (ucast x))"

lemma crc16_step_ref: "crc16_step c x = crc16_ref c x"
proof -
  define i where "i = drop_bit 8 c XOR (ucast x :: u16)"
  define lo where "lo = take_bit 8 c"
  have m: "(0xFF :: u16) = mask 8" by (simp add: mask_eq_exp_minus_1)
  have hi: "\<not> bit i n" if "8 \<le> n" for n
    using that by (auto simp: i_def bit_simps dest: bit_imp_le_length)
  have "unat (i AND 0xFF) < 256" unfolding m
    by (simp only: take_bit_eq_mask [symmetric] unsigned_take_bit_eq) (simp add: take_bit_eq_mod)
  then have "crc16_tab ! unat (i AND 0xFF) = (crc16_bit ^^ 8) (push_bit 8 (i AND 0xFF))"
    by (simp add: crc16_tab_nth)
  moreover have "i AND 0xFF = i" unfolding m using hi by (intro bit_eqI) (auto simp: bit_simps not_less [symmetric])
  moreover have "(crc16_bit ^^ 8) lo = push_bit 8 c"
  proof -
    have "(crc16_bit ^^ 8) lo = push_bit 8 lo"
      by (rule crc16_bit_funpow_shift) (auto simp: lo_def bit_simps)
    also have "\<dots> = push_bit 8 c"
      unfolding lo_def by (rule bit_eqI) (auto simp: bit_simps)
    finally show ?thesis .
  qed
  moreover have "c XOR push_bit 8 (ucast x) = push_bit 8 i XOR lo"
    unfolding i_def lo_def by (rule bit_eqI) (auto simp: bit_simps)
  ultimately show ?thesis
    unfolding crc16_step_def crc16_ref_def i_def [symmetric] by (simp add: crc16_bit_funpow_xor)
qed

lemma crc16_loop_eq:
  "crc16_loop m c p n = foldl crc16_ref c (map of_char (mem_get m p n))"
  by (induction m c p n rule: crc16_loop.induct) (simp_all add: mem_get_Suc crc16_step_ref)

lemma crc16_bit_inj: "crc16_bit a = crc16_bit b \<Longrightarrow> a = b"
proof (rule bit_eqI)
  fix n
  assume eq: "crc16_bit a = crc16_bit b" and n: "possible_bit TYPE(u16) n"
  have low: "odd (crc16_bit c) \<longleftrightarrow> bit c 15" for c
    by (auto simp: crc16_bit_def odd_xor_word)
  have top: "bit a 15 \<longleftrightarrow> bit b 15" using low eq by metis
  then have "push_bit 1 a = push_bit 1 b"
    using eq by (auto simp: crc16_bit_def xor_right_cancel split: if_splits)
  then have "bit (push_bit 1 a) (Suc n) \<longleftrightarrow> bit (push_bit 1 b) (Suc n)" by (rule arg_cong)
  then show "bit a n \<longleftrightarrow> bit b n" using top n
    by (cases "n = 15") (auto simp: bit_push_bit_iff simp del: push_bit_of_1 push_bit_Suc push_bit_0_id)
qed

lemma crc16_bit_funpow_inj: "(crc16_bit ^^ k) a = (crc16_bit ^^ k) b \<Longrightarrow> a = b"
  by (induction k) (auto dest: crc16_bit_inj)

interpretation crc16s: stream_checksum crc16_ref
proof
  show "crc16_ref c x = crc16_ref d x \<Longrightarrow> c = d" for c d x
    unfolding crc16_ref_def by (drule crc16_bit_funpow_inj) (simp add: xor_right_cancel)
  show "crc16_ref c x = crc16_ref c y \<Longrightarrow> x = y" for c x y
  proof -
    assume "crc16_ref c x = crc16_ref c y"
    then have "push_bit 8 (ucast x :: u16) = push_bit 8 (ucast y)"
      unfolding crc16_ref_def by (auto dest: crc16_bit_funpow_inj simp: xor_left_cancel)
    then have "drop_bit 8 (push_bit 8 (ucast x :: u16)) = drop_bit 8 (push_bit 8 (ucast y))" by simp
    moreover have "drop_bit 8 (push_bit 8 (ucast z :: u16)) = ucast z" for z :: u8
      by (rule bit_eqI) (auto simp: bit_simps dest: bit_imp_le_length)
    ultimately have "(ucast x :: u16) = ucast y" by simp
    then have b: "bit (ucast x :: u16) n = bit (ucast y :: u16) n" for n by simp
    have "bit x n = bit y n" if "n < 16" for n
      using that b [of n] by (simp add: bit_simps)
    then show "x = y" by (intro bit_eqI) simp
  qed
qed

section \<open>Properties\<close>

lemma crc32_eq: "crc32 m crc p n = foldl crc_ref (crc XOR 0xffffffff) (mem_get m p n) XOR 0xffffffff"
  by (simp add: crc32_def crc32_no_comp_eq)

lemma crc32_byte_change:
  assumes "p \<le> a" "a < p + len" "x \<noteq> m a"
  shows "crc32 (m(a := x)) crc p len \<noteq> crc32 m crc p len"
  using crc32s.detects_change [of "a - p" "mem_get m p len" x "crc XOR 0xffffffff"] assms
  by (simp add: crc32_eq mem_get_fun_upd xor_right_cancel)

lemma crc32_append: "crc32 m (crc32 m crc p n) (p + n) k = crc32 m crc p (n + k)"
  by (simp add: crc32_eq mem_get_add xor.assoc)

lemma crc32_wd_loop_eq:
  assumes "0 < chunk_sz"
  shows "cur \<le> fin \<Longrightarrow> crc32_wd_loop m crc cur fin chunk_sz = Some (crc32 m crc cur (fin - cur))"
proof (induction "fin - cur" arbitrary: crc cur rule: less_induct)
  case less
  show ?case
  proof (cases "cur < fin")
    case True
    define chunk where "chunk = (if fin - cur > chunk_sz then chunk_sz else fin - cur)"
    have c: "0 < chunk" "chunk \<le> fin - cur" using True assms by (auto simp: chunk_def)
    have "crc32_wd_loop m crc cur fin chunk_sz =
        crc32_wd_loop m (crc32 m crc cur chunk) (cur + chunk) fin chunk_sz"
      using True by (subst crc32_wd_loop.simps) (simp add: chunk_def Let_def)
    also have "\<dots> = Some (crc32 m (crc32 m crc cur chunk) (cur + chunk) (fin - (cur + chunk)))"
      using less.hyps [of "cur + chunk"] c True by simp
    finally show ?thesis using c by (simp add: crc32_append)
  next
    case False
    then show ?thesis using less.prems by (subst crc32_wd_loop.simps) (simp add: crc32_eq xor.assoc)
  qed
qed

text \<open>The table that \<^verbatim>\<open>make_crc_table\<close> computes bit by bit from the polynomial is, entry for
  entry, the static table of the default build.\<close>

theorem make_crc_table_correct: "make_crc_table = crc_table"
  by (rule make_crc_table_eq)

text \<open>C7: Wherever the buffer lies relative to a word boundary and whatever its length, the three
  loops of \<^verbatim>\<open>crc32\<close> (bytes, words, bytes) compute the CRC-32 shift register over its bytes, with
  the register complemented before and after.\<close>

theorem crc32_correct:
  "crc32 m crc p len = foldl crc_ref (crc XOR 0xffffffff) (mem_get m p len) XOR 0xffffffff"
  by (rule crc32_eq)

text \<open>The CRC of a buffer can be computed piecewise: the watchdog build, which works in chunks
  of any positive size, ends and returns what a single call on the whole buffer returns.\<close>

theorem crc32_wd_correct:
  assumes "0 < chunk_sz"
  shows "crc32_wd watchdog m crc buf len chunk_sz = Some (crc32 m crc buf len)"
  using crc32_wd_loop_eq [OF assms, of buf "buf + len"] by (simp add: crc32_wd_def)

theorem crc32_wd_correct_witness:
  "crc32_wd True (\<lambda>a. CHR ''u'') 0 3 10 4 = Some (crc32 (\<lambda>a. CHR ''u'') 0 3 10)"
  by (rule crc32_wd_correct) simp

text \<open>Changing any single byte of a buffer changes its CRC-32.\<close>

theorem crc32_detects_byte_change:
  assumes "p \<le> a" "a < p + len" "x \<noteq> m a"
  shows "crc32 (m(a := x)) crc p len \<noteq> crc32 m crc p len"
  using assms by (rule crc32_byte_change)

theorem crc32_detects_byte_change_witness:
  "crc32 ((\<lambda>a. CHR ''u'')(5 := CHR ''v'')) 0 3 10 \<noteq> crc32 (\<lambda>a. CHR ''u'') 0 3 10"
  by (rule crc32_detects_byte_change) simp_all

text \<open>The CRC-16 of the serial protocols is the shift register of \<open>x^16 + x^12 + x^5 + 1\<close>
  over the block, and changing any single byte of the block changes it.\<close>

theorem cyg_crc16_correct:
  "cyg_crc16 m buf len = foldl crc16_ref 0 (map of_char (mem_get m buf len)) \<and>
   (\<forall>a x. buf \<le> a \<and> a < buf + len \<and> x \<noteq> m a \<longrightarrow> cyg_crc16 (m(a := x)) buf len \<noteq> cyg_crc16 m buf len)"
proof (intro conjI allI impI)
  show "cyg_crc16 m buf len = foldl crc16_ref 0 (map of_char (mem_get m buf len))"
    by (simp add: cyg_crc16_def crc16_loop_eq)
  fix a x assume "buf \<le> a \<and> a < buf + len \<and> x \<noteq> m a"
  moreover from this have "a - buf < len" "buf + (a - buf) = a" by auto
  ultimately show "cyg_crc16 (m(a := x)) buf len \<noteq> cyg_crc16 m buf len"
    using crc16s.detects_change [of "a - buf" "map of_char (mem_get m buf len)" "of_char x" 0]
    by (auto simp: cyg_crc16_def crc16_loop_eq mem_get_fun_upd map_update of_char_word_eq_iff)
qed

theorem cyg_crc16_correct_witness:
  "cyg_crc16 ((\<lambda>a. CHR ''u'')(5 := CHR ''v'')) 3 10 \<noteq> cyg_crc16 (\<lambda>a. CHR ''u'') 3 10"
  by (rule cyg_crc16_correct [THEN conjunct2, rule_format]) simp

end
