(* ===== verification/Circbuf.thy ===== *)
theory Circbuf
  imports Uboot_Prelude "HOL-Library.Monad_Syntax"
begin

text \<open>
  The ring buffer of \<^verbatim>\<open>lib_generic/circbuf.c\<close>. A pointer into the buffer is its index from
  \<^verbatim>\<open>buf->data\<close>, so \<^verbatim>\<open>buf->end\<close> is the total size. An access outside the block that was
  allocated has no result (None).

  The contract is a bounded first-in first-out store that drops its oldest bytes when it
  overflows, stated as a locale and shown of the code by an interpretation.
\<close>

section \<open>The code\<close>

record circbuf =
  cb_size :: nat
  cb_totalsize :: nat
  cb_top :: nat
  cb_tail :: nat
  cb_data :: "char list"

text \<open>\<open>block\<close> is what \<^verbatim>\<open>malloc\<close> returned: \<open>sz\<close> bytes of unspecified contents.\<close>

definition buf_init :: "char list \<Rightarrow> nat \<Rightarrow> circbuf" where
  "buf_init block sz = \<lparr> cb_size = 0, cb_totalsize = sz, cb_top = 0, cb_tail = 0, cb_data = block \<rparr>"

text \<open>The structure after \<^verbatim>\<open>buf_free\<close>: the block is returned and every field cleared.\<close>

definition buf_free :: "circbuf \<Rightarrow> circbuf" where
  "buf_free buf = \<lparr> cb_size = 0, cb_totalsize = 0, cb_top = 0, cb_tail = 0, cb_data = [] \<rparr>"

fun buf_pop_loop :: "circbuf \<Rightarrow> nat \<Rightarrow> nat \<Rightarrow> (nat \<times> char list) option" where
  "buf_pop_loop buf p 0 = Some (p, [])"
| "buf_pop_loop buf p (Suc n) =
     (if p < length (cb_data buf)
      then do { (p', dest) \<leftarrow> buf_pop_loop buf (if Suc p = cb_totalsize buf then 0 else Suc p) n;
                Some (p', cb_data buf ! p # dest) }
      else None)"

definition buf_pop :: "circbuf \<Rightarrow> nat \<Rightarrow> (circbuf \<times> char list) option" where
  "buf_pop buf len0 =
     (let len = (if len0 > cb_size buf then cb_size buf else len0)
      in do { (p, dest) \<leftarrow> buf_pop_loop buf (cb_top buf) len;
              Some (buf\<lparr> cb_top := p, cb_size := cb_size buf - len \<rparr>, dest) })"

definition buf_push_byte :: "circbuf \<Rightarrow> nat \<Rightarrow> char \<Rightarrow> (circbuf \<times> nat) option" where
  "buf_push_byte buf p c =
     (if p < length (cb_data buf)
      then let b = buf\<lparr> cb_data := (cb_data buf)[p := c] \<rparr>;
               p' = (if Suc p = cb_totalsize buf then 0 else Suc p);
               top = Suc (cb_top b)
           in Some (if cb_size b < cb_totalsize b then b\<lparr> cb_size := Suc (cb_size b) \<rparr>
                    else b\<lparr> cb_top := (if top = cb_totalsize b then 0 else top) \<rparr>, p')
      else None)"

fun buf_push_loop :: "circbuf \<Rightarrow> nat \<Rightarrow> char list \<Rightarrow> (circbuf \<times> nat) option" where
  "buf_push_loop buf p [] = Some (buf, p)"
| "buf_push_loop buf p (c # src) =
     do { (buf', p') \<leftarrow> buf_push_byte buf p c; buf_push_loop buf' p' src }"

definition buf_push :: "circbuf \<Rightarrow> char list \<Rightarrow> circbuf option" where
  "buf_push buf src =
     do { (buf', p) \<leftarrow> buf_push_loop buf (cb_tail buf) src; Some (buf'\<lparr> cb_tail := p \<rparr>) }"

section \<open>The contract\<close>

text \<open>The last \<open>n\<close> elements of a list: what a full buffer keeps.\<close>

definition keep_last :: "nat \<Rightarrow> 'a list \<Rightarrow> 'a list" where
  "keep_last n xs = drop (length xs - n) xs"

lemma keep_last_all [simp]: "length xs \<le> n \<Longrightarrow> keep_last n xs = xs"
  by (simp add: keep_last_def)

lemma length_keep_last [simp]: "length (keep_last n xs) = min (length xs) n"
  by (simp add: keep_last_def)

lemma keep_last_append: "keep_last n (keep_last n xs @ ys) = keep_last n (xs @ ys)"
  by (cases "length xs \<le> n") (simp_all add: keep_last_def add.commute)

locale bounded_fifo =
  fixes invar :: "'b \<Rightarrow> bool" and contents :: "'b \<Rightarrow> char list" and capacity :: "'b \<Rightarrow> nat"
    and push :: "'b \<Rightarrow> char list \<Rightarrow> 'b option" and pop :: "'b \<Rightarrow> nat \<Rightarrow> ('b \<times> char list) option"
  assumes bounded: "invar b \<Longrightarrow> length (contents b) \<le> capacity b"
    and push_ok: "invar b \<Longrightarrow> \<exists>b'. push b xs = Some b' \<and> invar b' \<and> capacity b' = capacity b \<and>
                    contents b' = keep_last (capacity b) (contents b @ xs)"
    and pop_ok: "invar b \<Longrightarrow> \<exists>b'. pop b n = Some (b', take n (contents b)) \<and> invar b' \<and>
                    capacity b' = capacity b \<and> contents b' = drop n (contents b)"
begin

lemma push_push:
  assumes "invar b"
  shows "\<exists>b' c c'. push b xs = Some b' \<and> push b' ys = Some c \<and> push b (xs @ ys) = Some c' \<and>
           contents c = contents c'"
proof -
  obtain b' where b': "push b xs = Some b'" "invar b'" "capacity b' = capacity b"
    "contents b' = keep_last (capacity b) (contents b @ xs)" using push_ok [OF assms] by blast
  obtain c where c: "push b' ys = Some c" "contents c = keep_last (capacity b') (contents b' @ ys)"
    using push_ok [OF b'(2)] by blast
  obtain c' where c': "push b (xs @ ys) = Some c'" "contents c' = keep_last (capacity b) (contents b @ xs @ ys)"
    using push_ok [OF assms] by blast
  have "contents c = contents c'" unfolding c c' b' by (simp add: keep_last_append)
  then show ?thesis using b'(1) c(1) c'(1) by blast
qed

text \<open>Bytes come out in the order they went in, after everything that was queued before them.\<close>

lemma push_pop:
  assumes "invar b" "length (contents b) + length xs \<le> capacity b"
  shows "\<exists>b' b''. push b xs = Some b' \<and> pop b' (length (contents b) + length xs) = Some (b'', contents b @ xs) \<and>
           contents b'' = []"
proof -
  obtain b' where b': "push b xs = Some b'" "invar b'" "contents b' = contents b @ xs"
    using push_ok [OF assms(1), of xs] assms(2) by auto
  then show ?thesis using pop_ok [OF b'(2), of "length (contents b) + length xs"] by auto
qed

end

section \<open>The code meets the contract\<close>

definition buf_inv :: "circbuf \<Rightarrow> bool" where
  "buf_inv b \<longleftrightarrow> 0 < cb_totalsize b \<and> length (cb_data b) = cb_totalsize b \<and> cb_size b \<le> cb_totalsize b \<and>
     cb_top b < cb_totalsize b \<and> cb_tail b = (cb_top b + cb_size b) mod cb_totalsize b"

definition ring_get :: "char list \<Rightarrow> nat \<Rightarrow> nat \<Rightarrow> char list" where
  "ring_get d p n = map (\<lambda>i. d ! ((p + i) mod length d)) [0..<n]"

definition buf_contents :: "circbuf \<Rightarrow> char list" where
  "buf_contents b = ring_get (cb_data b) (cb_top b) (cb_size b)"

lemma length_ring_get [simp]: "length (ring_get d p n) = n"
  by (simp add: ring_get_def)

lemma ring_get_nth: "i < n \<Longrightarrow> ring_get d p n ! i = d ! ((p + i) mod length d)"
  by (simp add: ring_get_def)

lemma ring_next: "p < n \<Longrightarrow> (if Suc p = n then 0 else Suc p) = Suc p mod n"
  by (simp add: mod_Suc)

lemma ring_get_Suc: "p < length d \<Longrightarrow> ring_get d p (Suc n) = d ! p # ring_get d (Suc p mod length d) n"
  by (rule nth_equalityI) (auto simp: ring_get_nth nth_Cons mod_simps split: nat.split)

lemma ring_get_snoc: "ring_get d p (Suc n) = ring_get d p n @ [d ! ((p + n) mod length d)]"
  by (simp add: ring_get_def)

lemma ring_get_drop: "k \<le> n \<Longrightarrow> ring_get d ((p + k) mod length d) (n - k) = drop k (ring_get d p n)"
  by (rule nth_equalityI) (auto simp: ring_get_nth mod_simps add.assoc)

lemma ring_get_take: "k \<le> n \<Longrightarrow> take k (ring_get d p n) = ring_get d p k"
  by (rule nth_equalityI) (auto simp: ring_get_nth)

lemma mod_window_neq:
  assumes "i < n" "n < (N :: nat)"
  shows "(p + n) mod N \<noteq> (p + i) mod N"
proof
  assume "(p + n) mod N = (p + i) mod N"
  then have "N dvd (p + n) - (p + i)" using assms mod_eq_dvd_iff_nat [of "p + i" "p + n" N] by simp
  then have "N dvd n - i" by simp
  then show False using assms by (auto dest: dvd_imp_le)
qed

lemma ring_get_update: "n < length d \<Longrightarrow> ring_get (d[(p + n) mod length d := c]) p n = ring_get d p n"
  by (intro nth_equalityI) (simp_all add: ring_get_nth mod_window_neq)

lemma buf_pop_loop_eq:
  assumes "length (cb_data b) = cb_totalsize b" "p < cb_totalsize b"
  shows "buf_pop_loop b p n = Some ((p + n) mod cb_totalsize b, ring_get (cb_data b) p n)"
  using assms(2)
proof (induction n arbitrary: p)
  case (Suc n)
  then show ?case using assms(1)
    by (simp add: ring_next ring_get_Suc mod_simps)
qed (simp add: ring_get_def)

lemma buf_pop_ok:
  assumes "buf_inv b"
  shows "\<exists>b'. buf_pop b n = Some (b', take n (buf_contents b)) \<and> buf_inv b' \<and>
           cb_totalsize b' = cb_totalsize b \<and> buf_contents b' = drop n (buf_contents b)"
proof -
  define k where "k = (if n > cb_size b then cb_size b else n)"
  define b' where "b' = b\<lparr> cb_top := (cb_top b + k) mod cb_totalsize b, cb_size := cb_size b - k \<rparr>"
  have k: "k \<le> cb_size b" by (simp add: k_def)
  note inv = assms [unfolded buf_inv_def]
  have "buf_pop b n = Some (b', ring_get (cb_data b) (cb_top b) k)"
    using inv by (simp add: buf_pop_def buf_pop_loop_eq b'_def k_def Let_def)
  moreover have "take n (buf_contents b) = ring_get (cb_data b) (cb_top b) k"
    using ring_get_take [OF k] unfolding buf_contents_def k_def by (auto split: if_splits)
  moreover have "drop n (buf_contents b) = buf_contents b'"
    using ring_get_drop [OF k, of "cb_data b" "cb_top b"] inv
    unfolding buf_contents_def b'_def k_def by (auto split: if_splits)
  moreover have "buf_inv b'"
    using inv k mod_add_left_eq [of "cb_top b + k" "cb_totalsize b" "cb_size b - k"]
    by (auto simp: buf_inv_def b'_def)
  ultimately show ?thesis by (auto simp: b'_def)
qed

text \<open>\<^verbatim>\<open>buf_push\<close> keeps the write position in \<^verbatim>\<open>p\<close> and stores it in \<^verbatim>\<open>tail\<close> at the end only.\<close>

lemma buf_push_byte_ok:
  assumes "buf_inv (b\<lparr> cb_tail := p \<rparr>)"
  shows "\<exists>b' p'. buf_push_byte b p c = Some (b', p') \<and> buf_inv (b'\<lparr> cb_tail := p' \<rparr>) \<and>
           cb_totalsize b' = cb_totalsize b \<and>
           buf_contents b' = keep_last (cb_totalsize b) (buf_contents b @ [c])"
proof (cases "cb_size b < cb_totalsize b")
  case True
  note inv = assms [unfolded buf_inv_def, simplified]
  let ?b = "b\<lparr> cb_data := (cb_data b)[p := c], cb_size := Suc (cb_size b) \<rparr>"
  have "buf_push_byte b p c = Some (?b, Suc p mod cb_totalsize b)"
    using inv True by (simp add: buf_push_byte_def ring_next Let_def)
  moreover have "buf_contents ?b = buf_contents b @ [c]"
    using inv True ring_get_update [of "cb_size b" "cb_data b" "cb_top b" c]
    by (simp add: buf_contents_def ring_get_snoc)
  moreover have "buf_inv (?b\<lparr> cb_tail := Suc p mod cb_totalsize b \<rparr>)"
    using inv True by (simp add: buf_inv_def mod_simps)
  ultimately show ?thesis using True by (auto simp: buf_contents_def)
next
  case False
  note inv = assms [unfolded buf_inv_def, simplified]
  let ?N = "cb_totalsize b"
  let ?d = "(cb_data b)[p := c]"
  let ?b = "b\<lparr> cb_data := ?d, cb_top := Suc (cb_top b) mod ?N \<rparr>"
  have full: "cb_size b = ?N" and t: "p = cb_top b" using inv False by auto
  obtain n where n: "?N = Suc n" using inv by (cases ?N) auto
  have wrap: "(Suc (cb_top b) mod ?N + n) mod ?N = cb_top b"
    using inv n mod_add_left_eq [of "Suc (cb_top b)" ?N n] mod_add_self2 [of "cb_top b" "Suc n"]
    by (simp del: mod_add_self2)
  have "buf_push_byte b p c = Some (?b, Suc p mod ?N)"
    using inv False t by (simp add: buf_push_byte_def ring_next Let_def)
  moreover have "buf_contents ?b = keep_last ?N (buf_contents b @ [c])"
  proof -
    have "keep_last ?N (buf_contents b @ [c]) = drop 1 (buf_contents b) @ [c]"
      using full by (simp add: keep_last_def buf_contents_def n)
    also have "drop 1 (buf_contents b) = ring_get (cb_data b) (Suc (cb_top b) mod ?N) n"
      using inv full n ring_get_drop [of 1 "Suc n" "cb_data b" "cb_top b"] by (simp add: buf_contents_def)
    also have "\<dots> = ring_get ?d (Suc (cb_top b) mod ?N) n"
      using inv n t wrap ring_get_update [of n "cb_data b" "Suc (cb_top b) mod ?N" c] by simp
    finally show ?thesis
      using inv full n t wrap by (simp add: buf_contents_def ring_get_snoc)
  qed
  moreover have "buf_inv (?b\<lparr> cb_tail := Suc p mod ?N \<rparr>)"
    using inv full t by (simp add: buf_inv_def mod_simps)
  ultimately show ?thesis by auto
qed

lemma buf_push_loop_ok:
  "buf_inv (b\<lparr> cb_tail := p \<rparr>) \<Longrightarrow>
   \<exists>b' p'. buf_push_loop b p xs = Some (b', p') \<and> buf_inv (b'\<lparr> cb_tail := p' \<rparr>) \<and>
     cb_totalsize b' = cb_totalsize b \<and>
     buf_contents b' = keep_last (cb_totalsize b) (buf_contents b @ xs)"
proof (induction xs arbitrary: b p)
  case Nil
  then show ?case by (simp add: buf_inv_def buf_contents_def)
next
  case (Cons c xs)
  obtain b1 p1 where 1: "buf_push_byte b p c = Some (b1, p1)" "buf_inv (b1\<lparr> cb_tail := p1 \<rparr>)"
    "cb_totalsize b1 = cb_totalsize b" "buf_contents b1 = keep_last (cb_totalsize b) (buf_contents b @ [c])"
    using buf_push_byte_ok [OF Cons.prems] by blast
  obtain b2 p2 where 2: "buf_push_loop b1 p1 xs = Some (b2, p2)" "buf_inv (b2\<lparr> cb_tail := p2 \<rparr>)"
    "cb_totalsize b2 = cb_totalsize b1" "buf_contents b2 = keep_last (cb_totalsize b1) (buf_contents b1 @ xs)"
    using Cons.IH [OF 1(2)] by blast
  show ?case using 1 2 by (simp add: keep_last_append)
qed

lemma buf_push_ok:
  assumes "buf_inv b"
  shows "\<exists>b'. buf_push b xs = Some b' \<and> buf_inv b' \<and> cb_totalsize b' = cb_totalsize b \<and>
           buf_contents b' = keep_last (cb_totalsize b) (buf_contents b @ xs)"
proof -
  have "buf_inv (b\<lparr> cb_tail := cb_tail b \<rparr>)" using assms by simp
  then obtain b' p' where "buf_push_loop b (cb_tail b) xs = Some (b', p')" "buf_inv (b'\<lparr> cb_tail := p' \<rparr>)"
    "cb_totalsize b' = cb_totalsize b" "buf_contents b' = keep_last (cb_totalsize b) (buf_contents b @ xs)"
    using buf_push_loop_ok by blast
  then show ?thesis
    by (intro exI [of _ "b'\<lparr> cb_tail := p' \<rparr>"]) (simp add: buf_push_def buf_contents_def)
qed

interpretation cb: bounded_fifo buf_inv buf_contents cb_totalsize buf_push buf_pop
proof
  show "buf_inv b \<Longrightarrow> length (buf_contents b) \<le> cb_totalsize b" for b
    by (simp add: buf_inv_def buf_contents_def)
qed (rule buf_push_ok, assumption, rule buf_pop_ok, assumption)

lemma buf_init_inv: "0 < sz \<Longrightarrow> length block = sz \<Longrightarrow> buf_inv (buf_init block sz) \<and> buf_contents (buf_init block sz) = []"
  by (simp add: buf_inv_def buf_init_def buf_contents_def ring_get_def)

section \<open>Properties\<close>

text \<open>On every well-formed ring buffer \<^verbatim>\<open>buf_push\<close> never leaves the allocated block, keeps the
  buffer well-formed, and makes its contents the last \<^verbatim>\<open>totalsize\<close> bytes of what was queued
  followed by the new bytes: only the oldest bytes are lost, and only on overflow.\<close>

theorem buf_push_correct:
  assumes "buf_inv b"
  shows "\<exists>b'. buf_push b xs = Some b' \<and> buf_inv b' \<and>
           buf_contents b' = keep_last (cb_totalsize b) (buf_contents b @ xs)"
  using cb.push_ok [OF assms] by blast

theorem buf_push_correct_witness:
  "\<exists>b'. buf_push (buf_init ''....'' 4) ''abcdef'' = Some b' \<and> buf_inv b' \<and> buf_contents b' = ''cdef''"
proof -
  have "buf_inv (buf_init ''....'' 4)" "buf_contents (buf_init ''....'' 4) = []" using buf_init_inv [of 4 "''....''"] by simp_all
  then show ?thesis using buf_push_correct [of "buf_init ''....'' 4" "''abcdef''"]
    by (simp add: keep_last_def buf_init_def)
qed

text \<open>\<^verbatim>\<open>buf_pop\<close> returns the oldest bytes, as many as were asked for or as there are, and
  removes exactly those; the buffer stays well-formed.\<close>

theorem buf_pop_correct:
  assumes "buf_inv b"
  shows "\<exists>b'. buf_pop b n = Some (b', take n (buf_contents b)) \<and> buf_inv b' \<and>
           buf_contents b' = drop n (buf_contents b)"
  using cb.pop_ok [OF assms] by blast

theorem buf_pop_correct_witness:
  "\<exists>b'. buf_pop \<lparr> cb_size = 3, cb_totalsize = 4, cb_top = 2, cb_tail = 1, cb_data = ''c.ab'' \<rparr> 2 = Some (b', ''ab'') \<and>
     buf_inv b' \<and> buf_contents b' = ''c''"
  using buf_pop_correct [of "\<lparr> cb_size = 3, cb_totalsize = 4, cb_top = 2, cb_tail = 1, cb_data = ''c.ab'' \<rparr>" 2]
  by (simp add: buf_inv_def buf_contents_def ring_get_def upt_rec)

text \<open>Bytes pushed while they fit come out of \<^verbatim>\<open>buf_pop\<close> in the order they went in, after
  what was queued before, and leave the buffer empty.\<close>

theorem buf_push_pop:
  assumes "buf_inv b" "length (buf_contents b) + length xs \<le> cb_totalsize b"
  shows "\<exists>b' b''. buf_push b xs = Some b' \<and>
           buf_pop b' (length (buf_contents b) + length xs) = Some (b'', buf_contents b @ xs) \<and> buf_contents b'' = []"
  using assms by (rule cb.push_pop)

theorem buf_push_pop_witness:
  "\<exists>b' b''. buf_push (buf_init ''....'' 4) ''abc'' = Some b' \<and> buf_pop b' 3 = Some (b'', ''abc'') \<and> buf_contents b'' = []"
proof -
  have "buf_inv (buf_init ''....'' 4)" "buf_contents (buf_init ''....'' 4) = []" using buf_init_inv [of 4 "''....''"] by simp_all
  then show ?thesis using buf_push_pop [of "buf_init ''....'' 4" "''abc''"]
    by (simp add: buf_init_def numeral_3_eq_3)
qed

end
