(* ===== verification/Lmb.thy ===== *)
theory Lmb
  imports Uboot_Prelude "HOL-Library.Monad_Syntax"
begin

text \<open>
  The logical memory blocks of \<^verbatim>\<open>lib_generic/lmb.c\<close>: a table of memory regions and one of reserved
  regions, with an allocator that takes memory from the top.

  Addresses and sizes are 32-bit words and the arithmetic of the code is kept on them; a region
  table is its array of \<^verbatim>\<open>MAX_LMB_REGIONS + 1\<close> entries and the number in use. An access outside
  the array has no result (None).
\<close>

section \<open>The code\<close>

definition MAX_LMB_REGIONS :: nat where "MAX_LMB_REGIONS = 8"

record lmb_property =
  rbase :: u32
  rsize :: u32

record lmb_region =
  cnt :: nat
  lsize :: u32
  region :: "lmb_property list"

record lmb =
  memory :: lmb_region
  reserved :: lmb_region

definition lmb_addrs_overlap :: "u32 \<Rightarrow> u32 \<Rightarrow> u32 \<Rightarrow> u32 \<Rightarrow> bool" where
  "lmb_addrs_overlap base1 size1 base2 size2 \<longleftrightarrow> base1 < base2 + size2 \<and> base2 < base1 + size1"

definition lmb_addrs_adjacent :: "u32 \<Rightarrow> u32 \<Rightarrow> u32 \<Rightarrow> u32 \<Rightarrow> int" where
  "lmb_addrs_adjacent base1 size1 base2 size2 =
     (if base2 = base1 + size1 then 1 else if base1 = base2 + size2 then -1 else 0)"

definition lmb_regions_adjacent :: "lmb_property list \<Rightarrow> nat \<Rightarrow> nat \<Rightarrow> int option" where
  "lmb_regions_adjacent rs r1 r2 =
     (if r1 < length rs \<and> r2 < length rs
      then Some (lmb_addrs_adjacent (rbase (rs ! r1)) (rsize (rs ! r1)) (rbase (rs ! r2)) (rsize (rs ! r2)))
      else None)"

text \<open>\<^verbatim>\<open>rgn->cnt - 1\<close> is computed on an \<^verbatim>\<open>unsigned long\<close>.\<close>

definition cnt_pred :: "nat \<Rightarrow> nat" where
  "cnt_pred n = (if n = 0 then 2 ^ 32 - 1 else n - 1)"

fun lmb_remove_loop :: "lmb_property list \<Rightarrow> nat \<Rightarrow> nat \<Rightarrow> lmb_property list option" where
  "lmb_remove_loop rs i 0 = Some rs"
| "lmb_remove_loop rs i (Suc n) =
     (if Suc i < length rs then lmb_remove_loop (rs[i := rs ! Suc i]) (Suc i) n else None)"

definition lmb_remove_region :: "lmb_region \<Rightarrow> nat \<Rightarrow> lmb_region option" where
  "lmb_remove_region rgn r =
     do { rs \<leftarrow> lmb_remove_loop (region rgn) r (cnt_pred (cnt rgn) - r);
          Some (rgn\<lparr> region := rs, cnt := cnt_pred (cnt rgn) \<rparr>) }"

definition lmb_coalesce_regions :: "lmb_region \<Rightarrow> nat \<Rightarrow> nat \<Rightarrow> lmb_region option" where
  "lmb_coalesce_regions rgn r1 r2 =
     (let rs = region rgn
      in if r1 < length rs \<and> r2 < length rs
         then lmb_remove_region
                (rgn\<lparr> region := rs[r1 := (rs ! r1)\<lparr> rsize := rsize (rs ! r1) + rsize (rs ! r2) \<rparr>] \<rparr>) r2
         else None)"

definition lmb_init :: "lmb \<Rightarrow> lmb" where
  "lmb_init l =
     (let dummy = (\<lambda>rgn. \<lparr> cnt = 1, lsize = 0, region = (region rgn)[0 := \<lparr> rbase = 0, rsize = 0 \<rparr>] \<rparr>)
      in \<lparr> memory = dummy (memory l), reserved = dummy (reserved l) \<rparr>)"

text \<open>The first loop of \<^verbatim>\<open>lmb_add_region\<close>: the region is known, it was merged into entry \<open>i\<close>, or no
  entry matches. \<open>n\<close> counts the entries still to look at.\<close>

datatype lmb_scan_result = Known | Merged nat "lmb_property list" | NoMatch

fun lmb_scan :: "lmb_property list \<Rightarrow> nat \<Rightarrow> nat \<Rightarrow> u32 \<Rightarrow> u32 \<Rightarrow> lmb_scan_result option" where
  "lmb_scan rs i 0 base sz = Some NoMatch"
| "lmb_scan rs i (Suc n) base sz =
     (if i < length rs
      then let r = rs ! i; adjacent = lmb_addrs_adjacent base sz (rbase r) (rsize r)
           in if rbase r = base \<and> rsize r = sz then Some Known
              else if adjacent > 0
              then Some (Merged i (rs[i := r\<lparr> rbase := rbase r - sz, rsize := rsize r + sz \<rparr>]))
              else if adjacent < 0 then Some (Merged i (rs[i := r\<lparr> rsize := rsize r + sz \<rparr>]))
              else lmb_scan rs (Suc i) n base sz
      else None)"

fun lmb_insert :: "lmb_property list \<Rightarrow> nat \<Rightarrow> u32 \<Rightarrow> u32 \<Rightarrow> lmb_property list option" where
  "lmb_insert rs 0 base sz = Some rs"
| "lmb_insert rs (Suc i) base sz =
     (if Suc i < length rs
      then if base < rbase (rs ! i) then lmb_insert (rs[Suc i := rs ! i]) i base sz
           else Some (rs[Suc i := \<lparr> rbase = base, rsize = sz \<rparr>])
      else None)"

definition lmb_add_region :: "lmb_region \<Rightarrow> u32 \<Rightarrow> u32 \<Rightarrow> (lmb_region \<times> int) option" where
  "lmb_add_region rgn base sz =
     (let new = \<lparr> rbase = base, rsize = sz \<rparr>
      in if cnt rgn = 1 \<and> rsize (region rgn ! 0) = 0
         then Some (rgn\<lparr> region := (region rgn)[0 := new] \<rparr>, 0)
         else do {
           scan \<leftarrow> lmb_scan (region rgn) 0 (cnt rgn) base sz;
           case scan of
             Known \<Rightarrow> Some (rgn, 0)
           | _ \<Rightarrow>
             do {
               let (i, rgn1, coalesced) =
                 (case scan of Merged i rs \<Rightarrow> (i, rgn\<lparr> region := rs \<rparr>, 1) | _ \<Rightarrow> (cnt rgn, rgn, 0));
               merge \<leftarrow> (if i < cnt_pred (cnt rgn1)
                         then map_option (\<lambda>a. a \<noteq> 0) (lmb_regions_adjacent (region rgn1) i (Suc i))
                         else Some False);
               rgn2 \<leftarrow> (if merge then lmb_coalesce_regions rgn1 i (Suc i) else Some rgn1);
               let coalesced = coalesced + (if merge then 1 else 0);
               if coalesced \<noteq> 0 then Some (rgn2, coalesced)
               else if cnt rgn2 \<ge> MAX_LMB_REGIONS then Some (rgn2, -1)
               else do {
                 rs \<leftarrow> lmb_insert (region rgn2) (cnt rgn2) base sz;
                 let rs' = (if base < rbase (rs ! 0) then rs[0 := new] else rs);
                 Some (rgn2\<lparr> region := rs', cnt := Suc (cnt rgn2) \<rparr>, 0) } } })"

definition lmb_add :: "lmb \<Rightarrow> u32 \<Rightarrow> u32 \<Rightarrow> (lmb \<times> int) option" where
  "lmb_add l base sz =
     do { (rgn, rc) \<leftarrow> lmb_add_region (memory l) base sz; Some (l\<lparr> memory := rgn \<rparr>, rc) }"

definition lmb_reserve :: "lmb \<Rightarrow> u32 \<Rightarrow> u32 \<Rightarrow> (lmb \<times> int) option" where
  "lmb_reserve l base sz =
     do { (rgn, rc) \<leftarrow> lmb_add_region (reserved l) base sz; Some (l\<lparr> reserved := rgn \<rparr>, rc) }"

text \<open>The search loops of \<^verbatim>\<open>lmb_free\<close> and \<^verbatim>\<open>lmb_overlaps_region\<close>: the index of the first of the
  \<open>n\<close> entries from \<open>i\<close> on that satisfies the loop's exit test.\<close>

fun region_index :: "(lmb_property \<Rightarrow> bool) \<Rightarrow> lmb_property list \<Rightarrow> nat \<Rightarrow> nat \<Rightarrow> nat option option" where
  "region_index P rs i 0 = Some None"
| "region_index P rs i (Suc n) =
     (if i < length rs then if P (rs ! i) then Some (Some i) else region_index P rs (Suc i) n else None)"

definition lmb_free :: "lmb \<Rightarrow> u32 \<Rightarrow> u32 \<Rightarrow> (lmb \<times> int) option" where
  "lmb_free l base sz =
     (let rgn = reserved l; fin = base + sz
      in do {
        found \<leftarrow> region_index (\<lambda>r. rbase r \<le> base \<and> fin \<le> rbase r + rsize r) (region rgn) 0 (cnt rgn);
        case found of
          None \<Rightarrow> Some (l, -1)
        | Some i \<Rightarrow>
          let r = region rgn ! i; rgnbegin = rbase r; rgnend = rgnbegin + rsize r;
              upd = (\<lambda>r'. l\<lparr> reserved := rgn\<lparr> region := (region rgn)[i := r'] \<rparr> \<rparr>)
          in if rgnbegin = base \<and> rgnend = fin
             then do { rgn' \<leftarrow> lmb_remove_region rgn i; Some (l\<lparr> reserved := rgn' \<rparr>, 0) }
             else if rgnbegin = base then Some (upd \<lparr> rbase = fin, rsize = rsize r - sz \<rparr>, 0)
             else if rgnend = fin then Some (upd (r\<lparr> rsize := rsize r - sz \<rparr>), 0)
             else do {
               (rgn', rc) \<leftarrow> lmb_add_region (reserved (upd (r\<lparr> rsize := base - rbase r \<rparr>))) fin (rgnend - fin);
               Some (l\<lparr> reserved := rgn' \<rparr>, rc) } })"

text \<open>The index of an overlapping region (inner None for the code's -1).\<close>

definition lmb_overlaps_region :: "lmb_region \<Rightarrow> u32 \<Rightarrow> u32 \<Rightarrow> nat option option" where
  "lmb_overlaps_region rgn base sz =
     region_index (\<lambda>r. lmb_addrs_overlap base sz (rbase r) (rsize r)) (region rgn) 0 (cnt rgn)"

definition lmb_align_down :: "u32 \<Rightarrow> u32 \<Rightarrow> u32" where
  "lmb_align_down addr sz = addr AND NOT (sz - 1)"

definition lmb_align_up :: "u32 \<Rightarrow> u32 \<Rightarrow> u32" where
  "lmb_align_up addr sz = (addr + (sz - 1)) AND NOT (sz - 1)"

definition LMB_ALLOC_ANYWHERE :: u32 where "LMB_ALLOC_ANYWHERE = 0"

text \<open>The inner loop of \<^verbatim>\<open>__lmb_alloc_base\<close> for one memory region: the function's result, or none
  when the loop ends without one.\<close>

partial_function (option) lmb_alloc_loop ::
  "lmb \<Rightarrow> u32 \<Rightarrow> u32 \<Rightarrow> u32 \<Rightarrow> u32 \<Rightarrow> (lmb \<times> u32) option option" where
  "lmb_alloc_loop l lmbbase sz align base =
     (if base \<noteq> 0 \<and> lmbbase \<le> base
      then Option.bind (lmb_overlaps_region (reserved l) base sz) (\<lambda>j. case j of
             None \<Rightarrow>
               Option.bind (lmb_add_region (reserved l) base (lmb_align_up sz align)) (\<lambda>(rgn, rc).
                 if rc < 0 then Some (Some (l\<lparr> reserved := rgn \<rparr>, 0))
                 else Some (Some (l\<lparr> reserved := rgn \<rparr>, base)))
           | Some j \<Rightarrow>
               if rbase (region (reserved l) ! j) < sz then Some None
               else lmb_alloc_loop l lmbbase sz align
                      (lmb_align_down (rbase (region (reserved l) ! j) - sz) align))
      else Some None)"

fun lmb_alloc_regions :: "lmb \<Rightarrow> nat \<Rightarrow> u32 \<Rightarrow> u32 \<Rightarrow> u32 \<Rightarrow> (lmb \<times> u32) option" where
  "lmb_alloc_regions l 0 sz align max_addr = Some (l, 0)"
| "lmb_alloc_regions l (Suc i) sz align max_addr =
     (if i < length (region (memory l))
      then let lmbbase = rbase (region (memory l) ! i); lmbsize = rsize (region (memory l) ! i)
           in if lmbsize < sz then lmb_alloc_regions l i sz align max_addr
              else if max_addr = LMB_ALLOC_ANYWHERE \<or> lmbbase < max_addr
              then let base = (if max_addr = LMB_ALLOC_ANYWHERE
                               then lmb_align_down (lmbbase + lmbsize - sz) align
                               else lmb_align_down (min (lmbbase + lmbsize) max_addr - sz) align)
                   in do { res \<leftarrow> lmb_alloc_loop l lmbbase sz align base;
                           case res of Some r \<Rightarrow> Some r
                           | None \<Rightarrow> lmb_alloc_regions l i sz align max_addr }
              else lmb_alloc_regions l i sz align max_addr
      else None)"

definition lmb_alloc_base' :: "lmb \<Rightarrow> u32 \<Rightarrow> u32 \<Rightarrow> u32 \<Rightarrow> (lmb \<times> u32) option" where
  "lmb_alloc_base' l sz align max_addr = lmb_alloc_regions l (cnt (memory l)) sz align max_addr"

text \<open>The public entries; the message \<^verbatim>\<open>lmb_alloc_base\<close> prints on failure is the flag.\<close>

definition lmb_alloc_base :: "lmb \<Rightarrow> u32 \<Rightarrow> u32 \<Rightarrow> u32 \<Rightarrow> (lmb \<times> u32 \<times> bool) option" where
  "lmb_alloc_base l sz align max_addr =
     do { (l', alloc) \<leftarrow> lmb_alloc_base' l sz align max_addr; Some (l', alloc, alloc = 0) }"

definition lmb_alloc :: "lmb \<Rightarrow> u32 \<Rightarrow> u32 \<Rightarrow> (lmb \<times> u32 \<times> bool) option" where
  "lmb_alloc l sz align = lmb_alloc_base l sz align LMB_ALLOC_ANYWHERE"

definition lmb_is_reserved :: "lmb \<Rightarrow> u32 \<Rightarrow> bool" where
  "lmb_is_reserved l addr \<longleftrightarrow>
     list_ex (\<lambda>r. rbase r \<le> addr \<and> addr \<le> rbase r + rsize r - 1) (take (cnt (reserved l)) (region (reserved l)))"

section \<open>Region tables as sets of addresses\<close>

definition reg_fin :: "lmb_property \<Rightarrow> nat" where
  "reg_fin r = unat (rbase r) + unat (rsize r)"

definition reg_set :: "lmb_property \<Rightarrow> nat set" where
  "reg_set r = {unat (rbase r) ..< reg_fin r}"

definition reg_ok :: "lmb_property \<Rightarrow> bool" where
  "reg_ok r \<longleftrightarrow> 0 < rsize r \<and> reg_fin r < 2 ^ 32"

definition regs :: "lmb_region \<Rightarrow> lmb_property list" where
  "regs rgn = take (cnt rgn) (region rgn)"

definition lmb_set :: "lmb_region \<Rightarrow> nat set" where
  "lmb_set rgn = (\<Union>r \<in> set (regs rgn). reg_set r)"

text \<open>Regions in use lie in increasing order with a gap between any two.\<close>

definition regs_sorted :: "lmb_property list \<Rightarrow> bool" where
  "regs_sorted rs \<longleftrightarrow> list_all reg_ok rs \<and> sorted_wrt (\<lambda>a b. reg_fin a < unat (rbase b)) rs"

definition lmb_inv :: "lmb_region \<Rightarrow> bool" where
  "lmb_inv rgn \<longleftrightarrow> length (region rgn) = Suc MAX_LMB_REGIONS \<and> 1 \<le> cnt rgn \<and> cnt rgn \<le> MAX_LMB_REGIONS \<and>
     (regs_sorted (regs rgn) \<or> cnt rgn = 1 \<and> region rgn ! 0 = \<lparr> rbase = 0, rsize = 0 \<rparr>)"

lemma reg_fin_word: "reg_ok r \<Longrightarrow> unat (rbase r + rsize r) = reg_fin r"
  by (simp add: reg_ok_def reg_fin_def unat_word_ariths)

lemma reg_ok_pos: "reg_ok r \<Longrightarrow> unat (rbase r) < reg_fin r"
  by (simp add: reg_ok_def reg_fin_def word_less_nat_alt)

lemma adjacent_iff:
  assumes "reg_ok a" "reg_ok b"
  shows "lmb_addrs_adjacent (rbase a) (rsize a) (rbase b) (rsize b) =
    (if unat (rbase b) = reg_fin a then 1 else if unat (rbase a) = reg_fin b then -1 else 0)"
  using reg_fin_word [OF assms(1)] reg_fin_word [OF assms(2)]
  by (auto simp: lmb_addrs_adjacent_def word_unat_eq_iff)

lemma take_Suc_update: "take (Suc n) (xs[n := x]) = take n xs @ [x]" if "n < length xs"
  using that by (simp add: take_Suc_conv_app_nth)

subsection \<open>Removing an entry\<close>

lemma lmb_remove_loop_eq:
  "i + n < length rs \<Longrightarrow>
   \<exists>rs'. lmb_remove_loop rs i n = Some rs' \<and> length rs' = length rs \<and>
     take (i + n) rs' = take i rs @ take n (drop (Suc i) rs)"
proof (induction rs i n rule: lmb_remove_loop.induct)
  case (2 rs i n)
  let ?rs = "rs[i := rs ! Suc i]"
  obtain rs' where rs': "lmb_remove_loop ?rs (Suc i) n = Some rs'" "length rs' = length rs"
    "take (Suc i + n) rs' = take (Suc i) ?rs @ take n (drop (Suc (Suc i)) ?rs)"
    using 2 by auto
  have "take (Suc i) ?rs = take i rs @ [rs ! Suc i]" using 2(2) by (simp add: take_Suc_update)
  moreover have "drop (Suc i) rs = rs ! Suc i # drop (Suc (Suc i)) rs"
    using 2(2) by (simp add: Cons_nth_drop_Suc)
  ultimately show ?case using rs' 2(2) by simp
qed simp

lemma lmb_remove_region_ok:
  assumes "r < cnt rgn" "cnt rgn < length (region rgn)"
  shows "\<exists>rgn'. lmb_remove_region rgn r = Some rgn' \<and> length (region rgn') = length (region rgn) \<and>
    cnt rgn' = cnt rgn - 1 \<and> regs rgn' = take r (regs rgn) @ drop (Suc r) (regs rgn)"
proof -
  obtain rs' where rs': "lmb_remove_loop (region rgn) r (cnt rgn - 1 - r) = Some rs'" "length rs' = length (region rgn)"
    "take (r + (cnt rgn - 1 - r)) rs' = take r (region rgn) @ take (cnt rgn - 1 - r) (drop (Suc r) (region rgn))"
    using lmb_remove_loop_eq [of r "cnt rgn - 1 - r" "region rgn"] assms by (auto simp: less_diff_conv2)
  then show ?thesis using assms
    by (auto simp: lmb_remove_region_def cnt_pred_def regs_def take_drop)
qed

subsection \<open>Inserting an entry\<close>

lemma lmb_insert_eq:
  assumes "n < length rs"
  shows "\<exists>rs'. lmb_insert rs n base sz = Some rs' \<and> length rs' = length rs \<and> drop (Suc n) rs' = drop (Suc n) rs \<and>
    (let hi = rev (takeWhile (\<lambda>r. base < rbase r) (rev (take n rs)));
         lo = rev (dropWhile (\<lambda>r. base < rbase r) (rev (take n rs)))
     in take (Suc n) rs' = (if lo = [] then rs ! 0 # hi else lo @ \<lparr> rbase = base, rsize = sz \<rparr> # hi))"
  using assms
proof (induction rs n base sz rule: lmb_insert.induct)
  case (1 rs base sz)
  then show ?case by (cases rs) auto
next
  case (2 rs i base sz)
  have tk: "rev (take (Suc i) rs) = rs ! i # rev (take i rs)"
    using 2(2) by (simp add: take_Suc_conv_app_nth)
  show ?case
  proof (cases "base < rbase (rs ! i)")
    case True
    let ?rs = "rs[Suc i := rs ! i]"
    let ?P = "\<lambda>r. base < rbase r"
    obtain rs' where rs': "lmb_insert ?rs i base sz = Some rs'" "length rs' = length rs"
      "drop (Suc i) rs' = drop (Suc i) ?rs"
      "take (Suc i) rs' = (if dropWhile ?P (rev (take i rs)) = [] then rs ! 0 # rev (takeWhile ?P (rev (take i rs)))
         else rev (dropWhile ?P (rev (take i rs))) @ \<lparr> rbase = base, rsize = sz \<rparr> # rev (takeWhile ?P (rev (take i rs))))"
      using 2 True by (auto simp: Let_def)
    have "rs' ! Suc i = rs ! i"
      using rs'(2,3) 2(2) by (metis Cons_nth_drop_Suc length_list_update list.inject nth_list_update_eq)
    then have "take (Suc (Suc i)) rs' = take (Suc i) rs' @ [rs ! i]"
      using rs'(2) 2(2) by (simp add: take_Suc_conv_app_nth)
    moreover have "drop (Suc (Suc i)) rs' = drop (Suc (Suc i)) rs"
      using rs'(3) 2(2) by (metis Cons_nth_drop_Suc length_list_update list.inject rs'(2) drop_update_cancel lessI)
    ultimately show ?thesis using rs' True 2(2) tk by (auto simp: Let_def)
  next
    case False
    then show ?thesis using 2(2) tk by (simp add: Let_def take_Suc_update)
  qed
qed

subsection \<open>Adding a region\<close>

definition unrelated :: "u32 \<Rightarrow> u32 \<Rightarrow> lmb_property \<Rightarrow> bool" where
  "unrelated base sz r \<longleftrightarrow>
     lmb_addrs_adjacent base sz (rbase r) (rsize r) = 0 \<and> \<not> (rbase r = base \<and> rsize r = sz)"

lemma lmb_scan_skip:
  "\<forall>r \<in> set xs. unrelated base sz r \<Longrightarrow>
   lmb_scan (pre @ xs @ post) (length pre) (length xs + n) base sz =
   lmb_scan (pre @ xs @ post) (length pre + length xs) n base sz"
proof (induction xs arbitrary: pre)
  case (Cons x xs)
  have "lmb_scan (pre @ (x # xs) @ post) (length pre) (length (x # xs) + n) base sz =
      lmb_scan (pre @ (x # xs) @ post) (Suc (length pre)) (length xs + n) base sz"
    using Cons.prems by (auto simp: unrelated_def Let_def nth_append)
  then show ?case using Cons.IH [of "pre @ [x]"] Cons.prems by simp
qed simp

lemma lmb_scan_front:
  "\<forall>r \<in> set xs. unrelated base sz r \<Longrightarrow>
   lmb_scan (xs @ post) 0 (length xs + n) base sz = lmb_scan (xs @ post) (length xs) n base sz"
  using lmb_scan_skip [of xs base sz "[]" post n] by simp

text \<open>A region that is disjoint from a well-formed one is before it or after it.\<close>

lemma disjoint_cases:
  assumes "reg_ok a" "reg_ok b" "reg_set a \<inter> reg_set b = {}"
  shows "reg_fin a \<le> unat (rbase b) \<or> reg_fin b \<le> unat (rbase a)"
  using assms reg_ok_pos [of a] reg_ok_pos [of b]
  by (auto simp: reg_set_def disjoint_iff)

lemma unrelated_iff:
  assumes "reg_ok a" "reg_ok \<lparr> rbase = base, rsize = sz \<rparr>" "reg_set a \<inter> reg_set \<lparr> rbase = base, rsize = sz \<rparr> = {}"
  shows "unrelated base sz a \<longleftrightarrow>
    reg_fin a < unat base \<or> reg_fin \<lparr> rbase = base, rsize = sz \<rparr> < unat (rbase a)"
proof -
  let ?n = "\<lparr> rbase = base, rsize = sz \<rparr>"
  have "\<not> (rbase a = base \<and> rsize a = sz)"
    using assms(1,3) reg_ok_pos [of a] by (auto simp: reg_set_def reg_fin_def)
  then show ?thesis
    using disjoint_cases [OF assms] adjacent_iff [OF assms(2,1)] reg_ok_pos [OF assms(1)] reg_ok_pos [OF assms(2)]
    by (auto simp: unrelated_def)
qed

lemma region_split: "cnt rgn \<le> length (region rgn) \<Longrightarrow> region rgn = regs rgn @ drop (cnt rgn) (region rgn)"
  by (simp add: regs_def)

lemma regs_of_append: "cnt rgn = length xs \<Longrightarrow> regs (rgn\<lparr> region := xs @ ys \<rparr>) = xs"
  by (simp add: regs_def)

lemma lmb_add_nomatch:
  assumes "\<not> (cnt rgn = 1 \<and> rsize (region rgn ! 0) = 0)" "1 \<le> cnt rgn"
    and "lmb_scan (region rgn) 0 (cnt rgn) base sz = Some NoMatch"
  shows "lmb_add_region rgn base sz =
    (if cnt rgn \<ge> MAX_LMB_REGIONS then Some (rgn, -1)
     else Option.bind (lmb_insert (region rgn) (cnt rgn) base sz) (\<lambda>rs.
       Some (rgn\<lparr> region := (if base < rbase (rs ! 0) then rs[0 := \<lparr> rbase = base, rsize = sz \<rparr>] else rs),
                  cnt := Suc (cnt rgn) \<rparr>, 0)))"
proof -
  have "\<not> cnt rgn < cnt_pred (cnt rgn)" using assms(2) by (simp add: cnt_pred_def)
  then show ?thesis using assms(3) unfolding lmb_add_region_def Let_def
    by (simp only: assms(1) if_False Option.bind.bind_lunit lmb_scan_result.case prod.case if_not_P)
qed

lemma lmb_add_merged:
  assumes "\<not> (cnt rgn = 1 \<and> rsize (region rgn ! 0) = 0)" "1 \<le> cnt rgn"
    and "lmb_scan (region rgn) 0 (cnt rgn) base sz = Some (Merged i rs)"
    and "i < cnt rgn" "cnt rgn < length rs"
  shows "lmb_add_region rgn base sz =
    (if Suc i < cnt rgn \<and> lmb_addrs_adjacent (rbase (rs ! i)) (rsize (rs ! i)) (rbase (rs ! Suc i)) (rsize (rs ! Suc i)) \<noteq> 0
     then map_option (\<lambda>rgn'. (rgn', 2)) (lmb_coalesce_regions (rgn\<lparr> region := rs \<rparr>) i (Suc i))
     else Some (rgn\<lparr> region := rs \<rparr>, 1))"
proof -
  have c: "i < cnt_pred (cnt rgn) \<longleftrightarrow> Suc i < cnt rgn" using assms(2) by (auto simp: cnt_pred_def)
  show ?thesis unfolding lmb_add_region_def Let_def
    by (simp only: assms(1,3) if_False Option.bind.bind_lunit lmb_scan_result.case prod.case)
      (use assms(4,5) in \<open>cases "lmb_coalesce_regions (rgn\<lparr> region := rs \<rparr>) i (Suc i)";
        simp add: c lmb_regions_adjacent_def\<close>)
qed

text \<open>No neighbour: the entry is inserted at its place.\<close>

lemma regs_sorted_not_dummy:
  "regs_sorted (regs rgn) \<Longrightarrow> 1 \<le> cnt rgn \<Longrightarrow> 0 < length (region rgn) \<Longrightarrow> rsize (region rgn ! 0) \<noteq> 0"
  by (cases "region rgn"; cases "cnt rgn") (auto simp: regs_sorted_def regs_def reg_ok_def)

lemma sorted_split_above:
  assumes "regs_sorted rs" "\<forall>r \<in> set rs. reg_fin r < unat base \<or> fin < unat (rbase r)" "unat base < fin"
  defines "hi \<equiv> rev (takeWhile (\<lambda>r. base < rbase r) (rev rs))"
    and "lo \<equiv> rev (dropWhile (\<lambda>r. base < rbase r) (rev rs))"
  shows "rs = lo @ hi" and "\<forall>r \<in> set lo. reg_fin r < unat base" and "\<forall>r \<in> set hi. fin < unat (rbase r)"
proof -
  show rs: "rs = lo @ hi"
    unfolding hi_def lo_def by (metis rev_append rev_rev_ident takeWhile_dropWhile_id)
  have ok: "\<forall>r \<in> set rs. unat (rbase r) < reg_fin r" using assms(1) reg_ok_pos by (auto simp: regs_sorted_def list_all_iff)
  have "base < rbase r" if "r \<in> set hi" for r using that unfolding hi_def by (auto dest: set_takeWhileD)
  moreover have "set hi \<subseteq> set rs" using rs by auto
  ultimately show "\<forall>r \<in> set hi. fin < unat (rbase r)"
    using assms(2) ok unfolding word_less_nat_alt by (meson less_trans less_asym subsetD)
  show "\<forall>r \<in> set lo. reg_fin r < unat base"
  proof (cases "lo = []")
    case False
    then obtain lo' x where lo: "lo = lo' @ [x]" by (metis rev_exhaust)
    then have "\<not> base < rbase x"
      unfolding lo_def by (metis dropWhile_eq_Cons_conv rev_eq_Cons_iff rev_rev_ident)
    then have x: "reg_fin x < unat base"
      using assms(2,3) rs lo by (auto simp: word_less_nat_alt)
    have "reg_fin r < unat (rbase x)" if "r \<in> set lo'" for r
      using assms(1) that unfolding rs lo by (auto simp: regs_sorted_def sorted_wrt_append)
    moreover have "unat (rbase x) < reg_fin x" using ok rs lo by auto
    ultimately show ?thesis using x lo by fastforce
  qed simp
qed

lemma lmb_add_insert:
  assumes inv: "lmb_inv rgn" and rs: "regs_sorted (regs rgn)"
    and ok: "reg_ok \<lparr> rbase = base, rsize = sz \<rparr>"
    and disj: "\<forall>r \<in> set (regs rgn). reg_set r \<inter> reg_set \<lparr> rbase = base, rsize = sz \<rparr> = {}"
    and un: "\<forall>r \<in> set (regs rgn). unrelated base sz r"
    and room: "cnt rgn < MAX_LMB_REGIONS"
  shows "\<exists>rgn'. lmb_add_region rgn base sz = Some (rgn', 0) \<and> lmb_inv rgn' \<and>
    lmb_set rgn' = lmb_set rgn \<union> reg_set \<lparr> rbase = base, rsize = sz \<rparr>"
proof -
  let ?new = "\<lparr> rbase = base, rsize = sz \<rparr>"
  let ?P = "\<lambda>r. base < rbase r"
  define hi where "hi = rev (takeWhile ?P (rev (regs rgn)))"
  define lo where "lo = rev (dropWhile ?P (rev (regs rgn)))"
  note inv' = inv [unfolded lmb_inv_def]
  have len: "cnt rgn < length (region rgn)" "1 \<le> cnt rgn" using inv' room by auto
  have reg: "region rgn = regs rgn @ drop (cnt rgn) (region rgn)" using region_split len by simp
  have lr: "length (regs rgn) = cnt rgn" using len by (simp add: regs_def)
  have scan: "lmb_scan (region rgn) 0 (cnt rgn) base sz = Some NoMatch"
    using lmb_scan_front [OF un, of "drop (cnt rgn) (region rgn)" 0] reg lr by simp
  obtain rs' where rs': "lmb_insert (region rgn) (cnt rgn) base sz = Some rs'" "length rs' = length (region rgn)"
    "take (Suc (cnt rgn)) rs' = (if lo = [] then region rgn ! 0 # hi else lo @ ?new # hi)"
    using lmb_insert_eq [OF len(1), of base sz] by (auto simp: Let_def regs_def lo_def hi_def)
  define rs'' where "rs'' = (if base < rbase (rs' ! 0) then rs'[0 := ?new] else rs')"
  define rgn' where "rgn' = rgn\<lparr> region := rs'', cnt := Suc (cnt rgn) \<rparr>"
  have add: "lmb_add_region rgn base sz = Some (rgn', 0)"
  proof -
    have "\<not> (cnt rgn = 1 \<and> rsize (region rgn ! 0) = 0)"
      using regs_sorted_not_dummy [OF rs len(2)] len by (cases "region rgn") auto
    from lmb_add_nomatch [OF this len(2) scan] show ?thesis
      using room rs'(1) by (simp add: rs''_def rgn'_def)
  qed
  have "\<forall>r \<in> set (regs rgn). reg_fin r < unat base \<or> reg_fin ?new < unat (rbase r)"
    using un disj unrelated_iff [OF _ ok] rs by (auto simp: regs_sorted_def list_all_iff)
  note split = sorted_split_above [OF rs this, folded lo_def hi_def]
  have pos: "unat base < reg_fin ?new" using reg_ok_pos [OF ok] by simp
  have "regs rgn' = lo @ ?new # hi"
  proof (cases "lo = []")
    case True
    have "rs' \<noteq> []" using rs'(2) len by auto
    then have "rs' ! 0 = region rgn ! 0" "tl (take (Suc (cnt rgn)) rs') = hi" using rs'(3) True by (cases rs'; simp)+
    moreover have "base < rbase (region rgn ! 0)"
    proof -
      have "regs rgn \<noteq> []" "region rgn ! 0 = hd (regs rgn)"
        using lr len by (cases "region rgn"; cases "cnt rgn"; simp add: regs_def)+
      then have "region rgn ! 0 \<in> set hi" using split(1) [OF pos] True by simp
      then show ?thesis using split(3) [OF pos] pos by (auto simp: word_less_nat_alt)
    qed
    ultimately show ?thesis using True \<open>rs' \<noteq> []\<close>
      by (cases rs') (auto simp: rgn'_def rs''_def regs_def)
  next
    case False
    then have "rs' ! 0 = hd lo" using rs'(2,3) len by (cases rs'; cases lo) auto
    moreover have "hd lo \<in> set lo" using False by simp
    moreover have "unat (rbase (hd lo)) < reg_fin (hd lo)"
      using rs split(1) [OF pos] \<open>hd lo \<in> set lo\<close> reg_ok_pos by (auto simp: regs_sorted_def list_all_iff)
    ultimately have "\<not> base < rbase (rs' ! 0)" using split(2) [OF pos] by (auto simp: word_less_nat_alt)
    then show ?thesis using False rs'(3) by (simp add: rgn'_def rs''_def regs_def)
  qed
  moreover have "regs_sorted (lo @ ?new # hi)"
    using rs split [OF pos] ok pos by (auto simp: regs_sorted_def sorted_wrt_append list_all_iff)
  moreover have "length (region rgn') = length (region rgn)" using rs'(2) by (simp add: rgn'_def rs''_def)
  ultimately have "lmb_inv rgn'" "lmb_set rgn' = lmb_set rgn \<union> reg_set ?new"
    using inv' room split(1) [OF pos] by (auto simp: lmb_inv_def rgn'_def lmb_set_def)
  with add show ?thesis by blast
qed


text \<open>A neighbour: the first one is extended, and merged with the one after it when they now
  touch.\<close>

lemma lmb_scan_merge:
  assumes reg: "region rgn = xs @ r # post" and n: "cnt rgn = Suc (length xs + n)"
    and un: "\<forall>r \<in> set xs. unrelated base sz r"
    and ok: "reg_ok r" "reg_ok \<lparr> rbase = base, rsize = sz \<rparr>"
    and disj: "reg_set r \<inter> reg_set \<lparr> rbase = base, rsize = sz \<rparr> = {}"
    and rel: "\<not> unrelated base sz r"
  shows "\<exists>r'. lmb_scan (region rgn) 0 (cnt rgn) base sz = Some (Merged (length xs) (xs @ r' # post)) \<and>
    reg_ok r' \<and> reg_set r' = reg_set r \<union> reg_set \<lparr> rbase = base, rsize = sz \<rparr> \<and>
    (unat (rbase r') = unat base \<and> reg_fin r' = reg_fin r \<or>
     unat (rbase r') = unat (rbase r) \<and> reg_fin r' = reg_fin \<lparr> rbase = base, rsize = sz \<rparr>)"
proof -
  let ?new = "\<lparr> rbase = base, rsize = sz \<rparr>"
  have neq: "\<not> (rbase r = base \<and> rsize r = sz)"
    using ok(1) disj reg_ok_pos [of r] by (auto simp: reg_set_def reg_fin_def)
  have front: "lmb_scan (region rgn) 0 (cnt rgn) base sz = lmb_scan (region rgn) (length xs) (Suc n) base sz"
    using lmb_scan_front [OF un, of "r # post" "Suc n"] by (simp add: reg n)
  have pos: "unat (rbase r) < reg_fin r" "unat base < reg_fin ?new"
    using reg_ok_pos [OF ok(1)] reg_ok_pos [OF ok(2)] by simp_all
  consider (below) "unat (rbase r) = reg_fin ?new" | (above) "unat base = reg_fin r"
    using unrelated_iff [OF ok disj] rel disjoint_cases [OF ok disj] by fastforce
  then show ?thesis
  proof cases
    case below
    let ?r = "r\<lparr> rbase := rbase r - sz, rsize := rsize r + sz \<rparr>"
    have "sz \<le> rbase r" using below by (simp add: word_le_nat_alt reg_fin_def)
    then have b: "unat (rbase ?r) = unat base" using below by (simp add: unat_sub reg_fin_def)
    have "unat (rsize r) + unat sz < 2 ^ 32" using below ok(1) by (simp add: reg_ok_def reg_fin_def)
    then have s: "unat (rsize r + sz) = unat (rsize r) + unat sz" by (simp add: unat_word_ariths)
    then have f: "reg_fin ?r = reg_fin r" using b below by (simp add: reg_fin_def)
    have "reg_ok ?r" using ok(1) f s unfolding reg_ok_def by (simp add: word_less_nat_alt)
    moreover have "reg_set ?r = reg_set r \<union> reg_set ?new"
      using below pos f b by (auto simp: reg_set_def)
    moreover have "lmb_scan (region rgn) (length xs) (Suc n) base sz = Some (Merged (length xs) (xs @ ?r # post))"
      using neq adjacent_iff [OF ok(2,1)] below by (auto simp: reg nth_append list_update_append Let_def)
    ultimately show ?thesis using front f b by auto
  next
    case above
    let ?r = "r\<lparr> rsize := rsize r + sz \<rparr>"
    have "unat (rsize r) + unat sz < 2 ^ 32" using above ok(2) by (simp add: reg_ok_def reg_fin_def)
    then have s: "unat (rsize r + sz) = unat (rsize r) + unat sz" by (simp add: unat_word_ariths)
    then have f: "reg_fin ?r = reg_fin ?new" using above by (simp add: reg_fin_def)
    have "reg_ok ?r" using ok f s unfolding reg_ok_def by (simp add: word_less_nat_alt)
    moreover have "reg_set ?r = reg_set r \<union> reg_set ?new"
      using above pos f by (auto simp: reg_set_def)
    moreover have "lmb_scan (region rgn) (length xs) (Suc n) base sz = Some (Merged (length xs) (xs @ ?r # post))"
      using neq adjacent_iff [OF ok(2,1)] above pos by (auto simp: reg nth_append list_update_append Let_def)
    ultimately show ?thesis using front f by auto
  qed
qed

lemma lmb_coalesce_ok:
  assumes "regs rgn = xs @ a # b # ys" "cnt rgn < length (region rgn)"
  shows "\<exists>rgn'. lmb_coalesce_regions rgn (length xs) (Suc (length xs)) = Some rgn' \<and>
    length (region rgn') = length (region rgn) \<and> cnt rgn' = cnt rgn - 1 \<and>
    regs rgn' = xs @ a\<lparr> rsize := rsize a + rsize b \<rparr> # ys"
proof -
  let ?a = "a\<lparr> rsize := rsize a + rsize b \<rparr>"
  have c: "cnt rgn = length xs + 2 + length ys"
    using arg_cong [OF assms(1), of length] assms(2) by (simp add: regs_def)
  obtain post where reg: "region rgn = xs @ a # b # ys @ post"
    using region_split [of rgn] assms by simp
  define rgn1 where "rgn1 = rgn\<lparr> region := xs @ ?a # b # ys @ post \<rparr>"
  have "lmb_coalesce_regions rgn (length xs) (Suc (length xs)) = lmb_remove_region rgn1 (Suc (length xs))"
    by (simp add: lmb_coalesce_regions_def rgn1_def Let_def reg nth_append list_update_append)
  moreover have "regs rgn1 = xs @ ?a # b # ys" by (simp add: rgn1_def regs_def c)
  moreover have "length (region rgn1) = length (region rgn)" by (simp add: rgn1_def reg)
  ultimately show ?thesis
    using lmb_remove_region_ok [of "Suc (length xs)" rgn1] assms(2) c by (auto simp: rgn1_def)
qed

lemma reg_join:
  assumes "reg_ok a" "reg_ok b" "unat (rbase b) = reg_fin a"
  shows "reg_fin (a\<lparr> rsize := rsize a + rsize b \<rparr>) = reg_fin b"
    and "reg_ok (a\<lparr> rsize := rsize a + rsize b \<rparr>)"
    and "reg_set (a\<lparr> rsize := rsize a + rsize b \<rparr>) = reg_set a \<union> reg_set b"
proof -
  let ?m = "a\<lparr> rsize := rsize a + rsize b \<rparr>"
  have "unat (rsize a) + unat (rsize b) < 2 ^ 32" using assms by (simp add: reg_ok_def reg_fin_def)
  then have s: "unat (rsize a + rsize b) = unat (rsize a) + unat (rsize b)" by (simp add: unat_word_ariths)
  then show f: "reg_fin ?m = reg_fin b" using assms(3) by (simp add: reg_fin_def)
  show "reg_ok ?m" using assms(1,2) f s unfolding reg_ok_def by (simp add: word_less_nat_alt)
  show "reg_set ?m = reg_set a \<union> reg_set b"
    using f assms(3) reg_ok_pos [OF assms(1)] reg_ok_pos [OF assms(2)] by (auto simp: reg_set_def)
qed

lemma lmb_merge_order:
  assumes rs: "regs_sorted (regs rgn)" and ok: "reg_ok \<lparr> rbase = base, rsize = sz \<rparr>"
    and disj: "\<forall>r \<in> set (regs rgn). reg_set r \<inter> reg_set \<lparr> rbase = base, rsize = sz \<rparr> = {}"
    and split: "regs rgn = xs @ r # ys" and un: "\<forall>r \<in> set xs. unrelated base sz r" and rel: "\<not> unrelated base sz r"
    and r': "unat (rbase r') = unat base \<and> reg_fin r' = reg_fin r \<or>
             unat (rbase r') = unat (rbase r) \<and> reg_fin r' = reg_fin \<lparr> rbase = base, rsize = sz \<rparr>"
  shows "(\<forall>x \<in> set xs. reg_fin x < unat (rbase r')) \<and> (\<forall>y \<in> set ys. reg_fin r' \<le> unat (rbase y))"
proof -
  let ?new = "\<lparr> rbase = base, rsize = sz \<rparr>"
  have oks: "\<forall>q \<in> set (xs @ r # ys). reg_ok q" using rs split by (simp add: regs_sorted_def list_all_iff)
  have pos: "\<forall>q \<in> set (xs @ r # ys). unat (rbase q) < reg_fin q" "unat base < reg_fin ?new"
    using oks reg_ok_pos reg_ok_pos [OF ok] by auto
  have ord: "\<forall>x \<in> set xs. reg_fin x < unat (rbase r)" "\<forall>y \<in> set ys. reg_fin r < unat (rbase y)"
    using rs by (auto simp: regs_sorted_def split sorted_wrt_append)
  have touch: "unat (rbase r) = reg_fin ?new \<or> unat base = reg_fin r"
    using unrelated_iff [of r, OF _ ok] rel disjoint_cases [of r, OF _ ok] oks disj split by fastforce
  have "reg_fin x < unat base" if "x \<in> set xs" for x
  proof -
    have "reg_fin x < unat base \<or> reg_fin ?new < unat (rbase x)"
      using that unrelated_iff [of x, OF _ ok] un oks disj split by simp
    moreover have "unat (rbase x) < reg_fin x" "reg_fin x < unat (rbase r)" "unat (rbase r) < reg_fin r"
      using that pos ord(1) by auto
    ultimately show ?thesis using touch pos(2) by linarith
  qed
  moreover have "reg_fin ?new \<le> unat (rbase y)" if "y \<in> set ys" for y
  proof -
    have "reg_fin y \<le> unat base \<or> reg_fin ?new \<le> unat (rbase y)"
      using that disjoint_cases [of y, OF _ ok] oks disj split by auto
    moreover have "unat (rbase y) < reg_fin y" "reg_fin r < unat (rbase y)" "unat (rbase r) < reg_fin r"
      using that pos ord(2) by auto
    ultimately show ?thesis using touch pos(2) by linarith
  qed
  ultimately show ?thesis using r' ord by auto
qed

lemma lmb_strict_after:
  assumes "regs_sorted rs" "rs = xs @ r # ys" "\<forall>y \<in> set ys. fin \<le> unat (rbase y)"
    and "\<not> (\<exists>y ys'. ys = y # ys' \<and> unat (rbase y) = fin)"
  shows "\<forall>y \<in> set ys. fin < unat (rbase y)"
proof (cases ys)
  case (Cons y ys')
  then have "fin < unat (rbase y)" using assms(3,4) by fastforce
  moreover have "\<forall>z \<in> set ys'. unat (rbase y) < unat (rbase z)"
    using assms(1,2) Cons reg_ok_pos [of y] by (fastforce simp: regs_sorted_def sorted_wrt_append)
  ultimately show ?thesis using Cons by auto
qed simp

lemma lmb_add_merge:
  assumes inv: "lmb_inv rgn" and rs: "regs_sorted (regs rgn)"
    and ok: "reg_ok \<lparr> rbase = base, rsize = sz \<rparr>"
    and disj: "\<forall>r \<in> set (regs rgn). reg_set r \<inter> reg_set \<lparr> rbase = base, rsize = sz \<rparr> = {}"
    and split: "regs rgn = xs @ r # ys" and un: "\<forall>r \<in> set xs. unrelated base sz r" and rel: "\<not> unrelated base sz r"
  shows "\<exists>rgn' rc. lmb_add_region rgn base sz = Some (rgn', rc) \<and> 0 < rc \<and> lmb_inv rgn' \<and>
    lmb_set rgn' = lmb_set rgn \<union> reg_set \<lparr> rbase = base, rsize = sz \<rparr>"
proof -
  let ?new = "\<lparr> rbase = base, rsize = sz \<rparr>"
  define post where "post = drop (cnt rgn) (region rgn)"
  note inv' = inv [unfolded lmb_inv_def]
  have len: "cnt rgn < length (region rgn)" "1 \<le> cnt rgn" using inv' by auto
  have c: "cnt rgn = Suc (length xs + length ys)"
    using arg_cong [OF split, of length] len by (simp add: regs_def)
  have reg: "region rgn = xs @ r # ys @ post"
    using region_split [of rgn] len split by (simp add: post_def)
  have oks: "\<forall>q \<in> set (regs rgn). reg_ok q" using rs by (simp add: regs_sorted_def list_all_iff)
  have nd: "\<not> (cnt rgn = 1 \<and> rsize (region rgn ! 0) = 0)"
    using regs_sorted_not_dummy [OF rs len(2)] len by (cases "region rgn") auto
  obtain r' where r': "lmb_scan (region rgn) 0 (cnt rgn) base sz = Some (Merged (length xs) (xs @ r' # ys @ post))"
    "reg_ok r'" "reg_set r' = reg_set r \<union> reg_set ?new"
    "unat (rbase r') = unat base \<and> reg_fin r' = reg_fin r \<or>
     unat (rbase r') = unat (rbase r) \<and> reg_fin r' = reg_fin ?new"
    using lmb_scan_merge [OF reg c un _ ok _ rel] oks disj split by auto
  define rgn1 where "rgn1 = rgn\<lparr> region := xs @ r' # ys @ post \<rparr>"
  have regs1: "regs rgn1 = xs @ r' # ys" by (simp add: rgn1_def regs_def c)
  have len1: "length (region rgn1) = length (region rgn)" "cnt rgn1 = cnt rgn" by (simp_all add: rgn1_def reg)
  have before: "\<forall>x \<in> set xs. reg_fin x < unat (rbase r')"
    and after: "\<forall>y \<in> set ys. reg_fin r' \<le> unat (rbase y)"
    using lmb_merge_order [OF rs ok disj split un rel r'(4)] by blast+
  have set1: "(\<Union>q \<in> set (xs @ r' # ys). reg_set q) = lmb_set rgn \<union> reg_set ?new"
    by (auto simp: lmb_set_def split r'(3))
  have srt: "regs_sorted (xs @ ys)" "\<forall>x \<in> set xs. \<forall>y \<in> set ys. reg_fin x < unat (rbase y)"
    using rs by (auto simp: regs_sorted_def split sorted_wrt_append)
  show ?thesis
  proof (cases "\<exists>y ys'. ys = y # ys' \<and> unat (rbase y) = reg_fin r'")
    case True
    then obtain y ys' where y: "ys = y # ys'" "unat (rbase y) = reg_fin r'" by blast
    have oky: "reg_ok y" using oks split y by simp
    let ?m = "r'\<lparr> rsize := rsize r' + rsize y \<rparr>"
    obtain rgn2 where rgn2: "lmb_coalesce_regions rgn1 (length xs) (Suc (length xs)) = Some rgn2"
      "length (region rgn2) = length (region rgn)" "cnt rgn2 = cnt rgn - 1" "regs rgn2 = xs @ ?m # ys'"
      using lmb_coalesce_ok [of rgn1 xs r' y ys'] regs1 y len len1 by auto
    have "lmb_add_region rgn base sz = Some (rgn2, 2)"
      using lmb_add_merged [OF nd len(2) r'(1)] adjacent_iff [OF r'(2) oky] y c len rgn2(1)
      by (simp add: nth_append reg rgn1_def)
    moreover have m: "reg_fin ?m = reg_fin y" "reg_ok ?m" "reg_set ?m = reg_set r' \<union> reg_set y"
      using reg_join [OF r'(2) oky y(2)] by simp_all
    moreover have "regs_sorted (regs rgn2)"
      using srt before m rgn2(4) rs split y by (auto simp: regs_sorted_def sorted_wrt_append)
    moreover have "lmb_set rgn2 = lmb_set rgn \<union> reg_set ?new"
      using set1 m(3) unfolding lmb_set_def rgn2(4) y by auto
    ultimately show ?thesis using rgn2(2,3) inv' c y by (auto simp: lmb_inv_def)
  next
    case False
    have "lmb_add_region rgn base sz = Some (rgn1, 1)"
    proof (cases ys)
      case Nil
      then show ?thesis using lmb_add_merged [OF nd len(2) r'(1)] c len by (simp add: reg rgn1_def)
    next
      case (Cons y ys')
      have "reg_ok y" using oks split Cons by simp
      then have "lmb_addrs_adjacent (rbase r') (rsize r') (rbase y) (rsize y) = 0"
        using adjacent_iff [OF r'(2)] False Cons after reg_ok_pos [of y] reg_ok_pos [OF r'(2)] by fastforce
      then show ?thesis using lmb_add_merged [OF nd len(2) r'(1)] c len Cons
        by (simp add: nth_append reg rgn1_def)
    qed
    moreover have "regs_sorted (regs rgn1)"
      using lmb_strict_after [OF rs split after] False srt before r'(2) unfolding regs1
      by (auto simp: regs_sorted_def sorted_wrt_append)
    moreover have "lmb_set rgn1 = lmb_set rgn \<union> reg_set ?new" using set1 by (simp add: lmb_set_def regs1)
    ultimately show ?thesis using len1 inv' by (auto simp: lmb_inv_def)
  qed
qed


lemma lmb_inv_cases:
  assumes "lmb_inv rgn"
  obtains (dummy) "cnt rgn = 1" "region rgn ! 0 = \<lparr> rbase = 0, rsize = 0 \<rparr>" "regs rgn = [region rgn ! 0]" "lmb_set rgn = {}"
    | (regions) "regs_sorted (regs rgn)" "\<not> (cnt rgn = 1 \<and> rsize (region rgn ! 0) = 0)"
proof (cases "regs_sorted (regs rgn)")
  case True
  then show ?thesis using regions regs_sorted_not_dummy [OF True] assms by (fastforce simp: lmb_inv_def)
next
  case False
  then have d: "cnt rgn = 1" "region rgn ! 0 = \<lparr> rbase = 0, rsize = 0 \<rparr>" using assms by (auto simp: lmb_inv_def)
  moreover have "regs rgn = [region rgn ! 0]"
    using d assms by (cases "region rgn") (auto simp: regs_def lmb_inv_def)
  ultimately show ?thesis using dummy by (simp add: lmb_set_def reg_set_def reg_fin_def)
qed

lemma lmb_add_region_ok:
  assumes inv: "lmb_inv rgn" and ok: "reg_ok \<lparr> rbase = base, rsize = sz \<rparr>"
    and disj: "lmb_set rgn \<inter> reg_set \<lparr> rbase = base, rsize = sz \<rparr> = {}"
  shows "\<exists>rgn' rc. lmb_add_region rgn base sz = Some (rgn', rc) \<and> lmb_inv rgn' \<and>
    (if rc < 0 then rgn' = rgn \<and> cnt rgn = MAX_LMB_REGIONS
     else lmb_set rgn' = lmb_set rgn \<union> reg_set \<lparr> rbase = base, rsize = sz \<rparr>)"
  using inv
proof (cases rule: lmb_inv_cases)
  case dummy
  let ?new = "\<lparr> rbase = base, rsize = sz \<rparr>"
  let ?rgn = "rgn\<lparr> region := (region rgn)[0 := ?new] \<rparr>"
  have "regs ?rgn = [?new]" using inv dummy(1) by (cases "region rgn") (auto simp: regs_def lmb_inv_def)
  then have "lmb_inv ?rgn" "lmb_set ?rgn = reg_set ?new"
    using inv ok by (simp_all add: lmb_inv_def regs_sorted_def lmb_set_def)
  then show ?thesis using dummy by (simp add: lmb_add_region_def)
next
  case regions
  have d: "\<forall>r \<in> set (regs rgn). reg_set r \<inter> reg_set \<lparr> rbase = base, rsize = sz \<rparr> = {}"
    using disj by (auto simp: lmb_set_def)
  show ?thesis
  proof (cases "\<forall>r \<in> set (regs rgn). unrelated base sz r")
    case True
    have len: "1 \<le> cnt rgn" "cnt rgn \<le> length (region rgn)" using inv by (auto simp: lmb_inv_def)
    have "lmb_scan (region rgn) 0 (cnt rgn) base sz = Some NoMatch"
      using lmb_scan_front [OF True, of "drop (cnt rgn) (region rgn)" 0] region_split [OF len(2)] len
      by (simp add: regs_def)
    then have "MAX_LMB_REGIONS \<le> cnt rgn \<Longrightarrow> ?thesis"
      using lmb_add_nomatch [OF regions(2) len(1)] inv by (auto simp: lmb_inv_def)
    moreover have "cnt rgn < MAX_LMB_REGIONS \<Longrightarrow> ?thesis"
      using lmb_add_insert [OF inv regions(1) ok d True] by fastforce
    ultimately show ?thesis by (cases "cnt rgn < MAX_LMB_REGIONS") simp_all
  next
    case False
    then obtain xs r ys where "regs rgn = xs @ r # ys" "\<forall>r \<in> set xs. unrelated base sz r" "\<not> unrelated base sz r"
      using split_list_first_prop [of "regs rgn" "\<lambda>r. \<not> unrelated base sz r"] by auto
    from lmb_add_merge [OF inv regions(1) ok d this] show ?thesis by fastforce
  qed
qed

subsection \<open>Searching\<close>

lemma region_index_cases:
  assumes "i + n \<le> length rs"
  obtains (none) "region_index P rs i n = Some None" "\<And>j. i \<le> j \<Longrightarrow> j < i + n \<Longrightarrow> \<not> P (rs ! j)"
    | (found) j where "region_index P rs i n = Some (Some j)" "i \<le> j" "j < i + n" "P (rs ! j)"
proof -
  have "(region_index P rs i n = Some None \<and> (\<forall>j. i \<le> j \<and> j < i + n \<longrightarrow> \<not> P (rs ! j))) \<or>
      (\<exists>j. region_index P rs i n = Some (Some j) \<and> i \<le> j \<and> j < i + n \<and> P (rs ! j))"
    using assms
  proof (induction P rs i n rule: region_index.induct)
    case (2 P rs i n)
    show ?case
    proof (cases "P (rs ! i)")
      case False
      then have "region_index P rs i (Suc n) = region_index P rs (Suc i) n" using 2(2) by simp
      then show ?thesis using 2(1) 2(2) False by (auto simp: le_less_Suc_eq Suc_le_eq) (metis le_neq_implies_less)
    qed (use 2(2) in auto)
  qed auto
  then show ?thesis using that by blast
qed

lemma regs_mem: "j < cnt rgn \<Longrightarrow> cnt rgn \<le> length (region rgn) \<Longrightarrow> region rgn ! j \<in> set (regs rgn)"
  by (auto simp: regs_def in_set_conv_nth)

lemma regs_mem_iff: "cnt rgn \<le> length (region rgn) \<Longrightarrow> r \<in> set (regs rgn) \<longleftrightarrow> (\<exists>j < cnt rgn. r = region rgn ! j)"
  by (auto simp: regs_def in_set_conv_nth)

lemma addrs_overlap_iff:
  assumes "reg_ok a" "reg_ok \<lparr> rbase = base, rsize = sz \<rparr>"
  shows "lmb_addrs_overlap base sz (rbase a) (rsize a) \<longleftrightarrow> reg_set a \<inter> reg_set \<lparr> rbase = base, rsize = sz \<rparr> \<noteq> {}"
proof -
  let ?n = "\<lparr> rbase = base, rsize = sz \<rparr>"
  have "lmb_addrs_overlap base sz (rbase a) (rsize a) \<longleftrightarrow> unat base < reg_fin a \<and> unat (rbase a) < reg_fin ?n"
    using reg_fin_word [OF assms(1)] reg_fin_word [OF assms(2)] by (simp add: lmb_addrs_overlap_def word_less_nat_alt)
  also have "\<dots> \<longleftrightarrow> reg_set a \<inter> reg_set ?n \<noteq> {}"
    using reg_ok_pos [OF assms(1)] reg_ok_pos [OF assms(2)] disjoint_cases [OF assms]
    by (auto simp: reg_set_def)
  finally show ?thesis .
qed

lemma lmb_overlaps_region_ok:
  assumes inv: "lmb_inv rgn" and ok: "reg_ok \<lparr> rbase = base, rsize = sz \<rparr>"
  obtains (free) "lmb_overlaps_region rgn base sz = Some None" "lmb_set rgn \<inter> reg_set \<lparr> rbase = base, rsize = sz \<rparr> = {}"
    | (taken) j where "lmb_overlaps_region rgn base sz = Some (Some j)" "j < cnt rgn"
        "reg_set (region rgn ! j) \<inter> reg_set \<lparr> rbase = base, rsize = sz \<rparr> \<noteq> {}"
proof -
  let ?P = "\<lambda>r. lmb_addrs_overlap base sz (rbase r) (rsize r)"
  let ?n = "\<lparr> rbase = base, rsize = sz \<rparr>"
  have len: "0 + cnt rgn \<le> length (region rgn)" using inv by (auto simp: lmb_inv_def)
  have P: "?P (region rgn ! j) \<longleftrightarrow> reg_set (region rgn ! j) \<inter> reg_set ?n \<noteq> {}" if "j < cnt rgn" for j
    using inv
  proof (cases rule: lmb_inv_cases)
    case dummy
    then have "j = 0" using that by simp
    then have "\<not> ?P (region rgn ! j)"
      using dummy(2) by (simp add: lmb_addrs_overlap_def)
    then show ?thesis using dummy that \<open>j = 0\<close> by (simp add: reg_set_def reg_fin_def)
  next
    case regions
    then have "reg_ok (region rgn ! j)" using regs_mem [OF that] len by (simp add: regs_sorted_def list_all_iff)
    then show ?thesis using addrs_overlap_iff [OF _ ok] by simp
  qed
  from len show ?thesis
  proof (cases rule: region_index_cases [of 0 "cnt rgn" "region rgn" ?P])
    case none
    then have "lmb_set rgn \<inter> reg_set ?n = {}"
      using P regs_mem_iff [of rgn] len by (fastforce simp: lmb_set_def)
    then show ?thesis using free none(1) by (simp add: lmb_overlaps_region_def)
  next
    case (found j)
    then show ?thesis using taken [of j] P by (simp add: lmb_overlaps_region_def)
  qed
qed


subsection \<open>Freeing\<close>

lemma word_fin_le:
  assumes "reg_ok a" "reg_ok \<lparr> rbase = base, rsize = sz \<rparr>"
  shows "rbase a \<le> base \<and> base + sz \<le> rbase a + rsize a \<longleftrightarrow>
    unat (rbase a) \<le> unat base \<and> reg_fin \<lparr> rbase = base, rsize = sz \<rparr> \<le> reg_fin a"
  using reg_fin_word [OF assms(1)] reg_fin_word [OF assms(2)] by (simp add: word_le_nat_alt)

lemma regs_update: "i < cnt rgn \<Longrightarrow> regs (rgn\<lparr> region := (region rgn)[i := r] \<rparr>) = (regs rgn)[i := r]"
  by (simp add: regs_def take_update_swap)

text \<open>Replacing an entry by a smaller one.\<close>

lemma lmb_shrink_ok:
  assumes inv: "lmb_inv rgn" "regs_sorted (regs rgn)" and i: "i < cnt rgn" and ok: "reg_ok r'"
    and sub: "unat (rbase (region rgn ! i)) \<le> unat (rbase r')" "reg_fin r' \<le> reg_fin (region rgn ! i)"
  shows "lmb_inv (rgn\<lparr> region := (region rgn)[i := r'] \<rparr>)" and "regs_sorted ((regs rgn)[i := r'])"
    and "lmb_set (rgn\<lparr> region := (region rgn)[i := r'] \<rparr>) = lmb_set rgn - (reg_set (region rgn ! i) - reg_set r')"
proof -
  let ?r = "region rgn ! i"
  have len: "i < length (regs rgn)" "?r = regs rgn ! i" using inv i by (auto simp: regs_def lmb_inv_def)
  obtain xs ys where sp: "regs rgn = xs @ ?r # ys" "(regs rgn)[i := r'] = xs @ r' # ys"
    using len by (metis id_take_nth_drop upd_conv_take_nth_drop)
  show srt: "regs_sorted ((regs rgn)[i := r'])"
    using inv(2) ok sub unfolding sp(2) unfolding sp(1) by (fastforce simp: regs_sorted_def sorted_wrt_append)
  then show "lmb_inv (rgn\<lparr> region := (region rgn)[i := r'] \<rparr>)"
    using inv(1) regs_update [OF i] by (simp add: lmb_inv_def)
  have "reg_set r' \<subseteq> reg_set ?r" using sub by (auto simp: reg_set_def)
  moreover have "reg_set q \<inter> reg_set ?r = {}" if "q \<in> set xs \<union> set ys" for q
    using that inv(2) sp(1) by (fastforce simp: regs_sorted_def sorted_wrt_append reg_set_def)
  ultimately show "lmb_set (rgn\<lparr> region := (region rgn)[i := r'] \<rparr>) = lmb_set rgn - (reg_set ?r - reg_set r')"
    using regs_update [OF i] unfolding lmb_set_def sp(2) regs_update [OF i] by (auto simp: sp(1))
qed


lemma lmb_drop_ok:
  assumes inv: "lmb_inv rgn" "regs_sorted (regs rgn)" and i: "i < cnt rgn" and more: "1 < cnt rgn"
  shows "\<exists>rgn'. lmb_remove_region rgn i = Some rgn' \<and> lmb_inv rgn' \<and> lmb_set rgn' = lmb_set rgn - reg_set (region rgn ! i)"
proof -
  let ?r = "region rgn ! i"
  have len: "i < length (regs rgn)" "?r = regs rgn ! i" "cnt rgn < length (region rgn)"
    using inv i by (auto simp: regs_def lmb_inv_def)
  have sp: "regs rgn = take i (regs rgn) @ ?r # drop (Suc i) (regs rgn)"
    using len by (metis id_take_nth_drop)
  obtain rgn' where rgn': "lmb_remove_region rgn i = Some rgn'" "length (region rgn') = length (region rgn)"
    "cnt rgn' = cnt rgn - 1" "regs rgn' = take i (regs rgn) @ drop (Suc i) (regs rgn)"
    using lmb_remove_region_ok [OF i len(3)] by blast
  have srt: "regs_sorted (take i (regs rgn) @ ?r # drop (Suc i) (regs rgn))" using inv(2) sp by simp
  then have "regs_sorted (regs rgn')" unfolding rgn'(4) by (simp add: regs_sorted_def sorted_wrt_append)
  then have "lmb_inv rgn'" using inv(1) rgn'(2,3) more by (auto simp: lmb_inv_def)
  moreover have "reg_set q \<inter> reg_set ?r = {}" if "q \<in> set (regs rgn')" for q
    using that srt unfolding rgn'(4) by (fastforce simp: regs_sorted_def sorted_wrt_append reg_set_def)
  then have "lmb_set rgn' = lmb_set rgn - reg_set ?r"
    unfolding lmb_set_def using arg_cong [OF sp, of set] unfolding rgn'(4) by fastforce
  ultimately show ?thesis using rgn'(1) by blast
qed

lemma reg_cut:
  assumes q: "reg_ok q" and ok: "reg_ok \<lparr> rbase = base, rsize = sz \<rparr>"
    and le: "unat (rbase q) \<le> unat base" "reg_fin \<lparr> rbase = base, rsize = sz \<rparr> \<le> reg_fin q"
  shows cut_front: "unat (rbase q) = unat base \<Longrightarrow> rsize q - sz = rbase q + rsize q - (base + sz)"
    and cut_rear: "reg_fin q = reg_fin \<lparr> rbase = base, rsize = sz \<rparr> \<Longrightarrow> rsize q - sz = base - rbase q"
    and cut_low: "unat (rbase q) < unat base \<Longrightarrow> reg_ok (q\<lparr> rsize := base - rbase q \<rparr>) \<and> reg_fin (q\<lparr> rsize := base - rbase q \<rparr>) = unat base"
    and cut_high: "reg_fin \<lparr> rbase = base, rsize = sz \<rparr> < reg_fin q \<Longrightarrow>
      reg_ok \<lparr> rbase = base + sz, rsize = rbase q + rsize q - (base + sz) \<rparr> \<and>
      unat (base + sz) = reg_fin \<lparr> rbase = base, rsize = sz \<rparr> \<and>
      reg_fin \<lparr> rbase = base + sz, rsize = rbase q + rsize q - (base + sz) \<rparr> = reg_fin q"
proof -
  let ?new = "\<lparr> rbase = base, rsize = sz \<rparr>"
  have f: "unat (rbase q + rsize q) = reg_fin q" "unat (base + sz) = reg_fin ?new"
    using reg_fin_word [OF q] reg_fin_word [OF ok] by simp_all
  show "unat (rbase q) = unat base \<Longrightarrow> rsize q - sz = rbase q + rsize q - (base + sz)"
    by (simp add: word_unat_eq_iff [symmetric])
  show "rsize q - sz = base - rbase q" if "reg_fin q = reg_fin ?new"
  proof -
    have "rbase q + rsize q = base + sz" using f that by (simp add: word_unat_eq_iff)
    then show ?thesis by (simp add: algebra_simps)
  qed
  show "reg_ok (q\<lparr> rsize := base - rbase q \<rparr>) \<and> reg_fin (q\<lparr> rsize := base - rbase q \<rparr>) = unat base"
    if "unat (rbase q) < unat base"
  proof -
    have "unat (base - rbase q) = unat base - unat (rbase q)" using that by (simp add: unat_sub word_le_nat_alt)
    then show ?thesis using that ok by (simp add: reg_ok_def reg_fin_def word_less_nat_alt)
  qed
  show "reg_ok \<lparr> rbase = base + sz, rsize = rbase q + rsize q - (base + sz) \<rparr> \<and>
      unat (base + sz) = reg_fin ?new \<and>
      reg_fin \<lparr> rbase = base + sz, rsize = rbase q + rsize q - (base + sz) \<rparr> = reg_fin q"
    if "reg_fin ?new < reg_fin q"
  proof -
    have "unat (rbase q + rsize q - (base + sz)) = reg_fin q - reg_fin ?new"
      using that f by (simp add: unat_sub word_le_nat_alt)
    then show ?thesis using that f q
      by (auto simp: reg_ok_def reg_fin_def [of "\<lparr> rbase = base + sz, rsize = _ \<rparr>"] word_less_nat_alt)
  qed
qed

text \<open>The loop of \<^verbatim>\<open>lmb_free\<close> finds the region around a reserved block.\<close>

lemma lmb_free_index:
  assumes inv: "lmb_inv rgn" "regs_sorted (regs rgn)" and ok: "reg_ok \<lparr> rbase = base, rsize = sz \<rparr>"
    and r: "r \<in> set (regs rgn)" "reg_set \<lparr> rbase = base, rsize = sz \<rparr> \<subseteq> reg_set r"
  obtains j where "region_index (\<lambda>r. rbase r \<le> base \<and> base + sz \<le> rbase r + rsize r) (region rgn) 0 (cnt rgn) = Some (Some j)"
    "j < cnt rgn" "reg_ok (region rgn ! j)" "unat (rbase (region rgn ! j)) \<le> unat base"
    "reg_fin \<lparr> rbase = base, rsize = sz \<rparr> \<le> reg_fin (region rgn ! j)"
proof -
  let ?new = "\<lparr> rbase = base, rsize = sz \<rparr>"
  let ?P = "\<lambda>r. rbase r \<le> base \<and> base + sz \<le> rbase r + rsize r"
  have len: "0 + cnt rgn \<le> length (region rgn)" using inv by (auto simp: lmb_inv_def)
  have oks: "reg_ok (region rgn ! j)" if "j < cnt rgn" for j
    using regs_mem [OF that] len inv(2) by (simp add: regs_sorted_def list_all_iff)
  have "unat (rbase r) \<le> unat base \<and> reg_fin ?new \<le> reg_fin r"
    using r(2) reg_ok_pos [OF ok] by (auto simp: reg_set_def)
  moreover have "reg_ok r" using r(1) inv(2) by (simp add: regs_sorted_def list_all_iff)
  ultimately have P: "?P r" using word_fin_le [OF _ ok] by blast
  obtain k where k: "k < cnt rgn" "r = region rgn ! k" using r(1) regs_mem_iff [of rgn] len by auto
  from len show ?thesis
  proof (cases rule: region_index_cases [of 0 "cnt rgn" "region rgn" ?P])
    case none
    have "\<not> ?P r" using none(2) [of k] k by simp
    with P show ?thesis by (rule notE [rotated])
  next
    case (found j)
    then show ?thesis using that [of j] oks [of j] word_fin_le [OF _ ok, of "region rgn ! j"] by simp
  qed
qed

text \<open>Cutting a hole into entry \<open>j\<close>: the entry keeps the part below, and the part above is added.\<close>

lemma lmb_punch_ok:
  assumes inv: "lmb_inv rgn" "regs_sorted (regs rgn)" and j: "j < cnt rgn" and room: "cnt rgn < MAX_LMB_REGIONS"
    and q: "reg_ok (region rgn ! j)" and ok: "reg_ok \<lparr> rbase = base, rsize = sz \<rparr>"
    and lt: "unat (rbase (region rgn ! j)) < unat base" "reg_fin \<lparr> rbase = base, rsize = sz \<rparr> < reg_fin (region rgn ! j)"
  shows "\<exists>rgn' rc. lmb_add_region (rgn\<lparr> region := (region rgn)[j := (region rgn ! j)\<lparr> rsize := base - rbase (region rgn ! j) \<rparr>] \<rparr>)
      (base + sz) (rbase (region rgn ! j) + rsize (region rgn ! j) - (base + sz)) = Some (rgn', rc) \<and> 0 \<le> rc \<and>
      lmb_inv rgn' \<and> lmb_set rgn' = lmb_set rgn - reg_set \<lparr> rbase = base, rsize = sz \<rparr>"
proof -
  let ?new = "\<lparr> rbase = base, rsize = sz \<rparr>"
  define q where "q = region rgn ! j"
  define q1 where "q1 = q\<lparr> rsize := base - rbase q \<rparr>"
  define q2 where "q2 = \<lparr> rbase = base + sz, rsize = rbase q + rsize q - (base + sz) \<rparr>"
  let ?r1 = "rgn\<lparr> region := (region rgn)[j := q1] \<rparr>"
  note lt = lt [folded q_def]
  note cut = reg_cut [OF q [folded q_def] ok]
  have pos: "unat base < reg_fin ?new" using reg_ok_pos [OF ok] by simp
  have q1: "reg_ok q1" "reg_fin q1 = unat base" "rbase q1 = rbase q" using cut(3) lt by (simp_all add: q1_def)
  have q2: "reg_ok q2" "unat (rbase q2) = reg_fin ?new" "reg_fin q2 = reg_fin q" using cut(4) lt by (simp_all add: q2_def)
  have s: "lmb_inv ?r1" "lmb_set ?r1 = lmb_set rgn - (reg_set q - reg_set q1)"
    using lmb_shrink_ok(1,3) [OF inv j q1(1), folded q_def] q1 lt pos by auto
  have sets: "reg_set q1 = {unat (rbase q) ..< unat base}" "reg_set q2 = {reg_fin ?new ..< reg_fin q}"
    "reg_set q = {unat (rbase q) ..< reg_fin q}" "reg_set ?new = {unat base ..< reg_fin ?new}"
    by (simp_all add: reg_set_def q1 q2)
  have "lmb_set ?r1 \<inter> reg_set q2 = {}" using s(2) lt pos by (auto simp: sets)
  then obtain rgn' rc where a: "lmb_add_region ?r1 (base + sz) (rbase q + rsize q - (base + sz)) = Some (rgn', rc)" "lmb_inv rgn'"
    "if rc < 0 then rgn' = ?r1 \<and> cnt ?r1 = MAX_LMB_REGIONS else lmb_set rgn' = lmb_set ?r1 \<union> reg_set q2"
    using lmb_add_region_ok [OF s(1), of "base + sz" "rbase q + rsize q - (base + sz)"] q2(1) unfolding q2_def by blast
  then have "0 \<le> rc" "lmb_set rgn' = lmb_set ?r1 \<union> reg_set q2" using room by (auto split: if_splits)
  moreover have "reg_set q \<subseteq> lmb_set rgn" using regs_mem [OF j] inv(1) by (auto simp: lmb_set_def q_def lmb_inv_def)
  then have "lmb_set ?r1 \<union> reg_set q2 = lmb_set rgn - reg_set ?new"
    unfolding s(2) using lt pos by (auto simp: sets)
  ultimately show ?thesis using a(1,2) unfolding q1_def q_def by simp
qed

lemma lmb_free_ok:
  assumes inv: "lmb_inv (reserved l)" "regs_sorted (regs (reserved l))"
    and ok: "reg_ok \<lparr> rbase = base, rsize = sz \<rparr>"
    and r: "r \<in> set (regs (reserved l))" "reg_set \<lparr> rbase = base, rsize = sz \<rparr> \<subseteq> reg_set r"
    and room: "cnt (reserved l) < MAX_LMB_REGIONS"
    and more: "1 < cnt (reserved l) \<or> lmb_set (reserved l) \<noteq> reg_set \<lparr> rbase = base, rsize = sz \<rparr>"
  shows "\<exists>l' rc. lmb_free l base sz = Some (l', rc) \<and> 0 \<le> rc \<and> memory l' = memory l \<and> lmb_inv (reserved l') \<and>
    lmb_set (reserved l') = lmb_set (reserved l) - reg_set \<lparr> rbase = base, rsize = sz \<rparr>"
proof -
  let ?new = "\<lparr> rbase = base, rsize = sz \<rparr>"
  let ?rgn = "reserved l"
  obtain j where j: "region_index (\<lambda>r. rbase r \<le> base \<and> base + sz \<le> rbase r + rsize r) (region ?rgn) 0 (cnt ?rgn) = Some (Some j)"
    "j < cnt ?rgn" "reg_ok (region ?rgn ! j)" "unat (rbase (region ?rgn ! j)) \<le> unat base"
    "reg_fin ?new \<le> reg_fin (region ?rgn ! j)" using lmb_free_index [OF inv ok r] by blast
  define q where "q = region ?rgn ! j"
  note q = j(3-5) [folded q_def]
  note cut = reg_cut [OF q(1) ok q(2,3)]
  have eqs: "rbase q = base \<longleftrightarrow> unat (rbase q) = unat base" "rbase q + rsize q = base + sz \<longleftrightarrow> reg_fin q = reg_fin ?new"
    using reg_fin_word [OF q(1)] reg_fin_word [OF ok] by (auto simp: word_unat_eq_iff)
  have pos: "unat base < reg_fin ?new" using reg_ok_pos [OF ok] by simp
  note shrink = lmb_shrink_ok [OF inv j(2), folded q_def]
  note free = lmb_free_def [of l base sz, unfolded Let_def j(1), simplified, folded q_def]
  consider (whole) "unat (rbase q) = unat base" "reg_fin q = reg_fin ?new"
    | (front) "unat (rbase q) = unat base" "reg_fin ?new < reg_fin q"
    | (rear) "unat (rbase q) < unat base" "reg_fin q = reg_fin ?new"
    | (middle) "unat (rbase q) < unat base" "reg_fin ?new < reg_fin q" using q(2,3) by linarith
  then show ?thesis
  proof cases
    case whole
    then have "reg_set q = reg_set ?new" by (simp add: reg_set_def)
    moreover have "1 < cnt ?rgn"
    proof (rule ccontr)
      assume "\<not> 1 < cnt ?rgn"
      then have "cnt ?rgn = 1" "j = 0" using j(2) by linarith+
      then have "regs ?rgn = [q]" using inv(1) by (cases "region ?rgn") (auto simp: regs_def lmb_inv_def q_def)
      then show False using more \<open>reg_set q = reg_set ?new\<close> \<open>\<not> 1 < cnt ?rgn\<close> by (simp add: lmb_set_def)
    qed
    then obtain rgn' where "lmb_remove_region ?rgn j = Some rgn'" "lmb_inv rgn'" "lmb_set rgn' = lmb_set ?rgn - reg_set q"
      using lmb_drop_ok [OF inv j(2)] by (auto simp: q_def)
    ultimately show ?thesis using free eqs whole by simp
  next
    case front
    let ?q = "\<lparr> rbase = base + sz, rsize = rsize q - sz \<rparr>"
    have "reg_ok ?q" "unat (rbase ?q) = reg_fin ?new" "reg_fin ?q = reg_fin q" using cut(1,4) front by simp_all
    moreover from this have "reg_set q - reg_set ?q = reg_set ?new" using front pos by (auto simp: reg_set_def)
    ultimately show ?thesis using free eqs front shrink(1,3) [of ?q] pos by simp
  next
    case rear
    let ?q = "q\<lparr> rsize := rsize q - sz \<rparr>"
    have "reg_ok ?q" "reg_fin ?q = unat base" using cut(2,3) rear by simp_all
    moreover from this have "reg_set q - reg_set ?q = reg_set ?new" using rear pos by (auto simp: reg_set_def)
    ultimately show ?thesis using free eqs rear shrink(1,3) [of ?q] pos by simp
  next
    case middle
    then obtain rgn' rc where "lmb_add_region (?rgn\<lparr> region := (region ?rgn)[j := q\<lparr> rsize := base - rbase q \<rparr>] \<rparr>)
          (base + sz) (rbase q + rsize q - (base + sz)) = Some (rgn', rc)"
      "0 \<le> rc" "lmb_inv rgn'" "lmb_set rgn' = lmb_set ?rgn - reg_set ?new"
      using lmb_punch_ok [OF inv j(2) room _ ok] q(1) unfolding q_def by blast
    then show ?thesis using free eqs middle by simp
  qed
qed


subsection \<open>Allocating\<close>

text \<open>Adding never leaves the array of a table in its bounds, whatever the region.\<close>

definition lmb_bounds :: "lmb_region \<Rightarrow> bool" where
  "lmb_bounds rgn \<longleftrightarrow> length (region rgn) = Suc MAX_LMB_REGIONS \<and> 1 \<le> cnt rgn \<and> cnt rgn \<le> MAX_LMB_REGIONS"

lemma lmb_inv_bounds: "lmb_inv rgn \<Longrightarrow> lmb_bounds rgn"
  by (simp add: lmb_inv_def lmb_bounds_def)

lemma lmb_scan_total:
  "i + n \<le> length rs \<Longrightarrow>
   \<exists>res. lmb_scan rs i n base sz = Some res \<and> (case res of Merged j rs' \<Rightarrow> i \<le> j \<and> j < i + n \<and> length rs' = length rs | _ \<Rightarrow> True)"
proof (induction rs i n base sz rule: lmb_scan.induct)
  case (2 rs i n base sz)
  then show ?case by (auto simp: Let_def split: lmb_scan_result.split) (force split: lmb_scan_result.splits)+
qed simp

lemma lmb_add_region_total:
  assumes b: "lmb_bounds rgn"
  shows "\<exists>rgn' rc. lmb_add_region rgn base sz = Some (rgn', rc)"
proof (cases "cnt rgn = 1 \<and> rsize (region rgn ! 0) = 0")
  case True
  then show ?thesis by (simp add: lmb_add_region_def)
next
  case False
  have c: "1 \<le> cnt rgn" "cnt rgn < length (region rgn)" using b by (auto simp: lmb_bounds_def)
  obtain res where res: "lmb_scan (region rgn) 0 (cnt rgn) base sz = Some res"
    "case res of Merged j rs' \<Rightarrow> 0 \<le> j \<and> j < 0 + cnt rgn \<and> length rs' = length (region rgn) | _ \<Rightarrow> True"
    using lmb_scan_total [of 0 "cnt rgn" "region rgn" base sz] c by auto
  show ?thesis
  proof (cases res)
    case Known
    then show ?thesis unfolding lmb_add_region_def Let_def
      by (simp only: False res(1) if_False Option.bind.bind_lunit lmb_scan_result.case) blast
  next
    case (Merged j rs)
    have "\<exists>r. lmb_coalesce_regions (rgn\<lparr> region := rs \<rparr>) j (Suc j) = Some r" if "Suc j < cnt rgn"
      using lmb_remove_region_ok [of "Suc j"
          "rgn\<lparr> region := rs[j := (rs ! j)\<lparr> rsize := rsize (rs ! j) + rsize (rs ! Suc j) \<rparr>] \<rparr>"] that c res(2) Merged
      by (auto simp: lmb_coalesce_regions_def)
    then show ?thesis
      using lmb_add_merged [OF False c(1), of base sz j rs] res c(2) Merged by auto
  next
    case NoMatch
    obtain rs where "lmb_insert (region rgn) (cnt rgn) base sz = Some rs" using lmb_insert_eq [OF c(2)] by blast
    then show ?thesis using lmb_add_nomatch [OF False c(1)] res(1) NoMatch by simp
  qed
qed

lemma align_down_le: "lmb_align_down a n \<le> a"
  by (simp add: lmb_align_down_def word_and_le2)


text \<open>An alignment is a power of two; a block of the size fits at \<open>b\<close> when nothing there is reserved.\<close>

definition fits :: "lmb \<Rightarrow> nat \<Rightarrow> nat \<Rightarrow> nat \<Rightarrow> nat \<Rightarrow> nat \<Rightarrow> bool" where
  "fits l sz align lo hi b \<longleftrightarrow> 0 < b \<and> align dvd b \<and> lo \<le> b \<and> b + sz \<le> hi \<and> lmb_set (reserved l) \<inter> {b ..< b + sz} = {}"

lemma align_down_pow2: "k < 32 \<Longrightarrow> unat (lmb_align_down a (2 ^ k)) = unat a div 2 ^ k * 2 ^ k"
proof -
  assume "k < 32"
  have "lmb_align_down a (2 ^ k) = push_bit k (drop_bit k a)"
    unfolding lmb_align_down_def mask_eq_exp_minus_1 [symmetric] by (rule bit_word_eqI) (auto simp: bit_simps)
  moreover have "unat (push_bit k (drop_bit k a)) = push_bit k (drop_bit k (unat a))"
  proof -
    have "push_bit k (drop_bit k (unat a)) \<le> unat a" by (simp add: push_bit_eq_mult drop_bit_eq_div)
    then have "push_bit k (drop_bit k (unat a)) < 2 ^ 32" using unat_less_u32 [of a] by linarith
    moreover have "take_bit 32 (unat a) = unat a" using unat_less_u32 [of a] by (simp add: take_bit_nat_eq_self)
    ultimately show ?thesis by (simp add: unsigned_push_bit_eq unsigned_drop_bit_eq take_bit_nat_eq_self)
  qed
  ultimately show ?thesis by (simp add: push_bit_eq_mult drop_bit_eq_div)
qed

lemma align_down_greatest:
  assumes "k < 32" "2 ^ k dvd b" "b \<le> unat a"
  shows "b \<le> unat (lmb_align_down a (2 ^ k))"
proof -
  obtain c where "b = 2 ^ k * c" using assms(2) by blast
  moreover from this have "c \<le> unat a div 2 ^ k" using assms(3) by (simp add: less_eq_div_iff_mult_less_eq mult.commute)
  ultimately show ?thesis using align_down_pow2 [OF assms(1)] by (simp add: mult.commute)
qed

lemma align_down_dvd: "k < 32 \<Longrightarrow> 2 ^ k dvd unat (lmb_align_down a (2 ^ k))"
  by (simp add: align_down_pow2)

text \<open>What an allocation gives when \<open>b\<close> is the place: the entry in the table of reserved regions, for the size rounded up.\<close>

definition allocates :: "lmb \<Rightarrow> u32 \<Rightarrow> u32 \<Rightarrow> nat \<Rightarrow> lmb \<Rightarrow> u32 \<Rightarrow> bool" where
  "allocates l sz align b l' a \<longleftrightarrow> (\<exists>rgn rc. lmb_add_region (reserved l) (of_nat b) (lmb_align_up sz align) = Some (rgn, rc) \<and>
     l' = l\<lparr> reserved := rgn \<rparr> \<and> a = (if rc < 0 then 0 else of_nat b))"

text \<open>A place that ends below the end of the block tried, when a reserved region overlaps that block, ends below the region.\<close>

lemma fits_below:
  assumes "r \<in> set (regs (reserved l))" "0 < sz" "unat (rbase r) < reg_fin r" "base < reg_fin r"
    and "fits l sz align lo (base + sz) b"
  shows "b + sz \<le> unat (rbase r)"
proof (rule ccontr)
  assume "\<not> b + sz \<le> unat (rbase r)"
  then have "max b (unat (rbase r)) \<in> reg_set r" "max b (unat (rbase r)) \<in> {b ..< b + sz}"
    using assms by (auto simp: fits_def reg_set_def)
  moreover have "reg_set r \<subseteq> lmb_set (reserved l)" using assms(1) by (auto simp: lmb_set_def)
  ultimately show False using assms(5) by (auto simp: fits_def)
qed

lemma lmb_alloc_loop_ok:
  fixes lmbbase :: u32
  assumes inv: "lmb_inv (reserved l)" and sz: "0 < sz" and lim: "lim < 2 ^ 32" and k: "k < 32"
  defines "F \<equiv> fits l (unat sz) (2 ^ k) (unat lmbbase)"
  shows "unat base + unat sz \<le> lim \<Longrightarrow> 2 ^ k dvd unat base \<Longrightarrow>
    \<exists>res. lmb_alloc_loop l lmbbase sz (2 ^ k) base = Some res \<and>
      (case res of None \<Rightarrow> \<forall>b. \<not> F (unat base + unat sz) b
       | Some (l', a) \<Rightarrow> \<exists>b. F (unat base + unat sz) b \<and> (\<forall>c. F (unat base + unat sz) c \<longrightarrow> c \<le> b) \<and> allocates l sz (2 ^ k) b l' a)"
proof (induction "unat base" arbitrary: base rule: less_induct)
  case less
  let ?new = "\<lparr> rbase = base, rsize = sz \<rparr>"
  have ok: "reg_ok ?new" using less.prems(1) sz lim by (simp add: reg_ok_def reg_fin_def)
  have pos: "0 < unat sz" using sz by (simp add: word_less_nat_alt)
  show ?case
  proof (cases "base \<noteq> 0 \<and> lmbbase \<le> base")
    case False
    then have "lmb_alloc_loop l lmbbase sz (2 ^ k) base = Some None" by (subst lmb_alloc_loop.simps) auto
    moreover have "unat base = 0 \<or> unat base < unat lmbbase" using False by (auto simp: word_le_nat_alt)
    then have "\<not> F (unat base + unat sz) b" for b by (auto simp: F_def fits_def)
    ultimately show ?thesis by auto
  next
    case in_region: True
    from inv ok show ?thesis
    proof (cases rule: lmb_overlaps_region_ok)
      case free
      obtain rgn rc where add: "lmb_add_region (reserved l) base (lmb_align_up sz (2 ^ k)) = Some (rgn, rc)"
        using lmb_add_region_total [OF lmb_inv_bounds [OF inv]] by blast
      then have "lmb_alloc_loop l lmbbase sz (2 ^ k) base = Some (Some (l\<lparr> reserved := rgn \<rparr>, if rc < 0 then 0 else base))"
        using in_region free(1) by (subst lmb_alloc_loop.simps) simp
      moreover have "F (unat base + unat sz) (unat base)"
        using free(2) in_region less.prems(2) by (auto simp: F_def fits_def reg_set_def reg_fin_def word_le_nat_alt unat_gt_0)
      moreover have "allocates l sz (2 ^ k) (unat base) (l\<lparr> reserved := rgn \<rparr>) (if rc < 0 then 0 else base)"
        using add by (auto simp: allocates_def)
      moreover have "\<forall>c. F (unat base + unat sz) c \<longrightarrow> c \<le> unat base" by (auto simp: F_def fits_def)
      ultimately show ?thesis by auto
    next
      case (taken j)
      define rb where "rb = rbase (region (reserved l) ! j)"
      define base' where "base' = lmb_align_down (rb - sz) (2 ^ k)"
      have loop: "lmb_alloc_loop l lmbbase sz (2 ^ k) base =
          (if rb < sz then Some None else lmb_alloc_loop l lmbbase sz (2 ^ k) base')"
        using in_region taken(1) by (subst lmb_alloc_loop.simps) (simp add: rb_def base'_def)
      have over: "unat rb < unat base + unat sz" "unat base < reg_fin (region (reserved l) ! j)" "unat rb < reg_fin (region (reserved l) ! j)"
        using taken(3) by (auto simp: rb_def reg_set_def reg_fin_def)
      have mem: "region (reserved l) ! j \<in> set (regs (reserved l))" using taken(2) inv by (intro regs_mem) (auto simp: lmb_inv_def)
      have below: "b + unat sz \<le> unat rb" if "F (unat base + unat sz) b" for b
        using fits_below [OF mem pos _ over(2), of "2 ^ k" "unat lmbbase" b] that over(1,3) by (simp add: F_def rb_def)
      show ?thesis
      proof (cases "rb < sz")
        case True
        have "\<not> F (unat base + unat sz) b" for b using below [of b] True by (auto simp: F_def fits_def word_less_nat_alt)
        then show ?thesis using loop True by auto
      next
        case False
        have le: "unat base' \<le> unat rb - unat sz" "unat (rb - sz) = unat rb - unat sz"
          using align_down_le [of "rb - sz" "2 ^ k"] False by (simp_all add: base'_def word_le_nat_alt unat_sub not_less)
        have szrb: "unat sz \<le> unat rb" using False by (simp add: word_less_nat_alt)
        have less': "unat base' < unat base" "unat base' + unat sz \<le> lim" using le(1) szrb over(1) less.prems(1) pos by linarith+
        have same: "F (unat base + unat sz) b \<longleftrightarrow> F (unat base' + unat sz) b" for b
        proof
          assume b: "F (unat base + unat sz) b"
          then have "b \<le> unat (rb - sz)" using below [OF b] le(2) by simp
          then have "b \<le> unat base'" unfolding base'_def using b by (intro align_down_greatest [OF k]) (auto simp: F_def fits_def)
          then show "F (unat base' + unat sz) b" using b by (simp add: F_def fits_def)
        next
          show "F (unat base' + unat sz) b \<Longrightarrow> F (unat base + unat sz) b" using less'(1) by (auto simp: F_def fits_def)
        qed
        have "2 ^ k dvd unat base'" unfolding base'_def by (rule align_down_dvd [OF k])
        from less.hyps [OF less'(1,2) this] show ?thesis using loop False unfolding same by simp
      qed
    qed
  qed
qed


definition alloc_lim :: "u32 \<Rightarrow> lmb_property \<Rightarrow> nat" where
  "alloc_lim max_addr r = (if max_addr = 0 then reg_fin r else min (reg_fin r) (unat max_addr))"

lemma alloc_start_top:
  assumes "reg_ok r" "sz \<le> rsize r" "max_addr = 0 \<or> sz \<le> max_addr" "0 < sz" and k: "k < 32"
  defines "base \<equiv> (if max_addr = LMB_ALLOC_ANYWHERE then lmb_align_down (rbase r + rsize r - sz) (2 ^ k)
    else lmb_align_down (min (rbase r + rsize r) max_addr - sz) (2 ^ k))"
  shows "unat base + unat sz \<le> alloc_lim max_addr r" and "2 ^ k dvd unat base"
    and "fits l (unat sz) (2 ^ k) lo (unat base + unat sz) b \<longleftrightarrow> fits l (unat sz) (2 ^ k) lo (alloc_lim max_addr r) b"
proof -
  let ?lim = "if max_addr = 0 then rbase r + rsize r else min (rbase r + rsize r) max_addr"
  have f: "unat (rbase r + rsize r) = reg_fin r" by (rule reg_fin_word [OF assms(1)])
  have base: "base = lmb_align_down (?lim - sz) (2 ^ k)" by (simp add: base_def LMB_ALLOC_ANYWHERE_def)
  have lim: "unat ?lim = alloc_lim max_addr r" using f by (simp add: alloc_lim_def min_def word_le_nat_alt)
  have "sz \<le> ?lim" using assms(2,3) f by (auto simp: word_le_nat_alt min_def reg_fin_def)
  then have sub: "unat (?lim - sz) + unat sz = alloc_lim max_addr r" by (simp add: unat_sub word_le_nat_alt flip: lim)
  have le: "unat base \<le> unat (?lim - sz)" using align_down_le [of "?lim - sz" "2 ^ k"] by (simp add: base word_le_nat_alt)
  then show top: "unat base + unat sz \<le> alloc_lim max_addr r" using sub by linarith
  show "2 ^ k dvd unat base" unfolding base by (rule align_down_dvd [OF k])
  have "b \<le> unat base" if "2 ^ k dvd b" "b + unat sz \<le> alloc_lim max_addr r"
    unfolding base using that sub by (intro align_down_greatest [OF k]) auto
  then show "fits l (unat sz) (2 ^ k) lo (unat base + unat sz) b \<longleftrightarrow> fits l (unat sz) (2 ^ k) lo (alloc_lim max_addr r) b"
    using top by (auto simp: fits_def)
qed

text \<open>The places in the first \<open>i\<close> memory regions, below the limit.\<close>

definition places :: "lmb \<Rightarrow> nat \<Rightarrow> nat \<Rightarrow> u32 \<Rightarrow> nat \<Rightarrow> nat set" where
  "places l sz align max_addr i =
     {b. \<exists>j < i. fits l sz align (unat (rbase (region (memory l) ! j))) (alloc_lim max_addr (region (memory l) ! j)) b}"

lemma places_Suc:
  "places l sz align max_addr (Suc i) = places l sz align max_addr i \<union>
     {b. fits l sz align (unat (rbase (region (memory l) ! i))) (alloc_lim max_addr (region (memory l) ! i)) b}"
  by (auto simp: places_def less_Suc_eq)

definition alloc_result :: "lmb \<Rightarrow> u32 \<Rightarrow> u32 \<Rightarrow> nat set \<Rightarrow> lmb \<Rightarrow> u32 \<Rightarrow> bool" where
  "alloc_result l sz align B l' a \<longleftrightarrow>
     B = {} \<and> l' = l \<and> a = 0 \<or> (\<exists>b \<in> B. (\<forall>c \<in> B. c \<le> b) \<and> allocates l sz align b l' a)"

lemma places_below:
  assumes "lmb_inv (memory l)" "i < cnt (memory l)" "0 < rsize (region (memory l) ! i)" "c \<in> places l sz align max_addr i"
  shows "c \<le> unat (rbase (region (memory l) ! i))"
  using assms(1)
proof (cases rule: lmb_inv_cases)
  case dummy
  then show ?thesis using assms(2,3) by simp
next
  case regions
  obtain j where j: "j < i" "fits l sz align (unat (rbase (region (memory l) ! j))) (alloc_lim max_addr (region (memory l) ! j)) c"
    using assms(4) by (auto simp: places_def)
  have "reg_fin (region (memory l) ! j) \<le> unat (rbase (region (memory l) ! i))"
    using regions(1) j(1) assms(1,2) by (fastforce simp: regs_sorted_def sorted_wrt_iff_nth_less regs_def lmb_inv_def intro: less_imp_le)
  then show ?thesis using j(2) by (auto simp: fits_def alloc_lim_def split: if_splits)
qed

lemma lmb_alloc_regions_ok:
  assumes mem: "lmb_inv (memory l)" and inv: "lmb_inv (reserved l)" and sz: "0 < sz"
    and le: "max_addr = 0 \<or> sz \<le> max_addr" and k: "k < 32"
  shows "i \<le> cnt (memory l) \<Longrightarrow> \<exists>l' a. lmb_alloc_regions l i sz (2 ^ k) max_addr = Some (l', a) \<and>
    alloc_result l sz (2 ^ k) (places l (unat sz) (2 ^ k) max_addr i) l' a"
proof (induction i)
  case 0
  then show ?case by (simp add: alloc_result_def places_def)
next
  case (Suc i)
  let ?r = "region (memory l) ! i"
  let ?B = "{b. fits l (unat sz) (2 ^ k) (unat (rbase ?r)) (alloc_lim max_addr ?r) b}"
  have len: "i < cnt (memory l)" "i < length (region (memory l))" using Suc.prems mem by (auto simp: lmb_inv_def)
  have r: "?r \<in> set (regs (memory l))" using regs_mem len mem by (auto simp: lmb_inv_def)
  note IH = Suc.IH [OF less_imp_le [OF len(1)]]
  have pos: "0 < unat sz" using sz by (simp add: word_less_nat_alt)
  show ?case
  proof (cases "rsize ?r < sz \<or> \<not> (max_addr = LMB_ALLOC_ANYWHERE \<or> rbase ?r < max_addr)")
    case True
    then have "lmb_alloc_regions l (Suc i) sz (2 ^ k) max_addr = lmb_alloc_regions l i sz (2 ^ k) max_addr"
      using len(2) by (auto simp: Let_def)
    moreover have "?B = {}" using True pos
      by (auto simp: fits_def alloc_lim_def reg_fin_def LMB_ALLOC_ANYWHERE_def word_less_nat_alt split: if_splits)
    ultimately show ?thesis using IH by (simp add: places_Suc)
  next
    case False
    have ok: "reg_ok ?r" using mem
    proof (cases rule: lmb_inv_cases)
      case dummy
      then show ?thesis using False sz len(1) by simp
    next
      case regions
      then show ?thesis using r by (simp add: regs_sorted_def list_all_iff)
    qed
    define base where "base = (if max_addr = LMB_ALLOC_ANYWHERE then lmb_align_down (rbase ?r + rsize ?r - sz) (2 ^ k)
      else lmb_align_down (min (rbase ?r + rsize ?r) max_addr - sz) (2 ^ k))"
    have szr: "sz \<le> rsize ?r" "alloc_lim max_addr ?r < 2 ^ 32" using ok False by (auto simp: reg_ok_def alloc_lim_def)
    note start = alloc_start_top [OF ok szr(1) le sz k, folded base_def]
    obtain res where res: "lmb_alloc_loop l (rbase ?r) sz (2 ^ k) base = Some res"
      "case res of None \<Rightarrow> ?B = {} | Some (l', a) \<Rightarrow> \<exists>b \<in> ?B. (\<forall>c \<in> ?B. c \<le> b) \<and> allocates l sz (2 ^ k) b l' a"
      using lmb_alloc_loop_ok [OF inv sz szr(2) k start(1,2), of "rbase ?r", unfolded start(3)]
      by (fastforce split: option.splits)
    have step: "lmb_alloc_regions l (Suc i) sz (2 ^ k) max_addr =
        (case res of Some r \<Rightarrow> Some r | None \<Rightarrow> lmb_alloc_regions l i sz (2 ^ k) max_addr)"
      using False len(2) res(1) by (simp add: Let_def base_def)
    show ?thesis
    proof (cases res)
      case None
      then show ?thesis using IH res(2) step by (simp add: places_Suc)
    next
      case (Some la)
      obtain l' a where la: "la = (l', a)" by force
      obtain b where b: "b \<in> ?B" "\<forall>c \<in> ?B. c \<le> b" "allocates l sz (2 ^ k) b l' a" using res(2) Some la by auto
      have "c \<le> b" if "c \<in> places l (unat sz) (2 ^ k) max_addr i" for c
        using places_below [OF mem len(1) _ that] ok b(1) by (fastforce simp: reg_ok_def fits_def)
      then have "alloc_result l sz (2 ^ k) (places l (unat sz) (2 ^ k) max_addr (Suc i)) l' a"
        unfolding alloc_result_def places_Suc using b by blast
      then show ?thesis using step Some la by simp
    qed
  qed
qed



text \<open>The size the code reserves is rounded up to the alignment.\<close>

definition round_up :: "nat \<Rightarrow> nat \<Rightarrow> nat" where
  "round_up sz align = (sz + align - 1) div align * align"

lemma round_up_bounds: "0 < align \<Longrightarrow> sz \<le> round_up sz align \<and> round_up sz align < sz + align \<and> align dvd round_up sz align"
proof -
  assume a: "0 < align"
  have "(sz + align - 1) div align * align + (sz + align - 1) mod align = sz + align - 1" by simp
  moreover have "(sz + align - 1) mod align < align" using a by simp
  ultimately show ?thesis unfolding round_up_def using a by (intro conjI) (linarith, linarith, simp)
qed

lemma align_up_pow2:
  assumes "k < 32" "unat sz + 2 ^ k \<le> 2 ^ 32"
  shows "unat (lmb_align_up sz (2 ^ k)) = round_up (unat sz) (2 ^ k)"
proof -
  have p: "unat (2 ^ k :: u32) = 2 ^ k" using unat_of_nat_u32 [of "2 ^ k"] power_strict_increasing [OF assms(1), of "2 :: nat"] by simp
  then have m: "unat (2 ^ k - 1 :: u32) = 2 ^ k - 1" by (simp add: unat_sub word_le_nat_alt)
  have "unat (sz + (2 ^ k - 1)) = unat sz + 2 ^ k - 1"
    using assms(2) m by (subst unat_word_ariths) simp
  then show ?thesis using align_down_pow2 [OF assms(1), of "sz + (2 ^ k - 1)"]
    by (simp add: lmb_align_up_def lmb_align_down_def round_up_def)
qed

text \<open>The places for a block: aligned addresses other than 0 from which the size lies inside one memory
  region, below the limit if there is one, and meets nothing reserved.\<close>

definition alloc_places :: "lmb \<Rightarrow> nat \<Rightarrow> nat \<Rightarrow> u32 \<Rightarrow> nat set" where
  "alloc_places l sz align max_addr =
     {b. 0 < b \<and> align dvd b \<and> (\<exists>r \<in> set (regs (memory l)). {b ..< b + sz} \<subseteq> reg_set r) \<and>
         (max_addr = 0 \<or> b + sz \<le> unat max_addr) \<and> lmb_set (reserved l) \<inter> {b ..< b + sz} = {}}"

lemma alloc_places_eq:
  assumes "lmb_inv (memory l)" "0 < sz"
  shows "places l sz align max_addr (cnt (memory l)) = alloc_places l sz align max_addr"
proof -
  have "{b ..< b + sz} \<subseteq> reg_set r \<longleftrightarrow> unat (rbase r) \<le> b \<and> b + sz \<le> reg_fin r" for b r
    using assms(2) by (auto simp: reg_set_def)
  moreover have "cnt (memory l) \<le> length (region (memory l))" using assms(1) by (simp add: lmb_inv_def)
  ultimately show ?thesis
    by (auto simp: places_def alloc_places_def fits_def alloc_lim_def intro: regs_mem dest: regs_mem_iff [THEN iffD1])
qed

lemma alloc_places_bound:
  assumes "lmb_inv (memory l)" "b \<in> alloc_places l sz align max_addr" "0 < sz"
  shows "b + sz < 2 ^ 32"
proof -
  obtain r where r: "r \<in> set (regs (memory l))" "{b ..< b + sz} \<subseteq> reg_set r" using assms(2) by (auto simp: alloc_places_def)
  have "reg_fin r < 2 ^ 32" using assms(1)
    by (cases rule: lmb_inv_cases) (use r(1) in \<open>auto simp: regs_sorted_def list_all_iff reg_ok_def reg_fin_def\<close>)
  moreover have "b + sz - 1 \<in> reg_set r" using r(2) assms(3) by auto
  ultimately show ?thesis by (auto simp: reg_set_def)
qed

text \<open>What reserving the rounded-up block makes of the table, when that block is free as a whole.\<close>

lemma reserve_rounded:
  assumes "lmb_inv rgn" "0 < sz" "k < 32" "2 ^ k dvd b" "0 < b" "b + round_up (unat sz) (2 ^ k) < 2 ^ 32"
    and "lmb_set rgn \<inter> {b ..< b + round_up (unat sz) (2 ^ k)} = {}"
    and add: "lmb_add_region rgn (of_nat b) (lmb_align_up sz (2 ^ k)) = Some (rgn', rc)"
  shows "lmb_inv rgn' \<and> (if rc < 0 then rgn' = rgn \<and> cnt rgn = MAX_LMB_REGIONS
     else lmb_set rgn' = lmb_set rgn \<union> {b ..< b + round_up (unat sz) (2 ^ k)})"
proof -
  have up: "unat sz \<le> round_up (unat sz) (2 ^ k)" using round_up_bounds [of "2 ^ k" "unat sz"] by simp
  have "2 ^ k \<le> b" using assms(4,5) by (auto intro: dvd_imp_le)
  then have u: "unat (lmb_align_up sz (2 ^ k)) = round_up (unat sz) (2 ^ k)"
    using up assms(6) by (intro align_up_pow2 [OF assms(3)]) linarith
  have ub: "unat (of_nat b :: u32) = b" using assms(6) by (simp add: unat_of_nat)
  have "0 < unat sz" using assms(2) by (simp add: word_less_nat_alt)
  then have "reg_ok \<lparr> rbase = of_nat b, rsize = lmb_align_up sz (2 ^ k) \<rparr>"
    using u ub up assms(6) by (simp add: reg_ok_def reg_fin_def word_less_nat_alt)
  from lmb_add_region_ok [OF assms(1) this] show ?thesis
    using add assms(7) u ub by (simp add: reg_set_def reg_fin_def)
qed


lemma lmb_is_reserved_eq:
  assumes "regs_sorted (regs (reserved l))"
  shows "lmb_is_reserved l addr \<longleftrightarrow> unat addr \<in> lmb_set (reserved l)"
proof -
  have "rbase r \<le> addr \<and> addr \<le> rbase r + rsize r - 1 \<longleftrightarrow> unat addr \<in> reg_set r" if "reg_ok r" for r
  proof -
    have "unat (rbase r + rsize r - 1) = reg_fin r - 1"
      using reg_fin_word [OF that] reg_ok_pos [OF that] by (subst unat_sub) (auto simp: word_le_nat_alt)
    then show ?thesis using reg_ok_pos [OF that] by (auto simp: reg_set_def word_le_nat_alt)
  qed
  then show ?thesis using assms
    by (auto simp: lmb_is_reserved_def list_ex_iff lmb_set_def regs_sorted_def list_all_iff regs_def)
qed

section \<open>Properties\<close>

lemma new_reg:
  "reg_set \<lparr> rbase = base, rsize = sz \<rparr> = {unat base ..< unat base + unat sz}"
  "reg_ok \<lparr> rbase = base, rsize = sz \<rparr> \<longleftrightarrow> 0 < sz \<and> unat base + unat sz < 2 ^ 32"
  by (simp_all add: reg_set_def reg_ok_def reg_fin_def)

text \<open>A board with 64 KB at 0x1000 and one page of it reserved, for the examples below.\<close>

definition sample_lmb :: lmb where
  "sample_lmb =
     (let tab = (\<lambda>b s. \<lparr> cnt = 1, lsize = 0, region = \<lparr> rbase = b, rsize = s \<rparr> # replicate 8 \<lparr> rbase = 0, rsize = 0 \<rparr> \<rparr>)
      in \<lparr> memory = tab 0x1000 0x10000, reserved = tab 0x8000 0x1000 \<rparr>)"

lemma sample_inv:
  "lmb_inv (memory sample_lmb)" "lmb_inv (reserved sample_lmb)" "regs_sorted (regs (reserved sample_lmb))"
  "regs (memory sample_lmb) = [\<lparr> rbase = 0x1000, rsize = 0x10000 \<rparr>]"
  "regs (reserved sample_lmb) = [\<lparr> rbase = 0x8000, rsize = 0x1000 \<rparr>]"
  by (simp_all add: sample_lmb_def lmb_inv_def MAX_LMB_REGIONS_def regs_def regs_sorted_def reg_ok_def reg_fin_def)

lemma sample_set: "lmb_set (reserved sample_lmb) = {0x8000 ..< 0x9000}"
  by (simp add: lmb_set_def sample_inv reg_set_def reg_fin_def)

text \<open>C27: Adding a region that is disjoint from the table adds exactly its addresses: the code
  merges it with the neighbours it touches or inserts it at its place, and the table stays sorted
  with gaps; only when eight unmergeable regions are in use does it fail, and then nothing changes.\<close>

theorem lmb_add_region_correct:
  assumes "lmb_inv rgn" "0 < sz" "unat base + unat sz < 2 ^ 32"
    and "lmb_set rgn \<inter> {unat base ..< unat base + unat sz} = {}"
  shows "\<exists>rgn' rc. lmb_add_region rgn base sz = Some (rgn', rc) \<and> lmb_inv rgn' \<and>
    (if rc < 0 then rgn' = rgn \<and> cnt rgn = MAX_LMB_REGIONS
     else lmb_set rgn' = lmb_set rgn \<union> {unat base ..< unat base + unat sz})"
  using lmb_add_region_ok [OF assms(1), of base sz, unfolded new_reg] assms(2-) by blast

theorem lmb_add_region_correct_witness:
  "\<exists>rgn' rc. lmb_add_region (reserved sample_lmb) 0x9000 0x800 = Some (rgn', rc) \<and> lmb_inv rgn' \<and>
     lmb_set rgn' = {0x8000 ..< 0x9000} \<union> {0x9000 ..< 0x9800}"
proof -
  have "cnt (reserved sample_lmb) \<noteq> MAX_LMB_REGIONS" by (simp add: sample_lmb_def MAX_LMB_REGIONS_def)
  moreover have "unat (0x9000 :: u32) = 0x9000" "unat (0x9000 :: u32) + unat (0x800 :: u32) = 0x9800" by simp_all
  ultimately show ?thesis
    using lmb_add_region_correct [OF sample_inv(2), of "0x800" "0x9000", unfolded sample_set] by (auto split: if_splits)
qed

text \<open>Freeing a block that lies inside one reserved region, in a table with room for a split and
  other than the only reserved region, removes exactly its addresses and keeps the table well-formed.\<close>

theorem lmb_free_correct:
  assumes "lmb_inv (reserved l)" "regs_sorted (regs (reserved l))" "0 < sz" "unat base + unat sz < 2 ^ 32"
    and "r \<in> set (regs (reserved l))" "{unat base ..< unat base + unat sz} \<subseteq> reg_set r"
    and "cnt (reserved l) < MAX_LMB_REGIONS"
    and "1 < cnt (reserved l) \<or> lmb_set (reserved l) \<noteq> {unat base ..< unat base + unat sz}"
  shows "\<exists>l' rc. lmb_free l base sz = Some (l', rc) \<and> 0 \<le> rc \<and> memory l' = memory l \<and> lmb_inv (reserved l') \<and>
    lmb_set (reserved l') = lmb_set (reserved l) - {unat base ..< unat base + unat sz}"
  using lmb_free_ok [OF assms(1,2), of base sz r, unfolded new_reg] assms(3-) by blast

theorem lmb_free_correct_witness:
  "\<exists>l' rc. lmb_free sample_lmb 0x8100 0x100 = Some (l', rc) \<and> lmb_inv (reserved l') \<and>
     lmb_set (reserved l') = {0x8000 ..< 0x9000} - {0x8100 ..< 0x8200}"
proof -
  let ?r = "\<lparr> rbase = 0x8000, rsize = 0x1000 \<rparr>"
  have u: "unat (0x8100 :: u32) = 0x8100" "unat (0x100 :: u32) = 0x100" "0x8100 + 0x100 = (0x8200 :: nat)" by simp_all
  have "{0x8000 ..< 0x9000} \<noteq> {0x8100 ..< 0x8200 :: nat}" by (simp add: atLeastLessThan_eq_iff)
  then have c: "cnt (reserved sample_lmb) < MAX_LMB_REGIONS"
    "1 < cnt (reserved sample_lmb) \<or> {0x8000 ..< 0x9000} \<noteq> {0x8100 ..< 0x8200 :: nat}"
    by (simp_all add: sample_lmb_def MAX_LMB_REGIONS_def)
  have r: "?r \<in> set (regs (reserved sample_lmb))" "{0x8100 ..< 0x8200} \<subseteq> reg_set ?r"
    by (simp_all add: sample_inv(5) reg_set_def reg_fin_def)
  from lmb_free_correct [OF sample_inv(2,3) _ _ r(1), of "0x100" "0x8100", unfolded u sample_set, OF _ _ r(2) c]
  show ?thesis by fastforce
qed

text \<open>C8: An allocation with a power of two as alignment, and with no limit (0) or one not below the
  size, always returns. The places for the block are the aligned addresses other than 0 from which the
  size lies inside one memory region, below the limit, and meets nothing reserved. If there is none the
  call fails, says so, and changes nothing. If there is one, the highest is taken and the table of
  reserved regions gets an entry there for the size rounded up to the alignment: the address is
  returned, or the failure when that entry cannot be made. The search looks only at the size itself; when
  the rounded-up block is free too, the table stays well-formed, only a full table (left as it was)
  makes the call fail, and otherwise exactly the rounded-up block becomes reserved.\<close>

theorem lmb_alloc_base_correct:
  assumes "lmb_inv (memory l)" "lmb_inv (reserved l)" "0 < sz" "max_addr = 0 \<or> sz \<le> max_addr" "k < 32"
  shows "let B = alloc_places l (unat sz) (2 ^ k) max_addr; up = round_up (unat sz) (2 ^ k) in
    if B = {} then lmb_alloc_base l sz (2 ^ k) max_addr = Some (l, 0, True)
    else \<exists>b \<in> B. (\<forall>c \<in> B. c \<le> b) \<and> (\<exists>rgn rc.
      lmb_add_region (reserved l) (of_nat b) (lmb_align_up sz (2 ^ k)) = Some (rgn, rc) \<and>
      lmb_alloc_base l sz (2 ^ k) max_addr = Some (l\<lparr> reserved := rgn \<rparr>, if rc < 0 then 0 else of_nat b, rc < 0) \<and>
      (b + up < 2 ^ 32 \<and> lmb_set (reserved l) \<inter> {b ..< b + up} = {} \<longrightarrow> lmb_inv rgn \<and>
        (if rc < 0 then rgn = reserved l \<and> cnt (reserved l) = MAX_LMB_REGIONS
         else lmb_set rgn = lmb_set (reserved l) \<union> {b ..< b + up})))"
proof -
  let ?B = "alloc_places l (unat sz) (2 ^ k) max_addr"
  have pos: "0 < unat sz" using assms(3) by (simp add: word_less_nat_alt)
  obtain l' a where la: "lmb_alloc_regions l (cnt (memory l)) sz (2 ^ k) max_addr = Some (l', a)" "alloc_result l sz (2 ^ k) ?B l' a"
    using lmb_alloc_regions_ok [OF assms order_refl] unfolding alloc_places_eq [OF assms(1) pos] by blast
  have call: "lmb_alloc_base l sz (2 ^ k) max_addr = Some (l', a, a = 0)"
    using la(1) by (simp add: lmb_alloc_base_def lmb_alloc_base'_def)
  show ?thesis
  proof (cases "?B = {}")
    case True
    then show ?thesis using la(2) call by (simp add: alloc_result_def Let_def)
  next
    case False
    then obtain b rgn rc where b: "b \<in> ?B" "\<forall>c \<in> ?B. c \<le> b"
      "lmb_add_region (reserved l) (of_nat b) (lmb_align_up sz (2 ^ k)) = Some (rgn, rc)"
      "l' = l\<lparr> reserved := rgn \<rparr>" "a = (if rc < 0 then 0 else of_nat b)"
      using la(2) by (auto simp: alloc_result_def allocates_def)
    have "b < 2 ^ 32" "0 < b" "2 ^ k dvd b" using alloc_places_bound [OF assms(1) b(1) pos] b(1) by (auto simp: alloc_places_def)
    then have "(of_nat b :: u32) \<noteq> 0" using unat_of_nat_u32 [of b] by auto
    then have "lmb_alloc_base l sz (2 ^ k) max_addr = Some (l\<lparr> reserved := rgn \<rparr>, if rc < 0 then 0 else of_nat b, rc < 0)"
      using call b(4,5) by simp
    moreover note reserve_rounded [OF assms(2,3,5) \<open>2 ^ k dvd b\<close> \<open>0 < b\<close> _ _ b(3)]
    ultimately show ?thesis using False b(1-3) unfolding Let_def by (simp only: if_False) blast
  qed
qed


theorem lmb_alloc_base_correct_witness:
  "\<exists>rgn. lmb_alloc_base sample_lmb 0x100 0x100 0 = Some (sample_lmb\<lparr> reserved := rgn \<rparr>, 0x10F00, False) \<and>
     lmb_inv rgn \<and> lmb_set rgn = {0x8000 ..< 0x9000} \<union> {0x10F00 ..< 0x11000}"
proof -
  let ?B = "alloc_places sample_lmb 0x100 0x100 0"
  have reg: "{b ..< b + 0x100} \<subseteq> {0x1000 ..< 0x11000} \<longleftrightarrow> 0x1000 \<le> b \<and> b \<le> (0x10F00 :: nat)" for b by auto
  have iff: "b \<in> ?B \<longleftrightarrow> 0 < b \<and> 0x100 dvd b \<and> 0x1000 \<le> b \<and> b \<le> 0x10F00 \<and> {0x8000 ..< 0x9000} \<inter> {b ..< b + 0x100} = {}" for b
    by (simp add: alloc_places_def sample_inv(4) sample_set reg_set_def reg_fin_def reg)
  have "0x10F00 \<in> ?B" unfolding iff by (simp add: disjoint_iff)
  moreover have "\<forall>b \<in> ?B. b \<le> 0x10F00" by (simp add: iff)
  ultimately have top: "?B \<noteq> {}" "b \<in> ?B \<Longrightarrow> \<forall>c \<in> ?B. c \<le> b \<Longrightarrow> b = 0x10F00" for b by (auto intro: antisym)
  have up: "round_up 0x100 0x100 = 0x100" by (simp add: round_up_def)
  have free: "{0x8000 ..< 0x9000} \<inter> {0x10F00 ..< 0x11000 :: nat} = {}" by (simp add: disjoint_iff)
  have room: "cnt (reserved sample_lmb) \<noteq> MAX_LMB_REGIONS" by (simp add: sample_lmb_def MAX_LMB_REGIONS_def)
  have p: "(2 :: nat) ^ 8 = 0x100" "(2 :: u32) ^ 8 = 0x100" "unat (0x100 :: u32) = 0x100" by simp_all
  obtain b rgn and rc :: int where b: "b \<in> ?B" "\<forall>c \<in> ?B. c \<le> b"
    "lmb_alloc_base sample_lmb 0x100 0x100 0 = Some (sample_lmb\<lparr> reserved := rgn \<rparr>, if rc < 0 then 0 else of_nat b, rc < 0)"
    "b + 0x100 < 2 ^ 32 \<and> {0x8000 ..< 0x9000} \<inter> {b ..< b + 0x100} = {} \<longrightarrow> lmb_inv rgn \<and>
       (if rc < 0 then rgn = reserved sample_lmb \<and> cnt (reserved sample_lmb) = MAX_LMB_REGIONS
        else lmb_set rgn = {0x8000 ..< 0x9000} \<union> {b ..< b + 0x100})"
  proof -
    have h: "(0 :: u32) < 0x100" "(0 :: u32) = 0 \<or> (0x100 :: u32) \<le> 0" "(8 :: nat) < 32" by simp_all
    from lmb_alloc_base_correct [OF sample_inv(1,2) h, unfolded p up Let_def sample_set if_not_P [OF top(1)]] that
    show thesis by blast
  qed
  have "b = 0x10F00" by (rule top(2) [OF b(1,2)])
  then show ?thesis using b(3,4) free room by (auto split: if_splits)
qed

text \<open>On a table of regions \<^verbatim>\<open>lmb_is_reserved\<close> decides membership in the reserved addresses.\<close>

theorem lmb_is_reserved_correct:
  assumes "regs_sorted (regs (reserved l))"
  shows "lmb_is_reserved l addr \<longleftrightarrow> unat addr \<in> lmb_set (reserved l)"
  by (rule lmb_is_reserved_eq [OF assms])

theorem lmb_is_reserved_correct_witness: "lmb_is_reserved sample_lmb 0x8fff \<and> \<not> lmb_is_reserved sample_lmb 0x9000"
  using lmb_is_reserved_correct [OF sample_inv(3)] by (simp add: sample_set)

text \<open>On a table that was just initialised, whose only entry is the dummy of size zero,
  \<^verbatim>\<open>lmb_is_reserved\<close> reports every address as reserved.\<close>

theorem lmb_is_reserved_init:
  "lmb_is_reserved (lmb_init sample_lmb) addr"
  by (simp add: lmb_is_reserved_def lmb_init_def sample_lmb_def word_n1_ge)

text \<open>Freeing the only reserved region leaves a table with no entry, and the next reservation at
  a higher address is lost: the freed region is reserved again instead.\<close>

theorem lmb_reserve_after_last_free:
  "\<exists>l1 l2. lmb_free sample_lmb 0x8000 0x1000 = Some (l1, 0) \<and> cnt (reserved l1) = 0 \<and>
     lmb_reserve l1 0xA000 0x100 = Some (l2, 0) \<and> lmb_set (reserved l2) = {0x8000 ..< 0x9000}"
  by (simp add: sample_lmb_def lmb_free_def Let_def lmb_remove_region_def cnt_pred_def lmb_reserve_def
      lmb_add_region_def lmb_regions_adjacent_def lmb_addrs_adjacent_def MAX_LMB_REGIONS_def
      lmb_set_def regs_def reg_set_def reg_fin_def)

text \<open>A limit below the requested size makes the subtraction wrap, and the allocator hands out a
  block outside memory.\<close>

theorem lmb_alloc_base_below_limit:
  "\<exists>l'. lmb_alloc_base sample_lmb 0x2000 0x1000 0x1800 = Some (l', 0xFFFFF000, False)"
  by (simp add: sample_lmb_def lmb_alloc_base_def lmb_alloc_base'_def Let_def LMB_ALLOC_ANYWHERE_def
      lmb_align_down_def lmb_alloc_loop.simps lmb_overlaps_region_def lmb_addrs_overlap_def lmb_align_up_def
      lmb_add_region_def lmb_regions_adjacent_def lmb_addrs_adjacent_def MAX_LMB_REGIONS_def cnt_pred_def)

end
