(* ===== verification/Env.thy ===== *)
theory Env
  imports Crc C_Format
begin

text \<open>
  The environment: \<^verbatim>\<open>common/env_common.c\<close> and the variable commands of \<^verbatim>\<open>common/cmd_nvedit.c\<close>.

  The variables live in memory as NUL-terminated entries, each a name, an equals sign and a
  value, ended by one more NUL, in the data part of an \<^verbatim>\<open>env_t\<close> whose first word is a CRC of
  that part. The model runs on the flat memory; the strings passed by the caller (\<^verbatim>\<open>argv\<close>, names)
  are separate from it. A search that finds no NUL, or a read past the end of such a string, has no
  result (None).
\<close>

section \<open>The code\<close>

definition CONFIG_ENV_SIZE :: nat where "CONFIG_ENV_SIZE = 4096"
definition ENV_HEADER_SIZE :: nat where "ENV_HEADER_SIZE = 4"
definition ENV_SIZE :: nat where "ENV_SIZE = CONFIG_ENV_SIZE - ENV_HEADER_SIZE"

text \<open>The global data the environment code works on: \<^verbatim>\<open>gd\<close>, \<^verbatim>\<open>env_ptr\<close>, \<^verbatim>\<open>env_id\<close>, the array
  \<^verbatim>\<open>default_environment\<close> (its address and size), the console, and the settings that some
  variables shadow.\<close>

record env_state =
  emem :: mem
  env_ptr :: addr
  env_addr :: addr
  env_valid :: nat
  gd_reloc :: bool
  default_environment :: addr
  default_size :: nat
  env_id :: int
  gd_baudrate :: u32
  load_addr :: u32
  bi_ip_addr :: u32
  con_in :: string
  con_out :: string

definition puts :: "string \<Rightarrow> env_state \<Rightarrow> env_state" where
  "puts txt s = s\<lparr> con_out := con_out s @ txt \<rparr>"

definition nl :: string where "nl = [CHR 0x0A]"
definition quoted :: "string \<Rightarrow> string" where "quoted s = [CHR 0x22] @ s @ [CHR 0x22]"

definition env_data :: "env_state \<Rightarrow> addr" where
  "env_data s = env_ptr s + ENV_HEADER_SIZE"

definition env_crc_update :: "env_state \<Rightarrow> env_state" where
  "env_crc_update s = s\<lparr> emem := store32 (emem s) (env_ptr s) (crc32 (emem s) 0 (env_data s) ENV_SIZE) \<rparr>"

definition env_get_char_spec :: "env_state \<Rightarrow> nat \<Rightarrow> char" where
  "env_get_char_spec s i = emem s (env_addr s + i)"

definition env_get_char_init :: "env_state \<Rightarrow> nat \<Rightarrow> char" where
  "env_get_char_init s i =
     (if env_valid s \<noteq> 0 then env_get_char_spec s i else emem s (default_environment s + i))"

definition env_get_char_memory :: "env_state \<Rightarrow> nat \<Rightarrow> char" where
  "env_get_char_memory s i =
     (if env_valid s \<noteq> 0 then emem s (env_addr s + i) else emem s (default_environment s + i))"

definition env_get_char :: "env_state \<Rightarrow> nat \<Rightarrow> char" where
  "env_get_char s i = (if gd_reloc s then env_get_char_memory s i else env_get_char_init s i)"

definition env_get_addr :: "env_state \<Rightarrow> nat \<Rightarrow> addr" where
  "env_get_addr s i = (if env_valid s \<noteq> 0 then env_addr s + i else default_environment s + i)"

definition set_default_env :: "env_state \<Rightarrow> env_state" where
  "set_default_env s =
     (if default_size s > ENV_SIZE
      then puts (''*** Error - default environment is too large'' @ nl @ nl) s
      else let m1 = fst (memset (env_ptr s) 0 (ENV_HEADER_SIZE + ENV_SIZE) (emem s));
               m2 = fst (memcpy (env_data s) (default_environment s) (default_size s) m1)
           in (env_crc_update (s\<lparr> emem := m2 \<rparr>))\<lparr> env_valid := 1 \<rparr>)"

subsection \<open>Looking variables up\<close>

text \<open>\<^verbatim>\<open>envmatch\<close>: the index of the value (inner None for -1). When the entry has no equals sign
  and is the name itself, the loop runs past the NUL of the name: no result.\<close>

fun envmatch :: "(nat \<Rightarrow> char) \<Rightarrow> string \<Rightarrow> nat \<Rightarrow> nat option option" where
  "envmatch get [] i2 =
     (if get i2 = NUL then None
      else if get i2 = CHR ''='' then Some (Some (Suc i2)) else Some None)"
| "envmatch get (c # s1) i2 =
     (if c = get i2
      then if c = CHR ''='' then Some (Some (Suc i2)) else envmatch get s1 (Suc i2)
      else Some None)"

text \<open>The inner loop of \<^verbatim>\<open>getenv\<close>: the index of the next NUL, unless the environment ends first.\<close>

function env_next :: "(nat \<Rightarrow> char) \<Rightarrow> nat \<Rightarrow> nat option" where
  "env_next get nxt =
     (if get nxt \<noteq> NUL then if nxt \<ge> CONFIG_ENV_SIZE then None else env_next get (Suc nxt)
      else Some nxt)"
  by pat_completeness auto
termination by (relation "measure (\<lambda>(_, n). CONFIG_ENV_SIZE - n)") auto

declare env_next.simps [simp del]

lemma env_next_ge: "env_next get n = Some n' \<Longrightarrow> n \<le> n' \<and> (n' \<le> CONFIG_ENV_SIZE \<or> n' = n)"
  by (induction get n rule: env_next.induct) (subst (asm) (2) env_next.simps, fastforce split: if_splits)

function getenv_loop :: "(nat \<Rightarrow> char) \<Rightarrow> string \<Rightarrow> nat \<Rightarrow> nat option option" where
  "getenv_loop get name i =
     (if get i \<noteq> NUL
      then case env_next get i of
             None \<Rightarrow> Some None
           | Some nxt \<Rightarrow> do { val \<leftarrow> envmatch get name i;
                            case val of None \<Rightarrow> getenv_loop get name (Suc nxt) | Some v \<Rightarrow> Some (Some v) }
      else Some None)"
  by pat_completeness auto
termination
proof (relation "measure (\<lambda>(_, _, i). Suc CONFIG_ENV_SIZE - i)")
  fix get :: "nat \<Rightarrow> char" and i nxt
  assume a: "get i \<noteq> NUL" "env_next get i = Some nxt"
  have "i \<le> nxt" using env_next_ge [OF a(2)] by simp
  moreover have "i < CONFIG_ENV_SIZE" using a by (auto simp: env_next.simps [of get i] split: if_splits)
  ultimately show "((get, name, Suc nxt), get, name, i) \<in> measure (\<lambda>(_, _, i). Suc CONFIG_ENV_SIZE - i)" for name
    by simp
qed simp

declare getenv_loop.simps [simp del]

text \<open>\<^verbatim>\<open>getenv\<close>: the address of the value.\<close>

definition getenv :: "env_state \<Rightarrow> string \<Rightarrow> addr option option" where
  "getenv s name = map_option (map_option (env_get_addr s)) (getenv_loop (env_get_char s) name 0)"

text \<open>The copy loop of \<^verbatim>\<open>getenv_r\<close>: the bytes stored and the final \<^verbatim>\<open>n\<close>.\<close>

function getenv_r_copy :: "(nat \<Rightarrow> char) \<Rightarrow> nat \<Rightarrow> nat \<Rightarrow> nat \<Rightarrow> char list \<times> nat" where
  "getenv_r_copy get val len n =
     (if n < len
      then if get val \<noteq> NUL
           then let (w, n') = getenv_r_copy get (Suc val) len (Suc n) in (get val # w, n')
           else ([NUL], Suc n)
      else ([], Suc n))"
  by pat_completeness auto
termination by (relation "measure (\<lambda>(_, _, len, n). len - n)") auto

declare getenv_r_copy.simps [simp del]

text \<open>\<^verbatim>\<open>getenv_r\<close>: the return value and the bytes stored from \<^verbatim>\<open>buf\<close> on.\<close>

definition getenv_r :: "env_state \<Rightarrow> string \<Rightarrow> nat \<Rightarrow> (int \<times> char list) option" where
  "getenv_r s name len =
     map_option (\<lambda>val. case val of
         None \<Rightarrow> (-1, [])
       | Some v \<Rightarrow> let (w, n) = getenv_r_copy (env_get_char s) v len 0
                   in (int n, if len = n then w @ [NUL] else w))
       (getenv_loop (env_get_char s) name 0)"

subsection \<open>Printing\<close>

text \<open>One entry is printed through a buffer of 16 characters; a \<^verbatim>\<open>puts\<close> of the buffer shows it up
  to its first NUL. \<open>show\<close> is \<^verbatim>\<open>state <= 1\<close>.\<close>

definition buf_text :: "char list \<Rightarrow> string" where
  "buf_text buf = takeWhile (\<lambda>c. c \<noteq> NUL) buf"

partial_function (option) print_entry ::
  "(nat \<Rightarrow> char) \<Rightarrow> bool \<Rightarrow> nat \<Rightarrow> char list \<Rightarrow> string \<Rightarrow> (nat \<times> string) option" where
  "print_entry get show i buf out =
     (let c = get i; buf1 = buf @ [c]; full = (length buf1 = 16);
          out1 = (if full \<and> show then out @ buf_text buf1 else out);
          buf2 = (if full then [] else buf1)
      in if c \<noteq> NUL then print_entry get show (Suc i) buf2 out1
         else Some (Suc i, if show then (if buf2 \<noteq> [] then out1 @ buf_text buf2 else out1) @ nl else out1))"

text \<open>\<^verbatim>\<open>printenv\<close>: \<open>brk\<close> are the answers of \<^verbatim>\<open>ctrlc()\<close>, one per entry; the loop needs no more of them
  than there are entries. It gives the text, the return value and the answers that are left.\<close>

fun printenv_loop :: "(nat \<Rightarrow> char) \<Rightarrow> string \<Rightarrow> bool list \<Rightarrow> nat \<Rightarrow> nat \<Rightarrow> string \<Rightarrow> (string \<times> int \<times> bool list) option"
where
  "printenv_loop get name brk state i out =
     (if state \<noteq> 0 \<and> get i \<noteq> NUL
      then do {
        state' \<leftarrow> (if state = 2
                   then map_option (\<lambda>v. if v \<noteq> None then 0 else 2) (envmatch get name i)
                   else Some state);
        (i', out') \<leftarrow> print_entry get (state' \<le> 1) i [] out;
        case brk of
          [] \<Rightarrow> None
        | b # brk' \<Rightarrow> if b then Some (out', -1, brk') else printenv_loop get name brk' state' i' out' }
      else Some (out, if state = 0 then 0 else int i, brk))"

definition printenv :: "env_state \<Rightarrow> bool list \<Rightarrow> string \<Rightarrow> nat \<Rightarrow> (string \<times> int \<times> bool list) option" where
  "printenv s brk name state = printenv_loop (env_get_char s) name brk state 0 []"

fun do_printenv_names :: "env_state \<Rightarrow> bool list \<Rightarrow> string list \<Rightarrow> int \<Rightarrow> (env_state \<times> int \<times> bool list) option" where
  "do_printenv_names s brk [] rcode = Some (s, rcode, brk)"
| "do_printenv_names s brk (name # names) rcode =
     do { (out, rc, brk') \<leftarrow> printenv s brk name 2;
          let s1 = puts out s in
          if rc \<noteq> 0
          then do_printenv_names (puts (''## Error: '' @ quoted name @ '' not defined'' @ nl) s1) brk' names (rcode + 1)
          else do_printenv_names s1 brk' names rcode }"

definition decimal :: "nat \<Rightarrow> string" where
  "decimal n = number (of_nat n) 10 (-1) (-1) SIGN"

definition do_printenv :: "env_state \<Rightarrow> bool list \<Rightarrow> string list \<Rightarrow> (env_state \<times> int \<times> bool list) option" where
  "do_printenv s brk argv =
     (if length argv = 1
      then do { (out, rc, brk') \<leftarrow> printenv s brk [] 1;
                let s1 = puts out s in
                if rc < 0 then Some (s1, 1, brk')
                else Some (puts (nl @ ''Environment size: '' @ decimal (nat rc) @ ''/'' @ decimal ENV_SIZE @ '' bytes'' @ nl) s1, 0, brk') }
      else do_printenv_names s brk (tl argv) 0)"


subsection \<open>Setting variables\<close>

text \<open>The search loop of \<^verbatim>\<open>_do_setenv\<close>: where it stopped, the NUL of that entry, and the value's
  index.\<close>

partial_function (option) setenv_find :: "mem \<Rightarrow> addr \<Rightarrow> string \<Rightarrow> addr \<Rightarrow> (addr \<times> addr \<times> nat option) option" where
  "setenv_find m data name env =
     (if m env \<noteq> NUL
      then Option.bind (scan_nul m env) (\<lambda>nxt.
           Option.bind (envmatch (\<lambda>i. m (data + i)) name (env - data)) (\<lambda>oldval.
             case oldval of Some v \<Rightarrow> Some (env, nxt, Some v)
             | None \<Rightarrow> setenv_find m data name (nxt + 1)))
      else Some (env, env, None))"

text \<open>Deleting the entry at \<open>env\<close> whose NUL is at \<open>nxt\<close>: the entries after it move down.\<close>

partial_function (option) env_shift :: "mem \<Rightarrow> addr \<Rightarrow> addr \<Rightarrow> (mem \<times> addr) option" where
  "env_shift m env nxt =
     (let m' = m(env := m nxt); nxt' = nxt + 1
      in if m' env = NUL \<and> m' nxt' = NUL then Some (m', env) else env_shift m' (env + 1) nxt')"

definition env_delete :: "mem \<Rightarrow> addr \<Rightarrow> addr \<Rightarrow> addr \<Rightarrow> mem option" where
  "env_delete m data env nxt =
     do { (m', env') \<leftarrow>
            (if m (nxt + 1) = NUL
             then Some (if env > data then (m, env - 1) else (m(env := NUL), env))
             else env_shift m env (nxt + 1));
          Some (m'(env' + 1 := NUL)) }"

text \<open>The end of the environment: the first of two NULs in a row.\<close>

partial_function (option) env_end :: "mem \<Rightarrow> addr \<Rightarrow> addr option" where
  "env_end m env = (if m env \<noteq> NUL \<or> m (env + 1) \<noteq> NUL then env_end m (env + 1) else Some env)"

fun copy_str :: "mem \<Rightarrow> addr \<Rightarrow> string \<Rightarrow> mem \<times> addr" where
  "copy_str m p [] = (m(p := NUL), p)"
| "copy_str m p (c # cs) = copy_str (m(p := c)) (p + 1) cs"

fun copy_args :: "mem \<Rightarrow> addr \<Rightarrow> char \<Rightarrow> string list \<Rightarrow> mem \<times> addr" where
  "copy_args m env sep [] = (m, env)"
| "copy_args m env sep (v # vs) =
     (let (m', env') = copy_str (m(env := sep)) (env + 1) v in copy_args m' env' CHR '' '' vs)"

definition env_append :: "mem \<Rightarrow> addr \<Rightarrow> string \<Rightarrow> string list \<Rightarrow> mem" where
  "env_append m env name vals =
     (let (m1, env1) = copy_str m env name; (m2, env2) = copy_args m1 env1 CHR ''='' vals
      in m2(env2 + 1 := NUL))"

definition baudrate_table :: "u32 list" where
  "baudrate_table = [9600, 19200, 38400, 57600, 115200]"

text \<open>The address \<^verbatim>\<open>ipaddr\<close> sets: four numbers separated by any one character.\<close>

fun parse_quads :: "nat \<Rightarrow> string \<Rightarrow> u32 \<Rightarrow> u32" where
  "parse_quads 0 s a = a"
| "parse_quads (Suc n) s a =
     (let (val, e) = simple_strtoul s 10
      in parse_quads n (if at e 0 \<noteq> NUL then tl e else e) (push_bit 8 a OR (val AND 0xFF)))"

definition htonl :: "u32 \<Rightarrow> u32" where
  "htonl w = push_bit 24 (w AND 0xff) OR push_bit 8 (w AND 0xff00) OR
             (drop_bit 8 w AND 0xff00) OR (drop_bit 24 w AND 0xff)"

text \<open>The baud rate is switched when the variable already exists: the new rate must be in the table,
  and the console waits for a carriage return at the new speed. Deleting \<^verbatim>\<open>baudrate\<close> reads the
  missing third argument: no result. The Boolean tells whether the command goes on.\<close>

definition setenv_baudrate :: "env_state \<Rightarrow> string list \<Rightarrow> (env_state \<times> bool) option" where
  "setenv_baudrate s argv =
     (if length argv < 3 then None
      else let baud = fst (simple_strtoul (argv ! 2) 10)
           in if baud \<notin> set baudrate_table
              then Some (puts (''## Baudrate '' @ number (scast baud) 10 (-1) (-1) SIGN @ '' bps not supported'' @ nl) s, False)
              else let s1 = (puts (''## Switch baudrate to '' @ number (scast baud) 10 (-1) (-1) SIGN @
                                   '' bps and press ENTER ...'' @ nl) s)\<lparr> gd_baudrate := baud \<rparr>;
                       inp = dropWhile (\<lambda>c. c \<noteq> CHR 0x0D) (con_in s1)
                   in if inp = [] then None else Some (s1\<lparr> con_in := tl inp \<rparr>, True))"

definition console_file :: "string \<Rightarrow> nat option" where
  "console_file name =
     (if name = ''stdin'' then Some 0 else if name = ''stdout'' then Some 1
      else if name = ''stderr'' then Some 2 else None)"

text \<open>The last part: settings that follow the variable.\<close>

definition setenv_effects :: "env_state \<Rightarrow> string list \<Rightarrow> env_state" where
  "setenv_effects s argv =
     (if argv ! 1 = ''ethaddr'' then s
      else if argv ! 1 = ''ipaddr'' then s\<lparr> bi_ip_addr := htonl (parse_quads 4 (argv ! 2) 0) \<rparr>
      else if argv ! 1 = ''loadaddr'' then s\<lparr> load_addr := fst (simple_strtoul (argv ! 2) 16) \<rparr>
      else s)"

text \<open>\<open>console_assign\<close> is the console driver's function of that name: whether the device could be
  made the file's.\<close>

definition do_setenv_raw :: "(nat \<Rightarrow> string \<Rightarrow> bool) \<Rightarrow> env_state \<Rightarrow> string list \<Rightarrow> (env_state \<times> int) option" where
  "do_setenv_raw console_assign s0 argv =
     (let data = env_get_addr s0 0; name = argv ! 1; argc = length argv
      in if data = NULL then Some (s0, 1)
         else if CHR ''='' \<in> set name
         then Some (puts (''## Error: illegal character '' @ [CHR 0x27] @ ''='' @ [CHR 0x27] @
                          '' in variable name '' @ quoted name @ nl) s0, 1)
         else do {
           let s1 = s0\<lparr> env_id := env_id s0 + 1 \<rparr>;
           (env, nxt, oldval) \<leftarrow> setenv_find (emem s1) data name data;
           if console_file name \<noteq> None \<and> argc < 3
           then Some (puts (''Can'' @ [CHR 0x27] @ ''t delete '' @ quoted name @ nl) s1, 1)
           else if console_file name \<noteq> None \<and> \<not> console_assign (the (console_file name)) (argv ! 2)
           then Some (s1, 1)
           else do {
             (s2, go) \<leftarrow> (if oldval \<noteq> None \<and> name = ''baudrate'' then setenv_baudrate s1 argv else Some (s1, True));
             if \<not> go then Some (s2, 1)
             else do {
               m \<leftarrow> (if oldval \<noteq> None then env_delete (emem s2) data env nxt else Some (emem s2));
               let s3 = s2\<lparr> emem := m \<rparr>;
               if argc < 3 then Some (env_crc_update s3, 0)
               else do {
                 e \<leftarrow> env_end m data;
                 let env' = (if e > data then e + 1 else e);
                 let len = length name + 2 + sum_list (map (\<lambda>v. length v + 1) (drop 2 argv));
                 if data + ENV_SIZE < env' + len
                 then Some (puts (''## Error: environment overflow, '' @ quoted name @ '' deleted'' @ nl) s3, 1)
                 else Some (setenv_effects (env_crc_update (s3\<lparr> emem := env_append m env' name (drop 2 argv) \<rparr>)) argv, 0)
               } } } })"

definition setenv :: "(nat \<Rightarrow> string \<Rightarrow> bool) \<Rightarrow> env_state \<Rightarrow> string \<Rightarrow> string option \<Rightarrow> (env_state \<times> int) option" where
  "setenv console_assign s varname varvalue =
     (case varvalue of
        None \<Rightarrow> do_setenv_raw console_assign s [''setenv'', varname]
      | Some v \<Rightarrow> if v = [] then do_setenv_raw console_assign s [''setenv'', varname]
                  else do_setenv_raw console_assign s [''setenv'', varname, v])"

text \<open>\<open>usage\<close> is the text \<^verbatim>\<open>cmd_usage\<close> prints for the command.\<close>

definition do_setenv :: "(nat \<Rightarrow> string \<Rightarrow> bool) \<Rightarrow> string \<Rightarrow> env_state \<Rightarrow> string list \<Rightarrow> (env_state \<times> int) option" where
  "do_setenv console_assign usage s argv =
     (if length argv < 2 then Some (puts usage s, 1) else do_setenv_raw console_assign s argv)"

section \<open>The environment as a list of entries\<close>

definition entry_ok :: "string \<Rightarrow> bool" where
  "entry_ok e \<longleftrightarrow> NUL \<notin> set e \<and> CHR ''='' \<in> set e"

definition name_of :: "string \<Rightarrow> string" where
  "name_of e = takeWhile (\<lambda>c. c \<noteq> CHR ''='') e"

definition value_of :: "string \<Rightarrow> string" where
  "value_of e = tl (dropWhile (\<lambda>c. c \<noteq> CHR ''='') e)"

definition name_ok :: "string \<Rightarrow> bool" where
  "name_ok n \<longleftrightarrow> NUL \<notin> set n \<and> CHR ''='' \<notin> set n"

fun esize :: "string list \<Rightarrow> nat" where
  "esize [] = 0"
| "esize (e # es) = Suc (length e) + esize es"

fun strs :: "mem \<Rightarrow> addr \<Rightarrow> string list \<Rightarrow> bool" where
  "strs m p [] = True"
| "strs m p (e # es) = (cstr m p e \<and> entry_ok e \<and> strs m (p + Suc (length e)) es)"

text \<open>The entries \<open>es\<close> are stored from \<open>p\<close> on: an empty environment has two NULs.\<close>

definition env_at :: "mem \<Rightarrow> addr \<Rightarrow> string list \<Rightarrow> bool" where
  "env_at m p es \<longleftrightarrow> strs m p es \<and> m (p + esize es) = NUL \<and> (es = [] \<longrightarrow> m (p + 1) = NUL)"

definition env_lookup :: "string \<Rightarrow> string list \<Rightarrow> string option" where
  "env_lookup name es = map_option value_of (find (\<lambda>e. name_of e = name) es)"

definition env_remove :: "string \<Rightarrow> string list \<Rightarrow> string list" where
  "env_remove name es = takeWhile (\<lambda>e. name_of e \<noteq> name) es @ tl (dropWhile (\<lambda>e. name_of e \<noteq> name) es)"

definition enc :: "string list \<Rightarrow> char list" where
  "enc es = concat (map (\<lambda>e. e @ [NUL]) es)"

lemma length_enc [simp]: "length (enc es) = esize es"
  by (induction es) (simp_all add: enc_def)

lemma esize_append [simp]: "esize (xs @ ys) = esize xs + esize ys"
  by (induction xs) auto

lemma entry_ok_ne: "entry_ok e \<Longrightarrow> e \<noteq> []"
  by (auto simp: entry_ok_def)

lemma strs_append: "strs m p (xs @ ys) \<longleftrightarrow> strs m p xs \<and> strs m (p + esize xs) ys"
  by (induction xs arbitrary: p) (auto simp: add_ac)

lemma strs_entry_ok: "strs m p es \<Longrightarrow> \<forall>e \<in> set es. entry_ok e"
  by (induction es arbitrary: p) auto

lemma strs_cong: "(\<And>a. p \<le> a \<Longrightarrow> a < p + esize es \<Longrightarrow> m a = m' a) \<Longrightarrow> strs m p es = strs m' p es"
proof (induction es arbitrary: p)
  case (Cons e es)
  have "cstr m p e = cstr m' p e" using Cons.prems by (intro cstr_cong) simp
  moreover have "strs m (p + Suc (length e)) es = strs m' (p + Suc (length e)) es"
    using Cons.prems by (intro Cons.IH) simp
  ultimately show ?case by simp
qed simp

lemma strs_enc: "list_all entry_ok es \<Longrightarrow> strs (mem_put m p (enc es @ t)) p es"
proof (induction es arbitrary: m p)
  case (Cons e es)
  have "mem_put m p (enc (e # es) @ t) = mem_put (mem_put m p (e @ [NUL])) (p + Suc (length e)) (enc es @ t)"
    using mem_put_append [of m p "e @ [NUL]" "enc es @ t"] by (simp add: enc_def)
  moreover have "cstr (mem_put (mem_put m p (e @ [NUL])) (p + Suc (length e)) (enc es @ t)) p e"
    using Cons.prems by (subst cstr_mem_put_disjoint) (simp_all add: entry_ok_def)
  ultimately show ?case using Cons by simp
qed simp

subsection \<open>Looking up\<close>

lemma name_of_split: "entry_ok e \<Longrightarrow> e = name_of e @ ''='' @ value_of e"
proof -
  assume "entry_ok e"
  then have "dropWhile (\<lambda>c. c \<noteq> CHR ''='') e \<noteq> []" by (auto simp: entry_ok_def)
  then have "dropWhile (\<lambda>c. c \<noteq> CHR ''='') e = CHR ''='' # value_of e"
    using hd_dropWhile [of "\<lambda>c. c \<noteq> CHR ''=''" e] by (cases "dropWhile (\<lambda>c. c \<noteq> CHR ''='') e") (auto simp: value_of_def)
  then show ?thesis using takeWhile_dropWhile_id [of "\<lambda>c. c \<noteq> CHR ''=''" e] by (simp add: name_of_def)
qed

lemma name_of_entry: "name_ok n \<Longrightarrow> name_of (n @ ''='' @ v) = n \<and> value_of (n @ ''='' @ v) = v"
  by (induction n) (auto simp: name_ok_def name_of_def value_of_def)

lemma envmatch_cstr:
  "cstr m (d + i) e \<Longrightarrow> entry_ok e \<Longrightarrow> name_ok name \<Longrightarrow>
   envmatch (\<lambda>i. m (d + i)) name i = Some (if name_of e = name then Some (i + length name + 1) else None)"
proof (induction name arbitrary: e i)
  case Nil
  then show ?case by (cases e) (auto simp: entry_ok_def name_of_def)
next
  case (Cons c name)
  obtain c' e' where e: "e = c' # e'" using Cons.prems(2) by (cases e) (auto simp: entry_ok_def)
  have n: "name_ok name" "c \<noteq> CHR ''=''" using Cons.prems(3) by (auto simp: name_ok_def)
  show ?case
  proof (cases "c = c'")
    case True
    then have "entry_ok e'" using Cons.prems(2) n(2) by (auto simp: entry_ok_def e)
    then show ?thesis using Cons.IH [of "Suc i" e'] Cons.prems n True by (auto simp: e name_of_def)
  next
    case False
    then show ?thesis using Cons.prems by (auto simp: e name_of_def)
  qed
qed

lemma env_next_cstr:
  "cstr m (d + i) e \<Longrightarrow> i + length e \<le> CONFIG_ENV_SIZE \<Longrightarrow> env_next (\<lambda>i. m (d + i)) i = Some (i + length e)"
proof (induction e arbitrary: i)
  case Nil
  then show ?case by (simp add: env_next.simps)
next
  case (Cons c e)
  then show ?case using Cons.IH [of "Suc i"] by (subst env_next.simps) auto
qed

lemma cstr_value: "cstr m p e \<Longrightarrow> entry_ok e \<Longrightarrow> cstr m (p + length (name_of e) + 1) (value_of e)"
  using cstr_suffix [of m p "name_of e @ ''=''" "value_of e"] name_of_split [of e] by simp

lemma getenv_loop_ok:
  assumes "strs m (d + i) es" "m (d + i + esize es) = NUL" "i + esize es \<le> CONFIG_ENV_SIZE" "name_ok name"
  shows "case env_lookup name es of
      None \<Rightarrow> getenv_loop (\<lambda>i. m (d + i)) name i = Some None
    | Some v \<Rightarrow> \<exists>k. getenv_loop (\<lambda>i. m (d + i)) name i = Some (Some k) \<and> cstr m (d + k) v \<and> k + length v < i + esize es"
  using assms
proof (induction es arbitrary: i)
  case Nil
  then show ?case by (simp add: env_lookup_def getenv_loop.simps)
next
  case (Cons e es)
  let ?get = "\<lambda>i. m (d + i)"
  have e: "cstr m (d + i) e" "entry_ok e" using Cons.prems(1) by simp_all
  have nz: "m (d + i) \<noteq> NUL" using e entry_ok_ne [of e] by (cases e) auto
  have nxt: "env_next ?get i = Some (i + length e)" using env_next_cstr [OF e(1)] Cons.prems(3) by simp
  have step: "getenv_loop ?get name i =
      (if name_of e = name then Some (Some (i + length name + 1)) else getenv_loop ?get name (Suc (i + length e)))"
    using nz nxt envmatch_cstr [OF e Cons.prems(4)] by (subst getenv_loop.simps) simp
  show ?case
  proof (cases "name_of e = name")
    case True
    moreover have "length e = length (name_of e) + 1 + length (value_of e)" using arg_cong [OF name_of_split [OF e(2)], of length] by simp
    ultimately show ?thesis using step cstr_value [OF e] by (simp add: env_lookup_def add.assoc)
  next
    case False
    then show ?thesis
      using step Cons.IH [of "Suc (i + length e)"] Cons.prems
      by (cases "find (\<lambda>e. name_of e = name) es") (simp_all add: env_lookup_def add.assoc)
  qed
qed


subsection \<open>Finding, deleting and appending\<close>

lemma setenv_find_skip:
  assumes "strs m (d + i) xs" "name_ok name" "\<forall>e \<in> set xs. name_of e \<noteq> name"
  shows "setenv_find m d name (d + i) = setenv_find m d name (d + i + esize xs)"
  using assms
proof (induction xs arbitrary: i)
  case (Cons e es)
  have e: "cstr m (d + i) e" "entry_ok e" using Cons.prems(1) by simp_all
  have nz: "m (d + i) \<noteq> NUL" using e entry_ok_ne [of e] by (cases e) auto
  have "setenv_find m d name (d + i) = setenv_find m d name (d + (i + Suc (length e)))"
    using nz scan_nul_cstr [OF e(1)] envmatch_cstr [OF e Cons.prems(2)] Cons.prems(3)
    by (subst setenv_find.simps) (simp add: add.assoc)
  then show ?case using Cons.IH [of "i + Suc (length e)"] Cons.prems by (simp add: add.assoc)
qed simp

lemma setenv_find_hit:
  assumes "strs m d (xs @ e # ys)" "name_ok name" "\<forall>e \<in> set xs. name_of e \<noteq> name" "name_of e = name"
  shows "\<exists>v. setenv_find m d name d = Some (d + esize xs, d + esize xs + length e, Some v)"
proof -
  let ?p = "d + esize xs"
  have e: "cstr m ?p e" "entry_ok e" and xs: "strs m (d + 0) xs" using assms(1) by (simp_all add: strs_append)
  have nz: "m ?p \<noteq> NUL" using e entry_ok_ne [of e] by (cases e) auto
  have "setenv_find m d name d = setenv_find m d name ?p" using setenv_find_skip [OF xs assms(2,3)] by simp
  then show ?thesis
    using nz scan_nul_cstr [OF e(1)] envmatch_cstr [OF e assms(2)] assms(4)
    by (subst (asm) (2) setenv_find.simps) simp
qed

lemma setenv_find_miss:
  assumes "strs m d es" "m (d + esize es) = NUL" "name_ok name" "\<forall>e \<in> set es. name_of e \<noteq> name"
  shows "setenv_find m d name d = Some (d + esize es, d + esize es, None)"
  using setenv_find_skip [of m d 0 es name] assms by (simp add: setenv_find.simps [of m d name "d + esize es"])

lemma env_shift_str:
  "cstr m nxt e \<Longrightarrow> env < nxt \<Longrightarrow>
   env_shift m env nxt =
     (if m (nxt + length e + 1) = NUL then Some (mem_put m env (e @ [NUL]), env + length e)
      else env_shift (mem_put m env (e @ [NUL])) (env + length e + 1) (nxt + length e + 1))"
proof (induction e arbitrary: m env nxt)
  case Nil
  then show ?case by (subst env_shift.simps) (simp add: Let_def mem_put_Cons)
next
  case (Cons c e)
  let ?m = "m(env := c)"
  have c: "m nxt = c" "c \<noteq> NUL" "cstr m (nxt + 1) e" using Cons.prems(1) by simp_all
  have "cstr ?m (nxt + 1) e" using c(3) Cons.prems(2) by (subst cstr_cong [where m' = m]) simp_all
  then have "env_shift ?m (env + 1) (nxt + 1) =
     (if ?m (nxt + 1 + length e + 1) = NUL then Some (mem_put ?m (env + 1) (e @ [NUL]), env + 1 + length e)
      else env_shift (mem_put ?m (env + 1) (e @ [NUL])) (env + 1 + length e + 1) (nxt + 1 + length e + 1))"
    by (rule Cons.IH) (use Cons.prems(2) in simp)
  moreover have "env_shift m env nxt = env_shift ?m (env + 1) (nxt + 1)"
    using c by (subst env_shift.simps) (simp add: Let_def)
  ultimately show ?case using Cons.prems(2) by (simp add: mem_put_Cons del: fun_upd_apply) (simp add: add.assoc)
qed

lemma env_shift_ok:
  "strs m nxt ys \<Longrightarrow> m (nxt + esize ys) = NUL \<Longrightarrow> ys \<noteq> [] \<Longrightarrow> env < nxt \<Longrightarrow>
   env_shift m env nxt = Some (mem_put m env (enc ys), env + esize ys - 1)"
proof (induction ys arbitrary: m env nxt)
  case (Cons e ys)
  let ?m = "mem_put m env (e @ [NUL])"
  have e: "cstr m nxt e" "strs m (nxt + Suc (length e)) ys" using Cons.prems(1) by simp_all
  note shift = env_shift_str [OF e(1) Cons.prems(4)]
  show ?case
  proof (cases "ys = []")
    case True
    then show ?thesis using shift Cons.prems(2) by (simp add: enc_def add.assoc)
  next
    case False
    then obtain e2 ys2 where ys: "ys = e2 # ys2" by (cases ys) auto
    have "m (nxt + length e + 1) \<noteq> NUL" using e(2) ys entry_ok_ne [of e2] by (cases e2) auto
    then have s: "env_shift m env nxt = env_shift ?m (env + length e + 1) (nxt + length e + 1)" using shift by simp
    have "strs ?m (nxt + length e + 1) ys = strs m (nxt + length e + 1) ys"
      using Cons.prems(4) by (intro strs_cong) (simp add: mem_put_outside)
    moreover have "?m (nxt + length e + 1 + esize ys) = NUL"
      using Cons.prems(2,4) by (simp add: mem_put_outside add.assoc)
    ultimately have "env_shift ?m (env + length e + 1) (nxt + length e + 1) =
        Some (mem_put ?m (env + length e + 1) (enc ys), env + length e + 1 + esize ys - 1)"
      using e(2) False Cons.prems(4) by (intro Cons.IH) simp_all
    moreover have "mem_put ?m (env + length e + 1) (enc ys) = mem_put m env (enc (e # ys))"
      using mem_put_append [of m env "e @ [NUL]" "enc ys"] by (simp add: enc_def)
    ultimately show ?thesis using s by simp
  qed
qed simp

lemma env_delete_ok:
  assumes "strs m d (xs @ e # ys)" "m (d + esize (xs @ e # ys)) = NUL"
  shows "env_delete m d (d + esize xs) (d + esize xs + length e) =
    Some (mem_put m (d + esize xs) (enc ys @ [NUL] @ (if xs = [] \<and> ys = [] then [NUL] else [])))"
proof -
  let ?p = "d + esize xs"
  have e: "cstr m ?p e" "entry_ok e" and ys: "strs m (?p + length e + 1) ys" using assms(1) by (simp_all add: strs_append)
  have pos: "xs \<noteq> [] \<Longrightarrow> d < ?p" by (cases xs) auto
  show ?thesis
  proof (cases "ys = []")
    case True
    then have "m (?p + length e + 1) = NUL" using assms(2) by (simp add: add.assoc)
    then show ?thesis using True pos
      by (cases "xs = []") (auto simp: env_delete_def enc_def mem_put_Cons)
  next
    case False
    then obtain e2 ys2 where y: "ys = e2 # ys2" by (cases ys) auto
    have nz: "m (?p + length e + 1) \<noteq> NUL" using ys y entry_ok_ne [of e2] by (cases e2) auto
    have "m (?p + length e + 1 + esize ys) = NUL" using assms(2) by (simp add: add.assoc)
    then have "env_shift m ?p (?p + length e + 1) = Some (mem_put m ?p (enc ys), ?p + esize ys - 1)"
      using ys False by (intro env_shift_ok) simp_all
    moreover have "0 < esize ys" using y by simp
    ultimately show ?thesis using nz False by (simp add: env_delete_def mem_put_snoc)
  qed
qed

lemma env_end_str:
  "cstr m p e \<Longrightarrow> env_end m p = (if m (p + length e + 1) = NUL then Some (p + length e) else env_end m (p + length e + 1))"
proof (induction e arbitrary: p)
  case Nil
  then show ?case by (subst env_end.simps) simp
next
  case (Cons c e)
  then show ?case using Cons.IH [of "Suc p"] by (subst env_end.simps) simp
qed

lemma env_end_ok:
  "strs m p es \<Longrightarrow> es \<noteq> [] \<Longrightarrow> m (p + esize es) = NUL \<Longrightarrow> env_end m p = Some (p + esize es - 1)"
proof (induction es arbitrary: p)
  case (Cons e es)
  have e: "cstr m p e" "strs m (p + length e + 1) es" using Cons.prems(1) by simp_all
  show ?case
  proof (cases es)
    case Nil
    then show ?thesis using env_end_str [OF e(1)] Cons.prems(3) by (simp add: add.assoc)
  next
    case (Cons e2 es2)
    have "m (p + length e + 1) \<noteq> NUL" using e(2) Cons entry_ok_ne [of e2] by (cases e2) auto
    then show ?thesis
      using env_end_str [OF e(1)] Cons.IH [OF e(2)] Cons.prems(3) Cons by (simp add: add.assoc)
  qed
qed simp

lemma copy_str_eq: "copy_str m p s = (mem_put m p (s @ [NUL]), p + length s)"
  by (induction s arbitrary: m p) (simp_all add: mem_put_Cons)

lemma mem_put_overlay:
  "length ys \<le> length zs \<Longrightarrow> mem_put (mem_put m p (xs @ ys)) (p + length xs) zs = mem_put m p (xs @ zs)"
  by (rule ext) (auto simp: mem_put_def nth_append)

definition join_args :: "char \<Rightarrow> string list \<Rightarrow> string" where
  "join_args sep vs = (case vs of [] \<Rightarrow> [] | v # vs' \<Rightarrow> sep # v @ concat (map (\<lambda>x. CHR '' '' # x) vs'))"

lemma join_args_Cons: "join_args sep (v # vs) = sep # v @ join_args CHR '' '' vs"
  by (cases vs) (simp_all add: join_args_def)

lemma copy_args_eq:
  "vs \<noteq> [] \<Longrightarrow> copy_args m p sep vs = (mem_put m p (join_args sep vs @ [NUL]), p + length (join_args sep vs))"
proof (induction vs arbitrary: m p sep)
  case (Cons v vs)
  have step: "copy_args m p sep (v # vs) = copy_args (mem_put m p (sep # v @ [NUL])) (p + Suc (length v)) CHR '' '' vs"
    by (simp add: copy_str_eq mem_put_Cons)
  show ?case
  proof (cases "vs = []")
    case True
    then show ?thesis using step by (simp add: join_args_def)
  next
    case False
    have "1 \<le> length (join_args CHR '' '' vs @ [NUL])" by simp
    then have "mem_put (mem_put m p ((sep # v) @ [NUL])) (p + length (sep # v)) (join_args CHR '' '' vs @ [NUL]) =
        mem_put m p ((sep # v) @ join_args CHR '' '' vs @ [NUL])"
      by (intro mem_put_overlay) simp
    then show ?thesis using step Cons.IH [OF False] by (simp add: join_args_Cons)
  qed
qed simp

lemma env_append_eq:
  assumes "vals \<noteq> []"
  shows "env_append m p name vals = mem_put m p (name @ join_args CHR ''='' vals @ [NUL, NUL])"
proof -
  let ?j = "join_args CHR ''='' vals"
  have "mem_put (mem_put m p (name @ [NUL])) (p + length name) (?j @ [NUL]) = mem_put m p (name @ ?j @ [NUL])"
    by (intro mem_put_overlay) simp
  then have "env_append m p name vals = (mem_put m p (name @ ?j @ [NUL]))(p + length name + length ?j + 1 := NUL)"
    by (simp add: env_append_def copy_str_eq copy_args_eq [OF assms])
  then show ?thesis using mem_put_snoc [of m p "name @ ?j @ [NUL]" NUL] by (simp add: add.assoc)
qed

lemma join_args_length: "vs \<noteq> [] \<Longrightarrow> length (join_args sep vs) = sum_list (map (\<lambda>v. length v + 1) vs)"
  by (induction vs arbitrary: sep) (auto simp: join_args_def length_concat comp_def)


section \<open>The environment in the running system\<close>

text \<open>After relocation: the variables are in the data part of \<^verbatim>\<open>*env_ptr\<close>, each name once, and fit.\<close>

definition env_ok :: "env_state \<Rightarrow> string list \<Rightarrow> bool" where
  "env_ok s es \<longleftrightarrow> env_valid s \<noteq> 0 \<and> env_addr s = env_data s \<and> env_at (emem s) (env_data s) es \<and>
     esize es + 1 \<le> ENV_SIZE \<and> distinct (map name_of es)"

definition crc_ok :: "env_state \<Rightarrow> bool" where
  "crc_ok s \<longleftrightarrow> load32 (emem s) (env_ptr s) = crc32 (emem s) 0 (env_data s) ENV_SIZE"

definition same_outside :: "addr \<Rightarrow> nat \<Rightarrow> mem \<Rightarrow> mem \<Rightarrow> bool" where
  "same_outside p n m m' \<longleftrightarrow> (\<forall>a. a < p \<or> p + n \<le> a \<longrightarrow> m' a = m a)"

lemma env_get_char_eq: "env_ok s es \<Longrightarrow> env_get_char s = (\<lambda>i. emem s (env_data s + i))"
  by (rule ext) (simp add: env_ok_def env_get_char_def env_get_char_memory_def env_get_char_init_def env_get_char_spec_def)

lemma of_char_char_of_u32: "(of_char (char_of (unat w)) :: u32) = take_bit 8 w"
proof (rule bit_eqI)
  fix n
  have "\<forall>n < 8. bit w n = bit (of_char (char_of (unat w)) :: nat) n"
    using char_of_unat_iff [of w "char_of (unat w)"] by blast
  then show "bit (of_char (char_of (unat w)) :: u32) n = bit (take_bit 8 w) n"
    using bit_of_char_nat [of "char_of (unat w)" n] unfolding bit_of_char_u32 bit_take_bit_iff by blast
qed

lemma load32_store32: "load32 (store32 m p w) p = w"
proof -
  let ?b = "\<lambda>k. take_bit 8 (drop_bit k w)"
  have b: "load32 (store32 m p w) p = ?b 0 OR push_bit 8 (?b 8) OR push_bit 16 (?b 16) OR push_bit 24 (?b 24)"
    unfolding load32_def store32_def by (simp add: of_char_char_of_u32)
  show ?thesis unfolding b
  proof (rule bit_eqI)
    fix n :: nat
    have "n < 8 \<or> (\<exists>k < 8. n = 8 + k) \<or> (\<exists>k < 8. n = 16 + k) \<or> (\<exists>k. n = 24 + k)" by presburger
    then show "bit (?b 0 OR push_bit 8 (?b 8) OR push_bit 16 (?b 16) OR push_bit 24 (?b 24)) n = bit w n"
      by (elim disjE exE conjE) (auto simp: bit_simps dest: bit_imp_le_length)
  qed
qed

lemma crc_update_ok: "crc_ok (env_crc_update s)"
proof -
  let ?m = "store32 (emem s) (env_ptr s) (crc32 (emem s) 0 (env_data s) ENV_SIZE)"
  have "mem_get ?m (env_data s) ENV_SIZE = mem_get (emem s) (env_data s) ENV_SIZE"
    by (simp add: store32_eq mem_get_put_disjoint env_data_def ENV_HEADER_SIZE_def)
  then show ?thesis by (simp add: crc_ok_def env_crc_update_def crc32_eq load32_store32 env_data_def)
qed

lemma crc_update_data:
  "a < env_ptr s \<or> env_data s \<le> a \<Longrightarrow> emem (env_crc_update s) a = emem s a"
  unfolding env_crc_update_def by (simp add: store32_eq, subst mem_put_outside) (auto simp: env_data_def ENV_HEADER_SIZE_def)

lemma env_at_cong:
  assumes "\<And>a. p \<le> a \<Longrightarrow> a \<le> p + max 1 (esize es) \<Longrightarrow> m' a = m a"
  shows "env_at m' p es = env_at m p es"
proof -
  have "strs m' p es = strs m p es" using assms by (intro strs_cong) auto
  then show ?thesis using assms [of "p + esize es"] assms [of "p + 1"] by (auto simp: env_at_def)
qed

lemma env_ok_crc_update: "env_ok (env_crc_update s) es = env_ok s es"
proof -
  have "env_at (emem (env_crc_update s)) (env_data s) es = env_at (emem s) (env_data s) es"
    by (rule env_at_cong) (simp add: crc_update_data)
  then show ?thesis by (simp add: env_ok_def) (simp add: env_crc_update_def env_data_def)
qed

subsection \<open>Removing and adding an entry\<close>

lemma env_remove_cases:
  obtains (miss) "env_remove name es = es" "\<forall>e \<in> set es. name_of e \<noteq> name"
    | (hit) xs e ys where "es = xs @ e # ys" "\<forall>e \<in> set xs. name_of e \<noteq> name" "name_of e = name" "env_remove name es = xs @ ys"
proof (cases "\<forall>e \<in> set es. name_of e \<noteq> name")
  case True
  then have "takeWhile (\<lambda>e. name_of e \<noteq> name) es = es" "dropWhile (\<lambda>e. name_of e \<noteq> name) es = []"
    by (simp_all add: takeWhile_eq_all_conv dropWhile_eq_Nil_conv)
  then have "env_remove name es = es" by (simp only: env_remove_def list.sel append_Nil2)
  then show ?thesis using miss True by blast
next
  case False
  then obtain xs e ys where s: "es = xs @ e # ys" "\<forall>e \<in> set xs. name_of e \<noteq> name" "name_of e = name"
    using split_list_first_prop [of es "\<lambda>e. name_of e = name"] by auto
  then have "env_remove name es = xs @ ys" by (simp add: env_remove_def takeWhile_append dropWhile_append)
  then show ?thesis using hit s by blast
qed

lemma esize_remove: "esize (env_remove name es) \<le> esize es"
  by (cases rule: env_remove_cases [of name es]) auto

lemma env_remove_in_place:
  assumes at: "env_at m d es" and n: "name_ok name"
  shows "\<exists>env nxt old m'. setenv_find m d name d = Some (env, nxt, old) \<and>
    (if old \<noteq> None then env_delete m d env nxt else Some m) = Some m' \<and>
    env_at m' d (env_remove name es) \<and> same_outside d (esize es + 1) m m' \<and> (old = None \<longleftrightarrow> env_lookup name es = None)"
proof (cases rule: env_remove_cases [of name es])
  case miss
  then have "env_lookup name es = None" by (auto simp: env_lookup_def find_None_iff)
  then show ?thesis
    using setenv_find_miss [of m d es name] at n miss by (auto simp: env_at_def same_outside_def)
next
  case (hit xs e ys)
  let ?m = "mem_put m (d + esize xs) (enc ys @ [NUL] @ (if xs = [] \<and> ys = [] then [NUL] else []))"
  have s: "strs m d (xs @ e # ys)" "m (d + esize (xs @ e # ys)) = NUL" using at hit(1) by (simp_all add: env_at_def)
  obtain v where v: "setenv_find m d name d = Some (d + esize xs, d + esize xs + length e, Some v)"
    using setenv_find_hit [OF s(1) n hit(2,3)] by blast
  have look: "env_lookup name es \<noteq> None" using hit(1,3) by (auto simp: env_lookup_def find_None_iff)
  have e: "e \<noteq> []" using s(1) entry_ok_ne by (auto simp: strs_append)
  have "strs ?m d xs = strs m d xs" by (intro strs_cong) (simp add: mem_put_outside)
  moreover have "list_all entry_ok ys" using strs_entry_ok [OF s(1)] by (simp add: list_all_iff)
  ultimately have "strs ?m d (xs @ ys)"
    using s(1) strs_enc [of ys m "d + esize xs"] by (simp add: strs_append)
  moreover have "?m (d + esize (xs @ ys)) = NUL"
    using mem_put_inside [of "esize ys" "enc ys @ [NUL] @ (if xs = [] \<and> ys = [] then [NUL] else [])" m "d + esize xs"]
    by (simp add: add.assoc nth_append)
  moreover have "?m (d + 1) = NUL" if "xs = []" "ys = []"
    using that by (simp add: enc_def mem_put_Cons)
  ultimately have "env_at ?m d (env_remove name es)" using hit(4) by (auto simp: env_at_def)
  moreover have "same_outside d (esize es + 1) m ?m"
    using e unfolding hit(1) by (cases e) (auto simp: same_outside_def mem_put_outside)
  ultimately show ?thesis using v env_delete_ok [OF s] look by simp
qed

lemma env_append_in_place:
  assumes at: "env_at m d es" and v: "vals \<noteq> []" and ok: "entry_ok (name @ join_args CHR ''='' vals)"
  defines "entry \<equiv> name @ join_args CHR ''='' vals"
  shows "\<exists>e. env_end m d = Some e \<and> (if e > d then e + 1 else e) = d + esize es \<and>
    env_at (env_append m (d + esize es) name vals) d (es @ [entry]) \<and>
    same_outside d (esize es + length entry + 2) m (env_append m (d + esize es) name vals)"
proof -
  let ?m = "env_append m (d + esize es) name vals"
  have m: "?m = mem_put m (d + esize es) (entry @ [NUL, NUL])"
    by (simp add: env_append_eq [OF v] entry_def)
  have "\<exists>e. env_end m d = Some e \<and> (if e > d then e + 1 else e) = d + esize es"
  proof (cases es)
    case Nil
    then show ?thesis using at by (subst env_end.simps) (simp add: env_at_def)
  next
    case (Cons e es')
    then have "2 \<le> esize es" using at entry_ok_ne [of e] by (cases e) (auto simp: env_at_def)
    then show ?thesis using env_end_ok [of m d es] at Cons by (auto simp: env_at_def)
  qed
  moreover have "strs ?m d es = strs m d es" by (intro strs_cong) (simp add: m mem_put_outside)
  moreover have "cstr ?m (d + esize es) entry"
  proof -
    have "?m = mem_put (mem_put m (d + esize es) (entry @ [NUL])) (d + esize es + length (entry @ [NUL])) [NUL]"
      unfolding m using mem_put_append [of m "d + esize es" "entry @ [NUL]" "[NUL]"] by simp
    moreover have "NUL \<notin> set entry" using ok by (simp add: entry_ok_def entry_def)
    ultimately show ?thesis using cstr_mem_put [of entry m "d + esize es"] by (simp add: cstr_mem_put_disjoint)
  qed
  moreover have "?m (d + esize es + Suc (length entry)) = NUL"
    using mem_put_inside [of "Suc (length entry)" "entry @ [NUL, NUL]" m "d + esize es"] by (simp add: m nth_append)
  ultimately show ?thesis
    using at ok by (auto simp: env_at_def strs_append same_outside_def m mem_put_outside entry_def add.assoc)
qed


subsection \<open>The commands\<close>

text \<open>Names without a special role in \<^verbatim>\<open>_do_setenv\<close>.\<close>

definition plain_name :: "string \<Rightarrow> bool" where
  "plain_name name \<longleftrightarrow> name_ok name \<and> console_file name = None \<and> name \<noteq> ''baudrate''"

lemma getenv_inside:
  assumes "env_ok s es" "name_ok name"
  shows "case env_lookup name es of
      None \<Rightarrow> getenv s name = Some None
    | Some v \<Rightarrow> \<exists>a. getenv s name = Some (Some a) \<and> cstr (emem s) a v \<and> env_data s \<le> a \<and> a + length v < env_data s + esize es"
proof -
  have e: "strs (emem s) (env_data s + 0) es" "emem s (env_data s + 0 + esize es) = NUL"
    "0 + esize es \<le> CONFIG_ENV_SIZE" "env_get_addr s = (\<lambda>i. env_data s + i)"
    using assms(1) by (auto simp: env_ok_def env_at_def ENV_SIZE_def env_get_addr_def)
  show ?thesis
    using getenv_loop_ok [OF e(1-3) assms(2)]
    by (cases "env_lookup name es") (auto simp: getenv_def env_get_char_eq [OF assms(1)] e(4))
qed

lemma getenv_ok:
  assumes "env_ok s es" "name_ok name"
  shows "case env_lookup name es of
      None \<Rightarrow> getenv s name = Some None
    | Some v \<Rightarrow> \<exists>a. getenv s name = Some (Some a) \<and> cstr (emem s) a v"
  using getenv_inside [OF assms] by (auto split: option.splits)

lemma setenv_step:
  assumes ok: "env_ok s es" and n: "plain_name name"
  shows "\<exists>m'. env_at m' (env_data s) (env_remove name es) \<and> same_outside (env_data s) (esize es + 1) (emem s) m' \<and>
    (\<exists>env nxt old. setenv_find (emem s) (env_data s) name (env_data s) = Some (env, nxt, old) \<and>
       (if old \<noteq> None then env_delete (emem s) (env_data s) env nxt else Some (emem s)) = Some m') \<and>
    do_setenv_raw ca s ([cmd, name] @ vals) =
      (let s3 = s\<lparr> env_id := env_id s + 1, emem := m' \<rparr>
       in if vals = [] then Some (env_crc_update s3, 0)
          else if ENV_SIZE < esize (env_remove name es) + length (name @ join_args CHR ''='' vals) + 2
          then Some (puts (''## Error: environment overflow, '' @ quoted name @ '' deleted'' @ nl) s3, 1)
          else Some (setenv_effects (env_crc_update
                 (s3\<lparr> emem := env_append m' (env_data s + esize (env_remove name es)) name vals \<rparr>)) ([cmd, name] @ vals), 0))"
proof -
  let ?d = "env_data s"
  have at: "env_at (emem s) ?d es" and d: "env_get_addr s 0 = ?d"
    using ok by (simp_all add: env_ok_def env_get_addr_def)
  have nz: "(?d = NULL) = False" by (simp add: env_data_def ENV_HEADER_SIZE_def)
  have n': "name_ok name" "console_file name = None" "name \<noteq> ''baudrate''" "CHR ''='' \<notin> set name"
    using n by (auto simp: plain_name_def name_ok_def)
  obtain env nxt old m' where m': "setenv_find (emem s) ?d name ?d = Some (env, nxt, old)"
    "(if old \<noteq> None then env_delete (emem s) ?d env nxt else Some (emem s)) = Some m'"
    "env_at m' ?d (env_remove name es)" "same_outside ?d (esize es + 1) (emem s) m'"
    using env_remove_in_place [OF at n'(1)] by blast
  obtain e where e: "env_end m' ?d = Some e" "(if e > ?d then e + 1 else e) = ?d + esize (env_remove name es)"
    using env_append_in_place [OF m'(3), of "[[]]" "[]"] by (auto simp: entry_ok_def join_args_def)
  have len: "vals \<noteq> [] \<Longrightarrow> length name + 2 + sum_list (map (\<lambda>v. length v + 1) vals) = length (name @ join_args CHR ''='' vals) + 2"
    by (simp add: join_args_length)
  have "do_setenv_raw ca s ([cmd, name] @ vals) =
      (let s3 = s\<lparr> env_id := env_id s + 1, emem := m' \<rparr>
       in if vals = [] then Some (env_crc_update s3, 0)
          else do { e \<leftarrow> env_end m' ?d;
            let env' = (if e > ?d then e + 1 else e) in
            if ?d + ENV_SIZE < env' + (length name + 2 + sum_list (map (\<lambda>v. length v + 1) vals))
            then Some (puts (''## Error: environment overflow, '' @ quoted name @ '' deleted'' @ nl) s3, 1)
            else Some (setenv_effects (env_crc_update (s3\<lparr> emem := env_append m' env' name vals \<rparr>)) ([cmd, name] @ vals), 0) })"
  proof (cases old)
    case None
    then have "m' = emem s" using m'(2) by simp
    then show ?thesis using m'(1) None n' unfolding do_setenv_raw_def d Let_def nz if_False by (cases vals) (simp_all add: Let_def numeral_2_eq_2 cong: if_cong)
  next
    case (Some v)
    then show ?thesis using m'(1,2) n' unfolding do_setenv_raw_def d Let_def nz if_False by (cases vals) (simp_all add: Let_def numeral_2_eq_2 cong: if_cong)
  qed
  then have "do_setenv_raw ca s ([cmd, name] @ vals) =
      (if vals = [] then Some (env_crc_update (s\<lparr> env_id := env_id s + 1, emem := m' \<rparr>), 0)
       else if ?d + ENV_SIZE < ?d + esize (env_remove name es) + (length name + 2 + sum_list (map (\<lambda>v. length v + 1) vals))
       then Some (puts (''## Error: environment overflow, '' @ quoted name @ '' deleted'' @ nl)
                   (s\<lparr> env_id := env_id s + 1, emem := m' \<rparr>), 1)
       else Some (setenv_effects (env_crc_update ((s\<lparr> env_id := env_id s + 1, emem := m' \<rparr>)
              \<lparr> emem := env_append m' (?d + esize (env_remove name es)) name vals \<rparr>)) ([cmd, name] @ vals), 0))"
    unfolding Let_def e(1) Option.bind.bind_lunit e(2) .
  moreover have "\<exists>env nxt old. setenv_find (emem s) ?d name ?d = Some (env, nxt, old) \<and>
      (if old \<noteq> None then env_delete (emem s) ?d env nxt else Some (emem s)) = Some m'"
    using m'(1,2) by blast
  ultimately show ?thesis using m'(3,4) len
    by (intro exI [of _ m'] conjI) (simp_all add: Let_def cong: if_cong)
qed


lemma effects_frame:
  "emem (setenv_effects s argv) = emem s" "env_ok (setenv_effects s argv) es = env_ok s es"
  "crc_ok (setenv_effects s argv) = crc_ok s" "env_ptr (setenv_effects s argv) = env_ptr s"
  by (simp_all add: setenv_effects_def env_ok_def crc_ok_def env_data_def)

lemma distinct_remove:
  "distinct (map name_of es) \<Longrightarrow> distinct (map name_of (env_remove name es)) \<and> name \<notin> name_of ` set (env_remove name es)"
proof (cases rule: env_remove_cases [of name es])
  case (hit xs e ys)
  assume "distinct (map name_of es)"
  then show ?thesis using hit by auto
qed auto

lemma lookup_remove:
  "name \<notin> name_of ` set (env_remove name es) \<Longrightarrow>
   env_lookup k (env_remove name es) = (if k = name then None else env_lookup k es)"
proof (cases rule: env_remove_cases [of name es])
  case (hit xs e ys)
  assume a: "name \<notin> name_of ` set (env_remove name es)"
  have "find (\<lambda>e. name_of e = name) (xs @ ys) = None" using a hit(4) by (auto simp: find_None_iff)
  moreover have "find P (xs @ e # ys) = find P (xs @ ys)" if "\<not> P e" for P using that by (induction xs) auto
  ultimately show ?thesis using hit by (auto simp: env_lookup_def)
qed (auto simp: env_lookup_def find_None_iff)

lemma lookup_append:
  "env_lookup k (es @ [e]) = (case env_lookup k es of None \<Rightarrow> if name_of e = k then Some (value_of e) else None | Some v \<Rightarrow> Some v)"
  by (induction es) (auto simp: env_lookup_def)

lemma joined_entry:
  assumes "vals \<noteq> []"
  obtains v where "name @ join_args CHR ''='' vals = name @ ''='' @ v" "v = hd vals @ join_args CHR '' '' (tl vals)"
  using assms by (cases vals) (auto simp: join_args_Cons)

lemma join_args_NUL: "\<forall>v \<in> set vs. NUL \<notin> set v \<Longrightarrow> sep \<noteq> NUL \<Longrightarrow> NUL \<notin> set (join_args sep vs)"
  by (induction vs arbitrary: sep) (auto simp: join_args_Cons join_args_def [of _ "[]"])

lemma setenv_set_ok:
  assumes ok: "env_ok s es" and n: "plain_name name" and v: "vals \<noteq> []" "\<forall>v \<in> set vals. NUL \<notin> set v"
    and fits: "esize (env_remove name es) + length (name @ join_args CHR ''='' vals) + 2 \<le> ENV_SIZE"
  shows "\<exists>s'. do_setenv_raw ca s ([cmd, name] @ vals) = Some (s', 0) \<and>
    env_ok s' (env_remove name es @ [name @ join_args CHR ''='' vals]) \<and> crc_ok s' \<and>
    same_outside (env_ptr s) CONFIG_ENV_SIZE (emem s) (emem s') \<and> env_ptr s' = env_ptr s"
proof -
  let ?d = "env_data s" and ?es = "env_remove name es" and ?e = "name @ join_args CHR ''='' vals"
  obtain m' where m': "env_at m' ?d ?es" "same_outside ?d (esize es + 1) (emem s) m'"
    and call: "do_setenv_raw ca s ([cmd, name] @ vals) = Some (setenv_effects (env_crc_update
        (s\<lparr> env_id := env_id s + 1, emem := env_append m' (?d + esize ?es) name vals \<rparr>)) ([cmd, name] @ vals), 0)"
    using setenv_step [OF ok n, of ca cmd vals] v(1) fits by (auto simp: Let_def)
  let ?s = "s\<lparr> env_id := env_id s + 1, emem := env_append m' (?d + esize ?es) name vals \<rparr>"
  have n': "name_ok name" using n by (simp add: plain_name_def)
  obtain w where w: "?e = name @ ''='' @ w" using joined_entry [OF v(1)] by metis
  have ne: "name_of ?e = name" unfolding w using name_of_entry [OF n'] by blast
  have "CHR ''='' \<in> set ?e" unfolding w by simp
  then have eok: "entry_ok ?e" using n' join_args_NUL [OF v(2)] by (simp add: entry_ok_def name_ok_def)
  note app = env_append_in_place [OF m'(1) v(1) eok]
  have dist: "distinct (map name_of (?es @ [?e]))"
    using distinct_remove [of es name] ok ne by (simp add: env_ok_def)
  have d: "env_data ?s = ?d" by (simp add: env_data_def)
  have ok': "env_ok ?s (?es @ [?e])"
    using ok app dist fits unfolding env_ok_def d by (auto simp: env_data_def)
  have "esize es + 1 \<le> ENV_SIZE" using ok by (simp add: env_ok_def)
  then have frame: "same_outside ?d ENV_SIZE (emem s) (emem ?s)"
    using m'(2) app fits unfolding same_outside_def by auto
  have "same_outside (env_ptr s) CONFIG_ENV_SIZE (emem s) (emem (env_crc_update ?s))"
    using frame crc_update_data [of _ ?s] unfolding same_outside_def d
    by (auto simp: env_data_def ENV_SIZE_def ENV_HEADER_SIZE_def CONFIG_ENV_SIZE_def)
  moreover have "env_ptr (env_crc_update ?s) = env_ptr s" by (simp add: env_crc_update_def)
  ultimately show ?thesis using call ok' crc_update_ok [of ?s] by (auto simp: effects_frame env_ok_crc_update)
qed

lemma setenv_delete_ok:
  assumes ok: "env_ok s es" and n: "plain_name name"
  shows "\<exists>s'. do_setenv_raw ca s [cmd, name] = Some (s', 0) \<and> env_ok s' (env_remove name es) \<and> crc_ok s' \<and>
    same_outside (env_ptr s) CONFIG_ENV_SIZE (emem s) (emem s')"
proof -
  let ?d = "env_data s" and ?es = "env_remove name es"
  obtain m' where m': "env_at m' ?d ?es" "same_outside ?d (esize es + 1) (emem s) m'"
    and call: "do_setenv_raw ca s [cmd, name] = Some (env_crc_update (s\<lparr> env_id := env_id s + 1, emem := m' \<rparr>), 0)"
    using setenv_step [OF ok n, of ca cmd "[]"] by (auto simp: Let_def)
  let ?s = "s\<lparr> env_id := env_id s + 1, emem := m' \<rparr>"
  have "esize ?es + 1 \<le> ENV_SIZE" using esize_remove [of name es] ok by (simp add: env_ok_def)
  then have ok': "env_ok ?s ?es"
    using ok m'(1) distinct_remove [of es name] by (auto simp: env_ok_def env_data_def)
  have "same_outside (env_ptr s) CONFIG_ENV_SIZE (emem s) (emem (env_crc_update ?s))"
    using m'(2) ok crc_update_data [of _ ?s] unfolding same_outside_def
    by (auto simp: env_ok_def env_data_def ENV_SIZE_def ENV_HEADER_SIZE_def CONFIG_ENV_SIZE_def)
  then show ?thesis using call ok' crc_update_ok [of ?s] by (auto simp: env_ok_crc_update)
qed


subsection \<open>Copying and printing\<close>

lemma getenv_r_copy_eq:
  "cstr m (d + val) v \<Longrightarrow> n \<le> len \<Longrightarrow>
   getenv_r_copy (\<lambda>i. m (d + i)) val len n =
     (if n + length v < len then (v @ [NUL], n + length v + 1) else (take (len - n) v, len + 1))"
proof (induction v arbitrary: val n)
  case Nil
  then show ?case by (subst getenv_r_copy.simps) auto
next
  case (Cons c v)
  have c: "m (d + val) = c" "c \<noteq> NUL" "cstr m (d + Suc val) v" using Cons.prems(1) by simp_all
  show ?case
  proof (cases "n < len")
    case True
    then obtain k where k: "len - n = Suc k" "len - Suc n = k" by (cases "len - n") auto
    then show ?thesis using True c Cons.IH [OF c(3), of "Suc n"] by (subst getenv_r_copy.simps) simp
  next
    case False
    then show ?thesis using Cons.prems(2) by (subst getenv_r_copy.simps) simp
  qed
qed

lemma buf_text_eq: "NUL \<notin> set b \<Longrightarrow> buf_text b = b \<and> buf_text (b @ [NUL]) = b"
  by (auto simp: buf_text_def takeWhile_eq_all_conv takeWhile_tail)

lemma print_entry_eq:
  "cstr m (d + i) e \<Longrightarrow> length b < 16 \<Longrightarrow> NUL \<notin> set b \<Longrightarrow>
   print_entry (\<lambda>i. m (d + i)) show i b out = Some (i + length e + 1, if show then out @ b @ e @ nl else out)"
proof (induction e arbitrary: i b out)
  case Nil
  then show ?case using buf_text_eq [of b] by (subst print_entry.simps) (auto simp: Let_def)
next
  case (Cons c e)
  have c: "m (d + i) = c" "c \<noteq> NUL" "cstr m (d + Suc i) e" using Cons.prems(1) by simp_all
  have bc: "NUL \<notin> set (b @ [c])" using Cons.prems(3) c(2) by simp
  show ?case
    using c Cons.IH [OF c(3), of "if length (b @ [c]) = 16 then [] else b @ [c]"] buf_text_eq [OF bc] Cons.prems bc
    by (subst print_entry.simps) (auto simp: Let_def)
qed

lemma printenv_all_ok:
  "strs m (d + i) es \<Longrightarrow> m (d + i + esize es) = NUL \<Longrightarrow>
   printenv_loop (\<lambda>i. m (d + i)) name (replicate (length es) False @ brk) 1 i out =
     Some (out @ concat (map (\<lambda>e. e @ nl) es), int (i + esize es), brk)"
proof (induction es arbitrary: i out)
  case (Cons e es)
  have e: "cstr m (d + i) e" "entry_ok e" using Cons.prems(1) by simp_all
  have nz: "m (d + i) \<noteq> NUL" using e entry_ok_ne [of e] by (cases e) auto
  show ?case
    using nz print_entry_eq [OF e(1), of "[]"] Cons.IH [of "i + length e + 1"] Cons.prems
    by (subst printenv_loop.simps) (simp add: add.assoc del: printenv_loop.simps)
qed simp

lemma printenv_one_ok:
  "strs m (d + i) es \<Longrightarrow> m (d + i + esize es) = NUL \<Longrightarrow> name_ok name \<Longrightarrow>
   \<exists>brk'. printenv_loop (\<lambda>i. m (d + i)) name (replicate (length es) False) 2 i out =
     Some (case find (\<lambda>e. name_of e = name) es of Some e \<Rightarrow> (out @ e @ nl, 0, brk') | None \<Rightarrow> (out, int (i + esize es), brk'))"
proof (induction es arbitrary: i out)
  case (Cons e es)
  have e: "cstr m (d + i) e" "entry_ok e" using Cons.prems(1) by simp_all
  have nz: "m (d + i) \<noteq> NUL" using e entry_ok_ne [of e] by (cases e) auto
  show ?case
  proof (cases "name_of e = name")
    case True
    then show ?thesis
      using nz print_entry_eq [OF e(1), of "[]"] envmatch_cstr [OF e Cons.prems(3)]
      by (subst printenv_loop.simps) simp
  next
    case False
    have "printenv_loop (\<lambda>i. m (d + i)) name (replicate (length (e # es)) False) 2 i out =
        printenv_loop (\<lambda>i. m (d + i)) name (replicate (length es) False) 2 (i + length e + 1) out"
      using nz print_entry_eq [OF e(1), of "[]" False] envmatch_cstr [OF e Cons.prems(3)] False
      by (subst printenv_loop.simps) (simp del: printenv_loop.simps)
    moreover have "i + length e + 1 + esize es = i + esize (e # es)" by simp
    ultimately show ?thesis using False Cons.IH [of "i + length e + 1" out] Cons.prems
      by (simp only: find.simps if_False) (simp add: add.assoc del: printenv_loop.simps)
  qed
qed simp


lemma env_ok_puts [simp]: "env_ok (puts t s) es = env_ok s es" "emem (puts t s) = emem s" "env_ptr (puts t s) = env_ptr s"
  by (simp_all add: env_ok_def puts_def env_data_def)

text \<open>The environment stays well formed when nothing in its place changes.\<close>

lemma env_ok_cong:
  assumes "env_ok s es" "\<And>a. env_ptr s \<le> a \<Longrightarrow> a < env_ptr s + CONFIG_ENV_SIZE \<Longrightarrow> m a = emem s a"
  shows "env_ok (s\<lparr> emem := m \<rparr>) es"
proof -
  have "esize es + 1 \<le> ENV_SIZE" using assms(1) by (simp add: env_ok_def)
  then have "max 1 (esize es) < ENV_SIZE" by (simp add: ENV_SIZE_def CONFIG_ENV_SIZE_def ENV_HEADER_SIZE_def)
  then have "env_at m (env_data s) es = env_at (emem s) (env_data s) es"
    by (intro env_at_cong assms(2)) (auto simp: env_data_def ENV_SIZE_def CONFIG_ENV_SIZE_def ENV_HEADER_SIZE_def)
  then show ?thesis using assms(1) by (simp add: env_ok_def env_data_def)
qed

text \<open>The commands that load a file store its size in hexadecimal.\<close>

lemma hex_digits: "number n 16 (-1) (-1) 0 \<noteq> []" "NUL \<notin> set (number n 16 (-1) (-1) 0)"
proof -
  have d: "digit_of 16 0 k \<noteq> NUL" if "k < 16" for k
  proof -
    have "or_case c 0 = c" for c by (simp add: or_case_def)
    moreover have "''0123456789ABCDEF'' ! k \<in> set ''0123456789ABCDEF''" using that by (intro nth_mem) simp
    ultimately show ?thesis by (auto simp: digit_of_def)
  qed
  have "NUL \<notin> set (rad_rev (digit_of 16 0) 16 k)" for k
  proof (induction k rule: less_induct)
    case (less k)
    then show ?case using d [of "k mod 16"] d [of k] by (subst rad_rev.simps) auto
  qed
  then show "number n 16 (-1) (-1) 0 \<noteq> []" "NUL \<notin> set (number n 16 (-1) (-1) 0)"
    by (simp_all add: number_plain number_tmp_rad(1))
qed

lemma setenv_filesize:
  assumes "env_ok s es" "esize (env_remove ''filesize'' es) + length (''filesize='' @ number n 16 (-1) (-1) 0) + 2 \<le> ENV_SIZE"
  shows "\<exists>s'. setenv ca s ''filesize'' (Some (number n 16 (-1) (-1) 0)) = Some (s', 0) \<and>
    env_ok s' (env_remove ''filesize'' es @ [''filesize='' @ number n 16 (-1) (-1) 0]) \<and> crc_ok s' \<and>
    same_outside (env_ptr s) CONFIG_ENV_SIZE (emem s) (emem s') \<and> env_ptr s' = env_ptr s"
proof -
  have j: "join_args c [v] = c # v" for c v by (simp add: join_args_def)
  have "plain_name ''filesize''" by (simp add: plain_name_def name_ok_def console_file_def)
  then show ?thesis
    using setenv_set_ok [OF assms(1), of "''filesize''" "[number n 16 (-1) (-1) 0]" ca "''setenv''"] assms(2) hex_digits by (simp add: j setenv_def)
qed

section \<open>Variables as an interface\<close>

text \<open>What the command line relies on: a partial function from names to values, changed at one name
  by each store and erasure. \<open>good\<close> are the names the laws speak about, \<open>storable\<close> the values.\<close>

locale var_store =
  fixes invar :: "'s \<Rightarrow> bool" and lookup :: "'s \<Rightarrow> string \<Rightarrow> string option"
    and store :: "'s \<Rightarrow> string \<Rightarrow> string \<Rightarrow> 's option" and erase :: "'s \<Rightarrow> string \<Rightarrow> 's option"
    and good :: "string \<Rightarrow> bool" and storable :: "string \<Rightarrow> bool"
  assumes store_law: "invar s \<Longrightarrow> good n \<Longrightarrow> storable v \<Longrightarrow> store s n v = Some s' \<Longrightarrow>
      invar s' \<and> lookup s' n = Some v \<and> (\<forall>k. good k \<and> k \<noteq> n \<longrightarrow> lookup s' k = lookup s k)"
    and erase_law: "invar s \<Longrightarrow> good n \<Longrightarrow>
      \<exists>s'. erase s n = Some s' \<and> invar s' \<and> lookup s' n = None \<and> (\<forall>k. good k \<and> k \<noteq> n \<longrightarrow> lookup s' k = lookup s k)"
begin

text \<open>A script of assignments, as the default settings or a sequence of commands makes them.\<close>

fun store_all :: "'s \<Rightarrow> (string \<times> string) list \<Rightarrow> 's option" where
  "store_all s [] = Some s"
| "store_all s ((n, v) # as) = Option.bind (store s n v) (\<lambda>s'. store_all s' as)"

lemma store_all_last_wins:
  "invar s \<Longrightarrow> \<forall>(n, v) \<in> set as. good n \<and> storable v \<Longrightarrow> store_all s as = Some s' \<Longrightarrow>
   invar s' \<and> (\<forall>k. good k \<longrightarrow> lookup s' k = (case map_of (rev as) k of Some v \<Rightarrow> Some v | None \<Rightarrow> lookup s k))"
proof (induction as arbitrary: s)
  case (Cons a as)
  obtain n v where a: "a = (n, v)" by (cases a)
  obtain s1 where s1: "store s n v = Some s1" "store_all s1 as = Some s'"
    using Cons.prems(3) by (cases "store s n v") (auto simp: a)
  have law: "invar s1 \<and> lookup s1 n = Some v \<and> (\<forall>k. good k \<and> k \<noteq> n \<longrightarrow> lookup s1 k = lookup s k)"
    using store_law [OF Cons.prems(1) _ _ s1(1)] Cons.prems(2) by (auto simp: a)
  then have "invar s' \<and> (\<forall>k. good k \<longrightarrow> lookup s' k = (case map_of (rev as) k of Some v \<Rightarrow> Some v | None \<Rightarrow> lookup s1 k))"
    using Cons.IH [OF _ _ s1(2)] Cons.prems(2) by auto
  then show ?case using law by (auto simp: a map_add_def split: option.splits)
qed simp

lemma store_erase:
  assumes "invar s" "good n" "storable v" "store s n v = Some s1"
  shows "\<exists>s2. erase s1 n = Some s2 \<and> lookup s2 n = None \<and> (\<forall>k. good k \<and> k \<noteq> n \<longrightarrow> lookup s2 k = lookup s k)"
  using store_law [OF assms] erase_law [of s1 n] assms(2) by fastforce

end

text \<open>The environment provides it: the value of a variable is the string at the address \<^verbatim>\<open>getenv\<close>
  returns, and \<^verbatim>\<open>setenv\<close> with a null value erases.\<close>

definition str_at :: "mem \<Rightarrow> addr \<Rightarrow> string option" where
  "str_at m a = map_option (\<lambda>e. mem_get m a (e - a)) (scan_nul m a)"

definition env_value :: "env_state \<Rightarrow> string \<Rightarrow> string option" where
  "env_value s name = (case getenv s name of Some (Some a) \<Rightarrow> str_at (emem s) a | _ \<Rightarrow> None)"

definition env_store :: "env_state \<Rightarrow> string \<Rightarrow> string \<Rightarrow> env_state option" where
  "env_store s name v =
     (case setenv (\<lambda>_ _. False) s name (Some v) of Some (s', rc) \<Rightarrow> if rc = 0 then Some s' else None | None \<Rightarrow> None)"

definition env_erase :: "env_state \<Rightarrow> string \<Rightarrow> env_state option" where
  "env_erase s name =
     (case setenv (\<lambda>_ _. False) s name None of Some (s', rc) \<Rightarrow> if rc = 0 then Some s' else None | None \<Rightarrow> None)"

lemma str_at_cstr: "cstr m a v \<Longrightarrow> str_at m a = Some v"
proof -
  assume "cstr m a v"
  moreover from this have "mem_get m a (length v) = v"
    using mem_get_snoc [of m a "length v"] by (simp add: cstr_iff_mem_get)
  ultimately show ?thesis by (simp add: str_at_def scan_nul_cstr)
qed

lemma env_value_ok: "env_ok s es \<Longrightarrow> name_ok name \<Longrightarrow> env_value s name = env_lookup name es"
  using getenv_ok [of s es name] by (cases "env_lookup name es") (auto simp: env_value_def str_at_cstr)

lemma env_store_ok:
  assumes ok: "env_ok s es" and n: "plain_name name" and v: "v \<noteq> []" "NUL \<notin> set v"
  shows "case env_store s name v of
      Some s' \<Rightarrow> env_ok s' (env_remove name es @ [name @ ''='' @ v]) \<and> crc_ok s'
    | None \<Rightarrow> ENV_SIZE < esize (env_remove name es) + length (name @ ''='' @ v) + 2"
proof -
  have j: "join_args CHR ''='' [v] = ''='' @ v" by (simp add: join_args_def)
  show ?thesis
  proof (cases "ENV_SIZE < esize (env_remove name es) + length (name @ ''='' @ v) + 2")
    case True
    then have "env_store s name v = None"
      using setenv_step [OF ok n, of "\<lambda>_ _. False" "''setenv''" "[v]"] v(1)
      by (auto simp: env_store_def setenv_def Let_def j)
    then show ?thesis using True by simp
  next
    case False
    then obtain s' where "do_setenv_raw (\<lambda>_ _. False) s ([''setenv'', name] @ [v]) = Some (s', 0)"
      "env_ok s' (env_remove name es @ [name @ ''='' @ v])" "crc_ok s'"
      using setenv_set_ok [OF ok n, of "[v]" "\<lambda>_ _. False" "''setenv''"] v by (auto simp: j)
    then show ?thesis using v(1) by (simp add: env_store_def setenv_def)
  qed
qed

interpretation env: var_store "\<lambda>s. \<exists>es. env_ok s es" env_value env_store env_erase plain_name
  "\<lambda>v. v \<noteq> [] \<and> NUL \<notin> set v"
proof
  fix s s' n v
  assume "\<exists>es. env_ok s es" and n: "plain_name n" and v: "v \<noteq> [] \<and> NUL \<notin> set v" and st: "env_store s n v = Some s'"
  then obtain es where es: "env_ok s es" by blast
  have s': "env_ok s' (env_remove n es @ [n @ ''='' @ v])" using env_store_ok [OF es n, of v] v st by simp
  have nk: "plain_name k \<Longrightarrow> name_ok k" for k by (simp add: plain_name_def)
  have miss: "n \<notin> name_of ` set (env_remove n es)" using distinct_remove [of es n] es by (simp add: env_ok_def)
  have e: "name_of (n @ ''='' @ v) = n" "value_of (n @ ''='' @ v) = v" using name_of_entry [OF nk [OF n]] by auto
  have look: "env_lookup k (env_remove n es @ [n @ ''='' @ v]) = (if k = n then Some v else env_lookup k es)" for k
    using lookup_remove [OF miss, of k] e by (cases "env_lookup k es") (auto simp: lookup_append)
  show "(\<exists>es. env_ok s' es) \<and> env_value s' n = Some v \<and> (\<forall>k. plain_name k \<and> k \<noteq> n \<longrightarrow> env_value s' k = env_value s k)"
    using s' es nk n by (auto simp: env_value_ok look [simplified])
next
  fix s n
  assume "\<exists>es. env_ok s es" and n: "plain_name n"
  then obtain es where es: "env_ok s es" by blast
  obtain s' where s': "do_setenv_raw (\<lambda>_ _. False) s [''setenv'', n] = Some (s', 0)" "env_ok s' (env_remove n es)"
    using setenv_delete_ok [OF es n] by blast
  have nk: "plain_name k \<Longrightarrow> name_ok k" for k by (simp add: plain_name_def)
  have miss: "n \<notin> name_of ` set (env_remove n es)" using distinct_remove [of es n] es by (simp add: env_ok_def)
  show "\<exists>s'. env_erase s n = Some s' \<and> (\<exists>es. env_ok s' es) \<and> env_value s' n = None \<and>
      (\<forall>k. plain_name k \<and> k \<noteq> n \<longrightarrow> env_value s' k = env_value s k)"
    using s' es nk n by (auto simp: env_erase_def setenv_def env_value_ok lookup_remove [OF miss])
qed


section \<open>Properties\<close>

definition sample_env :: env_state where
  "sample_env = \<lparr> emem = mem_put (\<lambda>_. NUL) 104 (enc [''bootdelay=3'', ''a=1'']), env_ptr = 100, env_addr = 104,
     env_valid = 1, gd_reloc = True, default_environment = 0, default_size = 1, env_id = 1, gd_baudrate = 115200,
     load_addr = 0, bi_ip_addr = 0, con_in = [], con_out = [] \<rparr>"

lemma sample_env_ok: "env_ok sample_env [''bootdelay=3'', ''a=1'']"
proof -
  let ?es = "[''bootdelay=3'', ''a=1'']"
  have "strs (mem_put (\<lambda>_. NUL) 104 (enc ?es @ [])) 104 ?es" by (rule strs_enc) (simp add: entry_ok_def)
  moreover have "mem_put (\<lambda>_. NUL) 104 (enc ?es) (104 + esize ?es) = NUL" by (simp add: mem_put_outside enc_def)
  ultimately show ?thesis
    by (simp add: env_ok_def env_at_def sample_env_def env_data_def ENV_HEADER_SIZE_def ENV_SIZE_def CONFIG_ENV_SIZE_def
        name_of_def)
qed

text \<open>\<^verbatim>\<open>getenv\<close> on a well-formed environment always returns: the address of the value when the
  variable is set, and NULL when it is not.\<close>

theorem getenv_correct:
  assumes "env_ok s es" "name_ok name"
  shows "case env_lookup name es of
      None \<Rightarrow> getenv s name = Some None
    | Some v \<Rightarrow> \<exists>a. getenv s name = Some (Some a) \<and> cstr (emem s) a v"
  by (rule getenv_ok [OF assms])

theorem getenv_correct_witness: "\<exists>a. getenv sample_env ''a'' = Some (Some a) \<and> cstr (emem sample_env) a ''1''"
  using getenv_correct [OF sample_env_ok, of "''a''"] by (simp add: env_lookup_def name_of_def value_of_def name_ok_def)

text \<open>C5: Setting a variable that fits removes its old entry, appends the new one at the end, leaves a
  well-formed environment whose CRC matches, and writes nothing outside the environment.\<close>

theorem setenv_correct:
  assumes "env_ok s es" "plain_name name" "vals \<noteq> []" "\<forall>v \<in> set vals. NUL \<notin> set v"
    and "esize (env_remove name es) + length (name @ join_args CHR ''='' vals) + 2 \<le> ENV_SIZE"
  shows "\<exists>s'. do_setenv_raw ca s ([cmd, name] @ vals) = Some (s', 0) \<and>
    env_ok s' (env_remove name es @ [name @ join_args CHR ''='' vals]) \<and> crc_ok s' \<and>
    same_outside (env_ptr s) CONFIG_ENV_SIZE (emem s) (emem s')"
  using setenv_set_ok [OF assms] by blast

theorem setenv_correct_witness:
  "\<exists>s'. do_setenv_raw (\<lambda>_ _. True) sample_env [''setenv'', ''bootdelay'', ''5'', ''x''] = Some (s', 0) \<and>
     env_ok s' [''a=1'', ''bootdelay=5 x''] \<and> crc_ok s'"
  using setenv_correct [OF sample_env_ok, of "''bootdelay''" "[''5'', ''x'']" "\<lambda>_ _. True" "''setenv''"]
  by (auto simp: plain_name_def name_ok_def console_file_def env_remove_def name_of_def join_args_def
      ENV_SIZE_def CONFIG_ENV_SIZE_def ENV_HEADER_SIZE_def)

text \<open>Deleting a variable removes exactly its entry, in place, and updates the CRC; deleting one
  that is not set changes no entry.\<close>

theorem setenv_delete_correct:
  assumes "env_ok s es" "plain_name name"
  shows "\<exists>s'. do_setenv_raw ca s [cmd, name] = Some (s', 0) \<and> env_ok s' (env_remove name es) \<and> crc_ok s' \<and>
    same_outside (env_ptr s) CONFIG_ENV_SIZE (emem s) (emem s')"
  by (rule setenv_delete_ok [OF assms])

theorem setenv_delete_correct_witness:
  "\<exists>s'. do_setenv_raw (\<lambda>_ _. True) sample_env [''setenv'', ''bootdelay''] = Some (s', 0) \<and> env_ok s' [''a=1''] \<and> crc_ok s'"
  using setenv_delete_correct [OF sample_env_ok, of "''bootdelay''" "\<lambda>_ _. True" "''setenv''"]
  by (auto simp: plain_name_def name_ok_def console_file_def env_remove_def name_of_def)

text \<open>C6: A variable reads back as what was last stored in it, whatever other variables are set in
  between, and every other variable keeps its value.\<close>

theorem setenv_getenv_roundtrip:
  assumes "env_ok s es" "plain_name name" "v \<noteq> []" "NUL \<notin> set v" "env_store s name v = Some s'"
  shows "env_value s' name = Some v \<and> (\<forall>k. plain_name k \<and> k \<noteq> name \<longrightarrow> env_value s' k = env_value s k)"
  using env.store_law [of s name v s'] assms by blast

theorem setenv_getenv_roundtrip_witness:
  "\<exists>s'. env_store sample_env ''x'' ''hello'' = Some s' \<and> env_value s' ''x'' = Some ''hello''"
proof -
  have p: "plain_name ''x''" by (simp add: plain_name_def name_ok_def console_file_def)
  obtain s' where s': "env_store sample_env ''x'' ''hello'' = Some s'"
    using env_store_ok [OF sample_env_ok p, of "''hello''"]
    by (cases "env_store sample_env ''x'' ''hello''")
      (auto simp: env_remove_def name_of_def ENV_SIZE_def CONFIG_ENV_SIZE_def ENV_HEADER_SIZE_def)
  then show ?thesis using setenv_getenv_roundtrip [OF sample_env_ok p _ _ s'] by simp
qed

text \<open>C35: When the new entry does not fit, the command fails after the old entry is gone, and the CRC
  word is not touched. Where the old entry was the last of several, the stored CRC no longer matches
  the data: a save would write an environment that the next boot rejects.\<close>

theorem setenv_overflow_breaks_crc:
  assumes "env_ok s (xs @ [e])" "xs \<noteq> []" "name_of e = name" "plain_name name" "vals \<noteq> []" "crc_ok s"
    and "ENV_SIZE < esize (env_remove name (xs @ [e])) + length (name @ join_args CHR ''='' vals) + 2"
  shows "\<exists>s'. do_setenv_raw ca s ([cmd, name] @ vals) = Some (s', 1) \<and> env_at (emem s') (env_data s) xs \<and> \<not> crc_ok s'"
proof -
  let ?d = "env_data s" and ?es = "xs @ [e]" and ?p = "env_data s + esize xs"
  have n: "name_ok name" using assms(4) by (simp add: plain_name_def)
  have at: "strs (emem s) ?d (xs @ [e])" "emem s (?d + esize (xs @ [e])) = NUL" "esize ?es + 1 \<le> ENV_SIZE"
    using assms(1) by (simp_all add: env_ok_def env_at_def)
  have xs: "\<forall>x \<in> set xs. name_of x \<noteq> name" 
  proof
    fix x assume "x \<in> set xs"
    moreover have "name_of e \<notin> name_of ` set xs" using assms(1) by (simp add: env_ok_def)
    ultimately show "name_of x \<noteq> name" using assms(3) by (metis image_eqI)
  qed
  then have rem: "env_remove name ?es = xs" using assms(3) by (simp add: env_remove_def)
  obtain v where v: "setenv_find (emem s) ?d name ?d = Some (?p, ?p + length e, Some v)"
    using setenv_find_hit [OF at(1) n xs assms(3)] by blast
  have del: "env_delete (emem s) ?d ?p (?p + length e) = Some ((emem s)(?p := NUL))"
    using env_delete_ok [OF at(1,2)] assms(2) by (simp add: enc_def mem_put_Cons)
  let ?s = "puts (''## Error: environment overflow, '' @ quoted name @ '' deleted'' @ nl)
     (s\<lparr> env_id := env_id s + 1, emem := (emem s)(?p := NUL) \<rparr>)"
  have at': "env_at ((emem s)(?p := NUL)) ?d xs" and call: "do_setenv_raw ca s ([cmd, name] @ vals) = Some (?s, 1)"
    using setenv_step [OF assms(1,4), of ca cmd vals] v del assms(5,7) rem by (auto simp: Let_def)
  have "emem s ?p \<noteq> NUL" using at(1) entry_ok_ne [of e] by (cases e) (auto simp: strs_append)
  moreover have "?p < ?d + ENV_SIZE" using at(3) by simp
  ultimately have "crc32 ((emem s)(?p := NUL)) 0 ?d ENV_SIZE \<noteq> crc32 (emem s) 0 ?d ENV_SIZE"
    using crc32s.detects_change [of "?p - ?d" "mem_get (emem s) ?d ENV_SIZE" NUL "0 XOR 0xffffffff"]
    by (simp add: crc32_eq mem_get_fun_upd xor_right_cancel)
  moreover have "load32 ((emem s)(?p := NUL)) (env_ptr s) = load32 (emem s) (env_ptr s)"
    by (simp add: load32_def env_data_def ENV_HEADER_SIZE_def)
  ultimately have "\<not> crc_ok ?s" using assms(6) by (simp add: crc_ok_def puts_def env_data_def)
  then show ?thesis using call at' by (auto simp: puts_def)
qed

theorem setenv_overflow_breaks_crc_witness:
  "\<exists>s'. do_setenv_raw (\<lambda>_ _. True) (env_crc_update sample_env) [''setenv'', ''a'', replicate 5000 CHR ''x''] = Some (s', 1) \<and>
     crc_ok (env_crc_update sample_env) \<and> \<not> crc_ok s'"
  using setenv_overflow_breaks_crc [of "env_crc_update sample_env" "[''bootdelay=3'']" "''a=1''" "''a''"
      "[replicate 5000 CHR ''x'']" "\<lambda>_ _. True" "''setenv''"] sample_env_ok crc_update_ok [of sample_env]
  by (auto simp: env_ok_crc_update plain_name_def name_ok_def console_file_def name_of_def env_remove_def join_args_def
      ENV_SIZE_def CONFIG_ENV_SIZE_def ENV_HEADER_SIZE_def)

text \<open>\<^verbatim>\<open>getenv_r\<close> copies a value and its NUL when the buffer is larger than that; when they fill
  the buffer exactly it stores one more byte, past the end; and when the value does not fit, the
  copy is cut without a NUL.\<close>

theorem getenv_r_correct:
  assumes "env_ok s es" "name_ok name" "env_lookup name es = Some v"
  shows "getenv_r s name len =
    (if length v + 1 < len then Some (int (length v) + 1, v @ [NUL])
     else if length v + 1 = len then Some (int len, v @ [NUL, NUL])
     else Some (int len + 1, take len v))"
proof -
  obtain k where k: "getenv_loop (env_get_char s) name 0 = Some (Some k)" "cstr (emem s) (env_data s + k) v"
  proof -
    have "0 + esize es \<le> CONFIG_ENV_SIZE" using assms(1) by (auto simp: env_ok_def ENV_SIZE_def)
    then show thesis using that getenv_loop_ok [of "emem s" "env_data s" 0 es name] assms
      by (auto simp: env_ok_def env_at_def env_get_char_eq [OF assms(1)])
  qed
  show ?thesis
    using getenv_r_copy_eq [OF k(2), of 0 len] k(1) by (simp add: getenv_r_def env_get_char_eq [OF assms(1)])
qed

theorem getenv_r_correct_witness:
  "getenv_r sample_env ''a'' 2 = Some (2, [CHR ''1'', NUL, NUL]) \<and> getenv_r sample_env ''a'' 8 = Some (2, [CHR ''1'', NUL])"
  using getenv_r_correct [OF sample_env_ok, of "''a''" "''1''"]
  by (simp add: env_lookup_def name_of_def value_of_def name_ok_def)

text \<open>\<^verbatim>\<open>printenv\<close> without arguments shows every entry on its own line, complete although it goes
  through a 16-character buffer, and returns the size in use.\<close>

theorem printenv_correct:
  assumes "env_ok s es"
  shows "printenv s (replicate (length es) False) [] 1 = Some (concat (map (\<lambda>e. e @ nl) es), int (esize es), [])"
  using printenv_all_ok [of "emem s" "env_data s" 0 es "[]" "[]" "[]"] assms
  by (simp add: printenv_def env_get_char_eq [OF assms] env_ok_def env_at_def del: printenv_loop.simps)

theorem printenv_correct_witness:
  "printenv sample_env [False, False] [] 1 = Some (''bootdelay=3'' @ nl @ ''a=1'' @ nl, 16, [])"
  using printenv_correct [OF sample_env_ok] by (simp add: numeral_2_eq_2)

end
