(* ===== verification/Command.thy ===== *)
theory Command
  imports Env "HOL-Library.List_Lexorder" "HOL-Library.Multiset"
begin

text \<open>
  The command table: \<^verbatim>\<open>common/command.c\<close>. An entry carries the function of its command, which runs on
  a state of any type; \<^verbatim>\<open>run_command\<close> and the commands themselves are in the theory of the shell. The
  lookup, the help texts and the size suffixes do not touch that state: they give the text they print.

  A comparison of two C strings by \<^verbatim>\<open>strcmp\<close> is \<open>str_diff\<close> of the string theory. The
  completion code at the end is compiled with \<^verbatim>\<open>CONFIG_AUTO_COMPLETE\<close> only.
\<close>

section \<open>The code\<close>

record 's cmd_tbl =
  cmd_name :: string
  cmd_maxargs :: nat
  cmd_repeatable :: int
  cmd_fun :: "nat \<Rightarrow> string list \<Rightarrow> 's \<Rightarrow> ('s \<times> int) option"
  cmd_usage_msg :: "string option"
  cmd_help_msg :: "string option"

definition CONFIG_SYS_HELP_CMD_WIDTH :: int where "CONFIG_SYS_HELP_CMD_WIDTH = 8"

text \<open>What \<^verbatim>\<open>printf ("%s")\<close> shows, a null pointer included.\<close>

definition show_str :: "string option \<Rightarrow> string" where
  "show_str s = string_fmt s (-1) (-1) 0"

definition cmd_usage :: "'s cmd_tbl \<Rightarrow> string \<times> int" where
  "cmd_usage cmdtp =
     (let txt = cmd_name cmdtp @ '' - '' @ show_str (cmd_usage_msg cmdtp) @ nl @ nl @
                ''Usage:'' @ nl @ cmd_name cmdtp @ '' ''
      in case cmd_help_msg cmdtp of
           None \<Rightarrow> (txt @ ''- No additional help available.'' @ nl, 1)
         | Some h \<Rightarrow> (txt @ h @ nl, 0))"

text \<open>The comparison length of \<^verbatim>\<open>find_cmd_tbl\<close>, up to the first dot of the command, and
  \<^verbatim>\<open>strncmp (...) == 0\<close> over it.\<close>

definition cmd_len :: "string \<Rightarrow> nat" where
  "cmd_len c = length (takeWhile (\<lambda>ch. ch \<noteq> CHR ''.'') c)"

definition strncmp_0 :: "string \<Rightarrow> string \<Rightarrow> nat \<Rightarrow> bool" where
  "strncmp_0 s t n = (take n s = take n t)"

fun find_cmd_loop :: "string \<Rightarrow> nat \<Rightarrow> 's cmd_tbl list \<Rightarrow> 's cmd_tbl option \<Rightarrow> nat \<Rightarrow> 's cmd_tbl option" where
  "find_cmd_loop c len [] temp n_found = (if n_found = 1 then temp else None)"
| "find_cmd_loop c len (cmdtp # table) temp n_found =
     (if strncmp_0 c (cmd_name cmdtp) len
      then if len = length (cmd_name cmdtp) then Some cmdtp
           else find_cmd_loop c len table (Some cmdtp) (n_found + 1)
      else find_cmd_loop c len table temp n_found)"

definition find_cmd_tbl :: "string \<Rightarrow> 's cmd_tbl list \<Rightarrow> 's cmd_tbl option" where
  "find_cmd_tbl c table = find_cmd_loop c (cmd_len c) table (case table of [] \<Rightarrow> None | e # _ \<Rightarrow> Some e) 0"

text \<open>The bubble sort of \<^verbatim>\<open>_do_help\<close>: one pass over the first \<open>i\<close> pairs with its count of swaps, and the
  passes.\<close>

fun bubble_pass :: "nat \<Rightarrow> 's cmd_tbl list \<Rightarrow> 's cmd_tbl list \<times> nat" where
  "bubble_pass (Suc i) (x # y # zs) =
     (if str_diff (cmd_name x) (cmd_name y) > 0
      then let (r, swaps) = bubble_pass i (x # zs) in (y # r, swaps + 1)
      else let (r, swaps) = bubble_pass i (y # zs) in (x # r, swaps))"
| "bubble_pass i xs = (xs, 0)"

fun bubble_sort :: "nat \<Rightarrow> 's cmd_tbl list \<Rightarrow> 's cmd_tbl list" where
  "bubble_sort 0 xs = xs"
| "bubble_sort (Suc i) xs =
     (let (ys, swaps) = bubble_pass (Suc i) xs in if swaps = 0 then ys else bubble_sort i ys)"

text \<open>The short help; \<open>brk\<close> are the answers of \<^verbatim>\<open>ctrlc ()\<close>, one for each entry.\<close>

definition help_line :: "'s cmd_tbl \<Rightarrow> string" where
  "help_line e = (case cmd_usage_msg e of None \<Rightarrow> []
     | Some u \<Rightarrow> string_fmt (Some (cmd_name e)) CONFIG_SYS_HELP_CMD_WIDTH (-1) LEFT @ ''- '' @ u @ nl)"

fun help_print :: "bool list \<Rightarrow> 's cmd_tbl list \<Rightarrow> (string \<times> int \<times> bool list) option" where
  "help_print brk [] = Some ([], 0, brk)"
| "help_print [] (e # es) = None"
| "help_print (b # brk) (e # es) =
     (if b then Some ([], 1, brk)
      else do { (txt, rc, brk') \<leftarrow> help_print brk es; Some (help_line e @ txt, rc, brk') })"

definition unknown_help :: "string \<Rightarrow> string" where
  "unknown_help c = ''Unknown command '' @ [CHR 0x27] @ c @ [CHR 0x27] @ '' - try '' @ [CHR 0x27] @ ''help'' @ [CHR 0x27] @
     '' without arguments for list of all known commands'' @ nl @ nl"

fun help_args :: "'s cmd_tbl list \<Rightarrow> string list \<Rightarrow> int \<Rightarrow> string \<times> int" where
  "help_args table [] rcode = ([], rcode)"
| "help_args table (c # cs) rcode =
     (case find_cmd_tbl c table of
        Some cmdtp \<Rightarrow> (let (t, rc) = cmd_usage cmdtp; (ts, r) = help_args table cs (rcode OR rc) in (t @ ts, r))
      | None \<Rightarrow> (let (ts, r) = help_args table cs 1 in (unknown_help c @ ts, r)))"

definition do_help :: "'s cmd_tbl list \<Rightarrow> bool list \<Rightarrow> string list \<Rightarrow> (string \<times> int \<times> bool list) option" where
  "do_help table brk argv =
     (if length argv = 1 then help_print brk (bubble_sort (length table - 1) table)
      else let (txt, rc) = help_args table (tl argv) 0 in Some (txt, rc, brk))"

text \<open>The size suffix of a command such as \<^verbatim>\<open>cp.b\<close>.\<close>

definition cmd_get_data_size :: "string \<Rightarrow> int \<Rightarrow> int" where
  "cmd_get_data_size arg dflt =
     (let len = length arg in
      if len > 2 \<and> arg ! (len - 2) = CHR ''.''
      then let c = arg ! (len - 1) in
           if c = CHR ''b'' then 1 else if c = CHR ''w'' then 2 else if c = CHR ''l'' then 4
           else if c = CHR ''s'' then -2 else -1
      else dflt)"

section \<open>Lookup\<close>

text \<open>The comparison of the model is the one of the C string routine.\<close>

lemma strncmp_0_cstr:
  "cstr m p s \<Longrightarrow> cstr m q t \<Longrightarrow> strncmp m p q n = 0 \<longleftrightarrow> strncmp_0 s t n"
  by (simp add: strncmp_eq_0 strncmp_0_def)

definition abbreviates :: "string \<Rightarrow> 's cmd_tbl \<Rightarrow> bool" where
  "abbreviates c e \<longleftrightarrow> (\<exists>r. cmd_name e = takeWhile (\<lambda>ch. ch \<noteq> CHR ''.'') c @ r)"

definition names_exactly :: "string \<Rightarrow> 's cmd_tbl \<Rightarrow> bool" where
  "names_exactly c e \<longleftrightarrow> cmd_name e = takeWhile (\<lambda>ch. ch \<noteq> CHR ''.'') c"

lemma take_cmd_len: "take (cmd_len c) c = takeWhile (\<lambda>ch. ch \<noteq> CHR ''.'') c"
  unfolding cmd_len_def by (rule takeWhile_eq_take [symmetric])

lemma strncmp_0_abbreviates: "strncmp_0 c (cmd_name e) (cmd_len c) \<longleftrightarrow> abbreviates c e"
proof -
  have "take (cmd_len c) (cmd_name e) = w \<longleftrightarrow> (\<exists>r. cmd_name e = w @ r)" if "length w = cmd_len c" for w
    using that append_take_drop_id [of "cmd_len c" "cmd_name e"] by (metis append_eq_conv_conj)
  moreover have "length (takeWhile (\<lambda>ch. ch \<noteq> CHR ''.'') c) = cmd_len c" by (simp add: cmd_len_def)
  ultimately show ?thesis
    by (metis abbreviates_def strncmp_0_def take_cmd_len)
qed

lemma exact_abbreviates: "abbreviates c e \<Longrightarrow> cmd_len c = length (cmd_name e) \<longleftrightarrow> names_exactly c e"
  by (auto simp: abbreviates_def names_exactly_def cmd_len_def)

lemma names_exactly_abbreviates: "names_exactly c e \<Longrightarrow> abbreviates c e"
  by (simp add: abbreviates_def names_exactly_def)

lemma find_cmd_loop_eq:
  "find_cmd_loop c (cmd_len c) table temp n =
     (case filter (names_exactly c) table of
        e # _ \<Rightarrow> Some e
      | [] \<Rightarrow> (let ms = filter (abbreviates c) table in
               if n + length ms = 1 then (if ms = [] then temp else Some (hd ms)) else None))"
  by (induction table arbitrary: temp n)
    (auto simp: strncmp_0_abbreviates exact_abbreviates names_exactly_abbreviates Let_def split: list.splits)

section \<open>The order of the help list\<close>

abbreviation key :: "'s cmd_tbl \<Rightarrow> nat list" where
  "key e \<equiv> map of_char (cmd_name e)"

definition plain_names :: "'s cmd_tbl list \<Rightarrow> bool" where
  "plain_names es \<longleftrightarrow> (\<forall>e \<in> set es. ascii (cmd_name e) \<and> NUL \<notin> set (cmd_name e))"

lemma str_diff_key:
  assumes "plain_names [x, y]"
  shows "str_diff (cmd_name x) (cmd_name y) > 0 \<longleftrightarrow> key y < key x"
proof -
  have a: "ascii (cmd_name x)" "ascii (cmd_name y)" "NUL \<notin> set (cmd_name x)" "NUL \<notin> set (cmd_name y)"
    using assms by (auto simp: plain_names_def)
  have less: "str_diff (cmd_name x) (cmd_name y) < 0 \<longleftrightarrow> key x < key y"
    using str_diff_sign [OF a] by (simp add: list_less_def)
  have "inj (of_char :: char \<Rightarrow> nat)" by (rule inj_of_char)
  then have "str_diff (cmd_name x) (cmd_name y) = 0 \<longleftrightarrow> key x = key y"
    using str_diff_eq_0 [OF a(3,4)] by (simp add: inj_map_eq_map)
  moreover have "key y < key x \<longleftrightarrow> \<not> key x < key y \<and> key x \<noteq> key y" by (metis not_less_iff_gr_or_eq)
  moreover have "0 < d \<longleftrightarrow> \<not> d < 0 \<and> d \<noteq> 0" for d :: int by arith
  ultimately show ?thesis using less by blast
qed

lemma plain_names_simps [simp]:
  "plain_names []"
  "plain_names (e # es) \<longleftrightarrow> (ascii (cmd_name e) \<and> NUL \<notin> set (cmd_name e)) \<and> plain_names es"
  by (auto simp: plain_names_def)

lemma plain_names_mset: "mset xs = mset ys \<Longrightarrow> plain_names xs = plain_names ys"
  by (metis plain_names_def set_mset_mset)

lemma bubble_pass_perm:
  "bubble_pass i xs = (ys, n) \<Longrightarrow>
     mset ys = mset xs \<and> mset (take (Suc i) ys) = mset (take (Suc i) xs) \<and> drop (Suc i) ys = drop (Suc i) xs"
proof (induction i xs arbitrary: ys n rule: bubble_pass.induct)
  case (1 i x y zs)
  show ?case
  proof (cases "str_diff (cmd_name x) (cmd_name y) > 0")
    case True
    obtain r k where r: "bubble_pass i (x # zs) = (r, k)" by fastforce
    with True 1(1) [OF True r] 1(3) show ?thesis by auto
  next
    case False
    obtain r k where r: "bubble_pass i (y # zs) = (r, k)" by fastforce
    with False 1(2) [OF False r] 1(3) show ?thesis by auto
  qed
qed auto

lemma bubble_pass_max:
  "plain_names xs \<Longrightarrow> i < length xs \<Longrightarrow> bubble_pass i xs = (ys, n) \<Longrightarrow>
     (\<forall>x \<in> set (take (Suc i) xs). key x \<le> key (ys ! i)) \<and>
     (n = 0 \<longrightarrow> ys = xs \<and> sorted (map key (take (Suc i) xs)))"
proof (induction i xs arbitrary: ys n rule: bubble_pass.induct)
  case (1 i x y zs)
  have k: "str_diff (cmd_name x) (cmd_name y) > 0 \<longleftrightarrow> key y < key x"
    using 1(3) by (intro str_diff_key) simp
  show ?case
  proof (cases "str_diff (cmd_name x) (cmd_name y) > 0")
    case True
    obtain r j where r: "bubble_pass i (x # zs) = (r, j)" by fastforce
    have "\<forall>e \<in> set (take (Suc i) (x # zs)). key e \<le> key (r ! i)"
      using 1(1) [OF True _ _ r] 1(3,4) by simp
    moreover have "key y < key x" using True k by simp
    ultimately show ?thesis using True r 1(5) by auto
  next
    case False
    obtain r j where r: "bubble_pass i (y # zs) = (r, j)" by fastforce
    have ih: "\<forall>e \<in> set (take (Suc i) (y # zs)). key e \<le> key (r ! i)"
      "j = 0 \<longrightarrow> r = y # zs \<and> sorted (map key (take (Suc i) (y # zs)))"
      using 1(2) [OF False _ _ r] 1(3,4) by simp_all
    moreover have "key x \<le> key y" using False k by simp
    ultimately show ?thesis using False r 1(5) by fastforce
  qed
qed (auto simp: neq_Nil_conv)

text \<open>What the passes keep: behind the first \<open>i + 1\<close> entries the list is sorted and nothing there is
  smaller than anything before.\<close>

definition sorted_from :: "nat \<Rightarrow> 's cmd_tbl list \<Rightarrow> bool" where
  "sorted_from k xs \<longleftrightarrow> sorted (map key (drop k xs)) \<and> (\<forall>x \<in> set (take k xs). \<forall>y \<in> set (drop k xs). key x \<le> key y)"

lemma sorted_from_all: "k \<le> 1 \<Longrightarrow> sorted_from k xs \<Longrightarrow> sorted (map key xs)"
  by (cases xs; cases k) (auto simp: sorted_from_def)

lemma sorted_from_pass:
  assumes p: "plain_names xs" and i: "i < length xs" and s: "sorted_from (Suc i) xs" and b: "bubble_pass i xs = (ys, n)"
  shows "sorted_from i ys" and "n = 0 \<Longrightarrow> sorted (map key ys)"
proof -
  note perm = bubble_pass_perm [OF b] and mx = bubble_pass_max [OF p i b]
  have len: "i < length ys" using perm i by (metis mset_eq_length)
  have tk: "take (Suc i) ys = take i ys @ [ys ! i]" using len by (rule take_Suc_conv_app_nth)
  have dr: "drop i ys = ys ! i # drop (Suc i) xs" using perm len by (metis Cons_nth_drop_Suc)
  have sets: "set (take (Suc i) ys) = set (take (Suc i) xs)" using perm by (metis set_mset_mset)
  have above: "\<forall>x \<in> set (take (Suc i) ys). \<forall>y \<in> set (drop (Suc i) xs). key x \<le> key y"
    using s sets by (simp add: sorted_from_def)
  then show "sorted_from i ys"
    using s mx sets unfolding sorted_from_def dr by (auto simp: tk)
  show "sorted (map key ys)" if "n = 0"
  proof -
    have "ys = xs" "sorted (map key (take (Suc i) xs))" using mx that by auto
    moreover have "sorted (map key (take (Suc i) xs @ drop (Suc i) xs))"
      unfolding map_append sorted_append using calculation s by (auto simp: sorted_from_def)
    ultimately show ?thesis by simp
  qed
qed

lemma bubble_sort_ok:
  "plain_names xs \<Longrightarrow> i < length xs \<or> xs = [] \<Longrightarrow> sorted_from (Suc i) xs \<Longrightarrow>
     mset (bubble_sort i xs) = mset xs \<and> sorted (map key (bubble_sort i xs))"
proof (induction i arbitrary: xs)
  case 0
  then show ?case using sorted_from_all [of 1 xs] by simp
next
  case (Suc i)
  show ?case
  proof (cases "xs = []")
    case False
    obtain ys n where b: "bubble_pass (Suc i) xs = (ys, n)" by fastforce
    have i: "Suc i < length xs" using Suc.prems False by simp
    note perm = bubble_pass_perm [OF b] and st = sorted_from_pass [OF Suc.prems(1) i Suc.prems(3) b]
    have "plain_names ys" "i < length ys"
      using perm Suc.prems(1) i plain_names_mset [of ys xs] mset_eq_length [of ys xs] by auto
    from Suc.IH [OF this(1) disjI1 [OF this(2)] st(1)] st(2) perm b show ?thesis by auto
  qed simp
qed

section \<open>Properties\<close>

text \<open>C16: \<^verbatim>\<open>find_cmd_tbl\<close> looks for the text up to the first dot. It returns the first entry of exactly
  that name; without one, the only entry whose name it abbreviates; and nothing when no name or more
  than one fits.\<close>

theorem find_cmd_tbl_correct:
  "find_cmd_tbl c table =
     (case filter (names_exactly c) table of
        e # _ \<Rightarrow> Some e
      | [] \<Rightarrow> (case filter (abbreviates c) table of [e] \<Rightarrow> Some e | _ \<Rightarrow> None))"
  by (auto simp: find_cmd_tbl_def find_cmd_loop_eq Let_def length_Suc_conv split: list.splits)

text \<open>The bubble sort of the help command, which stops at the first pass without a swap, sorts the
  commands by name and loses none, whatever the order of the table, as long as the names are ASCII.\<close>

theorem help_sorted:
  "plain_names table \<Longrightarrow>
     mset (bubble_sort (length table - 1) table) = mset table \<and>
     sorted (map key (bubble_sort (length table - 1) table))"
  by (rule bubble_sort_ok) (auto simp: sorted_from_def)

theorem help_sorted_witness:
  "sorted (map key (bubble_sort 2 [\<lparr> cmd_name = ''run'', cmd_maxargs = 16, cmd_repeatable = 1,
       cmd_fun = (\<lambda>_ _ s. Some (s :: nat, 0)), cmd_usage_msg = None, cmd_help_msg = None \<rparr>,
     \<lparr> cmd_name = ''help'', cmd_maxargs = 16, cmd_repeatable = 1, cmd_fun = (\<lambda>_ _ s. Some (s, 0)),
       cmd_usage_msg = None, cmd_help_msg = None \<rparr>,
     \<lparr> cmd_name = ''erase'', cmd_maxargs = 3, cmd_repeatable = 0, cmd_fun = (\<lambda>_ _ s. Some (s, 0)),
       cmd_usage_msg = None, cmd_help_msg = None \<rparr>]))"
  (is "sorted (map key (bubble_sort 2 ?t))")
proof -
  have "plain_names ?t" by (simp add: ascii_def)
  from help_sorted [OF this] show ?thesis by (simp add: numeral_2_eq_2)
qed

end
