(* ===== verification/Readline.thy ===== *)
theory Readline
  imports Env
begin

text \<open>
  Reading a line from the console: \<^verbatim>\<open>readline\<close>, \<^verbatim>\<open>readline_into_buffer\<close> and \<^verbatim>\<open>delete_char\<close> of
  \<^verbatim>\<open>common/main.c\<close>, in the build without line history. The buffer is a memory indexed from its own
  start. The input is what each look at the console finds: a character, or nothing yet; a line that
  is never ended has no result.
\<close>

section \<open>The code\<close>

definition CONFIG_SYS_CBSIZE :: nat where "CONFIG_SYS_CBSIZE = 256"

abbreviation TAB :: char where "TAB \<equiv> CHR 0x09"
abbreviation BS :: char where "BS \<equiv> CHR 0x08"
abbreviation BEL :: char where "BEL \<equiv> CHR 0x07"
abbreviation CR :: char where "CR \<equiv> CHR 0x0D"
abbreviation LF :: char where "LF \<equiv> CHR 0x0A"

definition erase_seq :: string where "erase_seq = [BS, CHR '' '', BS]"
definition tab_seq :: string where "tab_seq = ''        ''"

record lineedit =
  lbuf :: mem
  lp :: nat
  ln :: nat
  lcol :: int
  lout :: string

text \<open>Going back to the prompt, and typing the characters again.\<close>

definition erase_to :: "int \<Rightarrow> lineedit \<Rightarrow> lineedit" where
  "erase_to plen s = s\<lparr> lout := lout s @ concat (replicate (nat (lcol s - plen)) erase_seq), lcol := min (lcol s) plen \<rparr>"

definition echo_char :: "char \<Rightarrow> lineedit \<Rightarrow> lineedit" where
  "echo_char c s =
     (if c = TAB
      then s\<lparr> lout := lout s @ drop (nat (lcol s mod 8)) tab_seq, lcol := lcol s + (8 - lcol s mod 8) \<rparr>
      else s\<lparr> lcol := lcol s + 1, lout := lout s @ [c] \<rparr>)"

definition delete_char :: "int \<Rightarrow> lineedit \<Rightarrow> lineedit" where
  "delete_char plen s =
     (if ln s = 0 then s
      else let p = lp s - 1;
               s1 = (if lbuf s p = TAB then fold echo_char (mem_get (lbuf s) 0 p) (erase_to plen s)
                     else s\<lparr> lout := lout s @ erase_seq, lcol := lcol s - 1 \<rparr>)
           in s1\<lparr> lp := p, ln := ln s - 1 \<rparr>)"

lemma echo_fold_frame [simp]:
  "ln (fold echo_char cs s) = ln s" "lp (fold echo_char cs s) = lp s" "lbuf (fold echo_char cs s) = lbuf s"
  by (induction cs arbitrary: s) (simp_all add: echo_char_def)

lemma delete_char_fields [simp]:
  "ln (delete_char plen s) = ln s - 1" "lbuf (delete_char plen s) = lbuf s"
  by (simp_all add: delete_char_def Let_def erase_to_def)

function delete_word :: "int \<Rightarrow> lineedit \<Rightarrow> lineedit" where
  "delete_word plen s = (if ln s > 0 \<and> lbuf s (lp s) \<noteq> CHR '' '' then delete_word plen (delete_char plen s) else s)"
  by pat_completeness auto
termination by (relation "measure (\<lambda>(_, s). ln s)") auto

declare delete_word.simps [simp del]

definition add_char :: "char \<Rightarrow> lineedit \<Rightarrow> lineedit" where
  "add_char c s =
     (if ln s < CONFIG_SYS_CBSIZE - 2
      then (echo_char c s)\<lparr> lbuf := (lbuf s)(lp s := c), lp := lp s + 1, ln := ln s + 1 \<rparr>
      else s\<lparr> lout := lout s @ [BEL] \<rparr>)"

text \<open>The loop of \<^verbatim>\<open>readline_into_buffer\<close>: the return value, the final state and the input that is left.\<close>

fun readline_loop :: "int \<Rightarrow> lineedit \<Rightarrow> char option list \<Rightarrow> (int \<times> lineedit \<times> char option list) option" where
  "readline_loop plen s [] = None"
| "readline_loop plen s (None # ks) = readline_loop plen s ks"
| "readline_loop plen s (Some c # ks) =
     (if c = CR \<or> c = LF
      then Some (int (lp s), s\<lparr> lbuf := (lbuf s)(lp s := NUL), lout := lout s @ [CR, LF] \<rparr>, ks)
      else if c = NUL then readline_loop plen s ks
      else if c = CHR 0x03 then Some (-1, s\<lparr> lbuf := (lbuf s)(0 := NUL) \<rparr>, ks)
      else if c = CHR 0x15 then readline_loop plen ((erase_to plen s)\<lparr> lp := 0, ln := 0 \<rparr>) ks
      else if c = CHR 0x17 then readline_loop plen (delete_word plen (delete_char plen s)) ks
      else if c = BS \<or> c = CHR 0x7F then readline_loop plen (delete_char plen s) ks
      else readline_loop plen (add_char c s) ks)"

definition readline_into_buffer ::
  "string option \<Rightarrow> mem \<Rightarrow> char option list \<Rightarrow> (int \<times> lineedit \<times> char option list) option" where
  "readline_into_buffer prompt buffer ks =
     (let plen = int (case prompt of None \<Rightarrow> 0 | Some t \<Rightarrow> length t)
      in readline_loop plen
           \<lparr> lbuf = buffer, lp = 0, ln = 0, lcol = plen, lout = (case prompt of None \<Rightarrow> [] | Some t \<Rightarrow> t) \<rparr> ks)"

definition readline :: "string option \<Rightarrow> mem \<Rightarrow> char option list \<Rightarrow> (int \<times> lineedit \<times> char option list) option" where
  "readline prompt console_buffer ks = readline_into_buffer prompt (console_buffer(0 := NUL)) ks"

section \<open>Editing a line\<close>

text \<open>What the keys mean for the text of the line.\<close>

definition edit :: "char \<Rightarrow> string \<Rightarrow> string" where
  "edit c t =
     (if c = NUL then t
      else if c = CHR 0x15 then []
      else if c = CHR 0x17 then rev (tl (dropWhile (\<lambda>d. d \<noteq> CHR '' '') (rev t)))
      else if c = BS \<or> c = CHR 0x7F then butlast t
      else if length t < CONFIG_SYS_CBSIZE - 2 then t @ [c] else t)"

text \<open>The picture of a line that starts in column \<open>col\<close>: tabs are blanks up to the next multiple of
  eight.\<close>

fun shown :: "nat \<Rightarrow> string \<Rightarrow> string" where
  "shown col [] = []"
| "shown col (c # t) =
     (if c = TAB then replicate (8 - col mod 8) CHR '' '' @ shown (col + (8 - col mod 8)) t
      else c # shown (col + 1) t)"

text \<open>A terminal: the row of the cursor and its column.\<close>

definition term_putc :: "char \<Rightarrow> string \<times> nat \<Rightarrow> string \<times> nat" where
  "term_putc c t =
     (let (row, cur) = t in
      if c = BS then (row, cur - 1) else if c = BEL then (row, cur)
      else if cur < length row then (row[cur := c], cur + 1) else (row @ [c], cur + 1))"

definition shows_line :: "string \<Rightarrow> string \<times> nat \<Rightarrow> bool" where
  "shows_line line t \<longleftrightarrow> (\<exists>k. fst t = line @ replicate k CHR '' '') \<and> snd t = length line"

text \<open>Characters that a terminal shows in one cell, and the tab.\<close>

definition visible :: "char \<Rightarrow> bool" where
  "visible c \<longleftrightarrow> c = TAB \<or> 32 \<le> (of_char c :: nat) \<and> c \<noteq> CHR 0x7F"

text \<open>The state of the reader holds the line \<open>t\<close> behind the prompt, and the terminal shows both.\<close>

definition holds :: "string \<Rightarrow> string \<Rightarrow> lineedit \<Rightarrow> bool" where
  "holds prompt t s \<longleftrightarrow>
     mem_get (lbuf s) 0 (length t) = t \<and> lp s = length t \<and> ln s = length t \<and> length t \<le> CONFIG_SYS_CBSIZE - 2 \<and>
     list_all visible t \<and> lcol s = int (length prompt + length (shown (length prompt) t)) \<and>
     shows_line (prompt @ shown (length prompt) t) (fold term_putc (lout s) ([], 0))"

lemma shown_append: "shown col (t @ u) = shown col t @ shown (col + length (shown col t)) u"
  by (induction col t rule: shown.induct) (auto simp: algebra_simps)

lemma term_type:
  assumes "shows_line l t" "c \<notin> {BS, BEL}"
  shows "shows_line (l @ [c]) (term_putc c t)"
proof -
  obtain k where t: "t = (l @ replicate k CHR '' '', length l)" using assms by (cases t) (auto simp: shows_line_def)
  show ?thesis
  proof (cases k)
    case 0
    then show ?thesis using assms by (auto simp: t shows_line_def term_putc_def)
  next
    case (Suc j)
    then have "fst (term_putc c t) = (l @ [c]) @ replicate j CHR '' ''" "snd (term_putc c t) = length (l @ [c])"
      using assms by (simp_all add: t term_putc_def)
    then show ?thesis unfolding shows_line_def by blast
  qed
qed

lemma term_types:
  "shows_line l t \<Longrightarrow> \<forall>c \<in> set w. c \<notin> {BS, BEL} \<Longrightarrow> shows_line (l @ w) (fold term_putc w t)"
proof (induction w arbitrary: l t)
  case (Cons c w)
  then show ?case using Cons.IH [of "l @ [c]" "term_putc c t"] term_type [of l t c] by simp
qed simp

lemma term_erase:
  assumes "shows_line (l @ [c]) t"
  shows "shows_line l (fold term_putc erase_seq t)"
proof -
  obtain k where t: "t = (l @ [c] @ replicate k CHR '' '', Suc (length l))"
    using assms by (cases t) (auto simp: shows_line_def)
  then have "fold term_putc erase_seq t = (l @ replicate (Suc k) CHR '' '', length l)"
    by (simp add: erase_seq_def term_putc_def)
  then show ?thesis unfolding shows_line_def by (metis fst_conv snd_conv)
qed

lemma term_erases:
  "shows_line (l @ w) t \<Longrightarrow> shows_line l (fold term_putc (concat (replicate (length w) erase_seq)) t)"
proof (induction w arbitrary: t rule: rev_induct)
  case (snoc c w)
  then have "shows_line (l @ w) (fold term_putc erase_seq t)" using term_erase [of "l @ w" c] by simp
  from snoc.IH [OF this] show ?case by simp
qed simp


lemma visible_simps [simp]:
  "\<not> visible NUL" "\<not> visible BS" "\<not> visible BEL" "\<not> visible CR" "\<not> visible LF" "\<not> visible (CHR 0x03)"
  "\<not> visible (CHR 0x15)" "\<not> visible (CHR 0x17)" "\<not> visible (CHR 0x7F)"
  by (simp_all add: visible_def)

text \<open>The screen part of the invariant, kept by echoing and erasing.\<close>

definition on_screen :: "string \<Rightarrow> string \<Rightarrow> lineedit \<Rightarrow> bool" where
  "on_screen prompt t s \<longleftrightarrow> lcol s = int (length prompt + length (shown (length prompt) t)) \<and>
     shows_line (prompt @ shown (length prompt) t) (fold term_putc (lout s) ([], 0))"

lemma holds_eq:
  "holds prompt t s \<longleftrightarrow> mem_get (lbuf s) 0 (length t) = t \<and> lp s = length t \<and> ln s = length t \<and>
     length t \<le> CONFIG_SYS_CBSIZE - 2 \<and> list_all visible t \<and> on_screen prompt t s"
  by (auto simp: holds_def on_screen_def)

lemma on_screen_cong: "lcol s = lcol s' \<Longrightarrow> lout s = lout s' \<Longrightarrow> on_screen prompt t s = on_screen prompt t s'"
  by (simp add: on_screen_def)

lemma echo_on_screen:
  assumes "on_screen prompt t s" "visible c"
  shows "on_screen prompt (t @ [c]) (echo_char c s)"
proof -
  let ?col = "length prompt + length (shown (length prompt) t)"
  have col: "lcol s = int ?col" and sh: "shows_line (prompt @ shown (length prompt) t) (fold term_putc (lout s) ([], 0))"
    using assms by (auto simp: on_screen_def)
  show ?thesis
  proof (cases "c = TAB")
    case True
    let ?w = "drop (nat (lcol s mod 8)) tab_seq"
    have m: "nat (lcol s mod 8) = ?col mod 8" using col by (metis nat_int zmod_int of_nat_numeral)
    have tab: "tab_seq = replicate 8 CHR '' ''" by (simp add: tab_seq_def numeral_eq_Suc)
    have w: "?w = replicate (8 - ?col mod 8) CHR '' ''" unfolding m tab by (rule drop_replicate)
    have "shown (length prompt) (t @ [c]) = shown (length prompt) t @ ?w" using True w by (simp add: shown_append)
    moreover have "shows_line ((prompt @ shown (length prompt) t) @ ?w) (fold term_putc ?w (fold term_putc (lout s) ([], 0)))"
      using sh by (rule term_types) (simp add: w)
    moreover have "lcol s + (8 - lcol s mod 8) = int (?col + (8 - ?col mod 8))"
    proof -
      have "?col mod 8 \<le> 8" by simp
      then show ?thesis using col by (simp add: of_nat_diff zmod_int)
    qed
    ultimately show ?thesis using True w by (simp add: on_screen_def echo_char_def)
  next
    case False
    have "c \<notin> {BS, BEL}" using assms(2) by auto
    then have "shows_line ((prompt @ shown (length prompt) t) @ [c]) (term_putc c (fold term_putc (lout s) ([], 0)))"
      using sh by (intro term_type)
    then show ?thesis using False col by (simp add: on_screen_def echo_char_def shown_append)
  qed
qed

lemma echoes_on_screen:
  "on_screen prompt t s \<Longrightarrow> list_all visible w \<Longrightarrow> on_screen prompt (t @ w) (fold echo_char w s)"
proof (induction w arbitrary: t s)
  case (Cons c w)
  then show ?case using Cons.IH [of "t @ [c]" "echo_char c s"] echo_on_screen [of prompt t s c] by simp
qed simp

lemma erase_to_on_screen:
  assumes "on_screen prompt t s"
  shows "on_screen prompt [] (erase_to (int (length prompt)) s)"
  using assms term_erases [of prompt "shown (length prompt) t" "fold term_putc (lout s) ([], 0)"]
  by (simp add: on_screen_def erase_to_def)

lemma mem_get_butlast: "mem_get m 0 (length t) = t \<Longrightarrow> mem_get m 0 (length t - 1) = butlast t"
proof (cases t rule: rev_cases)
  case (snoc u c)
  assume "mem_get m 0 (length t) = t"
  then show ?thesis using mem_get_snoc [of m 0 "length u"] by (simp add: snoc)
qed simp

lemma delete_char_holds:
  assumes h: "holds prompt t s"
  shows "holds prompt (butlast t) (delete_char (int (length prompt)) s)"
proof (cases "t = []")
  case True
  then show ?thesis using h by (simp add: holds_eq delete_char_def)
next
  case False
  then obtain u c where t: "t = u @ [c]" by (cases t rule: rev_cases) auto
  have m: "mem_get (lbuf s) 0 (length u) = u" using h mem_get_butlast [of "lbuf s" t] by (simp add: holds_eq t)
  have c: "lbuf s (length u) = c" using h mem_get_snoc [of "lbuf s" 0 "length u"] by (simp add: holds_eq t)
  have scr: "on_screen prompt (u @ [c]) s" and lv: "lp s = Suc (length u)" "ln s = Suc (length u)" "list_all visible u"
    using h by (auto simp: holds_eq t)
  let ?s1 = "if c = TAB then fold echo_char u (erase_to (int (length prompt)) s)
             else s\<lparr> lout := lout s @ erase_seq, lcol := lcol s - 1 \<rparr>"
  have "on_screen prompt u ?s1"
  proof (cases "c = TAB")
    case True
    then show ?thesis
      using echoes_on_screen [OF erase_to_on_screen [OF scr], of u] lv by simp
  next
    case False
    then show ?thesis
      using scr term_erase [of "prompt @ shown (length prompt) u" c "fold term_putc (lout s) ([], 0)"]
      by (simp add: on_screen_def shown_append)
  qed
  moreover have "delete_char (int (length prompt)) s = ?s1\<lparr> lp := length u, ln := length u \<rparr>"
    using lv c m by (simp add: delete_char_def Let_def)
  ultimately show ?thesis using h m by (auto simp: holds_eq t on_screen_def erase_to_def)
qed

lemma delete_word_holds:
  "holds prompt t s \<Longrightarrow> lbuf s (length t) = d \<Longrightarrow>
   holds prompt (if d = CHR '' '' then t else rev (tl (dropWhile (\<lambda>d. d \<noteq> CHR '' '') (rev t)))) (delete_word (int (length prompt)) s)"
proof (induction t arbitrary: s d rule: rev_induct)
  case Nil
  then show ?case by (subst delete_word.simps) (simp add: holds_eq)
next
  case (snoc c t)
  show ?case
  proof (cases "d = CHR '' ''")
    case True
    then show ?thesis using snoc.prems by (subst delete_word.simps) (simp add: holds_eq)
  next
    case False
    have h: "holds prompt t (delete_char (int (length prompt)) s)" using delete_char_holds [OF snoc.prems(1)] by simp
    have "lbuf s (length t) = c"
      using snoc.prems(1) mem_get_snoc [of "lbuf s" 0 "length t"] by (simp add: holds_eq)
    then have "holds prompt (if c = CHR '' '' then t else rev (tl (dropWhile (\<lambda>d. d \<noteq> CHR '' '') (rev t))))
        (delete_word (int (length prompt)) (delete_char (int (length prompt)) s))"
      by (intro snoc.IH [OF h]) simp
    moreover have "delete_word (int (length prompt)) s =
        delete_word (int (length prompt)) (delete_char (int (length prompt)) s)"
      using False snoc.prems by (subst delete_word.simps) (simp add: holds_eq)
    ultimately show ?thesis using False by (auto split: if_splits)
  qed
qed


lemma delete_word_frame [simp]: "lbuf (delete_word plen s) = lbuf s"
proof (induction plen s rule: delete_word.induct)
  case (1 plen s)
  then show ?case by (subst delete_word.simps) simp
qed

lemma erase_word_holds:
  assumes "holds prompt t s"
  shows "holds prompt (rev (tl (dropWhile (\<lambda>d. d \<noteq> CHR '' '') (rev t))))
    (delete_word (int (length prompt)) (delete_char (int (length prompt)) s))"
proof (cases t rule: rev_cases)
  case Nil
  then show ?thesis
    using assms by (simp add: delete_char_def holds_eq) (subst (asm) (1) holds_eq | subst delete_word.simps, simp)+
next
  case (snoc u c)
  have "lbuf s (length u) = c"
    using assms mem_get_snoc [of "lbuf s" 0 "length u"] by (simp add: holds_eq snoc)
  then show ?thesis
    using delete_word_holds [of prompt u "delete_char (int (length prompt)) s" c] delete_char_holds [OF assms]
    by (auto simp: snoc split: if_splits)
qed

lemma add_char_holds:
  assumes h: "holds prompt t s" and c: "visible c"
  shows "holds prompt (if length t < CONFIG_SYS_CBSIZE - 2 then t @ [c] else t) (add_char c s)"
proof (cases "length t < CONFIG_SYS_CBSIZE - 2")
  case True
  have "on_screen prompt (t @ [c]) (echo_char c s)" using h c by (intro echo_on_screen) (simp add: holds_eq)
  then have scr: "on_screen prompt (t @ [c]) (add_char c s)"
    using True h by (simp add: add_char_def holds_eq on_screen_def)
  have "mem_get ((lbuf s)(length t := c)) 0 (length t) = t"
    using h mem_get_cong [of "length t" "(lbuf s)(length t := c)" 0 "lbuf s"] by (simp add: holds_eq)
  then show ?thesis
    using True h c scr by (simp add: holds_eq add_char_def mem_get_snoc echo_char_def)
next
  case False
  then have "add_char c s = s\<lparr> lout := lout s @ [BEL] \<rparr>" using h by (simp add: holds_eq add_char_def)
  moreover have "on_screen prompt t (s\<lparr> lout := lout s @ [BEL] \<rparr>)"
    using h by (simp add: holds_eq on_screen_def term_putc_def case_prod_unfold Let_def)
  ultimately show ?thesis using False h unfolding holds_eq by auto
qed

definition edit_key :: "char \<Rightarrow> bool" where
  "edit_key c \<longleftrightarrow> visible c \<or> c \<in> {NUL, CHR 0x15, CHR 0x17, BS, CHR 0x7F}"

definition typed :: "char option list \<Rightarrow> string" where
  "typed ks = map the (filter (\<lambda>k. k \<noteq> None) ks)"

definition prompt_ok :: "string \<Rightarrow> bool" where
  "prompt_ok prompt \<longleftrightarrow> list_all visible prompt \<and> TAB \<notin> set prompt"

lemma readline_key:
  assumes h: "holds prompt t s" and c: "edit_key c"
  shows "\<exists>s'. readline_loop (int (length prompt)) s (Some c # ks) = readline_loop (int (length prompt)) s' ks \<and>
    holds prompt (edit c t) s' \<and> (\<forall>i \<ge> CONFIG_SYS_CBSIZE - 2. lbuf s' i = lbuf s i)"
proof -
  let ?n = "int (length prompt)"
  consider (nul) "c = NUL" | (line) "c = CHR 0x15" | (word) "c = CHR 0x17" | (bs) "c = BS \<or> c = CHR 0x7F"
    | (vis) "visible c" "c \<notin> {NUL, CHR 0x15, CHR 0x17, BS, CHR 0x7F, CR, LF, CHR 0x03}"
    using c visible_simps unfolding edit_key_def by (metis insert_iff singletonD)
  then show ?thesis
  proof cases
    case nul
    then show ?thesis using h by (intro exI [of _ s]) (simp add: edit_def)
  next
    case line
    have "on_screen prompt [] (erase_to ?n s)" using h unfolding holds_eq by (blast intro: erase_to_on_screen)
    then show ?thesis using line
      by (intro exI [of _ "(erase_to ?n s)\<lparr> lp := 0, ln := 0 \<rparr>"])
        (simp add: edit_def holds_eq on_screen_def erase_to_def)
  next
    case word
    then show ?thesis using erase_word_holds [OF h]
      by (intro exI [of _ "delete_word ?n (delete_char ?n s)"]) (simp add: edit_def)
  next
    case bs
    then show ?thesis using delete_char_holds [OF h]
      by (intro exI [of _ "delete_char ?n s"]) (auto simp: edit_def)
  next
    case vis
    have "\<forall>i \<ge> CONFIG_SYS_CBSIZE - 2. lbuf (add_char c s) i = lbuf s i"
      using h by (simp add: add_char_def holds_eq)
    then show ?thesis using vis add_char_holds [OF h vis(1)]
      by (intro exI [of _ "add_char c s"]) (simp add: edit_def)
  qed
qed

lemma readline_keys:
  "holds prompt t s \<Longrightarrow> list_all edit_key (typed ks) \<Longrightarrow>
   \<exists>s'. readline_loop (int (length prompt)) s (ks @ rest) = readline_loop (int (length prompt)) s' rest \<and>
     holds prompt (fold edit (typed ks) t) s' \<and> (\<forall>i \<ge> CONFIG_SYS_CBSIZE - 2. lbuf s' i = lbuf s i)"
proof (induction ks arbitrary: t s)
  case Nil
  then show ?case by (auto simp: typed_def)
next
  case (Cons k ks)
  show ?case
  proof (cases k)
    case None
    then show ?thesis using Cons.IH [OF Cons.prems(1)] Cons.prems(2) by (simp add: typed_def)
  next
    case (Some c)
    then have c: "edit_key c" "list_all edit_key (typed ks)" using Cons.prems(2) by (auto simp: typed_def)
    obtain s1 where s1: "readline_loop (int (length prompt)) s (Some c # ks @ rest) = readline_loop (int (length prompt)) s1 (ks @ rest)"
      "holds prompt (edit c t) s1" "\<forall>i \<ge> CONFIG_SYS_CBSIZE - 2. lbuf s1 i = lbuf s i"
      using readline_key [OF Cons.prems(1) c(1)] by blast
    show ?thesis using Cons.IH [OF s1(2) c(2)] s1(1,3) Some by (auto simp: typed_def)
  qed
qed

lemma start_holds:
  assumes "prompt_ok prompt"
  shows "holds prompt [] \<lparr> lbuf = b, lp = 0, ln = 0, lcol = int (length prompt), lout = prompt \<rparr>"
proof -
  have "shows_line [] ([], 0)" by (simp add: shows_line_def)
  moreover have "\<forall>c \<in> set prompt. c \<notin> {BS, BEL}"
    using assms by (auto simp: prompt_ok_def list_all_iff)
  ultimately have "shows_line ([] @ prompt) (fold term_putc prompt ([], 0))" by (rule term_types)
  then show ?thesis by (simp add: holds_eq on_screen_def)
qed

section \<open>Properties\<close>

text \<open>C17: Whatever is typed in visible characters and the keys that erase, and with whatever pauses, a
  line ended by return is in the buffer as the keys mean it: the return value is its length, it is
  terminated, it has at most 254 characters and nothing behind is written; and just before the
  newline the terminal shows the prompt and the line, the cursor at its end.\<close>

theorem readline_correct:
  assumes "prompt_ok prompt" "list_all edit_key (typed ks)"
  shows "\<exists>s out. readline (Some prompt) buf (ks @ Some CR # rest) = Some (int (length (fold edit (typed ks) [])), s, rest) \<and>
    cstr (lbuf s) 0 (fold edit (typed ks) []) \<and> length (fold edit (typed ks) []) \<le> CONFIG_SYS_CBSIZE - 2 \<and>
    (\<forall>i > CONFIG_SYS_CBSIZE - 2. lbuf s i = buf i) \<and> lout s = out @ [CR, LF] \<and>
    shows_line (prompt @ shown (length prompt) (fold edit (typed ks) [])) (fold term_putc out ([], 0))"
proof -
  let ?t = "fold edit (typed ks) []"
  obtain s1 where s1: "readline (Some prompt) buf (ks @ Some CR # rest) = readline_loop (int (length prompt)) s1 (Some CR # rest)"
    "holds prompt ?t s1" "\<forall>i \<ge> CONFIG_SYS_CBSIZE - 2. lbuf s1 i = (buf(0 := NUL)) i"
    using readline_keys [OF start_holds [OF assms(1), of "buf(0 := NUL)"] assms(2), of "Some CR # rest"]
    by (auto simp: readline_def readline_into_buffer_def)
  let ?s = "s1\<lparr> lbuf := (lbuf s1)(lp s1 := NUL), lout := lout s1 @ [CR, LF] \<rparr>"
  have "NUL \<notin> set ?t" using s1(2) by (auto simp: holds_eq list_all_iff)
  moreover have "mem_get ((lbuf s1)(length ?t := NUL)) 0 (length ?t) = ?t"
    using s1(2) mem_get_cong [of "length ?t" "(lbuf s1)(length ?t := NUL)" 0 "lbuf s1"] by (simp add: holds_eq)
  ultimately have "cstr (lbuf ?s) 0 ?t" using s1(2) by (simp add: cstr_iff_mem_get mem_get_snoc holds_eq)
  then show ?thesis using s1
    by (intro exI [of _ ?s] exI [of _ "lout s1"]) (auto simp: holds_eq on_screen_def)
qed

theorem readline_correct_witness:
  "\<exists>s. readline (Some ''> '') (\<lambda>_. NUL) (map Some ''ab'' @ [Some BS, None, Some CR]) = Some (1, s, []) \<and> cstr (lbuf s) 0 ''a''"
proof -
  have "typed (map Some ''ab'' @ [Some BS, None]) = [CHR ''a'', CHR ''b'', BS]" by (simp add: typed_def)
  moreover have "prompt_ok ''> ''" by (simp add: prompt_ok_def visible_def)
  ultimately show ?thesis
    using readline_correct [of "''> ''" "map Some ''ab'' @ [Some BS, None]" "\<lambda>_. NUL" "[]"]
    by (auto simp: edit_key_def visible_def edit_def CONFIG_SYS_CBSIZE_def)
qed

text \<open>A Control-C at any moment ends the line with -1 and an empty buffer.\<close>

theorem readline_break:
  assumes "prompt_ok prompt" "list_all edit_key (typed ks)"
  shows "\<exists>s. readline (Some prompt) buf (ks @ Some (CHR 0x03) # rest) = Some (-1, s, rest) \<and> cstr (lbuf s) 0 []"
proof -
  obtain s1 where "readline (Some prompt) buf (ks @ Some (CHR 0x03) # rest) =
      readline_loop (int (length prompt)) s1 (Some (CHR 0x03) # rest)"
    using readline_keys [OF start_holds [OF assms(1), of "buf(0 := NUL)"] assms(2), of "Some (CHR 0x03) # rest"]
    by (auto simp: readline_def readline_into_buffer_def)
  then show ?thesis by simp
qed

theorem readline_break_witness:
  "\<exists>s. readline (Some ''> '') (\<lambda>_. NUL) [Some CHR ''a'', Some (CHR 0x03)] = Some (-1, s, []) \<and> cstr (lbuf s) 0 []"
  using readline_break [of "''> ''" "[Some CHR ''a'']" "\<lambda>_. NUL" "[]"]
  by (simp add: typed_def edit_key_def visible_def prompt_ok_def)

end
