(* ===== verification/Cli.thy ===== *)
theory Cli
  imports Command Readline
begin

text \<open>
  The command interpreter of \<^verbatim>\<open>common/main.c\<close> as the board builds it, without the hush shell:
  splitting a line at semicolons, expanding variables, splitting into arguments, running the commands
  of the table, \<^verbatim>\<open>run\<close> and the autoboot and command loops.

  The buffers of \<^verbatim>\<open>run_command\<close> are its own, so the model passes their contents as strings; the bound
  of each buffer is kept, and the one read in front of a buffer is a parameter (\<open>below\<close>).
\<close>

section \<open>The code\<close>

definition CONFIG_SYS_MAXARGS :: nat where "CONFIG_SYS_MAXARGS = 16"

abbreviation APOS :: char where "APOS \<equiv> CHR 0x27"
abbreviation BSLASH :: char where "BSLASH \<equiv> CHR 0x5C"

subsection \<open>Arguments\<close>

definition is_white :: "char \<Rightarrow> bool" where
  "is_white c \<longleftrightarrow> c = CHR '' '' \<or> c = CHR 0x09"

text \<open>\<^verbatim>\<open>parse_line\<close>: the arguments, and whether the loop ended for want of text. When it ended because
  \<^verbatim>\<open>argv\<close> is full, the message is printed and the closing null pointer is not stored.\<close>

function parse_line_loop :: "nat \<Rightarrow> string \<Rightarrow> string list \<times> bool" where
  "parse_line_loop nargs line =
     (if nargs < CONFIG_SYS_MAXARGS
      then let l = dropWhile is_white line in
           if l = [] then ([], True)
           else let arg = takeWhile (\<lambda>c. \<not> is_white c) l; l' = dropWhile (\<lambda>c. \<not> is_white c) l in
                if l' = [] then ([arg], True)
                else let (args, fin) = parse_line_loop (nargs + 1) (tl l') in (arg # args, fin)
      else ([], False))"
  by pat_completeness auto
termination by (relation "measure (\<lambda>(nargs, _). CONFIG_SYS_MAXARGS - nargs)") auto

declare parse_line_loop.simps [simp del]

definition parse_line :: "string \<Rightarrow> string list \<times> string" where
  "parse_line line =
     (let (argv, fin) = parse_line_loop 0 line
      in (argv, if fin then [] else ''** Too many args (max. '' @ decimal CONFIG_SYS_MAXARGS @ '') **'' @ nl))"

subsection \<open>Variables in a command\<close>

text \<open>The states 0 to 3 of \<^verbatim>\<open>process_macros\<close>.\<close>

datatype macro_state = Wait_Dollar | Wait_Open | Wait_Close | Wait_Quote

text \<open>Copying a value, as long as there is room.\<close>

fun copy_value :: "mem \<Rightarrow> addr \<Rightarrow> nat \<Rightarrow> string" where
  "copy_value m envval 0 = []"
| "copy_value m envval (Suc outputcnt) =
     (if m envval \<noteq> NUL then m envval # copy_value m (envval + 1) outputcnt else [])"

text \<open>The escape that may stand in front of a character: the character meant, the previous one for
  the tests, and the rest of the input. None is the break at the end of the input.\<close>

definition unescape :: "macro_state \<Rightarrow> char \<Rightarrow> char \<Rightarrow> string \<Rightarrow> (char \<times> char \<times> string) option" where
  "unescape state prev c input =
     (if state \<noteq> Wait_Quote \<and> c = BSLASH \<and> prev \<noteq> BSLASH
      then case input of [] \<Rightarrow> None | c' # input' \<Rightarrow> Some (c', c, input')
      else Some (c, prev, input))"

text \<open>One character: the next state, where the variable's name starts, and what is written, given
  the room that is left.\<close>

definition macro_step ::
  "env_state \<Rightarrow> macro_state \<Rightarrow> string \<Rightarrow> char \<Rightarrow> char \<Rightarrow> string \<Rightarrow> nat \<Rightarrow> (macro_state \<times> string \<times> string) option" where
  "macro_step env state varname_start prev c input outputcnt =
     (case state of
        Wait_Dollar \<Rightarrow>
          Some (if c = APOS \<and> prev \<noteq> BSLASH then (Wait_Quote, varname_start, [])
                else if c = CHR ''$'' \<and> prev \<noteq> BSLASH then (Wait_Open, varname_start, [])
                else (Wait_Dollar, varname_start, [c]))
      | Wait_Open \<Rightarrow>
          Some (if c = CHR ''('' \<or> c = CHR ''{'' then (Wait_Close, input, [])
                else (Wait_Dollar, varname_start, if outputcnt > 1 then [CHR ''$'', c] else [CHR ''$'']))
      | Wait_Close \<Rightarrow>
          if c = CHR '')'' \<or> c = CHR ''}''
          then let envcnt = length varname_start - length input - 1;
                   envname = take envcnt varname_start
               in do { envval \<leftarrow> getenv env envname;
                       Some (Wait_Dollar, varname_start,
                             case envval of None \<Rightarrow> [] | Some a \<Rightarrow> copy_value (emem env) a outputcnt) }
          else Some (Wait_Close, varname_start, [])
      | Wait_Quote \<Rightarrow>
          Some (if c = APOS \<and> prev \<noteq> BSLASH then (Wait_Dollar, varname_start, [])
                else (Wait_Quote, varname_start, [c])))"

text \<open>The loop: all that is written to the output.\<close>

function macro_loop :: "env_state \<Rightarrow> macro_state \<Rightarrow> string \<Rightarrow> char \<Rightarrow> string \<Rightarrow> nat \<Rightarrow> string option" where
  "macro_loop env state varname_start prev input outputcnt =
     (if input = [] \<or> outputcnt = 0 then Some []
      else case unescape state prev (hd input) (tl input) of
             None \<Rightarrow> Some []
           | Some (c, prev', input') \<Rightarrow>
               (case macro_step env state varname_start prev' c input' outputcnt of
                  None \<Rightarrow> None
                | Some (state', start', w) \<Rightarrow>
                    map_option (\<lambda>out. w @ out)
                      (macro_loop env state' start' c input' (outputcnt - length w))))"
  by pat_completeness auto
termination
  by (relation "measure (\<lambda>(_, _, _, _, input, _). length input)")
    (auto simp: unescape_def neq_Nil_conv split: if_splits list.splits)

declare macro_loop.simps [simp del]

definition process_macros :: "env_state \<Rightarrow> string \<Rightarrow> string option" where
  "process_macros env input =
     map_option (\<lambda>out. if length out < CONFIG_SYS_CBSIZE then out else butlast out)
       (macro_loop env Wait_Dollar [] NUL input CONFIG_SYS_CBSIZE)"

subsection \<open>Running a line\<close>

text \<open>The console and environment of the running system, with what \<^verbatim>\<open>main_loop\<close> keeps. Of the console,
  \<open>keys\<close> lists what each look at the serial port finds: a character, or nothing yet.\<close>

record shell =
  sh_env :: env_state
  keys :: "char option list"
  ctrlc_was_pressed :: bool
  lastcommand :: string

definition sh_puts :: "string \<Rightarrow> shell \<Rightarrow> shell" where
  "sh_puts txt s = s\<lparr> sh_env := puts txt (sh_env s) \<rparr>"

text \<open>The separator search: the token and, when a semicolon ended it, the text behind it.\<close>

fun find_sep :: "bool \<Rightarrow> char \<Rightarrow> bool \<Rightarrow> string \<Rightarrow> string \<times> string option" where
  "find_sep first prev inquotes [] = ([], None)"
| "find_sep first prev inquotes (c # str) =
     (let inq = (if c = APOS \<and> prev \<noteq> BSLASH then \<not> inquotes else inquotes) in
      if \<not> inq \<and> c = CHR '';'' \<and> \<not> first \<and> prev \<noteq> BSLASH then ([], Some str)
      else let (token, rest) = find_sep False c inq str in (c # token, rest))"

lemma find_sep_length: "find_sep first prev inq str = (token, Some rest) \<Longrightarrow> length rest < length str"
proof (induction first prev inq str arbitrary: token rule: find_sep.induct)
  case (2 first prev inq c str)
  define q where "q = (if c = APOS \<and> prev \<noteq> BSLASH then \<not> inq else inq)"
  obtain t r where "find_sep False c q str = (t, r)" by fastforce
  with 2 show ?case by (fastforce simp: q_def [symmetric] Let_def split: if_splits)
qed simp

definition unknown_cmd :: "string \<Rightarrow> string" where
  "unknown_cmd c = ''Unknown command '' @ [APOS] @ c @ [APOS] @ '' - try '' @ [APOS] @ ''help'' @ [APOS] @ nl"

text \<open>One token: macros, arguments, lookup, the command. It gives the new state, whether \<^verbatim>\<open>rc\<close> became
  -1, and the entry that was run.\<close>

definition run_token :: "shell cmd_tbl list \<Rightarrow> nat \<Rightarrow> shell \<Rightarrow> string \<Rightarrow> (shell \<times> bool \<times> shell cmd_tbl option) option" where
  "run_token table flag s token =
     do { finaltoken \<leftarrow> process_macros (sh_env s) token;
          let (argv, msg) = parse_line finaltoken;
          let s1 = sh_puts msg s;
          if argv = [] then Some (s1, True, None)
          else case find_cmd_tbl (argv ! 0) table of
                 None \<Rightarrow> Some (sh_puts (unknown_cmd (argv ! 0)) s1, True, None)
               | Some cmdtp \<Rightarrow>
                   if length argv > cmd_maxargs cmdtp
                   then Some (sh_puts (fst (cmd_usage cmdtp)) s1, True, None)
                   else do { (s2, r) \<leftarrow> cmd_fun cmdtp flag argv s1; Some (s2, r \<noteq> 0, Some cmdtp) } }"

text \<open>The loop over the tokens; \<open>below\<close> is the byte in front of the token, which the quote test reads.\<close>

function run_tokens :: "shell cmd_tbl list \<Rightarrow> nat \<Rightarrow> shell \<Rightarrow> char \<Rightarrow> string \<Rightarrow> int \<Rightarrow> int \<Rightarrow> (shell \<times> int) option" where
  "run_tokens table flag s below str rc repeatable =
     (if str = [] then Some (s, if rc \<noteq> 0 then rc else repeatable)
      else let (token, more) = find_sep True below False str;
               str' = (case more of None \<Rightarrow> [] | Some r \<Rightarrow> r)
           in case run_token table flag s token of
                None \<Rightarrow> None
              | Some (s', bad, exe) \<Rightarrow>
                  let rc' = (if bad then -1 else rc);
                      rep' = (case exe of None \<Rightarrow> repeatable | Some e \<Rightarrow> repeatable AND cmd_repeatable e)
                  in if exe \<noteq> None \<and> ctrlc_was_pressed s' then Some (s', -1)
                     else run_tokens table flag s' NUL str' rc' rep')"
  by pat_completeness auto
termination
proof (relation "measure (\<lambda>(_, _, _, _, str, _). length str)")
qed (auto split: option.splits dest: find_sep_length [OF sym])

declare run_tokens.simps [simp del]

definition run_command :: "shell cmd_tbl list \<Rightarrow> char \<Rightarrow> shell \<Rightarrow> string \<Rightarrow> nat \<Rightarrow> (shell \<times> int) option" where
  "run_command table below s0 c flag =
     (let s = s0\<lparr> ctrlc_was_pressed := False \<rparr> in
      if c = [] then Some (s, -1)
      else if length c \<ge> CONFIG_SYS_CBSIZE then Some (sh_puts (''## Command too long!'' @ nl) s, -1)
      else run_tokens table flag s below c 0 1)"

text \<open>\<^verbatim>\<open>do_run\<close>, over the interpreter that runs the variables' contents.\<close>

fun run_vars :: "(shell \<Rightarrow> string \<Rightarrow> (shell \<times> int) option) \<Rightarrow> shell \<Rightarrow> string list \<Rightarrow> (shell \<times> int) option" where
  "run_vars run s [] = Some (s, 0)"
| "run_vars run s (name # names) =
     do { arg \<leftarrow> getenv (sh_env s) name;
          case arg of
            None \<Rightarrow> Some (sh_puts (''## Error: '' @ quoted name @ '' not defined'' @ nl) s, 1)
          | Some a \<Rightarrow> do { c \<leftarrow> str_at (emem (sh_env s)) a;
                          (s', rc) \<leftarrow> run s c;
                          if rc = -1 then Some (s', 1) else run_vars run s' names } }"

definition do_run :: "(shell \<Rightarrow> string \<Rightarrow> (shell \<times> int) option) \<Rightarrow> string \<Rightarrow> string list \<Rightarrow> shell \<Rightarrow> (shell \<times> int) option" where
  "do_run run usage argv s =
     (if length argv < 2 then Some (sh_puts usage s, 1) else run_vars run s (tl argv))"


subsection \<open>The commands of the table\<close>

text \<open>Each look at the console from \<^verbatim>\<open>ctrlc ()\<close> takes what is there. The answers of the next calls, and the
  state after \<open>n\<close> of them.\<close>

definition ctrlc_answers :: "shell \<Rightarrow> bool list" where
  "ctrlc_answers s = map (\<lambda>k. k = Some (CHR 0x03)) (keys s)"

definition after_ctrlc :: "nat \<Rightarrow> shell \<Rightarrow> shell" where
  "after_ctrlc n s = s\<lparr> keys := drop n (keys s),
     ctrlc_was_pressed := (ctrlc_was_pressed s \<or> Some (CHR 0x03) \<in> set (take n (keys s))) \<rparr>"

definition cmd_help :: "shell cmd_tbl list \<Rightarrow> nat \<Rightarrow> string list \<Rightarrow> shell \<Rightarrow> (shell \<times> int) option" where
  "cmd_help table flag argv s =
     (let brk = ctrlc_answers s @ replicate (length table) False in
      do { (txt, rc, brk') \<leftarrow> do_help table brk argv;
           Some (sh_puts txt (after_ctrlc (length brk - length brk') s), rc) })"

definition cmd_printenv :: "nat \<Rightarrow> string list \<Rightarrow> shell \<Rightarrow> (shell \<times> int) option" where
  "cmd_printenv flag argv s =
     (let brk = ctrlc_answers s @ replicate (ENV_SIZE * length argv) False in
      do { (e, rc, brk') \<leftarrow> do_printenv (sh_env s) brk argv;
           Some ((after_ctrlc (length brk - length brk') s)\<lparr> sh_env := e \<rparr>, rc) })"

text \<open>\<^verbatim>\<open>setenv\<close> may wait for a key after a change of the baud rate.\<close>

definition cmd_setenv :: "(nat \<Rightarrow> string \<Rightarrow> bool) \<Rightarrow> string \<Rightarrow> nat \<Rightarrow> string list \<Rightarrow> shell \<Rightarrow> (shell \<times> int) option" where
  "cmd_setenv console_assign usage flag argv s =
     (let inp = typed (keys s) in
      do { (e, rc) \<leftarrow> do_setenv console_assign usage ((sh_env s)\<lparr> con_in := inp \<rparr>) argv;
           Some (s\<lparr> sh_env := e, keys := (if con_in e = inp then keys s else map Some (con_in e)) \<rparr>, rc) })"

definition U_BOOT_CMD :: "string \<Rightarrow> nat \<Rightarrow> int \<Rightarrow> (nat \<Rightarrow> string list \<Rightarrow> shell \<Rightarrow> (shell \<times> int) option) \<Rightarrow> string \<Rightarrow> string \<Rightarrow> shell cmd_tbl"
where
  "U_BOOT_CMD name maxargs rep f usage help =
     \<lparr> cmd_name = name, cmd_maxargs = maxargs, cmd_repeatable = rep, cmd_fun = f,
       cmd_usage_msg = Some usage, cmd_help_msg = Some help \<rparr>"

definition printenv_entry :: "shell cmd_tbl" where
  "printenv_entry = U_BOOT_CMD ''printenv'' CONFIG_SYS_MAXARGS 1 cmd_printenv
     ''print environment variables''
     (nl @ ''    - print values of all environment variables'' @ nl @ ''printenv name ...'' @ nl @
      ''    - print value of environment variable '' @ [APOS] @ ''name'' @ [APOS])"

definition setenv_entry :: "(nat \<Rightarrow> string \<Rightarrow> bool) \<Rightarrow> shell cmd_tbl" where
  "setenv_entry console_assign =
     (let e = U_BOOT_CMD ''setenv'' CONFIG_SYS_MAXARGS 0 (\<lambda>_ _ _. None)
           ''set environment variables''
           (''name value ...'' @ nl @ ''    - set environment variable '' @ [APOS] @ ''name'' @ [APOS] @ '' to '' @
            [APOS] @ ''value ...'' @ [APOS] @ nl @ ''setenv name'' @ nl @
            ''    - delete environment variable '' @ [APOS] @ ''name'' @ [APOS])
      in e\<lparr> cmd_fun := cmd_setenv console_assign (fst (cmd_usage e)) \<rparr>)"

definition run_entry :: "(nat \<Rightarrow> shell \<Rightarrow> string \<Rightarrow> (shell \<times> int) option) \<Rightarrow> shell cmd_tbl" where
  "run_entry run =
     (let e = U_BOOT_CMD ''run'' CONFIG_SYS_MAXARGS 1 (\<lambda>_ _ _. None)
           ''run commands in an environment variable''
           (''var [...]'' @ nl @ ''    - run the commands in the environment variable(s) '' @ [APOS] @ ''var'' @ [APOS])
      in e\<lparr> cmd_fun := (\<lambda>flag argv s. do_run (run flag) (fst (cmd_usage e)) argv s) \<rparr>)"

definition help_entry :: "string \<Rightarrow> string \<Rightarrow> string \<Rightarrow> shell cmd_tbl list \<Rightarrow> shell cmd_tbl" where
  "help_entry name usage help table = U_BOOT_CMD name CONFIG_SYS_MAXARGS 1 (cmd_help table) usage help"

text \<open>The table: the commands above and \<open>others\<close>, those of the rest of the system. The help commands
  read the names and texts of the whole table, their own included, and no function of it.\<close>

definition board_cmds ::
  "(nat \<Rightarrow> string \<Rightarrow> bool) \<Rightarrow> shell cmd_tbl list \<Rightarrow> (nat \<Rightarrow> shell \<Rightarrow> string \<Rightarrow> (shell \<times> int) option) \<Rightarrow> shell cmd_tbl list"
where
  "board_cmds console_assign others run =
     (let es = [printenv_entry, run_entry run, setenv_entry console_assign] @ others;
          h = help_entry ''help'' ''print command description/usage''
                (nl @ [TAB] @ ''- print brief description of all commands'' @ nl @ ''help command ...'' @ nl @
                 [TAB] @ ''- print detailed usage of '' @ [APOS] @ ''command'' @ [APOS]);
          q = help_entry ''?'' (''alias for '' @ [APOS] @ ''help'' @ [APOS]) [];
          table = map (\<lambda>e. e\<lparr> cmd_fun := (\<lambda>_ _ _. None) \<rparr>) (h [] # q [] # es)
      in h table # q table # es)"

text \<open>\<^verbatim>\<open>run\<close> calls the interpreter again, with nothing to bound the nesting: \<open>n\<close> is how much deeper the
  model follows it, and None says that this was not deep enough. \<open>d\<close> is the depth reached, and
  \<open>below d\<close> the byte in front of the buffer of that call.\<close>

fun run_nested ::
  "(nat \<Rightarrow> string \<Rightarrow> bool) \<Rightarrow> shell cmd_tbl list \<Rightarrow> (nat \<Rightarrow> char) \<Rightarrow> nat \<Rightarrow> nat \<Rightarrow> nat \<Rightarrow> shell \<Rightarrow> string \<Rightarrow> (shell \<times> int) option"
where
  "run_nested console_assign others below d 0 flag s c = None"
| "run_nested console_assign others below d (Suc n) flag s c =
     run_command (board_cmds console_assign others (run_nested console_assign others below (Suc d) n)) (below d) s c flag"

subsection \<open>Autoboot\<close>

definition CONFIG_BOOTDELAY :: int where "CONFIG_BOOTDELAY = 3"
definition CONFIG_SYS_PROMPT :: string where "CONFIG_SYS_PROMPT = ''DRAGON> ''"
definition CONFIG_SYS_PBSIZE :: nat where
  "CONFIG_SYS_PBSIZE = CONFIG_SYS_CBSIZE + (length CONFIG_SYS_PROMPT + 1) + 16"

text \<open>A look at the console; when no more keys are listed, nobody types any more.\<close>

definition tstc :: "shell \<Rightarrow> bool \<times> shell" where
  "tstc s = (case keys s of [] \<Rightarrow> (False, s) | None # ks \<Rightarrow> (False, s\<lparr> keys := ks \<rparr>) | Some c # ks \<Rightarrow> (True, s))"

text \<open>\<^verbatim>\<open>getc\<close> after a successful \<^verbatim>\<open>tstc\<close>.\<close>

definition getc_ready :: "shell \<Rightarrow> shell" where
  "getc_ready s = s\<lparr> keys := tl (keys s) \<rparr>"

definition count2 :: "int \<Rightarrow> string" where
  "count2 d = number (of_int d) 10 2 (-1) SIGN"

fun abort_wait :: "nat \<Rightarrow> shell \<Rightarrow> bool \<times> shell" where
  "abort_wait 0 s = (False, s)"
| "abort_wait (Suc i) s =
     (let (key, s1) = tstc s in if key then (True, getc_ready s1) else abort_wait i s1)"

fun abort_count :: "nat \<Rightarrow> shell \<Rightarrow> bool \<times> shell" where
  "abort_count 0 s = (False, s)"
| "abort_count (Suc d) s =
     (let (ab, s1) = abort_wait 100 s;
          s2 = sh_puts ([BS, BS, BS] @ count2 (if ab then 0 else int d) @ '' '') s1
      in if ab then (True, s2) else abort_count d s2)"

definition abortboot :: "int \<Rightarrow> shell \<Rightarrow> bool \<times> shell" where
  "abortboot bootdelay s =
     (let s0 = sh_puts (''Hit any key to stop autoboot: '' @ count2 bootdelay @ '' '') s;
          (ab1, s1) = (if bootdelay \<ge> 0
                       then let (key, s') = tstc s0
                            in if key then (True, sh_puts ([BS, BS, BS] @ '' 0'') (getc_ready s')) else (False, s')
                       else (False, s0));
          (ab2, s2) = (if ab1 then (True, s1) else abort_count (nat bootdelay) s1)
      in (ab2, sh_puts nl s2))"

text \<open>The part of \<^verbatim>\<open>main_loop\<close> before the loop; \<open>run\<close> is \<^verbatim>\<open>run_command (s, 0)\<close>.\<close>

definition autoboot :: "(shell \<Rightarrow> string \<Rightarrow> (shell \<times> int) option) \<Rightarrow> shell \<Rightarrow> shell option" where
  "autoboot run s =
     do { d \<leftarrow> getenv (sh_env s) ''bootdelay'';
          bootdelay \<leftarrow> (case d of None \<Rightarrow> Some CONFIG_BOOTDELAY
                         | Some a \<Rightarrow> map_option (\<lambda>t. sint (fst (simple_strtol t 10))) (str_at (emem (sh_env s)) a));
          c \<leftarrow> getenv (sh_env s) ''bootcmd'';
          case c of
            None \<Rightarrow> Some s
          | Some a \<Rightarrow>
              if bootdelay \<ge> 0
              then let (ab, s1) = abortboot bootdelay s
                   in if ab then Some s1
                      else do { t \<leftarrow> str_at (emem (sh_env s1)) a; (s2, rc) \<leftarrow> run s1 t; Some s2 }
              else Some s }"

subsection \<open>The command loop\<close>

text \<open>One turn of the loop: \<open>rc\<close> is the result of the last command run, \<^verbatim>\<open>CMD_FLAG_REPEAT\<close> is 1. The buffer of
  \<^verbatim>\<open>readline\<close> matters only as the line it holds.\<close>

definition main_loop_turn ::
  "(nat \<Rightarrow> shell \<Rightarrow> string \<Rightarrow> (shell \<times> int) option) \<Rightarrow> shell \<Rightarrow> int \<Rightarrow> (shell \<times> int) option" where
  "main_loop_turn run s rc =
     do { (len, l, ks) \<leftarrow> readline (Some CONFIG_SYS_PROMPT) (\<lambda>_. NUL) (keys s);
          line \<leftarrow> str_at (lbuf l) 0;
          let s1 = sh_puts (lout l) (s\<lparr> keys := ks \<rparr>);
          let s2 = (if len > 0 then s1\<lparr> lastcommand := line \<rparr> else s1);
          let flag = (if len = 0 then 1 else 0);
          (s3, rc') \<leftarrow> (if len = -1 then Some (sh_puts (''<INTERRUPT>'' @ nl) s2, rc)
                       else run flag s2 (lastcommand s2));
          Some (if rc' \<le> 0 then s3\<lparr> lastcommand := [] \<rparr> else s3, rc') }"

fun main_loop_turns :: "(nat \<Rightarrow> shell \<Rightarrow> string \<Rightarrow> (shell \<times> int) option) \<Rightarrow> nat \<Rightarrow> shell \<Rightarrow> int \<Rightarrow> (shell \<times> int) option" where
  "main_loop_turns run 0 s rc = Some (s, rc)"
| "main_loop_turns run (Suc n) s rc =
     do { (s', rc') \<leftarrow> main_loop_turn run s rc; main_loop_turns run n s' rc' }"

definition main_loop :: "(nat \<Rightarrow> shell \<Rightarrow> string \<Rightarrow> (shell \<times> int) option) \<Rightarrow> nat \<Rightarrow> shell \<Rightarrow> (shell \<times> int) option" where
  "main_loop run n s = do { s1 \<leftarrow> autoboot (run 0) s; main_loop_turns run n s1 1 }"

section \<open>Arguments\<close>

text \<open>The words of a text: what its white space separates.\<close>

fun chop :: "string \<Rightarrow> string list" where
  "chop [] = [[]]"
| "chop (c # s) = (if is_white c then [] # chop s else (c # hd (chop s)) # tl (chop s))"

definition words :: "string \<Rightarrow> string list" where
  "words s = filter (\<lambda>w. w \<noteq> []) (chop s)"

lemma chop_nonempty [simp]: "chop s \<noteq> []"
  by (cases s) auto

lemma words_Nil [simp]: "words [] = []"
  by (simp add: words_def)

lemma words_white [simp]: "is_white c \<Longrightarrow> words (c # s) = words s"
  by (simp add: words_def)

lemma words_dropWhile: "words (dropWhile is_white s) = words s"
  by (induction s) auto

lemma chop_word: "\<forall>c \<in> set w. \<not> is_white c \<Longrightarrow> chop (w @ r) = (w @ hd (chop r)) # tl (chop r)"
  by (induction w) auto

lemma words_word:
  assumes "w \<noteq> []" "\<forall>c \<in> set w. \<not> is_white c" "r = [] \<or> is_white (hd r)"
  shows "words (w @ r) = w # words (tl r)"
  using assms chop_word [OF assms(2), of "[]"] by (cases r) (auto simp: words_def chop_word)

lemma words_empty_iff: "words s = [] \<longleftrightarrow> (\<forall>c \<in> set s. is_white c)"
  by (induction s) (auto simp: words_def)

lemma hd_drop_word:
  "dropWhile (\<lambda>c. \<not> is_white c) s \<noteq> [] \<Longrightarrow> is_white (hd (dropWhile (\<lambda>c. \<not> is_white c) s))"
  using hd_dropWhile [of "\<lambda>c. \<not> is_white c" s] by blast

lemma words_split:
  assumes "s \<noteq> []" "\<not> is_white (hd s)"
  shows "words s = takeWhile (\<lambda>c. \<not> is_white c) s # words (tl (dropWhile (\<lambda>c. \<not> is_white c) s))"
proof -
  let ?w = "takeWhile (\<lambda>c. \<not> is_white c) s" and ?r = "dropWhile (\<lambda>c. \<not> is_white c) s"
  have "words (?w @ ?r) = ?w # words (tl ?r)"
    using assms hd_drop_word [of s]
    by (intro words_word) (auto simp: takeWhile_eq_Nil_iff dest: set_takeWhileD simp del: dropWhile_eq_Nil_conv)
  then show ?thesis by simp
qed

text \<open>The loop stores the first words; it ends for want of text unless \<^verbatim>\<open>argv\<close> fills up with text
  left behind the last argument.\<close>

lemma parse_line_loop_eq:
  "n < CONFIG_SYS_MAXARGS \<Longrightarrow>
   parse_line_loop n line =
     (take (CONFIG_SYS_MAXARGS - n) (words line),
      length (words line) < CONFIG_SYS_MAXARGS - n \<or>
      length (words line) = CONFIG_SYS_MAXARGS - n \<and> \<not> is_white (last line))"
proof (induction n line rule: parse_line_loop.induct)
  case (1 n line)
  define l where "l = dropWhile is_white line"
  define w where "w = takeWhile (\<lambda>c. \<not> is_white c) l"
  define r where "r = dropWhile (\<lambda>c. \<not> is_white c) l"
  have wl: "words line = words l" by (simp add: l_def words_dropWhile)
  show ?case
  proof (cases "l = []")
    case True
    then show ?thesis using 1(2) wl by (subst parse_line_loop.simps) (simp add: l_def [symmetric])
  next
    case False
    then have "\<not> is_white (hd l)" unfolding l_def by (rule hd_dropWhile)
    then have ws: "words line = w # words (tl r)"
      using words_split [OF False] wl by (simp add: w_def r_def)
    have last_l: "last line = last l"
      using False by (metis l_def dropWhile_eq_Nil_conv last_appendR takeWhile_dropWhile_id)
    show ?thesis
    proof (cases "r = []")
      case True
      then have "\<not> is_white (last l)" using False by (simp add: r_def)
      then show ?thesis using 1(2) False True ws last_l
        by (subst parse_line_loop.simps) (auto simp: l_def [symmetric] w_def [symmetric] r_def [symmetric] Let_def)
    next
      case r: False
      then have wr: "is_white (hd r)" unfolding r_def by (rule hd_drop_word)
      have last_r: "last l = last r"
        using r by (metis r_def last_appendR takeWhile_dropWhile_id)
      have ln: "last r = (if tl r = [] then hd r else last (tl r))" using r by (cases r) auto
      have unf: "parse_line_loop n line = (let (args, fin) = parse_line_loop (n + 1) (tl r) in (w # args, fin))"
        using 1(2) False r
        by (subst parse_line_loop.simps) (simp add: l_def [symmetric] w_def [symmetric] r_def [symmetric] Let_def)
      show ?thesis
      proof (cases "n + 1 < CONFIG_SYS_MAXARGS")
        case True
        have ih: "parse_line_loop (n + 1) (tl r) =
            (take (CONFIG_SYS_MAXARGS - (n + 1)) (words (tl r)),
             length (words (tl r)) < CONFIG_SYS_MAXARGS - (n + 1) \<or>
             length (words (tl r)) = CONFIG_SYS_MAXARGS - (n + 1) \<and> \<not> is_white (last (tl r)))"
          using 1(1) [OF 1(2) refl _ refl refl] False r True by (simp add: l_def w_def r_def)
        obtain k where k: "CONFIG_SYS_MAXARGS - n = Suc k" "k = CONFIG_SYS_MAXARGS - (n + 1)" "k > 0" using True by auto
        have "length (words (tl r)) = k \<Longrightarrow> tl r \<noteq> []" using k by auto
        then show ?thesis unfolding unf ih ws k(1) k(2) [symmetric] using last_l last_r ln by auto
      next
        case False
        then have "CONFIG_SYS_MAXARGS - n = 1" "\<not> n + 1 < CONFIG_SYS_MAXARGS" using 1(2) by simp_all
        moreover from this have "parse_line_loop (n + 1) (tl r) = ([], False)" by (simp add: parse_line_loop.simps)
        moreover have "words (tl r) = [] \<Longrightarrow> is_white (last r)"
          using r wr by (cases r) (auto simp: words_empty_iff)
        ultimately show ?thesis unfolding unf ws using last_l last_r by auto
      qed
    qed
  qed
qed


section \<open>Variables in a command\<close>

text \<open>The notation a command is written in: plain characters, escaped ones, a dollar sign that starts no
  variable, variables and quoted text, with what each stands for.\<close>

datatype macro = Plain char | Escaped char | Dollar char | Var string | Quoted string

fun macro_text :: "macro \<Rightarrow> string" where
  "macro_text (Plain c) = [c]"
| "macro_text (Escaped c) = [BSLASH, c]"
| "macro_text (Dollar c) = [CHR ''$'', c]"
| "macro_text (Var n) = ''${'' @ n @ ''}''"
| "macro_text (Quoted t) = APOS # t @ [APOS]"

fun macro_ok :: "macro \<Rightarrow> bool" where
  "macro_ok (Plain c) \<longleftrightarrow> c \<notin> set [BSLASH, CHR ''$'', APOS, CHR '';'']"
| "macro_ok (Escaped c) \<longleftrightarrow> c \<noteq> BSLASH"
| "macro_ok (Dollar c) \<longleftrightarrow> c \<notin> set [BSLASH, CHR ''('', CHR ''{'', APOS, CHR '';'']"
| "macro_ok (Var n) \<longleftrightarrow> name_ok n \<and> (\<forall>c \<in> set [BSLASH, CHR '')'', CHR ''}'', APOS, CHR '';'']. c \<notin> set n)"
| "macro_ok (Quoted t) \<longleftrightarrow> APOS \<notin> set t \<and> BSLASH \<notin> set t"

fun macro_value :: "string list \<Rightarrow> macro \<Rightarrow> string" where
  "macro_value es (Plain c) = [c]"
| "macro_value es (Escaped c) = [c]"
| "macro_value es (Dollar c) = [CHR ''$'', c]"
| "macro_value es (Var n) = (case env_lookup n es of None \<Rightarrow> [] | Some v \<Rightarrow> v)"
| "macro_value es (Quoted t) = t"

definition macros_text :: "macro list \<Rightarrow> string" where "macros_text ms = concat (map macro_text ms)"
definition macros_value :: "string list \<Rightarrow> macro list \<Rightarrow> string" where "macros_value es ms = concat (map (macro_value es) ms)"

lemma copy_value_cstr: "cstr m a v \<Longrightarrow> copy_value m a n = take n v"
proof (induction n arbitrary: a v)
  case (Suc n)
  then show ?case by (cases v) auto
qed simp

lemma length_copy_value: "length (copy_value m a n) \<le> n"
  by (induction n arbitrary: a) auto

lemma unescape_plain [simp]: "c \<noteq> BSLASH \<Longrightarrow> unescape st prev c input = Some (c, prev, input)"
  by (simp add: unescape_def)

lemma unescape_escape [simp]:
  "st \<noteq> Wait_Quote \<Longrightarrow> prev \<noteq> BSLASH \<Longrightarrow> unescape st prev BSLASH (c # input) = Some (c, BSLASH, input)"
  by (simp add: unescape_def)

lemma macro_loop_full [simp]: "macro_loop env st start prev input 0 = Some []"
  by (simp add: macro_loop.simps)

lemma macro_loop_Nil [simp]: "macro_loop env st start prev [] cnt = Some []"
  by (simp add: macro_loop.simps)

lemma macro_loop_Cons:
  "c \<noteq> BSLASH \<Longrightarrow> cnt > 0 \<Longrightarrow> macro_step env st start prev c input cnt = Some (st', start', w) \<Longrightarrow>
     macro_loop env st start prev (c # input) cnt = map_option ((@) w) (macro_loop env st' start' c input (cnt - length w))"
  by (subst macro_loop.simps) simp

lemma append_fun: "(@) [] = (\<lambda>x. x)" "(@) (c # w) = (\<lambda>x. c # w @ x)" "map_option (\<lambda>x. x) r = r"
  by (auto simp: option.map_ident)

lemma macro_quoted:
  "APOS \<notin> set t \<Longrightarrow> BSLASH \<notin> set t \<Longrightarrow> prev \<noteq> BSLASH \<Longrightarrow>
   macro_loop env Wait_Quote start prev (t @ APOS # input) cnt =
     map_option ((@) (take cnt t)) (macro_loop env Wait_Dollar start APOS input (cnt - length t))"
proof (induction t arbitrary: prev cnt)
  case Nil
  show ?case
  proof (cases "cnt = 0")
    case False
    with Nil show ?thesis by (simp add: macro_loop_Cons macro_step_def append_fun)
  qed simp
next
  case (Cons c t)
  show ?case
  proof (cases "cnt = 0")
    case False
    have "macro_step env Wait_Quote start prev c (t @ APOS # input) cnt = Some (Wait_Quote, start, [c])"
      using Cons.prems by (auto simp: macro_step_def)
    then have "macro_loop env Wait_Quote start prev ((c # t) @ APOS # input) cnt =
        map_option ((@) [c]) (macro_loop env Wait_Quote start c (t @ APOS # input) (cnt - 1))"
      using Cons.prems False macro_loop_Cons by fastforce
    moreover obtain k where "cnt = Suc k" using False by (cases cnt) auto
    moreover have "c \<noteq> BSLASH" "APOS \<notin> set t" "BSLASH \<notin> set t" using Cons.prems by auto
    ultimately show ?thesis using Cons.IH [of c k] by (simp add: option.map_comp comp_def append_fun)
  qed simp
qed

lemma macro_close:
  assumes "BSLASH \<notin> set n" "CHR '')'' \<notin> set n" "CHR ''}'' \<notin> set n" "cnt > 0"
  shows "macro_loop env Wait_Close start prev (n @ CHR ''}'' # input) cnt =
           Option.bind (getenv env (take (length start - length input - 1) start)) (\<lambda>envval.
             let w = (case envval of None \<Rightarrow> [] | Some a \<Rightarrow> copy_value (emem env) a cnt) in
             map_option ((@) w) (macro_loop env Wait_Dollar start CHR ''}'' input (cnt - length w)))"
  using assms
proof (induction n arbitrary: prev)
  case Nil
  then show ?case
    by (cases "getenv env (take (length start - Suc (length input)) start)"; subst macro_loop.simps)
      (simp_all add: macro_step_def Let_def)
next
  case (Cons c n)
  have "macro_step env Wait_Close start prev c (n @ CHR ''}'' # input) cnt = Some (Wait_Close, start, [])"
    using Cons.prems by (auto simp: macro_step_def)
  moreover have "c \<noteq> BSLASH" using Cons.prems by auto
  ultimately show ?case using Cons.prems Cons.IH [of c] by (simp add: macro_loop_Cons append_fun)
qed

lemma macro_item:
  assumes ok: "env_ok env es" and m: "macro_ok x" and p: "prev \<noteq> BSLASH"
  shows "\<exists>start'. macro_loop env Wait_Dollar start prev (macro_text x @ input) cnt =
      map_option ((@) (take cnt (macro_value es x)))
        (macro_loop env Wait_Dollar start' (last (macro_text x)) input (cnt - length (macro_value es x)))"
proof (cases "cnt = 0")
  case False
  then have c: "cnt > 0" by simp
  show ?thesis
  proof (cases x)
    case (Plain ch)
    then show ?thesis using m p c
      by (intro exI [of _ start]) (simp add: macro_loop_Cons macro_step_def take_Cons')
  next
    case (Escaped ch)
    then show ?thesis using m p c
      by (intro exI [of _ start]) (subst macro_loop.simps, simp add: macro_step_def take_Cons')
  next
    case (Dollar ch)
    obtain k where k: "cnt = Suc k" using c by (cases cnt) auto
    show ?thesis using Dollar m p k
      by (intro exI [of _ start])
        (cases k; simp add: macro_loop_Cons macro_step_def option.map_comp comp_def append_fun)
  next
    case (Var n)
    let ?s = "n @ CHR ''}'' # input"
    have nok: "name_ok n" "BSLASH \<notin> set n" "CHR '')'' \<notin> set n" "CHR ''}'' \<notin> set n" using Var m by auto
    have 1: "macro_loop env Wait_Dollar start prev (macro_text x @ input) cnt =
        macro_loop env Wait_Close ?s CHR ''{'' ?s cnt"
      using Var p c by (simp add: macro_loop_Cons macro_step_def append_fun)
    have nm: "take (length ?s - length input - 1) ?s = n" by simp
    show ?thesis
      using getenv_ok [OF ok nok(1)]
      by (intro exI [of _ ?s], unfold 1 macro_close [OF nok(2-4) c] nm)
        (auto simp: Var copy_value_cstr Let_def append_fun min_def split: option.splits)
  next
    case (Quoted t)
    then show ?thesis using m p c
      by (intro exI [of _ start]) (simp add: macro_loop_Cons macro_step_def macro_quoted append_fun)
  qed
qed simp


lemma macros_simps [simp]:
  "macros_text [] = []" "macros_text (x # ms) = macro_text x @ macros_text ms"
  "macros_value es [] = []" "macros_value es (x # ms) = macro_value es x @ macros_value es ms"
  by (simp_all add: macros_text_def macros_value_def)

lemma macro_text_last: "macro_ok x \<Longrightarrow> last (macro_text x) \<noteq> BSLASH"
  by (cases x) auto

lemma macro_loop_macros:
  assumes ok: "env_ok env es"
  shows "list_all macro_ok ms \<Longrightarrow> prev \<noteq> BSLASH \<Longrightarrow>
    macro_loop env Wait_Dollar start prev (macros_text ms) cnt = Some (take cnt (macros_value es ms))"
proof (induction ms arbitrary: start prev cnt)
  case (Cons x ms)
  then have m: "macro_ok x" "list_all macro_ok ms" by simp_all
  obtain start' where "macro_loop env Wait_Dollar start prev (macro_text x @ macros_text ms) cnt =
      map_option ((@) (take cnt (macro_value es x)))
        (macro_loop env Wait_Dollar start' (last (macro_text x)) (macros_text ms) (cnt - length (macro_value es x)))"
    using macro_item [OF ok m(1) Cons.prems(2)] by blast
  then show ?case using Cons.IH [OF m(2) macro_text_last [OF m(1)]] by simp
qed simp

lemma process_macros_eq:
  assumes "env_ok env es" "list_all macro_ok ms"
  shows "process_macros env (macros_text ms) = Some (take (CONFIG_SYS_CBSIZE - 1) (macros_value es ms))"
proof -
  have "(if length (take CONFIG_SYS_CBSIZE v) < CONFIG_SYS_CBSIZE then take CONFIG_SYS_CBSIZE v
         else butlast (take CONFIG_SYS_CBSIZE v)) = take (CONFIG_SYS_CBSIZE - 1) v" for v :: string
    by (auto simp: butlast_take CONFIG_SYS_CBSIZE_def)
  then show ?thesis by (simp add: process_macros_def macro_loop_macros [OF assms])
qed

text \<open>On any input at all, the loop writes no more than it has room for, and no variable's name is
  longer than the input.\<close>

lemma envmatch_total: "cstr m (d + i) e \<Longrightarrow> CHR ''='' \<in> set e \<Longrightarrow> envmatch (\<lambda>i. m (d + i)) name i \<noteq> None"
proof (induction name arbitrary: e i)
  case Nil
  then show ?case by (cases e) auto
next
  case (Cons c name)
  obtain c' e' where e: "e = c' # e'" using Cons.prems(2) by (cases e) auto
  show ?case using Cons.IH [of "Suc i" e'] Cons.prems by (auto simp: e)
qed

lemma getenv_loop_total:
  "strs m (d + i) es \<Longrightarrow> m (d + i + esize es) = NUL \<Longrightarrow> i + esize es \<le> CONFIG_ENV_SIZE \<Longrightarrow>
   getenv_loop (\<lambda>i. m (d + i)) name i \<noteq> None"
proof (induction es arbitrary: i)
  case Nil
  then show ?case by (simp add: getenv_loop.simps)
next
  case (Cons e es)
  have e: "cstr m (d + i) e" "CHR ''='' \<in> set e" using Cons.prems(1) by (auto simp: entry_ok_def)
  have nz: "m (d + i) \<noteq> NUL" using e by (cases e) auto
  have nxt: "env_next (\<lambda>i. m (d + i)) i = Some (i + length e)" using env_next_cstr [OF e(1)] Cons.prems(3) by simp
  obtain v where "envmatch (\<lambda>i. m (d + i)) name i = Some v" using envmatch_total [OF e] by blast
  then show ?case
    using nz nxt Cons.IH [of "Suc (i + length e)"] Cons.prems
    by (subst getenv_loop.simps) (cases v; simp add: add.assoc)
qed

lemma getenv_total:
  assumes "env_ok s es"
  shows "\<exists>v. getenv s name = Some v"
proof -
  have "strs (emem s) (env_data s + 0) es" "emem s (env_data s + 0 + esize es) = NUL" "0 + esize es \<le> CONFIG_ENV_SIZE"
    using assms by (auto simp: env_ok_def env_at_def ENV_SIZE_def)
  from getenv_loop_total [OF this] show ?thesis
    by (auto simp: getenv_def env_get_char_eq [OF assms])
qed

lemma macro_step_room:
  assumes "env_ok env es" "cnt > 0"
  shows "\<exists>st' start' w. macro_step env st start prev c input cnt = Some (st', start', w) \<and> length w \<le> cnt"
proof (cases st)
  case Wait_Close
  obtain v where "getenv env (take (length start - length input - 1) start) = Some v"
    using getenv_total [OF assms(1)] by blast
  then show ?thesis using Wait_Close by (auto simp: macro_step_def length_copy_value split: option.splits)
qed (use assms in \<open>auto simp: macro_step_def\<close>)

lemma macro_loop_room:
  "env_ok env es \<Longrightarrow> \<exists>out. macro_loop env st start prev input cnt = Some out \<and> length out \<le> cnt"
proof (induction env st start prev input cnt rule: macro_loop.induct)
  case (1 env st start prev input cnt)
  show ?case
  proof (cases "input = [] \<or> cnt = 0 \<or> unescape st prev (hd input) (tl input) = None")
    case True
    then show ?thesis by (subst macro_loop.simps) auto
  next
    case False
    then obtain c prev' input' where u: "unescape st prev (hd input) (tl input) = Some (c, prev', input')"
      by (cases "unescape st prev (hd input) (tl input)") auto
    obtain st' start' w where w: "macro_step env st start prev' c input' cnt = Some (st', start', w)" "length w \<le> cnt"
      using macro_step_room [OF 1(2)] False by blast
    obtain out where "macro_loop env st' start' c input' (cnt - length w) = Some out" "length out \<le> cnt - length w"
      using 1(1) [OF _ u refl refl w(1) refl refl 1(2)] False by auto
    with False u w show ?thesis by (subst macro_loop.simps) auto
  qed
qed

section \<open>Separators and sequences\<close>

text \<open>A separator that the notation does not hide ends the token; what stands in an item does not.\<close>

lemma find_sep_quoted:
  "APOS \<notin> set t \<Longrightarrow> BSLASH \<notin> set t \<Longrightarrow> prev \<noteq> BSLASH \<Longrightarrow>
   find_sep False prev True (t @ APOS # str) =
     (let (token, r) = find_sep False APOS False str in (t @ APOS # token, r))"
proof (induction t arbitrary: prev)
  case (Cons c t)
  then have "c \<noteq> APOS" "c \<noteq> BSLASH" by auto
  with Cons show ?case by (simp add: case_prod_unfold Let_def)
qed (simp add: Let_def)

lemma find_sep_plain:
  "APOS \<notin> set t \<Longrightarrow> CHR '';'' \<notin> set t \<Longrightarrow> t \<noteq> [] \<Longrightarrow>
   find_sep first prev False (t @ str) =
     (let (token, r) = find_sep False (last t) False str in (t @ token, r))"
proof (induction t arbitrary: prev first)
  case (Cons c t)
  then have "c \<noteq> APOS" "c \<noteq> CHR '';''" by auto
  with Cons show ?case by (cases "t = []") (simp_all add: case_prod_unfold Let_def)
qed simp

lemma find_sep_item:
  assumes m: "macro_ok x" and p: "prev \<noteq> BSLASH"
  shows "find_sep first prev False (macro_text x @ str) =
      (let (token, r) = find_sep False (last (macro_text x)) False str in (macro_text x @ token, r))"
proof (cases x)
  case (Escaped c)
  then show ?thesis using m p by (auto simp: Let_def split: prod.splits)
next
  case (Quoted t)
  then show ?thesis using m p find_sep_quoted [of t APOS str] by (auto simp: Let_def split: prod.splits)
next
  case (Var n)
  then show ?thesis using m by (intro find_sep_plain) auto
next
  case (Dollar c)
  then show ?thesis using m by (intro find_sep_plain) auto
next
  case (Plain c)
  then show ?thesis using m by (intro find_sep_plain) auto
qed

lemma find_sep_macros:
  "list_all macro_ok ms \<Longrightarrow> ms \<noteq> [] \<Longrightarrow> prev \<noteq> BSLASH \<Longrightarrow>
   find_sep first prev False (macros_text ms @ str) =
     (let (token, r) = find_sep False (last (macros_text ms)) False str in (macros_text ms @ token, r))"
proof (induction ms arbitrary: first prev)
  case (Cons x ms)
  have m: "macro_ok x" "list_all macro_ok ms" using Cons.prems by simp_all
  note step = find_sep_item [OF m(1) Cons.prems(3), of first "macros_text ms @ str"]
  show ?case
  proof (cases "ms = []")
    case False
    have "macros_text ms \<noteq> []" using False by (cases ms; cases "hd ms") auto
    then show ?thesis using step Cons.IH [OF m(2) False macro_text_last [OF m(1)]]
      by (auto simp: Let_def split: prod.splits)
  qed (use step in simp)
qed simp


text \<open>A line as the notation of its commands, and what running it means: the arguments of each command
  are the words of its value in the environment of that moment; the outcome of one command; and the
  sequence, which goes on after an error and stops only at a Control-C.\<close>

fun line_text :: "macro list list \<Rightarrow> string" where
  "line_text [] = []"
| "line_text [ms] = macros_text ms"
| "line_text (ms # cs) = macros_text ms @ CHR '';'' # line_text cs"

definition args_of :: "string list \<Rightarrow> macro list \<Rightarrow> string list" where
  "args_of es ms = take CONFIG_SYS_MAXARGS (words (take (CONFIG_SYS_CBSIZE - 1) (macros_value es ms)))"

definition args_msg :: "string list \<Rightarrow> macro list \<Rightarrow> string" where
  "args_msg es ms =
     (let line = take (CONFIG_SYS_CBSIZE - 1) (macros_value es ms) in
      if length (words line) > CONFIG_SYS_MAXARGS \<or> length (words line) = CONFIG_SYS_MAXARGS \<and> is_white (last line)
      then ''** Too many args (max. '' @ decimal CONFIG_SYS_MAXARGS @ '') **'' @ nl else [])"

inductive outcome :: "shell cmd_tbl list \<Rightarrow> nat \<Rightarrow> shell \<Rightarrow> string list \<Rightarrow> shell \<Rightarrow> bool \<Rightarrow> shell cmd_tbl option \<Rightarrow> bool"
  for table flag where
  nothing: "outcome table flag s [] s True None"
| unknown: "argv \<noteq> [] \<Longrightarrow> find_cmd_tbl (hd argv) table = None \<Longrightarrow>
    outcome table flag s argv (sh_puts (unknown_cmd (hd argv)) s) True None"
| misuse: "argv \<noteq> [] \<Longrightarrow> find_cmd_tbl (hd argv) table = Some e \<Longrightarrow> cmd_maxargs e < length argv \<Longrightarrow>
    outcome table flag s argv (sh_puts (fst (cmd_usage e)) s) True None"
| executed: "argv \<noteq> [] \<Longrightarrow> find_cmd_tbl (hd argv) table = Some e \<Longrightarrow> length argv \<le> cmd_maxargs e \<Longrightarrow>
    cmd_fun e flag argv s = Some (s', r) \<Longrightarrow> outcome table flag s argv s' (r \<noteq> 0) (Some e)"

inductive line_runs :: "shell cmd_tbl list \<Rightarrow> nat \<Rightarrow> shell \<Rightarrow> macro list list \<Rightarrow> int \<Rightarrow> int \<Rightarrow> shell \<Rightarrow> int \<Rightarrow> bool"
  for table flag where
  line_end: "line_runs table flag s [] rc rep s (if rc \<noteq> 0 then rc else rep)"
| line_break: "env_ok (sh_env s) es \<Longrightarrow>
    outcome table flag (sh_puts (args_msg es ms) s) (args_of es ms) s1 bad (Some e) \<Longrightarrow>
    ctrlc_was_pressed s1 \<Longrightarrow> line_runs table flag s (ms # cs) rc rep s1 (-1)"
| line_ran: "env_ok (sh_env s) es \<Longrightarrow>
    outcome table flag (sh_puts (args_msg es ms) s) (args_of es ms) s1 bad (Some e) \<Longrightarrow>
    \<not> ctrlc_was_pressed s1 \<Longrightarrow>
    line_runs table flag s1 cs (if bad then -1 else rc) (rep AND cmd_repeatable e) s2 r \<Longrightarrow>
    line_runs table flag s (ms # cs) rc rep s2 r"
| line_bad: "env_ok (sh_env s) es \<Longrightarrow>
    outcome table flag (sh_puts (args_msg es ms) s) (args_of es ms) s1 bad None \<Longrightarrow>
    line_runs table flag s1 cs (-1) rep s2 r \<Longrightarrow>
    line_runs table flag s (ms # cs) rc rep s2 r"

inductive_simps outcome_bad [simp]: "outcome table flag s argv s1 False None"

lemma outcome_None: "outcome table flag s argv s1 bad None \<Longrightarrow> bad"
  by (cases rule: outcome.cases) auto

lemma parse_line_eq:
  "parse_line (take (CONFIG_SYS_CBSIZE - 1) (macros_value es ms)) = (args_of es ms, args_msg es ms)"
proof -
  have "0 < CONFIG_SYS_MAXARGS" by (simp add: CONFIG_SYS_MAXARGS_def)
  note loop = parse_line_loop_eq [OF this]
  show ?thesis
    by (auto simp: parse_line_def loop args_of_def args_msg_def Let_def)
qed

lemma run_token_outcome:
  assumes "env_ok (sh_env s) es" "list_all macro_ok ms"
    and "outcome table flag (sh_puts (args_msg es ms) s) (args_of es ms) s1 bad e"
  shows "run_token table flag s (macros_text ms) = Some (s1, bad, e)"
  using assms(3)
  by (cases rule: outcome.cases)
    (auto simp: run_token_def process_macros_eq [OF assms(1,2)] parse_line_eq hd_conv_nth simp del: One_nat_def)

lemma macro_text_nonempty: "macro_text x \<noteq> []"
  by (cases x) auto

lemma macros_text_last: "list_all macro_ok ms \<Longrightarrow> ms \<noteq> [] \<Longrightarrow> last (macros_text ms) \<noteq> BSLASH"
  by (induction ms rule: rev_induct) (auto simp: macros_text_def macro_text_last macro_text_nonempty)

lemma find_sep_line:
  assumes "list_all macro_ok ms" "ms \<noteq> []" "below \<noteq> BSLASH"
  shows "find_sep True below False (line_text (ms # cs)) =
    (macros_text ms, if cs = [] then None else Some (line_text cs))"
proof -
  have "last (macros_text ms) \<noteq> BSLASH" using assms by (intro macros_text_last)
  then show ?thesis
    using find_sep_macros [OF assms, of True "[]"] find_sep_macros [OF assms, of True "CHR '';'' # line_text cs"]
    by (cases cs) (auto simp: Let_def)
qed

lemma line_text_nonempty: "ms \<noteq> [] \<Longrightarrow> line_text (ms # cs) \<noteq> []"
  by (cases ms; cases "hd ms"; cases cs) auto

lemma run_tokens_line:
  "line_runs table flag s cs rc rep s' r \<Longrightarrow> \<forall>ms \<in> set cs. ms \<noteq> [] \<and> list_all macro_ok ms \<Longrightarrow> below \<noteq> BSLASH \<Longrightarrow>
   run_tokens table flag s below (line_text cs) rc rep = Some (s', r)"
proof (induction arbitrary: below rule: line_runs.induct)
  case (line_end s rc rep)
  then show ?case by (subst run_tokens.simps) simp
next
  case (line_break s es ms s1 bad e cs rc rep)
  then show ?case
    using find_sep_line [of ms below cs] line_text_nonempty [of ms cs] run_token_outcome
    by (subst run_tokens.simps) (fastforce simp: Let_def)
next
  case (line_ran s es ms s1 bad e cs rc rep s2 r)
  have "(case (if cs = [] then None else Some (line_text cs)) of None \<Rightarrow> [] | Some r \<Rightarrow> r) = line_text cs" by simp
  then show ?case
    using find_sep_line [of ms below cs] line_text_nonempty [of ms cs] run_token_outcome [OF line_ran(1) _ line_ran(2)] line_ran
    by (subst run_tokens.simps) (auto simp: Let_def)
next
  case (line_bad s es ms s1 bad cs rep s2 r rc)
  have "(case (if cs = [] then None else Some (line_text cs)) of None \<Rightarrow> [] | Some r \<Rightarrow> r) = line_text cs" by simp
  moreover have bad using outcome_None [OF line_bad(2)] .
  ultimately show ?case
    using find_sep_line [of ms below cs] line_text_nonempty [of ms cs] run_token_outcome [OF line_bad(1) _ line_bad(2)] line_bad
    by (subst run_tokens.simps) (auto simp: Let_def)
qed


section \<open>Nested runs\<close>

text \<open>A table whose commands return whenever those of another do, with the same result.\<close>

definition entry_le :: "'s cmd_tbl \<Rightarrow> 's cmd_tbl \<Rightarrow> bool" where
  "entry_le e e' \<longleftrightarrow> e' = e\<lparr> cmd_fun := cmd_fun e' \<rparr> \<and>
     (\<forall>flag argv s r. cmd_fun e flag argv s = Some r \<longrightarrow> cmd_fun e' flag argv s = Some r)"

lemma entry_le_refl [simp]: "entry_le e e"
  by (simp add: entry_le_def)

lemma entry_le_fields:
  "entry_le e e' \<Longrightarrow> cmd_name e' = cmd_name e \<and> cmd_maxargs e' = cmd_maxargs e \<and> cmd_repeatable e' = cmd_repeatable e \<and>
     cmd_usage_msg e' = cmd_usage_msg e \<and> cmd_help_msg e' = cmd_help_msg e"
  by (cases e; cases e') (simp add: entry_le_def)

lemma find_cmd_loop_le:
  "list_all2 entry_le t t' \<Longrightarrow> rel_option entry_le o1 o2 \<Longrightarrow>
   rel_option entry_le (find_cmd_loop c len t o1 n) (find_cmd_loop c len t' o2 n)"
proof (induction t t' arbitrary: o1 o2 n rule: list_all2_induct)
  case (Cons e t e' t')
  then show ?case using entry_le_fields [OF Cons(1)] by (auto intro: Cons.IH)
qed simp

lemma find_cmd_tbl_le:
  "list_all2 entry_le t t' \<Longrightarrow> rel_option entry_le (find_cmd_tbl c t) (find_cmd_tbl c t')"
  unfolding find_cmd_tbl_def by (rule find_cmd_loop_le) (auto simp: list_all2_Cons1 list_all2_Cons2 split: list.splits)

lemma run_token_le:
  assumes "list_all2 entry_le t t'" "run_token t flag s token = Some (s', bad, e)"
  shows "\<exists>e'. run_token t' flag s token = Some (s', bad, e') \<and> rel_option entry_le e e'"
proof -
  obtain fin where fin: "process_macros (sh_env s) token = Some fin"
    using assms(2) by (cases "process_macros (sh_env s) token") (auto simp: run_token_def)
  obtain argv msg where p: "parse_line fin = (argv, msg)" by fastforce
  have le: "rel_option entry_le (find_cmd_tbl (argv ! 0) t) (find_cmd_tbl (argv ! 0) t')"
    by (rule find_cmd_tbl_le [OF assms(1)])
  show ?thesis
  proof (cases "find_cmd_tbl (argv ! 0) t")
    case None
    then show ?thesis using le assms(2) by (auto simp: run_token_def fin p Let_def split: if_splits)
  next
    case (Some x)
    then obtain x' where x': "find_cmd_tbl (argv ! 0) t' = Some x'" "entry_le x x'"
      using le by (cases "find_cmd_tbl (argv ! 0) t'") auto
    have "cmd_usage x' = cmd_usage x" using entry_le_fields [OF x'(2)] by (simp add: cmd_usage_def)
    then show ?thesis
      using Some x' entry_le_fields [OF x'(2)] assms(2)
      by (auto simp: run_token_def fin p entry_le_def Let_def split: if_splits bind_splits)
  qed
qed

lemma run_tokens_le:
  "list_all2 entry_le t t' \<Longrightarrow> run_tokens t flag s below str rc rep = Some r \<Longrightarrow>
   run_tokens t' flag s below str rc rep = Some r"
proof (induction t flag s below str rc rep rule: run_tokens.induct)
  case (1 t flag s below str rc rep)
  show ?case
  proof (cases "str = []")
    case True
    then show ?thesis using 1(3) by (simp add: run_tokens.simps)
  next
    case False
    obtain token more where f: "find_sep True below False str = (token, more)" by fastforce
    obtain s' bad e where rt: "run_token t flag s token = Some (s', bad, e)"
      using 1(3) False f by (subst (asm) run_tokens.simps) (auto split: option.splits)
    obtain e' where rt': "run_token t' flag s token = Some (s', bad, e')" "rel_option entry_le e e'"
      using run_token_le [OF 1(2) rt] by blast
    have rep: "(case e of None \<Rightarrow> rep | Some x \<Rightarrow> rep AND cmd_repeatable x) =
        (case e' of None \<Rightarrow> rep | Some x \<Rightarrow> rep AND cmd_repeatable x)" "(e' = None) = (e = None)"
      using rt'(2) entry_le_fields by (cases e; cases e'; fastforce)+
    show ?thesis
    proof (cases "e \<noteq> None \<and> ctrlc_was_pressed s'")
      case True
      then show ?thesis using 1(3) False f rt rt'(1) rep(2) by (auto simp: run_tokens.simps [of t] run_tokens.simps [of t'])
    next
      case go: False
      have "run_tokens t flag s' NUL (case more of None \<Rightarrow> [] | Some r \<Rightarrow> r) (if bad then -1 else rc)
          (case e of None \<Rightarrow> rep | Some x \<Rightarrow> rep AND cmd_repeatable x) = Some r"
        using 1(3) False f rt go by (subst (asm) run_tokens.simps) (auto simp: Let_def)
      from 1(1) [OF False f [symmetric] refl refl rt refl refl refl refl _ 1(2) this] go
      have "run_tokens t' flag s' NUL (case more of None \<Rightarrow> [] | Some r \<Rightarrow> r) (if bad then -1 else rc)
          (case e of None \<Rightarrow> rep | Some x \<Rightarrow> rep AND cmd_repeatable x) = Some r" by blast
      then show ?thesis using False f rt'(1) go rep by (subst run_tokens.simps) (auto simp: Let_def)
    qed
  qed
qed

lemma run_command_le:
  "list_all2 entry_le t t' \<Longrightarrow> run_command t below s c flag = Some r \<Longrightarrow> run_command t' below s c flag = Some r"
  by (auto simp: run_command_def Let_def run_tokens_le split: if_splits)

lemma run_vars_le:
  "(\<And>s c r. f s c = Some r \<Longrightarrow> g s c = Some r) \<Longrightarrow> run_vars f s names = Some r \<Longrightarrow> run_vars g s names = Some r"
proof (induction names arbitrary: s)
  case (Cons name names)
  then show ?case by (fastforce split: option.splits if_splits bind_splits)
qed simp

lemma board_cmds_le:
  assumes "\<And>flag s c r. f flag s c = Some r \<Longrightarrow> g flag s c = Some r"
  shows "list_all2 entry_le (board_cmds ca others f) (board_cmds ca others g)"
proof -
  have "entry_le (run_entry f) (run_entry g)"
    by (auto simp: entry_le_def run_entry_def U_BOOT_CMD_def do_run_def cmd_usage_def Let_def
        intro: run_vars_le [where f = "f flag" and g = "g flag" for flag, OF assms])
  moreover have "(run_entry f)\<lparr> cmd_fun := (\<lambda>_ _ _. None) \<rparr> = (run_entry g)\<lparr> cmd_fun := (\<lambda>_ _ _. None) \<rparr>"
    by (simp add: run_entry_def Let_def)
  ultimately show ?thesis by (simp add: board_cmds_def Let_def list_all2_refl)
qed

lemma run_nested_le:
  "run_nested ca others below d n flag s c = Some r \<Longrightarrow> n \<le> k \<Longrightarrow> run_nested ca others below d k flag s c = Some r"
proof (induction n arbitrary: d k flag s c r)
  case (Suc n)
  then obtain j where j: "k = Suc j" "n \<le> j" by (cases k) auto
  have "list_all2 entry_le (board_cmds ca others (run_nested ca others below (Suc d) n))
      (board_cmds ca others (run_nested ca others below (Suc d) j))"
    by (rule board_cmds_le) (rule Suc.IH [OF _ j(2)])
  then show ?case using Suc.prems j by (auto intro: run_command_le)
qed simp


section \<open>Autoboot\<close>

text \<open>How many looks at the console find nothing before the first key.\<close>

definition quiet :: "char option list \<Rightarrow> nat" where
  "quiet ks = length (takeWhile (\<lambda>k. k = None) ks)"

lemma quiet_simps [simp]: "quiet [] = 0" "quiet (None # ks) = Suc (quiet ks)" "quiet (Some c # ks) = 0"
  by (simp_all add: quiet_def)

lemma quiet_drop: "n \<le> quiet ks \<Longrightarrow> quiet (drop n ks) = quiet ks - n \<and> (quiet (drop n ks) < length (drop n ks) \<longleftrightarrow> quiet ks < length ks)"
proof (induction n arbitrary: ks)
  case (Suc n)
  then obtain ks' where "ks = None # ks'" by (cases ks; cases "hd ks") auto
  then show ?case using Suc by auto
qed simp

lemma keys_sh_puts [simp]: "keys (sh_puts t s) = keys s" "emem (sh_env (sh_puts t s)) = emem (sh_env s)"
  by (simp_all add: sh_puts_def puts_def)

lemma abort_wait_eq:
  "abort_wait n s = (if quiet (keys s) < min n (length (keys s)) then (True, s\<lparr> keys := drop (Suc (quiet (keys s))) (keys s) \<rparr>)
     else (False, s\<lparr> keys := drop n (keys s) \<rparr>))"
proof (induction n arbitrary: s)
  case (Suc n)
  show ?case
  proof (cases "keys s")
    case Nil
    have "s\<lparr> keys := [] \<rparr> = s" using Nil by (cases s) simp
    then show ?thesis using Nil Suc.IH [of s] by (simp add: tstc_def)
  next
    case (Cons k ks)
    show ?thesis
    proof (cases k)
      case None
      then show ?thesis using Cons Suc.IH [of "s\<lparr> keys := ks \<rparr>"] by (simp add: tstc_def)
    qed (use Cons in \<open>simp add: tstc_def getc_ready_def\<close>)
  qed
qed simp

lemma abort_count_eq:
  "fst (abort_count d s) = (quiet (keys s) < min (100 * d) (length (keys s))) \<and>
   keys (snd (abort_count d s)) =
     (if fst (abort_count d s) then drop (Suc (quiet (keys s))) (keys s) else drop (100 * d) (keys s)) \<and>
   emem (sh_env (snd (abort_count d s))) = emem (sh_env s)"
proof (induction d arbitrary: s)
  case (Suc d)
  show ?case
  proof (cases "quiet (keys s) < min 100 (length (keys s))")
    case True
    then show ?thesis by (auto simp: abort_wait_eq Let_def)
  next
    case False
    let ?t = "sh_puts ([BS, BS, BS] @ count2 (int d) @ '' '') (s\<lparr> keys := drop 100 (keys s) \<rparr>)"
    have "abort_wait 100 s = (False, s\<lparr> keys := drop 100 (keys s) \<rparr>)"
      unfolding abort_wait_eq using False by (simp only: if_False)
    then have step: "abort_count (Suc d) s = abort_count d ?t" by simp
    show ?thesis
    proof (cases "100 \<le> quiet (keys s)")
      case True
      from quiet_drop [OF this] have "quiet (drop 100 (keys s)) = quiet (keys s) - 100"
        "quiet (drop 100 (keys s)) < length (drop 100 (keys s)) \<longleftrightarrow> quiet (keys s) < length (keys s)"
        by blast+
      then show ?thesis using Suc.IH [of ?t] True unfolding step by (auto simp: Suc_diff_le add.commute)
    next
      case short: False
      then have "length (keys s) \<le> quiet (keys s)" using False by simp
      moreover have "quiet (keys s) \<le> length (keys s)" by (simp add: quiet_def length_takeWhile_le)
      ultimately show ?thesis using Suc.IH [of ?t] short unfolding step by auto
    qed
  qed
qed simp

section \<open>Properties\<close>

text \<open>\<^verbatim>\<open>parse_line\<close> stores the first sixteen words of the line, which white space separates. It prints the
  complaint about too many arguments exactly when text is left behind the sixteenth, be it only white
  space.\<close>

theorem parse_line_correct:
  "parse_line line =
     (take CONFIG_SYS_MAXARGS (words line),
      if length (words line) > CONFIG_SYS_MAXARGS \<or> length (words line) = CONFIG_SYS_MAXARGS \<and> is_white (last line)
      then ''** Too many args (max. '' @ decimal CONFIG_SYS_MAXARGS @ '') **'' @ nl else [])"
proof -
  have "0 < CONFIG_SYS_MAXARGS" by (simp add: CONFIG_SYS_MAXARGS_def)
  from parse_line_loop_eq [OF this] show ?thesis by (auto simp: parse_line_def Let_def)
qed

text \<open>C15: \<^verbatim>\<open>process_macros\<close> expands a command written in its notation: plain characters stand for themselves,
  a backslash hides the meaning of the next character, quoted text is taken as it is, and a variable
  stands for its value or, when it is not set, for nothing. The result is cut to the buffer.\<close>

theorem process_macros_correct:
  "env_ok env es \<Longrightarrow> list_all macro_ok ms \<Longrightarrow>
   process_macros env (macros_text ms) = Some (take (CONFIG_SYS_CBSIZE - 1) (macros_value es ms))"
  by (rule process_macros_eq)

theorem process_macros_correct_witness:
  "process_macros sample_env ''x${a}'' = Some ''x1'' \<and> process_macros sample_env ([BSLASH] @ ''$(a)'') = Some ''$(a)''"
proof
  show "process_macros sample_env ''x${a}'' = Some ''x1''"
    using process_macros_correct [OF sample_env_ok, of "[Plain CHR ''x'', Var ''a'']"]
    by (simp add: env_lookup_def name_of_def value_of_def name_ok_def CONFIG_SYS_CBSIZE_def)
  show "process_macros sample_env ([BSLASH] @ ''$(a)'') = Some ''$(a)''"
    using process_macros_correct [OF sample_env_ok, of "Escaped CHR ''$'' # map Plain ''(a)''"]
    by (simp add: CONFIG_SYS_CBSIZE_def)
qed

text \<open>On any input whatever, \<^verbatim>\<open>process_macros\<close> returns, and its result with the terminating NUL fits the
  output buffer.\<close>

theorem process_macros_fits:
  assumes "env_ok env es"
  shows "\<exists>out. process_macros env input = Some out \<and> length out < CONFIG_SYS_CBSIZE"
proof -
  have "0 < CONFIG_SYS_CBSIZE" by (simp add: CONFIG_SYS_CBSIZE_def)
  moreover obtain out where "macro_loop env Wait_Dollar [] NUL input CONFIG_SYS_CBSIZE = Some out"
    "length out \<le> CONFIG_SYS_CBSIZE"
    using macro_loop_room [OF assms] by blast
  ultimately show ?thesis by (auto simp: process_macros_def)
qed

theorem process_macros_fits_witness:
  "\<exists>out. process_macros sample_env ''${a}${'' = Some out \<and> length out < CONFIG_SYS_CBSIZE"
  by (rule process_macros_fits [OF sample_env_ok])

text \<open>C14: Running a line does what the rules of \<open>line_runs\<close> say, for commands written in the notation: the line
  is split at the semicolons that are neither quoted nor escaped, each command gets the words of its
  value in the environment that the commands before it left, errors do not stop the line, Control-C
  does, and the result is 1 only if every command ran, returned 0 and is repeatable.\<close>

theorem run_command_correct:
  assumes "line_runs table flag (s\<lparr> ctrlc_was_pressed := False \<rparr>) cs 0 1 s' r" "cs \<noteq> []"
    and "\<forall>ms \<in> set cs. ms \<noteq> [] \<and> list_all macro_ok ms" "length (line_text cs) < CONFIG_SYS_CBSIZE" "below \<noteq> BSLASH"
  shows "run_command table below s (line_text cs) flag = Some (s', r)"
proof -
  have "line_text cs \<noteq> []" using assms(2,3) line_text_nonempty by (cases cs) auto
  then show ?thesis
    using run_tokens_line [OF assms(1,3,5)] assms(4) by (simp add: run_command_def)
qed

definition sample_shell :: shell where
  "sample_shell = \<lparr> sh_env = sample_env, keys = [], ctrlc_was_pressed = False, lastcommand = [] \<rparr>"

theorem run_command_correct_witness:
  "run_command [] NUL sample_shell ''x'' 0 = Some (sh_puts (unknown_cmd ''x'') sample_shell, -1)"
proof -
  let ?ms = "[Plain CHR ''x'']"
  have args: "args_of [''bootdelay=3'', ''a=1''] ?ms = [''x'']" "args_msg [''bootdelay=3'', ''a=1''] ?ms = []"
    by (simp_all add: args_of_def args_msg_def words_def is_white_def CONFIG_SYS_MAXARGS_def CONFIG_SYS_CBSIZE_def)
  have p: "sh_puts [] sample_shell = sample_shell" by (simp add: sh_puts_def puts_def sample_shell_def sample_env_def)
  have c: "sample_shell\<lparr> ctrlc_was_pressed := False \<rparr> = sample_shell" by (simp add: sample_shell_def)
  have "outcome [] 0 sample_shell [''x''] (sh_puts (unknown_cmd (hd [''x''])) sample_shell) True None"
    by (rule unknown) (simp_all add: find_cmd_tbl_def)
  moreover have "env_ok (sh_env sample_shell) [''bootdelay=3'', ''a=1'']"
    using sample_env_ok by (simp add: sample_shell_def)
  moreover have "line_runs [] 0 (sh_puts (unknown_cmd ''x'') sample_shell) [] (-1) 1 (sh_puts (unknown_cmd ''x'') sample_shell) (-1)"
    using line_end [of "[]" 0 _ "-1" 1] by simp
  ultimately have "line_runs [] 0 sample_shell [?ms] 0 1 (sh_puts (unknown_cmd ''x'') sample_shell) (-1)"
    by (intro line_bad [where bad = True and es = "[''bootdelay=3'', ''a=1'']"]) (simp_all only: args p list.sel)
  then show ?thesis
    using run_command_correct [of "[]" 0 sample_shell "[?ms]" _ "-1" NUL] by (simp add: c CONFIG_SYS_CBSIZE_def)
qed

text \<open>A variable that runs itself never comes back, however deep the model follows it (and a deeper look
  never changes a result, by \<open>run_nested_le\<close>): the recursion of \<^verbatim>\<open>run\<close> has no bound.\<close>

theorem run_nested_self:
  assumes "env_ok (sh_env s) es" "env_lookup ''a'' es = Some ''run a''"
  shows "run_nested ca others below d n flag s ''run a'' = None"
  using assms(1)
proof (induction n arbitrary: d flag s)
  case (Suc n)
  let ?ms = "map Plain ''run a''"
  let ?run = "run_nested ca others below (Suc d) n"
  let ?t = "board_cmds ca others ?run"
  define s1 where "s1 = sh_puts [] (s\<lparr> ctrlc_was_pressed := False \<rparr>)"
  have env1: "env_ok (sh_env s1) es" using Suc.prems by (simp add: s1_def sh_puts_def puts_def)
  have args: "args_of es ?ms = [''run'', ''a'']" "args_msg es ?ms = []"
    by (simp_all add: args_of_def args_msg_def words_def is_white_def CONFIG_SYS_MAXARGS_def CONFIG_SYS_CBSIZE_def)
  have pl: "parse_line (take (CONFIG_SYS_CBSIZE - 1) ''run a'') = ([''run'', ''a''], [])"
    using parse_line_eq [of es ?ms] args by simp
  have f: "find_cmd_tbl ''run'' ?t = Some (run_entry ?run)"
    by (simp add: find_cmd_tbl_def board_cmds_def Let_def strncmp_0_def cmd_len_def help_entry_def U_BOOT_CMD_def
        printenv_entry_def run_entry_def)
  have m: "process_macros (sh_env s) ''run a'' = Some (take (CONFIG_SYS_CBSIZE - 1) (macros_value es ?ms))"
    using process_macros_eq [OF Suc.prems, of ?ms] by simp
  obtain a where a: "getenv (sh_env s1) ''a'' = Some (Some a)" "cstr (emem (sh_env s1)) a ''run a''"
    using getenv_ok [OF env1, of "''a''"] assms(2) by (auto simp: name_ok_def)
  have "cmd_fun (run_entry ?run) flag [''run'', ''a''] s1 = None"
    using a(1) str_at_cstr [OF a(2)] Suc.IH [OF env1] by (simp add: run_entry_def Let_def U_BOOT_CMD_def do_run_def)
  moreover have "cmd_maxargs (run_entry ?run) = 16"
    by (simp add: run_entry_def Let_def U_BOOT_CMD_def CONFIG_SYS_MAXARGS_def)
  ultimately have "run_token ?t flag (s\<lparr> ctrlc_was_pressed := False \<rparr>) ''run a'' = None"
    using m f pl by (simp add: run_token_def s1_def [symmetric] del: One_nat_def)
  then show ?case
    by (simp add: run_command_def CONFIG_SYS_CBSIZE_def run_tokens.simps)
qed simp


definition env_with :: "string list \<Rightarrow> env_state" where
  "env_with es = sample_env\<lparr> emem := mem_put (\<lambda>_. NUL) 104 (enc es) \<rparr>"

lemma env_with_ok:
  assumes "\<forall>e \<in> set es. entry_ok e" "distinct (map name_of es)" "esize es + 1 \<le> ENV_SIZE"
  shows "env_ok (env_with es) es"
proof -
  have "strs (mem_put (\<lambda>_. NUL) 104 (enc es @ [])) 104 es" using assms(1) by (intro strs_enc) (simp add: list_all_iff)
  moreover have "mem_put (\<lambda>_. NUL) 104 (enc es) (104 + esize es) = NUL" by (simp add: mem_put_outside length_enc)
  moreover have "es = [] \<Longrightarrow> enc es = []" by (simp add: enc_def)
  ultimately show ?thesis
    using assms by (simp add: env_ok_def env_at_def env_with_def sample_env_def env_data_def ENV_HEADER_SIZE_def)
qed

theorem run_nested_self_witness:
  "run_nested (\<lambda>_ _. True) [] (\<lambda>_. NUL) 0 5 0 (sample_shell\<lparr> sh_env := env_with [''a=run a''] \<rparr>) ''run a'' = None"
proof -
  have "env_ok (env_with [''a=run a'']) [''a=run a'']"
    by (rule env_with_ok) (simp_all add: entry_ok_def ENV_SIZE_def CONFIG_ENV_SIZE_def ENV_HEADER_SIZE_def)
  then show ?thesis
    by (intro run_nested_self [where es = "[''a=run a'']"]) (simp_all add: env_lookup_def name_of_def value_of_def)
qed

text \<open>C19: The countdown of autoboot stops the boot exactly when a key arrives within its looks at the console,
  one at the start and a hundred in each second; it takes that key and leaves those behind it.\<close>

theorem abortboot_correct:
  assumes "0 \<le> bootdelay"
  shows "let looks = 1 + 100 * nat bootdelay; ks = keys s; (ab, s') = abortboot bootdelay s in
    (ab \<longleftrightarrow> quiet ks < length ks \<and> quiet ks < looks) \<and>
    keys s' = drop (if ab then Suc (quiet ks) else looks) ks \<and> emem (sh_env s') = emem (sh_env s)"
proof -
  let ?s0 = "sh_puts (''Hit any key to stop autoboot: '' @ count2 bootdelay @ '' '') s"
  show ?thesis
  proof (cases "keys s")
    case Nil
    then have "abortboot bootdelay s = (let (ab, s') = abort_count (nat bootdelay) ?s0 in (ab, sh_puts nl s'))"
      using assms by (simp add: abortboot_def tstc_def Let_def)
    then show ?thesis using Nil abort_count_eq [of "nat bootdelay" ?s0] by (auto simp: Let_def split: prod.splits)
  next
    case (Cons k ks)
    show ?thesis
    proof (cases k)
      case None
      let ?s1 = "?s0\<lparr> keys := ks \<rparr>"
      have "abortboot bootdelay s = (let (ab, s') = abort_count (nat bootdelay) ?s1 in (ab, sh_puts nl s'))"
        using assms Cons None by (simp add: abortboot_def tstc_def Let_def)
      then show ?thesis
        using Cons None abort_count_eq [of "nat bootdelay" ?s1] by (auto simp: Let_def split: prod.splits)
    next
      case (Some c)
      then show ?thesis using assms Cons by (simp add: abortboot_def tstc_def getc_ready_def Let_def)
    qed
  qed
qed

theorem abortboot_correct_witness:
  "let (ab, s') = abortboot 3 (sample_shell\<lparr> keys := [None, Some CHR ''x'', Some CHR ''y''] \<rparr>) in ab \<and> keys s' = [Some CHR ''y'']"
  using abortboot_correct [of 3 "sample_shell\<lparr> keys := [None, Some CHR ''x'', Some CHR ''y''] \<rparr>"]
  by (simp add: Let_def split: prod.splits)

lemma readline_end:
  assumes "list_all edit_key (typed ks)" "t = fold edit (typed ks) []"
  shows "\<exists>l. readline (Some CONFIG_SYS_PROMPT) buf (ks @ Some k # rest) =
      (if k = CR \<or> k = LF then Some (int (length t), l\<lparr> lbuf := (lbuf l)(length t := NUL), lout := lout l @ [CR, LF] \<rparr>, rest)
       else readline_loop (int (length CONFIG_SYS_PROMPT)) l (Some k # rest)) \<and>
    cstr ((lbuf l)(length t := NUL)) 0 t"
proof -
  have "prompt_ok CONFIG_SYS_PROMPT" by (simp add: prompt_ok_def CONFIG_SYS_PROMPT_def visible_def)
  then obtain l where l: "readline (Some CONFIG_SYS_PROMPT) buf (ks @ Some k # rest) =
      readline_loop (int (length CONFIG_SYS_PROMPT)) l (Some k # rest)" "holds CONFIG_SYS_PROMPT t l"
    using readline_keys [OF start_holds [of CONFIG_SYS_PROMPT "buf(0 := NUL)"] assms(1), of "Some k # rest"] assms(2)
    by (auto simp: readline_def readline_into_buffer_def simp del: readline_loop.simps)
  have h: "lp l = length t" "mem_get (lbuf l) 0 (length t) = t" "NUL \<notin> set t"
    using l(2) by (auto simp: holds_eq list_all_iff)
  moreover have "mem_get ((lbuf l)(length t := NUL)) 0 (length t) = t"
    using h(2) mem_get_cong [of "length t" "(lbuf l)(length t := NUL)" 0 "lbuf l"] by simp
  ultimately have "cstr ((lbuf l)(length t := NUL)) 0 t" by (simp add: cstr_iff_mem_get mem_get_snoc)
  then show ?thesis using l(1) h(1) by (intro exI [of _ l]) auto
qed

text \<open>C18: One turn of the command loop on a line of visible characters and keys that erase, with whatever pauses. When return or
  newline ends the line, the turn runs what was typed, without the repeat flag, or for an empty line the last command with it; it
  forgets the last command exactly when the result says that it is not to be repeated. When Control-C ends it, nothing is run
  whatever was typed, the interrupt is reported and the result of the turn before is kept, and with it the last command, unless
  that result says that it is not to be repeated.\<close>

theorem main_loop_turn_correct:
  assumes "list_all edit_key (typed ks)" "t = fold edit (typed ks) []" "keys s = ks @ Some k # rest" "k \<in> {CR, LF, CHR 0x03}"
  shows "\<exists>out.
    (if k = CHR 0x03
     then main_loop_turn run s rc =
       Some (sh_puts (out @ ''<INTERRUPT>'' @ nl) (s\<lparr> keys := rest, lastcommand := (if rc \<le> 0 then [] else lastcommand s) \<rparr>), rc)
     else let s1 = sh_puts out (s\<lparr> keys := rest, lastcommand := (if t = [] then lastcommand s else t) \<rparr>) in
       main_loop_turn run s rc =
         map_option (\<lambda>(s2, r). (if r \<le> 0 then s2\<lparr> lastcommand := [] \<rparr> else s2, r)) (run (if t = [] then 1 else 0) s1 (lastcommand s1)))"
proof -
  obtain l where l: "readline (Some CONFIG_SYS_PROMPT) (\<lambda>_. NUL) (keys s) =
      (if k = CR \<or> k = LF then Some (int (length t), l\<lparr> lbuf := (lbuf l)(length t := NUL), lout := lout l @ [CR, LF] \<rparr>, rest)
       else readline_loop (int (length CONFIG_SYS_PROMPT)) l (Some k # rest))"
    "cstr ((lbuf l)(length t := NUL)) 0 t"
    using readline_end [OF assms(1,2), of "\<lambda>_. NUL" k rest] assms(3) by metis
  show ?thesis
  proof (cases "k = CHR 0x03")
    case True
    have "str_at ((lbuf l)(0 := NUL)) 0 = Some []" by (rule str_at_cstr) simp
    then have "main_loop_turn run s rc =
        Some (sh_puts (lout l @ ''<INTERRUPT>'' @ nl) (s\<lparr> keys := rest, lastcommand := (if rc \<le> 0 then [] else lastcommand s) \<rparr>), rc)"
      unfolding main_loop_turn_def l(1) using True by (simp add: Let_def sh_puts_def puts_def)
    then show ?thesis using True by (intro exI [of _ "lout l"]) simp
  next
    case False
    let ?o = "lout l @ [CR, LF]"
    let ?s1 = "sh_puts ?o (s\<lparr> keys := rest, lastcommand := (if t = [] then lastcommand s else t) \<rparr>)"
    have s1: "(if int (length t) > 0 then (sh_puts ?o (s\<lparr> keys := rest \<rparr>))\<lparr> lastcommand := t \<rparr> else sh_puts ?o (s\<lparr> keys := rest \<rparr>)) = ?s1"
      by (simp add: sh_puts_def)
    have lc: "lastcommand (sh_puts x u) = lastcommand u" for x u by (simp add: sh_puts_def)
    have fin: "(k = CR \<or> k = LF) = True" using False assms(4) by simp
    have "main_loop_turn run s rc =
        Option.bind (run (if t = [] then 1 else 0) ?s1 (lastcommand ?s1))
          (\<lambda>(s2, r). Some (if r \<le> 0 then s2\<lparr> lastcommand := [] \<rparr> else s2, r))"
      unfolding main_loop_turn_def l(1) fin using str_at_cstr [OF l(2)] s1 by (cases "t = []") (simp_all add: Let_def lc)
    then show ?thesis using False
      by (intro exI [of _ ?o]) (auto simp: Let_def map_option_case split: bind_splits option.splits)
  qed
qed

theorem main_loop_turn_correct_witness:
  "(\<exists>s1. main_loop_turn (\<lambda>flag s c. Some (s, if c = ''a'' \<and> flag = 0 then 1 else -1))
     (sample_shell\<lparr> keys := [Some CHR ''a'', Some CR] \<rparr>) 1 = Some (s1, 1) \<and> lastcommand s1 = ''a'') \<and>
   (\<exists>s1. main_loop_turn (\<lambda>_ _ _. None) (sample_shell\<lparr> keys := [Some CHR ''a'', Some (CHR 0x03)], lastcommand := ''md'' \<rparr>) 1 = Some (s1, 1) \<and>
     lastcommand s1 = ''md'')"
proof -
  let ?s = "sample_shell\<lparr> keys := [Some CHR ''a'', Some CR] \<rparr>"
  let ?b = "sample_shell\<lparr> keys := [Some CHR ''a'', Some (CHR 0x03)], lastcommand := ''md'' \<rparr>"
  have t: "list_all edit_key (typed [Some CHR ''a''])" "''a'' = fold edit (typed [Some CHR ''a'']) []"
    by (simp_all add: typed_def edit_key_def visible_def edit_def CONFIG_SYS_CBSIZE_def)
  have k: "keys ?s = [Some CHR ''a''] @ Some CR # []" "keys ?b = [Some CHR ''a''] @ Some (CHR 0x03) # []" by simp_all
  from main_loop_turn_correct [OF t k(1), of "\<lambda>flag s c. Some (s, if c = ''a'' \<and> flag = 0 then 1 else -1)" 1]
  obtain o1 where "main_loop_turn (\<lambda>flag s c. Some (s, if c = ''a'' \<and> flag = 0 then 1 else -1)) ?s 1 =
      Some (sh_puts o1 (?s\<lparr> keys := [], lastcommand := ''a'' \<rparr>), 1)"
    by (auto simp: Let_def sh_puts_def)
  moreover from main_loop_turn_correct [OF t k(2), of "\<lambda>_ _ _. None" 1]
  obtain o2 where "main_loop_turn (\<lambda>_ _ _. None) ?b 1 = Some (sh_puts (o2 @ ''<INTERRUPT>'' @ nl) (?b\<lparr> keys := [], lastcommand := ''md'' \<rparr>), 1)"
    by auto
  ultimately show ?thesis by (simp add: sh_puts_def)
qed

text \<open>The print buffer is too small for the complaint about an unknown command: a line of the greatest length
  that can be typed, one word of 254 characters, makes \<^verbatim>\<open>printf\<close> write six bytes behind its buffer.\<close>

theorem unknown_cmd_overflow:
  assumes "env_ok (sh_env s) es" "c = replicate (CONFIG_SYS_CBSIZE - 2) CHR ''x''" "find_cmd_tbl c table = None"
  shows "\<exists>s'. run_command table below s c flag = Some (s', -1) \<and>
    con_out (sh_env s') = con_out (sh_env s) @ unknown_cmd c \<and>
    length (unknown_cmd c) + 1 = CONFIG_SYS_PBSIZE + 6"
proof -
  let ?ms = "replicate 254 (Plain CHR ''x'')"
  have c: "c = replicate 254 CHR ''x''" using assms(2) by (simp add: CONFIG_SYS_CBSIZE_def)
  have len: "c \<noteq> []" "length c < CONFIG_SYS_CBSIZE" by (simp_all add: c CONFIG_SYS_CBSIZE_def)
  have rep: "macros_text (replicate n (Plain CHR ''x'')) = replicate n CHR ''x''"
    "macros_value es (replicate n (Plain CHR ''x'')) = replicate n CHR ''x''" for n
    by (induction n) simp_all
  have w: "words c = [c]"
    using words_word [of c "[]"] by (simp add: c is_white_def)
  have "list_all macro_ok ?ms" by (simp add: list_all_iff)
  from process_macros_eq [OF assms(1) this] have m: "process_macros (sh_env s) c = Some c"
    by (simp add: rep c CONFIG_SYS_CBSIZE_def)
  have pl: "parse_line c = ([c], [])"
    using parse_line_loop_eq [of 0 c] w by (simp add: parse_line_def CONFIG_SYS_MAXARGS_def)
  have sep: "find_sep True below False c = (c, None)"
    using find_sep_plain [of c True below "[]"] by (simp add: c)
  let ?s = "sh_puts (unknown_cmd c) (sh_puts [] (s\<lparr> ctrlc_was_pressed := False \<rparr>))"
  have "run_token table flag (s\<lparr> ctrlc_was_pressed := False \<rparr>) c = Some (?s, True, None)"
    using m pl assms(3) by (simp add: run_token_def)
  then have "run_command table below s c flag = Some (?s, -1)"
    using sep len by (simp add: run_command_def run_tokens.simps [of _ _ _ _ c] run_tokens.simps [of _ _ _ _ "[]"])
  then show ?thesis
    by (intro exI [of _ ?s])
      (simp add: sh_puts_def puts_def unknown_cmd_def c CONFIG_SYS_PBSIZE_def CONFIG_SYS_CBSIZE_def CONFIG_SYS_PROMPT_def nl_def)
qed

theorem unknown_cmd_overflow_witness:
  "\<exists>s'. run_command [] NUL sample_shell (replicate 254 CHR ''x'') 0 = Some (s', -1) \<and>
     length (unknown_cmd (replicate 254 CHR ''x'')) + 1 = CONFIG_SYS_PBSIZE + 6"
proof -
  have "env_ok (sh_env sample_shell) [''bootdelay=3'', ''a=1'']" using sample_env_ok by (simp add: sample_shell_def)
  moreover have "replicate 254 CHR ''x'' = replicate (CONFIG_SYS_CBSIZE - 2) CHR ''x''" by (simp add: CONFIG_SYS_CBSIZE_def)
  ultimately show ?thesis
    using unknown_cmd_overflow [of sample_shell _ "replicate 254 CHR ''x''" "[]" NUL 0] by (auto simp: find_cmd_tbl_def)
qed

end
