(* ===== verification/Flash.thy ===== *)
theory Flash
  imports Env
begin

text \<open>
  Banks and sectors of flash memory: \<^verbatim>\<open>include/flash.h\<close>, the part of \<^verbatim>\<open>common/flash.c\<close> and
  \<^verbatim>\<open>common/cmd_flash.c\<close> that deals with addresses, sectors and their protection and does not touch the
  chip. Addresses are the 32-bit words of the code. The array \<^verbatim>\<open>flash_info\<close> is a list of banks; a
  function that prints gives its text.
\<close>

section \<open>The code\<close>

definition CONFIG_SYS_MAX_FLASH_BANKS :: nat where "CONFIG_SYS_MAX_FLASH_BANKS = 1"
definition CONFIG_SYS_MAX_FLASH_SECT :: nat where "CONFIG_SYS_MAX_FLASH_SECT = 512"

record flash_info =
  fi_size :: u32
  sector_count :: nat
  flash_id :: u32
  sect_start :: "u32 list"
  protect :: "bool list"

definition FLASH_UNKNOWN :: u32 where "FLASH_UNKNOWN = 0xFFFF"
definition FLASH_VENDMASK :: u32 where "FLASH_VENDMASK = 0xFFFF0000"
definition FLASH_TYPEMASK :: u32 where "FLASH_TYPEMASK = 0x0000FFFF"
definition FLASH_MAN_SST :: u32 where "FLASH_MAN_SST = 0x00100000"

definition ERR_OK :: int where "ERR_OK = 0"
definition ERR_TIMOUT :: int where "ERR_TIMOUT = 1"
definition ERR_NOT_ERASED :: int where "ERR_NOT_ERASED = 2"
definition ERR_PROTECTED :: int where "ERR_PROTECTED = 4"
definition ERR_INVAL :: int where "ERR_INVAL = 8"
definition ERR_ALIGN :: int where "ERR_ALIGN = 16"
definition ERR_UNKNOWN_FLASH_VENDOR :: int where "ERR_UNKNOWN_FLASH_VENDOR = 32"
definition ERR_UNKNOWN_FLASH_TYPE :: int where "ERR_UNKNOWN_FLASH_TYPE = 64"
definition ERR_PROG_ERROR :: int where "ERR_PROG_ERROR = 128"

definition FLAG_PROTECT_SET :: u32 where "FLAG_PROTECT_SET = 1"
definition FLAG_PROTECT_CLEAR :: u32 where "FLAG_PROTECT_CLEAR = 2"

definition dec :: "int \<Rightarrow> string" where "dec i = number (of_int i) 10 (-1) (-1) SIGN"
definition hex8 :: "u32 \<Rightarrow> string" where "hex8 w = number (ucast w) 16 8 (-1) (ZEROPAD OR SMALL)"
definition HEX8 :: "u32 \<Rightarrow> string" where "HEX8 w = number (ucast w) 16 8 (-1) ZEROPAD"

definition b_end :: "flash_info \<Rightarrow> u32" where
  "b_end info = sect_start info ! 0 + fi_size info - 1"

definition s_end :: "flash_info \<Rightarrow> int" where
  "s_end info = int (sector_count info) - 1"

text \<open>The last address of a sector, as all the loops compute it.\<close>

definition sect_end :: "flash_info \<Rightarrow> nat \<Rightarrow> u32" where
  "sect_end info i = (if int i = s_end info then b_end info else sect_start info ! (i + 1) - 1)"

definition flash_protect_sect :: "u32 \<Rightarrow> u32 \<Rightarrow> u32 \<Rightarrow> nat \<Rightarrow> flash_info \<Rightarrow> flash_info" where
  "flash_protect_sect flag from to i info =
     (if from \<le> sect_end info i \<and> to \<ge> sect_start info ! i
      then if flag AND FLAG_PROTECT_CLEAR \<noteq> 0 then info\<lparr> protect := (protect info)[i := False] \<rparr>
           else if flag AND FLAG_PROTECT_SET \<noteq> 0 then info\<lparr> protect := (protect info)[i := True] \<rparr>
           else info
      else info)"

definition flash_protect :: "u32 \<Rightarrow> u32 \<Rightarrow> u32 \<Rightarrow> flash_info \<Rightarrow> flash_info" where
  "flash_protect flag from to info =
     (if sector_count info = 0 \<or> fi_size info = 0 \<or> to < from then info
      else if flash_id info = FLASH_UNKNOWN \<or> to < sect_start info ! 0 \<or> from > b_end info then info
      else fold (flash_protect_sect flag from to) [0..<sector_count info] info)"

text \<open>The index of the bank that holds an address.\<close>

fun addr2info :: "flash_info list \<Rightarrow> u32 \<Rightarrow> nat option" where
  "addr2info [] addr = None"
| "addr2info (info # banks) addr =
     (if flash_id info \<noteq> FLASH_UNKNOWN \<and> addr \<ge> sect_start info ! 0 \<and> addr \<le> b_end info then Some 0
      else map_option Suc (addr2info banks addr))"

definition flash_perror :: "int \<Rightarrow> string" where
  "flash_perror err =
     (if err = ERR_OK then []
      else if err = ERR_TIMOUT then ''Timeout writing to Flash'' @ nl
      else if err = ERR_NOT_ERASED then ''Flash not Erased'' @ nl
      else if err = ERR_PROTECTED then ''Can'' @ [CHR 0x27] @ ''t write to protected Flash sectors'' @ nl
      else if err = ERR_INVAL then ''Outside available Flash'' @ nl
      else if err = ERR_ALIGN then ''Start and/or end address not on sector boundary'' @ nl
      else if err = ERR_UNKNOWN_FLASH_VENDOR then ''Unknown Vendor of Flash'' @ nl
      else if err = ERR_UNKNOWN_FLASH_TYPE then ''Unknown Type of Flash'' @ nl
      else if err = ERR_PROG_ERROR then ''General Flash Programming Error'' @ nl
      else ''flash.c[221] FIXME: rc='' @ dec err @ nl)"

subsection \<open>Ranges of sectors\<close>

definition fill_step :: "flash_info \<Rightarrow> u32 \<Rightarrow> u32 \<Rightarrow> nat \<Rightarrow> int \<times> int \<Rightarrow> int \<times> int" where
  "fill_step info addr_first addr_last sect fl =
     (let (sf, sl) = fl in
      if addr_first > sect_end info sect then (sf, sl)
      else if addr_last < sect_start info ! sect then (sf, sl)
      else (if addr_first = sect_start info ! sect then int sect else sf,
            if addr_last = sect_end info sect then int sect else sl))"

definition fill_bank :: "flash_info \<Rightarrow> u32 \<Rightarrow> u32 \<Rightarrow> int \<times> int" where
  "fill_bank info addr_first addr_last =
     fold (fill_step info addr_first addr_last) [0..<sector_count info] (-1, -1)"

text \<open>\<^verbatim>\<open>flash_fill_sect_ranges\<close>: the first and last sector of each bank (-1 for none), the count, the return
  code and the text.\<close>

fun fill_banks :: "flash_info list \<Rightarrow> u32 \<Rightarrow> u32 \<Rightarrow> int \<Rightarrow> (int \<times> int) list \<times> int \<times> int \<times> string" where
  "fill_banks [] addr_first addr_last s_count = ([], s_count, 0, [])"
| "fill_banks (info # banks) addr_first addr_last s_count =
     (let none = replicate (length banks) (-1, -1) in
      if \<not> addr_first \<le> addr_last then ((-1, -1) # none, s_count, 0, [])
      else if flash_id info = FLASH_UNKNOWN
      then let (rs, r) = fill_banks banks addr_first addr_last s_count in ((-1, -1) # rs, r)
      else let (sf, sl) = fill_bank info addr_first addr_last in
           if sf \<ge> 0
           then if sl < 0 \<and> \<not> addr_last > b_end info
                then ((sf, sl) # none, s_count, 1, ''Error: end address not on sector boundary'' @ nl)
                else let sl' = (if sl < 0 then s_end info else sl) in
                     if sl' < sf
                     then ((sf, sl') # none, s_count, 1, ''Error: end sector precedes start sector'' @ nl)
                     else let addr_first' = (if sl' = s_end info then b_end info + 1 else sect_start info ! nat (sl' + 1));
                              (rs, r) = fill_banks banks addr_first' addr_last (s_count + (sl' - sf + 1))
                          in ((sf, sl') # rs, r)
           else if addr_first \<ge> sect_start info ! 0 \<and> addr_first < b_end info
           then ((sf, sl) # none, s_count, 1, ''Error: start address not on sector boundary'' @ nl)
           else if sl \<ge> 0
           then ((sf, sl) # none, s_count, 1,
                 ''Error: cannot span across banks when they are mapped in reverse order'' @ nl)
           else let (rs, r) = fill_banks banks addr_first addr_last s_count in ((sf, sl) # rs, r))"

definition flash_fill_sect_ranges :: "flash_info list \<Rightarrow> u32 \<Rightarrow> u32 \<Rightarrow> (int \<times> int) list \<times> int \<times> int \<times> string" where
  "flash_fill_sect_ranges banks addr_first addr_last = fill_banks banks addr_first addr_last 0"

definition set_protect :: "bool \<Rightarrow> int \<Rightarrow> int \<Rightarrow> flash_info \<Rightarrow> flash_info" where
  "set_protect p sf sl info = info\<lparr> protect := fold (\<lambda>i ps. ps[i := p]) [nat sf..<nat (sl + 1)] (protect info) \<rparr>"

definition un :: "bool \<Rightarrow> string" where "un p = (if p then [] else ''Un-'')"

definition protect_range :: "bool \<Rightarrow> flash_info \<times> int \<times> int \<Rightarrow> flash_info" where
  "protect_range p x = (let (info, sf, sl) = x in
     if flash_id info \<noteq> FLASH_UNKNOWN \<and> sf \<ge> 0 \<and> sf \<le> sl then set_protect p sf sl info else info)"

definition protected_count :: "flash_info \<times> int \<times> int \<Rightarrow> int" where
  "protected_count x = (let (info, sf, sl) = x in
     if flash_id info \<noteq> FLASH_UNKNOWN \<and> sf \<ge> 0 \<and> sf \<le> sl then sl - sf + 1 else 0)"

definition flash_sect_protect :: "bool \<Rightarrow> u32 \<Rightarrow> u32 \<Rightarrow> flash_info list \<Rightarrow> flash_info list \<times> int \<times> string" where
  "flash_sect_protect p addr_first addr_last banks =
     (let (rs, planned, rcode, txt) = flash_fill_sect_ranges banks addr_first addr_last in
      if planned \<noteq> 0 \<and> rcode = 0
      then (map (protect_range p) (zip banks rs), rcode,
            txt @ un p @ ''Protected '' @ dec (sum_list (map protected_count (zip banks rs))) @ '' sectors'' @ nl)
      else if rcode = 0
      then (banks, 1, txt @ ''Error: start and/or end address not on sector boundary'' @ nl)
      else (banks, rcode, txt))"

subsection \<open>Arguments of the flash commands\<close>

text \<open>\<^verbatim>\<open>flash_sect_roundb\<close>: the end of the sector that holds the address.\<close>

definition round_bank :: "flash_info \<Rightarrow> u32 \<Rightarrow> u32 option" where
  "round_bank info addr =
     (let last_of = (\<lambda>i. if int i = int (sector_count info) - 1 then sect_start info ! 0 + fi_size info - 1
                         else sect_start info ! (i + 1) - 1)
      in map_option last_of
           (find (\<lambda>i. addr \<le> last_of i \<and> addr \<ge> sect_start info ! i) [0..<sector_count info]))"

fun round_banks :: "flash_info list \<Rightarrow> u32 \<Rightarrow> u32 option" where
  "round_banks [] addr = None"
| "round_banks (info # banks) addr =
     (case round_bank info addr of Some e \<Rightarrow> Some e | None \<Rightarrow> round_banks banks addr)"

definition flash_sect_roundb :: "flash_info list \<Rightarrow> u32 \<Rightarrow> u32 \<times> int \<times> string" where
  "flash_sect_roundb banks addr =
     (case round_banks banks addr of
        Some e \<Rightarrow> (e, 0, [])
      | None \<Rightarrow> (addr, 1, ''Error: end address (0x'' @ hex8 addr @ '') not in flash!'' @ nl))"

text \<open>A number that is the whole text: the test on the end pointer after \<^verbatim>\<open>simple_strtoul\<close>.\<close>

definition whole_number :: "string \<Rightarrow> nat \<Rightarrow> u32 option" where
  "whole_number s base = (let (v, ep) = simple_strtoul s base in if ep = s \<or> ep \<noteq> [] then None else Some v)"

text \<open>\<^verbatim>\<open>addr_spec\<close>: the addresses, or None for -1; the second argument is missing only in a call the
  commands never make. The text is that of the rounding.\<close>

definition addr_spec :: "flash_info list \<Rightarrow> string \<Rightarrow> string \<Rightarrow> (u32 \<times> u32) option \<times> string" where
  "addr_spec banks arg1 arg2 =
     (case whole_number arg1 16 of
        None \<Rightarrow> (None, [])
      | Some addr_first \<Rightarrow>
          let len_used = (arg2 \<noteq> [] \<and> hd arg2 = CHR ''+'');
              a2 = (if len_used then tl arg2 else arg2)
          in case whole_number a2 16 of
               None \<Rightarrow> (None, [])
             | Some v \<Rightarrow>
                 if len_used
                 then let (addr_last, rc, txt) = flash_sect_roundb banks (addr_first + v - 1)
                      in (if rc > 0 then None else Some (addr_first, addr_last), txt)
                 else (Some (addr_first, v), []))"

text \<open>\<^verbatim>\<open>abbrev_spec\<close>: no colon (0), an error (-1), or the bank's index and the sectors. Numbers are read as
  unsigned and compared as \<^verbatim>\<open>int\<close>.\<close>

datatype abbrev = Abbrev_None | Abbrev_Error | Abbrev nat int int

definition split_at :: "char \<Rightarrow> string \<Rightarrow> string \<times> string option" where
  "split_at c s = (if c \<in> set s then (takeWhile (\<lambda>x. x \<noteq> c) s, Some (tl (dropWhile (\<lambda>x. x \<noteq> c) s))) else (s, None))"

definition abbrev_spec :: "flash_info list \<Rightarrow> string \<Rightarrow> abbrev" where
  "abbrev_spec banks str =
     (case split_at CHR '':'' str of
        (_, None) \<Rightarrow> Abbrev_None
      | (b, Some p) \<Rightarrow>
          (case whole_number b 10 of
             None \<Rightarrow> Abbrev_Error
           | Some bank \<Rightarrow>
               if sint bank < 1 \<or> sint bank > int (length banks) \<or> flash_id (banks ! nat (sint bank - 1)) = FLASH_UNKNOWN
               then Abbrev_Error
               else let fp = banks ! nat (sint bank - 1); (f, l) = split_at CHR ''-'' p in
                    case whole_number f 10 of
                      None \<Rightarrow> Abbrev_Error
                    | Some first \<Rightarrow>
                        if sint first \<ge> int (sector_count fp) then Abbrev_Error
                        else (case l of
                                None \<Rightarrow> Abbrev (nat (sint bank - 1)) (sint first) (sint first)
                              | Some l' \<Rightarrow>
                                  (case whole_number l' 10 of
                                     None \<Rightarrow> Abbrev_Error
                                   | Some lst \<Rightarrow>
                                       if sint lst < sint first \<or> sint lst \<ge> int (sector_count fp) then Abbrev_Error
                                       else Abbrev (nat (sint bank - 1)) (sint first) (sint lst)))))"

definition protect_all :: "bool \<Rightarrow> flash_info \<Rightarrow> flash_info" where
  "protect_all p info = info\<lparr> protect := fold (\<lambda>i ps. ps[i := p]) [0..<sector_count info] (protect info) \<rparr>"

fun protect_banks :: "bool \<Rightarrow> int \<Rightarrow> flash_info list \<Rightarrow> flash_info list \<times> string" where
  "protect_banks p bank [] = ([], [])"
| "protect_banks p bank (info # banks) =
     (let (bs, txt) = protect_banks p (bank + 1) banks in
      if flash_id info = FLASH_UNKNOWN then (info # bs, txt)
      else (protect_all p info # bs, un p @ ''Protect Flash Bank # '' @ dec bank @ nl @ txt))"

text \<open>The command \<^verbatim>\<open>protect\<close>; \<open>usage\<close> is what \<^verbatim>\<open>cmd_usage\<close> prints. A negative first sector makes it write in front
  of the array: no result.\<close>

definition do_protect :: "string \<Rightarrow> string list \<Rightarrow> flash_info list \<Rightarrow> (flash_info list \<times> int \<times> string) option" where
  "do_protect usage argv banks =
     (let argc = length argv in
      if argc < 3 then Some (banks, 1, usage)
      else if argv ! 1 \<noteq> ''off'' \<and> argv ! 1 \<noteq> ''on'' then Some (banks, 1, usage)
      else let p = (argv ! 1 = ''on'') in
        if argv ! 2 = ''all'' then (let (bs, txt) = protect_banks p 1 banks in Some (bs, 0, txt))
        else case abbrev_spec banks (argv ! 2) of
          Abbrev_Error \<Rightarrow> Some (banks, 1, ''Bad sector specification'' @ nl)
        | Abbrev i sf sl \<Rightarrow>
            if sf < 0 then None
            else Some (banks[i := set_protect p sf sl (banks ! i)], 0,
             un p @ ''Protect Flash Sectors '' @ dec sf @ ''-'' @ dec sl @ '' in Bank # '' @ dec (int i + 1) @ nl)
        | Abbrev_None \<Rightarrow>
            if argc \<noteq> 4 then Some (banks, 1, usage)
            else if argv ! 2 = ''bank''
            then let bank = fst (simple_strtoul (argv ! 3) 16) in
                 if bank < 1 \<or> unat bank > length banks
                 then Some (banks, 1, ''Only FLASH Banks # 1 ... # '' @ dec (int (length banks)) @ '' supported'' @ nl)
                 else let i = unat bank - 1; hd_txt = un p @ ''Protect Flash Bank # '' @ dec (uint bank) @ nl in
                      if flash_id (banks ! i) = FLASH_UNKNOWN
                      then Some (banks, 1, hd_txt @ ''missing or unknown FLASH type'' @ nl)
                      else Some (banks[i := protect_all p (banks ! i)], 0, hd_txt)
            else case addr_spec banks (argv ! 2) (argv ! 3) of
                   (None, txt) \<Rightarrow> Some (banks, 1, txt @ ''Bad address format'' @ nl)
                 | (Some (addr_first, addr_last), txt) \<Rightarrow>
                     if addr_first \<ge> addr_last then Some (banks, 1, txt @ usage)
                     else let (bs, rc, t) = flash_sect_protect p addr_first addr_last banks in Some (bs, rc, txt @ t))"


section \<open>Well-formed banks\<close>

text \<open>\<open>sect_lim info i\<close> is where sector \<open>i\<close> starts, as a number; the last one is the end of the bank.
  The sectors of a well-formed bank follow each other without a gap and without wrapping around.\<close>

definition sect_lim :: "flash_info \<Rightarrow> nat \<Rightarrow> nat" where
  "sect_lim info i = (if i = sector_count info then unat (sect_start info ! 0) + unat (fi_size info) else unat (sect_start info ! i))"

definition bank_ok :: "flash_info \<Rightarrow> bool" where
  "bank_ok info \<longleftrightarrow> flash_id info \<noteq> FLASH_UNKNOWN \<and> 0 < sector_count info \<and> sector_count info \<le> length (protect info) \<and>
     sect_lim info (sector_count info) \<le> 2 ^ 32 \<and> (\<forall>i < sector_count info. sect_lim info i < sect_lim info (Suc i))"

text \<open>Sector \<open>i\<close> holds the address.\<close>

definition in_sect :: "flash_info \<Rightarrow> nat \<Rightarrow> u32 \<Rightarrow> bool" where
  "in_sect info i a \<longleftrightarrow> sect_start info ! i \<le> a \<and> a \<le> sect_end info i"

lemma sect_lim_step: "bank_ok info \<Longrightarrow> i < sector_count info \<Longrightarrow> sect_lim info i < sect_lim info (Suc i)"
  by (simp add: bank_ok_def)

lemma sect_lim_mono: "bank_ok info \<Longrightarrow> i \<le> j \<Longrightarrow> j \<le> sector_count info \<Longrightarrow> sect_lim info i \<le> sect_lim info j"
proof (induction j)
  case (Suc j)
  show ?case
  proof (cases "i = Suc j")
    case False
    then have "sect_lim info i \<le> sect_lim info j" using Suc by simp
    also have "\<dots> \<le> sect_lim info (Suc j)" using sect_lim_step [of info j] Suc.prems by simp
    finally show ?thesis .
  qed simp
qed simp

lemma sect_lim_less: "bank_ok info \<Longrightarrow> i < j \<Longrightarrow> j \<le> sector_count info \<Longrightarrow> sect_lim info i < sect_lim info j"
  using sect_lim_mono [of info "Suc i" j] sect_lim_step [of info i] by simp

lemma sect_lim_bound: "bank_ok info \<Longrightarrow> i \<le> sector_count info \<Longrightarrow> sect_lim info i \<le> 2 ^ 32"
  using sect_lim_mono [of info i "sector_count info"] by (auto simp: bank_ok_def)

lemma sect_start_unat: "i < sector_count info \<Longrightarrow> unat (sect_start info ! i) = sect_lim info i"
  by (simp add: sect_lim_def)

lemma unat_minus_1: "w \<noteq> 0 \<Longrightarrow> unat (w - 1) = unat w - 1" for w :: u32
  by (rule unat_minus_one)

lemma fi_size_pos:
  assumes "bank_ok info"
  shows "0 < unat (fi_size info)"
  using sect_lim_less [OF assms, of 0 "sector_count info"] assms
  by (simp add: sect_lim_def bank_ok_def split: if_splits)

lemma b_end_unat:
  assumes "bank_ok info"
  shows "unat (b_end info) = sect_lim info (sector_count info) - 1"
proof -
  let ?s = "sect_start info ! 0" and ?z = "fi_size info"
  have "0 < unat ?z" and le: "unat ?s + unat ?z \<le> 2 ^ 32"
    using fi_size_pos [OF assms] assms by (auto simp: bank_ok_def sect_lim_def)
  then have z: "unat (?z - 1) = unat ?z - 1" by (intro unat_minus_1) auto
  have e: "?s + ?z - 1 = ?s + (?z - 1)" by simp
  have u: "unat (?s + (?z - 1)) = unat ?s + unat (?z - 1)"
    using le \<open>0 < unat ?z\<close> z by (subst unat_add_lem [THEN iffD1]) auto
  show ?thesis unfolding b_end_def e u z sect_lim_def using \<open>0 < unat ?z\<close> by simp
qed

lemma sect_end_unat:
  assumes ok: "bank_ok info" and i: "i < sector_count info"
  shows "unat (sect_end info i) = sect_lim info (Suc i) - 1"
proof (cases "Suc i = sector_count info")
  case True
  then show ?thesis using b_end_unat [OF ok] by (auto simp: sect_end_def s_end_def)
next
  case False
  then have n: "Suc i < sector_count info" using i by simp
  then have "0 < unat (sect_start info ! Suc i)"
    using sect_lim_less [OF ok, of i "Suc i"] by (simp add: sect_start_unat)
  then have "unat (sect_start info ! Suc i - 1) = unat (sect_start info ! Suc i) - 1"
    by (intro unat_minus_1) auto
  then show ?thesis using n False by (auto simp: sect_end_def s_end_def sect_start_unat)
qed

lemma in_sect_iff:
  "bank_ok info \<Longrightarrow> i < sector_count info \<Longrightarrow>
     in_sect info i a \<longleftrightarrow> sect_lim info i \<le> unat a \<and> unat a < sect_lim info (Suc i)"
  using sect_lim_less [of info i "Suc i"]
  by (auto simp: in_sect_def word_le_nat_alt sect_end_unat sect_start_unat)

lemma sect_start_inj:
  "bank_ok info \<Longrightarrow> i < sector_count info \<Longrightarrow> j < sector_count info \<Longrightarrow> sect_start info ! i = sect_start info ! j \<Longrightarrow> i = j"
  by (metis linorder_neqE_nat less_irrefl less_imp_le sect_lim_less sect_start_unat)

lemma sect_end_inj:
  assumes "bank_ok info" "i < sector_count info" "j < sector_count info" "sect_end info i = sect_end info j"
  shows "i = j"
proof -
  have "0 < sect_lim info (Suc i)" "0 < sect_lim info (Suc j)"
    using sect_lim_step [OF assms(1,2)] sect_lim_step [OF assms(1,3)] by simp_all
  then have "sect_lim info (Suc i) = sect_lim info (Suc j)"
    using assms(4) sect_end_unat [OF assms(1,2)] sect_end_unat [OF assms(1,3)] by simp
  then show ?thesis
    using sect_lim_less [OF assms(1), of "Suc i" "Suc j"] sect_lim_less [OF assms(1), of "Suc j" "Suc i"] assms(2,3)
    by (cases i j rule: linorder_cases) auto
qed

section \<open>Ranges\<close>

text \<open>The value of an index variable that a loop sets at the one index with a property.\<close>

primrec index_of :: "(nat \<Rightarrow> bool) \<Rightarrow> nat \<Rightarrow> int" where
  "index_of P 0 = -1"
| "index_of P (Suc n) = (if P n then int n else index_of P n)"

lemma index_of_hit:
  assumes "P i" "i < n" "\<forall>j < n. P j \<longrightarrow> j = i"
  shows "index_of P n = int i"
  using assms(2,3)
proof (induction n)
  case (Suc n)
  show ?case
  proof (cases "n = i")
    case False
    then have "\<not> P n" "i < n" "\<forall>j < n. P j \<longrightarrow> j = i" using Suc.prems by (blast, simp, blast intro: less_SucI)
    then show ?thesis using Suc.IH by simp
  qed (simp add: assms(1))
qed simp

lemma index_of_cases: "index_of P n = -1 \<and> (\<forall>i < n. \<not> P i) \<or> (\<exists>i < n. P i \<and> index_of P n = int i)"
  by (induction n) (auto simp: less_Suc_eq)

lemma fill_bank_eq:
  assumes ok: "bank_ok info" and le: "af \<le> al"
  shows "fill_bank info af al =
    (index_of (\<lambda>i. sect_start info ! i = af) (sector_count info), index_of (\<lambda>i. sect_end info i = al) (sector_count info))"
proof -
  have "n \<le> sector_count info \<Longrightarrow> fold (fill_step info af al) [0..<n] (-1, -1) =
      (index_of (\<lambda>i. sect_start info ! i = af) n, index_of (\<lambda>i. sect_end info i = al) n)" for n
  proof (induction n)
    case (Suc n)
    have n: "n < sector_count info" using Suc.prems by simp
    have se: "sect_start info ! n \<le> sect_end info n"
      using sect_lim_less [OF ok, of n "Suc n"] n by (auto simp: word_le_nat_alt sect_end_unat [OF ok] sect_start_unat)
    have "sect_start info ! n = af \<Longrightarrow> \<not> af > sect_end info n \<and> \<not> al < sect_start info ! n"
      "sect_end info n = al \<Longrightarrow> \<not> af > sect_end info n \<and> \<not> al < sect_start info ! n"
      using le se by auto
    then show ?case using Suc n by (auto simp: fill_step_def)
  qed simp
  from this [of "sector_count info"] show ?thesis by (simp add: fill_bank_def)
qed


text \<open>The range starts where sector \<open>f\<close> starts and ends where sector \<open>l\<close> ends, or behind the bank when \<open>l\<close> is the last one.\<close>

definition covers :: "flash_info \<Rightarrow> u32 \<Rightarrow> u32 \<Rightarrow> nat \<Rightarrow> nat \<Rightarrow> bool" where
  "covers info af al f l \<longleftrightarrow> f \<le> l \<and> l < sector_count info \<and> af = sect_start info ! f \<and>
     (al = sect_end info l \<or> b_end info < al \<and> Suc l = sector_count info)"

lemma sect_end_le_b_end: "bank_ok info \<Longrightarrow> i < sector_count info \<Longrightarrow> sect_end info i \<le> b_end info"
  using sect_lim_less [of info "Suc i" "sector_count info"]
  by (cases "Suc i = sector_count info") (auto simp: word_le_nat_alt sect_end_unat b_end_unat)

lemma covers_le:
  assumes "bank_ok info" "covers info af al f l"
  shows "af \<le> sect_end info l" "sect_end info l \<le> al"
proof -
  have f: "f \<le> l" "l < sector_count info" "af = sect_start info ! f" using assms(2) by (auto simp: covers_def)
  have "sect_lim info f < sect_lim info (Suc l)" using sect_lim_less [OF assms(1), of f "Suc l"] f by simp
  then show "af \<le> sect_end info l" using f sect_end_unat [OF assms(1) f(2)] sect_start_unat [of f info] by (simp add: word_le_nat_alt)
  show "sect_end info l \<le> al" using assms(2) sect_end_le_b_end [OF assms(1) f(2)] by (auto simp: covers_def)
qed

lemma fill_covers:
  assumes ok: "bank_ok info" and c: "covers info af al f l"
  shows "fill_banks [info] af al 0 = ([(int f, int l)], int l - int f + 1, 0, [])"
proof -
  have f: "f \<le> l" "l < sector_count info" "af = sect_start info ! f" using c by (auto simp: covers_def)
  have le: "af \<le> al" using covers_le [OF ok c] by simp
  have sf: "index_of (\<lambda>i. sect_start info ! i = af) (sector_count info) = int f"
    using f sect_start_inj [OF ok] by (intro index_of_hit) auto
  have id: "flash_id info \<noteq> FLASH_UNKNOWN" using ok by (simp add: bank_ok_def)
  show ?thesis
  proof (cases "al = sect_end info l")
    case True
    have "index_of (\<lambda>i. sect_end info i = al) (sector_count info) = int l"
      using f True sect_end_inj [OF ok] by (intro index_of_hit) auto
    then have "fill_bank info af al = (int f, int l)" using fill_bank_eq [OF ok le] sf by simp
    then show ?thesis using f le id by (simp add: Let_def)
  next
    case False
    then have al: "b_end info < al" "Suc l = sector_count info" using c by (auto simp: covers_def)
    have "\<forall>i < sector_count info. sect_end info i \<noteq> al" using sect_end_le_b_end [OF ok] al(1) by fastforce
    then have "index_of (\<lambda>i. sect_end info i = al) (sector_count info) = -1"
      using index_of_cases [of "\<lambda>i. sect_end info i = al" "sector_count info"] by blast
    then have "fill_bank info af al = (int f, -1)" using fill_bank_eq [OF ok le] sf by simp
    moreover have "s_end info = int l" using al(2) by (simp add: s_end_def)
    ultimately show ?thesis using f le id al(1) by (simp add: Let_def)
  qed
qed

lemma fill_exact:
  assumes "bank_ok info" "f \<le> l" "l < sector_count info"
  shows "fill_banks [info] (sect_start info ! f) (sect_end info l) 0 = ([(int f, int l)], int l - int f + 1, 0, [])"
  by (rule fill_covers [OF assms(1)]) (use assms in \<open>simp add: covers_def\<close>)

lemma fill_accepts:
  assumes ok: "bank_ok info" and r: "fill_banks [info] af al 0 = (rs, planned, 0, txt)" "planned \<noteq> 0"
  shows "\<exists>f l. covers info af al f l"
proof -
  have id: "flash_id info \<noteq> FLASH_UNKNOWN" using ok by (simp add: bank_ok_def)
  have le: "af \<le> al" using r by (auto simp: Let_def split: if_splits)
  obtain sf sl where b: "fill_bank info af al = (sf, sl)" by fastforce
  have sf: "sf = index_of (\<lambda>i. sect_start info ! i = af) (sector_count info)"
    and sl: "sl = index_of (\<lambda>i. sect_end info i = al) (sector_count info)"
    using fill_bank_eq [OF ok le] b by simp_all
  have 0: "0 \<le> sf" "sl < 0 \<longrightarrow> b_end info < al" "0 \<le> sl \<longrightarrow> sf \<le> sl"
    using r id le b by (auto simp: Let_def split: if_splits)
  obtain f where f: "f < sector_count info" "sect_start info ! f = af" "sf = int f"
    using index_of_cases [of "\<lambda>i. sect_start info ! i = af" "sector_count info"] sf 0(1) by auto
  show ?thesis
  proof (cases "0 \<le> sl")
    case True
    then obtain l where "l < sector_count info" "sect_end info l = al" "sl = int l"
      using index_of_cases [of "\<lambda>i. sect_end info i = al" "sector_count info"] sl by auto
    then show ?thesis using f 0(3) True unfolding covers_def by (intro exI [of _ f] exI [of _ l]) auto
  next
    case False
    then show ?thesis using f 0(2) unfolding covers_def by (intro exI [of _ f] exI [of _ "sector_count info - 1"]) auto
  qed
qed

lemma length_set_all: "length (fold (\<lambda>i ps. ps[i := p]) is ps) = length ps"
  by (induction "is" arbitrary: ps) auto

lemma nth_set_all:
  "k < length ps \<Longrightarrow> fold (\<lambda>i ps. ps[i := p]) is ps ! k = (if k \<in> set is then p else ps ! k)"
  by (induction "is" arbitrary: ps) (auto simp: nth_list_update)

section \<open>Protection\<close>

text \<open>The sector has an address of the range.\<close>

definition touches :: "flash_info \<Rightarrow> u32 \<Rightarrow> u32 \<Rightarrow> nat \<Rightarrow> bool" where
  "touches info from to i \<longleftrightarrow> (\<exists>a. in_sect info i a \<and> from \<le> a \<and> a \<le> to)"

lemma touches_iff:
  assumes "bank_ok info" "i < sector_count info" "from \<le> to"
  shows "touches info from to i \<longleftrightarrow> from \<le> sect_end info i \<and> to \<ge> sect_start info ! i"
proof
  assume "from \<le> sect_end info i \<and> to \<ge> sect_start info ! i"
  moreover have "sect_start info ! i \<le> sect_end info i"
    using sect_lim_step [OF assms(1,2)] by (simp add: word_le_nat_alt sect_end_unat [OF assms(1,2)] sect_start_unat [OF assms(2)])
  ultimately have "in_sect info i (max from (sect_start info ! i)) \<and> from \<le> max from (sect_start info ! i) \<and>
      max from (sect_start info ! i) \<le> to"
    using assms(3) by (auto simp: in_sect_def max_def)
  then show "touches info from to i" unfolding touches_def by blast
qed (auto simp: touches_def in_sect_def)

lemma covers_touches:
  assumes ok: "bank_ok info" and c: "covers info af al f l" and i: "i < sector_count info"
  shows "f \<le> i \<and> i \<le> l \<longleftrightarrow> touches info af al i"
proof -
  have f: "f \<le> l" "l < sector_count info" "af = sect_start info ! f" using c by (auto simp: covers_def)
  note le = covers_le [OF ok c]
  have lims: "unat (sect_start info ! i) = sect_lim info i" "unat (sect_end info i) = sect_lim info (Suc i) - 1" "unat af = sect_lim info f"
    "unat (sect_end info l) = sect_lim info (Suc l) - 1"
    using i f sect_end_unat [OF ok] by (simp_all add: sect_start_unat)
  have mono: "sect_lim info a < sect_lim info b" if "a < b" "b \<le> sector_count info" for a b
    using sect_lim_less [OF ok] that by blast
  have pos: "0 < sect_lim info (Suc j)" if "j < sector_count info" for j using mono [of j "Suc j"] that by simp
  have "af \<le> sect_end info i \<longleftrightarrow> f \<le> i"
    using mono [of f "Suc i"] mono [of "Suc i" f] i f pos [OF i] lims
    by (cases "Suc i" f rule: linorder_cases) (auto simp: word_le_nat_alt)
  moreover have "sect_start info ! i \<le> al \<longleftrightarrow> i \<le> l"
  proof (cases "al = sect_end info l")
    case True
    then show ?thesis using mono [of i "Suc l"] mono [of "Suc l" i] i f pos [OF f(2)] lims
      by (cases i "Suc l" rule: linorder_cases) (auto simp: word_le_nat_alt)
  next
    case False
    then have "i \<le> l" using c i by (auto simp: covers_def)
    moreover have "sect_start info ! i \<le> sect_end info l"
      using mono [of i "Suc l"] \<open>i \<le> l\<close> f(2) lims by (simp add: word_le_nat_alt)
    ultimately show ?thesis using le(2) by auto
  qed
  ultimately show ?thesis using touches_iff [OF ok i order_trans [OF le]] by blast
qed

lemma protect_fold: "\<exists>ps. fold (flash_protect_sect flag from to) is info = info\<lparr> protect := ps \<rparr>"
proof (induction "is" arbitrary: info)
  case Nil
  show ?case by (intro exI [of _ "protect info"]) simp
next
  case (Cons i "is")
  let ?x = "flash_protect_sect flag from to i info"
  have "?x\<lparr> protect := ps \<rparr> = info\<lparr> protect := ps \<rparr>" for ps by (simp add: flash_protect_sect_def)
  moreover obtain ps where "fold (flash_protect_sect flag from to) is ?x = ?x\<lparr> protect := ps \<rparr>" using Cons by blast
  ultimately show ?case by auto
qed

lemma sect_end_protect [simp]: "sect_end (info\<lparr> protect := ps \<rparr>) i = sect_end info i"
  by (simp add: sect_end_def b_end_def s_end_def)

lemma protect_fold_nth:
  assumes ok: "bank_ok info" and k: "k < sector_count info" and le: "from \<le> to" and n: "n \<le> sector_count info"
    and flag: "flag = FLAG_PROTECT_SET \<and> p \<or> flag = FLAG_PROTECT_CLEAR \<and> \<not> p"
  shows "protect (fold (flash_protect_sect flag from to) [0..<n] info) ! k =
      (if k < n \<and> touches info from to k then p else protect info ! k) \<and>
    length (protect (fold (flash_protect_sect flag from to) [0..<n] info)) = length (protect info)"
  using n
proof (induction n)
  case (Suc n)
  let ?x = "fold (flash_protect_sect flag from to) [0..<n] info"
  obtain ps where x: "?x = info\<lparr> protect := ps \<rparr>" using protect_fold by blast
  have ih: "ps ! k = (if k < n \<and> touches info from to k then p else protect info ! k)" "length ps = length (protect info)"
    using Suc x by simp_all
  have len: "k < length ps" "n < length ps" using ih(2) k Suc.prems ok by (auto simp: bank_ok_def)
  have t: "touches info from to n \<longleftrightarrow> from \<le> sect_end info n \<and> to \<ge> sect_start info ! n"
    using Suc.prems by (intro touches_iff [OF ok _ le]) simp
  have "protect (flash_protect_sect flag from to n ?x) = (if touches info from to n then ps[n := p] else ps)"
    using flag unfolding x flash_protect_sect_def t by (auto simp: FLAG_PROTECT_SET_def FLAG_PROTECT_CLEAR_def)
  then show ?case using ih len by (auto simp: nth_list_update less_Suc_eq)
qed simp

lemma flash_protect_nth:
  assumes ok: "bank_ok info" and le: "from \<le> to" and k: "k < sector_count info"
    and flag: "flag = FLAG_PROTECT_SET \<and> p \<or> flag = FLAG_PROTECT_CLEAR \<and> \<not> p"
  shows "protect (flash_protect flag from to info) ! k = (if touches info from to k then p else protect info ! k) \<and>
    flash_protect flag from to info = info\<lparr> protect := protect (flash_protect flag from to info) \<rparr>"
proof (cases "to < sect_start info ! 0 \<or> from > b_end info")
  case True
  have "sect_lim info 0 \<le> sect_lim info k" "sect_lim info (Suc k) \<le> sect_lim info (sector_count info)"
    using sect_lim_mono [OF ok, of 0 k] sect_lim_mono [OF ok, of "Suc k" "sector_count info"] k by simp_all
  moreover have "0 < sector_count info" using k by simp
  ultimately have "\<not> touches info from to k"
    using True touches_iff [OF ok k le] sect_lim_step [OF ok k] b_end_unat [OF ok] sect_end_unat [OF ok k] sect_start_unat [OF k]
      sect_start_unat [of 0 info]
    by (auto simp: word_le_nat_alt word_less_nat_alt)
  then show ?thesis using True by (simp add: flash_protect_def)
next
  case False
  have nz: "sector_count info \<noteq> 0" "fi_size info \<noteq> 0" "flash_id info \<noteq> FLASH_UNKNOWN"
    using ok fi_size_pos [OF ok] by (auto simp: bank_ok_def)
  then have "flash_protect flag from to info = fold (flash_protect_sect flag from to) [0..<sector_count info] info"
    using False le by (simp add: flash_protect_def)
  then show ?thesis
    using protect_fold_nth [OF ok k le order_refl flag] k protect_fold [of flag "from" to "[0..<sector_count info]" info] by auto
qed

section \<open>Properties\<close>

definition sample_bank :: flash_info where
  "sample_bank = \<lparr> fi_size = 0x3000, sector_count = 3, flash_id = 0x10234B,
     sect_start = [0x64000000, 0x64001000, 0x64002000], protect = [True, False, False] \<rparr>"

lemma all_less_3: "(\<forall>i < 3. P i) \<longleftrightarrow> P 0 \<and> P 1 \<and> P (2 :: nat)"
  by (auto simp: numeral_3_eq_3 less_Suc_eq numeral_2_eq_2)

lemma sample_bank_ok: "bank_ok sample_bank"
  by (simp add: bank_ok_def sample_bank_def FLASH_UNKNOWN_def sect_lim_def all_less_3)

text \<open>C20: On a well-formed bank, the only one of the board, a range is accepted for erasing or protecting exactly when it starts where
  a sector starts and ends where the same or a later sector ends, or anywhere behind the end of the bank. It then stands for the
  sectors between them, up to the last one in the second case, and these are the sectors that the range meets.\<close>

theorem flash_fill_sect_ranges_correct:
  assumes "bank_ok info"
  shows "let (rs, planned, rcode, msg) = flash_fill_sect_ranges [info] addr_first addr_last in
    (planned \<noteq> 0 \<and> rcode = 0 \<longleftrightarrow> (\<exists>f l. covers info addr_first addr_last f l)) \<and>
    (\<forall>f l. covers info addr_first addr_last f l \<longrightarrow> rs = [(int f, int l)] \<and> planned = int l - int f + 1 \<and> rcode = 0 \<and> msg = [] \<and>
       (\<forall>i < sector_count info. f \<le> i \<and> i \<le> l \<longleftrightarrow> touches info addr_first addr_last i))"
proof -
  obtain rs planned rcode msg where r: "flash_fill_sect_ranges [info] addr_first addr_last = (rs, planned, rcode, msg)"
    by (cases "flash_fill_sect_ranges [info] addr_first addr_last") auto
  have "rs = [(int f, int l)] \<and> planned = int l - int f + 1 \<and> rcode = 0 \<and> msg = [] \<and> planned \<noteq> 0 \<and>
      (\<forall>i < sector_count info. f \<le> i \<and> i \<le> l \<longleftrightarrow> touches info addr_first addr_last i)"
    if c: "covers info addr_first addr_last f l" for f l
    using fill_covers [OF assms c] r covers_touches [OF assms c] c by (auto simp: flash_fill_sect_ranges_def covers_def)
  moreover have "\<exists>f l. covers info addr_first addr_last f l" if "planned \<noteq> 0" "rcode = 0"
    using fill_accepts [OF assms] r that unfolding flash_fill_sect_ranges_def by blast
  ultimately show ?thesis unfolding r Let_def prod.case by blast
qed

theorem flash_fill_sect_ranges_correct_witness:
  "flash_fill_sect_ranges [sample_bank] 0x64001000 0x64002FFF = ([(1, 2)], 2, 0, []) \<and>
   flash_fill_sect_ranges [sample_bank] 0x64001000 0x7FFFFFFF = ([(1, 2)], 2, 0, []) \<and>
   (let (rs, planned, rcode, msg) = flash_fill_sect_ranges [sample_bank] 0x64001000 0x64002000 in planned = 0 \<or> rcode \<noteq> 0)"
proof -
  have c: "covers sample_bank 0x64001000 0x64002FFF 1 2" "covers sample_bank 0x64001000 0x7FFFFFFF 1 2"
    by (simp_all add: covers_def sect_end_def sample_bank_def s_end_def b_end_def)
  have "\<forall>l < 3. sect_end sample_bank l \<noteq> 0x64002000" by (simp add: all_less_3 sect_end_def sample_bank_def s_end_def b_end_def)
  moreover have "sector_count sample_bank = 3" "\<not> b_end sample_bank < 0x64002000" by (simp_all add: sample_bank_def b_end_def)
  ultimately have n: "\<not> covers sample_bank 0x64001000 0x64002000 f l" for f l by (auto simp: covers_def)
  have "flash_fill_sect_ranges [sample_bank] 0x64001000 al = ([(1, 2)], 2, 0, [])" if "covers sample_bank 0x64001000 al 1 2" for al
    using flash_fill_sect_ranges_correct [OF sample_bank_ok, of "0x64001000" al] that
    by (cases "flash_fill_sect_ranges [sample_bank] 0x64001000 al") fastforce
  moreover have "let (rs, planned, rcode, msg) = flash_fill_sect_ranges [sample_bank] 0x64001000 0x64002000 in planned = 0 \<or> rcode \<noteq> 0"
    using flash_fill_sect_ranges_correct [OF sample_bank_ok, of "0x64001000" "0x64002000"] n by (simp add: Let_def split: prod.splits)
  ultimately show ?thesis using c by blast
qed

text \<open>\<^verbatim>\<open>flash_protect\<close> sets or clears the protection of exactly the sectors that have an address of the range,
  and changes nothing else.\<close>

theorem flash_protect_correct:
  assumes ok: "bank_ok info" and le: "from \<le> to" and k: "k < sector_count info"
    and flag: "flag = FLAG_PROTECT_SET \<and> p \<or> flag = FLAG_PROTECT_CLEAR \<and> \<not> p"
  shows "protect (flash_protect flag from to info) ! k = (if touches info from to k then p else protect info ! k) \<and>
    flash_protect flag from to info = info\<lparr> protect := protect (flash_protect flag from to info) \<rparr>"
  using flash_protect_nth [OF assms] .

theorem flash_protect_correct_witness:
  "protect (flash_protect FLAG_PROTECT_SET 0x64001800 0x64001801 sample_bank) ! 1"
proof -
  have "in_sect sample_bank 1 0x64001800"
    by (simp add: in_sect_def sample_bank_def sect_end_def s_end_def)
  then have "touches sample_bank 0x64001800 0x64001801 1" unfolding touches_def by (intro exI [of _ "0x64001800"]) simp
  then show ?thesis
    using flash_protect_correct [OF sample_bank_ok, of "0x64001800" "0x64001801" 1 FLAG_PROTECT_SET True]
    by (simp add: sample_bank_def)
qed

text \<open>The sector numbers of \<^verbatim>\<open>protect on B:SF-SL\<close> are read as unsigned and compared as signed numbers, so that
  one of 2 to the 31 or more passes the test against the number of sectors and the command writes
  in front of the protection array.\<close>

theorem do_protect_out_of_bounds:
  "abbrev_spec [sample_bank] ''1:4294967295-0'' = Abbrev 0 (-1) 0 \<and>
   do_protect usage [''protect'', ''on'', ''1:4294967295-0''] [sample_bank] = None"
proof -
  have n: "whole_number ''1'' 10 = Some 1" "whole_number ''4294967295'' 10 = Some 4294967295" "whole_number ''0'' 10 = Some 0"
    by (simp_all add: whole_number_def simple_strtoul_def strtou_base_def at_def isxdigit_iff isdigit_iff digit_value_def)
  show ?thesis
    by (simp add: do_protect_def abbrev_spec_def split_at_def n sample_bank_def FLASH_UNKNOWN_def)
qed

end
