(* ===== verification/Nor_Flash.thy ===== *)
theory Nor_Flash
  imports Flash
begin

text \<open>
  The driver of the board's NOR flash: \<^verbatim>\<open>board/stm/dragon/flash.c\<close>, and \<^verbatim>\<open>flash_write\<close>, \<^verbatim>\<open>flash_sect_erase\<close> and
  the \<^verbatim>\<open>erase\<close> command on top of it.

  The chip is not part of the program. It is a parameter: what a 16-bit read or write at an address
  does to it, and what its ready pin shows. The driver is written against any such chip; what its
  data sheet promises is the locale \<open>nor_device\<close>. The build has no interrupts (\<^verbatim>\<open>CONFIG_USE_IRQ\<close> is not
  set), so \<^verbatim>\<open>disable_interrupts\<close> does nothing and returns 0.
\<close>

section \<open>The code\<close>

record 'c nor =
  nor_read :: "u32 \<Rightarrow> 'c \<Rightarrow> u16 \<times> 'c"
  nor_write :: "u32 \<Rightarrow> u16 \<Rightarrow> 'c \<Rightarrow> 'c"
  nor_pin :: "'c \<Rightarrow> bool \<times> 'c"

record 'c flashdev =
  chip :: 'c
  banks :: "flash_info list"
  fout :: string

definition fputs :: "string \<Rightarrow> 'c flashdev \<Rightarrow> 'c flashdev" where
  "fputs t d = d\<lparr> fout := fout d @ t \<rparr>"

definition SST39VF1601 :: u16 where "SST39VF1601 = 0x234b"
definition NOR_FLASH_START_ADDR :: u32 where "NOR_FLASH_START_ADDR = 0x64000000"
definition BlockErase_Timeout :: nat where "BlockErase_Timeout = 0x00A00000"
definition Program_Timeout :: nat where "Program_Timeout = 0x00001400"
definition CONFIG_ENV_ADDR :: u32 where "CONFIG_ENV_ADDR = 0x64000000"
definition CONFIG_ENV_SECT_SIZE :: u32 where "CONFIG_ENV_SECT_SIZE = 0x1000"

datatype NOR_Status = NOR_SUCCESS | NOR_ONGOING | NOR_ERROR | NOR_TIMEOUT

text \<open>Element \<open>k\<close> of an array of 16-bit words, and the three writes that start every command.\<close>

definition fpw :: "u32 \<Rightarrow> u32 \<Rightarrow> u32" where "fpw base k = base + 2 * k"

definition nor_unlock :: "'c nor \<Rightarrow> u32 \<Rightarrow> u16 \<Rightarrow> 'c \<Rightarrow> 'c" where
  "nor_unlock nor base cmd c =
     nor_write nor (fpw base 0x5555) cmd (nor_write nor (fpw base 0x2AAA) 0x0055 (nor_write nor (fpw base 0x5555) 0x00AA c))"

subsection \<open>Waiting for the chip\<close>

text \<open>The two loops on the ready pin: they go on while it has the value \<open>v\<close>.\<close>

primrec wait_pin :: "'c nor \<Rightarrow> bool \<Rightarrow> nat \<Rightarrow> 'c \<Rightarrow> 'c" where
  "wait_pin nor v 0 c = snd (nor_pin nor c)"
| "wait_pin nor v (Suc timeout) c =
     (let (p, c') = nor_pin nor c in if p = v then wait_pin nor v timeout c' else c')"

text \<open>The loop on the status bits 6 and 5.\<close>

primrec status_loop :: "'c nor \<Rightarrow> nat \<Rightarrow> 'c \<Rightarrow> NOR_Status \<times> 'c" where
  "status_loop nor 0 c = (NOR_TIMEOUT, c)"
| "status_loop nor (Suc timeout) c =
     (let (val1, c1) = nor_read nor NOR_FLASH_START_ADDR c;
          (val2, c2) = nor_read nor NOR_FLASH_START_ADDR c1
      in if val1 AND 0x0040 = val2 AND 0x0040 then (NOR_SUCCESS, c2)
         else let (val3, c3) = nor_read nor NOR_FLASH_START_ADDR c2;
                  (val4, c4) = nor_read nor NOR_FLASH_START_ADDR c3
              in if val3 AND 0x0040 = val4 AND 0x0040 then (NOR_SUCCESS, c4)
                 else if val3 AND 0x0020 = 0x0020 then (NOR_ERROR, c4)
                 else status_loop nor timeout c4)"

definition FSMC_NOR_GetStatus :: "'c nor \<Rightarrow> nat \<Rightarrow> 'c \<Rightarrow> NOR_Status \<times> 'c" where
  "FSMC_NOR_GetStatus nor timeout c = status_loop nor timeout (wait_pin nor False timeout (wait_pin nor True timeout c))"

subsection \<open>Programming\<close>

definition hexw :: "u16 \<Rightarrow> string" where "hexw w = number (ucast w) 16 (-1) (-1) SMALL"

definition write_data :: "'c nor \<Rightarrow> flash_info \<Rightarrow> u32 \<Rightarrow> u16 \<Rightarrow> 'c flashdev \<Rightarrow> 'c flashdev \<times> int" where
  "write_data nor info dest data d =
     (let (v, c1) = nor_read nor dest (chip d) in
      if v AND data \<noteq> data
      then let (v', c2) = nor_read nor dest c1
           in (fputs (''not erased at '' @ hex8 dest @ '' ('' @ hexw v' @ '')'' @ nl) (d\<lparr> chip := c2 \<rparr>), 2)
      else let c2 = nor_write nor dest data (nor_unlock nor (sect_start info ! 0) 0x00A0 c1);
               (st, c3) = FSMC_NOR_GetStatus nor Program_Timeout c2
           in (d\<lparr> chip := nor_write nor dest 0x00F0 c3 \<rparr>, if st \<noteq> NOR_SUCCESS then 1 else 0))"

definition src_word :: "mem \<Rightarrow> addr \<Rightarrow> u16" where
  "src_word m p = of_char (m p) OR push_bit 8 (of_char (m (p + 1)))"

text \<open>The loop of \<^verbatim>\<open>write_buff\<close>. The count goes down in twos, modulo \<open>2\<^sup>3\<^sup>2\<close>, and the loop ends at 0: a loop
  that never ends has no result.\<close>

partial_function (option) write_loop ::
  "'c nor \<Rightarrow> flash_info \<Rightarrow> mem \<Rightarrow> addr \<Rightarrow> u32 \<Rightarrow> u32 \<Rightarrow> 'c flashdev \<Rightarrow> ('c flashdev \<times> int) option" where
  "write_loop nor info m src wp cnt d =
     (if cnt > 0
      then let (d', rc) = write_data nor info wp (src_word m src) d in
           if rc \<noteq> 0 then Some (d', rc) else write_loop nor info m (src + 2) (wp + 2) (cnt - 2) d'
      else Some (d, sint cnt))"

definition write_buff :: "'c nor \<Rightarrow> flash_info \<Rightarrow> mem \<Rightarrow> addr \<Rightarrow> u32 \<Rightarrow> u32 \<Rightarrow> 'c flashdev \<Rightarrow> ('c flashdev \<times> int) option" where
  "write_buff nor info m src addr cnt d =
     (if flash_id info = FLASH_UNKNOWN then Some (d, 4) else write_loop nor info m src addr cnt d)"

subsection \<open>Erasing\<close>

text \<open>One unprotected sector, and the loop over the sectors.\<close>

definition erase_sector :: "'c nor \<Rightarrow> flash_info \<Rightarrow> nat \<Rightarrow> 'c \<Rightarrow> NOR_Status \<times> 'c" where
  "erase_sector nor info sect c =
     (let base = sect_start info ! 0; addr = sect_start info ! sect;
          c1 = nor_unlock nor base 0x0080 c;
          c2 = nor_write nor (fpw base 0x2AAA) 0x0055 (nor_write nor (fpw base 0x5555) 0x00AA c1);
          (st, c3) = FSMC_NOR_GetStatus nor BlockErase_Timeout (nor_write nor addr 0x0030 c2)
      in (st, nor_write nor addr 0x00F0 c3))"

definition erasing :: "nat \<Rightarrow> string" where
  "erasing sect = ''Erasing sector '' @ number (of_nat sect) 10 2 (-1) SIGN @ '' ... ''"

fun erase_loop :: "'c nor \<Rightarrow> flash_info \<Rightarrow> nat list \<Rightarrow> 'c flashdev \<Rightarrow> 'c flashdev \<times> int" where
  "erase_loop nor info [] d = (d, 0)"
| "erase_loop nor info (sect # sects) d =
     (if protect info ! sect then erase_loop nor info sects d
      else let (st, c) = erase_sector nor info sect (chip d); d1 = (fputs (erasing sect) d)\<lparr> chip := c \<rparr>
           in if st \<noteq> NOR_SUCCESS then (fputs ''Timeout.'' d1, 1)
              else erase_loop nor info sects (fputs ('' done'' @ nl) d1))"

definition flash_erase :: "'c nor \<Rightarrow> flash_info \<Rightarrow> int \<Rightarrow> int \<Rightarrow> 'c flashdev \<Rightarrow> 'c flashdev \<times> int" where
  "flash_erase nor info s_first s_last d =
     (if s_first < 0 \<or> s_first > s_last
      then (fputs ((if flash_id info = FLASH_UNKNOWN then ''- missing'' else ''- no sectors to erase'') @ nl) d, 1)
      else let sects = [nat s_first..<nat (s_last + 1)];
               prot = length (filter (\<lambda>i. protect info ! i) sects);
               t = (if prot \<noteq> 0 then ''- Warning: '' @ dec (int prot) @ '' protected sectors will not be erased!'' @ nl else nl)
           in erase_loop nor info sects (fputs t d))"

subsection \<open>Finding the chip\<close>

text \<open>\<^verbatim>\<open>flash_get_size\<close>: the size, the bank, the chip and the text.\<close>

definition vendor_id :: "u16 \<Rightarrow> u32 option" where
  "vendor_id manuf =
     (if manuf = 0x01 then Some 0x00000000 else if manuf = 0x04 then Some 0x00010000
      else if manuf = 0xBF then Some FLASH_MAN_SST else if manuf = 0x20 then Some 0x00040000
      else if manuf = 0x89 then Some 0x00300000 else None)"

definition hexs :: "u32 \<Rightarrow> string" where "hexs w = number (ucast w) 16 (-1) (-1) (SMALL OR SPECIAL)"

definition flash_get_size :: "'c nor \<Rightarrow> u32 \<Rightarrow> flash_info \<Rightarrow> 'c \<Rightarrow> u32 \<times> flash_info \<times> 'c \<times> string" where
  "flash_get_size nor addr info c =
     (let (manuf, c1) = nor_read nor addr (nor_unlock nor addr 0x0090 c);
          t1 = ''Manuf. ID @ 0x'' @ hex8 addr @ '': 0x'' @ hex8 (ucast manuf) @ nl
      in case vendor_id manuf of
           None \<Rightarrow> (0, info\<lparr> flash_id := FLASH_UNKNOWN, sector_count := 0, fi_size := 0 \<rparr>, nor_write nor addr 0xF0 c1, t1)
         | Some vid \<Rightarrow>
             let (device, c2) = nor_read nor (fpw addr 1) c1;
                 t2 = t1 @ ''Device ID @ 0x'' @ hex8 (fpw addr 1) @ '': 0x'' @ hex8 (ucast device) @ nl;
                 (sz, c3) = nor_read nor (fpw addr 0x27) (nor_unlock nor addr 0x0098 (nor_write nor addr 0x00F0 c2));
                 size = push_bit (unat sz) (1 :: u32);
                 (hi, c4) = nor_read nor (fpw addr 0x2e) c3;
                 (lo, c5) = nor_read nor (fpw addr 0x2d) c4;
                 sectors = (push_bit 8 (ucast hi) OR ucast lo) :: u32;
                 t3 = t2 @ ''size='' @ hexs size @ nl @ ''sectors='' @ hexs sectors @ nl
             in if device \<noteq> 0x16 \<and> device \<noteq> SST39VF1601
                then (0, info\<lparr> flash_id := FLASH_UNKNOWN \<rparr>, nor_write nor addr 0xF0 c5, t3)
                else let info1 = (if device = 0x16
                                  then info\<lparr> flash_id := vid + 0xC0, sector_count := 32, fi_size := 0x00400000 \<rparr>
                                  else info\<lparr> flash_id := vid + ucast SST39VF1601,
                                             sector_count := unat (ucast (sectors + 1) :: u16), fi_size := size \<rparr>);
                         t4 = t3 @ (if device = SST39VF1601 then ''Device SST39VF1601'' @ nl else []);
                         big = sector_count info1 > CONFIG_SYS_MAX_FLASH_SECT;
                         t5 = t4 @ (if big then ''** ERROR: sector count '' @ dec (int (sector_count info1)) @ '' > max ('' @
                                                 dec (int CONFIG_SYS_MAX_FLASH_SECT) @ '') **'' @ nl else []);
                         info2 = (if big then info1\<lparr> sector_count := CONFIG_SYS_MAX_FLASH_SECT \<rparr> else info1)
                     in (fi_size info2, info2, nor_write nor addr 0x00F0 c5, t5))"

definition flash_get_offsets :: "u32 \<Rightarrow> flash_info \<Rightarrow> flash_info" where
  "flash_get_offsets base info =
     (if flash_id info = FLASH_UNKNOWN then info
      else if flash_id info AND FLASH_VENDMASK = FLASH_MAN_SST
      then info\<lparr> sect_start := map (\<lambda>i. if i < sector_count info then base + of_nat i * 0x1000 else sect_start info ! i)
                                 [0..<length (sect_start info)],
                 protect := map (\<lambda>i. if i < sector_count info then False else protect info ! i) [0..<length (protect info)] \<rparr>
      else info)"

text \<open>\<^verbatim>\<open>flash_init\<close> for the one bank of the board, whose base is the first address of the bank list.\<close>

definition flash_init :: "'c nor \<Rightarrow> 'c flashdev \<Rightarrow> 'c flashdev \<times> u32" where
  "flash_init nor d =
     (let base = 0x64000000;
          info0 = (banks d ! 0)\<lparr> flash_id := FLASH_UNKNOWN \<rparr>;
          t0 = ''stm32f10x NOR flash init'' @ nl @ [CHR 0x0D] @ ''Get flash bank 0 @ 0x'' @ hex8 base @ nl;
          (size_b, info1, c, t1) = flash_get_size nor 0x64000000 info0 (chip d);
          unknown = (flash_id info1 = FLASH_UNKNOWN);
          t2 = (if unknown
                then ''## Unknown FLASH on Bank 0: ID 0x'' @ number (ucast (flash_id info1)) 16 (-1) (-1) SMALL @ '', Size = 0x'' @
                     hex8 size_b @ '' = '' @ dec (sint (push_bit 20 size_b)) @ '' MB'' @ nl
                else ''## Flash bank 0 at 0x'' @ hex8 base @ '' sizes: 0x'' @ hex8 size_b @ '' '' @ nl);
          info2 = (if unknown then info1 else (flash_get_offsets base info1)\<lparr> fi_size := size_b \<rparr>);
          t3 = ''protect environtment 64000000 @ 1000'' @ nl;
          info3 = flash_protect FLAG_PROTECT_SET CONFIG_ENV_ADDR (CONFIG_ENV_ADDR + CONFIG_ENV_SECT_SIZE - 1) info2;
          t4 = ''## Final Flash bank sizes: '' @ hex8 size_b @ '' '' @ nl
      in (fputs (t0 @ t1 @ t2 @ t3 @ t4) (d\<lparr> chip := c, banks := (banks d)[0 := info3] \<rparr>), size_b))"

definition print_sect :: "flash_info \<Rightarrow> nat \<Rightarrow> string" where
  "print_sect info i =
     (if i mod 5 = 0 then nl @ ''   '' else []) @ '' '' @ HEX8 (sect_start info ! i) @
     (if protect info ! i then '' (RO)'' else ''     '')"

definition flash_print_info :: "flash_info \<Rightarrow> string" where
  "flash_print_info info =
     (if flash_id info = FLASH_UNKNOWN then ''missing or unknown FLASH type'' @ nl
      else let i = (if fi_size info \<ge> 0x100000 then 20 else 10) in
        (if flash_id info AND FLASH_VENDMASK = FLASH_MAN_SST then ''SST '' else ''Unknown Vendor '') @
        (if flash_id info AND FLASH_TYPEMASK = 0x234b then ''SST39VF1601 (16MBit x 16)'' else ''Unknown Chip Type'' @ nl) @
        ''  Size: '' @ dec (uint (drop_bit i (fi_size info))) @ '' '' @ (if i = 20 then ''M'' else ''k'') @ ''B in '' @
        dec (int (sector_count info)) @ '' Sectors'' @ nl @ ''  Sector Start Addresses:'' @
        concat (map (print_sect info) [0..<sector_count info]) @ nl)"

subsection \<open>Writing and erasing by address\<close>

text \<open>The check of \<^verbatim>\<open>flash_write\<close> in one bank, and the write over the banks from the first to the last.\<close>

definition write_protected :: "u32 \<Rightarrow> u32 \<Rightarrow> flash_info \<Rightarrow> bool" where
  "write_protected addr fin info =
     (\<exists>i \<in> set [0..<sector_count info].
        let e_addr = (if int i = s_end info then sect_start info ! 0 + fi_size info else sect_start info ! (i + 1))
        in fin \<ge> sect_start info ! i \<and> addr < e_addr \<and> protect info ! i)"

fun write_banks :: "'c nor \<Rightarrow> flash_info list \<Rightarrow> mem \<Rightarrow> addr \<Rightarrow> u32 \<Rightarrow> u32 \<Rightarrow> 'c flashdev \<Rightarrow> ('c flashdev \<times> int) option" where
  "write_banks nor [] m src addr cnt d = Some (d, ERR_OK)"
| "write_banks nor (info # infos) m src addr cnt d =
     (if cnt > 0
      then let len0 = sect_start info ! 0 + fi_size info - addr; len = (if len0 > cnt then cnt else len0)
           in case write_buff nor info m src addr len d of
                None \<Rightarrow> None
              | Some (d', i) \<Rightarrow> if i \<noteq> 0 then Some (d', i)
                              else write_banks nor infos m (src + unat len) (addr + len) (cnt - len) d'
      else Some (d, ERR_OK))"

definition flash_write :: "'c nor \<Rightarrow> mem \<Rightarrow> addr \<Rightarrow> u32 \<Rightarrow> u32 \<Rightarrow> 'c flashdev \<Rightarrow> ('c flashdev \<times> int) option" where
  "flash_write nor m src addr cnt d =
     (let fin = addr + cnt - 1 in
      if cnt = 0 then Some (d, ERR_OK)
      else case (addr2info (banks d) addr, addr2info (banks d) fin) of
             (Some i, Some j) \<Rightarrow>
               let infos = map (\<lambda>k. banks d ! k) [i..<Suc j] in
               if \<exists>info \<in> set infos. write_protected addr fin info then Some (d, ERR_PROTECTED)
               else write_banks nor infos m src addr cnt d
           | _ \<Rightarrow> Some (d, ERR_INVAL))"

fun erase_banks :: "'c nor \<Rightarrow> (flash_info \<times> int \<times> int) list \<Rightarrow> int \<Rightarrow> 'c flashdev \<Rightarrow> 'c flashdev \<times> int \<times> int" where
  "erase_banks nor [] erased d = (d, 0, erased)"
| "erase_banks nor ((info, sf, sl) # rs) erased d =
     (if sf \<ge> 0
      then let (d', rc) = flash_erase nor info sf sl d; n = erased + (sl - sf + 1)
           in if rc \<noteq> 0 then (d', rc, n) else erase_banks nor rs n d'
      else erase_banks nor rs erased d)"

definition flash_sect_erase :: "'c nor \<Rightarrow> u32 \<Rightarrow> u32 \<Rightarrow> 'c flashdev \<Rightarrow> 'c flashdev \<times> int" where
  "flash_sect_erase nor addr_first addr_last d =
     (let (rs, planned, rcode, t) = flash_fill_sect_ranges (banks d) addr_first addr_last in
      if planned \<noteq> 0 \<and> rcode = 0
      then let (d', rc, erased) = erase_banks nor (zip (banks d) rs) 0 (fputs t d)
           in (fputs (''Erased '' @ dec erased @ '' sectors'' @ nl) d', rc)
      else if rcode = 0 then (fputs (t @ ''Error: start and/or end address not on sector boundary'' @ nl) d, 1)
      else (fputs t d, rcode))"

fun erase_all :: "'c nor \<Rightarrow> nat \<Rightarrow> flash_info list \<Rightarrow> int \<Rightarrow> 'c flashdev \<Rightarrow> 'c flashdev \<times> int" where
  "erase_all nor bank [] rcode d = (d, rcode)"
| "erase_all nor bank (info # infos) rcode d =
     (let (d', rc) = flash_erase nor info 0 (s_end info) (fputs (''Erase Flash Bank # '' @ dec (int bank) @ '' '') d)
      in erase_all nor (bank + 1) infos rc d')"

text \<open>The command \<^verbatim>\<open>erase\<close>.\<close>

definition do_flerase :: "'c nor \<Rightarrow> string \<Rightarrow> string list \<Rightarrow> 'c flashdev \<Rightarrow> 'c flashdev \<times> int" where
  "do_flerase nor usage argv d =
     (let argc = length argv in
      if argc < 2 then (fputs usage d, 1)
      else if argv ! 1 = ''all'' then erase_all nor 1 (banks d) 0 d
      else case abbrev_spec (banks d) (argv ! 1) of
        Abbrev_Error \<Rightarrow> (fputs (''Bad sector specification'' @ nl) d, 1)
      | Abbrev i sf sl \<Rightarrow>
          flash_erase nor (banks d ! i) sf sl
            (fputs (''Erase Flash Sectors '' @ dec sf @ ''-'' @ dec sl @ '' in Bank # '' @ dec (int i + 1) @ '' '') d)
      | Abbrev_None \<Rightarrow>
          if argc \<noteq> 3 then (fputs usage d, 1)
          else if argv ! 1 = ''bank''
          then let bank = fst (simple_strtoul (argv ! 2) 16) in
               if bank < 1 \<or> unat bank > length (banks d)
               then (fputs (''Only FLASH Banks # 1 ... # '' @ dec (int (length (banks d))) @ '' supported'' @ nl) d, 1)
               else let info = banks d ! (unat bank - 1)
                    in flash_erase nor info 0 (s_end info) (fputs (''Erase Flash Bank # '' @ dec (uint bank) @ '' '') d)
          else case addr_spec (banks d) (argv ! 1) (argv ! 2) of
                 (None, t) \<Rightarrow> (fputs (t @ ''Bad address format'' @ nl) d, 1)
               | (Some (addr_first, addr_last), t) \<Rightarrow>
                   if addr_first \<ge> addr_last then (fputs (t @ usage) d, 1)
                   else flash_sect_erase nor addr_first addr_last (fputs t d))"

definition do_flinfo :: "string list \<Rightarrow> 'c flashdev \<Rightarrow> 'c flashdev \<times> int" where
  "do_flinfo argv d =
     (if length argv = 1
      then (fputs (concat (map (\<lambda>i. nl @ ''Bank # '' @ dec (int i + 1) @ '': '' @ flash_print_info (banks d ! i))
                           [0..<length (banks d)])) d, 0)
      else let bank = fst (simple_strtoul (argv ! 1) 16) in
           if bank < 1 \<or> unat bank > length (banks d)
           then (fputs (''Only FLASH Banks # 1 ... # '' @ dec (int (length (banks d))) @ '' supported'' @ nl) d, 1)
           else (fputs (nl @ ''Bank # '' @ dec (uint bank) @ '': '' @ flash_print_info (banks d ! (unat bank - 1))) d, 0))"

section \<open>The chip\<close>

text \<open>What the driver relies on, from the data sheet. \<open>arr c a\<close> is the word at address \<open>a\<close> of a chip that is idle,
  \<open>busy t n q c\<close> says that the chip is on its way to the contents \<open>t\<close>: for at most \<open>n\<close> more reads bit 6 toggles with
  every read, starting with \<open>q\<close>, and then the chip is idle. A word is programmed by clearing bits, a sector
  of 4 kilobytes is erased to ones, and both are done before the driver loses patience.\<close>

definition in_chip :: "u32 \<Rightarrow> bool" where
  "in_chip a \<longleftrightarrow> NOR_FLASH_START_ADDR \<le> a \<and> a < NOR_FLASH_START_ADDR + 0x200000 \<and> even (unat a)"

definition in_sector :: "u32 \<Rightarrow> u32 \<Rightarrow> bool" where
  "in_sector a x \<longleftrightarrow> unat a \<le> unat x \<and> unat x < unat a + 0x1000"

lemma and_one_bit: "x AND 2 ^ k = (if bit x k then 2 ^ k else (0 :: u16))"
  by (rule bit_word_eqI) (auto simp: bit_and_iff bit_exp_iff)

lemma toggle_iff: "x AND 0x0040 = y AND 0x0040 \<longleftrightarrow> bit x 6 = bit (y :: u16) 6"
  using and_one_bit [of x 6] and_one_bit [of y 6] by simp

lemma error_iff: "x AND 0x0020 = 0x0020 \<longleftrightarrow> bit (x :: u16) 5"
  using and_one_bit [of x 5] by simp

definition words_in_chip :: "u32 \<Rightarrow> nat \<Rightarrow> bool" where
  "words_in_chip a n \<longleftrightarrow> NOR_FLASH_START_ADDR \<le> a \<and> unat a + 2 * n \<le> 0x64200000 \<and> even (unat a)"

lemma words_in_chip_Suc:
  assumes "words_in_chip a (Suc n)"
  shows "in_chip a" "words_in_chip (a + 2) n" "unat (a + 2) = unat a + 2"
proof -
  have u: "unat (a + 2) = unat a + 2"
    using assms by (simp add: unat_word_ariths words_in_chip_def)
  show "in_chip a" "words_in_chip (a + 2) n" "unat (a + 2) = unat a + 2"
    using assms by (simp_all add: u in_chip_def words_in_chip_def NOR_FLASH_START_ADDR_def word_le_nat_alt word_less_nat_alt)
qed

lemma words_in_chip_len: "words_in_chip a n \<Longrightarrow> unat (of_nat (2 * n) :: u32) = 2 * n"
  unfolding unat_of_nat by (simp add: words_in_chip_def take_bit_nat_eq_self)

text \<open>The chip's contents after \<open>n\<close> words have been written, and whether a word can be.\<close>

primrec put_words :: "nat \<Rightarrow> mem \<Rightarrow> addr \<Rightarrow> u32 \<Rightarrow> (u32 \<Rightarrow> u16) \<Rightarrow> u32 \<Rightarrow> u16" where
  "put_words 0 m src a f = f"
| "put_words (Suc n) m src a f = put_words n m (src + 2) (a + 2) (f(a := src_word m src))"

definition writable :: "(u32 \<Rightarrow> u16) \<Rightarrow> mem \<Rightarrow> addr \<Rightarrow> u32 \<Rightarrow> nat \<Rightarrow> bool" where
  "writable f m src a i \<longleftrightarrow> f (a + of_nat (2 * i)) AND src_word m (src + 2 * i) = src_word m (src + 2 * i)"

lemma writable_Suc:
  assumes "words_in_chip a (Suc n)" "i < n"
  shows "writable (f(a := w)) m (src + 2) (a + 2) i \<longleftrightarrow> writable f m src a (Suc i)"
proof -
  have "unat (a + 2 + of_nat (2 * i)) = unat a + 2 + 2 * i"
    using assms words_in_chip_Suc(3) [OF assms(1)]
    by (simp add: unat_word_ariths words_in_chip_def unat_of_nat take_bit_eq_mod)
  then have "a + 2 + of_nat (2 * i) \<noteq> a" by (metis less_irrefl trans_less_add1 less_add_same_cancel1 zero_less_numeral)
  then show ?thesis by (simp add: writable_def algebra_simps)
qed

lemma put_words_other:
  "(\<forall>i < n. x \<noteq> a + of_nat (2 * i)) \<Longrightarrow> put_words n m src a f x = f x"
proof (induction n arbitrary: a src f)
  case (Suc n)
  have "\<forall>i < n. x \<noteq> a + 2 + of_nat (2 * i)"
  proof (intro allI impI)
    fix i assume "i < n"
    then show "x \<noteq> a + 2 + of_nat (2 * i)" using Suc.prems [rule_format, of "Suc i"] by (simp add: algebra_simps)
  qed
  moreover have "x \<noteq> a" using Suc.prems [rule_format, of 0] by simp
  ultimately show ?case using Suc.IH by simp
qed simp

lemma put_words_nth:
  "words_in_chip a n \<Longrightarrow> i < n \<Longrightarrow> put_words n m src a f (a + of_nat (2 * i)) = src_word m (src + 2 * i)"
proof (induction n arbitrary: a src f i)
  case (Suc n)
  note w = words_in_chip_Suc [OF Suc.prems(1)]
  show ?case
  proof (cases i)
    case 0
    have "\<forall>j < n. a \<noteq> a + 2 + of_nat (2 * j)"
    proof (intro allI impI)
      fix j assume "j < n"
      then have "unat (a + 2 + of_nat (2 * j)) = unat a + 2 + 2 * j"
        using w(2,3) by (simp add: unat_word_ariths words_in_chip_def unat_of_nat take_bit_eq_mod)
      then show "a \<noteq> a + 2 + of_nat (2 * j)" by (metis less_irrefl trans_less_add1 less_add_same_cancel1 zero_less_numeral)
    qed
    then show ?thesis using put_words_other [of n a "a + 2"] 0 by simp
  next
    case (Suc j)
    then show ?thesis using Suc.IH [OF w(2), of j "src + 2"] Suc.prems(2) by (simp add: algebra_simps)
  qed
qed simp

text \<open>The sectors of the chip are 4 kilobytes each. A bank describes it when its table lists them.\<close>

definition sst_bank :: "flash_info \<Rightarrow> bool" where
  "sst_bank info \<longleftrightarrow> flash_id info \<noteq> FLASH_UNKNOWN \<and> 0 < sector_count info \<and> sector_count info \<le> CONFIG_SYS_MAX_FLASH_SECT \<and>
     sector_count info \<le> length (protect info) \<and> fi_size info = of_nat (0x1000 * sector_count info) \<and>
     (\<forall>i < sector_count info. sect_start info ! i = NOR_FLASH_START_ADDR + of_nat (0x1000 * i))"

lemma sst_bank_start: "sst_bank info \<Longrightarrow> sect_start info ! 0 = NOR_FLASH_START_ADDR"
  by (simp add: sst_bank_def)

lemma sst_bank_unat:
  "sst_bank info \<Longrightarrow> i < sector_count info \<Longrightarrow> unat (sect_start info ! i) = unat NOR_FLASH_START_ADDR + 0x1000 * i"
  by (simp add: sst_bank_def NOR_FLASH_START_ADDR_def CONFIG_SYS_MAX_FLASH_SECT_def unat_word_ariths unat_of_nat take_bit_eq_mod)

lemma sst_bank_in_chip:
  assumes "sst_bank info" "i < sector_count info"
  shows "in_chip (sect_start info ! i)" "unat (sect_start info ! i) mod 0x1000 = 0"
  using assms sst_bank_unat [OF assms]
  by (simp_all add: in_chip_def word_le_nat_alt word_less_nat_alt NOR_FLASH_START_ADDR_def sst_bank_def CONFIG_SYS_MAX_FLASH_SECT_def)

lemma sst_bank_size: "sst_bank info \<Longrightarrow> unat (fi_size info) = 0x1000 * sector_count info"
  by (simp add: sst_bank_def CONFIG_SYS_MAX_FLASH_SECT_def unat_word_ariths unat_of_nat take_bit_eq_mod)

lemma sst_bank_lim:
  "sst_bank info \<Longrightarrow> i \<le> sector_count info \<Longrightarrow> sect_lim info i = 0x64000000 + 0x1000 * i"
  using sst_bank_unat [of info i] sst_bank_unat [of info 0] sst_bank_size [of info]
  by (auto simp: sect_lim_def NOR_FLASH_START_ADDR_def sst_bank_def)

lemma sst_bank_ok: "sst_bank info \<Longrightarrow> bank_ok info"
  by (auto simp: bank_ok_def sst_bank_lim) (simp_all add: sst_bank_def CONFIG_SYS_MAX_FLASH_SECT_def)

definition erased :: "flash_info \<Rightarrow> nat set \<Rightarrow> (u32 \<Rightarrow> u16) \<Rightarrow> u32 \<Rightarrow> u16" where
  "erased info S f x = (if \<exists>i \<in> S. \<not> protect info ! i \<and> in_sector (sect_start info ! i) x then 0xFFFF else f x)"

lemma fputs_Nil [simp]: "fputs [] d = d"
  by (simp add: fputs_def)

locale nor_device =
  fixes nor :: "'c nor" and idle :: "'c \<Rightarrow> bool" and arr :: "'c \<Rightarrow> u32 \<Rightarrow> u16"
    and busy :: "(u32 \<Rightarrow> u16) \<Rightarrow> nat \<Rightarrow> bool \<Rightarrow> 'c \<Rightarrow> bool"
  assumes read_idle: "idle c \<Longrightarrow> in_chip a \<Longrightarrow> nor_read nor a c = (arr c a, c)"
    and reset_idle: "idle c \<Longrightarrow> in_chip a \<Longrightarrow> idle (nor_write nor a 0x00F0 c) \<and> arr (nor_write nor a 0x00F0 c) = arr c"
    and pin_idle: "idle c \<Longrightarrow> snd (nor_pin nor c) = c"
    and pin_busy: "busy t n q c \<Longrightarrow>
      idle (snd (nor_pin nor c)) \<and> arr (snd (nor_pin nor c)) = t \<or> (\<exists>n' \<le> n. busy t n' q (snd (nor_pin nor c)))"
    and read_busy: "busy t n q c \<Longrightarrow> in_chip a \<Longrightarrow> nor_read nor a c = (v, c') \<Longrightarrow>
      bit v 6 = q \<and> \<not> bit v 5 \<and> (idle c' \<and> arr c' = t \<or> (\<exists>n' < n. busy t n' (\<not> q) c'))"
    and program: "idle c \<Longrightarrow> in_chip a \<Longrightarrow>
      \<exists>n q. n + 2 < 4 * Program_Timeout \<and>
        busy ((arr c)(a := arr c a AND w)) n q (nor_write nor a w (nor_unlock nor NOR_FLASH_START_ADDR 0x00A0 c))"
    and erase: "idle c \<Longrightarrow> in_chip a \<Longrightarrow> unat a mod 0x1000 = 0 \<Longrightarrow>
      \<exists>n q. n + 2 < 4 * BlockErase_Timeout \<and>
        busy (\<lambda>x. if in_sector a x then 0xFFFF else arr c x) n q
          (nor_write nor a 0x0030 (nor_write nor (fpw NOR_FLASH_START_ADDR 0x2AAA) 0x0055
            (nor_write nor (fpw NOR_FLASH_START_ADDR 0x5555) 0x00AA (nor_unlock nor NOR_FLASH_START_ADDR 0x0080 c))))"
begin

definition finished :: "(u32 \<Rightarrow> u16) \<Rightarrow> 'c \<Rightarrow> bool" where
  "finished t c \<longleftrightarrow> idle c \<and> arr c = t"

definition working :: "(u32 \<Rightarrow> u16) \<Rightarrow> nat \<Rightarrow> 'c \<Rightarrow> bool" where
  "working t n c \<longleftrightarrow> finished t c \<or> (\<exists>n' q. n' \<le> n \<and> busy t n' q c)"

lemma working_pin: "working t n c \<Longrightarrow> working t n (snd (nor_pin nor c))"
  unfolding working_def finished_def using pin_idle pin_busy [of t _ _ c] by (metis order_trans)

lemma working_wait: "working t n c \<Longrightarrow> working t n (wait_pin nor v k c)"
proof (induction k arbitrary: c)
  case (Suc k)
  show ?case using Suc.IH working_pin [OF Suc.prems] by (auto simp: split_def Let_def)
qed (simp add: working_pin)

lemma start_in_chip: "in_chip NOR_FLASH_START_ADDR"
  by (simp add: in_chip_def NOR_FLASH_START_ADDR_def)

lemma status_finished: "finished t c \<Longrightarrow> status_loop nor (Suc k) c = (NOR_SUCCESS, c)"
  using read_idle [of c NOR_FLASH_START_ADDR] start_in_chip by (simp add: finished_def)

lemma status_loop_ok:
  "busy t n q c \<Longrightarrow> n + 2 < 4 * k \<Longrightarrow> \<exists>c'. status_loop nor k c = (NOR_SUCCESS, c') \<and> finished t c'"
proof (induction k arbitrary: n q c)
  case (Suc k)
  obtain v1 c1 v2 c2 v3 c3 v4 c4 where
    r: "nor_read nor NOR_FLASH_START_ADDR c = (v1, c1)" "nor_read nor NOR_FLASH_START_ADDR c1 = (v2, c2)"
    "nor_read nor NOR_FLASH_START_ADDR c2 = (v3, c3)" "nor_read nor NOR_FLASH_START_ADDR c3 = (v4, c4)"
    by (metis prod.collapse)
  note rb = read_busy [OF _ start_in_chip]
  have fin: "nor_read nor NOR_FLASH_START_ADDR x = (arr x NOR_FLASH_START_ADDR, x)" if "finished t x" for x
    using read_idle [OF _ start_in_chip] that by (simp add: finished_def)
  have more: "\<exists>c'. status_loop nor k x = (NOR_SUCCESS, c') \<and> finished t c'" if f: "finished t x" and n: "2 \<le> n" for x
  proof -
    obtain k' where "k = Suc k'" using Suc.prems(2) n by (cases k) auto
    then show ?thesis using status_finished [OF f] f by simp
  qed
  have S: "status_loop nor (Suc k) c = (if bit v1 6 = bit v2 6 then (NOR_SUCCESS, c2)
      else if bit v3 6 = bit v4 6 then (NOR_SUCCESS, c4) else if bit v3 5 then (NOR_ERROR, c4) else status_loop nor k c4)"
    by (simp add: r toggle_iff error_iff)
  from rb [OF Suc.prems(1) r(1)] have b1: "bit v1 6 = q" "finished t c1 \<or> (\<exists>n' < n. busy t n' (\<not> q) c1)"
    by (simp_all add: finished_def)
  from b1(2) show ?case
  proof
    assume "finished t c1"
    then show ?thesis using S fin r by auto
  next
    assume "\<exists>n' < n. busy t n' (\<not> q) c1"
    then obtain n1 where n1: "n1 < n" "busy t n1 (\<not> q) c1" by blast
    from rb [OF n1(2) r(2)] have b2: "bit v2 6 = (\<not> q)" "finished t c2 \<or> (\<exists>n' < n1. busy t n' q c2)"
      by (simp_all add: finished_def)
    from b2(2) show ?thesis
    proof
      assume "finished t c2"
      then show ?thesis using S fin r b1 b2 by auto
    next
      assume "\<exists>n' < n1. busy t n' q c2"
      then obtain n2 where n2: "n2 < n1" "busy t n2 q c2" by blast
      from rb [OF n2(2) r(3)] have b3: "bit v3 6 = q" "\<not> bit v3 5" "finished t c3 \<or> (\<exists>n' < n2. busy t n' (\<not> q) c3)"
        by (simp_all add: finished_def)
      from b3(3) show ?thesis
      proof
        assume "finished t c3"
        then show ?thesis using S fin r b1 b2 b3 more [of c4] n1 n2 by auto
      next
        assume "\<exists>n' < n2. busy t n' (\<not> q) c3"
        then obtain n3 where n3: "n3 < n2" "busy t n3 (\<not> q) c3" by blast
        from rb [OF n3(2) r(4)] have b4: "bit v4 6 = (\<not> q)" "finished t c4 \<or> (\<exists>n' < n3. busy t n' q c4)"
          by (simp_all add: finished_def)
        have "\<exists>c'. status_loop nor k c4 = (NOR_SUCCESS, c') \<and> finished t c'"
          using b4(2) Suc.IH [of _ q c4] more [of c4] Suc.prems(2) n1 n2 n3 by fastforce
        then show ?thesis using S b1 b2 b3 b4 by auto
      qed
    qed
  qed
qed simp

lemma GetStatus_ok:
  assumes "working t n c" "n + 2 < 4 * k"
  shows "\<exists>c'. FSMC_NOR_GetStatus nor k c = (NOR_SUCCESS, c') \<and> finished t c'"
proof -
  let ?c = "wait_pin nor False k (wait_pin nor True k c)"
  have "working t n ?c" using working_wait assms(1) by blast
  moreover obtain k' where "k = Suc k'" using assms(2) by (cases k) auto
  ultimately show ?thesis
    using status_loop_ok [of t _ _ ?c k] status_finished [of t ?c k'] assms(2)
    unfolding working_def FSMC_NOR_GetStatus_def by fastforce
qed

lemma write_data_ok:
  assumes "idle (chip d)" "in_chip dest" "sect_start info ! 0 = NOR_FLASH_START_ADDR" "arr (chip d) dest AND w = w"
  shows "\<exists>c'. write_data nor info dest w d = (d\<lparr> chip := c' \<rparr>, 0) \<and> finished ((arr (chip d))(dest := w)) c'"
proof -
  obtain n q where n: "n + 2 < 4 * Program_Timeout"
    "busy ((arr (chip d))(dest := w)) n q (nor_write nor dest w (nor_unlock nor NOR_FLASH_START_ADDR 0x00A0 (chip d)))"
    using program [OF assms(1,2), of w] assms(4) by auto
  then obtain c' where "FSMC_NOR_GetStatus nor Program_Timeout
      (nor_write nor dest w (nor_unlock nor NOR_FLASH_START_ADDR 0x00A0 (chip d))) = (NOR_SUCCESS, c')"
    "finished ((arr (chip d))(dest := w)) c'"
    using GetStatus_ok [of _ n] unfolding working_def by (meson le_refl)
  then show ?thesis
    using read_idle [OF assms(1,2)] assms(3,4) reset_idle [of c' dest] assms(2)
    by (intro exI [of _ "nor_write nor dest 0x00F0 c'"]) (simp add: write_data_def finished_def)
qed

lemma write_data_not_erased:
  assumes "idle (chip d)" "in_chip dest" "arr (chip d) dest AND w \<noteq> w"
  shows "\<exists>t. write_data nor info dest w d = (fputs t d, 2)"
  using read_idle [OF assms(1,2)] assms(3) by (auto simp: write_data_def)

lemma write_loop_ok:
  assumes "idle (chip d)" "words_in_chip a n" "sect_start info ! 0 = NOR_FLASH_START_ADDR"
    "k \<le> n" "\<forall>i < k. writable (arr (chip d)) m src a i" "k < n \<longrightarrow> \<not> writable (arr (chip d)) m src a k"
  shows "\<exists>t c'. write_loop nor info m src a (of_nat (2 * n)) d = Some ((fputs t d)\<lparr> chip := c' \<rparr>, if k = n then 0 else 2) \<and>
    finished (put_words k m src a (arr (chip d))) c'"
  using assms
proof (induction k arbitrary: n src a d)
  case 0
  show ?case
  proof (cases n)
    case 0
    have "write_loop nor info m src a (of_nat (2 * n)) d = Some ((fputs [] d)\<lparr> chip := chip d \<rparr>, 0)"
      by (simp add: 0 write_loop.simps)
    then show ?thesis using "0.prems"(1) 0
      by (intro exI [of _ "[]"] exI [of _ "chip d"]) (simp add: finished_def)
  next
    case (Suc n')
    have pos: "(0 :: u32) < of_nat (2 * n)"
      using words_in_chip_len [OF "0.prems"(2)] Suc by (simp add: word_less_nat_alt)
    obtain t where "write_data nor info a (src_word m src) d = (fputs t d, 2)"
      using write_data_not_erased [OF "0.prems"(1), of a "src_word m src" info] words_in_chip_Suc(1) [of a n'] "0.prems"(2,6) Suc
      by (auto simp: writable_def)
    then have "write_loop nor info m src a (of_nat (2 * n)) d = Some ((fputs t d)\<lparr> chip := chip d \<rparr>, 2)"
      using pos by (simp add: write_loop.simps fputs_def)
    then show ?thesis using "0.prems"(1) Suc
      by (intro exI [of _ t] exI [of _ "chip d"]) (simp add: finished_def)
  qed
next
  case (Suc k)
  then obtain n' where n: "n = Suc n'" by (cases n) auto
  note w = words_in_chip_Suc [OF Suc.prems(2) [unfolded n]]
  have pos: "(0 :: u32) < of_nat (2 * n)"
    using words_in_chip_len [OF Suc.prems(2)] n by (simp add: word_less_nat_alt)
  have "writable (arr (chip d)) m src a 0" using Suc.prems(5) by blast
  then obtain c1 where c1: "write_data nor info a (src_word m src) d = (d\<lparr> chip := c1 \<rparr>, 0)"
    "idle c1" "arr c1 = (arr (chip d))(a := src_word m src)"
    using write_data_ok [OF Suc.prems(1) w(1) Suc.prems(3), of "src_word m src"]
    by (auto simp: writable_def finished_def)
  have "\<forall>i < k. writable (arr c1) m (src + 2) (a + 2) i" "k < n' \<longrightarrow> \<not> writable (arr c1) m (src + 2) (a + 2) k"
    using Suc.prems(4,5,6) writable_Suc [OF Suc.prems(2) [unfolded n]] by (auto simp: c1(3) n)
  then obtain t c' where IH: "write_loop nor info m (src + 2) (a + 2) (of_nat (2 * n')) (d\<lparr> chip := c1 \<rparr>) =
      Some ((fputs t (d\<lparr> chip := c1 \<rparr>))\<lparr> chip := c' \<rparr>, if k = n' then 0 else 2)"
    "finished (put_words k m (src + 2) (a + 2) (arr c1)) c'"
    using Suc.IH [of "d\<lparr> chip := c1 \<rparr>" "a + 2" n' "src + 2"] c1(2) w(2) Suc.prems(3,4) n by auto
  have "of_nat (2 * n) - 2 = (of_nat (2 * n') :: u32)" by (simp add: n)
  then have "write_loop nor info m src a (of_nat (2 * n)) d = Some ((fputs t d)\<lparr> chip := c' \<rparr>, if Suc k = n then 0 else 2)"
    using IH(1) c1(1) pos by (simp add: write_loop.simps [of nor info m src] n fputs_def)
  then show ?case using IH(2) by (auto simp: c1(3))
qed

lemma erase_sector_ok:
  assumes "idle c" "sst_bank info" "i < sector_count info"
  shows "\<exists>c'. erase_sector nor info i c = (NOR_SUCCESS, c') \<and>
    finished (\<lambda>x. if in_sector (sect_start info ! i) x then 0xFFFF else arr c x) c'"
proof -
  note a = sst_bank_in_chip [OF assms(2,3)]
  let ?t = "\<lambda>x. if in_sector (sect_start info ! i) x then 0xFFFF else arr c x"
  let ?c = "nor_write nor (sect_start info ! i) 0x0030 (nor_write nor (fpw NOR_FLASH_START_ADDR 0x2AAA) 0x0055
            (nor_write nor (fpw NOR_FLASH_START_ADDR 0x5555) 0x00AA (nor_unlock nor NOR_FLASH_START_ADDR 0x0080 c)))"
  obtain n q where n: "n + 2 < 4 * BlockErase_Timeout" "busy ?t n q ?c" using erase [OF assms(1) a] by blast
  then have "working ?t n ?c" unfolding working_def by blast
  then obtain c' where "FSMC_NOR_GetStatus nor BlockErase_Timeout ?c = (NOR_SUCCESS, c')" "finished ?t c'"
    using GetStatus_ok [OF _ n(1)] by blast
  then show ?thesis
    using reset_idle [of c' "sect_start info ! i"] a(1)
    by (intro exI [of _ "nor_write nor (sect_start info ! i) 0x00F0 c'"])
      (simp add: erase_sector_def Let_def sst_bank_start [OF assms(2)] finished_def)
qed

lemma erase_loop_ok:
  "idle (chip d) \<Longrightarrow> sst_bank info \<Longrightarrow> \<forall>i \<in> set sects. i < sector_count info \<Longrightarrow>
   \<exists>t c'. erase_loop nor info sects d = ((fputs t d)\<lparr> chip := c' \<rparr>, 0) \<and> finished (erased info (set sects) (arr (chip d))) c'"
proof (induction sects arbitrary: d)
  case Nil
  then show ?case
    by (intro exI [of _ "[]"] exI [of _ "chip d"]) (simp add: finished_def erased_def [abs_def])
next
  case (Cons i sects)
  show ?case
  proof (cases "protect info ! i")
    case True
    then have "erased info (set (i # sects)) f = erased info (set sects) f" for f by (simp add: erased_def [abs_def])
    then show ?thesis using Cons.IH [OF Cons.prems(1,2)] Cons.prems(3) True by simp
  next
    case False
    obtain c1 where c1: "erase_sector nor info i (chip d) = (NOR_SUCCESS, c1)" "idle c1"
      "arr c1 = (\<lambda>x. if in_sector (sect_start info ! i) x then 0xFFFF else arr (chip d) x)"
      using erase_sector_ok [OF Cons.prems(1,2), of i] Cons.prems(3) by (auto simp: finished_def)
    let ?d = "fputs ('' done'' @ nl) ((fputs (erasing i) d)\<lparr> chip := c1 \<rparr>)"
    have "idle (chip ?d)" by (simp add: fputs_def c1(2))
    then obtain t c' where IH: "erase_loop nor info sects ?d = ((fputs t ?d)\<lparr> chip := c' \<rparr>, 0)"
      "finished (erased info (set sects) (arr c1)) c'"
      using Cons.IH [of ?d] Cons.prems(2,3) by (auto simp: fputs_def)
    have "erased info (set sects) (arr c1) = erased info (set (i # sects)) (arr (chip d))"
      using False by (intro ext) (auto simp: erased_def c1(3))
    moreover have "erase_loop nor info (i # sects) d = ((fputs (erasing i @ '' done'' @ nl @ t) d)\<lparr> chip := c' \<rparr>, 0)"
      using False c1(1) IH(1) by (simp add: fputs_def)
    ultimately show ?thesis using IH(2) by metis
  qed
qed

lemma flash_erase_ok:
  assumes "idle (chip d)" "sst_bank info" "f \<le> l" "l < sector_count info"
  shows "\<exists>t c'. flash_erase nor info (int f) (int l) d = ((fputs t d)\<lparr> chip := c' \<rparr>, 0) \<and>
    finished (erased info {f..l} (arr (chip d))) c'"
proof -
  have "nat (int l + 1) = Suc l" by simp
  then have s: "{f..<nat (int l + 1)} = {f..l}" by auto
  obtain t0 where "flash_erase nor info (int f) (int l) d = erase_loop nor info [f..<nat (int l + 1)] (fputs t0 d)"
    using assms(3) by (simp add: flash_erase_def Let_def)
  moreover obtain t c' where "erase_loop nor info [f..<nat (int l + 1)] (fputs t0 d) =
      ((fputs t (fputs t0 d))\<lparr> chip := c' \<rparr>, 0)" "finished (erased info {f..l} (arr (chip d))) c'"
    using erase_loop_ok [of "fputs t0 d" info "[f..<nat (int l + 1)]"] assms s by (auto simp: fputs_def)
  moreover have "fputs t (fputs t0 d) = fputs (t0 @ t) d" by (simp add: fputs_def)
  ultimately show ?thesis by metis
qed

end

section \<open>Writing and erasing by address\<close>

lemma write_buff_ok:
  assumes "nor_device nor idle arr busy" "sst_bank info" "idle (chip d)" "words_in_chip a n" "k \<le> n"
    "\<forall>i < k. writable (arr (chip d)) m src a i" "k < n \<longrightarrow> \<not> writable (arr (chip d)) m src a k"
  shows "\<exists>t c'. write_buff nor info m src a (of_nat (2 * n)) d = Some ((fputs t d)\<lparr> chip := c' \<rparr>, if k = n then 0 else 2) \<and>
    idle c' \<and> (\<forall>i < k. arr c' (a + of_nat (2 * i)) = src_word m (src + 2 * i)) \<and>
    (\<forall>x. (\<forall>i < k. x \<noteq> a + of_nat (2 * i)) \<longrightarrow> arr c' x = arr (chip d) x)"
proof -
  note [simp] = nor_device.finished_def [OF assms(1)]
  obtain t c' where w: "write_loop nor info m src a (of_nat (2 * n)) d = Some ((fputs t d)\<lparr> chip := c' \<rparr>, if k = n then 0 else 2)"
    "idle c'" "arr c' = put_words k m src a (arr (chip d))"
    using nor_device.write_loop_ok [OF assms(1,3,4) sst_bank_start [OF assms(2)] assms(5-7)] by auto
  have "words_in_chip a k" using assms(4,5) by (simp add: words_in_chip_def)
  moreover have "flash_id info \<noteq> FLASH_UNKNOWN" using assms(2) by (simp add: sst_bank_def)
  ultimately show ?thesis
    using w put_words_nth [of a k] put_words_other [of k _ a]
    by (intro exI [of _ t] exI [of _ c']) (simp add: write_buff_def)
qed

lemma sst_bank_limit: "sst_bank info \<Longrightarrow> unat (sect_start info ! 0 + fi_size info) = 0x64000000 + 0x1000 * sector_count info"
  using sst_bank_size [of info] sst_bank_unat [of info 0]
  by (simp add: unat_word_ariths sst_bank_def NOR_FLASH_START_ADDR_def CONFIG_SYS_MAX_FLASH_SECT_def)

lemma write_protected_iff:
  assumes "sst_bank info" "addr \<le> fin"
  shows "write_protected addr fin info \<longleftrightarrow> (\<exists>i < sector_count info. touches info addr fin i \<and> protect info ! i)"
proof -
  define e where "e = (\<lambda>i. if int i = s_end info then sect_start info ! 0 + fi_size info else sect_start info ! (i + 1))"
  have "fin \<ge> sect_start info ! i \<and> addr < e i \<longleftrightarrow> touches info addr fin i" if i: "i < sector_count info" for i
  proof -
    have "unat (e i) = 0x64000000 + 0x1000 * (i + 1)"
      using i sst_bank_unat [OF assms(1), of "i + 1"] sst_bank_limit [OF assms(1)]
      by (auto simp: s_end_def NOR_FLASH_START_ADDR_def e_def)
    moreover have "unat (sect_end info i) = 0x64000000 + 0x1000 * (i + 1) - 1"
      using i sect_end_unat [OF sst_bank_ok [OF assms(1)] i] sst_bank_lim [OF assms(1), of "Suc i"] by simp
    ultimately have "addr < e i \<longleftrightarrow> addr \<le> sect_end info i" by (simp add: word_less_nat_alt word_le_nat_alt) linarith
    then show ?thesis using touches_iff [OF sst_bank_ok [OF assms(1)] i assms(2)] by blast
  qed
  moreover have "write_protected addr fin info \<longleftrightarrow>
      (\<exists>i < sector_count info. fin \<ge> sect_start info ! i \<and> addr < e i \<and> protect info ! i)"
    by (auto simp only: write_protected_def Let_def e_def set_upt atLeastLessThan_iff Bex_def)
  ultimately show ?thesis by blast
qed

lemma addr2info_sst:
  assumes "sst_bank info" "0x64000000 \<le> unat a" "unat a < 0x64000000 + 0x1000 * sector_count info"
  shows "addr2info [info] a = Some 0"
proof -
  have "unat (b_end info) = 0x64000000 + 0x1000 * sector_count info - 1"
    using b_end_unat [OF sst_bank_ok [OF assms(1)]] sst_bank_lim [OF assms(1), of "sector_count info"] by simp
  then show ?thesis
    using assms sst_bank_start [OF assms(1)] by (simp add: sst_bank_def word_le_nat_alt NOR_FLASH_START_ADDR_def)
qed

text \<open>A range of bytes of the bank, whatever its parity, and a protected sector in it.\<close>

definition in_bank :: "flash_info \<Rightarrow> u32 \<Rightarrow> u32 \<Rightarrow> bool" where
  "in_bank info a cnt \<longleftrightarrow> 0x64000000 \<le> unat a \<and> 0 < cnt \<and> unat a + unat cnt \<le> 0x64000000 + 0x1000 * sector_count info"

definition range_protected :: "flash_info \<Rightarrow> u32 \<Rightarrow> u32 \<Rightarrow> bool" where
  "range_protected info a cnt \<longleftrightarrow> (\<exists>i < sector_count info. touches info a (a + cnt - 1) i \<and> protect info ! i)"

lemma flash_write_bank:
  assumes "sst_bank info" "banks d = [info]" "in_bank info a cnt"
  shows "flash_write nor m src a cnt d =
    (if range_protected info a cnt then Some (d, ERR_PROTECTED) else write_buff nor info m src a cnt d)"
proof -
  let ?fin = "a + cnt - 1"
  have b: "0x64000000 \<le> unat a" "0 < unat cnt" "unat a + unat cnt \<le> 0x64000000 + 0x1000 * sector_count info"
    using assms(3) by (simp_all add: in_bank_def word_less_nat_alt)
  have nz: "cnt \<noteq> 0" "0 < cnt" using b(2) by (auto simp: word_less_nat_alt)
  have "sector_count info \<le> 512" using assms(1) by (simp add: sst_bank_def CONFIG_SYS_MAX_FLASH_SECT_def)
  then have "unat (a + cnt) = unat a + unat cnt" using b(3) by (simp add: unat_word_ariths)
  then have fin: "unat ?fin = unat a + unat cnt - 1"
    using unat_minus_1 [of "a + cnt"] b(2) by (metis add_is_0 not_gr_zero unat_0)
  have le: "a \<le> ?fin" using fin b(2) by (simp add: word_le_nat_alt)
  have i: "addr2info [info] a = Some 0" "addr2info [info] ?fin = Some 0"
    using addr2info_sst [OF assms(1)] fin b by (simp_all del: addr2info.simps)
  have "unat (sect_start info ! 0 + fi_size info - a) = 0x64000000 + 0x1000 * sector_count info - unat a"
    using sst_bank_limit [OF assms(1)] b(3) by (simp add: unat_sub word_le_nat_alt)
  then have room: "(if sect_start info ! 0 + fi_size info - a > cnt then cnt else sect_start info ! 0 + fi_size info - a) = cnt"
    using b(3) by (auto simp: word_less_nat_alt word_unat_eq_iff)
  have same: "(case w of None \<Rightarrow> None | Some (d', i) \<Rightarrow> if i \<noteq> 0 then Some (d', i) else Some (d', ERR_OK)) = w"
    for w :: "('a flashdev \<times> int) option"
    by (auto simp: ERR_OK_def split: option.splits)
  have "write_banks nor [info] m src a cnt d = write_buff nor info m src a cnt d"
    by (simp only: write_banks.simps Let_def room nz(2) if_True same)
  then show ?thesis
    using nz i write_protected_iff [OF assms(1) le] assms(2)
    by (auto simp: flash_write_def Let_def range_protected_def simp del: addr2info.simps write_banks.simps)
qed

lemma flash_write_eq:
  assumes "sst_bank info" "banks d = [info]" "words_in_chip a n" "0 < n" "unat a + 2 * n \<le> 0x64000000 + 0x1000 * sector_count info"
  shows "flash_write nor m src a (of_nat (2 * n)) d =
    (if \<exists>i < sector_count info. touches info a (a + of_nat (2 * n) - 1) i \<and> protect info ! i then Some (d, ERR_PROTECTED)
     else write_buff nor info m src a (of_nat (2 * n)) d)"
proof -
  have "in_bank info a (of_nat (2 * n))"
    using assms(3-5) words_in_chip_len [OF assms(3)]
    by (simp add: in_bank_def words_in_chip_def word_le_nat_alt word_less_nat_alt NOR_FLASH_START_ADDR_def del: of_nat_mult)
  from flash_write_bank [OF assms(1,2) this] show ?thesis by (simp add: range_protected_def)
qed

lemma flash_sect_erase_ok:
  assumes "nor_device nor idle arr busy" "sst_bank info" "idle (chip d)" "banks d = [info]" "f \<le> l" "l < sector_count info"
  shows "\<exists>t c'. flash_sect_erase nor (sect_start info ! f) (sect_end info l) d = ((fputs t d)\<lparr> chip := c' \<rparr>, 0) \<and>
    idle c' \<and> arr c' = erased info {f..l} (arr (chip d))"
proof -
  note [simp] = nor_device.finished_def [OF assms(1)]
  obtain t c' where w: "flash_erase nor info (int f) (int l) d = ((fputs t d)\<lparr> chip := c' \<rparr>, 0)"
    "idle c'" "arr c' = erased info {f..l} (arr (chip d))"
    using nor_device.flash_erase_ok [OF assms(1,3,2,5,6)] by auto
  have "flash_fill_sect_ranges (banks d) (sect_start info ! f) (sect_end info l) = ([(int f, int l)], int l - int f + 1, 0, [])"
    unfolding flash_fill_sect_ranges_def assms(4) by (rule fill_exact [OF sst_bank_ok [OF assms(2)] assms(5,6)])
  then have "flash_sect_erase nor (sect_start info ! f) (sect_end info l) d =
      ((fputs (t @ ''Erased '' @ dec (int l - int f + 1) @ '' sectors'' @ nl) d)\<lparr> chip := c' \<rparr>, 0)"
    using w(1) assms(4,5) by (simp add: flash_sect_erase_def Let_def fputs_def)
  then show ?thesis using w(2,3) by blast
qed

lemma flash_sect_protect_ok:
  assumes "bank_ok info" "f \<le> l" "l < sector_count info"
  shows "\<exists>t. flash_sect_protect p (sect_start info ! f) (sect_end info l) [info] = ([set_protect p (int f) (int l) info], 0, t)"
  using fill_exact [OF assms] assms
  by (simp add: flash_sect_protect_def flash_fill_sect_ranges_def protect_range_def bank_ok_def)

lemma protect_set_protect:
  "k < length (protect info) \<Longrightarrow>
   protect (set_protect p (int f) (int l) info) ! k = (if f \<le> k \<and> k \<le> l then p else protect info ! k)"
  by (auto simp: set_protect_def nth_set_all)

lemma sst_bank_set_protect: "sst_bank info \<Longrightarrow> sst_bank (set_protect p f l info)"
  by (simp add: sst_bank_def set_protect_def length_set_all)

lemma length_flash_protect: "length (protect (flash_protect flag from to info)) = length (protect info)"
proof -
  have "length (protect (fold (flash_protect_sect flag from to) is info)) = length (protect info)" for "is"
    by (induction "is" arbitrary: info) (auto simp: flash_protect_sect_def)
  then show ?thesis by (simp add: flash_protect_def)
qed

lemma write_loop_odd:
  assumes "write_loop nor info m src a cnt d = Some y" "odd cnt"
  shows "snd y \<noteq> 0"
proof -
  have "odd cnt \<longrightarrow> snd y \<noteq> 0"
  proof (rule write_loop.raw_induct [where P = "\<lambda>_ _ _ _ _ cnt _ y. odd cnt \<longrightarrow> snd y \<noteq> 0", OF _ assms(1)])
    fix f and nor :: "'a nor" and info m src wp cnt d y
    assume IH: "\<And>nor info m src wp cnt d y. f nor info m src wp cnt d = Some y \<Longrightarrow> odd (cnt :: u32) \<longrightarrow> snd y \<noteq> (0 :: int)"
      and step: "(if 0 < cnt then let (d', rc) = write_data nor info wp (src_word m src) d in
          if rc \<noteq> 0 then Some (d', rc) else f nor info m (src + 2) (wp + 2) (cnt - 2) d' else Some (d, sint cnt)) = Some y"
    obtain d' rc where w: "write_data nor info wp (src_word m src) d = (d', rc)" by fastforce
    show "odd cnt \<longrightarrow> snd y \<noteq> 0"
    proof
      assume odd: "odd cnt"
      then have "cnt \<noteq> 0" by auto
      then show "snd y \<noteq> 0" using step odd IH [of nor info m "src + 2" "wp + 2" "cnt - 2" d' y]
        by (auto simp: w word_neq_0_conv split: if_splits)
    qed
  qed
  then show ?thesis using assms(2) by blast
qed

text \<open>The words up to the first that cannot be written.\<close>

definition first_unwritable :: "(u32 \<Rightarrow> u16) \<Rightarrow> mem \<Rightarrow> addr \<Rightarrow> u32 \<Rightarrow> nat \<Rightarrow> nat" where
  "first_unwritable f m src a n = length (takeWhile (writable f m src a) [0..<n])"

lemma first_unwritable:
  fixes f m src a n
  defines "k \<equiv> first_unwritable f m src a n"
  shows "k \<le> n" "\<forall>i < k. writable f m src a i" "k < n \<Longrightarrow> \<not> writable f m src a k"
proof -
  let ?t = "takeWhile (writable f m src a) [0..<n]"
  have k: "k = length ?t" by (simp add: k_def first_unwritable_def)
  show le: "k \<le> n" using length_takeWhile_le [of "writable f m src a" "[0..<n]"] by (simp add: k)
  show "\<forall>i < k. writable f m src a i"
  proof (intro allI impI)
    fix i assume i: "i < k"
    then have "?t ! i = i" using takeWhile_nth [of i "writable f m src a" "[0..<n]"] le by (simp add: k)
    then show "writable f m src a i" using i nth_mem [of i ?t] set_takeWhileD [of "?t ! i"] by (metis k)
  qed
  show "\<not> writable f m src a k" if "k < n"
    using nth_length_takeWhile [of "writable f m src a" "[0..<n]"] that by (simp add: k)
qed

lemma odd_unat: "odd (unat w) \<longleftrightarrow> odd w" for w :: u32
  unfolding bit_0 [symmetric] by (simp add: bit_unsigned_iff)

lemma write_buff_odd_ok:
  assumes "odd (unat cnt)"
  shows "write_buff nor info m src a cnt d \<noteq> Some (d', 0)"
  using write_loop_odd [of nor info m src a cnt d "(d', 0)"] assms by (auto simp: write_buff_def odd_unat)

lemma write_buff_words:
  fixes m src
  assumes "nor_device nor idle arr busy" "sst_bank info" "idle (chip d)" "in_bank info a cnt" "even (unat a)" "even (unat cnt)"
  defines "n \<equiv> unat cnt div 2" and "k \<equiv> first_unwritable (arr (chip d)) m src a (unat cnt div 2)"
  shows "\<exists>t c'. write_buff nor info m src a cnt d = Some ((fputs t d)\<lparr> chip := c' \<rparr>, if k = n then 0 else 2) \<and> idle c' \<and>
    (\<forall>i < k. arr c' (a + of_nat (2 * i)) = src_word m (src + 2 * i)) \<and>
    (\<forall>x. (\<forall>i < k. x \<noteq> a + of_nat (2 * i)) \<longrightarrow> arr c' x = arr (chip d) x)"
proof -
  have n: "cnt = of_nat (2 * n)" using assms(6) by (simp add: n_def del: of_nat_mult)
  have "sector_count info \<le> 512" using assms(2) by (simp add: sst_bank_def CONFIG_SYS_MAX_FLASH_SECT_def)
  then have w: "words_in_chip a n"
    using assms(4,5,6) by (simp add: words_in_chip_def in_bank_def n_def NOR_FLASH_START_ADDR_def word_le_nat_alt)
  have k: "first_unwritable (arr (chip d)) m src a n = k" by (simp add: k_def n_def)
  note fu = first_unwritable [of "arr (chip d)" m src a n, unfolded k]
  show ?thesis using write_buff_ok [OF assms(1-3) w fu(1,2)] fu(3) unfolding n [symmetric] by blast
qed

section \<open>Finding the chip\<close>

text \<open>What the SST39VF1601 answers to the identification and the query of its geometry: the maker, the
  device, two megabytes, and 512 sectors. Both modes end with a reset.\<close>

locale nor_ident = nor_device +
  assumes ident: "idle c \<Longrightarrow>
      \<exists>c1 c2. nor_read nor NOR_FLASH_START_ADDR (nor_unlock nor NOR_FLASH_START_ADDR 0x0090 c) = (0x00BF, c1) \<and>
        nor_read nor (fpw NOR_FLASH_START_ADDR 1) c1 = (SST39VF1601, c2) \<and>
        idle (nor_write nor NOR_FLASH_START_ADDR 0x00F0 c2) \<and> arr (nor_write nor NOR_FLASH_START_ADDR 0x00F0 c2) = arr c"
    and query: "idle c \<Longrightarrow>
      \<exists>c1 c2 c3. nor_read nor (fpw NOR_FLASH_START_ADDR 0x27) (nor_unlock nor NOR_FLASH_START_ADDR 0x0098 c) = (0x15, c1) \<and>
        nor_read nor (fpw NOR_FLASH_START_ADDR 0x2E) c1 = (0x01, c2) \<and>
        nor_read nor (fpw NOR_FLASH_START_ADDR 0x2D) c2 = (0xFF, c3) \<and>
        idle (nor_write nor NOR_FLASH_START_ADDR 0x00F0 c3) \<and> arr (nor_write nor NOR_FLASH_START_ADDR 0x00F0 c3) = arr c"
begin

lemma flash_get_size_ok:
  assumes "idle c"
  shows "\<exists>c' t. flash_get_size nor NOR_FLASH_START_ADDR info c =
      (0x200000, info\<lparr> flash_id := 0x10234B, sector_count := 512, fi_size := 0x200000 \<rparr>, c', t) \<and> idle c' \<and> arr c' = arr c"
proof -
  obtain c1 c2 where i: "nor_read nor NOR_FLASH_START_ADDR (nor_unlock nor NOR_FLASH_START_ADDR 0x0090 c) = (0x00BF, c1)"
    "nor_read nor (fpw NOR_FLASH_START_ADDR 1) c1 = (SST39VF1601, c2)"
    "idle (nor_write nor NOR_FLASH_START_ADDR 0x00F0 c2)" "arr (nor_write nor NOR_FLASH_START_ADDR 0x00F0 c2) = arr c"
    using ident [OF assms] by blast
  obtain c3 c4 c5 where q: "nor_read nor (fpw NOR_FLASH_START_ADDR 0x27) (nor_unlock nor NOR_FLASH_START_ADDR 0x0098
        (nor_write nor NOR_FLASH_START_ADDR 0x00F0 c2)) = (0x15, c3)"
    "nor_read nor (fpw NOR_FLASH_START_ADDR 0x2E) c3 = (0x01, c4)" "nor_read nor (fpw NOR_FLASH_START_ADDR 0x2D) c4 = (0xFF, c5)"
    "idle (nor_write nor NOR_FLASH_START_ADDR 0x00F0 c5)" "arr (nor_write nor NOR_FLASH_START_ADDR 0x00F0 c5) = arr c"
    using query [OF i(3)] i(4) by metis
  show ?thesis
    using i(1,2) q
    by (intro exI [of _ "nor_write nor NOR_FLASH_START_ADDR 0x00F0 c5"])
      (simp add: flash_get_size_def Let_def vendor_id_def SST39VF1601_def FLASH_MAN_SST_def push_bit_eq_mult
        CONFIG_SYS_MAX_FLASH_SECT_def)
qed

lemma flash_init_ok:
  assumes "idle (chip d)" "banks d = [info]" "length (sect_start info) = CONFIG_SYS_MAX_FLASH_SECT"
    "length (protect info) = CONFIG_SYS_MAX_FLASH_SECT"
  shows "\<exists>d' info'. flash_init nor d = (d', 0x200000) \<and> banks d' = [info'] \<and> sst_bank info' \<and> sector_count info' = 512 \<and>
    (\<forall>i < 512. protect info' ! i \<longleftrightarrow> i = 0) \<and> idle (chip d') \<and> arr (chip d') = arr (chip d)"
proof -
  let ?i1 = "info\<lparr> flash_id := 0x10234B, sector_count := 512, fi_size := 0x200000 \<rparr>"
  obtain c t where g: "flash_get_size nor 0x64000000 (info\<lparr> flash_id := FLASH_UNKNOWN \<rparr>) (chip d) = (0x200000, ?i1, c, t)"
    "idle c" "arr c = arr (chip d)"
    using flash_get_size_ok [OF assms(1), of "info\<lparr> flash_id := FLASH_UNKNOWN \<rparr>"] by (auto simp: NOR_FLASH_START_ADDR_def)
  define i2 where "i2 = (flash_get_offsets 0x64000000 ?i1)\<lparr> fi_size := 0x200000 \<rparr>"
  define i3 where "i3 = flash_protect FLAG_PROTECT_SET CONFIG_ENV_ADDR (CONFIG_ENV_ADDR + CONFIG_ENV_SECT_SIZE - 1) i2"
  have i2: "i2 = ?i1\<lparr> sect_start := map (\<lambda>i. 0x64000000 + of_nat i * 0x1000) [0..<512], protect := replicate 512 False \<rparr>"
  proof -
    have "map (\<lambda>i. if i < 512 then f i else g i) [0..<512] = map f [0..<512]" for f g :: "nat \<Rightarrow> u32"
      by (rule map_cong) auto
    moreover have "map (\<lambda>i. if i < 512 then False else g i) [0..<512] = replicate 512 False" for g
      by (rule nth_equalityI) auto
    ultimately show ?thesis
      using assms(3,4) by (simp add: i2_def flash_get_offsets_def FLASH_UNKNOWN_def FLASH_VENDMASK_def FLASH_MAN_SST_def
        CONFIG_SYS_MAX_FLASH_SECT_def split del: if_split)
  qed
  have sst: "sst_bank i2"
    by (simp add: sst_bank_def i2 FLASH_UNKNOWN_def CONFIG_SYS_MAX_FLASH_SECT_def NOR_FLASH_START_ADDR_def mult.commute)
  have p: "protect i3 ! k = (if touches i2 CONFIG_ENV_ADDR (CONFIG_ENV_ADDR + CONFIG_ENV_SECT_SIZE - 1) k then True else protect i2 ! k)"
    "i3 = i2\<lparr> protect := protect i3 \<rparr>" if "k < 512" for k
    using flash_protect_nth [OF sst_bank_ok [OF sst], of CONFIG_ENV_ADDR "CONFIG_ENV_ADDR + CONFIG_ENV_SECT_SIZE - 1" k FLAG_PROTECT_SET True] that
    by (simp_all add: i3_def i2 CONFIG_ENV_ADDR_def CONFIG_ENV_SECT_SIZE_def)
  have "touches i2 CONFIG_ENV_ADDR (CONFIG_ENV_ADDR + CONFIG_ENV_SECT_SIZE - 1) k \<longleftrightarrow> k = 0" if k: "k < 512" for k
  proof -
    have k': "k < sector_count i2" using k by (simp add: i2)
    show ?thesis
      using touches_iff [OF sst_bank_ok [OF sst] k', of CONFIG_ENV_ADDR "CONFIG_ENV_ADDR + CONFIG_ENV_SECT_SIZE - 1"]
        sect_end_unat [OF sst_bank_ok [OF sst] k'] sst_bank_lim [OF sst, of "Suc k"] sst_bank_unat [OF sst k'] k
      by (simp add: word_le_nat_alt CONFIG_ENV_ADDR_def CONFIG_ENV_SECT_SIZE_def NOR_FLASH_START_ADDR_def i2) linarith
  qed
  then have prot: "protect i3 ! k \<longleftrightarrow> k = 0" if "k < 512" for k using p(1) [OF that] that by (simp add: i2)
  have len: "length (protect i3) = 512" by (simp add: i3_def length_flash_protect i2)
  have i3: "i2\<lparr> protect := protect i3 \<rparr> = i3" by (rule p(2) [of 0, symmetric]) simp
  have "sst_bank (i2\<lparr> protect := q \<rparr>)" "sector_count (i2\<lparr> protect := q \<rparr>) = 512" if "length q = 512" for q
    using sst that by (simp_all add: sst_bank_def i2)
  from this [OF len] have bank: "sst_bank i3" "sector_count i3 = 512" by (simp_all only: i3)
  obtain t' where "flash_init nor d = (fputs t' (d\<lparr> chip := c, banks := [i3] \<rparr>), 0x200000)"
    using g(1) assms(2) by (simp add: flash_init_def Let_def i3_def i2_def FLASH_UNKNOWN_def)
  then show ?thesis using bank prot g(2,3) by (simp add: fputs_def)
qed

end

end
