(* ===== verification/Nor_Chip.thy ===== *)
theory Nor_Chip
  imports Nor_Flash
begin

text \<open>
  The state machine of the SST39VF1601, which shows that the promises of \<open>nor_device\<close> and \<open>nor_ident\<close> can be kept, and
  the properties of the flash driver.
\<close>

section \<open>A chip\<close>

text \<open>A chip that keeps the promises: the command state machine of the SST39VF1601, with 4 kilobyte sectors,
  software identification and the query table, whose status takes eight reads after a word and a
  hundred after an erase. It has no ready pin, so that the pin reads high.\<close>

datatype sst_mode = Read_Array | Unlock1 | Unlock2 | Program_Word | Erase0 | Erase1 | Erase2 | Software_ID | CFI_Query

record sst =
  cells :: "u32 \<Rightarrow> u16"
  mode :: sst_mode
  target :: "u32 \<Rightarrow> u16"
  remaining :: nat
  toggle :: bool

definition word_of :: "u32 \<Rightarrow> u32" where
  "word_of a = drop_bit 1 (a - NOR_FLASH_START_ADDR)"

definition sst_query :: "sst_mode \<Rightarrow> u32 \<Rightarrow> u16 option" where
  "sst_query md k =
     (if md = Software_ID then (if k = 0 then Some 0xBF else if k = 1 then Some 0x234B else None)
      else if md = CFI_Query
      then (if k = 0x27 then Some 0x15 else if k = 0x2D then Some 0xFF else if k = 0x2E then Some 0x01 else None)
      else None)"

definition sst_read :: "u32 \<Rightarrow> sst \<Rightarrow> u16 \<times> sst" where
  "sst_read a c =
     (case remaining c of
        Suc k \<Rightarrow> (if toggle c then 0x40 else 0,
                  c\<lparr> toggle := \<not> toggle c, remaining := k, cells := (if k = 0 then target c else cells c) \<rparr>)
      | 0 \<Rightarrow> (case sst_query (mode c) (word_of a) of Some v \<Rightarrow> v | None \<Rightarrow> cells c a, c))"

definition sst_next :: "sst_mode \<Rightarrow> u32 \<Rightarrow> u16 \<Rightarrow> sst_mode" where
  "sst_next md k w =
     (if md = Read_Array \<and> k = 0x5555 \<and> w = 0xAA then Unlock1
      else if md = Unlock1 \<and> k = 0x2AAA \<and> w = 0x55 then Unlock2
      else if md = Unlock2 \<and> k = 0x5555 \<and> w = 0xA0 then Program_Word
      else if md = Unlock2 \<and> k = 0x5555 \<and> w = 0x80 then Erase0
      else if md = Unlock2 \<and> k = 0x5555 \<and> w = 0x90 then Software_ID
      else if md = Unlock2 \<and> k = 0x5555 \<and> w = 0x98 then CFI_Query
      else if md = Erase0 \<and> k = 0x5555 \<and> w = 0xAA then Erase1
      else if md = Erase1 \<and> k = 0x2AAA \<and> w = 0x55 then Erase2
      else if md \<in> {Software_ID, CFI_Query} \<and> w \<noteq> 0xF0 then md
      else Read_Array)"

definition sst_write :: "u32 \<Rightarrow> u16 \<Rightarrow> sst \<Rightarrow> sst" where
  "sst_write a w c =
     (if remaining c > 0 then c
      else if mode c = Program_Word
      then c\<lparr> mode := Read_Array, target := (cells c)(a := cells c a AND w), remaining := 8 \<rparr>
      else if mode c = Erase2 \<and> w = 0x30
      then c\<lparr> mode := Read_Array, target := (\<lambda>x. if unat x div 0x1000 = unat a div 0x1000 then 0xFFFF else cells c x), remaining := 100 \<rparr>
      else c\<lparr> mode := sst_next (mode c) (word_of a) w \<rparr>)"

definition SST :: "sst nor" where
  "SST = \<lparr> nor_read = sst_read, nor_write = sst_write, nor_pin = (\<lambda>c. (True, c)) \<rparr>"

definition sst_idle :: "sst \<Rightarrow> bool" where
  "sst_idle c \<longleftrightarrow> remaining c = 0 \<and> mode c = Read_Array"

definition sst_busy :: "(u32 \<Rightarrow> u16) \<Rightarrow> nat \<Rightarrow> bool \<Rightarrow> sst \<Rightarrow> bool" where
  "sst_busy t n q c \<longleftrightarrow> remaining c = Suc n \<and> target c = t \<and> toggle c = q \<and> mode c = Read_Array"

lemma word_of_fpw [simp]:
  "word_of (fpw NOR_FLASH_START_ADDR 0x5555) = 0x5555" "word_of (fpw NOR_FLASH_START_ADDR 0x2AAA) = 0x2AAA"
  by (simp_all add: word_of_def fpw_def NOR_FLASH_START_ADDR_def drop_bit_eq_div)

lemma sst_unlock:
  "sst_idle c \<Longrightarrow> w \<in> {0xA0, 0x80} \<Longrightarrow>
   nor_unlock SST NOR_FLASH_START_ADDR w c = c\<lparr> mode := if w = 0xA0 then Program_Word else Erase0 \<rparr>"
  by (auto simp: nor_unlock_def SST_def sst_write_def sst_next_def sst_idle_def)

lemma same_sector: "unat a mod 0x1000 = 0 \<Longrightarrow> unat x div 0x1000 = unat a div 0x1000 \<longleftrightarrow> in_sector a x"
  unfolding in_sector_def
proof -
  assume "unat a mod 0x1000 = 0"
  then obtain k where k: "unat a = k * 0x1000" by (metis mod_0_imp_dvd dvdE mult.commute)
  have "y div 0x1000 = k \<longleftrightarrow> k * 0x1000 \<le> y \<and> y < k * 0x1000 + 0x1000" for y :: nat by linarith
  then show "unat x div 0x1000 = unat a div 0x1000 \<longleftrightarrow> unat a \<le> unat x \<and> unat x < unat a + 0x1000" by (simp add: k)
qed

interpretation sst_chip: nor_device SST sst_idle cells sst_busy
proof
  fix c a assume "sst_idle c" "in_chip a"
  then show "nor_read SST a c = (cells c a, c)" by (simp add: SST_def sst_read_def sst_idle_def sst_query_def)
  show "sst_idle (nor_write SST a 0x00F0 c) \<and> cells (nor_write SST a 0x00F0 c) = cells c"
    using \<open>sst_idle c\<close> by (simp add: SST_def sst_write_def sst_idle_def sst_next_def)
next
  fix c assume "sst_idle c" show "snd (nor_pin SST c) = c" by (simp add: SST_def)
next
  fix t n q c assume "sst_busy t n q c"
  then show "sst_idle (snd (nor_pin SST c)) \<and> cells (snd (nor_pin SST c)) = t \<or> (\<exists>n' \<le> n. sst_busy t n' q (snd (nor_pin SST c)))"
    by (auto simp: SST_def)
next
  fix t n q c a v c' assume "sst_busy t n q c" "nor_read SST a c = (v, c')"
  then show "bit v 6 = q \<and> \<not> bit v 5 \<and> (sst_idle c' \<and> cells c' = t \<or> (\<exists>n' < n. sst_busy t n' (\<not> q) c'))"
    by (cases n) (auto simp: SST_def sst_read_def sst_busy_def sst_idle_def)
next
  fix c a w assume "sst_idle c" "in_chip a"
  then have "sst_busy ((cells c)(a := cells c a AND w)) 7 (toggle c)
      (nor_write SST a w (nor_unlock SST NOR_FLASH_START_ADDR 0x00A0 c))"
    by (simp add: sst_unlock) (simp add: SST_def sst_write_def sst_busy_def sst_idle_def)
  then show "\<exists>n q. n + 2 < 4 * Program_Timeout \<and> sst_busy ((cells c)(a := cells c a AND w)) n q
      (nor_write SST a w (nor_unlock SST NOR_FLASH_START_ADDR 0x00A0 c))"
    by (intro exI [of _ 7] exI [of _ "toggle c"]) (simp add: Program_Timeout_def)
next
  fix c a assume "sst_idle c" "in_chip a" "unat a mod 0x1000 = 0"
  then have "sst_busy (\<lambda>x. if in_sector a x then 0xFFFF else cells c x) 99 (toggle c)
      (nor_write SST a 0x0030 (nor_write SST (fpw NOR_FLASH_START_ADDR 0x2AAA) 0x0055
        (nor_write SST (fpw NOR_FLASH_START_ADDR 0x5555) 0x00AA (nor_unlock SST NOR_FLASH_START_ADDR 0x0080 c))))"
    by (simp add: sst_unlock) (simp add: SST_def sst_write_def sst_busy_def sst_idle_def sst_next_def same_sector cong: if_cong)
  then show "\<exists>n q. n + 2 < 4 * BlockErase_Timeout \<and> sst_busy (\<lambda>x. if in_sector a x then 0xFFFF else cells c x) n q
      (nor_write SST a 0x0030 (nor_write SST (fpw NOR_FLASH_START_ADDR 0x2AAA) 0x0055
        (nor_write SST (fpw NOR_FLASH_START_ADDR 0x5555) 0x00AA (nor_unlock SST NOR_FLASH_START_ADDR 0x0080 c))))"
    by (intro exI [of _ 99] exI [of _ "toggle c"]) (simp add: BlockErase_Timeout_def)
qed

lemma sst_read_query:
  "remaining c = 0 \<Longrightarrow> mode c = md \<Longrightarrow> sst_query md (word_of a) = Some v \<Longrightarrow> nor_read SST a c = (v, c)"
  by (simp add: SST_def sst_read_def)

lemma word_of_low [simp]:
  "word_of NOR_FLASH_START_ADDR = 0" "word_of (fpw NOR_FLASH_START_ADDR 1) = 1" "word_of (fpw NOR_FLASH_START_ADDR 0x27) = 0x27"
  "word_of (fpw NOR_FLASH_START_ADDR 0x2D) = 0x2D" "word_of (fpw NOR_FLASH_START_ADDR 0x2E) = 0x2E"
  by (simp_all add: word_of_def fpw_def NOR_FLASH_START_ADDR_def drop_bit_eq_div)

lemma sst_enter:
  "sst_idle c \<Longrightarrow> w \<in> {0x90, 0x98} \<Longrightarrow>
   nor_unlock SST NOR_FLASH_START_ADDR w c = c\<lparr> mode := if w = 0x90 then Software_ID else CFI_Query \<rparr>"
  by (auto simp: nor_unlock_def SST_def sst_write_def sst_next_def sst_idle_def)

lemma sst_leave:
  "sst_idle c \<Longrightarrow> nor_write SST a 0x00F0 (c\<lparr> mode := md \<rparr>) = c" if "md \<in> {Software_ID, CFI_Query}"
  using that by (auto simp: SST_def sst_write_def sst_next_def sst_idle_def)

interpretation sst_ident: nor_ident SST sst_idle cells sst_busy
proof
  fix c assume c: "sst_idle c"
  then have z: "remaining (c\<lparr> mode := md \<rparr>) = 0" for md by (simp add: sst_idle_def)
  let ?i = "c\<lparr> mode := Software_ID \<rparr>" and ?q = "c\<lparr> mode := CFI_Query \<rparr>"
  show "\<exists>c1 c2. nor_read SST NOR_FLASH_START_ADDR (nor_unlock SST NOR_FLASH_START_ADDR 0x0090 c) = (0x00BF, c1) \<and>
      nor_read SST (fpw NOR_FLASH_START_ADDR 1) c1 = (SST39VF1601, c2) \<and>
      sst_idle (nor_write SST NOR_FLASH_START_ADDR 0x00F0 c2) \<and> cells (nor_write SST NOR_FLASH_START_ADDR 0x00F0 c2) = cells c"
    using c by (intro exI [of _ ?i]) (simp add: sst_enter sst_leave sst_read_query [OF z] sst_query_def SST39VF1601_def)
  show "\<exists>c1 c2 c3. nor_read SST (fpw NOR_FLASH_START_ADDR 0x27) (nor_unlock SST NOR_FLASH_START_ADDR 0x0098 c) = (0x15, c1) \<and>
      nor_read SST (fpw NOR_FLASH_START_ADDR 0x2E) c1 = (0x01, c2) \<and> nor_read SST (fpw NOR_FLASH_START_ADDR 0x2D) c2 = (0xFF, c3) \<and>
      sst_idle (nor_write SST NOR_FLASH_START_ADDR 0x00F0 c3) \<and> cells (nor_write SST NOR_FLASH_START_ADDR 0x00F0 c3) = cells c"
    using c by (intro exI [of _ ?q]) (simp add: sst_enter sst_leave sst_read_query [OF z] sst_query_def)
qed

section \<open>Properties\<close>

text \<open>An erased chip with a bank of three sectors, for the examples.\<close>

definition sst_erased :: sst where
  "sst_erased = \<lparr> cells = (\<lambda>_. 0xFFFF), mode = Read_Array, target = (\<lambda>_. 0), remaining = 0, toggle = False \<rparr>"

definition sst_dev :: "sst flashdev" where
  "sst_dev = \<lparr> chip = sst_erased, banks = [sample_bank], fout = [] \<rparr>"

lemma sst_dev_idle: "sst_idle (chip sst_dev)" "banks sst_dev = [sample_bank]" "cells (chip sst_dev) = (\<lambda>_. 0xFFFF)"
  by (simp_all add: sst_dev_def sst_erased_def sst_idle_def)

lemma sst_sample_bank: "sst_bank sample_bank"
  by (simp add: sst_bank_def sample_bank_def FLASH_UNKNOWN_def CONFIG_SYS_MAX_FLASH_SECT_def all_less_3 NOR_FLASH_START_ADDR_def)

lemma sst_words: "words_in_chip 0x64001000 1"
  by (simp add: words_in_chip_def NOR_FLASH_START_ADDR_def)

lemma sst_writable: "writable (\<lambda>_. 0xFFFF) m src a i"
proof -
  have "(0xFFFF :: u16) = - 1" by simp
  then show ?thesis unfolding writable_def by (metis and.left_neutral)
qed

text \<open>C22: On any chip that keeps the promises of its data sheet, writing a buffer of \<open>n\<close> words always returns. It returns 0
  and the chip holds exactly the bytes of the buffer when every word can be written by clearing
  bits; otherwise it stops at the first word \<open>k\<close> that cannot, with the result 2 and the words in front of
  it written. Nothing else on the chip changes, and the chip is left in read mode.\<close>

theorem write_buff_correct:
  assumes "nor_device nor idle arr busy" "sst_bank info" "idle (chip d)" "words_in_chip a n" "k \<le> n"
    "\<forall>i < k. writable (arr (chip d)) m src a i" "k < n \<longrightarrow> \<not> writable (arr (chip d)) m src a k"
  shows "\<exists>t c'. write_buff nor info m src a (of_nat (2 * n)) d = Some ((fputs t d)\<lparr> chip := c' \<rparr>, if k = n then 0 else 2) \<and>
    idle c' \<and> (\<forall>i < k. arr c' (a + of_nat (2 * i)) = src_word m (src + 2 * i)) \<and>
    (\<forall>x. (\<forall>i < k. x \<noteq> a + of_nat (2 * i)) \<longrightarrow> arr c' x = arr (chip d) x)"
  using write_buff_ok [OF assms] .

theorem write_buff_correct_witness:
  "\<exists>t c'. write_buff SST sample_bank (\<lambda>_. CHR ''a'') 0 0x64001000 2 sst_dev = Some ((fputs t sst_dev)\<lparr> chip := c' \<rparr>, 0) \<and>
     cells c' 0x64001000 = 0x6161"
proof -
  have "src_word (\<lambda>_. CHR ''a'') 0 = 0x6161" by (simp add: src_word_def push_bit_eq_mult)
  then show ?thesis
    using write_buff_correct [OF sst_chip.nor_device_axioms sst_sample_bank sst_dev_idle(1) sst_words, of 1 "\<lambda>_. CHR ''a''" 0]
    by (auto simp: sst_dev_idle(3) sst_writable)
qed

text \<open>C23: Erasing the sectors from \<open>f\<close> to \<open>l\<close> succeeds, sets every word of those that are not protected to ones, and
  leaves every other sector of the bank as it was.\<close>

theorem flash_erase_correct:
  assumes "nor_device nor idle arr busy" "sst_bank info" "idle (chip d)" "f \<le> l" "l < sector_count info"
  shows "\<exists>t c'. flash_erase nor info (int f) (int l) d = ((fputs t d)\<lparr> chip := c' \<rparr>, 0) \<and> idle c' \<and>
    (\<forall>i x. i < sector_count info \<and> in_sector (sect_start info ! i) x \<longrightarrow>
       arr c' x = (if f \<le> i \<and> i \<le> l \<and> \<not> protect info ! i then 0xFFFF else arr (chip d) x))"
proof -
  note [simp] = nor_device.finished_def [OF assms(1)]
  obtain t c' where w: "flash_erase nor info (int f) (int l) d = ((fputs t d)\<lparr> chip := c' \<rparr>, 0)"
    "idle c'" "arr c' = erased info {f..l} (arr (chip d))"
    using nor_device.flash_erase_ok [OF assms(1,3,2,4,5)] by auto
  have "i = j" if "i < sector_count info" "j < sector_count info" "in_sector (sect_start info ! i) x" "in_sector (sect_start info ! j) x" for i j x
    using that sst_bank_unat [OF assms(2)] by (simp add: in_sector_def)
  then have "erased info {f..l} (arr (chip d)) x = (if f \<le> i \<and> i \<le> l \<and> \<not> protect info ! i then 0xFFFF else arr (chip d) x)"
    if "i < sector_count info" "in_sector (sect_start info ! i) x" for i x
    using that assms(5) unfolding erased_def by (metis atLeastAtMost_iff order_le_less_trans)
  then show ?thesis using w by (intro exI [of _ t] exI [of _ c']) simp
qed


theorem flash_erase_correct_witness:
  "\<exists>t c'. flash_erase SST sample_bank 1 2 sst_dev = ((fputs t sst_dev)\<lparr> chip := c' \<rparr>, 0) \<and> cells c' 0x64001004 = 0xFFFF"
proof -
  have s: "in_sector (sect_start sample_bank ! 1) 0x64001004" "1 < sector_count sample_bank" "2 < sector_count sample_bank"
    "\<not> protect sample_bank ! 1"
    by (simp_all add: in_sector_def sample_bank_def)
  obtain t c' where e: "flash_erase SST sample_bank (int 1) (int 2) sst_dev = ((fputs t sst_dev)\<lparr> chip := c' \<rparr>, 0)"
    "\<forall>i x. i < sector_count sample_bank \<and> in_sector (sect_start sample_bank ! i) x \<longrightarrow>
       cells c' x = (if 1 \<le> i \<and> i \<le> 2 \<and> \<not> protect sample_bank ! i then 0xFFFF else cells (chip sst_dev) x)"
    using flash_erase_correct [OF sst_chip.nor_device_axioms sst_sample_bank sst_dev_idle(1), of 1 2] s(3) by auto
  from e(2) [rule_format, of 1 "0x64001004"] s have "cells c' 0x64001004 = 0xFFFF" by simp
  then show ?thesis using e(1) by auto
qed

text \<open>C24: Writing \<open>cnt\<close> bytes by address to a range of the bank. When a sector of the range is protected, it fails and does not touch
  the chip, whatever the address, the count and what the flash holds. Otherwise an odd number of bytes never succeeds, because the
  loop counts down in twos. An even number at an even address, the chip having only 16-bit words, is written up to the first word
  that would need a bit set: it succeeds when there is none, as on erased flash, reports flash that is not erased when there is
  one, and changes no other word. An odd address is not covered.\<close>

theorem flash_write_correct:
  assumes "nor_device nor idle arr busy" "sst_bank info" "idle (chip d)" "banks d = [info]" "in_bank info a cnt"
  shows "(range_protected info a cnt \<longrightarrow> flash_write nor m src a cnt d = Some (d, ERR_PROTECTED)) \<and>
    (\<not> range_protected info a cnt \<and> odd (unat cnt) \<longrightarrow> (\<forall>d'. flash_write nor m src a cnt d \<noteq> Some (d', ERR_OK))) \<and>
    (\<not> range_protected info a cnt \<and> even (unat cnt) \<and> even (unat a) \<longrightarrow>
      (let n = unat cnt div 2; k = first_unwritable (arr (chip d)) m src a n in
       \<exists>t c'. flash_write nor m src a cnt d = Some ((fputs t d)\<lparr> chip := c' \<rparr>, if k = n then ERR_OK else ERR_NOT_ERASED) \<and> idle c' \<and>
         (\<forall>i < k. arr c' (a + of_nat (2 * i)) = src_word m (src + 2 * i)) \<and>
         (\<forall>x. (\<forall>i < k. x \<noteq> a + of_nat (2 * i)) \<longrightarrow> arr c' x = arr (chip d) x)))"
proof -
  show ?thesis
    using write_buff_words [OF assms(1-3,5), of m src] write_buff_odd_ok [of cnt nor info m src a d]
    unfolding flash_write_bank [OF assms(2,4,5)] Let_def ERR_OK_def ERR_NOT_ERASED_def by (cases "range_protected info a cnt") auto
qed

lemma sample_protected: "range_protected sample_bank 0x64000000 4" "\<not> range_protected sample_bank 0x64001000 2"
proof -
  have t: "touches sample_bank 0x64000000 0x64000003 0" "\<not> touches sample_bank 0x64001000 0x64001001 0"
    using touches_iff [OF sample_bank_ok, of 0] by (simp_all add: sample_bank_def sect_end_def s_end_def)
  have "protect sample_bank ! i \<longleftrightarrow> i = 0" if "i < sector_count sample_bank" for i
    using that by (auto simp: sample_bank_def nth_Cons' split: if_splits)
  moreover have "0 < sector_count sample_bank" by (simp add: sample_bank_def)
  ultimately show "range_protected sample_bank 0x64000000 4" "\<not> range_protected sample_bank 0x64001000 2"
    using t by (auto simp: range_protected_def)
qed

lemma sample_in_bank: "in_bank sample_bank 0x64000000 4" "in_bank sample_bank 0x64001000 2" "in_bank sample_bank 0x64001000 1"
  by (simp_all add: in_bank_def sample_bank_def)

lemma first_unwritable_erased: "first_unwritable (\<lambda>_. 0xFFFF) m src a n = n"
  using first_unwritable [of "\<lambda>_. 0xFFFF" m src a n] sst_writable [of m src a] by (metis le_neq_implies_less)

theorem flash_write_correct_witness:
  "(\<exists>t c'. flash_write SST (\<lambda>_. CHR ''a'') 0 0x64001000 2 sst_dev = Some ((fputs t sst_dev)\<lparr> chip := c' \<rparr>, ERR_OK) \<and>
     cells c' 0x64001000 = 0x6161) \<and> flash_write SST (\<lambda>_. CHR ''a'') 0 0x64000000 4 sst_dev = Some (sst_dev, ERR_PROTECTED)"
proof -
  note fw = flash_write_correct [OF sst_chip.nor_device_axioms sst_sample_bank sst_dev_idle(1,2), of _ _ "\<lambda>_. CHR ''a''" 0]
  have "src_word (\<lambda>_. CHR ''a'') 0 = 0x6161" by (simp add: src_word_def push_bit_eq_mult)
  moreover obtain t c' where "flash_write SST (\<lambda>_. CHR ''a'') 0 0x64001000 2 sst_dev = Some ((fputs t sst_dev)\<lparr> chip := c' \<rparr>, ERR_OK)"
      "\<forall>i < 1. cells c' (0x64001000 + of_nat (2 * i)) = src_word (\<lambda>_. CHR ''a'') (0 + 2 * i)"
    using fw [OF sample_in_bank(2)] sample_protected(2) by (auto simp: sst_dev_idle(3) first_unwritable_erased)
  moreover have "flash_write SST (\<lambda>_. CHR ''a'') 0 0x64000000 4 sst_dev = Some (sst_dev, ERR_PROTECTED)"
    using fw [OF sample_in_bank(1)] sample_protected(1) by blast
  ultimately show ?thesis by auto
qed

text \<open>At startup the driver finds the chip: it reports two megabytes, describes them as 512 sectors of 4 kilobytes,
  protects exactly the sector of the environment, and leaves the chip as it was, in read mode.\<close>

theorem flash_init_correct:
  assumes "nor_ident nor idle arr busy" "idle (chip d)" "banks d = [info]"
    "length (sect_start info) = CONFIG_SYS_MAX_FLASH_SECT" "length (protect info) = CONFIG_SYS_MAX_FLASH_SECT"
  shows "\<exists>d' info'. flash_init nor d = (d', 0x200000) \<and> banks d' = [info'] \<and> sst_bank info' \<and> sector_count info' = 512 \<and>
    (\<forall>i < 512. protect info' ! i \<longleftrightarrow> i = 0) \<and> idle (chip d') \<and> arr (chip d') = arr (chip d)"
  by (rule nor_ident.flash_init_ok [OF assms])

theorem flash_init_correct_witness:
  "\<exists>d' info'. flash_init SST (sst_dev\<lparr> banks := [sample_bank\<lparr> sect_start := replicate 512 0, protect := replicate 512 False \<rparr>] \<rparr>) =
     (d', 0x200000) \<and> banks d' = [info'] \<and> sst_bank info' \<and> protect info' ! 0"
  using flash_init_correct [OF sst_ident.nor_ident_axioms, of "sst_dev\<lparr> banks := [sample_bank\<lparr> sect_start := replicate 512 0,
      protect := replicate 512 False \<rparr>] \<rparr>"] sst_dev_idle(1)
  by (auto simp: CONFIG_SYS_MAX_FLASH_SECT_def)

end
