(* ===== verification/Env_Flash.thy ===== *)
theory Env_Flash
  imports Nor_Chip
begin

text \<open>
  The environment in the flash: \<^verbatim>\<open>common/env_flash.c\<close> (without a redundant copy, as the board builds it) and
  \<^verbatim>\<open>env_relocate\<close> of \<^verbatim>\<open>common/env_common.c\<close>.

  The flash is part of the memory the processor reads: \<open>flash_view\<close> is the memory with the bytes of a chip in
  read mode at the addresses of the chip.
\<close>

section \<open>The code\<close>

definition flash_view :: "'c nor \<Rightarrow> 'c \<Rightarrow> mem \<Rightarrow> mem" where
  "flash_view nor c m a =
     (if 0x64000000 \<le> a \<and> a < 0x64200000
      then let w = fst (nor_read nor (of_nat (a - a mod 2)) c)
           in char_of (unat (if even a then w else drop_bit 8 w))
      else m a)"

text \<open>At startup \<^verbatim>\<open>env_ptr\<close> points into the flash.\<close>

definition env_init :: "env_state \<Rightarrow> env_state" where
  "env_init s =
     (if crc32 (emem s) 0 (env_data s) ENV_SIZE = load32 (emem s) (env_ptr s)
      then s\<lparr> env_addr := env_data s, env_valid := 1 \<rparr>
      else s\<lparr> env_addr := default_environment s, env_valid := 0 \<rparr>)"

definition env_relocate_spec :: "env_state \<Rightarrow> env_state" where
  "env_relocate_spec s = s\<lparr> emem := fst (memcpy (env_ptr s) (unat CONFIG_ENV_ADDR) CONFIG_ENV_SIZE (emem s)) \<rparr>"

text \<open>\<open>buf\<close> is the buffer that \<^verbatim>\<open>malloc\<close> returns, which the code does not check. Its messages on the places of the environment
  (\<^verbatim>\<open>DEBUGF\<close>, which prints in this build) are left out.\<close>

definition env_relocate :: "addr \<Rightarrow> env_state \<Rightarrow> env_state" where
  "env_relocate buf s =
     (let s1 = s\<lparr> env_ptr := buf \<rparr>;
          s2 = (if env_valid s1 = 0
                then set_default_env (puts (''*** Warning - bad CRC, using default environment'' @ nl @ nl) s1)
                else env_relocate_spec s1)
      in s2\<lparr> env_addr := env_data s2 \<rparr>)"

text \<open>\<^verbatim>\<open>saveenv\<close>, for a sector that is as large as the environment: it is unprotected, erased, written from
  \<^verbatim>\<open>*env_ptr\<close> and protected again.\<close>

definition saveenv :: "'c nor \<Rightarrow> mem \<Rightarrow> addr \<Rightarrow> 'c flashdev \<Rightarrow> ('c flashdev \<times> int) option" where
  "saveenv nor m env_buffer d =
     (let flash_sect_addr = CONFIG_ENV_ADDR;
          len = of_nat CONFIG_ENV_SIZE;
          end_addr = flash_sect_addr + len - 1;
          (bs, rc, t) = flash_sect_protect False flash_sect_addr end_addr (banks d);
          d1 = fputs t (d\<lparr> banks := bs \<rparr>)
      in if rc \<noteq> 0 then Some (d1, 1)
         else let (d2, rc) = flash_sect_erase nor flash_sect_addr end_addr (fputs ''Erasing Flash...'' d1)
              in if rc \<noteq> 0 then Some (d2, 1)
                 else (case flash_write nor m env_buffer flash_sect_addr len (fputs ''Writing to Flash... '' d2) of
                         None \<Rightarrow> None
                       | Some (d3, rc) \<Rightarrow>
                           let (d4, rcode) = (if rc \<noteq> 0 then (fputs (flash_perror rc) d3, 1) else (fputs (''done'' @ nl) d3, 0));
                               (bs, _, t) = flash_sect_protect True flash_sect_addr end_addr (banks d4)
                           in Some (fputs t (d4\<lparr> banks := bs \<rparr>), rcode)))"

section \<open>What the flash holds\<close>

lemma src_word_bytes:
  "char_of (unat (src_word m p)) = m p" "char_of (unat (drop_bit 8 (src_word m p))) = m (p + 1)"
  by (auto simp: char_of_unat_iff src_word_def bit_simps bit_of_char_u16 dest: bit_of_char_nat)

text \<open>A chip in read mode that holds the words of a buffer holds its bytes.\<close>

definition env_base :: nat where "env_base = 0x64000000"

lemma flash_view_saved:
  assumes dev: "nor_device nor idle arr busy" "idle c"
    and w: "\<forall>j < n. arr c (CONFIG_ENV_ADDR + of_nat (2 * j)) = src_word m (p + 2 * j)" "2 * n \<le> 0x200000" "i < 2 * n"
  shows "flash_view nor c m' (env_base + i) = m (p + i)"
proof -
  define j where "j = i div 2"
  have "(env_base + i) mod 2 = i mod 2" unfolding env_base_def by presburger
  then have j: "j < n" "env_base + i - (env_base + i) mod 2 = env_base + 2 * j"
    using w(3) minus_mod_eq_mult_div [of i 2] by (auto simp: j_def)
  have u: "unat (of_nat (env_base + 2 * j) :: u32) = env_base + 2 * j"
    unfolding unat_of_nat using j(1) w(2) by (simp add: env_base_def take_bit_nat_eq_self)
  have "in_chip (of_nat (env_base + 2 * j))"
    unfolding in_chip_def word_le_nat_alt word_less_nat_alt u using j(1) w(2) by (simp add: env_base_def NOR_FLASH_START_ADDR_def)
  then have "nor_read nor (of_nat (env_base + 2 * j)) c = (arr c (of_nat (env_base + 2 * j)), c)"
    by (rule nor_device.read_idle [OF dev])
  moreover have "arr c (of_nat (env_base + 2 * j)) = src_word m (p + 2 * j)"
    using w(1) j(1) by (simp add: env_base_def CONFIG_ENV_ADDR_def)
  ultimately have "flash_view nor c m' (env_base + i) =
      char_of (unat (if even (env_base + i) then src_word m (p + 2 * j) else drop_bit 8 (src_word m (p + 2 * j))))"
    using w(2,3) unfolding flash_view_def j(2) by (simp add: env_base_def)
  moreover have "i = 2 * j + (if even i then 0 else 1)" unfolding j_def by presburger
  ultimately show ?thesis
    by (cases "even i") (simp_all add: src_word_bytes env_base_def)
qed

definition env_fin :: u32 where "env_fin = CONFIG_ENV_ADDR + of_nat CONFIG_ENV_SIZE - 1"

lemma env_sector:
  assumes "sst_bank i"
  shows "sect_start i ! 0 = CONFIG_ENV_ADDR" "sect_end i 0 = env_fin" "0 < sector_count i"
proof -
  show n0: "0 < sector_count i" using assms by (simp add: sst_bank_def)
  have "unat (sect_end i 0) = unat (0x64000FFF :: u32)"
    using sect_end_unat [OF sst_bank_ok [OF assms] n0] sst_bank_lim [OF assms, of 1] n0 by simp
  then show "sect_end i 0 = env_fin"
    by (simp add: CONFIG_ENV_ADDR_def CONFIG_ENV_SIZE_def word_unat_eq_iff env_fin_def)
  show "sect_start i ! 0 = CONFIG_ENV_ADDR"
    using sst_bank_start [OF assms] by (simp add: CONFIG_ENV_ADDR_def NOR_FLASH_START_ADDR_def)
qed

lemma env_sector_touched:
  assumes "sst_bank i" "k < sector_count i" "touches i CONFIG_ENV_ADDR env_fin k"
  shows "k = 0"
proof -
  have "sect_start i ! k \<le> env_fin"
    using touches_iff [OF sst_bank_ok [OF assms(1)] assms(2), of CONFIG_ENV_ADDR env_fin] assms(3)
    by (simp add: env_fin_def CONFIG_ENV_ADDR_def CONFIG_ENV_SIZE_def)
  then show ?thesis
    using sst_bank_unat [OF assms(1,2)]
    by (simp add: word_le_nat_alt env_fin_def CONFIG_ENV_ADDR_def CONFIG_ENV_SIZE_def NOR_FLASH_START_ADDR_def)
qed

lemma env_protect:
  assumes "sst_bank i"
  shows "\<exists>t. flash_sect_protect p CONFIG_ENV_ADDR env_fin [i] = ([set_protect p 0 0 i], 0, t)"
  using flash_sect_protect_ok [OF sst_bank_ok [OF assms] order_refl env_sector(3) [OF assms], of p] env_sector [OF assms] by simp

lemma env_write:
  assumes "nor_device nor idle arr busy" "sst_bank info" "idle (chip d)" "banks d = [info]" "\<not> protect info ! 0"
    "\<forall>x. in_sector CONFIG_ENV_ADDR x \<longrightarrow> arr (chip d) x = 0xFFFF"
  shows "\<exists>t c'. flash_write nor m p CONFIG_ENV_ADDR (of_nat CONFIG_ENV_SIZE) d = Some ((fputs t d)\<lparr> chip := c' \<rparr>, 0) \<and> idle c' \<and>
    (\<forall>j < 2048. arr c' (CONFIG_ENV_ADDR + of_nat (2 * j)) = src_word m (p + 2 * j)) \<and>
    (\<forall>x. \<not> in_sector CONFIG_ENV_ADDR x \<longrightarrow> arr c' x = arr (chip d) x)"
proof -
  have n: "of_nat CONFIG_ENV_SIZE = (of_nat (2 * 2048) :: u32)" by (simp add: CONFIG_ENV_SIZE_def)
  have chip: "words_in_chip CONFIG_ENV_ADDR 2048" by (simp add: words_in_chip_def CONFIG_ENV_ADDR_def NOR_FLASH_START_ADDR_def)
  have inside: "in_sector CONFIG_ENV_ADDR (CONFIG_ENV_ADDR + of_nat (2 * j))" if "j < 2048" for j
    using that by (simp add: in_sector_def CONFIG_ENV_ADDR_def unat_word_ariths unat_of_nat take_bit_eq_mod)
  have np: "\<not> (\<exists>i < sector_count info. touches info CONFIG_ENV_ADDR (CONFIG_ENV_ADDR + of_nat (2 * 2048) - 1) i \<and> protect info ! i)"
    using env_sector_touched [OF assms(2)] assms(5) unfolding env_fin_def n by blast
  have sz: "unat CONFIG_ENV_ADDR + 2 * 2048 \<le> 0x64000000 + 0x1000 * sector_count info"
    using env_sector(3) [OF assms(2)] by (simp add: CONFIG_ENV_ADDR_def)
  have "flash_write nor m p CONFIG_ENV_ADDR (of_nat CONFIG_ENV_SIZE) d =
      write_buff nor info m p CONFIG_ENV_ADDR (of_nat (2 * 2048)) d"
    unfolding n flash_write_eq [OF assms(2,4) chip zero_less_numeral sz] by (rule if_not_P [OF np])
  moreover have "\<forall>i < 2048. writable (arr (chip d)) m p CONFIG_ENV_ADDR i"
    using inside assms(6) sst_writable [of m p CONFIG_ENV_ADDR] by (simp add: writable_def)
  then obtain t c' where "write_buff nor info m p CONFIG_ENV_ADDR (of_nat (2 * 2048)) d = Some ((fputs t d)\<lparr> chip := c' \<rparr>, 0)" "idle c'"
    "\<forall>i < 2048. arr c' (CONFIG_ENV_ADDR + of_nat (2 * i)) = src_word m (p + 2 * i)"
    "\<forall>x. (\<forall>i < 2048. x \<noteq> CONFIG_ENV_ADDR + of_nat (2 * i)) \<longrightarrow> arr c' x = arr (chip d) x"
    using write_buff_ok [OF assms(1-3) chip order_refl, of m p] by auto
  ultimately show ?thesis using inside by (intro exI [of _ t] exI [of _ c']) (metis (no_types))
qed

lemma saveenv_ok:
  assumes "nor_device nor idle arr busy" "sst_bank info" "idle (chip d)" "banks d = [info]"
  shows "\<exists>d' info'. saveenv nor m p d = Some (d', 0) \<and> idle (chip d') \<and> banks d' = [info'] \<and>
    sst_bank info' \<and> protect info' ! 0 \<and>
    (\<forall>j < 2048. arr (chip d') (CONFIG_ENV_ADDR + of_nat (2 * j)) = src_word m (p + 2 * j)) \<and>
    (\<forall>x. \<not> in_sector CONFIG_ENV_ADDR x \<longrightarrow> arr (chip d') x = arr (chip d) x)"
proof -
  let ?i1 = "set_protect False 0 0 info" and ?i2 = "set_protect True 0 0 (set_protect False 0 0 info)"
  note sst1 = sst_bank_set_protect [OF assms(2), of False 0 0]
  note sst2 = sst_bank_set_protect [OF sst1, of True 0 0]
  have len: "0 < length (protect info)" "0 < length (protect ?i1)" using env_sector(3) assms(2) sst1 by (auto simp: sst_bank_def)
  obtain t1 where p1: "flash_sect_protect False CONFIG_ENV_ADDR env_fin [info] = ([?i1], 0, t1)"
    using env_protect [OF assms(2)] by blast
  obtain t4 where p4: "flash_sect_protect True CONFIG_ENV_ADDR env_fin [?i1] = ([?i2], 0, t4)"
    using env_protect [OF sst1] by blast
  define d1 where "d1 = fputs ''Erasing Flash...'' (fputs t1 (d\<lparr> banks := [?i1] \<rparr>))"
  have d1: "idle (chip d1)" "banks d1 = [?i1]" "arr (chip d1) = arr (chip d)" using assms(3) by (simp_all add: d1_def fputs_def)
  obtain t2 c2 where e: "flash_sect_erase nor CONFIG_ENV_ADDR env_fin d1 = ((fputs t2 d1)\<lparr> chip := c2 \<rparr>, 0)"
    "idle c2" "arr c2 = erased ?i1 {0..0} (arr (chip d))"
    using flash_sect_erase_ok [OF assms(1) sst1 d1(1,2) order_refl env_sector(3) [OF sst1]] env_sector [OF sst1] d1(3) by auto
  define d2 where "d2 = fputs ''Writing to Flash... '' ((fputs t2 d1)\<lparr> chip := c2 \<rparr>)"
  have d2: "idle (chip d2)" "banks d2 = [?i1]" "chip d2 = c2" using e(2) d1(2) by (simp_all add: d2_def fputs_def)
  have np: "\<not> protect ?i1 ! 0" "protect ?i2 ! 0"
    using protect_set_protect [OF len(1), of False 0 0] protect_set_protect [OF len(2), of True 0 0] by simp_all
  then have c2: "arr c2 x = (if in_sector CONFIG_ENV_ADDR x then 0xFFFF else arr (chip d) x)" for x
    using env_sector(1) [OF sst1] by (simp add: e(3) erased_def)
  obtain t3 c3 where w: "flash_write nor m p CONFIG_ENV_ADDR (of_nat CONFIG_ENV_SIZE) d2 = Some ((fputs t3 d2)\<lparr> chip := c3 \<rparr>, 0)"
    "idle c3" "\<forall>j < 2048. arr c3 (CONFIG_ENV_ADDR + of_nat (2 * j)) = src_word m (p + 2 * j)"
    "\<forall>x. \<not> in_sector CONFIG_ENV_ADDR x \<longrightarrow> arr c3 x = arr (chip d2) x"
    using env_write [OF assms(1) sst1 d2(1,2) np(1), of m p] c2 d2(3) by auto
  define d3 where "d3 = fputs t4 ((fputs (''done'' @ nl) ((fputs t3 d2)\<lparr> chip := c3 \<rparr>))\<lparr> banks := [?i2] \<rparr>)"
  have b3: "banks (fputs t ((fputs t3 d2)\<lparr> chip := c3 \<rparr>)) = [?i1]" for t using d2(2) by (simp add: fputs_def)
  have "saveenv nor m p d = Some (d3, 0)"
    unfolding saveenv_def Let_def env_fin_def [symmetric] assms(4) p1
    by (simp add: d1_def [symmetric] e(1) d2_def [symmetric] w(1) b3 p4 d3_def)
  moreover have "chip d3 = c3" "banks d3 = [?i2]" by (simp_all add: d3_def fputs_def)
  ultimately show ?thesis using w(2-4) np(2) sst2 c2 d2(3) by (intro exI [of _ d3] exI [of _ ?i2]) simp
qed

section \<open>Starting from the flash\<close>

text \<open>The environment moves with the bytes of its block.\<close>

lemma cstr_shift: "(\<And>i. i \<le> length s \<Longrightarrow> m' (p' + i) = m (p + i)) \<Longrightarrow> cstr m' p' s = cstr m p s"
proof -
  assume a: "\<And>i. i \<le> length s \<Longrightarrow> m' (p' + i) = m (p + i)"
  then have "mem_get m' p' (Suc (length s)) = mem_get m p (Suc (length s))" by (intro nth_equalityI) simp_all
  then show ?thesis by (simp add: cstr_iff_mem_get)
qed

lemma strs_shift: "(\<And>i. i < esize es \<Longrightarrow> m' (p' + i) = m (p + i)) \<Longrightarrow> strs m' p' es = strs m p es"
proof (induction es arbitrary: p p')
  case (Cons e es)
  have "cstr m' p' e = cstr m p e" using Cons.prems by (intro cstr_shift) simp
  moreover have "strs m' (p' + Suc (length e)) es = strs m (p + Suc (length e)) es"
    using Cons.prems [of "Suc (length e) + _"] by (intro Cons.IH) (simp add: add.assoc)
  ultimately show ?case by simp
qed simp

lemma env_at_shift:
  assumes "\<And>i. i \<le> max 1 (esize es) \<Longrightarrow> m' (p' + i) = m (p + i)"
  shows "env_at m' p' es = env_at m p es"
proof -
  have "strs m' p' es = strs m p es" using assms by (intro strs_shift) simp
  then show ?thesis using assms [of "esize es"] assms [of 1] by (simp add: env_at_def)
qed

lemma env_moved:
  assumes "env_ok s es" "crc_ok s" "\<forall>i < CONFIG_ENV_SIZE. emem s' (env_ptr s' + i) = emem s (env_ptr s + i)"
    "env_valid s' \<noteq> 0" "env_addr s' = env_data s'"
  shows "env_ok s' es" "crc_ok s'"
proof -
  have d: "emem s' (env_data s' + i) = emem s (env_data s + i)" if "i < ENV_SIZE" for i
    using assms(3) [rule_format, of "4 + i"] that
    by (simp add: env_data_def ENV_HEADER_SIZE_def ENV_SIZE_def CONFIG_ENV_SIZE_def add.assoc)
  have "mem_get (emem s') (env_data s') ENV_SIZE = mem_get (emem s) (env_data s) ENV_SIZE"
    by (rule nth_equalityI) (simp_all add: d)
  moreover have "load32 (emem s') (env_ptr s') = load32 (emem s) (env_ptr s)"
    using assms(3) [rule_format, of 0] assms(3) [rule_format, of 1] assms(3) [rule_format, of 2] assms(3) [rule_format, of 3]
    by (simp add: load32_def CONFIG_ENV_SIZE_def)
  ultimately show "crc_ok s'" using assms(2) by (simp add: crc_ok_def crc32_eq)
  have "env_at (emem s') (env_data s') es = env_at (emem s) (env_data s) es"
    using assms(1) by (intro env_at_shift d) (auto simp: env_ok_def ENV_SIZE_def CONFIG_ENV_SIZE_def ENV_HEADER_SIZE_def)
  then show "env_ok s' es" using assms(1,4,5) by (simp add: env_ok_def)
qed

lemma env_boot_ok:
  assumes "env_ok s es" "crc_ok s" "env_ptr s0 = env_base" "\<forall>i < CONFIG_ENV_SIZE. emem s0 (env_base + i) = emem s (env_ptr s + i)"
    "buf \<le> env_base"
  shows "env_ok (env_relocate buf (env_init s0)) es" "crc_ok (env_relocate buf (env_init s0))"
    "env_ptr (env_relocate buf (env_init s0)) = buf"
proof -
  let ?s1 = "s0\<lparr> env_addr := env_data s0, env_valid := 1 \<rparr>"
  have d: "env_data ?s1 = env_data s0" "env_data (s\<lparr> env_addr := a, env_valid := v \<rparr>) = env_data s" for a v s by (simp_all add: env_data_def)
  have s1: "env_ok ?s1 es" "crc_ok ?s1"
    using assms(3,4) by (intro env_moved [OF assms(1,2)]; simp add: d)+
  then have "env_init s0 = ?s1" by (simp add: env_init_def crc_ok_def env_data_def)
  then have r: "env_relocate buf (env_init s0) =
      (let s2 = ?s1\<lparr> env_ptr := buf, emem := mem_put (emem s0) buf (mem_get (emem s0) env_base CONFIG_ENV_SIZE) \<rparr>
       in s2\<lparr> env_addr := env_data s2 \<rparr>)"
    using assms(5) by (simp add: env_relocate_def env_relocate_spec_def memcpy_eq CONFIG_ENV_ADDR_def env_base_def)
  show "env_ptr (env_relocate buf (env_init s0)) = buf" unfolding r by (simp add: Let_def)
  show "env_ok (env_relocate buf (env_init s0)) es" "crc_ok (env_relocate buf (env_init s0))"
    unfolding r Let_def using assms(3)
    by (intro env_moved [OF s1]; simp add: mem_put_inside env_data_def)+
qed

text \<open>The default environment, which is used when the checksum in the flash is wrong.\<close>

definition default_ok :: "env_state \<Rightarrow> addr \<Rightarrow> string list \<Rightarrow> bool" where
  "default_ok s buf es \<longleftrightarrow> env_at (emem s) (default_environment s) es \<and> max 1 (esize es) < default_size s \<and>
     default_size s \<le> ENV_SIZE \<and> distinct (map name_of es) \<and>
     (default_environment s + default_size s \<le> buf \<or> buf + CONFIG_ENV_SIZE \<le> default_environment s)"

lemma env_default_ok:
  assumes "env_valid s = 0" "default_ok s buf es"
  shows "env_ok (env_relocate buf s) es" "crc_ok (env_relocate buf s)" "env_ptr (env_relocate buf s) = buf"
proof -
  define m1 where "m1 = mem_put (emem s) buf (replicate (ENV_HEADER_SIZE + ENV_SIZE) NUL)"
  define m2 where "m2 = mem_put m1 (buf + ENV_HEADER_SIZE) (mem_get m1 (default_environment s) (default_size s))"
  define s1 where "s1 = puts (''*** Warning - bad CRC, using default environment'' @ nl @ nl) (s\<lparr> env_ptr := buf \<rparr>)"
  have s1: "env_ptr s1 = buf" "emem s1 = emem s" "env_data s1 = buf + ENV_HEADER_SIZE" "default_size s1 = default_size s"
    "default_environment s1 = default_environment s"
    by (simp_all add: s1_def puts_def env_data_def)
  define s3 where "s3 = s1\<lparr> emem := m2 \<rparr>"
  define s4 where "s4 = (env_crc_update s3)\<lparr> env_valid := 1 \<rparr>"
  have fields: "env_ptr s3 = buf" "emem s3 = m2" "env_data s3 = buf + ENV_HEADER_SIZE" by (simp_all add: s3_def s1 env_data_def)
  have small: "\<not> ENV_SIZE < default_size s" and dist: "default_environment s + default_size s \<le> buf \<or> buf + CONFIG_ENV_SIZE \<le> default_environment s"
    using assms(2) by (simp_all add: default_ok_def)
  have "memcpy (buf + ENV_HEADER_SIZE) (default_environment s) (default_size s) m1 = (m2, buf + ENV_HEADER_SIZE)"
    unfolding m2_def using dist by (intro memcpy_eq) (auto simp: ENV_HEADER_SIZE_def CONFIG_ENV_SIZE_def)
  moreover have "fst (memset buf 0 (ENV_HEADER_SIZE + ENV_SIZE) (emem s)) = m1"
    by (simp add: memset_eq m1_def char_of_def)
  ultimately have "set_default_env s1 = s4"
    using small by (simp add: set_default_env_def s1 s3_def s4_def Let_def)
  then have "env_relocate buf s = s4\<lparr> env_addr := env_data s4 \<rparr>"
    using assms(1) by (simp add: env_relocate_def Let_def s1_def)
  moreover have "env_ptr s4 = buf" "env_data s4 = env_data s3" by (simp_all add: s4_def env_crc_update_def fields env_data_def)
  moreover have "crc_ok (s4\<lparr> env_addr := a \<rparr>)" for a using crc_update_ok [of s3] by (simp add: s4_def crc_ok_def env_data_def)
  moreover have "env_at (emem s4) (env_data s3) es = env_at (emem s) (default_environment s) es"
  proof (rule env_at_shift)
    fix i assume "i \<le> max 1 (esize es)"
    then have i: "i < default_size s" using assms(2) by (auto simp: default_ok_def max_def split: if_splits)
    have "emem s4 (env_data s3 + i) = m2 (env_data s3 + i)" using crc_update_data [of _ s3] by (simp add: s4_def fields)
    also have "\<dots> = m1 (default_environment s + i)" using i by (simp add: m2_def fields mem_put_inside)
    also have "\<dots> = emem s (default_environment s + i)"
      unfolding m1_def using i dist by (intro mem_put_outside) (auto simp: ENV_SIZE_def CONFIG_ENV_SIZE_def ENV_HEADER_SIZE_def)
    finally show "emem s4 (env_data s3 + i) = emem s (default_environment s + i)" .
  qed
  ultimately show "env_ok (env_relocate buf s) es" "crc_ok (env_relocate buf s)" "env_ptr (env_relocate buf s) = buf"
    using assms(2) by (auto simp: env_ok_def default_ok_def s4_def env_data_def)
qed

section \<open>Properties\<close>

text \<open>C21: Saving the environment survives a reset. On any chip that keeps the promises of its data sheet, \<^verbatim>\<open>saveenv\<close>
  succeeds, leaves the other sectors alone and the sector of the environment protected; and a system
  that then starts, with any contents of its memory, finds the same variables with a right checksum
  in the buffer it allocates.\<close>

theorem saveenv_roundtrip:
  assumes "nor_device nor idle arr busy" "sst_bank info" "idle (chip d)" "banks d = [info]" "env_ok s es" "crc_ok s"
    "env_ptr s0 = unat CONFIG_ENV_ADDR" "buf \<le> unat CONFIG_ENV_ADDR"
  shows "\<exists>d' info'. saveenv nor (emem s) (env_ptr s) d = Some (d', 0) \<and> banks d' = [info'] \<and> sst_bank info' \<and> protect info' ! 0 \<and>
    idle (chip d') \<and> (\<forall>x. \<not> in_sector CONFIG_ENV_ADDR x \<longrightarrow> arr (chip d') x = arr (chip d) x) \<and>
    (\<forall>ram. let s1 = env_relocate buf (env_init (s0\<lparr> emem := flash_view nor (chip d') ram \<rparr>))
       in env_ok s1 es \<and> crc_ok s1 \<and> env_ptr s1 = buf)"
proof -
  have base: "unat CONFIG_ENV_ADDR = env_base" by (simp add: CONFIG_ENV_ADDR_def env_base_def)
  obtain d' info' where s: "saveenv nor (emem s) (env_ptr s) d = Some (d', 0)" "idle (chip d')" "banks d' = [info']"
    "sst_bank info'" "protect info' ! 0"
    "\<forall>j < 2048. arr (chip d') (CONFIG_ENV_ADDR + of_nat (2 * j)) = src_word (emem s) (env_ptr s + 2 * j)"
    "\<forall>x. \<not> in_sector CONFIG_ENV_ADDR x \<longrightarrow> arr (chip d') x = arr (chip d) x"
    using saveenv_ok [OF assms(1-4), of "emem s" "env_ptr s"] by blast
  have "flash_view nor (chip d') ram (env_base + i) = emem s (env_ptr s + i)" if "i < CONFIG_ENV_SIZE" for ram i
    using flash_view_saved [OF assms(1) s(2,6)] that by (simp add: CONFIG_ENV_SIZE_def)
  then show ?thesis
    using s assms(7,8) env_boot_ok [OF assms(5,6), of "s0\<lparr> emem := flash_view nor (chip d') _ \<rparr>" buf]
    unfolding base by (intro exI [of _ d'] exI [of _ info']) (simp add: Let_def)
qed

theorem saveenv_roundtrip_witness:
  "\<exists>d'. saveenv SST (emem (env_crc_update sample_env)) 100 sst_dev = Some (d', 0) \<and>
     env_ok (env_relocate 0x20000000 (env_init (sample_env\<lparr> env_ptr := 0x64000000, emem := flash_view SST (chip d') (\<lambda>_. NUL) \<rparr>)))
       [''bootdelay=3'', ''a=1'']"
proof -
  let ?s = "env_crc_update sample_env" and ?boot = "sample_env\<lparr> env_ptr := 0x64000000 \<rparr>"
  have "env_ok ?s [''bootdelay=3'', ''a=1'']" using sample_env_ok by (simp only: env_ok_crc_update)
  moreover have "env_ptr ?s = 100" "env_ptr ?boot = unat CONFIG_ENV_ADDR" "0x20000000 \<le> unat CONFIG_ENV_ADDR"
    by (simp_all add: env_crc_update_def sample_env_def CONFIG_ENV_ADDR_def)
  ultimately show ?thesis
    using saveenv_roundtrip [OF sst_chip.nor_device_axioms sst_sample_bank sst_dev_idle(1,2) _ crc_update_ok, of sample_env _ ?boot "0x20000000"]
    by (fastforce simp: Let_def)
qed

text \<open>C25: A single byte of the saved variables that changes in the flash is noticed at startup: the system starts
  with the default variables instead, in a well-formed environment with a right checksum.\<close>

theorem env_init_fallback:
  assumes "crc32 m 0 (env_data s) ENV_SIZE = load32 m (env_ptr s)"
    "emem s = m(a := x)" "env_data s \<le> a" "a < env_data s + ENV_SIZE" "x \<noteq> m a" "default_ok s buf es"
  shows "env_valid (env_init s) = 0 \<and> env_ok (env_relocate buf (env_init s)) es \<and> crc_ok (env_relocate buf (env_init s))"
proof -
  have "load32 (emem s) (env_ptr s) = load32 m (env_ptr s)"
    using assms(3) by (simp add: assms(2) load32_def env_data_def ENV_HEADER_SIZE_def)
  then have i: "env_init s = s\<lparr> env_addr := default_environment s, env_valid := 0 \<rparr>"
    using crc32_byte_change [of "env_data s" a ENV_SIZE x m 0] assms(1-5) by (simp add: env_init_def)
  then have "default_ok (env_init s) buf es" using assms(6) by (simp add: default_ok_def)
  then show ?thesis using env_default_ok [of "env_init s" buf es] i by simp
qed

theorem env_init_fallback_witness:
  "env_valid (env_init ((env_crc_update sample_env)\<lparr> emem := (emem (env_crc_update sample_env))(200 := CHR ''x''),
     default_environment := 5000, default_size := 2 \<rparr>)) = 0"
proof -
  let ?m = "emem (env_crc_update sample_env)"
  let ?s = "(env_crc_update sample_env)\<lparr> emem := ?m(200 := CHR ''x''), default_environment := 5000, default_size := 2 \<rparr>"
  have f: "env_ptr (env_crc_update sample_env) = 100" "env_data (env_crc_update sample_env) = 104" "env_ptr ?s = 100" "env_data ?s = 104"
    by (simp_all add: env_data_def env_crc_update_def sample_env_def ENV_HEADER_SIZE_def)
  have m: "?m a = NUL" if "121 \<le> a" for a
    using that crc_update_data [of a sample_env]
    by (simp add: sample_env_def env_data_def ENV_HEADER_SIZE_def enc_def mem_put_outside)
  have "crc32 ?m 0 (env_data ?s) ENV_SIZE = load32 ?m (env_ptr ?s)" using crc_update_ok [of sample_env] f by (simp add: crc_ok_def)
  moreover have "default_ok ?s 100 []"
    using m [of 5000] m [of 5001]
    by (simp add: default_ok_def env_at_def ENV_SIZE_def CONFIG_ENV_SIZE_def ENV_HEADER_SIZE_def)
  moreover have "104 \<le> (200 :: nat)" "200 < 104 + ENV_SIZE" "CHR ''x'' \<noteq> ?m 200"
    using m [of 200] by (simp_all add: ENV_SIZE_def CONFIG_ENV_SIZE_def ENV_HEADER_SIZE_def)
  ultimately show ?thesis
    using env_init_fallback [of ?m ?s 200 "CHR ''x''" 100 "[]"] f by simp
qed

end
