(* ===== verification/Mem_Cmd.thy ===== *)
theory Mem_Cmd
  imports Nor_Chip Readline Command
begin

text \<open>
  The memory commands of \<^verbatim>\<open>common/cmd_mem.c\<close> as the board builds them, and \<^verbatim>\<open>print_buffer\<close> of
  \<^verbatim>\<open>lib_generic/display_options.c\<close>.

  The memory \<open>ram\<close> is what the processor reads and writes; \<^verbatim>\<open>cp\<close> reaches the flash through its driver, and the
  other commands are meant for memory. Addresses are 32 bits wide and wrap around.
\<close>

section \<open>The code\<close>

record 'c memcmd =
  ram :: mem
  mdev :: "'c flashdev"
  mkeys :: "char option list"
  base_address :: u32
  dp_last_addr :: u32
  dp_last_size :: int
  dp_last_length :: u32
  mm_last_addr :: u32
  mm_last_size :: int

definition say :: "string \<Rightarrow> 'c memcmd \<Rightarrow> 'c memcmd" where
  "say t s = s\<lparr> mdev := fputs t (mdev s) \<rparr>"

text \<open>\<^verbatim>\<open>ctrlc ()\<close> on the keys that are left; when none are, nobody types any more.\<close>

definition take_ctrlc :: "char option list \<Rightarrow> bool \<times> char option list" where
  "take_ctrlc ks = (case ks of [] \<Rightarrow> (False, []) | k # ks' \<Rightarrow> (k = Some (CHR 0x03), ks'))"

definition hexarg :: "string \<Rightarrow> u32" where
  "hexarg a = fst (simple_strtoul a 16)"

text \<open>Reads and writes of an object of 4, 2 or 1 bytes.\<close>

definition store16 :: "mem \<Rightarrow> addr \<Rightarrow> u32 \<Rightarrow> mem" where
  "store16 m p w = m(p := char_of (unat w), p + 1 := char_of (unat (drop_bit 8 w)))"

definition mem_load :: "mem \<Rightarrow> int \<Rightarrow> u32 \<Rightarrow> u32" where
  "mem_load m sz a =
     (if sz = 4 then load32 m (unat a) else if sz = 2 then ucast (src_word m (unat a)) else of_char (m (unat a)))"

definition mem_store :: "mem \<Rightarrow> int \<Rightarrow> u32 \<Rightarrow> u32 \<Rightarrow> mem" where
  "mem_store m sz a v =
     (if sz = 4 then store32 m (unat a) v else if sz = 2 then store16 m (unat a) v else m(unat a := char_of (unat v)))"

definition hexv :: "int \<Rightarrow> u32 \<Rightarrow> string" where
  "hexv sz v = number (ucast v) 16 (if sz = 4 then 8 else if sz = 2 then 4 else 2) (-1) (ZEROPAD OR SMALL)"

subsection \<open>Display\<close>

text \<open>One line of \<^verbatim>\<open>print_buffer\<close>. The line buffer holds the bytes just read.\<close>

definition print_line :: "mem \<Rightarrow> u32 \<Rightarrow> nat \<Rightarrow> nat \<Rightarrow> string" where
  "print_line m addr width linelen =
     hex8 addr @ '':'' @
     concat (map (\<lambda>i. '' '' @ hexv (int width) (mem_load m (int width) (addr + of_nat (i * width)))) [0..<linelen]) @
     ''    '' @
     map (\<lambda>i. let c = m (unat (addr + of_nat i)) in if isprint c \<and> of_char c < (0x80 :: nat) then c else CHR ''.'')
       [0..<linelen * width] @ nl"

text \<open>The loop over the lines. A line length of 0 never ends.\<close>

function print_lines :: "mem \<Rightarrow> u32 \<Rightarrow> nat \<Rightarrow> nat \<Rightarrow> nat \<Rightarrow> char option list \<Rightarrow> (string \<times> int \<times> char option list) option" where
  "print_lines m addr width linelen cnt ks =
     (if cnt = 0 then Some ([], 0, ks)
      else let len = min cnt linelen in
           if len = 0 then None
           else let (brk, ks') = take_ctrlc ks in
                if brk then Some (print_line m addr width len, -1, ks')
                else map_option (\<lambda>(t, rc, ks''). (print_line m addr width len @ t, rc, ks''))
                       (print_lines m (addr + of_nat (len * width)) width len (cnt - len) ks'))"
  by pat_completeness auto
termination by (relation "measure (\<lambda>(_, _, _, _, cnt, _). cnt)") auto

declare print_lines.simps [simp del]

definition print_buffer :: "mem \<Rightarrow> u32 \<Rightarrow> nat \<Rightarrow> nat \<Rightarrow> nat \<Rightarrow> char option list \<Rightarrow> (string \<times> int \<times> char option list) option" where
  "print_buffer m addr width cnt linelen ks =
     (let l1 = (if linelen * width > 64 then 64 div width else linelen);
          l2 = (if l1 < 1 then 16 div width else l1)
      in print_lines m addr width l2 cnt ks)"

text \<open>The command \<^verbatim>\<open>md\<close>. A size of 0, which a repetition before the first use would have, divides by 0.\<close>

definition do_mem_md :: "string \<Rightarrow> nat \<Rightarrow> string list \<Rightarrow> 'c memcmd \<Rightarrow> ('c memcmd \<times> int) option" where
  "do_mem_md usage flag argv s =
     (if length argv < 2 then Some (say usage s, 1)
      else let new = even flag;
               sz = (if new then cmd_get_data_size (argv ! 0) 4 else dp_last_size s);
               addr = (if new then hexarg (argv ! 1) + base_address s else dp_last_addr s);
               len = (if new \<and> length argv > 2 then hexarg (argv ! 2) else dp_last_length s)
           in if new \<and> sz < 0 then Some (s, 1)
              else if sz = 0 then None
              else do { (t, rc, ks) \<leftarrow> print_buffer (ram s) addr (nat sz) (unat len) (nat (16 div sz)) (mkeys s);
                        Some ((say t s)\<lparr> mkeys := ks, dp_last_addr := addr + of_int sz * len, dp_last_length := len,
                                         dp_last_size := sz \<rparr>, 0) })"

subsection \<open>Modify\<close>

text \<open>The loop of \<^verbatim>\<open>mod_mem\<close>: it reads one line for every object, and has no result when the input ends.\<close>

partial_function (option) mod_loop :: "bool \<Rightarrow> int \<Rightarrow> u32 \<Rightarrow> 'c memcmd \<Rightarrow> (u32 \<times> 'c memcmd) option" where
  "mod_loop incrflag sz addr s =
     do { (nbytes, l, ks) \<leftarrow> readline (Some '' ? '') (\<lambda>_. NUL) (mkeys s);
          let s1 = (say (hex8 addr @ '': '' @ hexv sz (mem_load (ram s) sz addr) @ lout l) s)\<lparr> mkeys := ks \<rparr>;
          if nbytes = 0 \<or> nbytes = 1 \<and> lbuf l 0 = CHR ''-''
          then mod_loop incrflag sz (if incrflag then if nbytes \<noteq> 0 then addr - of_int sz else addr + of_int sz else addr) s1
          else do { line \<leftarrow> str_at (lbuf l) 0;
                    let (i, rest) = simple_strtoul line 16;
                    if length rest \<noteq> length line
                    then mod_loop incrflag sz (if incrflag then addr + of_int sz else addr)
                           (s1\<lparr> ram := mem_store (ram s1) sz addr i \<rparr>)
                    else Some (addr, s1) } }"

definition mod_mem :: "string \<Rightarrow> bool \<Rightarrow> nat \<Rightarrow> string list \<Rightarrow> 'c memcmd \<Rightarrow> ('c memcmd \<times> int) option" where
  "mod_mem usage incrflag flag argv s =
     (if length argv \<noteq> 2 then Some (say usage s, 1)
      else let new = even flag;
               sz = (if new then cmd_get_data_size (argv ! 0) 4 else mm_last_size s);
               addr = (if new then hexarg (argv ! 1) + base_address s else mm_last_addr s)
           in if new \<and> sz < 0 then Some (s, 1)
              else do { (addr', s') \<leftarrow> mod_loop incrflag sz addr s;
                        Some (s'\<lparr> mm_last_addr := addr', mm_last_size := sz \<rparr>, 0) })"

definition do_mem_mm :: "string \<Rightarrow> nat \<Rightarrow> string list \<Rightarrow> 'c memcmd \<Rightarrow> ('c memcmd \<times> int) option" where
  "do_mem_mm usage flag argv s = mod_mem usage True flag argv s"

definition do_mem_nm :: "string \<Rightarrow> nat \<Rightarrow> string list \<Rightarrow> 'c memcmd \<Rightarrow> ('c memcmd \<times> int) option" where
  "do_mem_nm usage flag argv s = mod_mem usage False flag argv s"

subsection \<open>Write, compare and copy\<close>

primrec mw_loop :: "mem \<Rightarrow> int \<Rightarrow> u32 \<Rightarrow> u32 \<Rightarrow> nat \<Rightarrow> mem" where
  "mw_loop m sz addr writeval 0 = m"
| "mw_loop m sz addr writeval (Suc cnt) = mw_loop (mem_store m sz addr writeval) sz (addr + of_int sz) writeval cnt"

definition do_mem_mw :: "string \<Rightarrow> string list \<Rightarrow> 'c memcmd \<Rightarrow> 'c memcmd \<times> int" where
  "do_mem_mw usage argv s =
     (if length argv < 3 \<or> length argv > 4 then (say usage s, 1)
      else let sz = cmd_get_data_size (argv ! 0) 4 in
           if sz < 1 then (s, 1)
           else let addr = hexarg (argv ! 1) + base_address s;
                    writeval = hexarg (argv ! 2);
                    cnt = (if length argv = 4 then hexarg (argv ! 3) else 1)
                in (s\<lparr> ram := mw_loop (ram s) sz addr writeval (unat cnt) \<rparr>, 0))"

definition unit_name :: "int \<Rightarrow> string" where
  "unit_name sz = (if sz = 4 then ''word'' else if sz = 2 then ''halfword'' else ''byte'')"

definition differ :: "int \<Rightarrow> u32 \<Rightarrow> u32 \<Rightarrow> u32 \<Rightarrow> u32 \<Rightarrow> string" where
  "differ sz addr1 v1 addr2 v2 =
     unit_name sz @ '' at 0x'' @ hex8 addr1 @ '' (0x'' @ hexv sz v1 @ '') != '' @
     unit_name sz @ '' at 0x'' @ hex8 addr2 @ '' (0x'' @ hexv sz v2 @ '')'' @ nl"

text \<open>The loop of \<^verbatim>\<open>cmp\<close>: how many objects were the same, the result and the text.\<close>

primrec cmp_loop :: "mem \<Rightarrow> int \<Rightarrow> u32 \<Rightarrow> u32 \<Rightarrow> nat \<Rightarrow> nat \<Rightarrow> nat \<times> int \<times> string" where
  "cmp_loop m sz addr1 addr2 ngood 0 = (ngood, 0, [])"
| "cmp_loop m sz addr1 addr2 ngood (Suc cnt) =
     (let v1 = mem_load m sz addr1; v2 = mem_load m sz addr2 in
      if v1 \<noteq> v2 then (ngood, 1, differ sz addr1 v1 addr2 v2)
      else cmp_loop m sz (addr1 + of_int sz) (addr2 + of_int sz) (ngood + 1) cnt)"

definition do_mem_cmp :: "string \<Rightarrow> string list \<Rightarrow> 'c memcmd \<Rightarrow> 'c memcmd \<times> int" where
  "do_mem_cmp usage argv s =
     (if length argv \<noteq> 4 then (say usage s, 1)
      else let sz = cmd_get_data_size (argv ! 0) 4 in
           if sz < 0 then (s, 1)
           else let (ngood, rcode, t) = cmp_loop (ram s) sz (hexarg (argv ! 1) + base_address s)
                                          (hexarg (argv ! 2) + base_address s) 0 (unat (hexarg (argv ! 3)))
                in (say (t @ ''Total of '' @ dec (sint (of_nat ngood :: u32)) @ '' '' @ unit_name sz @
                        (if ngood = 1 then [] else ''s'') @ '' were the same'' @ nl) s, rcode))"

primrec cp_loop :: "mem \<Rightarrow> int \<Rightarrow> u32 \<Rightarrow> u32 \<Rightarrow> nat \<Rightarrow> mem" where
  "cp_loop m sz addr dest 0 = m"
| "cp_loop m sz addr dest (Suc cnt) =
     cp_loop (mem_store m sz dest (mem_load m sz addr)) sz (addr + of_int sz) (dest + of_int sz) cnt"

definition do_mem_cp :: "'c nor \<Rightarrow> string \<Rightarrow> string list \<Rightarrow> 'c memcmd \<Rightarrow> ('c memcmd \<times> int) option" where
  "do_mem_cp nor usage argv s =
     (if length argv \<noteq> 4 then Some (say usage s, 1)
      else let sz = cmd_get_data_size (argv ! 0) 4 in
           if sz < 0 then Some (s, 1)
           else let addr = hexarg (argv ! 1) + base_address s;
                    dest = hexarg (argv ! 2) + base_address s;
                    cnt = hexarg (argv ! 3)
                in if cnt = 0 then Some (say (''Zero length ???'' @ nl) s, 1)
                   else if addr2info (banks (mdev s)) dest \<noteq> None
                   then (case flash_write nor (ram s) (unat addr) dest (cnt * of_int sz) (mdev (say ''Copy to Flash... '' s)) of
                           None \<Rightarrow> None
                         | Some (d, rc) \<Rightarrow>
                             if rc \<noteq> 0 then Some (say (flash_perror rc) (s\<lparr> mdev := d \<rparr>), 1)
                             else Some (say (''done'' @ nl) (s\<lparr> mdev := d \<rparr>), 0))
                   else Some (s\<lparr> ram := cp_loop (ram s) sz addr dest (unat cnt) \<rparr>, 0))"

subsection \<open>Base address, loop, checksum\<close>

definition do_mem_base :: "string list \<Rightarrow> 'c memcmd \<Rightarrow> 'c memcmd \<times> int" where
  "do_mem_base argv s =
     (let s1 = (if length argv > 1 then s\<lparr> base_address := hexarg (argv ! 1) \<rparr> else s)
      in (say (''Base Address: 0x'' @ hex8 (base_address s1) @ nl) s1, 0))"

text \<open>\<^verbatim>\<open>loop\<close> reads for ever.\<close>

definition do_mem_loop :: "string \<Rightarrow> string list \<Rightarrow> 'c memcmd \<Rightarrow> ('c memcmd \<times> int) option" where
  "do_mem_loop usage argv s =
     (if length argv < 3 then Some (say usage s, 1)
      else if cmd_get_data_size (argv ! 0) 4 < 0 then Some (s, 1) else None)"

definition do_mem_crc :: "string \<Rightarrow> string list \<Rightarrow> 'c memcmd \<Rightarrow> 'c memcmd \<times> int" where
  "do_mem_crc usage argv s =
     (if length argv < 3 then (say usage s, 1)
      else let addr = hexarg (argv ! 1) + base_address s;
               len = hexarg (argv ! 2);
               crc = crc32 (ram s) 0 (unat addr) (unat len);
               s1 = say (''CRC32 for '' @ hex8 addr @ '' ... '' @ hex8 (addr + len - 1) @ '' ==> '' @ hex8 crc @ nl) s
           in (if length argv > 3 then s1\<lparr> ram := store32 (ram s1) (unat (hexarg (argv ! 3))) crc \<rparr> else s1, 0))"

subsection \<open>Memory test\<close>

text \<open>The simple test. The pointers are to words, so that each step is of four words.\<close>

definition CONFIG_SYS_MEMTEST_START :: u32 where "CONFIG_SYS_MEMTEST_START = 0x68000000"
definition CONFIG_SYS_MEMTEST_END :: u32 where "CONFIG_SYS_MEMTEST_END = 0x68400000"

partial_function (option) mtest_write :: "mem \<Rightarrow> u32 \<Rightarrow> u32 \<Rightarrow> u32 \<Rightarrow> u32 \<Rightarrow> mem option" where
  "mtest_write m addr fin val incr =
     (if addr < fin then mtest_write (store32 m (unat addr) val) (addr + 16) fin (val + incr) incr else Some m)"

definition mem_error :: "u32 \<Rightarrow> u32 \<Rightarrow> u32 \<Rightarrow> string" where
  "mem_error addr readback val =
     nl @ ''Mem error @ 0x'' @ HEX8 addr @ '': found '' @ HEX8 readback @ '', expected '' @ HEX8 val @ nl"

text \<open>The second pass: whether it was stopped, the number of errors, the text and the keys left.\<close>

partial_function (option) mtest_read ::
  "mem \<Rightarrow> u32 \<Rightarrow> u32 \<Rightarrow> u32 \<Rightarrow> u32 \<Rightarrow> u32 \<Rightarrow> string \<Rightarrow> char option list \<Rightarrow> (bool \<times> u32 \<times> string \<times> char option list) option" where
  "mtest_read m addr fin val incr errs t ks =
     (if addr < fin
      then let readback = load32 m (unat addr) in
           if readback \<noteq> val
           then let (brk, ks') = take_ctrlc ks; t' = t @ mem_error addr readback val in
                if brk then Some (True, errs + 1, t' @ nl, ks')
                else mtest_read m (addr + 16) fin (val + incr) incr (errs + 1) t' ks'
           else mtest_read m (addr + 16) fin (val + incr) incr errs t ks
      else Some (False, errs, t, ks))"

definition flip_pattern :: "u32 \<Rightarrow> u32" where
  "flip_pattern pattern = (if pattern AND 0x80000000 \<noteq> 0 then - pattern else NOT pattern)"

definition writing :: "u32 \<Rightarrow> string" where
  "writing pattern = [CR] @ ''Pattern '' @ HEX8 pattern @ ''  Writing...'' @ replicate 12 CHR '' '' @ replicate 10 BS"

partial_function (option) mtest_loop ::
  "u32 \<Rightarrow> u32 \<Rightarrow> int \<Rightarrow> u32 \<Rightarrow> u32 \<Rightarrow> int \<Rightarrow> u32 \<Rightarrow> 'c memcmd \<Rightarrow> ('c memcmd \<times> int) option" where
  "mtest_loop start fin iteration_limit pattern incr iterations errs s =
     (let (brk, ks) = take_ctrlc (mkeys s); s1 = s\<lparr> mkeys := ks \<rparr> in
      if brk then Some (say nl s1, 1)
      else if iteration_limit \<noteq> 0 \<and> iterations > iteration_limit
      then Some (say (''Tested '' @ dec (iterations - 1) @ '' iteration(s) with '' @ dec (uint errs) @ '' errors.'' @ nl) s1,
                 if errs \<noteq> 0 then 1 else 0)
      else do { m \<leftarrow> mtest_write (ram s1) start fin pattern incr;
                (stopped, errs', t, ks') \<leftarrow> mtest_read m start fin pattern incr errs [] (mkeys s1);
                let s2 = (say (writing pattern @ ''Reading...'' @ t) s1)\<lparr> ram := m, mkeys := ks' \<rparr>;
                if stopped then Some (s2, 1)
                else mtest_loop start fin iteration_limit (flip_pattern pattern) (- incr) (iterations + 1) errs' s2 })"

definition do_mem_mtest :: "string list \<Rightarrow> 'c memcmd \<Rightarrow> ('c memcmd \<times> int) option" where
  "do_mem_mtest argv s =
     (let argc = length argv;
          start = (if argc > 1 then hexarg (argv ! 1) else CONFIG_SYS_MEMTEST_START);
          fin = (if argc > 2 then hexarg (argv ! 2) else CONFIG_SYS_MEMTEST_END);
          pattern = (if argc > 3 then hexarg (argv ! 3) else 0);
          iteration_limit = (if argc > 4 then sint (hexarg (argv ! 4)) else 0)
      in mtest_loop start fin iteration_limit pattern 1 1 0 s)"

section \<open>Objects in memory\<close>

definition size_ok :: "int \<Rightarrow> bool" where "size_ok sz \<longleftrightarrow> sz \<in> {1, 2, 4}"

text \<open>The bytes of an object.\<close>

definition obj :: "int \<Rightarrow> u32 \<Rightarrow> char list" where
  "obj sz v = take (nat sz) [char_of (unat v), char_of (unat (drop_bit 8 v)), char_of (unat (drop_bit 16 v)), char_of (unat (drop_bit 24 v))]"

lemma length_obj [simp]: "size_ok sz \<Longrightarrow> length (obj sz v) = nat sz"
  by (auto simp: size_ok_def obj_def)

lemma mem_store_eq: "size_ok sz \<Longrightarrow> mem_store m sz a v = mem_put m (unat a) (obj sz v)"
  by (auto simp: size_ok_def mem_store_def obj_def store32_def store16_def mem_put_Cons numeral_2_eq_2 numeral_3_eq_3 fun_upd_twist)

lemma obj_load: "size_ok sz \<Longrightarrow> obj sz (mem_load m sz a) = mem_get m (unat a) (nat sz)"
proof -
  have 16: "char_of (unat (ucast (src_word m p) :: u32)) = m p" "char_of (unat (drop_bit 8 (ucast (src_word m p) :: u32))) = m (p + 1)" for p
    by (auto simp: char_of_unat_iff src_word_def bit_simps bit_of_char_u16 dest: bit_of_char_nat)
  assume "size_ok sz"
  then show ?thesis
    unfolding size_ok_def
    by (elim insertE emptyE) (simp_all add: obj_def mem_load_def char_of_load32 16 mem_get_4, simp_all add: mem_get_def upt_rec)
qed

lemma mem_load_eq_iff:
  assumes "size_ok sz"
  shows "mem_load m sz a = mem_load m sz b \<longleftrightarrow> mem_get m (unat a) (nat sz) = mem_get m (unat b) (nat sz)"
proof
  assume "mem_get m (unat a) (nat sz) = mem_get m (unat b) (nat sz)"
  then have "\<forall>i < nat sz. m (unat a + i) = m (unat b + i)" by (metis nth_mem_get)
  then have "0 < nat sz \<Longrightarrow> m (unat a) = m (unat b)" "1 < nat sz \<Longrightarrow> m (unat a + 1) = m (unat b + 1)"
    "2 < nat sz \<Longrightarrow> m (unat a + 2) = m (unat b + 2)" "3 < nat sz \<Longrightarrow> m (unat a + 3) = m (unat b + 3)"
    by (metis add.right_neutral, blast+)
  then show "mem_load m sz a = mem_load m sz b"
    using assms unfolding size_ok_def by (elim insertE emptyE) (simp_all add: mem_load_def load32_def src_word_def)
qed (metis assms obj_load)

lemma unat_next:
  assumes "size_ok sz" "unat (a :: u32) + nat sz * Suc n < 2 ^ 32"
  shows "unat (a + of_int sz) = unat a + nat sz"
  using assms by (auto simp: size_ok_def unat_word_ariths)

section \<open>The loops\<close>

lemma mw_loop_eq:
  "size_ok sz \<Longrightarrow> unat a + nat sz * n < 2 ^ 32 \<Longrightarrow>
   mw_loop m sz a v n = mem_put m (unat a) (concat (replicate n (obj sz v)))"
proof (induction n arbitrary: a m)
  case (Suc n)
  note u = unat_next [OF Suc.prems]
  have "mw_loop m sz a v (Suc n) = mem_put (mem_put m (unat a) (obj sz v)) (unat a + nat sz) (concat (replicate n (obj sz v)))"
    using Suc.IH [of "a + of_int sz"] Suc.prems u by (simp add: mem_store_eq)
  then show ?case using Suc.prems(1) by (simp add: mem_put_append)
qed simp

lemma cp_loop_eq:
  assumes "size_ok sz"
  shows "unat a + nat sz * n < 2 ^ 32 \<Longrightarrow> unat d + nat sz * n < 2 ^ 32 \<Longrightarrow> unat d \<le> unat a \<or> unat a + nat sz * n \<le> unat d \<Longrightarrow>
    cp_loop m sz a d n = mem_put m (unat d) (mem_get m (unat a) (nat sz * n))"
proof (induction n arbitrary: a d m)
  case (Suc n)
  note u = unat_next [OF assms Suc.prems(1)] unat_next [OF assms Suc.prems(2)]
  let ?m = "mem_put m (unat d) (mem_get m (unat a) (nat sz))"
  have "unat d \<le> unat a \<or> unat a + nat sz * n \<le> unat d" using Suc.prems(3) by auto
  then have "cp_loop m sz a d (Suc n) = mem_put ?m (unat d + nat sz) (mem_get ?m (unat a + nat sz) (nat sz * n))"
    using Suc.IH [of "a + of_int sz" "d + of_int sz"] Suc.prems u assms by (simp add: mem_store_eq obj_load)
  moreover have "mem_get ?m (unat a + nat sz) (nat sz * n) = mem_get m (unat a + nat sz) (nat sz * n)"
    using Suc.prems(3) by (intro mem_get_cong mem_put_outside) auto
  ultimately show ?case by (simp add: mem_get_add mem_put_append)
qed simp

lemma cmp_loop_eq:
  assumes "size_ok sz"
  shows "unat a + nat sz * n < 2 ^ 32 \<Longrightarrow> unat b + nat sz * n < 2 ^ 32 \<Longrightarrow>
    \<exists>k t. cmp_loop m sz a b g n = (g + k, if k = n then 0 else 1, t) \<and> k \<le> n \<and>
      mem_get m (unat a) (nat sz * k) = mem_get m (unat b) (nat sz * k) \<and>
      (k < n \<longrightarrow> mem_get m (unat a + nat sz * k) (nat sz) \<noteq> mem_get m (unat b + nat sz * k) (nat sz))"
proof (induction n arbitrary: a b g)
  case (Suc n)
  note u = unat_next [OF assms Suc.prems(1)] unat_next [OF assms Suc.prems(2)]
  show ?case
  proof (cases "mem_load m sz a = mem_load m sz b")
    case False
    then show ?thesis using mem_load_eq_iff [OF assms] by (auto simp: Let_def intro!: exI [of _ 0])
  next
    case True
    have "unat (a + of_int sz) + nat sz * n < 2 ^ 32" "unat (b + of_int sz) + nat sz * n < 2 ^ 32"
      using Suc.prems u by simp_all
    from Suc.IH [OF this, of "g + 1"] obtain k t where
      k: "cmp_loop m sz (a + of_int sz) (b + of_int sz) (g + 1) n = (g + 1 + k, if k = n then 0 else 1, t)" "k \<le> n"
      "mem_get m (unat a + nat sz) (nat sz * k) = mem_get m (unat b + nat sz) (nat sz * k)"
      "k < n \<longrightarrow> mem_get m (unat a + nat sz + nat sz * k) (nat sz) \<noteq> mem_get m (unat b + nat sz + nat sz * k) (nat sz)"
      unfolding u by blast
    then show ?thesis
      using True mem_load_eq_iff [OF assms, of m a b]
      by (intro exI [of _ "Suc k"] exI [of _ t]) (simp add: Let_def mem_get_add add.assoc)
  qed
qed simp

lemma data_size_ok: "0 \<le> cmd_get_data_size c 4 \<Longrightarrow> size_ok (cmd_get_data_size c 4)"
  by (simp add: cmd_get_data_size_def size_ok_def Let_def split: if_splits)

subsection \<open>Display\<close>

text \<open>The lines of a display: \<open>n\<close> objects in lines of \<open>l\<close>.\<close>

definition line_count :: "nat \<Rightarrow> nat \<Rightarrow> nat" where
  "line_count n l = (n + l - 1) div l"

definition display :: "mem \<Rightarrow> u32 \<Rightarrow> nat \<Rightarrow> nat \<Rightarrow> nat \<Rightarrow> string" where
  "display m addr width l n =
     concat (map (\<lambda>k. print_line m (addr + of_nat (k * l * width)) width (min l (n - k * l))) [0..<line_count n l])"

lemma line_count_step: "0 < n \<Longrightarrow> 0 < l \<Longrightarrow> line_count n l = Suc (line_count (n - min n l) (min n l))"
proof -
  assume n: "0 < n" and l: "0 < l"
  show ?thesis
  proof (cases "n \<le> l")
    case True
    then have "(n + l - 1) div l = 1" using n by (intro div_nat_eqI) auto
    then show ?thesis using True n by (simp add: line_count_def)
  next
    case False
    then have e: "n + l - 1 = (n - 1) + l" "n - l + l - 1 = n - 1" "min n l = l" using n l by simp_all
    show ?thesis unfolding line_count_def e using l by (simp add: div_add_self2)
  qed
qed

lemma print_lines_eq:
  "0 < l \<Longrightarrow> \<forall>k \<in> set (take (line_count n l) ks). k \<noteq> Some (CHR 0x03) \<Longrightarrow>
   print_lines m addr width l n ks = Some (display m addr width l n, 0, drop (line_count n l) ks)"
proof (induction n arbitrary: l addr ks rule: less_induct)
  case (less n)
  show ?case
  proof (cases "n = 0")
    case True
    then show ?thesis using less.prems(1) by (simp add: print_lines.simps display_def line_count_def)
  next
    case False
    let ?len = "min n l"
    have pos: "0 < ?len" "n - ?len < n" using False less.prems(1) by auto
    note step = line_count_step [OF _ less.prems(1), of n]
    obtain ks' where t: "take_ctrlc ks = (False, ks')" "ks' = drop 1 ks"
      using less.prems(2) False step by (cases ks) (auto simp: take_ctrlc_def)
    have "\<forall>k \<in> set (take (line_count (n - ?len) ?len) ks'). k \<noteq> Some (CHR 0x03)"
      using less.prems(2) False step t(2) by (cases ks) auto
    from less.IH [OF pos(2) pos(1) this]
    have IH: "print_lines m (addr + of_nat (?len * width)) width ?len (n - ?len) ks' =
        Some (display m (addr + of_nat (?len * width)) width ?len (n - ?len), 0, drop (line_count (n - ?len) ?len) ks')" .
    have "display m addr width l n = print_line m addr width ?len @ display m (addr + of_nat (?len * width)) width ?len (n - ?len)"
    proof (cases "n \<le> l")
      case True
      then show ?thesis using step False by (simp add: display_def min.absorb1 line_count_def)
    next
      case big: False
      then have "?len = l" by simp
      then show ?thesis
        using step False big
        by (simp add: display_def upt_conv_Cons map_Suc_upt [symmetric] del: upt_Suc) (simp add: algebra_simps comp_def)
    qed
    then show ?thesis
      using IH False pos(1) t step by (simp add: print_lines.simps [of m addr width l] Let_def)
  qed
qed

subsection \<open>Memory test\<close>

text \<open>The bytes that the test looks at: the first word of every four.\<close>

definition tested :: "u32 \<Rightarrow> u32 \<Rightarrow> nat set" where
  "tested start fin = {a. \<exists>k. unat start + 16 * k < unat fin \<and> unat start + 16 * k \<le> a \<and> a < unat start + 16 * k + 4}"

lemma unat_step:
  assumes "addr < fin" "unat (fin :: u32) \<le> 2 ^ 32 - 16"
  shows "unat (addr + 16) = unat addr + 16"
  using assms by (simp add: unat_word_ariths word_less_nat_alt)

lemma tested_step:
  assumes "addr < fin" "unat fin \<le> 2 ^ 32 - 16"
  shows "tested addr fin = {unat addr..<unat addr + 4} \<union> tested (addr + 16) fin"
proof -
  have "a \<in> tested addr fin \<longleftrightarrow> a \<in> {unat addr..<unat addr + 4} \<union> tested (addr + 16) fin" for a
  proof
    assume "a \<in> tested addr fin"
    then obtain k where "unat addr + 16 * k < unat fin" "unat addr + 16 * k \<le> a" "a < unat addr + 16 * k + 4"
      by (auto simp: tested_def)
    then show "a \<in> {unat addr..<unat addr + 4} \<union> tested (addr + 16) fin"
      by (cases k) (auto simp: tested_def unat_step [OF assms] intro!: exI)
  next
    assume a: "a \<in> {unat addr..<unat addr + 4} \<union> tested (addr + 16) fin"
    have lt: "unat addr < unat fin" using assms(1) by (simp add: word_less_nat_alt)
    show "a \<in> tested addr fin"
    proof (cases "a \<in> {unat addr..<unat addr + 4}")
      case True
      then show ?thesis using lt unfolding tested_def by (intro CollectI exI [of _ 0]) simp
    next
      case False
      then obtain k where "unat addr + 16 + 16 * k < unat fin" "unat addr + 16 + 16 * k \<le> a" "a < unat addr + 16 + 16 * k + 4"
        using a by (auto simp: tested_def unat_step [OF assms])
      then show ?thesis unfolding tested_def by (intro CollectI exI [of _ "Suc k"]) simp
    qed
  qed
  then show ?thesis by blast
qed

lemma store32_other: "a < p \<or> p + 4 \<le> a \<Longrightarrow> store32 m p w a = m a"
  by (auto simp: store32_def)

text \<open>What was written reads back.\<close>

lemma mtest_write_read:
  assumes "unat fin \<le> 2 ^ 32 - 16"
  shows "\<exists>m'. mtest_write m addr fin val incr = Some m' \<and> (\<forall>a. a \<notin> tested addr fin \<longrightarrow> m' a = m a) \<and>
    (\<forall>errs t ks. mtest_read m' addr fin val incr errs t ks = Some (False, errs, t, ks))"
proof (induction "unat fin - unat addr" arbitrary: addr m val rule: less_induct)
  case less
  show ?case
  proof (cases "addr < fin")
    case False
    then show ?thesis by (simp add: mtest_write.simps mtest_read.simps)
  next
    case True
    note u = unat_step [OF True assms]
    let ?m = "store32 m (unat addr) val"
    have "unat fin - unat (addr + 16) < unat fin - unat addr" using u True by (simp add: word_less_nat_alt)
    from less [OF this, of ?m "val + incr"] obtain m' where
      m': "mtest_write ?m (addr + 16) fin (val + incr) incr = Some m'" "\<forall>a. a \<notin> tested (addr + 16) fin \<longrightarrow> m' a = ?m a"
      "\<forall>errs t ks. mtest_read m' (addr + 16) fin (val + incr) incr errs t ks = Some (False, errs, t, ks)"
      by blast
    have "unat addr + i \<notin> tested (addr + 16) fin" if "i < 4" for i
      using that by (auto simp: tested_def u)
    then have "load32 m' (unat addr) = load32 ?m (unat addr)" using m'(2) by (intro load32_cong) blast
    then have "load32 m' (unat addr) = val" by (simp add: load32_store32)
    then have "mtest_read m' addr fin val incr errs t ks = Some (False, errs, t, ks)" for errs t ks
      using True m'(3) by (simp add: mtest_read.simps [of m' addr])
    moreover have "m' a = m a" if "a \<notin> tested addr fin" for a
      using that m'(2) tested_step [OF True assms] store32_other [of a "unat addr" m val] by auto
    ultimately show ?thesis using True m'(1) by (simp add: mtest_write.simps [of m addr])
  qed
qed

lemma mtest_loop_ok:
  assumes "unat fin \<le> 2 ^ 32 - 16" "0 < limit"
  shows "it \<le> limit + 1 \<Longrightarrow> \<forall>k \<in> set (take (nat (limit + 2 - it)) (mkeys s)). k \<noteq> Some (CHR 0x03) \<Longrightarrow>
    \<exists>s'. mtest_loop start fin limit pattern incr it 0 s = Some (s', 0) \<and> (\<forall>a. a \<notin> tested start fin \<longrightarrow> ram s' a = ram s a)"
proof (induction "nat (limit + 1 - it)" arbitrary: it pattern incr s)
  case 0
  then have it: "it = limit + 1" by simp
  then obtain ks where "take_ctrlc (mkeys s) = (False, ks)" using "0.prems"(2) by (cases "mkeys s") (auto simp: take_ctrlc_def)
  then show ?case using it assms(2) by (simp add: mtest_loop.simps say_def)
next
  case (Suc n)
  then have it: "it \<le> limit" "n = nat (limit + 1 - (it + 1))" by simp_all
  obtain ks where ks: "take_ctrlc (mkeys s) = (False, ks)" "ks = drop 1 (mkeys s)"
    using Suc.prems(2) it(1) by (cases "mkeys s") (auto simp: take_ctrlc_def take_Cons' split: if_splits)
  obtain m' where m': "mtest_write (ram s) start fin pattern incr = Some m'" "\<forall>a. a \<notin> tested start fin \<longrightarrow> m' a = ram s a"
    "\<forall>errs t ks. mtest_read m' start fin pattern incr errs t ks = Some (False, errs, t, ks)"
    using mtest_write_read [OF assms(1)] by blast
  define s2 where "s2 = (say (writing pattern @ ''Reading...'') (s\<lparr> mkeys := ks \<rparr>))\<lparr> ram := m', mkeys := ks \<rparr>"
  have f: "mkeys s2 = ks" "ram s2 = m'" by (simp_all add: s2_def)
  have "nat (limit + 2 - it) = Suc (nat (limit + 2 - (it + 1)))" using it(1) by simp
  then have "\<forall>k \<in> set (take (nat (limit + 2 - (it + 1))) (mkeys s2)). k \<noteq> Some (CHR 0x03)"
    using Suc.prems(2) ks(2) unfolding f by (cases "mkeys s") auto
  from Suc.hyps(1) [OF it(2) _ this, of "flip_pattern pattern" "- incr"] it(1)
  obtain s' where "mtest_loop start fin limit (flip_pattern pattern) (- incr) (it + 1) 0 s2 = Some (s', 0)"
    "\<forall>a. a \<notin> tested start fin \<longrightarrow> ram s' a = ram s2 a" by auto
  then show ?case
    using it(1) assms(2) ks(1) m' f
    by (intro exI [of _ s']) (simp add: mtest_loop.simps [of start fin limit pattern] s2_def [symmetric])
qed

lemma mem_get_slice:
  assumes "mem_get m p n = mem_get m q n" "j + i \<le> n"
  shows "mem_get m (p + j) i = mem_get m (q + j) i"
proof (rule nth_equalityI)
  fix x assume "x < length (mem_get m (p + j) i)"
  then have x: "x < i" "j + x < n" using assms(2) by simp_all
  from nth_mem_get [OF x(2), of m p] nth_mem_get [OF x(2), of m q] assms(1) x(1)
  show "mem_get m (p + j) i ! x = mem_get m (q + j) i ! x" by (simp add: add.assoc)
qed simp

lemma do_mem_cmp_ok:
  assumes argv: "length argv = 4" and sz: "sz = cmd_get_data_size (argv ! 0) 4" "0 \<le> sz"
    and a: "a = hexarg (argv ! 1) + base_address s" and b: "b = hexarg (argv ! 2) + base_address s"
    and n: "n = unat (hexarg (argv ! 3))" and fit: "unat a + nat sz * n < 2 ^ 32" "unat b + nat sz * n < 2 ^ 32"
  shows "\<exists>k t. do_mem_cmp usage argv s = (say t s, if k = n then 0 else 1) \<and> k \<le> n \<and>
    mem_get (ram s) (unat a) (nat sz * k) = mem_get (ram s) (unat b) (nat sz * k) \<and>
    (k < n \<longrightarrow> mem_get (ram s) (unat a + nat sz * k) (nat sz) \<noteq> mem_get (ram s) (unat b + nat sz * k) (nat sz))"
proof -
  have ok: "size_ok sz" using data_size_ok sz by simp
  obtain k t where k: "cmp_loop (ram s) sz a b 0 n = (0 + k, if k = n then 0 else 1, t)" "k \<le> n"
    "mem_get (ram s) (unat a) (nat sz * k) = mem_get (ram s) (unat b) (nat sz * k)"
    "k < n \<longrightarrow> mem_get (ram s) (unat a + nat sz * k) (nat sz) \<noteq> mem_get (ram s) (unat b + nat sz * k) (nat sz)"
    using cmp_loop_eq [OF ok fit, of "ram s" 0] by blast
  have "\<exists>t'. do_mem_cmp usage argv s = (say t' s, if k = n then 0 else 1)"
    using k(1) argv sz(2) unfolding do_mem_cmp_def Let_def a b n sz(1) by auto
  then show ?thesis using k(2-4) by blast
qed

lemma do_mem_cmp_iff:
  assumes argv: "length argv = 4" and sz: "sz = cmd_get_data_size (argv ! 0) 4" "0 \<le> sz"
    and a: "a = hexarg (argv ! 1) + base_address s" and b: "b = hexarg (argv ! 2) + base_address s"
    and n: "n = unat (hexarg (argv ! 3))" and fit: "unat a + nat sz * n < 2 ^ 32" "unat b + nat sz * n < 2 ^ 32"
  shows "snd (do_mem_cmp usage argv s) = 0 \<longleftrightarrow> mem_get (ram s) (unat a) (nat sz * n) = mem_get (ram s) (unat b) (nat sz * n)"
proof -
  obtain k t where k: "do_mem_cmp usage argv s = (say t s, if k = n then 0 else 1)" "k \<le> n"
    "mem_get (ram s) (unat a) (nat sz * k) = mem_get (ram s) (unat b) (nat sz * k)"
    "k < n \<longrightarrow> mem_get (ram s) (unat a + nat sz * k) (nat sz) \<noteq> mem_get (ram s) (unat b + nat sz * k) (nat sz)"
    using do_mem_cmp_ok [OF assms] by blast
  have "nat sz * k + nat sz \<le> nat sz * n" if "k < n" using that by (metis Suc_leI mult_Suc_right add.commute mult_le_mono2)
  then show ?thesis using k mem_get_slice [of "ram s" "unat a" "nat sz * n" "unat b" "nat sz * k" "nat sz"]
    by (cases "k = n") auto
qed

section \<open>Properties\<close>

definition sample_mem :: "sst memcmd" where
  "sample_mem = \<lparr> ram = (\<lambda>a. if a < 100 then CHR ''u'' else CHR ''v''), mdev = sst_dev, mkeys = [], base_address = 0,
     dp_last_addr = 0, dp_last_size = 0, dp_last_length = 0x40, mm_last_addr = 0, mm_last_size = 0 \<rparr>"

lemma hexarg_samples: "hexarg ''10'' = 0x10" "hexarg ''80'' = 0x80" "hexarg ''8'' = 8" "hexarg ''5'' = 5" "hexarg ''0'' = 0" "hexarg ''2'' = 2"
  by (simp_all add: hexarg_def) (code_simp+)

text \<open>\<^verbatim>\<open>cp\<close> in memory copies its objects exactly, also onto an overlapping lower range, and afterwards \<^verbatim>\<open>cmp\<close> with the
  same arguments finds the two ranges equal when they are apart.\<close>

theorem do_mem_cp_correct:
  assumes argv: "length argv = 4" and sz: "sz = cmd_get_data_size (argv ! 0) 4" "0 \<le> sz"
    and a: "a = hexarg (argv ! 1) + base_address s" and d: "d = hexarg (argv ! 2) + base_address s"
    and n: "n = unat (hexarg (argv ! 3))" "0 < n"
    and fit: "unat a + nat sz * n < 2 ^ 32" "unat d + nat sz * n < 2 ^ 32" "unat d \<le> unat a \<or> unat a + nat sz * n \<le> unat d"
    and ram: "addr2info (banks (mdev s)) d = None"
  shows "\<exists>s'. do_mem_cp nor usage argv s = Some (s', 0) \<and>
    ram s' = mem_put (memcmd.ram s) (unat d) (mem_get (memcmd.ram s) (unat a) (nat sz * n)) \<and>
    (unat d + nat sz * n \<le> unat a \<or> unat a + nat sz * n \<le> unat d \<longrightarrow> snd (do_mem_cmp usage argv s') = 0)"
proof -
  have ok: "size_ok sz" using data_size_ok sz by simp
  let ?m = "mem_put (memcmd.ram s) (unat d) (mem_get (memcmd.ram s) (unat a) (nat sz * n))"
  let ?s = "s\<lparr> ram := ?m \<rparr>"
  have nz: "hexarg (argv ! 3) \<noteq> 0" using n by (metis less_irrefl unat_0)
  have "do_mem_cp nor usage argv s = Some (?s, 0)"
    unfolding do_mem_cp_def Let_def a [symmetric] d [symmetric] sz(1) [symmetric] n(1) [symmetric]
    using cp_loop_eq [OF ok fit] argv sz(2) nz ram by simp
  moreover have "snd (do_mem_cmp usage argv ?s) = 0" if "unat d + nat sz * n \<le> unat a \<or> unat a + nat sz * n \<le> unat d"
  proof -
    have "mem_get ?m (unat a) (nat sz * n) = mem_get ?m (unat d) (nat sz * n)"
      using that mem_get_put [of "memcmd.ram s" "unat d" "mem_get (memcmd.ram s) (unat a) (nat sz * n)"]
      by (simp add: mem_get_put_disjoint)
    then show ?thesis using do_mem_cmp_iff [OF argv sz, of a ?s d n usage] a d n(1) fit(1,2) by simp
  qed
  ultimately show ?thesis by (intro exI [of _ ?s]) simp
qed

theorem do_mem_cp_correct_witness:
  "\<exists>s'. do_mem_cp SST [] [''cp.w'', ''10'', ''80'', ''8''] sample_mem = Some (s', 0) \<and> ram s' 0x80 = CHR ''u'' \<and>
     snd (do_mem_cmp [] [''cp.w'', ''10'', ''80'', ''8''] s') = 0"
proof -
  let ?argv = "[''cp.w'', ''10'', ''80'', ''8'']"
  have "cmd_get_data_size ''cp.w'' 4 = 2" by (simp add: cmd_get_data_size_def)
  moreover have "addr2info (banks (mdev sample_mem)) 0x80 = None"
    by (simp add: sample_mem_def sst_dev_def sample_bank_def)
  moreover have "mem_put (ram sample_mem) 0x80 (mem_get (ram sample_mem) 0x10 16) (0x80 + 0) = CHR ''u''"
    by (subst mem_put_inside) (simp_all add: sample_mem_def)
  ultimately show ?thesis
    using do_mem_cp_correct [of ?argv 2 "0x10" sample_mem "0x80" 8 SST "[]"]
    by (auto simp: hexarg_samples sample_mem_def)
qed

text \<open>\<^verbatim>\<open>cmp\<close> succeeds exactly when the two ranges hold the same bytes.\<close>

theorem do_mem_cmp_correct:
  assumes "length argv = 4" "sz = cmd_get_data_size (argv ! 0) 4" "0 \<le> sz"
    "a = hexarg (argv ! 1) + base_address s" "b = hexarg (argv ! 2) + base_address s"
    "n = unat (hexarg (argv ! 3))" "unat a + nat sz * n < 2 ^ 32" "unat b + nat sz * n < 2 ^ 32"
  shows "snd (do_mem_cmp usage argv s) = 0 \<longleftrightarrow> mem_get (ram s) (unat a) (nat sz * n) = mem_get (ram s) (unat b) (nat sz * n)"
  using assms by (rule do_mem_cmp_iff)

theorem do_mem_cmp_correct_witness: "snd (do_mem_cmp [] [''cmp.b'', ''10'', ''80'', ''8''] sample_mem) \<noteq> 0"
proof -
  have "cmd_get_data_size ''cmp.b'' 4 = 1" by (simp add: cmd_get_data_size_def)
  moreover have "mem_get (ram sample_mem) 0x10 8 ! 0 \<noteq> mem_get (ram sample_mem) 0x80 8 ! 0" by (simp add: sample_mem_def)
  then have "mem_get (ram sample_mem) 0x10 8 \<noteq> mem_get (ram sample_mem) 0x80 8" by metis
  ultimately show ?thesis
    using do_mem_cmp_correct [of "[''cmp.b'', ''10'', ''80'', ''8'']" 1 "0x10" sample_mem "0x80" 8 "[]"]
    by (simp add: hexarg_samples sample_mem_def)
qed

text \<open>\<^verbatim>\<open>md\<close> always ends. It shows all its objects, sixteen bytes to a line, unless it is interrupted, and remembers
  where it stopped, so that a repeated \<^verbatim>\<open>md\<close> goes on there.\<close>

theorem do_mem_md_correct:
  assumes "length argv = 3" "even flag" "sz = cmd_get_data_size (argv ! 0) 4" "0 \<le> sz"
    "a = hexarg (argv ! 1) + base_address s" "len = hexarg (argv ! 2)"
    "\<forall>k \<in> set (take (line_count (unat len) (16 div nat sz)) (mkeys s)). k \<noteq> Some (CHR 0x03)"
  shows "\<exists>s'. do_mem_md usage flag argv s = Some (s', 0) \<and>
    fout (mdev s') = fout (mdev s) @ display (ram s) a (nat sz) (16 div nat sz) (unat len) \<and>
    (dp_last_addr s', dp_last_size s', dp_last_length s') = (a + of_int sz * len, sz, len)"
proof -
  have ok: "size_ok sz" using data_size_ok assms(3,4) by simp
  let ?l = "16 div nat sz"
  have l: "0 < ?l" "?l * nat sz = 16" "nat (16 div sz) = ?l" "sz \<noteq> 0" using ok by (auto simp: size_ok_def)
  have "print_buffer (ram s) a (nat sz) (unat len) ?l (mkeys s) =
      Some (display (ram s) a (nat sz) ?l (unat len), 0, drop (line_count (unat len) ?l) (mkeys s))"
    using print_lines_eq [OF l(1) assms(7)] l(1,2) by (simp add: print_buffer_def Let_def)
  then show ?thesis
    using assms l(3,4) by (simp add: do_mem_md_def Let_def say_def fputs_def)
qed

theorem do_mem_md_correct_witness:
  "\<exists>s'. do_mem_md [] 0 [''md.b'', ''10'', ''5''] sample_mem = Some (s', 0) \<and> dp_last_addr s' = 0x15"
proof -
  have "cmd_get_data_size ''md.b'' 4 = 1" by (simp add: cmd_get_data_size_def)
  then show ?thesis
    using do_mem_md_correct [of "[''md.b'', ''10'', ''5'']" 0 1 "0x10" sample_mem 5 "[]"]
    by (auto simp: hexarg_samples sample_mem_def)
qed

text \<open>On memory that works, \<^verbatim>\<open>mtest\<close> with a limit of iterations ends with no errors; but it only ever touches the first
  of every four words, because its step of 4 counts words and not bytes.\<close>

theorem do_mem_mtest_correct:
  assumes "length argv = 5" "start = hexarg (argv ! 1)" "fin = hexarg (argv ! 2)" "limit = sint (hexarg (argv ! 4))" "0 < limit"
    "unat fin \<le> 2 ^ 32 - 16" "\<forall>k \<in> set (take (nat (limit + 1)) (mkeys s)). k \<noteq> Some (CHR 0x03)"
  shows "\<exists>s'. do_mem_mtest argv s = Some (s', 0) \<and>
    (\<forall>a. (\<forall>k. \<not> (unat start + 16 * k \<le> a \<and> a < unat start + 16 * k + 4)) \<longrightarrow> ram s' a = ram s a)"
proof -
  have "nat (limit + 2 - 1) = nat (limit + 1)" by simp
  then obtain s' where s': "mtest_loop start fin limit (hexarg (argv ! 3)) 1 1 0 s = Some (s', 0)"
    "\<forall>a. a \<notin> tested start fin \<longrightarrow> ram s' a = ram s a"
    using mtest_loop_ok [OF assms(6,5), of 1 s start "hexarg (argv ! 3)" 1] assms(5,7) by auto
  have "do_mem_mtest argv s = Some (s', 0)"
    unfolding do_mem_mtest_def Let_def using s'(1) assms(1-4) by simp
  then show ?thesis using s'(2) by (auto simp: tested_def)
qed

theorem do_mem_mtest_correct_witness:
  "\<exists>s'. do_mem_mtest [''mtest'', ''10'', ''80'', ''0'', ''2''] sample_mem = Some (s', 0) \<and> ram s' 0x14 = ram sample_mem 0x14"
proof -
  have k: "\<not> (0x10 + 16 * k \<le> 0x14 \<and> 0x14 < 0x10 + 16 * k + 4)" for k :: nat by presburger
  then have "\<forall>k. \<not> (unat (0x10 :: u32) + 16 * k \<le> 0x14 \<and> 0x14 < unat (0x10 :: u32) + 16 * k + 4)" by simp
  then show ?thesis
    using do_mem_mtest_correct [of "[''mtest'', ''10'', ''80'', ''0'', ''2'']" "0x10" "0x80" 2 sample_mem]
    by (auto simp: hexarg_samples sample_mem_def)
qed

text \<open>C26: \<^verbatim>\<open>cp\<close> with a destination range in the flash goes through the driver and leaves the memory as it is. When a sector of the
  range is protected, it fails and the chip is not touched, whatever the flash holds. Otherwise an odd number of bytes never
  succeeds; an even number at an even address is written up to the first word that would need a bit set, and \<^verbatim>\<open>cp\<close> succeeds
  exactly when there is none: then the chip holds the bytes of the source. No other word of the chip changes. An odd destination
  is not covered.\<close>

theorem do_mem_cp_flash:
  assumes dev: "nor_device nor idle arr busy" "sst_bank info" "idle (chip (mdev s))" "banks (mdev s) = [info]"
    and argv: "length argv = 4" "sz = cmd_get_data_size (argv ! 0) 4" "0 \<le> sz" "a = hexarg (argv ! 1) + base_address s"
      "d = hexarg (argv ! 2) + base_address s" "cnt = hexarg (argv ! 3) * of_int sz" "in_bank info d cnt"
  shows "(range_protected info d cnt \<longrightarrow>
      (\<exists>s'. do_mem_cp nor usage argv s = Some (s', 1) \<and> ram s' = ram s \<and> chip (mdev s') = chip (mdev s))) \<and>
    (\<not> range_protected info d cnt \<and> odd (unat cnt) \<longrightarrow> (\<forall>s'. do_mem_cp nor usage argv s \<noteq> Some (s', 0))) \<and>
    (\<not> range_protected info d cnt \<and> even (unat cnt) \<and> even (unat d) \<longrightarrow>
      (let n = unat cnt div 2; k = first_unwritable (arr (chip (mdev s))) (ram s) (unat a) d n in
       \<exists>s'. do_mem_cp nor usage argv s = Some (s', if k = n then 0 else 1) \<and> ram s' = ram s \<and> idle (chip (mdev s')) \<and>
         (\<forall>i < k. arr (chip (mdev s')) (d + of_nat (2 * i)) = src_word (ram s) (unat a + 2 * i)) \<and>
         (\<forall>x. (\<forall>i < k. x \<noteq> d + of_nat (2 * i)) \<longrightarrow> arr (chip (mdev s')) x = arr (chip (mdev s)) x)))"
proof -
  let ?d = "mdev (say ''Copy to Flash... '' s)"
  have d0: "idle (chip ?d)" "banks ?d = [info]" "chip ?d = chip (mdev s)" using dev(3,4) by (simp_all add: say_def fputs_def)
  have "hexarg (argv ! 3) \<noteq> 0" using argv(6,7) by (auto simp: in_bank_def)
  moreover have "addr2info [info] d = Some 0"
    using argv(7) by (intro addr2info_sst [OF dev(2)]) (auto simp: in_bank_def word_less_nat_alt)
  ultimately have cp: "do_mem_cp nor usage argv s =
      (case flash_write nor (ram s) (unat a) d cnt ?d of None \<Rightarrow> None
       | Some (d, rc) \<Rightarrow> if rc \<noteq> 0 then Some (say (flash_perror rc) (s\<lparr> mdev := d \<rparr>), 1)
                        else Some (say (''done'' @ nl) (s\<lparr> mdev := d \<rparr>), 0))"
    unfolding do_mem_cp_def Let_def argv(2,4,5) [symmetric] argv(6) [symmetric] using argv(1,3) dev(4) by simp
  have keep [simp]: "ram (say t s) = ram s" "chip (mdev (say t s)) = chip (mdev s)" for t and s :: "'a memcmd" by (simp_all add: say_def fputs_def)
  note fw = flash_write_bank [OF dev(2) d0(2) argv(7), of nor "ram s" "unat a"]
  have "do_mem_cp nor usage argv s \<noteq> Some (s', 0)" if "\<not> range_protected info d cnt" "odd (unat cnt)" for s'
    using fw write_buff_odd_ok [OF that(2), of nor info "ram s" "unat a" d ?d] that(1) unfolding cp by (auto split: option.splits)
  moreover have "\<exists>s'. do_mem_cp nor usage argv s = Some (s', 1) \<and> ram s' = ram s \<and> chip (mdev s') = chip (mdev s)" if "range_protected info d cnt"
    using fw that d0(3) unfolding cp by (simp add: ERR_PROTECTED_def)
  moreover have "let n = unat cnt div 2; k = first_unwritable (arr (chip (mdev s))) (ram s) (unat a) d n in
       \<exists>s'. do_mem_cp nor usage argv s = Some (s', if k = n then 0 else 1) \<and> ram s' = ram s \<and> idle (chip (mdev s')) \<and>
         (\<forall>i < k. arr (chip (mdev s')) (d + of_nat (2 * i)) = src_word (ram s) (unat a + 2 * i)) \<and>
         (\<forall>x. (\<forall>i < k. x \<noteq> d + of_nat (2 * i)) \<longrightarrow> arr (chip (mdev s')) x = arr (chip (mdev s)) x)"
    if np: "\<not> range_protected info d cnt" and ev: "even (unat d)" "even (unat cnt)"
  proof -
    define n where "n = unat cnt div 2"
    define k where "k = first_unwritable (arr (chip (mdev s))) (ram s) (unat a) d n"
    obtain t c where w: "write_buff nor info (ram s) (unat a) d cnt ?d = Some ((fputs t ?d)\<lparr> chip := c \<rparr>, if k = n then 0 else 2)" "idle c"
      "\<forall>i < k. arr c (d + of_nat (2 * i)) = src_word (ram s) (unat a + 2 * i)" "\<forall>x. (\<forall>i < k. x \<noteq> d + of_nat (2 * i)) \<longrightarrow> arr c x = arr (chip (mdev s)) x"
      using write_buff_words [OF dev(1,2) d0(1) argv(7) ev, of "ram s" "unat a"] unfolding d0(3) n_def [symmetric] k_def [symmetric] by blast
    define s1 where "s1 = say (if k = n then ''done'' @ nl else flash_perror 2) (s\<lparr> mdev := (fputs t ?d)\<lparr> chip := c \<rparr> \<rparr>)"
    have "do_mem_cp nor usage argv s = Some (s1, if k = n then 0 else 1)" unfolding cp fw using np w(1) by (simp add: s1_def)
    moreover have "ram s1 = ram s" "chip (mdev s1) = c" by (simp_all add: s1_def)
    ultimately show ?thesis unfolding Let_def n_def [symmetric] k_def [symmetric] using w(2-4) by (intro exI [of _ s1]) simp
  qed
  ultimately show ?thesis by blast
qed

theorem do_mem_cp_flash_witness:
  "(\<exists>s'. do_mem_cp SST [] [''cp.b'', ''10'', ''64001000'', ''2''] sample_mem = Some (s', 0) \<and> cells (chip (mdev s')) 0x64001000 = 0x7575) \<and>
   (\<forall>s'. do_mem_cp SST [] [''cp.b'', ''10'', ''64001000'', ''1''] sample_mem \<noteq> Some (s', 0)) \<and>
   (\<exists>s'. do_mem_cp SST [] [''cp.w'', ''10'', ''64000000'', ''2''] sample_mem = Some (s', 1) \<and> chip (mdev s') = chip (mdev sample_mem))"
proof -
  have dev: "mdev sample_mem = sst_dev" "base_address sample_mem = 0" by (simp_all add: sample_mem_def)
  have sz: "cmd_get_data_size ''cp.b'' 4 = 1" "cmd_get_data_size ''cp.w'' 4 = 2" by (simp_all add: cmd_get_data_size_def)
  have h: "hexarg ''64001000'' = 0x64001000" "hexarg ''64000000'' = 0x64000000" "hexarg ''1'' = 1" by (simp_all add: hexarg_def) code_simp+
  note cp = do_mem_cp_flash [OF sst_chip.nor_device_axioms sst_sample_bank, of sample_mem, unfolded dev, OF sst_dev_idle(1,2), where usage = "[]"]
  have "\<exists>s'. do_mem_cp SST [] [''cp.b'', ''10'', ''64001000'', ''2''] sample_mem = Some (s', 0) \<and>
      (\<forall>i < 1. cells (chip (mdev s')) (0x64001000 + of_nat (2 * i)) = src_word (ram sample_mem) (unat (0x10 :: u32) + 2 * i))"
    using cp [of "[''cp.b'', ''10'', ''64001000'', ''2'']" 1 "0x10" "0x64001000" 2] sample_in_bank(2) sample_protected(2)
    by (auto simp: sz h hexarg_samples sst_dev_idle(3) first_unwritable_erased)
  moreover have "src_word (ram sample_mem) 0x10 = 0x7575" by (simp add: src_word_def sample_mem_def push_bit_eq_mult)
  moreover have "\<forall>s'. do_mem_cp SST [] [''cp.b'', ''10'', ''64001000'', ''1''] sample_mem \<noteq> Some (s', 0)"
    using cp [of "[''cp.b'', ''10'', ''64001000'', ''1'']" 1 "0x10" "0x64001000" 1] sample_in_bank(3)
    by (auto simp: sz h hexarg_samples)
  moreover have "\<exists>s'. do_mem_cp SST [] [''cp.w'', ''10'', ''64000000'', ''2''] sample_mem = Some (s', 1) \<and> chip (mdev s') = chip sst_dev"
    using cp [of "[''cp.w'', ''10'', ''64000000'', ''2'']" 2 "0x10" "0x64000000" 4] sample_in_bank(1) sample_protected(1)
    by (auto simp: sz h hexarg_samples)
  ultimately show ?thesis unfolding dev by auto
qed

end
