(* ===== verification/Sd_Card.thy ===== *)
theory Sd_Card
  imports Uboot_Prelude "HOL-Library.Monad_Syntax"
begin

text \<open>
  The driver of the card controller, \<^verbatim>\<open>drivers/mmc/stm32f10x_sdcard.c\<close>, as the board uses it: bringing a card up, reading, writing
  and erasing blocks.

  The controller, the card behind it, the DMA channel and the memory it moves data to are hardware: a state \<open>'c\<close> with the
  operations \<open>'c sdio\<close>, which the functions of the peripheral library of the same names carry out with register accesses.
  \<open>STA\<close> is a read of the status register, during which time passes; \<open>DMA_TC4\<close> likewise reads the flag that the channel is done.
  The driver's static variables are the record \<open>sdcard\<close>.

  \<^verbatim>\<open>DeviceMode\<close> is \<^verbatim>\<open>SD_DMA_MODE\<close> from the start and is only ever set to that, so that the branches for the other modes are dead
  code and not in the model. The interrupt of the controller comes while the driver waits for the end of a transfer: the loops
  that wait run the handler whenever the hardware asks for it. A loop that waits for ever has no result.
\<close>

unbundle bit_operations_syntax

section \<open>Types and constants\<close>

datatype SD_Error =
    SD_CMD_CRC_FAIL | SD_DATA_CRC_FAIL | SD_CMD_RSP_TIMEOUT | SD_DATA_TIMEOUT | SD_TX_UNDERRUN | SD_RX_OVERRUN | SD_START_BIT_ERR
  | SD_CMD_OUT_OF_RANGE | SD_ADDR_MISALIGNED | SD_BLOCK_LEN_ERR | SD_ERASE_SEQ_ERR | SD_BAD_ERASE_PARAM | SD_WRITE_PROT_VIOLATION
  | SD_LOCK_UNLOCK_FAILED | SD_COM_CRC_FAILED | SD_ILLEGAL_CMD | SD_CARD_ECC_FAILED | SD_CC_ERROR | SD_GENERAL_UNKNOWN_ERROR
  | SD_STREAM_READ_UNDERRUN | SD_STREAM_WRITE_OVERRUN | SD_CID_CSD_OVERWRITE | SD_WP_ERASE_SKIP | SD_CARD_ECC_DISABLED
  | SD_ERASE_RESET | SD_AKE_SEQ_ERROR | SD_INVALID_VOLTRANGE | SD_ADDR_OUT_OF_RANGE | SD_SWITCH_ERROR | SD_SDIO_DISABLED
  | SD_SDIO_FUNCTION_BUSY | SD_SDIO_FUNCTION_FAILED | SD_SDIO_UNKNOWN_FUNCTION | SD_INTERNAL_ERROR | SD_NOT_CONFIGURED
  | SD_REQUEST_PENDING | SD_REQUEST_NOT_APPLICABLE | SD_INVALID_PARAMETER | SD_UNSUPPORTED_FEATURE | SD_UNSUPPORTED_HW
  | SD_ERROR | SD_OK

record SD_CSD =
  CSDStruct :: u8
  SysSpecVersion :: u8
  csd_Reserved1 :: u8
  TAAC :: u8
  NSAC :: u8
  MaxBusClkFrec :: u8
  CardComdClasses :: u16
  RdBlockLen :: u8
  PartBlockRead :: u8
  WrBlockMisalign :: u8
  RdBlockMisalign :: u8
  DSRImpl :: u8
  csd_Reserved2 :: u8
  DeviceSize :: u32
  MaxRdCurrentVDDMin :: u8
  MaxRdCurrentVDDMax :: u8
  MaxWrCurrentVDDMin :: u8
  MaxWrCurrentVDDMax :: u8
  DeviceSizeMul :: u8
  EraseGrSize :: u8
  EraseGrMul :: u8
  WrProtectGrSize :: u8
  WrProtectGrEnable :: u8
  ManDeflECC :: u8
  WrSpeedFact :: u8
  MaxWrBlockLen :: u8
  WriteBlockPaPartial :: u8
  csd_Reserved3 :: u8
  ContentProtectAppli :: u8
  FileFormatGrouop :: u8
  CopyFlag :: u8
  PermWrProtect :: u8
  TempWrProtect :: u8
  FileFormat :: u8
  ECC :: u8
  CSD_CRC :: u8
  csd_Reserved4 :: u8

record SD_CID =
  ManufacturerID :: u8
  OEM_AppliID :: u16
  ProdName1 :: u32
  ProdName2 :: u8
  ProdRev :: u8
  ProdSN :: u32
  cid_Reserved1 :: u8
  ManufactDate :: u16
  CID_CRC :: u8
  cid_Reserved2 :: u8

record SD_CardInfo =
  SD_csd :: SD_CSD
  SD_cid :: SD_CID
  CardCapacity :: u32
  CardBlockSize :: u32
  info_RCA :: u16
  info_CardType :: u8

definition SDIO_STD_CAPACITY_SD_CARD_V1_1 :: u32 where "SDIO_STD_CAPACITY_SD_CARD_V1_1 = 0"
definition SDIO_STD_CAPACITY_SD_CARD_V2_0 :: u32 where "SDIO_STD_CAPACITY_SD_CARD_V2_0 = 1"
definition SDIO_HIGH_CAPACITY_SD_CARD :: u32 where "SDIO_HIGH_CAPACITY_SD_CARD = 2"
definition SDIO_MULTIMEDIA_CARD :: u32 where "SDIO_MULTIMEDIA_CARD = 3"
definition SDIO_SECURE_DIGITAL_IO_CARD :: u32 where "SDIO_SECURE_DIGITAL_IO_CARD = 4"
definition SDIO_SECURE_DIGITAL_IO_COMBO_CARD :: u32 where "SDIO_SECURE_DIGITAL_IO_COMBO_CARD = 6"

definition is_sd :: "u32 \<Rightarrow> bool" where
  "is_sd t \<longleftrightarrow> t = SDIO_STD_CAPACITY_SD_CARD_V1_1 \<or> t = SDIO_STD_CAPACITY_SD_CARD_V2_0 \<or> t = SDIO_HIGH_CAPACITY_SD_CARD"

text \<open>Flags of the status register.\<close>

definition CCRCFAIL :: u32 where "CCRCFAIL = 0x1"
definition DCRCFAIL :: u32 where "DCRCFAIL = 0x2"
definition CTIMEOUT :: u32 where "CTIMEOUT = 0x4"
definition DTIMEOUT :: u32 where "DTIMEOUT = 0x8"
definition TXUNDERR :: u32 where "TXUNDERR = 0x10"
definition RXOVERR :: u32 where "RXOVERR = 0x20"
definition CMDREND :: u32 where "CMDREND = 0x40"
definition CMDSENT :: u32 where "CMDSENT = 0x80"
definition DATAEND :: u32 where "DATAEND = 0x100"
definition STBITERR :: u32 where "STBITERR = 0x200"
definition DBCKEND :: u32 where "DBCKEND = 0x400"
definition TXFIFOHE :: u32 where "TXFIFOHE = 0x4000"
definition RXFIFOHF :: u32 where "RXFIFOHF = 0x8000"
definition RXDAVL :: u32 where "RXDAVL = 0x200000"

definition SDIO_STATIC_FLAGS :: u32 where "SDIO_STATIC_FLAGS = 0x5FF"
definition SDIO_CMD0TIMEOUT :: nat where "SDIO_CMD0TIMEOUT = 0x2710"
definition SD_VOLTAGE_WINDOW_SD :: u32 where "SD_VOLTAGE_WINDOW_SD = 0x80100000"
definition SD_HIGH_CAPACITY :: u32 where "SD_HIGH_CAPACITY = 0x40000000"
definition SD_STD_CAPACITY :: u32 where "SD_STD_CAPACITY = 0"
definition SD_CHECK_PATTERN :: u32 where "SD_CHECK_PATTERN = 0x1AA"
definition SD_MAX_VOLT_TRIAL :: nat where "SD_MAX_VOLT_TRIAL = 0xFFFF"
definition SD_WIDE_BUS_SUPPORT :: u32 where "SD_WIDE_BUS_SUPPORT = 0x40000"
definition SD_SINGLE_BUS_SUPPORT :: u32 where "SD_SINGLE_BUS_SUPPORT = 0x10000"
definition SD_CARD_LOCKED :: u32 where "SD_CARD_LOCKED = 0x2000000"
definition SD_CARD_PROGRAMMING :: u32 where "SD_CARD_PROGRAMMING = 7"
definition SD_CARD_RECEIVING :: u32 where "SD_CARD_RECEIVING = 6"
definition SD_MAX_DATA_LENGTH :: u32 where "SD_MAX_DATA_LENGTH = 0x1FFFFFF"
definition SD_OCR_ERRORBITS :: u32 where "SD_OCR_ERRORBITS = 0xFDFFE008"

text \<open>Indices of the commands.\<close>

definition GO_IDLE_STATE :: u8 where "GO_IDLE_STATE = 0"
definition ALL_SEND_CID :: u8 where "ALL_SEND_CID = 2"
definition SET_REL_ADDR :: u8 where "SET_REL_ADDR = 3"
definition APP_SD_SET_BUSWIDTH :: u8 where "APP_SD_SET_BUSWIDTH = 6"
definition SEL_DESEL_CARD :: u8 where "SEL_DESEL_CARD = 7"
definition SEND_IF_COND :: u8 where "SEND_IF_COND = 8"
definition SEND_CSD :: u8 where "SEND_CSD = 9"
definition STOP_TRANSMISSION :: u8 where "STOP_TRANSMISSION = 12"
definition SEND_STATUS :: u8 where "SEND_STATUS = 13"
definition SET_BLOCKLEN :: u8 where "SET_BLOCKLEN = 16"
definition READ_SINGLE_BLOCK :: u8 where "READ_SINGLE_BLOCK = 17"
definition READ_MULT_BLOCK :: u8 where "READ_MULT_BLOCK = 18"
definition SET_BLOCK_COUNT :: u8 where "SET_BLOCK_COUNT = 23"
definition WRITE_MULT_BLOCK :: u8 where "WRITE_MULT_BLOCK = 25"
definition SD_APP_OP_COND :: u8 where "SD_APP_OP_COND = 41"
definition SD_APP_SEND_SCR :: u8 where "SD_APP_SEND_SCR = 51"
definition APP_CMD :: u8 where "APP_CMD = 55"

section \<open>The hardware\<close>

datatype sdio_response = Response_No | Response_Short | Response_Long
datatype sdio_dir = ToCard | ToSDIO
datatype sdio_setup = Pins_and_Clocks | SDIO_DeInit | SDIO_Init u8 u32 | SetPowerState u32 | ClockCmd

record 'c sdio =
  sdio_setup :: "sdio_setup \<Rightarrow> 'c \<Rightarrow> 'c"
  SDIO_GetPowerState :: "'c \<Rightarrow> u32"
  SDIO_SendCommand :: "u32 \<Rightarrow> u8 \<Rightarrow> sdio_response \<Rightarrow> 'c \<Rightarrow> 'c"
  STA :: "'c \<Rightarrow> u32 \<times> 'c"
  SDIO_GetCommandResponse :: "'c \<Rightarrow> u8"
  SDIO_GetResponse :: "nat \<Rightarrow> 'c \<Rightarrow> u32"
  SDIO_ClearFlag :: "u32 \<Rightarrow> 'c \<Rightarrow> 'c"
  SDIO_DataConfig :: "u32 \<Rightarrow> u32 \<Rightarrow> sdio_dir \<Rightarrow> bool \<Rightarrow> 'c \<Rightarrow> 'c"
  SDIO_DMACmd :: "bool \<Rightarrow> 'c \<Rightarrow> 'c"
  SDIO_ITConfig :: "u32 \<Rightarrow> bool \<Rightarrow> 'c \<Rightarrow> 'c"
  SDIO_ReadData :: "'c \<Rightarrow> u32 \<times> 'c"
  DMA_channel :: "sdio_dir \<Rightarrow> u32 \<Rightarrow> u32 \<Rightarrow> 'c \<Rightarrow> 'c"
  DMA_TC4 :: "'c \<Rightarrow> bool \<times> 'c"
  SDIO_IRQ :: "'c \<Rightarrow> bool"
  pass_time :: "'c \<Rightarrow> 'c"

record 'c sdcard =
  hw :: 'c
  CardType :: u32
  CSD_Tab :: "u32 list"
  CID_Tab :: "u32 list"
  RCA :: u32
  TransferError :: SD_Error
  TransferEnd :: u32
  NumberOfBytes :: u32
  TotalNumberOfBytes :: u32
  StopCondition :: u32

type_synonym 'c sd_op = "'c sdcard \<Rightarrow> (SD_Error \<times> 'c sdcard) option"

definition upd :: "('c \<Rightarrow> 'c) \<Rightarrow> 'c sdcard \<Rightarrow> 'c sdcard" where "upd f s = s\<lparr> hw := f (hw s) \<rparr>"

text \<open>The early returns: the next step is taken only after \<open>SD_OK\<close>.\<close>

definition sd_then :: "(SD_Error \<times> 'c sdcard) option \<Rightarrow> 'c sd_op \<Rightarrow> (SD_Error \<times> 'c sdcard) option" where
  "sd_then r k = do { (e, s) \<leftarrow> r; if e \<noteq> SD_OK then Some (e, s) else k s }"

definition SDIO_GetFlagStatus :: "'c sdio \<Rightarrow> u32 \<Rightarrow> 'c \<Rightarrow> bool \<times> 'c" where
  "SDIO_GetFlagStatus H f c = (let (st, c') = STA H c in (st AND f \<noteq> 0, c'))"

section \<open>Responses\<close>

primrec cmd0_wait :: "'c sdio \<Rightarrow> nat \<Rightarrow> 'c \<Rightarrow> nat \<times> 'c" where
  "cmd0_wait H 0 c = (0, c)"
| "cmd0_wait H (Suc timeout) c =
     (let (sent, c') = SDIO_GetFlagStatus H CMDSENT c in if sent then (Suc timeout, c') else cmd0_wait H timeout c')"

definition CmdError :: "'c sdio \<Rightarrow> 'c sd_op" where
  "CmdError H s =
     (let (timeout, c) = cmd0_wait H SDIO_CMD0TIMEOUT (hw s)
      in Some (if timeout = 0 then (SD_CMD_RSP_TIMEOUT, s\<lparr> hw := c \<rparr>) else (SD_OK, s\<lparr> hw := SDIO_ClearFlag H SDIO_STATIC_FLAGS c \<rparr>)))"

definition responded :: "u32 \<Rightarrow> bool" where "responded st \<longleftrightarrow> st AND (CCRCFAIL OR CMDREND OR CTIMEOUT) \<noteq> 0"

primrec resp7_wait :: "'c sdio \<Rightarrow> nat \<Rightarrow> 'c \<Rightarrow> nat \<times> u32 \<times> 'c" where
  "resp7_wait H 0 c = (let (st, c') = STA H c in (0, st, c'))"
| "resp7_wait H (Suc timeout) c =
     (let (st, c') = STA H c in if responded st then (Suc timeout, st, c') else resp7_wait H timeout c')"

text \<open>A response whose checksum is wrong counts as one here.\<close>

definition CmdResp7Error :: "'c sdio \<Rightarrow> 'c sd_op" where
  "CmdResp7Error H s =
     (let (timeout, st, c) = resp7_wait H SDIO_CMD0TIMEOUT (hw s)
      in Some (if timeout = 0 \<or> st AND CTIMEOUT \<noteq> 0 then (SD_CMD_RSP_TIMEOUT, s\<lparr> hw := SDIO_ClearFlag H CTIMEOUT c \<rparr>)
               else if st AND CMDREND \<noteq> 0 then (SD_OK, s\<lparr> hw := SDIO_ClearFlag H CMDREND c \<rparr>)
               else (SD_OK, s\<lparr> hw := c \<rparr>)))"

partial_function (option) resp_wait :: "'c sdio \<Rightarrow> 'c \<Rightarrow> (u32 \<times> 'c) option" where
  "resp_wait H c = (let (st, c') = STA H c in if responded st then Some (st, c') else resp_wait H c')"

text \<open>The error bits of a card status, in the order of the tests.\<close>

definition r1_bits :: "(u32 \<times> SD_Error) list" where
  "r1_bits = [(0x80000000, SD_ADDR_OUT_OF_RANGE), (0x40000000, SD_ADDR_MISALIGNED), (0x20000000, SD_BLOCK_LEN_ERR),
     (0x10000000, SD_ERASE_SEQ_ERR), (0x08000000, SD_BAD_ERASE_PARAM), (0x04000000, SD_WRITE_PROT_VIOLATION),
     (0x01000000, SD_LOCK_UNLOCK_FAILED), (0x00800000, SD_COM_CRC_FAILED), (0x00400000, SD_ILLEGAL_CMD),
     (0x00200000, SD_CARD_ECC_FAILED), (0x00100000, SD_CC_ERROR), (0x00080000, SD_GENERAL_UNKNOWN_ERROR),
     (0x00040000, SD_STREAM_READ_UNDERRUN), (0x00020000, SD_STREAM_WRITE_OVERRUN), (0x00010000, SD_CID_CSD_OVERWRITE),
     (0x00008000, SD_WP_ERASE_SKIP), (0x00004000, SD_CARD_ECC_DISABLED), (0x00002000, SD_ERASE_RESET), (0x00000008, SD_AKE_SEQ_ERROR)]"

fun first_bit :: "(u32 \<times> SD_Error) list \<Rightarrow> u32 \<Rightarrow> SD_Error" where
  "first_bit [] r = SD_OK"
| "first_bit ((b, e) # bs) r = (if r AND b \<noteq> 0 then e else first_bit bs r)"

definition r1_error :: "u32 \<Rightarrow> SD_Error" where
  "r1_error r = (if r AND SD_OCR_ERRORBITS = 0 then SD_OK else first_bit r1_bits r)"

definition CmdResp1Error :: "'c sdio \<Rightarrow> u8 \<Rightarrow> 'c sd_op" where
  "CmdResp1Error H cmd s =
     do { (st, c) \<leftarrow> resp_wait H (hw s);
          Some (if st AND CTIMEOUT \<noteq> 0 then (SD_CMD_RSP_TIMEOUT, s\<lparr> hw := SDIO_ClearFlag H CTIMEOUT c \<rparr>)
                else if st AND CCRCFAIL \<noteq> 0 then (SD_CMD_CRC_FAIL, s\<lparr> hw := SDIO_ClearFlag H CCRCFAIL c \<rparr>)
                else if SDIO_GetCommandResponse H c \<noteq> cmd then (SD_ILLEGAL_CMD, s\<lparr> hw := c \<rparr>)
                else let c' = SDIO_ClearFlag H SDIO_STATIC_FLAGS c in (r1_error (SDIO_GetResponse H 1 c'), s\<lparr> hw := c' \<rparr>)) }"

definition CmdResp3Error :: "'c sdio \<Rightarrow> 'c sd_op" where
  "CmdResp3Error H s =
     do { (st, c) \<leftarrow> resp_wait H (hw s);
          Some (if st AND CTIMEOUT \<noteq> 0 then (SD_CMD_RSP_TIMEOUT, s\<lparr> hw := SDIO_ClearFlag H CTIMEOUT c \<rparr>)
                else (SD_OK, s\<lparr> hw := SDIO_ClearFlag H SDIO_STATIC_FLAGS c \<rparr>)) }"

definition CmdResp2Error :: "'c sdio \<Rightarrow> 'c sd_op" where
  "CmdResp2Error H s =
     do { (st, c) \<leftarrow> resp_wait H (hw s);
          Some (if st AND CTIMEOUT \<noteq> 0 then (SD_CMD_RSP_TIMEOUT, s\<lparr> hw := SDIO_ClearFlag H CTIMEOUT c \<rparr>)
                else if st AND CCRCFAIL \<noteq> 0 then (SD_CMD_CRC_FAIL, s\<lparr> hw := SDIO_ClearFlag H CCRCFAIL c \<rparr>)
                else (SD_OK, s\<lparr> hw := SDIO_ClearFlag H SDIO_STATIC_FLAGS c \<rparr>)) }"

definition r6_error :: "u32 \<Rightarrow> SD_Error" where
  "r6_error r = first_bit [(0x2000, SD_GENERAL_UNKNOWN_ERROR), (0x4000, SD_ILLEGAL_CMD), (0x8000, SD_COM_CRC_FAILED)] r"

text \<open>The result has the address the card published, or the caller's when there is none.\<close>

definition CmdResp6Error :: "'c sdio \<Rightarrow> u8 \<Rightarrow> u16 \<Rightarrow> 'c sdcard \<Rightarrow> (SD_Error \<times> u16 \<times> 'c sdcard) option" where
  "CmdResp6Error H cmd rca s =
     do { (st, c) \<leftarrow> resp_wait H (hw s);
          Some (if st AND CTIMEOUT \<noteq> 0 then (SD_CMD_RSP_TIMEOUT, rca, s\<lparr> hw := SDIO_ClearFlag H CTIMEOUT c \<rparr>)
                else if st AND CCRCFAIL \<noteq> 0 then (SD_CMD_CRC_FAIL, rca, s\<lparr> hw := SDIO_ClearFlag H CCRCFAIL c \<rparr>)
                else if SDIO_GetCommandResponse H c \<noteq> cmd then (SD_ILLEGAL_CMD, rca, s\<lparr> hw := c \<rparr>)
                else let c' = SDIO_ClearFlag H SDIO_STATIC_FLAGS c; r = SDIO_GetResponse H 1 c'
                     in if r AND (0x2000 OR 0x4000 OR 0x8000) = 0 then (SD_OK, ucast (drop_bit 16 r), s\<lparr> hw := c' \<rparr>)
                        else (r6_error r, rca, s\<lparr> hw := c' \<rparr>)) }"

text \<open>A command with a short response of type R1.\<close>

definition command1 :: "'c sdio \<Rightarrow> u32 \<Rightarrow> u8 \<Rightarrow> 'c sd_op" where
  "command1 H arg cmd s = CmdResp1Error H cmd (upd (SDIO_SendCommand H arg cmd Response_Short) s)"

section \<open>Bringing a card up\<close>

definition SDIO_INIT_CLK_DIV :: u8 where "SDIO_INIT_CLK_DIV = 0xB2"
definition SDIO_TRANSFER_CLK_DIV :: u8 where "SDIO_TRANSFER_CLK_DIV = 0x1"
definition SDIO_BusWide_1b :: u32 where "SDIO_BusWide_1b = 0"
definition SDIO_BusWide_4b :: u32 where "SDIO_BusWide_4b = 0x800"
definition SDIO_BusWide_8b :: u32 where "SDIO_BusWide_8b = 0x1000"
definition SDIO_PowerState_OFF :: u32 where "SDIO_PowerState_OFF = 0"
definition SDIO_PowerState_ON :: u32 where "SDIO_PowerState_ON = 3"

text \<open>The question for the voltage, until the card is ready or no trial is left: the status and the last response.\<close>

primrec volt_loop :: "'c sdio \<Rightarrow> u32 \<Rightarrow> nat \<Rightarrow> 'c sdcard \<Rightarrow> (SD_Error \<times> u32 \<times> 'c sdcard) option" where
  "volt_loop H SDType 0 s = Some (SD_INVALID_VOLTRANGE, 0, s)"
| "volt_loop H SDType (Suc trials) s =
     do { (e, s1) \<leftarrow> command1 H 0 APP_CMD s;
          if e \<noteq> SD_OK then Some (e, 0, s1)
          else do { (e2, s2) \<leftarrow> CmdResp3Error H (upd (SDIO_SendCommand H (SD_VOLTAGE_WINDOW_SD OR SDType) SD_APP_OP_COND Response_Short) s1);
                    if e2 \<noteq> SD_OK then Some (e2, 0, s2)
                    else let response = SDIO_GetResponse H 1 (hw s2)
                         in if drop_bit 31 response = 1 then Some (if trials = 0 then SD_INVALID_VOLTRANGE else SD_OK, response, s2)
                            else volt_loop H SDType trials s2 } }"

definition SD_PowerON :: "'c sdio \<Rightarrow> 'c sd_op" where
  "SD_PowerON H s =
     (let s1 = upd (sdio_setup H ClockCmd) (upd (sdio_setup H (SetPowerState SDIO_PowerState_ON))
                 (upd (sdio_setup H (SDIO_Init SDIO_INIT_CLK_DIV SDIO_BusWide_1b)) s))
      in sd_then (CmdError H (upd (SDIO_SendCommand H 0 GO_IDLE_STATE Response_No) s1))
           (\<lambda>s2. do { (e7, s3) \<leftarrow> CmdResp7Error H (upd (SDIO_SendCommand H SD_CHECK_PATTERN SEND_IF_COND Response_Short) s2);
                     s4 \<leftarrow> (if e7 = SD_OK then Some (s3\<lparr> CardType := SDIO_STD_CAPACITY_SD_CARD_V2_0 \<rparr>)
                            else map_option snd (command1 H 0 APP_CMD s3));
                     let SDType = (if e7 = SD_OK then SD_HIGH_CAPACITY else SD_STD_CAPACITY);
                     sd_then (command1 H 0 APP_CMD s4)
                       (\<lambda>s5. do { (e, response, s6) \<leftarrow> volt_loop H SDType SD_MAX_VOLT_TRIAL s5;
                                 Some (e, if e = SD_OK \<and> response AND SD_HIGH_CAPACITY \<noteq> 0
                                          then s6\<lparr> CardType := SDIO_HIGH_CAPACITY_SD_CARD \<rparr> else s6) }) }))"

definition long_response :: "'c sdio \<Rightarrow> 'c \<Rightarrow> u32 list" where
  "long_response H c = map (\<lambda>i. SDIO_GetResponse H i c) [1, 2, 3, 4]"

definition SD_InitializeCards :: "'c sdio \<Rightarrow> 'c sd_op" where
  "SD_InitializeCards H s =
     (if SDIO_GetPowerState H (hw s) = SDIO_PowerState_OFF then Some (SD_REQUEST_NOT_APPLICABLE, s)
      else sd_then
        (if CardType s = SDIO_SECURE_DIGITAL_IO_CARD then Some (SD_OK, s)
         else sd_then (CmdResp2Error H (upd (SDIO_SendCommand H 0 ALL_SEND_CID Response_Long) s))
                (\<lambda>s1. Some (SD_OK, s1\<lparr> CID_Tab := long_response H (hw s1) \<rparr>)))
        (\<lambda>s1. do { (e, rca, s2) \<leftarrow> (if is_sd (CardType s1) \<or> CardType s1 = SDIO_SECURE_DIGITAL_IO_COMBO_CARD
                     then CmdResp6Error H SET_REL_ADDR 1 (upd (SDIO_SendCommand H 0 SET_REL_ADDR Response_Short) s1)
                     else Some (SD_OK, 1, s1));
                  if e \<noteq> SD_OK then Some (e, s2)
                  else if CardType s2 = SDIO_SECURE_DIGITAL_IO_CARD then Some (SD_OK, s2)
                  else sd_then (CmdResp2Error H (upd (SDIO_SendCommand H (push_bit 16 (ucast rca)) SEND_CSD Response_Long)
                         (s2\<lparr> RCA := ucast rca \<rparr>)))
                         (\<lambda>s3. Some (SD_OK, s3\<lparr> CSD_Tab := long_response H (hw s3) \<rparr>)) }))"

definition SD_Init :: "'c sdio \<Rightarrow> 'c sd_op" where
  "SD_Init H s =
     sd_then (SD_PowerON H (upd (sdio_setup H SDIO_DeInit) (upd (sdio_setup H Pins_and_Clocks) s)))
       (\<lambda>s1. sd_then (SD_InitializeCards H s1)
         (\<lambda>s2. Some (SD_OK, upd (sdio_setup H (SDIO_Init SDIO_TRANSFER_CLK_DIV SDIO_BusWide_1b)) s2)))"

definition SD_SelectDeselect :: "'c sdio \<Rightarrow> u32 \<Rightarrow> 'c sd_op" where
  "SD_SelectDeselect H addr s = command1 H addr SEL_DESEL_CARD s"

text \<open>The words of the configuration register as they come; the array has room for two.\<close>

partial_function (option) scr_loop :: "'c sdio \<Rightarrow> u32 list \<Rightarrow> 'c \<Rightarrow> (u32 list \<times> 'c) option" where
  "scr_loop H ws c =
     (let (st, c1) = STA H c in
      if st AND (RXOVERR OR DCRCFAIL OR DTIMEOUT OR DBCKEND OR STBITERR) \<noteq> 0 then Some (ws, c1)
      else let (avail, c2) = SDIO_GetFlagStatus H RXDAVL c1
           in if avail then let (w, c3) = SDIO_ReadData H c2 in scr_loop H (ws @ [w]) c3 else scr_loop H ws c2)"

text \<open>The first flag that is set, cleared, and its error.\<close>

fun flag_error :: "'c sdio \<Rightarrow> (u32 \<times> SD_Error) list \<Rightarrow> 'c \<Rightarrow> SD_Error \<times> 'c" where
  "flag_error H [] c = (SD_OK, c)"
| "flag_error H ((f, e) # fs) c =
     (let (b, c1) = SDIO_GetFlagStatus H f c in if b then (e, SDIO_ClearFlag H f c1) else flag_error H fs c1)"

definition swap_word :: "u32 \<Rightarrow> u32" where
  "swap_word w = push_bit 24 (w AND 0xFF) OR push_bit 8 (w AND 0xFF00) OR drop_bit 8 (w AND 0xFF0000) OR drop_bit 24 (w AND 0xFF000000)"

definition FindSCR :: "'c sdio \<Rightarrow> 'c sdcard \<Rightarrow> (SD_Error \<times> u32 list \<times> 'c sdcard) option" where
  "FindSCR H s =
     do { (e, s3) \<leftarrow> sd_then (command1 H 8 SET_BLOCKLEN s)
             (\<lambda>s1. sd_then (command1 H (push_bit 16 (RCA s1)) APP_CMD s1)
               (\<lambda>s2. command1 H 0 SD_APP_SEND_SCR (upd (SDIO_DataConfig H 8 0x30 ToSDIO True) s2)));
          if e \<noteq> SD_OK then Some (e, [0, 0], s3)
          else do { (ws, c) \<leftarrow> scr_loop H [] (hw s3);
                    let tempscr = ws @ [0, 0];
                    let (e2, c2) = flag_error H [(DTIMEOUT, SD_DATA_TIMEOUT), (DCRCFAIL, SD_DATA_CRC_FAIL), (RXOVERR, SD_RX_OVERRUN),
                                                 (STBITERR, SD_START_BIT_ERR)] c;
                    Some (if e2 \<noteq> SD_OK then (e2, [0, 0], s3\<lparr> hw := c2 \<rparr>)
                          else (SD_OK, [swap_word (tempscr ! 1), swap_word (tempscr ! 0)],
                                s3\<lparr> hw := SDIO_ClearFlag H SDIO_STATIC_FLAGS c2 \<rparr>)) } }"

definition SDEnWideBus :: "'c sdio \<Rightarrow> bool \<Rightarrow> 'c sd_op" where
  "SDEnWideBus H NewState s =
     (if SDIO_GetResponse H 1 (hw s) AND SD_CARD_LOCKED \<noteq> 0 then Some (SD_LOCK_UNLOCK_FAILED, s)
      else do { (e, scr, s1) \<leftarrow> FindSCR H s;
                if e \<noteq> SD_OK then Some (e, s1)
                else if scr ! 1 AND (if NewState then SD_WIDE_BUS_SUPPORT else SD_SINGLE_BUS_SUPPORT) \<noteq> 0
                then sd_then (command1 H (push_bit 16 (RCA s1)) APP_CMD s1) (command1 H (if NewState then 2 else 0) APP_SD_SET_BUSWIDTH)
                else Some (SD_REQUEST_NOT_APPLICABLE, s1) })"

definition SD_EnableWideBusOperation :: "'c sdio \<Rightarrow> u32 \<Rightarrow> 'c sd_op" where
  "SD_EnableWideBusOperation H WideMode s =
     (if CardType s = SDIO_MULTIMEDIA_CARD then Some (SD_UNSUPPORTED_FEATURE, s)
      else if is_sd (CardType s)
      then if WideMode = SDIO_BusWide_8b then Some (SD_UNSUPPORTED_FEATURE, s)
           else let wide = (WideMode = SDIO_BusWide_4b)
                in sd_then (SDEnWideBus H wide s)
                     (\<lambda>s1. Some (SD_OK, upd (sdio_setup H (SDIO_Init SDIO_TRANSFER_CLK_DIV (if wide then SDIO_BusWide_4b else SDIO_BusWide_1b))) s1))
      else Some (SD_OK, s))"

section \<open>Transfers\<close>

definition SD_StopTransfer :: "'c sdio \<Rightarrow> 'c sd_op" where
  "SD_StopTransfer H s = command1 H 0 STOP_TRANSMISSION s"

definition irq_mask :: u32 where
  "irq_mask = DCRCFAIL OR DTIMEOUT OR DATAEND OR TXFIFOHE OR RXFIFOHF OR TXUNDERR OR RXOVERR OR STBITERR"

text \<open>The errors that the handler looks for after the end of the data.\<close>

fun irq_error :: "'c sdio \<Rightarrow> (u32 \<times> SD_Error) list \<Rightarrow> 'c sdcard \<Rightarrow> SD_Error \<times> 'c sdcard" where
  "irq_error H [] s = (SD_OK, s)"
| "irq_error H ((f, e) # fs) s =
     (let (b, c) = SDIO_GetFlagStatus H f (hw s); s1 = s\<lparr> hw := c \<rparr>
      in if b then (e, (upd (SDIO_ITConfig H irq_mask False) (upd (SDIO_ClearFlag H f) s1))\<lparr> NumberOfBytes := 0, TransferError := e \<rparr>)
         else irq_error H fs s1)"

definition SD_ProcessIRQSrc :: "'c sdio \<Rightarrow> 'c sd_op" where
  "SD_ProcessIRQSrc H s =
     (let (ended, c) = SDIO_GetFlagStatus H DATAEND (hw s); s1 = s\<lparr> hw := c \<rparr>
      in if ended
         then do { (e, s2) \<leftarrow> (if StopCondition s1 = 1 then SD_StopTransfer H s1 else Some (SD_OK, s1));
                   Some (e, (upd (SDIO_ITConfig H irq_mask False) (upd (SDIO_ClearFlag H DATAEND) s2))
                            \<lparr> TransferError := e, TransferEnd := 1, NumberOfBytes := 0 \<rparr>) }
         else Some (irq_error H [(DCRCFAIL, SD_DATA_CRC_FAIL), (DTIMEOUT, SD_DATA_TIMEOUT), (RXOVERR, SD_RX_OVERRUN),
                                 (TXUNDERR, SD_TX_UNDERRUN), (STBITERR, SD_START_BIT_ERR)] s1))"

definition interrupt :: "'c sdio \<Rightarrow> 'c sdcard \<Rightarrow> 'c sdcard option" where
  "interrupt H s = (if SDIO_IRQ H (hw s) then map_option snd (SD_ProcessIRQSrc H s) else Some s)"

partial_function (option) dma_wait :: "'c sdio \<Rightarrow> 'c sdcard \<Rightarrow> 'c sdcard option" where
  "dma_wait H s =
     (let (tc, c) = DMA_TC4 H (hw s); s1 = s\<lparr> hw := c \<rparr>
      in if tc then Some s1 else do { s2 \<leftarrow> interrupt H s1; dma_wait H s2 })"

partial_function (option) end_wait :: "'c sdio \<Rightarrow> 'c sdcard \<Rightarrow> 'c sdcard option" where
  "end_wait H s =
     (if TransferEnd s = 0 \<and> TransferError s = SD_OK
      then do { s1 \<leftarrow> interrupt H (upd (pass_time H) s); end_wait H s1 }
      else Some s)"

partial_function (option) convert_from_bytes_to_power_of_two :: "u16 \<Rightarrow> u8 \<Rightarrow> u8 option" where
  "convert_from_bytes_to_power_of_two n count =
     (if n = 1 then Some count else convert_from_bytes_to_power_of_two (drop_bit 1 n) (count + 1))"

text \<open>How the three transfers begin: no data path, a card that is not locked, blocks numbered on a card of high capacity and a
  block size that the card accepts. The rest is given the address, the block size and its exponent.\<close>

definition with_block_size :: "'c sdio \<Rightarrow> u32 \<Rightarrow> u16 \<Rightarrow> (u32 \<Rightarrow> u16 \<Rightarrow> u32 \<Rightarrow> 'c sd_op) \<Rightarrow> 'c sd_op" where
  "with_block_size H addr BlockSize rest s =
     (let s1 = upd (SDIO_DMACmd H False) (upd (SDIO_DataConfig H 0 0 ToCard False)
                 (s\<lparr> TransferError := SD_OK, TransferEnd := 0, TotalNumberOfBytes := 0 \<rparr>))
      in if SDIO_GetResponse H 1 (hw s1) AND SD_CARD_LOCKED \<noteq> 0 then Some (SD_LOCK_UNLOCK_FAILED, s1)
         else let hc = (CardType s1 = SDIO_HIGH_CAPACITY_SD_CARD); bs = (if hc then 512 else BlockSize); a = (if hc then addr div 512 else addr)
              in if bs > 0 \<and> bs \<le> 2048 \<and> bs AND (bs - 1) = 0
                 then do { power \<leftarrow> convert_from_bytes_to_power_of_two bs 0;
                           sd_then (command1 H (ucast bs) SET_BLOCKLEN s1) (rest a bs (push_bit 4 (ucast power))) }
                 else Some (SD_INVALID_PARAMETER, s1))"

definition rx_mask :: u32 where "rx_mask = DCRCFAIL OR DTIMEOUT OR DATAEND OR RXOVERR OR STBITERR"
definition tx_mask :: u32 where "tx_mask = DCRCFAIL OR DTIMEOUT OR DATAEND OR TXUNDERR OR STBITERR"

definition DMA_RxConfiguration :: "'c sdio \<Rightarrow> u32 \<Rightarrow> u32 \<Rightarrow> 'c \<Rightarrow> 'c" where
  "DMA_RxConfiguration H BufferDST BufferSize = DMA_channel H ToSDIO BufferDST (BufferSize div 4)"

definition DMA_TxConfiguration :: "'c sdio \<Rightarrow> u32 \<Rightarrow> u32 \<Rightarrow> 'c \<Rightarrow> 'c" where
  "DMA_TxConfiguration H BufferSRC BufferSize = DMA_channel H ToCard BufferSRC (BufferSize div 4)"

definition SD_ReadBlock :: "'c sdio \<Rightarrow> u32 \<Rightarrow> u32 \<Rightarrow> u16 \<Rightarrow> 'c sd_op" where
  "SD_ReadBlock H addr readbuff BlockSize s =
     (if readbuff = 0 then Some (SD_INVALID_PARAMETER, s)
      else with_block_size H addr BlockSize
        (\<lambda>a bs power s1.
           sd_then (command1 H a READ_SINGLE_BLOCK
                      ((upd (SDIO_DataConfig H (ucast bs) power ToSDIO True) s1)\<lparr> TotalNumberOfBytes := ucast bs, StopCondition := 0 \<rparr>))
             (\<lambda>s2. do { s3 \<leftarrow> dma_wait H (upd (DMA_RxConfiguration H readbuff (ucast bs)) (upd (SDIO_DMACmd H True) (upd (SDIO_ITConfig H rx_mask True) s2)));
                       Some (SD_OK, s3) })) s)"

text \<open>The end of a transfer of several blocks.\<close>

definition transfer_end :: "'c sdio \<Rightarrow> 'c sd_op" where
  "transfer_end H s = do { s1 \<leftarrow> dma_wait H s; s2 \<leftarrow> end_wait H s1; Some (TransferError s2, s2) }"

definition SD_ReadMultiBlocks :: "'c sdio \<Rightarrow> u32 \<Rightarrow> u32 \<Rightarrow> u16 \<Rightarrow> u32 \<Rightarrow> 'c sd_op" where
  "SD_ReadMultiBlocks H addr readbuff BlockSize NumberOfBlocks s =
     (if readbuff = 0 then Some (SD_INVALID_PARAMETER, s)
      else with_block_size H addr BlockSize
        (\<lambda>a bs power s1.
           if NumberOfBlocks > 1
           then let len = NumberOfBlocks * ucast bs
                in if len > SD_MAX_DATA_LENGTH then Some (SD_INVALID_PARAMETER, s1)
                   else sd_then (command1 H a READ_MULT_BLOCK
                                  (upd (SDIO_DataConfig H len power ToSDIO True) (s1\<lparr> TotalNumberOfBytes := len, StopCondition := 1 \<rparr>)))
                          (\<lambda>s2. transfer_end H (upd (DMA_RxConfiguration H readbuff len) (upd (SDIO_DMACmd H True) (upd (SDIO_ITConfig H rx_mask True) s2))))
           else Some (SD_OK, s1)) s)"

text \<open>The state of the card; \<open>pstatus\<close> is what the caller had.\<close>

definition IsCardProgramming :: "'c sdio \<Rightarrow> u8 \<Rightarrow> 'c sdcard \<Rightarrow> (SD_Error \<times> u8 \<times> 'c sdcard) option" where
  "IsCardProgramming H pstatus s =
     (let s1 = upd (SDIO_SendCommand H (push_bit 16 (RCA s)) SEND_STATUS Response_Short) s in
      do { (st, c) \<leftarrow> resp_wait H (hw s1);
           Some (if st AND CTIMEOUT \<noteq> 0 then (SD_CMD_RSP_TIMEOUT, pstatus, s1\<lparr> hw := SDIO_ClearFlag H CTIMEOUT c \<rparr>)
                 else if st AND CCRCFAIL \<noteq> 0 then (SD_CMD_CRC_FAIL, pstatus, s1\<lparr> hw := SDIO_ClearFlag H CCRCFAIL c \<rparr>)
                 else if SDIO_GetCommandResponse H c \<noteq> SEND_STATUS then (SD_ILLEGAL_CMD, pstatus, s1\<lparr> hw := c \<rparr>)
                 else let c' = SDIO_ClearFlag H SDIO_STATIC_FLAGS c; r = SDIO_GetResponse H 1 c'
                      in (r1_error r, ucast (drop_bit 9 r AND 0xF), s1\<lparr> hw := c' \<rparr>)) })"

partial_function (option) programming_wait :: "'c sdio \<Rightarrow> u8 \<Rightarrow> 'c sdcard \<Rightarrow> (SD_Error \<times> 'c sdcard) option" where
  "programming_wait H cardstate s =
     do { (e, st, s1) \<leftarrow> IsCardProgramming H cardstate s;
          if e = SD_OK \<and> (ucast st = SD_CARD_PROGRAMMING \<or> ucast st = SD_CARD_RECEIVING) then programming_wait H st s1 else Some (e, s1) }"

definition SD_WriteMultiBlocks :: "'c sdio \<Rightarrow> u32 \<Rightarrow> u32 \<Rightarrow> u16 \<Rightarrow> u32 \<Rightarrow> 'c sd_op" where
  "SD_WriteMultiBlocks H addr writebuff BlockSize NumberOfBlocks s =
     (if writebuff = 0 then Some (SD_INVALID_PARAMETER, s)
      else with_block_size H addr BlockSize
        (\<lambda>a bs power s1.
           sd_then (command1 H (push_bit 16 (RCA s1)) SEND_STATUS s1)
             (\<lambda>s2. sd_then
                (if NumberOfBlocks > 1
                 then let len = NumberOfBlocks * ucast bs
                      in if len > SD_MAX_DATA_LENGTH then Some (SD_INVALID_PARAMETER, s2)
                         else sd_then
                           (if is_sd (CardType s2)
                            then sd_then (command1 H (push_bit 16 (RCA s2)) APP_CMD s2) (command1 H NumberOfBlocks SET_BLOCK_COUNT)
                            else Some (SD_OK, s2))
                           (\<lambda>s3. sd_then (command1 H a WRITE_MULT_BLOCK s3)
                             (\<lambda>s4. transfer_end H (upd (DMA_TxConfiguration H writebuff len) (upd (SDIO_DMACmd H True) (upd (SDIO_ITConfig H tx_mask True)
                               (upd (SDIO_DataConfig H len power ToCard True) (s4\<lparr> TotalNumberOfBytes := len, StopCondition := 1 \<rparr>)))))))
                 else Some (SD_OK, s2))
                (\<lambda>s3. programming_wait H 0 (upd (SDIO_ClearFlag H SDIO_STATIC_FLAGS) s3)))) s)"

text \<open>A card that is not ready for data is asked again, as often as the timeout says.\<close>

definition SD_DATATIMEOUT :: nat where "SD_DATATIMEOUT = 0xFFFFF"
definition WRITE_SINGLE_BLOCK :: u8 where "WRITE_SINGLE_BLOCK = 24"

primrec ready_for_data :: "'c sdio \<Rightarrow> nat \<Rightarrow> 'c sd_op" where
  "ready_for_data H 0 s = Some (SD_ERROR, s)"
| "ready_for_data H (Suc timeout) s =
     (if SDIO_GetResponse H 1 (hw s) AND 0x100 \<noteq> 0 then Some (SD_OK, s)
      else sd_then (command1 H (push_bit 16 (RCA s)) SEND_STATUS s) (ready_for_data H timeout))"

definition SD_WriteBlock :: "'c sdio \<Rightarrow> u32 \<Rightarrow> u32 \<Rightarrow> u16 \<Rightarrow> 'c sd_op" where
  "SD_WriteBlock H addr writebuff BlockSize s =
     (if writebuff = 0 then Some (SD_INVALID_PARAMETER, s)
      else with_block_size H addr BlockSize
        (\<lambda>a bs power s1.
           sd_then (command1 H (push_bit 16 (RCA s1)) SEND_STATUS s1)
             (\<lambda>s2. sd_then (ready_for_data H SD_DATATIMEOUT s2)
               (\<lambda>s3. sd_then (command1 H a WRITE_SINGLE_BLOCK s3)
                 (\<lambda>s4. sd_then (transfer_end H (upd (SDIO_DMACmd H True) (upd (DMA_TxConfiguration H writebuff (ucast bs)) (upd (SDIO_ITConfig H tx_mask True)
                     (upd (SDIO_DataConfig H (ucast bs) power ToCard True) (s4\<lparr> TotalNumberOfBytes := ucast bs, StopCondition := 0 \<rparr>))))))
                   (\<lambda>s5. programming_wait H 0 (upd (SDIO_ClearFlag H SDIO_STATIC_FLAGS) s5)))))) s)"

section \<open>State and erasing\<close>

datatype SDTransferState = SD_NO_TRANSFER | SD_TRANSFER_IN_PROGRESS

definition TXACT :: u32 where "TXACT = 0x1000"
definition RXACT :: u32 where "RXACT = 0x2000"
definition SD_CCCC_ERASE :: u32 where "SD_CCCC_ERASE = 0x20"
definition SD_ERASE_GRP_START :: u8 where "SD_ERASE_GRP_START = 32"
definition SD_ERASE_GRP_END :: u8 where "SD_ERASE_GRP_END = 33"
definition SDIO_ERASE :: u8 where "SDIO_ERASE = 38"

definition SD_PowerOFF :: "'c sdio \<Rightarrow> 'c sd_op" where
  "SD_PowerOFF H s = Some (SD_OK, upd (sdio_setup H (SetPowerState SDIO_PowerState_OFF)) s)"

definition SD_GetTransferState :: "'c sdio \<Rightarrow> 'c sdcard \<Rightarrow> SDTransferState \<times> 'c sdcard" where
  "SD_GetTransferState H s =
     (let (st, c) = STA H (hw s) in (if st AND (TXACT OR RXACT) \<noteq> 0 then SD_TRANSFER_IN_PROGRESS else SD_NO_TRANSFER, s\<lparr> hw := c \<rparr>))"

definition SD_SendStatus :: "'c sdio \<Rightarrow> 'c sdcard \<Rightarrow> (SD_Error \<times> u32 option \<times> 'c sdcard) option" where
  "SD_SendStatus H s =
     do { (e, s1) \<leftarrow> command1 H (push_bit 16 (RCA s)) SEND_STATUS s;
          Some (e, if e = SD_OK then Some (SDIO_GetResponse H 1 (hw s1)) else None, s1) }"

text \<open>The delay of \<^verbatim>\<open>SD_Erase\<close> is a loop that does nothing.\<close>

definition SD_Erase :: "'c sdio \<Rightarrow> u32 \<Rightarrow> u32 \<Rightarrow> 'c sd_op" where
  "SD_Erase H startaddr endaddr s =
     (if drop_bit 20 (CSD_Tab s ! 1) AND SD_CCCC_ERASE = 0 then Some (SD_REQUEST_NOT_APPLICABLE, s)
      else if SDIO_GetResponse H 1 (hw s) AND SD_CARD_LOCKED \<noteq> 0 then Some (SD_LOCK_UNLOCK_FAILED, s)
      else let hc = (CardType s = SDIO_HIGH_CAPACITY_SD_CARD);
               first = (if hc then startaddr div 512 else startaddr); last = (if hc then endaddr div 512 else endaddr)
           in sd_then (if is_sd (CardType s) then sd_then (command1 H first SD_ERASE_GRP_START s) (command1 H last SD_ERASE_GRP_END) else Some (SD_OK, s))
                (\<lambda>s1. sd_then (command1 H 0 SDIO_ERASE s1) (programming_wait H 0)))"

section \<open>What the card says about itself\<close>

text \<open>Byte \<open>k\<close> of the four words of a register of the card, the first word having the highest bits.\<close>

definition tab_byte :: "u32 list \<Rightarrow> nat \<Rightarrow> u8" where
  "tab_byte t k = (let j = 8 * (3 - k mod 4) in ucast (drop_bit j (t ! (k div 4) AND push_bit j 0xFF)))"

text \<open>The common fields, up to the size of the device.\<close>

definition csd_head :: "u32 list \<Rightarrow> SD_CSD \<Rightarrow> SD_CSD" where
  "csd_head t d = d\<lparr>
     CSDStruct := drop_bit 6 (tab_byte t 0 AND 0xC0), SysSpecVersion := drop_bit 2 (tab_byte t 0 AND 0x3C), csd_Reserved1 := tab_byte t 0 AND 0x03,
     TAAC := tab_byte t 1, NSAC := tab_byte t 2, MaxBusClkFrec := tab_byte t 3,
     CardComdClasses := push_bit 4 (ucast (tab_byte t 4)) OR ucast (drop_bit 4 (tab_byte t 5 AND 0xF0)),
     RdBlockLen := tab_byte t 5 AND 0x0F,
     PartBlockRead := drop_bit 7 (tab_byte t 6 AND 0x80), WrBlockMisalign := drop_bit 6 (tab_byte t 6 AND 0x40),
     RdBlockMisalign := drop_bit 5 (tab_byte t 6 AND 0x20), DSRImpl := drop_bit 4 (tab_byte t 6 AND 0x10), csd_Reserved2 := 0 \<rparr>"

definition csd_std :: "u32 list \<Rightarrow> SD_CSD \<Rightarrow> SD_CSD" where
  "csd_std t d = d\<lparr>
     DeviceSize := push_bit 10 (ucast (tab_byte t 6 AND 0x03)) OR push_bit 2 (ucast (tab_byte t 7)) OR ucast (drop_bit 6 (tab_byte t 8 AND 0xC0)),
     MaxRdCurrentVDDMin := drop_bit 3 (tab_byte t 8 AND 0x38), MaxRdCurrentVDDMax := tab_byte t 8 AND 0x07,
     MaxWrCurrentVDDMin := drop_bit 5 (tab_byte t 9 AND 0xE0), MaxWrCurrentVDDMax := drop_bit 2 (tab_byte t 9 AND 0x1C),
     DeviceSizeMul := push_bit 1 (tab_byte t 9 AND 0x03) OR drop_bit 7 (tab_byte t 10 AND 0x80) \<rparr>"

definition csd_high :: "u32 list \<Rightarrow> SD_CSD \<Rightarrow> SD_CSD" where
  "csd_high t d = d\<lparr>
     DeviceSize := push_bit 16 (ucast (tab_byte t 7 AND 0x3F)) OR push_bit 8 (ucast (tab_byte t 8)) OR ucast (tab_byte t 9) \<rparr>"

text \<open>The rest; \<open>tmp\<close> is the byte that was read last.\<close>

definition csd_tail :: "u32 list \<Rightarrow> u8 \<Rightarrow> SD_CSD \<Rightarrow> SD_CSD" where
  "csd_tail t tmp d = d\<lparr>
     EraseGrSize := drop_bit 6 (tmp AND 0x40), EraseGrMul := push_bit 1 (tmp AND 0x3F) OR drop_bit 7 (tab_byte t 11 AND 0x80),
     WrProtectGrSize := tab_byte t 11 AND 0x7F,
     WrProtectGrEnable := drop_bit 7 (tab_byte t 12 AND 0x80), ManDeflECC := drop_bit 5 (tab_byte t 12 AND 0x60),
     WrSpeedFact := drop_bit 2 (tab_byte t 12 AND 0x1C),
     MaxWrBlockLen := push_bit 2 (tab_byte t 12 AND 0x03) OR drop_bit 6 (tab_byte t 13 AND 0xC0),
     WriteBlockPaPartial := drop_bit 5 (tab_byte t 13 AND 0x20), csd_Reserved3 := 0, ContentProtectAppli := tab_byte t 13 AND 0x01,
     FileFormatGrouop := drop_bit 7 (tab_byte t 14 AND 0x80), CopyFlag := drop_bit 6 (tab_byte t 14 AND 0x40),
     PermWrProtect := drop_bit 5 (tab_byte t 14 AND 0x20), TempWrProtect := drop_bit 4 (tab_byte t 14 AND 0x10),
     FileFormat := drop_bit 2 (tab_byte t 14 AND 0x0C), ECC := tab_byte t 14 AND 0x03,
     CSD_CRC := drop_bit 1 (tab_byte t 15 AND 0xFE), csd_Reserved4 := 1 \<rparr>"

definition cid_fields :: "u32 list \<Rightarrow> SD_CID \<Rightarrow> SD_CID" where
  "cid_fields t d = d\<lparr>
     ManufacturerID := tab_byte t 0, OEM_AppliID := push_bit 8 (ucast (tab_byte t 1)) OR ucast (tab_byte t 2),
     ProdName1 := push_bit 24 (ucast (tab_byte t 3)) OR push_bit 16 (ucast (tab_byte t 4)) OR push_bit 8 (ucast (tab_byte t 5)) OR ucast (tab_byte t 6),
     ProdName2 := tab_byte t 7, ProdRev := tab_byte t 8,
     ProdSN := push_bit 24 (ucast (tab_byte t 9)) OR push_bit 16 (ucast (tab_byte t 10)) OR push_bit 8 (ucast (tab_byte t 11)) OR ucast (tab_byte t 12),
     cid_Reserved1 := cid_Reserved1 d OR drop_bit 4 (tab_byte t 13 AND 0xF0),
     ManufactDate := push_bit 8 (ucast (tab_byte t 13 AND 0x0F)) OR ucast (tab_byte t 14),
     CID_CRC := drop_bit 1 (tab_byte t 15 AND 0xFE), cid_Reserved2 := 1 \<rparr>"

text \<open>\<open>ci\<close> is what the structure holds before, which for the caller's automatic variable is anything; a card that is not an SD
  card leaves the capacity so. The function never fails.\<close>

definition SD_GetCardInfo :: "'c sdcard \<Rightarrow> SD_CardInfo \<Rightarrow> SD_CardInfo" where
  "SD_GetCardInfo s ci =
     (let t = CSD_Tab s; d = csd_head t (SD_csd ci);
          std = (CardType s = SDIO_STD_CAPACITY_SD_CARD_V1_1 \<or> CardType s = SDIO_STD_CAPACITY_SD_CARD_V2_0);
          high = (CardType s = SDIO_HIGH_CAPACITY_SD_CARD);
          d1 = (if std then csd_std t d else if high then csd_high t d else d);
          blk = (if std then push_bit (unat (RdBlockLen d1)) 1 else if high then 512 else CardBlockSize ci);
          cap = (if std then (DeviceSize d1 + 1) * push_bit (unat (DeviceSizeMul d1) + 2) 1 * blk
                 else if high then (DeviceSize d1 + 1) * 512 * 1024 else CardCapacity ci);
          tmp = tab_byte t (if std \<or> high then 10 else 6)
      in \<lparr> SD_csd = csd_tail t tmp d1, SD_cid = cid_fields (CID_Tab s) (SD_cid ci), CardCapacity = cap, CardBlockSize = blk,
           info_RCA = ucast (RCA s), info_CardType = ucast (CardType s) \<rparr>)"

end
