(* ===== verification/Sd_Info.thy ===== *)
theory Sd_Info
  imports Sd_Card
begin

text \<open>
  What \<^verbatim>\<open>SD_GetCardInfo\<close> reads from the card's registers: the fields of the 128-bit CSD at the positions of the card's specification,
  and the capacity.
\<close>

definition reg128 :: "u32 list \<Rightarrow> 128 word" where
  "reg128 t = push_bit 96 (ucast (t ! 0)) OR push_bit 64 (ucast (t ! 1)) OR push_bit 32 (ucast (t ! 2)) OR ucast (t ! 3)"

definition reg_field :: "nat \<Rightarrow> nat \<Rightarrow> 128 word \<Rightarrow> nat" where
  "reg_field hi lo w = unat (take_bit (hi - lo + 1) (drop_bit lo w))"

lemma out_of_word [simp]: "32 \<le> n \<Longrightarrow> \<not> bit w n" for w :: u32
  using bit_imp_le_length [of w n] by auto

lemma out_of_byte [simp]: "8 \<le> n \<Longrightarrow> \<not> bit w n" for w :: u8
  using bit_imp_le_length [of w n] by auto

lemma tab_byte_eq: "tab_byte t k = ucast (drop_bit (8 * (3 - k mod 4)) (t ! (k div 4)))"
proof -
  have "k mod 4 < 4" by simp
  then consider "k mod 4 = 0" | "k mod 4 = 1" | "k mod 4 = 2" | "k mod 4 = 3" by linarith
  then have "drop_bit (8 * (3 - k mod 4)) (push_bit (8 * (3 - k mod 4)) 0xFF) = (0xFF :: u32)" by cases simp_all
  then have "tab_byte t k = ucast (take_bit 8 (drop_bit (8 * (3 - k mod 4)) (t ! (k div 4))))"
    by (simp add: tab_byte_def Let_def take_bit_eq_mask mask_eq_exp_minus_1)
  then show ?thesis by (simp, intro bit_eqI) (auto simp: bit_simps)
qed

lemma bit_tab_byte: "bit (tab_byte t k) n \<longleftrightarrow> n < 8 \<and> bit (t ! (k div 4)) (8 * (3 - k mod 4) + n)"
  by (auto simp: tab_byte_eq bit_simps)

lemma low_bits: "w AND 0x03 = take_bit 2 w" "w AND 0x0F = take_bit 4 w" "w AND 0x3F = take_bit 6 w" for w :: u8
  by (simp_all add: take_bit_eq_mask mask_eq_exp_minus_1)

lemma high_bits: "drop_bit 6 (w AND 0xC0) = drop_bit 6 w" "drop_bit 7 (w AND 0x80) = drop_bit 7 w" for w :: u8
proof -
  have "drop_bit 6 (w AND 0xC0) = take_bit 2 (drop_bit 6 w)" "drop_bit 7 (w AND 0x80) = take_bit (Suc 0) (drop_bit 7 w)"
    by (simp_all add: take_bit_eq_mask mask_eq_exp_minus_1)
  moreover have "take_bit 2 (drop_bit 6 w) = drop_bit 6 w"
    by (rule bit_eqI) (auto simp: bit_simps dest: bit_imp_le_length)
  moreover have "take_bit (Suc 0) (drop_bit 7 w) = drop_bit 7 w" 
    by (rule bit_eqI) (auto simp: bit_simps dest: bit_imp_le_length simp del: take_bit_Suc_0)
  ultimately show "drop_bit 6 (w AND 0xC0) = drop_bit 6 w" "drop_bit 7 (w AND 0x80) = drop_bit 7 w" by simp_all
qed

lemma reg128_words:
  "i < 32 \<Longrightarrow> bit (reg128 t) (32 + i) \<longleftrightarrow> bit (t ! 2) i"
  "i < 32 \<Longrightarrow> bit (reg128 t) (64 + i) \<longleftrightarrow> bit (t ! 1) i"
  by (auto simp: reg128_def bit_simps)

lemma field_bit: "bit (ucast (take_bit m (drop_bit lo (reg128 t))) :: 'a::len word) n \<longleftrightarrow> n < LENGTH('a) \<and> n < m \<and> bit (reg128 t) (lo + n)"
  by (auto simp: bit_simps dest: bit_imp_le_length)

lemma RdBlockLen_bits: "RdBlockLen (csd_head t d) = ucast (take_bit 4 (drop_bit 80 (reg128 t)))"
proof (rule bit_eqI)
  fix n
  have "bit (RdBlockLen (csd_head t d)) n \<longleftrightarrow> n < 4 \<and> bit (t ! 1) (16 + n)"
    by (auto simp: csd_head_def low_bits bit_take_bit_iff bit_tab_byte)
  then show "bit (RdBlockLen (csd_head t d)) n = bit (ucast (take_bit 4 (drop_bit 80 (reg128 t))) :: u8) n"
    using reg128_words(2) [of "16 + n" t] by (auto simp: field_bit)
qed

lemma DeviceSize_bits: "DeviceSize (csd_std t d) = ucast (take_bit 12 (drop_bit 62 (reg128 t)))"
proof (rule bit_eqI)
  fix n
  have l: "bit (DeviceSize (csd_std t d)) n \<longleftrightarrow> 10 \<le> n \<and> n < 12 \<and> bit (t ! 1) (8 + (n - 10)) \<or> 2 \<le> n \<and> n < 10 \<and> bit (t ! 1) (n - 2) \<or>
      n < 2 \<and> bit (t ! 2) (30 + n)"
    by (auto simp: csd_std_def low_bits high_bits bit_or_iff bit_push_bit_iff bit_unsigned_iff bit_take_bit_iff bit_drop_bit_eq bit_tab_byte)
  have r: "bit (ucast (take_bit 12 (drop_bit 62 (reg128 t))) :: u32) n \<longleftrightarrow> n < 12 \<and> bit (reg128 t) (62 + n)" by (auto simp: field_bit)
  show "bit (DeviceSize (csd_std t d)) n = bit (ucast (take_bit 12 (drop_bit 62 (reg128 t))) :: u32) n"
  proof (cases "n < 2")
    case True
    then show ?thesis using reg128_words(1) [of "30 + n" t] unfolding l r by simp
  next
    case False
    then have "64 + (n - 2) = 62 + n" "8 + (n - 10) = n - 2 \<or> n < 10" by auto
    then show ?thesis using reg128_words(2) [of "n - 2" t] False unfolding l r by (cases "n < 12") auto
  qed
qed

lemma DeviceSizeMul_bits: "DeviceSizeMul (csd_std t d) = ucast (take_bit 3 (drop_bit 47 (reg128 t)))"
proof (rule bit_eqI)
  fix n
  have f: "DeviceSizeMul (csd_std t d) = push_bit 1 (take_bit 2 (tab_byte t 9)) OR drop_bit 7 (tab_byte t 10)"
    unfolding csd_std_def high_bits low_bits by simp
  have l: "bit (DeviceSizeMul (csd_std t d)) n \<longleftrightarrow> 1 \<le> n \<and> n < 3 \<and> bit (t ! 2) (16 + (n - 1)) \<or> n = 0 \<and> bit (t ! 2) 15"
    unfolding f bit_or_iff bit_push_bit_iff by (auto simp: bit_take_bit_iff bit_drop_bit_eq bit_tab_byte)
  show "bit (DeviceSizeMul (csd_std t d)) n = bit (ucast (take_bit 3 (drop_bit 47 (reg128 t))) :: u8) n"
    using reg128_words(1) [of "15 + n" t] unfolding l by (cases n) (auto simp: field_bit)
qed

lemma DeviceSize_high_bits: "DeviceSize (csd_high t d) = ucast (take_bit 22 (drop_bit 48 (reg128 t)))"
proof (rule bit_eqI)
  fix n
  have l: "bit (DeviceSize (csd_high t d)) n \<longleftrightarrow> 16 \<le> n \<and> n < 22 \<and> bit (t ! 1) (n - 16) \<or> 8 \<le> n \<and> n < 16 \<and> bit (t ! 2) (24 + (n - 8)) \<or>
      n < 8 \<and> bit (t ! 2) (16 + n)"
    by (auto simp: csd_high_def low_bits high_bits bit_or_iff bit_push_bit_iff bit_unsigned_iff bit_take_bit_iff bit_tab_byte)
  have r: "bit (ucast (take_bit 22 (drop_bit 48 (reg128 t))) :: u32) n \<longleftrightarrow> n < 22 \<and> bit (reg128 t) (48 + n)" by (auto simp: field_bit)
  show "bit (DeviceSize (csd_high t d)) n = bit (ucast (take_bit 22 (drop_bit 48 (reg128 t))) :: u32) n"
  proof (cases "n < 16")
    case True
    then have "24 + (n - 8) = 16 + n \<or> n < 8" by auto
    then show ?thesis using True reg128_words(1) [of "16 + n" t] unfolding l r by auto
  next
    case False
    then have "64 + (n - 16) = 48 + n" by auto
    then show ?thesis using reg128_words(2) [of "n - 16" t] False unfolding l r by auto
  qed
qed

section \<open>The capacity\<close>

abbreviation C_SIZE :: "u32 list \<Rightarrow> nat" where "C_SIZE t \<equiv> reg_field 73 62 (reg128 t)"
abbreviation C_SIZE_MULT :: "u32 list \<Rightarrow> nat" where "C_SIZE_MULT t \<equiv> reg_field 49 47 (reg128 t)"
abbreviation READ_BL_LEN :: "u32 list \<Rightarrow> nat" where "READ_BL_LEN t \<equiv> reg_field 83 80 (reg128 t)"
abbreviation C_SIZE_2 :: "u32 list \<Rightarrow> nat" where "C_SIZE_2 t \<equiv> reg_field 69 48 (reg128 t)"

lemma unat_field: "m \<le> LENGTH('a) \<Longrightarrow> unat (ucast (take_bit m w) :: 'a::len word) = unat (take_bit m w)" for w :: "128 word"
  by (simp add: unsigned_ucast_eq unsigned_take_bit_eq min_absorb2)

lemma field_less: "reg_field hi lo w < 2 ^ (hi - lo + 1)"
  by (simp add: reg_field_def unsigned_take_bit_eq del: power_Suc)

lemma std_fields:
  "unat (DeviceSize (csd_std t d)) = C_SIZE t" "unat (DeviceSizeMul (csd_std t d)) = C_SIZE_MULT t" "unat (RdBlockLen (csd_head t d)) = READ_BL_LEN t"
  by (simp_all add: DeviceSize_bits DeviceSizeMul_bits RdBlockLen_bits unat_field reg_field_def)

lemma csd_std_RdBlockLen: "RdBlockLen (csd_std t d) = RdBlockLen d"
  by (simp add: csd_std_def)

lemma high_field: "unat (DeviceSize (csd_high t d)) = C_SIZE_2 t"
  by (simp add: DeviceSize_high_bits unat_field reg_field_def)

lemma unat_two_power: "n < 32 \<Longrightarrow> unat (2 ^ n :: u32) = 2 ^ n"
proof -
  assume "n < 32"
  then have "(2 :: nat) ^ n < 2 ^ 32" by (simp del: power_numeral)
  then have "unat (of_nat (2 ^ n) :: u32) = 2 ^ n" by (simp only: unat_of_nat) (simp add: take_bit_nat_eq_self)
  then show ?thesis by simp
qed

lemma unat_mult_exact: "unat a * unat b < 2 ^ 32 \<Longrightarrow> unat (a * b) = unat a * unat b" for a b :: u32
  by (simp add: unat_word_ariths)

text \<open>The capacity of a card of standard capacity is what its specification defines: the number of blocks that the fields
  C_SIZE and C_SIZE_MULT of the CSD register give, times the block length 2 to the READ_BL_LEN.\<close>

theorem SD_GetCardInfo_std:
  assumes "CardType s = SDIO_STD_CAPACITY_SD_CARD_V1_1 \<or> CardType s = SDIO_STD_CAPACITY_SD_CARD_V2_0"
    "(C_SIZE (CSD_Tab s) + 1) * 2 ^ (C_SIZE_MULT (CSD_Tab s) + 2) * 2 ^ READ_BL_LEN (CSD_Tab s) < 2 ^ 32"
  shows "unat (CardCapacity (SD_GetCardInfo s ci)) = (C_SIZE (CSD_Tab s) + 1) * 2 ^ (C_SIZE_MULT (CSD_Tab s) + 2) * 2 ^ READ_BL_LEN (CSD_Tab s) \<and>
    unat (CardBlockSize (SD_GetCardInfo s ci)) = 2 ^ READ_BL_LEN (CSD_Tab s)"
proof -
  let ?t = "CSD_Tab s"
  let ?n = "(of_nat (C_SIZE ?t) + 1) :: u32" and ?f = "2 ^ (C_SIZE_MULT ?t + 2) :: u32" and ?b = "2 ^ READ_BL_LEN ?t :: u32"
  note less = field_less [of 73 62 "reg128 ?t"] field_less [of 49 47 "reg128 ?t"] field_less [of 83 80 "reg128 ?t"]
  have d: "DeviceSize (csd_std ?t d) = of_nat (C_SIZE ?t)" for d by (metis std_fields(1) of_nat_unat ucast_id)
  have u: "unat ?n = C_SIZE ?t + 1" "unat ?f = 2 ^ (C_SIZE_MULT ?t + 2)" "unat ?b = 2 ^ READ_BL_LEN ?t"
    using less by (simp_all add: unat_word_ariths unat_of_nat take_bit_nat_eq_self unat_two_power del: power_add power_Suc)
  have "CardCapacity (SD_GetCardInfo s ci) = ?n * ?f * ?b" "CardBlockSize (SD_GetCardInfo s ci) = ?b"
    using assms(1) by (auto simp: SD_GetCardInfo_def Let_def std_fields d csd_std_RdBlockLen)
  moreover have "unat ?n * unat ?f < 2 ^ 32"
    using assms(2) unfolding u by (rule le_less_trans [rotated]) simp
  then have "unat (?n * ?f) = unat ?n * unat ?f" by (rule unat_mult_exact)
  moreover have "unat (?n * ?f * ?b) = unat (?n * ?f) * unat ?b" by (rule unat_mult_exact) (use assms(2) calculation(3) u in simp)
  ultimately show ?thesis using u by simp
qed

definition sample_csd :: "u32 \<Rightarrow> u32 list \<Rightarrow> nat sdcard" where
  "sample_csd ct t = \<lparr> hw = 0, CardType = ct, CSD_Tab = t, CID_Tab = [0, 0, 0, 0], RCA = 1, TransferError = SD_OK, TransferEnd = 0, NumberOfBytes = 0,
     TotalNumberOfBytes = 0, StopCondition = 0 \<rparr>"

theorem SD_GetCardInfo_std_witness:
  "\<forall>ci. unat (CardCapacity (SD_GetCardInfo (sample_csd 0 [0x002E0032, 0x5B5A83A9, 0xFFFFFF80, 0x16800091]) ci)) = 1967128576 \<and>
   unat (CardBlockSize (SD_GetCardInfo (sample_csd 0 [0x002E0032, 0x5B5A83A9, 0xFFFFFF80, 0x16800091]) ci)) = 1024"
proof -
  let ?t = "[0x002E0032, 0x5B5A83A9, 0xFFFFFF80, 0x16800091] :: u32 list"
  have "C_SIZE ?t = 3751" "C_SIZE_MULT ?t = 7" "READ_BL_LEN ?t = 10" by (simp_all add: reg_field_def reg128_def)
  then show ?thesis using SD_GetCardInfo_std [of "sample_csd 0 ?t"] by (simp add: sample_csd_def SDIO_STD_CAPACITY_SD_CARD_V1_1_def)
qed

text \<open>The capacity of a card of high capacity is counted in 32 bits: of a card of 4 GByte or more, only what is left over 4 GByte is
  reported.\<close>

theorem SD_GetCardInfo_high:
  assumes "CardType s = SDIO_HIGH_CAPACITY_SD_CARD"
  shows "unat (CardCapacity (SD_GetCardInfo s ci)) = (C_SIZE_2 (CSD_Tab s) + 1) * 2 ^ 19 mod 2 ^ 32"
proof -
  let ?t = "CSD_Tab s"
  have d: "DeviceSize (csd_high ?t d) = of_nat (C_SIZE_2 ?t)" for d by (metis high_field of_nat_unat ucast_id)
  have "CardCapacity (SD_GetCardInfo s ci) = of_nat ((C_SIZE_2 ?t + 1) * 2 ^ 19)"
    using assms by (simp add: SD_GetCardInfo_def Let_def d SDIO_HIGH_CAPACITY_SD_CARD_def SDIO_STD_CAPACITY_SD_CARD_V1_1_def SDIO_STD_CAPACITY_SD_CARD_V2_0_def)
  then show ?thesis by (simp only: unat_of_nat) (simp add: take_bit_eq_mod)
qed

theorem SD_GetCardInfo_high_witness:
  "\<forall>ci. unat (CardCapacity (SD_GetCardInfo (sample_csd 2 [0x400E0032, 0x5B590000, 0x3B377F80, 0x0A404001]) ci)) = 3653238784"
proof -
  let ?t = "[0x400E0032, 0x5B590000, 0x3B377F80, 0x0A404001] :: u32 list"
  have "C_SIZE_2 ?t = 15159" by (simp add: reg_field_def reg128_def)
  then show ?thesis using SD_GetCardInfo_high [of "sample_csd 2 ?t"] by (simp add: sample_csd_def SDIO_HIGH_CAPACITY_SD_CARD_def)
qed

end
