(* ===== verification/Part_Dos.thy ===== *)
theory Part_Dos
  imports Block_Dev "HOL-Library.Monad_Syntax"
begin

text \<open>
  Partition tables of disks and memory cards: \<^verbatim>\<open>disk/part_dos.c\<close> and \<^verbatim>\<open>disk/part.c\<close>.

  The two recursive functions see the device as \<open>rd\<close>, which gives the bytes of a sector, or None when
  \<^verbatim>\<open>block_read\<close> does not read it. A chain of extended partitions that leads back to itself is followed for ever,
  which is no result (None); so is a call of a \<^verbatim>\<open>block_read\<close> that is a null pointer. At the end come the functions of
  \<^verbatim>\<open>disk/part.c\<close> that choose the kind of partition table, as the board builds them.
\<close>

section \<open>The code\<close>

record disk_partition =
  part_start :: u32
  part_size :: u32
  part_blksz :: u32
  part_name :: string
  part_kind :: string

record dos_partition =
  boot_ind :: char
  sys_ind :: char
  start4 :: u32
  size4 :: u32

definition DOS_PART_TBL_OFFSET :: nat where "DOS_PART_TBL_OFFSET = 0x1be"
definition DOS_PART_MAGIC_OFFSET :: nat where "DOS_PART_MAGIC_OFFSET = 0x1fe"
definition DOS_PBR_FSTYPE_OFFSET :: nat where "DOS_PBR_FSTYPE_OFFSET = 0x36"
definition DOS_PBR_MEDIA_TYPE_OFFSET :: nat where "DOS_PBR_MEDIA_TYPE_OFFSET = 0x15"

definition le32_to_int :: "mem \<Rightarrow> nat \<Rightarrow> u32" where
  "le32_to_int b p =
     push_bit 24 (of_char (b (p + 3))) + push_bit 16 (of_char (b (p + 2))) + push_bit 8 (of_char (b (p + 1))) + of_char (b p)"

text \<open>Entry \<open>i\<close> of the table in a sector.\<close>

definition pt :: "mem \<Rightarrow> nat \<Rightarrow> dos_partition" where
  "pt b i = (let p = DOS_PART_TBL_OFFSET + 16 * i in
     \<lparr> boot_ind = b p, sys_ind = b (p + 4), start4 = le32_to_int b (p + 8), size4 = le32_to_int b (p + 12) \<rparr>)"

definition is_extended :: "char \<Rightarrow> bool" where
  "is_extended t \<longleftrightarrow> t = CHR 0x05 \<or> t = CHR 0x0F \<or> t = CHR 0x85"

definition print_one_part :: "dos_partition \<Rightarrow> u32 \<Rightarrow> int \<Rightarrow> string" where
  "print_one_part p ext_part_sector part_num =
     number (of_int part_num) 10 5 (-1) SIGN @ [CHR 0x09, CHR 0x09] @
     number (scast (ext_part_sector + start4 p)) 10 10 (-1) SIGN @ [CHR 0x09] @
     number (scast (size4 p)) 10 10 (-1) SIGN @ [CHR 0x09] @
     number (of_char (sys_ind p)) 16 2 (-1) SMALL @ (if is_extended (sys_ind p) then '' Extd'' else []) @ nl"

definition bad_signature :: "mem \<Rightarrow> bool" where
  "bad_signature b \<longleftrightarrow> b DOS_PART_MAGIC_OFFSET \<noteq> CHR 0x55 \<or> b (DOS_PART_MAGIC_OFFSET + 1) \<noteq> CHR 0xAA"

datatype block_type = No_Signature | DOS_PBR | DOS_MBR

definition test_block_type :: "mem \<Rightarrow> block_type" where
  "test_block_type b =
     (if bad_signature b then No_Signature
      else if mem_get b DOS_PBR_FSTYPE_OFFSET 3 = ''FAT'' then DOS_PBR else DOS_MBR)"

definition test_part_dos :: "block_dev_desc \<Rightarrow> int option" where
  "test_part_dos d =
     do { br \<leftarrow> block_read d;
          Some (case read_sector br 0 of None \<Rightarrow> -1 | Some b \<Rightarrow> if bad_signature b then -1 else 0) }"

definition hex2 :: "char \<Rightarrow> string" where "hex2 c = number (of_char c) 16 2 (-1) (ZEROPAD OR SMALL)"

definition cant_read :: "int \<Rightarrow> u32 \<Rightarrow> string" where
  "cant_read dev sector = ''** Can'' @ [CHR 0x27] @ ''t read partition table on '' @ dec dev @ '':'' @ dec (sint sector) @ '' **'' @ nl"

definition bad_mbr :: "mem \<Rightarrow> string" where
  "bad_mbr b = ''bad MBR sector signature 0x'' @ hex2 (b DOS_PART_MAGIC_OFFSET) @ hex2 (b (DOS_PART_MAGIC_OFFSET + 1)) @ nl"

text \<open>The number of the next partition after an entry.\<close>

definition next_num :: "u32 \<Rightarrow> dos_partition \<Rightarrow> int \<Rightarrow> int" where
  "next_num ext_part_sector p part_num =
     (if ext_part_sector = 0 \<or> sys_ind p \<noteq> NUL \<and> \<not> is_extended (sys_ind p) then part_num + 1 else part_num)"

fun print_parts :: "u32 \<Rightarrow> dos_partition list \<Rightarrow> int \<Rightarrow> string \<times> int" where
  "print_parts ext_part_sector [] part_num = ([], part_num)"
| "print_parts ext_part_sector (p # ps) part_num =
     (let t = (if sys_ind p \<noteq> NUL \<and> (ext_part_sector = 0 \<or> \<not> is_extended (sys_ind p))
               then print_one_part p ext_part_sector part_num else []);
          (ts, n) = print_parts ext_part_sector ps (next_num ext_part_sector p part_num)
      in (t @ ts, n))"

partial_function (option) print_partition_extended ::
  "int \<Rightarrow> u32 \<Rightarrow> (u32 \<Rightarrow> mem option) \<Rightarrow> u32 \<Rightarrow> u32 \<Rightarrow> int \<Rightarrow> string option" where
  "print_partition_extended dev lba rd ext_part_sector relative part_num =
     (case rd ext_part_sector of
        None \<Rightarrow> Some (cant_read dev ext_part_sector)
      | Some b \<Rightarrow>
          if test_block_type b = No_Signature then Some (bad_mbr b)
          else if test_block_type b = DOS_PBR
          then Some (''    1'' @ [CHR 0x09, CHR 0x09] @ ''         0'' @ [CHR 0x09] @ number (scast lba) 10 10 (-1) SIGN @ [CHR 0x09] @
                     number (of_char (b DOS_PBR_MEDIA_TYPE_OFFSET)) 16 2 (-1) SMALL @ nl)
          else let (t, n) = print_parts ext_part_sector [pt b 0, pt b 1, pt b 2, pt b 3] part_num in
               Option.bind (if is_extended (sys_ind (pt b 0))
                            then let s = start4 (pt b 0) + relative
                                 in print_partition_extended dev lba rd s (if ext_part_sector = 0 then s else relative) n
                            else Some []) (\<lambda>t0.
               Option.bind (if is_extended (sys_ind (pt b 1))
                            then let s = start4 (pt b 1) + relative
                                 in print_partition_extended dev lba rd s (if ext_part_sector = 0 then s else relative) n
                            else Some []) (\<lambda>t1.
               Option.bind (if is_extended (sys_ind (pt b 2))
                            then let s = start4 (pt b 2) + relative
                                 in print_partition_extended dev lba rd s (if ext_part_sector = 0 then s else relative) n
                            else Some []) (\<lambda>t2.
               Option.bind (if is_extended (sys_ind (pt b 3))
                            then let s = start4 (pt b 3) + relative
                                 in print_partition_extended dev lba rd s (if ext_part_sector = 0 then s else relative) n
                            else Some []) (\<lambda>t3.
               Some (t @ t0 @ t1 @ t2 @ t3))))))"

definition print_part_dos :: "block_dev_desc \<Rightarrow> string option" where
  "print_part_dos d =
     do { br \<leftarrow> block_read d;
          t \<leftarrow> print_partition_extended (dev_no d) (dev_lba d) (read_sector br) 0 0 1;
          Some (''Partition     Start Sector     Num Sectors     Type'' @ nl @ t) }"

subsection \<open>Looking a partition up\<close>

definition if_name :: "if_type \<Rightarrow> string" where
  "if_name t =
     (case t of IF_TYPE_IDE \<Rightarrow> ''hd'' | IF_TYPE_SATA \<Rightarrow> ''hd'' | IF_TYPE_ATAPI \<Rightarrow> ''hd'' | IF_TYPE_SCSI \<Rightarrow> ''sd''
      | IF_TYPE_USB \<Rightarrow> ''usbd'' | IF_TYPE_DOC \<Rightarrow> ''docd'' | _ \<Rightarrow> ''xx'')"

definition part_info :: "if_type \<Rightarrow> int \<Rightarrow> u32 \<Rightarrow> dos_partition \<Rightarrow> int \<Rightarrow> disk_partition" where
  "part_info ift dev ext_part_sector p part_num =
     \<lparr> part_start = ext_part_sector + start4 p, part_size = size4 p, part_blksz = 512,
       part_name = if_name ift @ [char_of (nat ((97 + dev) mod 256))] @ dec part_num, part_kind = ''U-Boot'' \<rparr>"

text \<open>The search in one table: the entry found, or the number after it.\<close>

fun find_part :: "u32 \<Rightarrow> dos_partition list \<Rightarrow> int \<Rightarrow> int \<Rightarrow> dos_partition option \<times> int" where
  "find_part ext_part_sector [] part_num which_part = (None, part_num)"
| "find_part ext_part_sector (p # ps) part_num which_part =
     (if of_char (boot_ind p) AND NOT 0x80 = (0 :: int) \<and> sys_ind p \<noteq> NUL \<and> part_num = which_part \<and> \<not> is_extended (sys_ind p)
      then (Some p, part_num)
      else find_part ext_part_sector ps (next_num ext_part_sector p part_num) which_part)"

partial_function (option) get_partition_info_extended ::
  "if_type \<Rightarrow> int \<Rightarrow> (u32 \<Rightarrow> mem option) \<Rightarrow> u32 \<Rightarrow> u32 \<Rightarrow> int \<Rightarrow> int \<Rightarrow> (disk_partition option \<times> string) option" where
  "get_partition_info_extended ift dev rd ext_part_sector relative part_num which_part =
     (case rd ext_part_sector of
        None \<Rightarrow> Some (None, cant_read dev ext_part_sector)
      | Some b \<Rightarrow>
          if bad_signature b then Some (None, bad_mbr b)
          else let (r, n) = find_part ext_part_sector [pt b 0, pt b 1, pt b 2, pt b 3] part_num which_part in
               if r \<noteq> None then Some (Some (part_info ift dev ext_part_sector (the r) n), [])
               else if \<not> (is_extended (sys_ind (pt b 0)) \<or> is_extended (sys_ind (pt b 1)) \<or> is_extended (sys_ind (pt b 2)) \<or>
                          is_extended (sys_ind (pt b 3))) then Some (None, [])
               else let p = (if is_extended (sys_ind (pt b 0)) then pt b 0 else if is_extended (sys_ind (pt b 1)) then pt b 1
                             else if is_extended (sys_ind (pt b 2)) then pt b 2 else pt b 3);
                        s = start4 p + relative
                    in get_partition_info_extended ift dev rd s (if ext_part_sector = 0 then s else relative) n which_part)"

definition get_partition_info_dos :: "block_dev_desc \<Rightarrow> int \<Rightarrow> (disk_partition option \<times> string) option" where
  "get_partition_info_dos d part =
     do { br \<leftarrow> block_read d; get_partition_info_extended (if_type d) (dev_no d) (read_sector br) 0 0 1 part }"

subsection \<open>The kind of partition table\<close>

definition init_part :: "block_dev_desc \<Rightarrow> block_dev_desc option" where
  "init_part d = do { r \<leftarrow> test_part_dos d; Some (if r = 0 then d\<lparr> part_type := PART_TYPE_DOS \<rparr> else d) }"

definition get_partition_info :: "block_dev_desc \<Rightarrow> int \<Rightarrow> (disk_partition option \<times> string) option" where
  "get_partition_info d part =
     (case part_type d of PART_TYPE_DOS \<Rightarrow> get_partition_info_dos d part | _ \<Rightarrow> Some (None, []))"

definition print_part_header :: "string \<Rightarrow> block_dev_desc \<Rightarrow> string" where
  "print_part_header type d =
     nl @ ''Partition Map for '' @
     (case if_type d of IF_TYPE_IDE \<Rightarrow> ''IDE'' | IF_TYPE_SATA \<Rightarrow> ''SATA'' | IF_TYPE_SCSI \<Rightarrow> ''SCSI'' | IF_TYPE_ATAPI \<Rightarrow> ''ATAPI''
      | IF_TYPE_USB \<Rightarrow> ''USB'' | IF_TYPE_DOC \<Rightarrow> ''DOC'' | _ \<Rightarrow> ''UNKNOWN'') @
     '' device '' @ dec (dev_no d) @ ''  --   Partition Type: '' @ type @ nl @ nl"

definition print_part :: "block_dev_desc \<Rightarrow> string option" where
  "print_part d =
     (case part_type d of PART_TYPE_DOS \<Rightarrow> map_option (\<lambda>t. print_part_header ''DOS'' d @ t) (print_part_dos d)
      | _ \<Rightarrow> Some (''## Unknown partition table'' @ nl))"

section \<open>Chains of logical partitions\<close>

definition usable :: "dos_partition \<Rightarrow> bool" where
  "usable p \<longleftrightarrow> boot_ind p \<in> {CHR 0x00, CHR 0x80} \<and> sys_ind p \<noteq> NUL \<and> \<not> is_extended (sys_ind p)"

text \<open>The usual layout: every extended sector describes one logical partition and links to the next one,
  relative to the start of the extended partition.\<close>

fun chain :: "(u32 \<Rightarrow> mem option) \<Rightarrow> u32 \<Rightarrow> (u32 \<times> dos_partition) list \<Rightarrow> bool" where
  "chain rd base [] = True"
| "chain rd base ((e, p) # ps) =
     (e \<noteq> 0 \<and> usable p \<and>
      (case rd e of None \<Rightarrow> False
       | Some b \<Rightarrow> test_block_type b = DOS_MBR \<and> pt b 0 = p \<and> sys_ind (pt b 2) = NUL \<and> sys_ind (pt b 3) = NUL \<and>
           (case ps of [] \<Rightarrow> sys_ind (pt b 1) = NUL
            | (e', _) # _ \<Rightarrow> is_extended (sys_ind (pt b 1)) \<and> e' = base + start4 (pt b 1))) \<and>
      chain rd base ps)"

lemma boot_ind_ok: "boot_ind p \<in> {CHR 0x00, CHR 0x80} \<Longrightarrow> of_char (boot_ind p) AND NOT 0x80 = (0 :: int)"
  by auto

lemma not_extended_NUL [simp]: "\<not> is_extended NUL"
  by (simp add: is_extended_def)

lemma good_signature: "test_block_type b = DOS_MBR \<Longrightarrow> \<not> bad_signature b"
  by (auto simp: test_block_type_def)

lemma test_block_type_MBR: "\<not> bad_signature b \<Longrightarrow> b 0x36 \<noteq> CHR ''F'' \<Longrightarrow> test_block_type b = DOS_MBR"
  by (simp add: test_block_type_def DOS_PBR_FSTYPE_OFFSET_def mem_get_Suc numeral_3_eq_3)

lemma find_logical:
  assumes "usable p" "sys_ind q = NUL \<or> is_extended (sys_ind q)" "sys_ind r = NUL" "sys_ind s = NUL" "e \<noteq> 0"
  shows "find_part e [p, q, r, s] n which = (if n = which then (Some p, n) else (None, n + 1))"
  using assms boot_ind_ok [of p] by (auto simp: usable_def next_num_def)

lemma chain_lookup:
  "chain rd base eps \<Longrightarrow> k < length eps \<Longrightarrow>
   get_partition_info_extended ift dev rd (fst (hd eps)) base n (n + int k) =
     Some (Some (part_info ift dev (fst (eps ! k)) (snd (eps ! k)) (n + int k)), [])"
proof (induction eps arbitrary: n k)
  case (Cons ep eps)
  obtain e p where ep: "ep = (e, p)" by fastforce
  obtain b where b: "rd e = Some b" "\<not> bad_signature b" "pt b 0 = p" "usable p" "e \<noteq> 0" "sys_ind (pt b 2) = NUL" "sys_ind (pt b 3) = NUL"
    using Cons.prems(1) by (auto simp: ep good_signature split: option.splits)
  have link: "sys_ind (pt b 1) = NUL \<or> is_extended (sys_ind (pt b 1))"
    using Cons.prems(1) b(1) by (auto simp: ep split: list.splits)
  note f = find_logical [OF b(4) link b(6,7,5)]
  show ?case
  proof (cases k)
    case 0
    then show ?thesis using b f [of n n] by (simp add: ep get_partition_info_extended.simps [of ift dev rd e])
  next
    case (Suc j)
    then obtain e' q eps' where eps: "eps = (e', q) # eps'" using Cons.prems(2) by (cases eps) auto
    have l: "is_extended (sys_ind (pt b 1))" "e' = base + start4 (pt b 1)" "chain rd base eps"
      using Cons.prems(1) b(1) by (auto simp: ep eps)
    have "\<not> is_extended (sys_ind p)" using b(4) by (simp add: usable_def)
    then have "get_partition_info_extended ift dev rd e base n (n + int k) =
        get_partition_info_extended ift dev rd e' base (n + 1) (n + 1 + int j)"
      using b l(1,2) f [of n "n + int k"] Suc
      by (subst get_partition_info_extended.simps) (simp add: Let_def add.commute add.left_commute)
    then show ?thesis using Cons.IH [OF l(3), of j "n + 1"] Cons.prems(2) Suc by (simp add: ep eps add.assoc)
  qed
qed simp

lemma print_logical:
  assumes "usable p" "sys_ind q = NUL \<or> is_extended (sys_ind q)" "sys_ind r = NUL" "sys_ind s = NUL" "e \<noteq> 0"
  shows "print_parts e [p, q, r, s] n = (print_one_part p e n, n + 1)"
  using assms by (auto simp: usable_def next_num_def)

lemma chain_print:
  "chain rd base eps \<Longrightarrow> eps \<noteq> [] \<Longrightarrow>
   print_partition_extended dev lba rd (fst (hd eps)) base n =
     Some (concat (map (\<lambda>k. print_one_part (snd (eps ! k)) (fst (eps ! k)) (n + int k)) [0..<length eps]))"
proof (induction eps arbitrary: n)
  case (Cons ep eps)
  obtain e p where ep: "ep = (e, p)" by fastforce
  obtain b where b: "rd e = Some b" "test_block_type b = DOS_MBR" "pt b 0 = p" "usable p" "e \<noteq> 0" "sys_ind (pt b 2) = NUL" "sys_ind (pt b 3) = NUL"
    using Cons.prems(1) by (auto simp: ep split: option.splits)
  have link: "sys_ind (pt b 1) = NUL \<or> is_extended (sys_ind (pt b 1))"
    using Cons.prems(1) b(1) by (auto simp: ep split: list.splits)
  note f = print_logical [OF b(4) link b(6,7,5)]
  have p: "\<not> is_extended (sys_ind p)" using b(4) by (simp add: usable_def)
  have m: "map (\<lambda>k. print_one_part (snd ((ep # eps) ! k)) (fst ((ep # eps) ! k)) (n + int k)) [0..<length (ep # eps)] =
      print_one_part p e n # map (\<lambda>k. print_one_part (snd (eps ! k)) (fst (eps ! k)) (n + 1 + int k)) [0..<length eps]"
    by (simp add: ep upt_conv_Cons map_Suc_upt [symmetric] del: upt_Suc) (simp add: algebra_simps)
  show ?case
  proof (cases eps)
    case Nil
    then have "sys_ind (pt b 1) = NUL" using Cons.prems(1) b(1) by (simp add: ep)
    then show ?thesis using b p f [of n] Nil by (simp add: ep print_partition_extended.simps [of dev lba rd e] del: print_parts.simps)
  next
    case (Cons ep' eps')
    obtain e' q where ep': "ep' = (e', q)" by fastforce
    have l: "is_extended (sys_ind (pt b 1))" "e' = base + start4 (pt b 1)" "chain rd base eps"
      using Cons.prems(1) b(1) by (auto simp: ep ep' Cons)
    have "print_partition_extended dev lba rd e base n =
        map_option (\<lambda>t. print_one_part p e n @ t) (print_partition_extended dev lba rd e' base (n + 1))"
      using b l(1,2) p f [of n]
      by (subst print_partition_extended.simps) (auto simp: Let_def add.commute option.map_comp split: bind_split simp del: print_parts.simps)
    moreover have "fst (hd eps) = e'" "eps \<noteq> []" by (simp_all add: Cons ep')
    ultimately show ?thesis unfolding m using Cons.IH [OF l(3), of "n + 1"] by (simp add: ep del: upt_Suc)
  qed
qed simp

lemma find_primary_late: "which > 4 \<Longrightarrow> find_part 0 [p, q, r, s] 1 which = (None, 5)"
  by (simp add: next_num_def)

lemma find_primary:
  assumes "i < 4" "usable ([p, q, r, s] ! i)"
  shows "find_part 0 [p, q, r, s] 1 (int i + 1) = (Some ([p, q, r, s] ! i), int i + 1)"
proof -
  have "i = 0 \<or> i = 1 \<or> i = 2 \<or> i = 3" using assms(1) by auto
  then show ?thesis
    using assms(2) boot_ind_ok [of p] boot_ind_ok [of q] boot_ind_ok [of r] boot_ind_ok [of s]
    by (elim disjE) (auto simp: usable_def next_num_def)
qed

section \<open>Properties\<close>

text \<open>A card with one primary partition and an extended one with two logical partitions.\<close>

definition table :: "(nat \<times> char) list \<Rightarrow> mem" where
  "table xs = fold (\<lambda>(a, c) m. m(a := c)) xs (\<lambda>_. NUL)"

definition sample_card :: "u32 \<Rightarrow> mem" where
  "sample_card e =
     (if e = 0 then table [(0x1c2, CHR 0x0C), (0x1c6, CHR 0x3F), (0x1ca, CHR 0x10), (0x1d2, CHR 0x05), (0x1d6, CHR 0x60), (0x1fe, CHR 0x55), (0x1ff, CHR 0xAA)]
      else if e = 0x60 then table [(0x1c2, CHR 0x0C), (0x1c6, CHR 0x01), (0x1ca, CHR 0x08), (0x1d2, CHR 0x05), (0x1d6, CHR 0x20), (0x1fe, CHR 0x55), (0x1ff, CHR 0xAA)]
      else if e = 0x80 then table [(0x1c2, CHR 0x0C), (0x1c6, CHR 0x02), (0x1ca, CHR 0x09), (0x1fe, CHR 0x55), (0x1ff, CHR 0xAA)]
      else table [(0x1c2, CHR 0x05), (0x1fe, CHR 0x55), (0x1ff, CHR 0xAA)])"

definition sample_read :: block_reader where "sample_read e n = (n, mem_get (sample_card e) 0 512)"

definition sample_dev :: block_dev_desc where
  "sample_dev = \<lparr> if_type = IF_TYPE_MMC, dev_no = 0, part_type = PART_TYPE_DOS, target = 0, lun = 0, dev_type = 0, removable = False,
     dev_lba = 0x1000, blk_size = 512, vendor = [], product = [], revision = [], block_read = Some sample_read \<rparr>"

lemmas sample_simps = table_def bad_signature_def usable_def pt_def is_extended_def le32_to_int_def DOS_PART_TBL_OFFSET_def
  DOS_PART_MAGIC_OFFSET_def mem_put_def sample_card_def

lemma sample_sector: "read_sector sample_read e = Some (mem_put (\<lambda>_. NUL) 0 (mem_get (sample_card e) 0 512))"
  by (simp add: read_sector_def sample_read_def)

text \<open>The primary partitions 1 to 4 are the entries of the first sector.\<close>

theorem get_primary_partition:
  assumes "part_type d = PART_TYPE_DOS" "block_read d = Some br" "read_sector br 0 = Some b" "\<not> bad_signature b" "i < 4"
    "usable (pt b i)"
  shows "get_partition_info d (int i + 1) = Some (Some (part_info (if_type d) (dev_no d) 0 (pt b i) (int i + 1)), [])"
proof -
  have e: "[pt b 0, pt b 1, pt b 2, pt b 3] ! i = pt b i" using assms(5) by (auto simp: less_Suc_eq eval_nat_numeral)
  show ?thesis
    using find_primary [OF assms(5), of "pt b 0" "pt b 1" "pt b 2" "pt b 3"] assms e
    by (simp add: get_partition_info_def get_partition_info_dos_def get_partition_info_extended.simps)
qed

theorem get_primary_partition_witness:
  "\<exists>info. get_partition_info sample_dev 1 = Some (Some info, []) \<and> part_start info = 0x3F \<and> part_size info = 0x10"
proof -
  obtain b where b: "read_sector sample_read 0 = Some b" "\<not> bad_signature b" "usable (pt b 0)" "start4 (pt b 0) = 0x3F"
      "size4 (pt b 0) = 0x10"
    by (simp add: sample_sector sample_simps)
  then show ?thesis using get_primary_partition [of sample_dev sample_read b 0] by (simp add: sample_dev_def part_info_def)
qed

text \<open>C12: The partitions from 5 on are the logical partitions in the chain of extended sectors, in the order of the
  chain, each at its place relative to its own sector; the search ends, and the list printed by \<^verbatim>\<open>part\<close> for the chain
  gives each partition the number under which it is found.\<close>

theorem get_logical_partition:
  assumes "part_type d = PART_TYPE_DOS" "block_read d = Some br" "read_sector br 0 = Some b" "\<not> bad_signature b" "x < 4"
    "is_extended (sys_ind (pt b x))" "\<forall>i < x. \<not> is_extended (sys_ind (pt b i))"
    "chain (read_sector br) (start4 (pt b x)) eps" "k < length eps" "fst (hd eps) = start4 (pt b x)"
  shows "get_partition_info d (5 + int k) =
      Some (Some (part_info (if_type d) (dev_no d) (fst (eps ! k)) (snd (eps ! k)) (5 + int k)), []) \<and>
    print_partition_extended (dev_no d) (dev_lba d) (read_sector br) (start4 (pt b x)) (start4 (pt b x)) 5 =
      Some (concat (map (\<lambda>k. print_one_part (snd (eps ! k)) (fst (eps ! k)) (5 + int k)) [0..<length eps]))"
proof -
  have "x = 0 \<or> x = 1 \<or> x = 2 \<or> x = 3" using assms(5) by auto
  then have "get_partition_info d (5 + int k) =
      get_partition_info_extended (if_type d) (dev_no d) (read_sector br) (start4 (pt b x)) (start4 (pt b x)) 5 (5 + int k)"
    using assms(1-4,6,7) find_primary_late [of "5 + int k" "pt b 0" "pt b 1" "pt b 2" "pt b 3"]
    by (elim disjE) (simp_all add: Let_def get_partition_info_def get_partition_info_dos_def get_partition_info_extended.simps [of _ _ _ 0 0])
  then have "get_partition_info d (5 + int k) =
      Some (Some (part_info (if_type d) (dev_no d) (fst (eps ! k)) (snd (eps ! k)) (5 + int k)), [])"
    using chain_lookup [OF assms(8,9), of "if_type d" "dev_no d" 5] assms(10) by simp
  moreover have "print_partition_extended (dev_no d) (dev_lba d) (read_sector br) (start4 (pt b x)) (start4 (pt b x)) 5 =
      Some (concat (map (\<lambda>k. print_one_part (snd (eps ! k)) (fst (eps ! k)) (5 + int k)) [0..<length eps]))"
    using chain_print [OF assms(8), of "dev_no d" "dev_lba d" 5] assms(9,10) by (cases eps) auto
  ultimately show ?thesis ..
qed

theorem get_logical_partition_witness:
  "\<exists>info. get_partition_info sample_dev 6 = Some (Some info, []) \<and> part_start info = 0x82 \<and> part_size info = 9"
proof -
  obtain b b0 b1 where b: "read_sector sample_read 0 = Some b" "read_sector sample_read 0x60 = Some b0"
      "read_sector sample_read 0x80 = Some b1" by (simp add: sample_sector)
  then have c: "\<not> bad_signature b" "is_extended (sys_ind (pt b 1))" "\<not> is_extended (sys_ind (pt b 0))" "start4 (pt b 1) = 0x60"
    by (auto simp: sample_sector sample_simps)
  have d: "chain (read_sector sample_read) 0x60 [(0x60, pt b0 0), (0x80, pt b1 0)]"
    using b by (auto simp: sample_sector sample_simps intro!: test_block_type_MBR)
  have e: "start4 (pt b1 0) = 2" "size4 (pt b1 0) = 9" using b by (auto simp: sample_sector sample_simps)
  show ?thesis
    using get_logical_partition [of sample_dev sample_read b 1 "[(0x60, pt b0 0), (0x80, pt b1 0)]" 1] b c d e
    by (simp add: part_info_def sample_dev_def)
qed

text \<open>An extended sector that links to itself is followed for ever, whatever partition is looked for: no bound on the
  depth and no check of the sectors already seen ends the recursion.\<close>

theorem self_link_diverges:
  assumes "rd e = Some b" "\<not> bad_signature b" "e \<noteq> 0" "is_extended (sys_ind (pt b 0))" "e = start4 (pt b 0) + base"
    "\<forall>i \<in> {1, 2, 3}. sys_ind (pt b i) = NUL"
  shows "get_partition_info_extended ift dev rd e base n which = None"
proof -
  have False if eq: "get_partition_info_extended ift dev rd e base n which = Some y" for y
  proof (rule get_partition_info_extended.raw_induct
      [where P = "\<lambda>ift' dev' rd' e' base' n' which' y. rd' = rd \<and> e' = e \<and> base' = base \<longrightarrow> False", OF _ eq, THEN mp], goal_cases)
    case (1 f ift' dev' rd' e' base' n' which' y')
    show ?case
    proof
      assume a: "rd' = rd \<and> e' = e \<and> base' = base"
      have "f ift' dev' rd e base n' which' = Some y'" using 1(2) assms a by (simp add: next_num_def Let_def)
      then show False using 1(1) [of ift' dev' rd e base] by blast
    qed
  qed simp
  then show ?thesis by (cases "get_partition_info_extended ift dev rd e base n which") auto
qed

theorem self_link_diverges_witness:
  "get_partition_info_extended IF_TYPE_MMC 0 (read_sector sample_read) 7 7 5 6 = None"
proof -
  obtain b where b: "read_sector sample_read 7 = Some b" by (simp add: sample_sector)
  then have "\<not> bad_signature b" "is_extended (sys_ind (pt b 0))" "7 = start4 (pt b 0) + 7" "\<forall>i \<in> {1, 2, 3}. sys_ind (pt b i) = NUL"
    by (auto simp: sample_sector sample_simps)
  then show ?thesis using self_link_diverges [of "read_sector sample_read" 7 b 7] b by simp
qed

end
