(* ===== verification/Sd_Bus.thy ===== *)
theory Sd_Bus
  imports Sd_Card
begin

text \<open>
  What the driver of the card controller does on a card that is selected.

  The locale \<open>sd_bus\<close> is what the driver relies on: the state diagram of the card and the data path of the controller in transfer
  state. \<open>ready k c\<close> says that the card \<open>k\<close> waits for commands, \<open>going x k m d e t c\<close> that a transfer is under way which ends with
  the card \<open>k\<close> and the memory \<open>m\<close>: the channel is done when \<open>d\<close>, the end was signalled when \<open>e\<close>, and \<open>t\<close> bounds how long it goes
  on. \<open>hc\<close> says that the card is one of high capacity, whose blocks are numbered, \<open>rca\<close> is its address and \<open>ram\<close> the memory.
\<close>

section \<open>Cards\<close>

record sd_card =
  cbytes :: mem
  cblocks :: nat

definition accepted :: "'c sdio \<Rightarrow> u32 \<Rightarrow> u8 \<Rightarrow> 'c \<Rightarrow> 'c \<Rightarrow> bool" where
  "accepted H arg cmd c c' \<longleftrightarrow>
     (\<exists>st c1. resp_wait H (SDIO_SendCommand H arg cmd Response_Short c) = Some (st, c1) \<and> st AND CTIMEOUT = 0 \<and> st AND CCRCFAIL = 0 \<and>
        SDIO_GetCommandResponse H c1 = cmd \<and> c' = SDIO_ClearFlag H SDIO_STATIC_FLAGS c1 \<and> r1_error (SDIO_GetResponse H 1 c') = SD_OK)"

lemma command1_accepted: "accepted H arg cmd (hw s) c' \<Longrightarrow> command1 H arg cmd s = Some (SD_OK, s\<lparr> hw := c' \<rparr>)"
  by (auto simp: accepted_def command1_def CmdResp1Error_def upd_def)

lemma sd_then_OK [simp]: "sd_then (Some (SD_OK, s)) k = k s"
  by (simp add: sd_then_def)

lemma sd_then_error [simp]: "e \<noteq> SD_OK \<Longrightarrow> sd_then (Some (e, s)) k = Some (e, s)"
  by (simp add: sd_then_def)

lemma upd_fields [simp]: "hw (upd f s) = f (hw s)" "CardType (upd f s) = CardType s" "RCA (upd f s) = RCA s"
  "TransferError (upd f s) = TransferError s" "TransferEnd (upd f s) = TransferEnd s" "StopCondition (upd f s) = StopCondition s"
  by (simp_all add: upd_def)

lemma low_nibble: "ucast (ucast (w AND 0xF) :: u8) = (w AND 0xF :: u32)"
proof -
  have "ucast (ucast (take_bit 4 w) :: u8) = take_bit 4 w" by (rule bit_eqI) (auto simp: bit_simps)
  then show ?thesis by (simp add: take_bit_eq_mask mask_eq_exp_minus_1)
qed

lemma power_512: "convert_from_bytes_to_power_of_two 512 0 = Some 9"
  by (simp add: convert_from_bytes_to_power_of_two.simps)

text \<open>The channel moves words: it leaves out the two low bits of an address.\<close>

definition dma_buffer :: "u32 \<Rightarrow> bool" where "dma_buffer buf \<longleftrightarrow> buf \<noteq> 0 \<and> 4 dvd unat buf"

lemma dma_buffer_neq_0: "dma_buffer buf \<Longrightarrow> buf \<noteq> 0"
  by (simp add: dma_buffer_def)

datatype xfer = Single | Multi | Writing

locale sd_bus =
  fixes H :: "'c sdio" and hc :: bool and rca :: u32 and ram :: "'c \<Rightarrow> mem"
    and ready :: "sd_card \<Rightarrow> 'c \<Rightarrow> bool"
    and started :: "xfer \<Rightarrow> sd_card \<Rightarrow> mem \<Rightarrow> nat \<Rightarrow> 'c \<Rightarrow> bool"
    and going :: "xfer \<Rightarrow> sd_card \<Rightarrow> mem \<Rightarrow> bool \<Rightarrow> bool \<Rightarrow> nat \<Rightarrow> 'c \<Rightarrow> bool"
    and programming :: "sd_card \<Rightarrow> nat \<Rightarrow> 'c \<Rightarrow> bool"
    and dead :: "'c \<Rightarrow> bool"
  assumes unlocked: "ready k c \<Longrightarrow> SDIO_GetResponse H 1 c AND SD_CARD_LOCKED = 0"
    and no_data: "ready k c \<Longrightarrow> c' = SDIO_DMACmd H False (SDIO_DataConfig H 0 0 ToCard False c) \<Longrightarrow> ready k c' \<and> ram c' = ram c"
    and blocklen: "ready k c \<Longrightarrow> \<exists>c'. accepted H 512 SET_BLOCKLEN c c' \<and> ready k c' \<and> ram c' = ram c"
    and read_one: "ready k c \<Longrightarrow> a < 2 ^ 23 \<Longrightarrow> a < cblocks k \<Longrightarrow> arg = of_nat (if hc then a else 512 * a) \<Longrightarrow> dma_buffer buf \<Longrightarrow>
      \<exists>c' t. accepted H arg READ_SINGLE_BLOCK (SDIO_DataConfig H 512 0x90 ToSDIO True c) c' \<and>
        started Single k (mem_put (ram c) (unat buf) (mem_get (cbytes k) (512 * a) 512)) t
          (DMA_channel H ToSDIO buf 128 (SDIO_DMACmd H True (SDIO_ITConfig H rx_mask True c')))"
    and read_many: "ready k c \<Longrightarrow> a < 2 ^ 23 \<Longrightarrow> a + n \<le> cblocks k \<Longrightarrow> arg = of_nat (if hc then a else 512 * a) \<Longrightarrow> 1 < n \<Longrightarrow> n < 512 \<Longrightarrow>
      dma_buffer buf \<Longrightarrow>
      \<exists>c' t. accepted H arg READ_MULT_BLOCK (SDIO_DataConfig H (of_nat (512 * n)) 0x90 ToSDIO True c) c' \<and>
        started Multi k (mem_put (ram c) (unat buf) (mem_get (cbytes k) (512 * a) (512 * n))) t
          (DMA_channel H ToSDIO buf (of_nat (128 * n)) (SDIO_DMACmd H True (SDIO_ITConfig H rx_mask True c')))"
    and write_many: "ready k c \<Longrightarrow> a < 2 ^ 23 \<Longrightarrow> a + n \<le> cblocks k \<Longrightarrow> arg = of_nat (if hc then a else 512 * a) \<Longrightarrow> 1 < n \<Longrightarrow> n < 512 \<Longrightarrow>
      dma_buffer buf \<Longrightarrow>
      \<exists>c1 c2 c3 t. accepted H (push_bit 16 rca) APP_CMD c c1 \<and> accepted H (of_nat n) SET_BLOCK_COUNT c1 c2 \<and> accepted H arg WRITE_MULT_BLOCK c2 c3 \<and>
        started Writing (k\<lparr> cbytes := mem_put (cbytes k) (512 * a) (mem_get (ram c) (unat buf) (512 * n)) \<rparr>) (ram c) t
          (DMA_channel H ToCard buf (of_nat (128 * n)) (SDIO_DMACmd H True (SDIO_ITConfig H tx_mask True
            (SDIO_DataConfig H (of_nat (512 * n)) 0x90 ToCard True c3))))"
    and going_tc: "going x k m d e t c \<Longrightarrow> \<not> SDIO_IRQ H c \<Longrightarrow> DMA_TC4 H c = (tc, c') \<Longrightarrow>
      (tc \<longrightarrow> going x k m True e t c' \<and> (x = Single \<longrightarrow> e)) \<and> (\<not> tc \<longrightarrow> (\<exists>t' < t. going x k m d e t' c'))"
    and starting: "started x k m t c \<Longrightarrow> going x k m False False t c \<and> \<not> SDIO_IRQ H c"
    and going_time: "going x k m True False t c \<Longrightarrow>
      SDIO_IRQ H (pass_time H c) \<and> going x k m True False t (pass_time H c) \<or>
      \<not> SDIO_IRQ H (pass_time H c) \<and> (\<exists>t' < t. going x k m True False t' (pass_time H c))"
    and going_quiet: "going x k m d True t c \<Longrightarrow> \<not> SDIO_IRQ H c"
    and going_irq: "going x k m d False t c \<Longrightarrow> SDIO_IRQ H c \<Longrightarrow>
      \<exists>st c1 c2. STA H c = (st, c1) \<and> st AND DATAEND \<noteq> 0 \<and> (if x = Single then c2 = c1 else accepted H 0 STOP_TRANSMISSION c1 c2) \<and>
        going x k m d True t (SDIO_ITConfig H irq_mask False (SDIO_ClearFlag H DATAEND c2))"
    and single_done: "going Single k m True True t c \<Longrightarrow> ready k c \<and> ram c = m"
    and multi_done: "going Multi k m True True t c \<Longrightarrow> ready k c \<and> ram c = m"
    and writing_done: "going Writing k m True True t c \<Longrightarrow>
      \<exists>t'. programming k t' (SDIO_ClearFlag H SDIO_STATIC_FLAGS c) \<and> ram (SDIO_ClearFlag H SDIO_STATIC_FLAGS c) = m"
    and ready_status: "ready k c \<Longrightarrow> \<exists>c' t. accepted H (push_bit 16 rca) SEND_STATUS c c' \<and> ready k c' \<and> ram c' = ram c"
    and ready_programming: "ready k c \<Longrightarrow>
      \<exists>t. programming k t (SDIO_ClearFlag H SDIO_STATIC_FLAGS c) \<and> ram (SDIO_ClearFlag H SDIO_STATIC_FLAGS c) = ram c"
    and programming_status: "programming k t c \<Longrightarrow>
      \<exists>c'. accepted H (push_bit 16 rca) SEND_STATUS c c' \<and> ram c' = ram c \<and>
        (if drop_bit 9 (SDIO_GetResponse H 1 c') AND 0xF \<in> {6, 7} then \<exists>t' < t. programming k t' c' else ready k c')"
    and read_dead: "ready k c \<Longrightarrow> a < 2 ^ 23 \<Longrightarrow> a + 512 * n \<le> cblocks k \<Longrightarrow> arg = of_nat (if hc then a else 512 * a) \<Longrightarrow> 0 < n \<Longrightarrow> n < 128 \<Longrightarrow>
      \<exists>c'. accepted H arg READ_MULT_BLOCK (SDIO_DataConfig H (of_nat (512 * (512 * n))) 0x90 ToSDIO True c) c' \<and>
        dead (DMA_channel H ToSDIO buf (of_nat (128 * (512 * n))) (SDIO_DMACmd H True (SDIO_ITConfig H rx_mask True c')))"
    and dead_tc: "dead c \<Longrightarrow> \<exists>c'. DMA_TC4 H c = (False, c') \<and> dead c'"
    and dead_sta: "dead c \<Longrightarrow> STA H c = (st, c') \<Longrightarrow> st AND DATAEND = 0 \<and> dead c'"
    and dead_ops: "dead c \<Longrightarrow> dead (SDIO_ClearFlag H f c) \<and> dead (SDIO_ITConfig H g b c)"
begin

definition known :: "'c sdcard \<Rightarrow> bool" where
  "known s \<longleftrightarrow> is_sd (CardType s) \<and> (CardType s = SDIO_HIGH_CAPACITY_SD_CARD \<longleftrightarrow> hc) \<and> RCA s = rca"

definition selected :: "sd_card \<Rightarrow> 'c sdcard \<Rightarrow> bool" where
  "selected k s \<longleftrightarrow> ready k (hw s) \<and> known s"

definition in_flight :: "xfer \<Rightarrow> sd_card \<Rightarrow> mem \<Rightarrow> bool \<Rightarrow> bool \<Rightarrow> nat \<Rightarrow> 'c sdcard \<Rightarrow> bool" where
  "in_flight x k m d e t s \<longleftrightarrow> going x k m d e t (hw s) \<and> TransferError s = SD_OK \<and> TransferEnd s = (if e then 1 else 0) \<and>
     (StopCondition s = 1 \<longleftrightarrow> x \<noteq> Single) \<and> known s"

lemma known_irrelevant [simp]:
  "known (s\<lparr> hw := c \<rparr>) = known s" "known (s\<lparr> TransferError := e \<rparr>) = known s" "known (s\<lparr> TransferEnd := n \<rparr>) = known s"
  "known (s\<lparr> NumberOfBytes := n \<rparr>) = known s" "known (s\<lparr> TotalNumberOfBytes := n \<rparr>) = known s" "known (s\<lparr> StopCondition := n \<rparr>) = known s"
  "known (upd f s) = known s"
  by (simp_all add: known_def)

lemma with_block_size_ok:
  assumes "selected k s"
  shows "\<exists>s1. (\<forall>addr rest. with_block_size H addr 512 rest s = rest (if hc then addr div 512 else addr) 512 0x90 s1) \<and> selected k s1 \<and>
    ram (hw s1) = ram (hw s) \<and> TransferError s1 = SD_OK \<and> TransferEnd s1 = 0"
proof -
  let ?c = "SDIO_DMACmd H False (SDIO_DataConfig H 0 0 ToCard False (hw s))"
  have r: "ready k (hw s)" using assms by (simp add: selected_def)
  have c: "ready k ?c" "ram ?c = ram (hw s)" using no_data [OF r refl] by auto
  obtain c' where c': "accepted H 512 SET_BLOCKLEN ?c c'" "ready k c'" "ram c' = ram (hw s)" using blocklen [OF c(1)] c(2) by auto
  let ?s = "upd (SDIO_DMACmd H False) (upd (SDIO_DataConfig H 0 0 ToCard False) (s\<lparr> TransferError := SD_OK, TransferEnd := 0, TotalNumberOfBytes := 0 \<rparr>))"
  have "command1 H 512 SET_BLOCKLEN ?s = Some (SD_OK, ?s\<lparr> hw := c' \<rparr>)" using c'(1) by (intro command1_accepted) simp
  moreover have "SDIO_GetResponse H 1 (hw ?s) AND SD_CARD_LOCKED = 0" using unlocked [OF c(1)] by simp
  moreover have "CardType s = SDIO_HIGH_CAPACITY_SD_CARD \<longleftrightarrow> hc" using assms by (simp add: selected_def known_def)
  ultimately have "with_block_size H addr 512 rest s = rest (if hc then addr div 512 else addr) 512 0x90 (?s\<lparr> hw := c' \<rparr>)" for addr rest
    by (simp add: with_block_size_def Let_def power_512)
  then show ?thesis using assms c' by (intro exI [of _ "?s\<lparr> hw := c' \<rparr>"]) (simp add: selected_def)
qed

lemma interrupt_ok:
  assumes "in_flight x k m d e t s"
  shows "\<exists>s' e'. interrupt H s = Some s' \<and> in_flight x k m d e' t s' \<and> (SDIO_IRQ H (hw s) \<longrightarrow> e') \<and> \<not> SDIO_IRQ H (hw s')"
proof (cases "SDIO_IRQ H (hw s)")
  case False
  then show ?thesis using assms by (auto simp: interrupt_def)
next
  case True
  have g: "going x k m d e t (hw s)" using assms by (simp add: in_flight_def)
  then have e: "\<not> e" using going_quiet [of x k m d t "hw s"] True by (cases e) auto
  then obtain st c1 c2 where c: "STA H (hw s) = (st, c1)" "st AND DATAEND \<noteq> 0"
      "if x = Single then c2 = c1 else accepted H 0 STOP_TRANSMISSION c1 c2"
      "going x k m d True t (SDIO_ITConfig H irq_mask False (SDIO_ClearFlag H DATAEND c2))"
    using going_irq [of x k m d t "hw s"] g True by (cases e) auto
  let ?s = "(upd (SDIO_ITConfig H irq_mask False) (upd (SDIO_ClearFlag H DATAEND) (s\<lparr> hw := c2 \<rparr>)))
    \<lparr> TransferError := SD_OK, TransferEnd := 1, NumberOfBytes := 0 \<rparr>"
  have "interrupt H s = Some ?s"
  proof (cases "x = Single")
    case True
    then show ?thesis
      using \<open>SDIO_IRQ H (hw s)\<close> c assms by (simp add: interrupt_def SD_ProcessIRQSrc_def SDIO_GetFlagStatus_def in_flight_def)
  next
    case False
    then have "command1 H 0 STOP_TRANSMISSION (s\<lparr> hw := c1 \<rparr>) = Some (SD_OK, s\<lparr> hw := c2 \<rparr>)"
      using command1_accepted [of H 0 STOP_TRANSMISSION "s\<lparr> hw := c1 \<rparr>" c2] c(3) by simp
    then show ?thesis
      using \<open>SDIO_IRQ H (hw s)\<close> c(1,2) assms False
      by (simp add: interrupt_def SD_ProcessIRQSrc_def SDIO_GetFlagStatus_def in_flight_def SD_StopTransfer_def)
  qed
  moreover have "in_flight x k m d True t ?s" using c(4) assms by (simp add: in_flight_def)
  moreover have "\<not> SDIO_IRQ H (hw ?s)" using going_quiet c(4) by simp
  ultimately show ?thesis by blast
qed

lemma dma_wait_ok:
  assumes "in_flight x k m d e t s" "\<not> SDIO_IRQ H (hw s)"
  shows "\<exists>s' e' t'. dma_wait H s = Some s' \<and> in_flight x k m True e' t' s' \<and> (x = Single \<longrightarrow> e')"
  using assms
proof (induction t arbitrary: d e s rule: less_induct)
  case (less t)
  obtain tc c where c: "DMA_TC4 H (hw s) = (tc, c)" by force
  note g = going_tc [OF _ less.prems(2) c, of x k m d e t]
  show ?case
  proof (cases tc)
    case True
    then have "in_flight x k m True e t (s\<lparr> hw := c \<rparr>)" "x = Single \<longrightarrow> e" using g less.prems by (simp_all add: in_flight_def)
    then show ?thesis using c True by (subst dma_wait.simps) auto
  next
    case False
    then obtain t' where t': "t' < t" "in_flight x k m d e t' (s\<lparr> hw := c \<rparr>)" using g less.prems by (auto simp: in_flight_def)
    obtain s' e' where s': "interrupt H (s\<lparr> hw := c \<rparr>) = Some s'" "in_flight x k m d e' t' s'" "\<not> SDIO_IRQ H (hw s')"
      using interrupt_ok [OF t'(2)] by blast
    then show ?thesis using less.IH [OF t'(1) s'(2,3)] c False by (subst dma_wait.simps) auto
  qed
qed

lemma end_wait_ok:
  assumes "in_flight x k m True e t s"
  shows "\<exists>s' t'. end_wait H s = Some s' \<and> in_flight x k m True True t' s'"
  using assms
proof (induction t arbitrary: e s rule: less_induct)
  case (less t)
  show ?case
  proof (cases e)
    case True
    then show ?thesis using less.prems by (subst end_wait.simps) (auto simp: in_flight_def)
  next
    case False
    let ?s = "upd (pass_time H) s"
    have w: "end_wait H s = do { s1 \<leftarrow> interrupt H ?s; end_wait H s1 }"
      using less.prems False by (subst end_wait.simps) (simp add: in_flight_def)
    have "SDIO_IRQ H (hw ?s) \<and> in_flight x k m True False t ?s \<or> \<not> SDIO_IRQ H (hw ?s) \<and> (\<exists>t' < t. in_flight x k m True False t' ?s)"
      using going_time [of x k m t "hw s"] less.prems False by (auto simp: in_flight_def)
    then show ?thesis
    proof (elim disjE conjE exE)
      assume "SDIO_IRQ H (hw ?s)" "in_flight x k m True False t ?s"
      then obtain s' where s': "interrupt H ?s = Some s'" "in_flight x k m True True t s'" using interrupt_ok by metis
      then have "end_wait H s' = Some s'" by (subst end_wait.simps) (simp add: in_flight_def)
      then show ?thesis using s' w by auto
    next
      fix t' assume t': "\<not> SDIO_IRQ H (hw ?s)" "t' < t" "in_flight x k m True False t' ?s"
      then have "interrupt H ?s = Some ?s" by (simp add: interrupt_def)
      then show ?thesis using less.IH [OF t'(2,3)] w by auto
    qed
  qed
qed

lemma transfer_end_ok:
  assumes "in_flight x k m d e t s" "\<not> SDIO_IRQ H (hw s)"
  shows "\<exists>s' t'. transfer_end H s = Some (SD_OK, s') \<and> in_flight x k m True True t' s'"
proof -
  obtain s1 e1 t1 where s1: "dma_wait H s = Some s1" "in_flight x k m True e1 t1 s1" using dma_wait_ok [OF assms] by blast
  obtain s2 t2 where s2: "end_wait H s1 = Some s2" "in_flight x k m True True t2 s2" using end_wait_ok [OF s1(2)] by blast
  then show ?thesis using s1(1) by (auto simp: transfer_end_def in_flight_def)
qed

text \<open>The argument of a transfer command.\<close>

lemma address:
  assumes "a < 2 ^ 23"
  shows "(if hc then push_bit 9 (of_nat a) div 512 else push_bit 9 (of_nat a)) = (of_nat (if hc then a else 512 * a) :: u32)"
proof -
  have "unat (of_nat (512 * a) :: u32) = 512 * a" by (subst unat_of_nat) (use assms in \<open>simp add: take_bit_nat_eq_self\<close>)
  moreover have "unat (of_nat a :: u32) = a" using assms by (simp add: unat_of_nat take_bit_nat_eq_self)
  ultimately have "of_nat (512 * a) div 512 = (of_nat a :: u32)" by (simp add: word_unat_eq_iff unat_div_distrib)
  then show ?thesis by (simp add: push_bit_eq_mult mult.commute)
qed

lemma SD_ReadBlock_ok:
  assumes "selected k s" "a < 2 ^ 23" "a < cblocks k" "dma_buffer buf"
  shows "\<exists>s'. SD_ReadBlock H (push_bit 9 (of_nat a)) buf 512 s = Some (SD_OK, s') \<and> selected k s' \<and>
    ram (hw s') = mem_put (ram (hw s)) (unat buf) (mem_get (cbytes k) (512 * a) 512)"
proof -
  obtain s1 where s1: "\<And>addr rest. with_block_size H addr 512 rest s = rest (if hc then addr div 512 else addr) 512 0x90 s1"
      "selected k s1" "ram (hw s1) = ram (hw s)" "TransferError s1 = SD_OK" "TransferEnd s1 = 0"
    using with_block_size_ok [OF assms(1)] by blast
  let ?arg = "of_nat (if hc then a else 512 * a) :: u32" and ?m = "mem_put (ram (hw s)) (unat buf) (mem_get (cbytes k) (512 * a) 512)"
  have r: "ready k (hw s1)" using s1(2) by (simp add: selected_def)
  obtain c' t where c': "accepted H ?arg READ_SINGLE_BLOCK (SDIO_DataConfig H 512 0x90 ToSDIO True (hw s1)) c'"
      "started Single k ?m t (DMA_channel H ToSDIO buf 128 (SDIO_DMACmd H True (SDIO_ITConfig H rx_mask True c')))"
    using read_one [OF r assms(2,3) refl assms(4)] s1(3) by auto
  let ?s2 = "(upd (SDIO_DataConfig H 512 0x90 ToSDIO True) s1)\<lparr> TotalNumberOfBytes := 512, StopCondition := 0 \<rparr>"
  let ?s3 = "upd (DMA_RxConfiguration H buf 512) (upd (SDIO_DMACmd H True) (upd (SDIO_ITConfig H rx_mask True) (?s2\<lparr> hw := c' \<rparr>)))"
  have cmd: "command1 H ?arg READ_SINGLE_BLOCK ?s2 = Some (SD_OK, ?s2\<lparr> hw := c' \<rparr>)"
    by (rule command1_accepted) (simp add: c'(1))
  have "in_flight Single k ?m False False t ?s3" "\<not> SDIO_IRQ H (hw ?s3)"
    using starting [OF c'(2)] s1 by (simp_all add: in_flight_def DMA_RxConfiguration_def selected_def)
  then obtain s4 t' where s4: "dma_wait H ?s3 = Some s4" "in_flight Single k ?m True True t' s4"
    using dma_wait_ok by (metis (full_types))
  have "SD_ReadBlock H (push_bit 9 (of_nat a)) buf 512 s = Some (SD_OK, s4)"
    using dma_buffer_neq_0 [OF assms(4)] cmd s4(1) unfolding SD_ReadBlock_def s1(1) address [OF assms(2)] by simp
  then show ?thesis using single_done [of k ?m t' "hw s4"] s4(2) by (auto simp: in_flight_def selected_def)
qed

lemma len_512: "unat n < 512 \<Longrightarrow> n * 512 \<le> SD_MAX_DATA_LENGTH \<and> n * 512 = of_nat (512 * unat n) \<and> n * 512 div 4 = of_nat (128 * unat n)" for n :: u32
proof -
  assume "unat n < 512"
  then have u: "unat (n * 512) = 512 * unat n" by (simp add: unat_word_ariths)
  have "unat (of_nat (128 * unat n) :: u32) = 128 * unat n"
    by (subst unat_of_nat) (use \<open>unat n < 512\<close> in \<open>simp add: take_bit_nat_eq_self\<close>)
  then have "n * 512 div 4 = of_nat (128 * unat n)" using u by (simp add: word_unat_eq_iff unat_div_distrib)
  moreover have "n * 512 \<le> SD_MAX_DATA_LENGTH" using u \<open>unat n < 512\<close> by (simp add: word_le_nat_alt SD_MAX_DATA_LENGTH_def)
  ultimately show ?thesis by (simp add: mult.commute)
qed

lemma SD_ReadMultiBlocks_ok:
  assumes "selected k s" "a < 2 ^ 23" "a + unat n \<le> cblocks k" "dma_buffer buf" "n \<noteq> 1" "unat n < 512"
  shows "\<exists>s'. SD_ReadMultiBlocks H (push_bit 9 (of_nat a)) buf 512 n s = Some (SD_OK, s') \<and> selected k s' \<and>
    ram (hw s') = mem_put (ram (hw s)) (unat buf) (mem_get (cbytes k) (512 * a) (512 * unat n))"
proof -
  obtain s1 where s1: "\<And>addr rest. with_block_size H addr 512 rest s = rest (if hc then addr div 512 else addr) 512 0x90 s1"
      "selected k s1" "ram (hw s1) = ram (hw s)" "TransferError s1 = SD_OK" "TransferEnd s1 = 0"
    using with_block_size_ok [OF assms(1)] by blast
  let ?arg = "of_nat (if hc then a else 512 * a) :: u32" and ?m = "mem_put (ram (hw s)) (unat buf) (mem_get (cbytes k) (512 * a) (512 * unat n))"
  show ?thesis
  proof (cases "n > 1")
    case False
    then have "n = 0" using assms(5) by (simp add: word_less_nat_alt word_unat_eq_iff)
    then have "SD_ReadMultiBlocks H (push_bit 9 (of_nat a)) buf 512 n s = Some (SD_OK, s1)"
      using dma_buffer_neq_0 [OF assms(4)] unfolding SD_ReadMultiBlocks_def s1(1) by simp
    then show ?thesis using s1(2,3) \<open>n = 0\<close> by simp
  next
    case True
    note len = len_512 [OF assms(6)]
    have n: "1 < unat n" using True by (simp add: word_less_nat_alt)
    have r: "ready k (hw s1)" using s1(2) by (simp add: selected_def)
    obtain c' t where c': "accepted H ?arg READ_MULT_BLOCK (SDIO_DataConfig H (n * 512) 0x90 ToSDIO True (hw s1)) c'"
        "started Multi k ?m t (DMA_RxConfiguration H buf (n * 512) (SDIO_DMACmd H True (SDIO_ITConfig H rx_mask True c')))"
      using read_many [OF r assms(2,3) refl n assms(6,4)] s1(3) len by (metis DMA_RxConfiguration_def)
    let ?s2 = "upd (SDIO_DataConfig H (n * 512) 0x90 ToSDIO True) (s1\<lparr> TotalNumberOfBytes := n * 512, StopCondition := 1 \<rparr>)"
    let ?s3 = "upd (DMA_RxConfiguration H buf (n * 512)) (upd (SDIO_DMACmd H True) (upd (SDIO_ITConfig H rx_mask True) (?s2\<lparr> hw := c' \<rparr>)))"
    have cmd: "command1 H ?arg READ_MULT_BLOCK ?s2 = Some (SD_OK, ?s2\<lparr> hw := c' \<rparr>)"
      by (rule command1_accepted) (simp add: c'(1))
    have "in_flight Multi k ?m False False t ?s3" "\<not> SDIO_IRQ H (hw ?s3)" using starting [OF c'(2)] s1 by (simp_all add: in_flight_def selected_def)
    then obtain s4 t' where s4: "transfer_end H ?s3 = Some (SD_OK, s4)" "in_flight Multi k ?m True True t' s4" using transfer_end_ok by blast
    have "SD_ReadMultiBlocks H (push_bit 9 (of_nat a)) buf 512 n s = Some (SD_OK, s4)"
      using dma_buffer_neq_0 [OF assms(4)] True cmd s4(1) len [THEN conjunct1] unfolding SD_ReadMultiBlocks_def s1(1) address [OF assms(2)] Let_def by (simp add: linorder_not_less)
    then show ?thesis using multi_done [of k ?m t' "hw s4"] s4(2) by (auto simp: in_flight_def selected_def)
  qed
qed

text \<open>Only the commands for the block size and the state of the card are sent when there is one block to write.\<close>

lemma programming_wait_ok:
  assumes "programming k t (hw s)" "known s"
  shows "\<exists>s'. programming_wait H st s = Some (SD_OK, s') \<and> selected k s' \<and> ram (hw s') = ram (hw s)"
  using assms
proof (induction t arbitrary: st s rule: less_induct)
  case (less t)
  obtain c' where c': "accepted H (push_bit 16 rca) SEND_STATUS (hw s) c'" "ram c' = ram (hw s)"
      "if drop_bit 9 (SDIO_GetResponse H 1 c') AND 0xF \<in> {6, 7} then \<exists>t' < t. programming k t' c' else ready k c'"
    using programming_status [OF less.prems(1)] by blast
  let ?st = "ucast (drop_bit 9 (SDIO_GetResponse H 1 c') AND 0xF) :: u8" and ?s = "s\<lparr> hw := c' \<rparr>"
  have i: "IsCardProgramming H st s = Some (SD_OK, ?st, ?s)"
    using c'(1) less.prems(2) by (auto simp: accepted_def IsCardProgramming_def known_def Let_def upd_def)
  have u: "ucast ?st = drop_bit 9 (SDIO_GetResponse H 1 c') AND (0xF :: u32)"
    by (rule low_nibble)
  show ?case
  proof (cases "drop_bit 9 (SDIO_GetResponse H 1 c') AND 0xF \<in> {6, 7 :: u32}")
    case True
    then obtain t' where t': "t' < t" "programming k t' c'" using c'(3) by auto
    have "programming_wait H st s = programming_wait H ?st ?s"
      using i u True by (subst programming_wait.simps) (auto simp: SD_CARD_PROGRAMMING_def SD_CARD_RECEIVING_def)
    moreover have "\<exists>s'. programming_wait H ?st ?s = Some (SD_OK, s') \<and> selected k s' \<and> ram (hw s') = ram (hw ?s)"
      using t' less.prems(2) by (intro less.IH [OF t'(1)]) simp_all
    ultimately show ?thesis using c'(2) by simp
  next
    case False
    then have "programming_wait H st s = Some (SD_OK, ?s)"
      using i u by (subst programming_wait.simps) (auto simp: SD_CARD_PROGRAMMING_def SD_CARD_RECEIVING_def)
    then show ?thesis using False c'(2,3) less.prems(2) by (simp add: selected_def)
  qed
qed

lemma write_status:
  assumes "selected k s"
  shows "\<exists>s'. command1 H (push_bit 16 (RCA s)) SEND_STATUS s = Some (SD_OK, s') \<and> selected k s' \<and> ram (hw s') = ram (hw s) \<and>
    TransferError s' = TransferError s \<and> TransferEnd s' = TransferEnd s"
proof -
  obtain c' where c': "accepted H (push_bit 16 rca) SEND_STATUS (hw s) c'" "ready k c'" "ram c' = ram (hw s)"
    using ready_status assms by (auto simp: selected_def)
  have "RCA s = rca" using assms by (simp add: selected_def known_def)
  then show ?thesis using command1_accepted [of H _ SEND_STATUS s c'] c' assms by (auto simp: selected_def)
qed

lemma SD_WriteMultiBlocks_one:
  assumes "selected k s" "buf \<noteq> 0" "n \<le> 1"
  shows "\<exists>s'. SD_WriteMultiBlocks H addr buf 512 n s = Some (SD_OK, s') \<and> selected k s' \<and> ram (hw s') = ram (hw s)"
proof -
  obtain s1 where s1: "\<And>addr rest. with_block_size H addr 512 rest s = rest (if hc then addr div 512 else addr) 512 0x90 s1"
      "selected k s1" "ram (hw s1) = ram (hw s)"
    using with_block_size_ok [OF assms(1)] by blast
  obtain s2 where s2: "command1 H (push_bit 16 (RCA s1)) SEND_STATUS s1 = Some (SD_OK, s2)" "selected k s2" "ram (hw s2) = ram (hw s1)"
    using write_status [OF s1(2)] by blast
  let ?s3 = "upd (SDIO_ClearFlag H SDIO_STATIC_FLAGS) s2"
  obtain t where "programming k t (hw ?s3)" "ram (hw ?s3) = ram (hw s2)" "known ?s3"
    using ready_programming s2(2) by (auto simp: selected_def)
  then obtain s4 where "programming_wait H 0 ?s3 = Some (SD_OK, s4)" "selected k s4" "ram (hw s4) = ram (hw s2)"
    using programming_wait_ok [of k t ?s3 0] by auto
  then show ?thesis using assms(2,3) s1(3) s2(1,3) unfolding SD_WriteMultiBlocks_def s1(1) by (auto simp: not_less)
qed

lemma SD_WriteMultiBlocks_ok:
  assumes "selected k s" "a < 2 ^ 23" "a + unat n \<le> cblocks k" "dma_buffer buf" "1 < n" "unat n < 512"
    "addr = (if hc then push_bit 9 (of_nat a) else of_nat (512 * a))"
  shows "\<exists>s'. SD_WriteMultiBlocks H addr buf 512 n s = Some (SD_OK, s') \<and> ram (hw s') = ram (hw s) \<and>
    selected (k\<lparr> cbytes := mem_put (cbytes k) (512 * a) (mem_get (ram (hw s)) (unat buf) (512 * unat n)) \<rparr>) s'"
proof -
  obtain s1 where s1: "\<And>addr rest. with_block_size H addr 512 rest s = rest (if hc then addr div 512 else addr) 512 0x90 s1"
      "selected k s1" "ram (hw s1) = ram (hw s)" "TransferError s1 = SD_OK" "TransferEnd s1 = 0"
    using with_block_size_ok [OF assms(1)] by blast
  obtain s2 where s2: "command1 H (push_bit 16 (RCA s1)) SEND_STATUS s1 = Some (SD_OK, s2)" "selected k s2" "ram (hw s2) = ram (hw s1)"
      "TransferError s2 = SD_OK" "TransferEnd s2 = 0"
    using write_status [OF s1(2)] s1(4,5) by auto
  let ?arg = "of_nat (if hc then a else 512 * a) :: u32"
  let ?k = "k\<lparr> cbytes := mem_put (cbytes k) (512 * a) (mem_get (ram (hw s)) (unat buf) (512 * unat n)) \<rparr>"
  have arg: "(if hc then addr div 512 else addr) = ?arg" using address [OF assms(2)] assms(7) by (simp split: if_splits)
  note len = len_512 [OF assms(6)]
  have n: "1 < unat n" using assms(5) by (simp add: word_less_nat_alt)
  have r: "ready k (hw s2)" "is_sd (CardType s2)" "RCA s2 = rca" "known s2" using s2(2) by (simp_all add: selected_def known_def)
  obtain c1 c2 c3 t where c: "accepted H (push_bit 16 rca) APP_CMD (hw s2) c1" "accepted H n SET_BLOCK_COUNT c1 c2" "accepted H ?arg WRITE_MULT_BLOCK c2 c3"
      "started Writing ?k (ram (hw s)) t (DMA_TxConfiguration H buf (n * 512) (SDIO_DMACmd H True (SDIO_ITConfig H tx_mask True
        (SDIO_DataConfig H (n * 512) 0x90 ToCard True c3))))"
    using write_many [OF r(1) assms(2,3) refl n assms(6,4)] s1(3) s2(3) unfolding DMA_TxConfiguration_def
    by (simp add: len [THEN conjunct2, THEN conjunct2] len [THEN conjunct2, THEN conjunct1, symmetric] del: of_nat_mult) blast
  let ?s4 = "upd (DMA_TxConfiguration H buf (n * 512)) (upd (SDIO_DMACmd H True) (upd (SDIO_ITConfig H tx_mask True)
    (upd (SDIO_DataConfig H (n * 512) 0x90 ToCard True) (s2\<lparr> hw := c3, TotalNumberOfBytes := n * 512, StopCondition := 1 \<rparr>))))"
  have cmds: "command1 H (push_bit 16 rca) APP_CMD s2 = Some (SD_OK, s2\<lparr> hw := c1 \<rparr>)"
    "command1 H n SET_BLOCK_COUNT (s2\<lparr> hw := c1 \<rparr>) = Some (SD_OK, s2\<lparr> hw := c2 \<rparr>)"
    "command1 H ?arg WRITE_MULT_BLOCK (s2\<lparr> hw := c2 \<rparr>) = Some (SD_OK, s2\<lparr> hw := c3 \<rparr>)"
    using command1_accepted [of H _ APP_CMD s2 c1] command1_accepted [of H _ SET_BLOCK_COUNT "s2\<lparr> hw := c1 \<rparr>" c2]
      command1_accepted [of H _ WRITE_MULT_BLOCK "s2\<lparr> hw := c2 \<rparr>" c3] c by auto
  have "in_flight Writing ?k (ram (hw s)) False False t ?s4" "\<not> SDIO_IRQ H (hw ?s4)" using starting [OF c(4)] s2(4,5) r by (simp_all add: in_flight_def)
  then obtain s5 t5 where s5: "transfer_end H ?s4 = Some (SD_OK, s5)" "in_flight Writing ?k (ram (hw s)) True True t5 s5"
    using transfer_end_ok by blast
  let ?s6 = "upd (SDIO_ClearFlag H SDIO_STATIC_FLAGS) s5"
  obtain t6 where "programming ?k t6 (hw ?s6)" "ram (hw ?s6) = ram (hw s)" "known ?s6"
    using writing_done [of ?k "ram (hw s)" t5 "hw s5"] s5(2) by (auto simp: in_flight_def)
  then obtain s7 where "programming_wait H 0 ?s6 = Some (SD_OK, s7)" "selected ?k s7" "ram (hw s7) = ram (hw s)"
    using programming_wait_ok [of ?k t6 ?s6 0] by auto
  moreover have "SD_WriteMultiBlocks H addr buf 512 n s = programming_wait H 0 ?s6"
    using dma_buffer_neq_0 [OF assms(4)] assms(5) s2(1) r cmds s5(1) len [THEN conjunct1, THEN leD] unfolding SD_WriteMultiBlocks_def s1(1) arg Let_def by simp
  ultimately show ?thesis by auto
qed

text \<open>The channel counts 16 bits: 512 blocks are 65536 words, and it counts none. The driver waits for it for ever, although the
  interrupt handler has noted the overrun.\<close>

lemma irq_error_dead: "dead (hw s) \<Longrightarrow> dead (hw (snd (irq_error H fs s)))"
proof (induction fs arbitrary: s)
  case (Cons fe fs)
  obtain f e where f: "fe = (f, e)" by (cases fe)
  obtain st c where c: "STA H (hw s) = (st, c)" by force
  have "dead c" using dead_sta [OF Cons.prems c] by simp
  then show ?case using Cons.IH [of "s\<lparr> hw := c \<rparr>"] dead_ops by (simp add: f c SDIO_GetFlagStatus_def Let_def)
qed simp

lemma interrupt_dead:
  assumes "dead (hw s)"
  shows "\<exists>s'. interrupt H s = Some s' \<and> dead (hw s')"
proof (cases "SDIO_IRQ H (hw s)")
  case True
  obtain st c where c: "STA H (hw s) = (st, c)" by force
  have "st AND DATAEND = 0" "dead c" using dead_sta [OF assms c] by simp_all
  then have "interrupt H s = Some (snd (irq_error H [(DCRCFAIL, SD_DATA_CRC_FAIL), (DTIMEOUT, SD_DATA_TIMEOUT), (RXOVERR, SD_RX_OVERRUN),
      (TXUNDERR, SD_TX_UNDERRUN), (STBITERR, SD_START_BIT_ERR)] (s\<lparr> hw := c \<rparr>)))"
      (is "_ = Some ?s'")
    using True c by (simp only: interrupt_def SD_ProcessIRQSrc_def SDIO_GetFlagStatus_def) simp
  then show ?thesis using irq_error_dead [of "s\<lparr> hw := c \<rparr>"] \<open>dead c\<close> by (intro exI [of _ ?s']) (simp del: irq_error.simps)
qed (use assms in \<open>simp add: interrupt_def\<close>)

lemma dma_wait_dead: "dead (hw s) \<Longrightarrow> dma_wait H s = None"
proof (rule ccontr)
  assume d: "dead (hw s)" "dma_wait H s \<noteq> None"
  then obtain r where r: "dma_wait H s = Some r" by auto
  have "H = H \<longrightarrow> \<not> dead (hw s)"
  proof (rule dma_wait.raw_induct [OF _ r, of "\<lambda>H' s r. H' = H \<longrightarrow> \<not> dead (hw s)"], intro impI notI)
    fix W H' s r
    assume IH: "\<And>H' s r. W H' s = Some r \<Longrightarrow> H' = H \<longrightarrow> \<not> dead (hw s)" and H: "H' = H" and s: "dead (hw s)"
      and W: "(let (tc, c) = DMA_TC4 H' (hw s); s1 = s\<lparr> hw := c \<rparr> in if tc then Some s1 else interrupt H' s1 \<bind> W H') = Some r"
    obtain c where c: "DMA_TC4 H (hw s) = (False, c)" "dead c" using dead_tc [OF s] by blast
    obtain s' where "interrupt H (s\<lparr> hw := c \<rparr>) = Some s'" "dead (hw s')" using interrupt_dead [of "s\<lparr> hw := c \<rparr>"] c(2) by auto
    then show False using IH W H c(1) by auto
  qed
  then show False using d(1) by simp
qed

lemma SD_ReadMultiBlocks_stuck:
  assumes "selected k s" "a < 2 ^ 23" "a + 512 * m \<le> cblocks k" "buf \<noteq> 0" "0 < m" "m < 128"
  shows "SD_ReadMultiBlocks H (push_bit 9 (of_nat a)) buf 512 (of_nat (512 * m)) s = None"
proof -
  obtain s1 where s1: "\<And>addr rest. with_block_size H addr 512 rest s = rest (if hc then addr div 512 else addr) 512 0x90 s1"
      "selected k s1" "ram (hw s1) = ram (hw s)"
    using with_block_size_ok [OF assms(1)] by blast
  define n :: u32 where "n = of_nat (512 * m)"
  let ?arg = "of_nat (if hc then a else 512 * a) :: u32"
  have r: "ready k (hw s1)" using s1(2) by (simp add: selected_def)
  have u: "unat n = 512 * m" unfolding n_def by (subst unat_of_nat) (use assms(6) in \<open>simp add: take_bit_nat_eq_self\<close>)
  have l: "unat (n * 512) = 512 * (512 * m)" unfolding unat_word_ariths(2) u using assms(6) by simp
  have n1: "n > 1" "\<not> n * 512 > SD_MAX_DATA_LENGTH"
    using u l assms(5,6) by (simp_all add: word_less_nat_alt SD_MAX_DATA_LENGTH_def)
  have "unat (of_nat (128 * (512 * m)) :: u32) = 128 * (512 * m)" by (subst unat_of_nat) (use assms(6) in \<open>simp add: take_bit_nat_eq_self\<close>)
  moreover have "unat (n * 512 div 4) = 128 * (512 * m)" unfolding unat_div_distrib l by simp
  ultimately have d: "n * 512 div 4 = of_nat (128 * (512 * m))" by (simp only: word_unat_eq_iff)
  have e: "n * 512 = of_nat (512 * (512 * m))" by (simp add: n_def)
  obtain c' where c': "accepted H ?arg READ_MULT_BLOCK (SDIO_DataConfig H (n * 512) 0x90 ToSDIO True (hw s1)) c'"
      "dead (DMA_RxConfiguration H buf (n * 512) (SDIO_DMACmd H True (SDIO_ITConfig H rx_mask True c')))"
    using read_dead [OF r assms(2,3) refl assms(5,6), of buf] unfolding DMA_RxConfiguration_def d e [symmetric] by blast
  let ?s2 = "upd (SDIO_DataConfig H (n * 512) 0x90 ToSDIO True) (s1\<lparr> TotalNumberOfBytes := n * 512, StopCondition := 1 \<rparr>)"
  have "command1 H ?arg READ_MULT_BLOCK ?s2 = Some (SD_OK, ?s2\<lparr> hw := c' \<rparr>)" by (rule command1_accepted) (use c'(1) in simp)
  moreover have "transfer_end H (upd (DMA_RxConfiguration H buf (n * 512)) (upd (SDIO_DMACmd H True) (upd (SDIO_ITConfig H rx_mask True) (?s2\<lparr> hw := c' \<rparr>)))) = None"
    unfolding transfer_end_def by (subst dma_wait_dead) (use c'(2) in simp_all)
  ultimately show ?thesis
    using assms(4) n1 unfolding n_def [symmetric] SD_ReadMultiBlocks_def s1(1) address [OF assms(2)] Let_def by simp
qed

end

end
