(* ===== verification/Sd_Host.thy ===== *)
theory Sd_Host
  imports Sd_Bus
begin

text \<open>
  A card controller with a card and the DMA channel behind it, as the reference manual of the processor (RM0008, SDIO and DMA) and
  the card's specification describe them for a selected card: a command that the state of the card allows is answered at once, any other is not
  answered (the bit \<^verbatim>\<open>ILLEGAL_COMMAND\<close> of the next answer is left out), a block is moved each time the
  driver looks at the channel, and a channel whose 16-bit counter is 0 moves nothing, so
  that the receiver overruns. A card that was written is busy programming for a few enquiries.

  This is one timing of the hardware: \<open>DATAEND\<close> is raised together with the last block, so that the interrupt comes before the driver
  sees the end of the channel. \<^verbatim>\<open>SD_ReadBlock\<close> waits for the channel only (line 929); that it also works when the interrupt comes
  later is not shown.
\<close>

section \<open>The hardware\<close>

datatype phase = Tran | Sending nat bool | Receiving nat | Prog nat
datatype channel = Off | Run sdio_dir nat nat | Done

record host =
  h_card :: sd_card
  h_mem :: mem
  h_sta :: u32
  h_mask :: u32
  h_cmd :: u8
  h_resp :: u32
  h_len :: nat
  h_chan :: channel
  h_phase :: phase

definition state_bits :: "phase \<Rightarrow> u32" where
  "state_bits p = push_bit 9 (case p of Tran \<Rightarrow> 4 | Sending _ _ \<Rightarrow> 5 | Receiving _ \<Rightarrow> 6 | Prog _ \<Rightarrow> 7)"

definition byte_addr :: "bool \<Rightarrow> u32 \<Rightarrow> nat" where
  "byte_addr hc arg = (if hc then 512 * unat arg else unat arg)"

text \<open>The commands that the state table of the card's specification allows: the status and the prefix of an application command in
  every state of a selected card, the end of a transfer only during one, all others only in the transfer state.\<close>

definition legal :: "u8 \<Rightarrow> phase \<Rightarrow> bool" where
  "legal cmd p \<longleftrightarrow>
     (if cmd = SEND_STATUS \<or> cmd = APP_CMD then True
      else if cmd = STOP_TRANSMISSION then (case p of Sending _ _ \<Rightarrow> True | Receiving _ \<Rightarrow> True | _ \<Rightarrow> False)
      else p = Tran)"

text \<open>What such a command does to the card: the error bits of the answer and the new state.\<close>

definition card_command :: "bool \<Rightarrow> sd_card \<Rightarrow> u32 \<Rightarrow> u8 \<Rightarrow> phase \<Rightarrow> u32 \<times> phase" where
  "card_command hc k arg cmd p =
     (let a = byte_addr hc arg;
          err = (if \<not> 512 dvd a then 0x40000000 else if a div 512 < cblocks k then 0 else 0x80000000)
      in if cmd = READ_SINGLE_BLOCK then (err, if err = 0 then Sending a False else p)
         else if cmd = READ_MULT_BLOCK then (err, if err = 0 then Sending a True else p)
         else if cmd = WRITE_MULT_BLOCK then (err, if err = 0 then Receiving a else p)
         else if cmd = STOP_TRANSMISSION then (0, case p of Receiving _ \<Rightarrow> Prog 3 | _ \<Rightarrow> Tran)
         else if cmd = SEND_STATUS then (0, case p of Prog n \<Rightarrow> if n \<le> 1 then Tran else Prog (n - 1) | _ \<Rightarrow> p)
         else (0, p))"

text \<open>A command that is not allowed is not answered, and the controller gives up waiting.\<close>

definition host_command :: "bool \<Rightarrow> u32 \<Rightarrow> u8 \<Rightarrow> sdio_response \<Rightarrow> host \<Rightarrow> host" where
  "host_command hc arg cmd r c =
     (if legal cmd (h_phase c)
      then let (err, p) = card_command hc (h_card c) arg cmd (h_phase c)
           in c\<lparr> h_sta := h_sta c OR CMDREND, h_cmd := cmd, h_resp := err OR state_bits p, h_phase := p \<rparr>
      else c\<lparr> h_sta := h_sta c OR CTIMEOUT \<rparr>)"

text \<open>The data that moves: one block between the memory and the card, when the channel and the card have both one left.\<close>

definition after_block :: "sdio_dir \<Rightarrow> nat \<Rightarrow> nat \<Rightarrow> host \<Rightarrow> host" where
  "after_block dir b cnt c =
     (let c1 = c\<lparr> h_len := h_len c - 512, h_chan := (if cnt \<le> 128 then Done else Run dir (b + 512) (cnt - 128)) \<rparr>
      in if h_len c1 = 0 then c1\<lparr> h_sta := h_sta c1 OR DATAEND \<rparr> else c1)"

definition tick :: "host \<Rightarrow> host" where
  "tick c =
     (case (h_chan c, h_phase c) of
        (Run ToSDIO b cnt, Sending a multi) \<Rightarrow>
          if cnt = 0 then c\<lparr> h_sta := h_sta c OR RXOVERR \<rparr>
          else if h_len c = 0 then c
          else if a div 512 < cblocks (h_card c)
          then after_block ToSDIO b cnt (c\<lparr> h_mem := mem_put (h_mem c) b (mem_get (cbytes (h_card c)) a 512),
                 h_phase := (if multi then Sending (a + 512) True else Tran) \<rparr>)
          else c\<lparr> h_sta := h_sta c OR DTIMEOUT \<rparr>
      | (Run ToCard b cnt, Receiving a) \<Rightarrow>
          if cnt = 0 then c\<lparr> h_sta := h_sta c OR TXUNDERR \<rparr>
          else if h_len c = 0 then c
          else if a div 512 < cblocks (h_card c)
          then after_block ToCard b cnt (c\<lparr> h_card := (h_card c)\<lparr> cbytes := mem_put (cbytes (h_card c)) a (mem_get (h_mem c) b 512) \<rparr>,
                 h_phase := Receiving (a + 512) \<rparr>)
          else c\<lparr> h_sta := h_sta c OR DCRCFAIL \<rparr>
      | (Done, Sending a True) \<Rightarrow> if h_len c = 0 then c else c\<lparr> h_sta := h_sta c OR RXOVERR \<rparr>
      | (Done, Receiving a) \<Rightarrow> if h_len c = 0 then c else c\<lparr> h_sta := h_sta c OR TXUNDERR \<rparr>
      | _ \<Rightarrow> c)"

definition host_sdio :: "bool \<Rightarrow> host sdio" where
  "host_sdio hc = \<lparr>
     sdio_setup = (\<lambda>_ c. c),
     SDIO_GetPowerState = (\<lambda>_. 3),
     SDIO_SendCommand = host_command hc,
     STA = (\<lambda>c. (h_sta c, c)),
     SDIO_GetCommandResponse = h_cmd,
     SDIO_GetResponse = (\<lambda>i c. if i = 1 then h_resp c else 0),
     SDIO_ClearFlag = (\<lambda>f c. c\<lparr> h_sta := h_sta c AND NOT f \<rparr>),
     SDIO_DataConfig = (\<lambda>len bs dir en c. c\<lparr> h_len := if en then unat len else 0 \<rparr>),
     SDIO_DMACmd = (\<lambda>on c. if on then c else c\<lparr> h_chan := Off \<rparr>),
     SDIO_ITConfig = (\<lambda>m on c. c\<lparr> h_mask := if on then h_mask c OR m else h_mask c AND NOT m \<rparr>),
     SDIO_ReadData = (\<lambda>c. (0, c)),
     DMA_channel = (\<lambda>dir b n c. c\<lparr> h_chan := Run dir (4 * (unat b div 4)) (unat (ucast n :: u16)) \<rparr>),
     DMA_TC4 = (\<lambda>c. (h_chan c = Done, tick c)),
     SDIO_IRQ = (\<lambda>c. h_sta c AND h_mask c \<noteq> 0),
     pass_time = tick \<rparr>"

section \<open>It keeps the laws of the bus\<close>

definition host_ready :: "sd_card \<Rightarrow> host \<Rightarrow> bool" where
  "host_ready k c \<longleftrightarrow> h_card c = k \<and> h_phase c = Tran \<and> h_sta c = 0 \<and> h_mask c = 0 \<and> h_resp c AND SD_CARD_LOCKED = 0"

definition x_mask :: "xfer \<Rightarrow> u32" where "x_mask x = (if x = Writing then tx_mask else rx_mask)"

definition host_moving :: "xfer \<Rightarrow> sd_card \<Rightarrow> mem \<Rightarrow> nat \<Rightarrow> host \<Rightarrow> bool" where
  "host_moving x k m t c \<longleftrightarrow> h_sta c = 0 \<and> h_mask c = x_mask x \<and> h_len c = 512 * t \<and> 0 < t \<and> h_resp c AND SD_CARD_LOCKED = 0 \<and>
     (case x of
        Writing \<Rightarrow> \<exists>a b. h_phase c = Receiving (512 * a) \<and> h_chan c = Run ToCard b (128 * t) \<and> h_mem c = m \<and> a + t \<le> cblocks k \<and>
          k = (h_card c)\<lparr> cbytes := mem_put (cbytes (h_card c)) (512 * a) (mem_get m b (512 * t)) \<rparr>
      | _ \<Rightarrow> \<exists>a b. h_phase c = Sending (512 * a) (x = Multi) \<and> h_chan c = Run ToSDIO b (128 * t) \<and> h_card c = k \<and> a + t \<le> cblocks k \<and>
          (x = Single \<longrightarrow> t = 1) \<and> m = mem_put (h_mem c) b (mem_get (cbytes k) (512 * a) (512 * t)))"

definition host_moved :: "xfer \<Rightarrow> sd_card \<Rightarrow> mem \<Rightarrow> bool \<Rightarrow> host \<Rightarrow> bool" where
  "host_moved x k m e c \<longleftrightarrow> h_chan c = Done \<and> h_card c = k \<and> h_mem c = m \<and> h_len c = 0 \<and> h_resp c AND SD_CARD_LOCKED = 0 \<and>
     (if e then h_sta c = 0 \<and> h_mask c = 0 \<and> h_phase c = (if x = Writing then Prog 3 else Tran)
      else h_sta c = DATAEND \<and> h_mask c = x_mask x \<and>
        (case x of Single \<Rightarrow> h_phase c = Tran | Multi \<Rightarrow> \<exists>a. h_phase c = Sending a True | Writing \<Rightarrow> \<exists>a. h_phase c = Receiving a))"

definition host_going :: "xfer \<Rightarrow> sd_card \<Rightarrow> mem \<Rightarrow> bool \<Rightarrow> bool \<Rightarrow> nat \<Rightarrow> host \<Rightarrow> bool" where
  "host_going x k m d e t c \<longleftrightarrow> \<not> d \<and> \<not> e \<and> host_moving x k m t c \<or> host_moved x k m e c"

definition host_programming :: "sd_card \<Rightarrow> nat \<Rightarrow> host \<Rightarrow> bool" where
  "host_programming k t c \<longleftrightarrow> h_card c = k \<and> h_sta c = 0 \<and> h_mask c = 0 \<and> h_resp c AND SD_CARD_LOCKED = 0 \<and> (h_phase c = Tran \<and> t = 0 \<or> h_phase c = Prog t)"

definition host_dead :: "host \<Rightarrow> bool" where
  "host_dead c \<longleftrightarrow> h_sta c AND DATAEND = 0 \<and> (\<exists>b a. h_chan c = Run ToSDIO b 0 \<and> h_phase c = Sending a True)"

lemma host_sdio_fields [simp]:
  "SDIO_SendCommand (host_sdio hc) = host_command hc" "STA (host_sdio hc) c = (h_sta c, c)" "SDIO_GetCommandResponse (host_sdio hc) = h_cmd"
  "SDIO_GetResponse (host_sdio hc) 1 = h_resp" "SDIO_GetResponse (host_sdio hc) (Suc 0) = h_resp"
  "SDIO_ClearFlag (host_sdio hc) f c = c\<lparr> h_sta := h_sta c AND NOT f \<rparr>"
  "SDIO_DataConfig (host_sdio hc) len bs dir en c = c\<lparr> h_len := if en then unat len else 0 \<rparr>"
  "SDIO_DMACmd (host_sdio hc) on c = (if on then c else c\<lparr> h_chan := Off \<rparr>)"
  "SDIO_ITConfig (host_sdio hc) m on c = c\<lparr> h_mask := if on then h_mask c OR m else h_mask c AND NOT m \<rparr>"
  "DMA_channel (host_sdio hc) dir b n c = c\<lparr> h_chan := Run dir (4 * (unat b div 4)) (unat (ucast n :: u16)) \<rparr>"
  "DMA_TC4 (host_sdio hc) c = (h_chan c = Done, tick c)" "SDIO_IRQ (host_sdio hc) c = (h_sta c AND h_mask c \<noteq> 0)"
  "pass_time (host_sdio hc) = tick"
  by (simp_all add: host_sdio_def fun_eq_iff)

lemma state_bits_ok [simp]: "r1_error (state_bits p) = SD_OK" "state_bits p AND SD_CARD_LOCKED = 0"
  by (cases p; simp add: state_bits_def r1_error_def SD_OCR_ERRORBITS_def SD_CARD_LOCKED_def)+

lemma host_accepts:
  assumes "h_sta c = 0 \<or> h_sta c = DATAEND" "card_command hc (h_card c) arg cmd (h_phase c) = (0, p)" "legal cmd (h_phase c)"
  shows "accepted (host_sdio hc) arg cmd c (c\<lparr> h_sta := 0, h_cmd := cmd, h_resp := state_bits p, h_phase := p \<rparr>)"
proof -
  let ?c = "host_command hc arg cmd Response_Short c"
  have c: "?c = c\<lparr> h_sta := h_sta c OR CMDREND, h_cmd := cmd, h_resp := state_bits p, h_phase := p \<rparr>" using assms(2,3) by (simp add: host_command_def)
  have f: "responded (h_sta ?c)" "h_sta ?c AND CTIMEOUT = 0" "h_sta ?c AND CCRCFAIL = 0" "h_sta ?c AND NOT SDIO_STATIC_FLAGS = 0"
    using assms(1) unfolding c
    by (auto simp: responded_def CMDREND_def CTIMEOUT_def CCRCFAIL_def DATAEND_def SDIO_STATIC_FLAGS_def)
  have "resp_wait (host_sdio hc) ?c = Some (h_sta ?c, ?c)" by (subst resp_wait.simps) (simp add: f(1))
  then show ?thesis using f unfolding accepted_def by (simp add: c)
qed

lemmas host_defs = host_ready_def host_going_def host_moving_def host_moved_def host_programming_def host_dead_def x_mask_def
lemmas host_flags = rx_mask_def tx_mask_def irq_mask_def DCRCFAIL_def DTIMEOUT_def DATAEND_def RXOVERR_def TXUNDERR_def STBITERR_def TXFIFOHE_def RXFIFOHF_def
lemmas host_commands = card_command_def legal_def SET_BLOCKLEN_def READ_SINGLE_BLOCK_def READ_MULT_BLOCK_def WRITE_MULT_BLOCK_def STOP_TRANSMISSION_def
  SEND_STATUS_def APP_CMD_def SET_BLOCK_COUNT_def

lemma legal_simps [simp]:
  "legal cmd Tran \<longleftrightarrow> cmd \<noteq> STOP_TRANSMISSION" "legal SEND_STATUS p" "legal STOP_TRANSMISSION (Sending a multi)"
  "legal STOP_TRANSMISSION (Receiving a)" "READ_SINGLE_BLOCK \<noteq> STOP_TRANSMISSION" "READ_MULT_BLOCK \<noteq> STOP_TRANSMISSION"
  "WRITE_MULT_BLOCK \<noteq> STOP_TRANSMISSION"
  by (simp_all add: legal_def SEND_STATUS_def APP_CMD_def STOP_TRANSMISSION_def READ_SINGLE_BLOCK_def READ_MULT_BLOCK_def WRITE_MULT_BLOCK_def)

lemma host_addr: "a < 2 ^ 23 \<Longrightarrow> byte_addr hc (of_nat (if hc then a else 512 * a)) = 512 * a"
  by (simp add: byte_addr_def unat_of_nat take_bit_nat_eq_self del: of_nat_mult)

lemma word_count: "unat (ucast (of_nat (128 * n) :: u32) :: u16) = 128 * n" if "n < 512"
  using that by (simp add: unsigned_ucast_eq take_bit_nat_eq_self unat_of_nat del: of_nat_mult)

lemma word_count_0: "unat (ucast (of_nat (128 * (512 * m)) :: u32) :: u16) = 0"
  by (simp add: unsigned_ucast_eq unat_of_nat take_bit_take_bit del: of_nat_mult) (simp add: take_bit_eq_mod mod_mod_cancel)

lemma byte_count: "unat (of_nat (512 * n) :: u32) = 512 * n" if "n < 512"
  using that by (simp add: unat_of_nat take_bit_nat_eq_self del: of_nat_mult)

text \<open>A block that moves.\<close>

lemma mem_blocks: "mem_put m b (mem_get c a (512 + n)) = mem_put (mem_put m b (mem_get c a 512)) (b + 512) (mem_get c (a + 512) n)"
  by (simp add: mem_get_add mem_put_append)

lemma after_block_keeps [simp]: "h_mem (after_block dir b cnt c) = h_mem c" "h_card (after_block dir b cnt c) = h_card c"
  by (simp_all add: after_block_def Let_def)

lemma tick_moving:
  assumes "host_moving x k m t c"
  shows "if t = 1 then host_moved x k m False (tick c) else host_moving x k m (t - 1) (tick c)"
proof -
  obtain n where n: "t = Suc n" using assms by (cases t) (auto simp: host_moving_def)
  have k1: "512 * Suc n = 512 + 512 * n" "128 * Suc n - 128 = 128 * n" by simp_all
  consider (rd) "x \<noteq> Writing" | (wr) "x = Writing" by blast
  then show ?thesis
  proof cases
    case rd
    then obtain a b where ab: "h_phase c = Sending (512 * a) (x = Multi)" "h_chan c = Run ToSDIO b (128 * t)" "h_card c = k" "a + t \<le> cblocks k"
        "x = Single \<longrightarrow> t = 1" "m = mem_put (h_mem c) b (mem_get (cbytes k) (512 * a) (512 * t))"
      using assms by (cases x) (auto simp: host_moving_def)
    have c: "h_sta c = 0" "h_mask c = x_mask x" "h_len c = 512 * t" "h_resp c AND SD_CARD_LOCKED = 0" using assms by (auto simp: host_moving_def)
    have t: "tick c = after_block ToSDIO b (128 * t) (c\<lparr> h_mem := mem_put (h_mem c) b (mem_get (cbytes k) (512 * a) 512),
        h_phase := (if x = Multi then Sending (512 * a + 512) True else Tran) \<rparr>)"
      using ab c n by (simp add: tick_def)
    show ?thesis
    proof (cases n)
      case 0
      then show ?thesis using ab c n rd unfolding t by (cases x) (auto simp: after_block_def host_moved_def)
    next
      case (Suc j)
      then have x: "x = Multi" using rd ab(5) n by (cases x) auto
      have "m = mem_put (h_mem (tick c)) (b + 512) (mem_get (cbytes k) (512 * Suc a) (512 * n))"
        unfolding t ab(6) n k1 mem_blocks by (simp add: add.commute)
      then show ?thesis using ab(1-4) c n Suc x unfolding t by (auto simp: after_block_def host_moving_def intro!: exI [of _ "Suc a"])
    qed
  next
    case wr
    then obtain a b where ab: "h_phase c = Receiving (512 * a)" "h_chan c = Run ToCard b (128 * t)" "h_mem c = m" "a + t \<le> cblocks k"
        "k = (h_card c)\<lparr> cbytes := mem_put (cbytes (h_card c)) (512 * a) (mem_get m b (512 * t)) \<rparr>"
      using assms by (auto simp: host_moving_def)
    have c: "h_sta c = 0" "h_mask c = x_mask x" "h_len c = 512 * t" "h_resp c AND SD_CARD_LOCKED = 0" using assms by (auto simp: host_moving_def)
    have k: "cblocks k = cblocks (h_card c)" by (subst ab(5)) simp
    have t: "tick c = after_block ToCard b (128 * t) (c\<lparr> h_card := (h_card c)\<lparr> cbytes := mem_put (cbytes (h_card c)) (512 * a) (mem_get m b 512) \<rparr>,
        h_phase := Receiving (512 * a + 512) \<rparr>)"
      using ab(1-4) c n k by (simp add: tick_def)
    show ?thesis
    proof (cases n)
      case 0
      then show ?thesis using ab c n wr unfolding t by (auto simp: after_block_def host_moved_def)
    next
      case (Suc j)
      have "k = (h_card (tick c))\<lparr> cbytes := mem_put (cbytes (h_card (tick c))) (512 * Suc a) (mem_get m (b + 512) (512 * n)) \<rparr>"
        unfolding t by (subst ab(5)) (simp only: n k1 mem_blocks, simp add: add.commute)
      then show ?thesis
        using ab(1-4) c n Suc wr unfolding t by (auto simp: after_block_def host_moving_def intro!: exI [of _ "Suc a"])
    qed
  qed
qed

lemma tick_moved: "host_moved x k m e c \<Longrightarrow> tick c = c"
  by (cases x; cases e) (auto simp: host_moved_def tick_def split: if_splits)

lemma host_going_tc:
  assumes "host_going x k m d e t c" "\<not> SDIO_IRQ (host_sdio hc) c" "DMA_TC4 (host_sdio hc) c = (tc, c')"
  shows "(tc \<longrightarrow> host_going x k m True e t c' \<and> (x = Single \<longrightarrow> e)) \<and> (\<not> tc \<longrightarrow> (\<exists>t' < t. host_going x k m d e t' c'))"
proof (cases "host_moved x k m e c")
  case True
  then have "e" using assms(2) by (cases e; cases x) (auto simp: host_moved_def x_mask_def host_flags)
  then show ?thesis using True assms(3) tick_moved [OF True] by (auto simp: host_going_def host_moved_def)
next
  case False
  then have m: "\<not> d" "\<not> e" "host_moving x k m t c" using assms(1) by (auto simp: host_going_def)
  then have "h_chan c \<noteq> Done" "0 < t" by (cases x; auto simp: host_moving_def)+
  then show ?thesis using tick_moving [OF m(3)] assms(3) m(1,2) by (auto simp: host_going_def split: if_splits intro!: exI [of _ "t - 1"])
qed

lemma host_read:
  assumes "host_ready k c" "a < 2 ^ 23" "a + n \<le> cblocks k" "0 < n" "n < 512" "dma_buffer buf" "multi \<longleftrightarrow> n > 1"
    "cmd = (if multi then READ_MULT_BLOCK else READ_SINGLE_BLOCK)"
  shows "\<exists>c' t. accepted (host_sdio hc) (of_nat (if hc then a else 512 * a)) cmd (SDIO_DataConfig (host_sdio hc) (of_nat (512 * n)) 0x90 ToSDIO True c) c' \<and>
    host_moving (if multi then Multi else Single) k (mem_put (h_mem c) (unat buf) (mem_get (cbytes k) (512 * a) (512 * n))) t
      (DMA_channel (host_sdio hc) ToSDIO buf (of_nat (128 * n)) (SDIO_DMACmd (host_sdio hc) True (SDIO_ITConfig (host_sdio hc) rx_mask True c')))"
proof -
  let ?c = "SDIO_DataConfig (host_sdio hc) (of_nat (512 * n)) 0x90 ToSDIO True c" and ?arg = "of_nat (if hc then a else 512 * a) :: u32"
  have "card_command hc (h_card ?c) ?arg cmd (h_phase ?c) = (0, Sending (512 * a) multi)"
    using assms unfolding card_command_def host_addr [OF assms(2)]
    by (auto simp: host_ready_def READ_MULT_BLOCK_def READ_SINGLE_BLOCK_def)
  then have "accepted (host_sdio hc) ?arg cmd ?c (?c\<lparr> h_sta := 0, h_cmd := cmd, h_resp := state_bits (Sending (512 * a) multi), h_phase := Sending (512 * a) multi \<rparr>)"
    (is "accepted _ _ _ _ ?c'") using assms(1,8) by (intro host_accepts) (simp_all add: host_ready_def)
  moreover have "host_moving (if multi then Multi else Single) k (mem_put (h_mem c) (unat buf) (mem_get (cbytes k) (512 * a) (512 * n))) n
      (DMA_channel (host_sdio hc) ToSDIO buf (of_nat (128 * n)) (SDIO_DMACmd (host_sdio hc) True (SDIO_ITConfig (host_sdio hc) rx_mask True ?c')))"
    using assms by (auto simp: host_moving_def host_ready_def dma_buffer_def x_mask_def word_count byte_count simp del: of_nat_mult)
  ultimately show ?thesis by blast
qed

lemma host_ready_accepts:
  assumes "host_ready k c" "card_command hc k arg cmd Tran = (0, Tran)" "cmd \<noteq> STOP_TRANSMISSION"
  shows "\<exists>c'. accepted (host_sdio hc) arg cmd c c' \<and> host_ready k c' \<and> h_mem c' = h_mem c"
  using assms host_accepts [of c hc arg cmd Tran] by (intro exI [of _ "c\<lparr> h_sta := 0, h_cmd := cmd, h_resp := state_bits Tran, h_phase := Tran \<rparr>"])
    (simp add: host_ready_def)

lemma host_write:
  assumes "host_ready k c" "a < 2 ^ 23" "a + n \<le> cblocks k" "1 < n" "n < 512" "dma_buffer buf"
  shows "\<exists>c1 c2 c3 t. accepted (host_sdio hc) (push_bit 16 rca) APP_CMD c c1 \<and> accepted (host_sdio hc) (of_nat n) SET_BLOCK_COUNT c1 c2 \<and>
    accepted (host_sdio hc) (of_nat (if hc then a else 512 * a)) WRITE_MULT_BLOCK c2 c3 \<and>
    host_moving Writing (k\<lparr> cbytes := mem_put (cbytes k) (512 * a) (mem_get (h_mem c) (unat buf) (512 * n)) \<rparr>) (h_mem c) t
      (DMA_channel (host_sdio hc) ToCard buf (of_nat (128 * n)) (SDIO_DMACmd (host_sdio hc) True (SDIO_ITConfig (host_sdio hc) tx_mask True
        (SDIO_DataConfig (host_sdio hc) (of_nat (512 * n)) 0x90 ToCard True c3))))"
proof -
  obtain c1 where c1: "accepted (host_sdio hc) (push_bit 16 rca) APP_CMD c c1" "host_ready k c1" "h_mem c1 = h_mem c"
    using host_ready_accepts [OF assms(1), of hc "push_bit 16 rca" APP_CMD] by (auto simp: host_commands)
  obtain c2 where c2: "accepted (host_sdio hc) (of_nat n) SET_BLOCK_COUNT c1 c2" "host_ready k c2" "h_mem c2 = h_mem c"
    using host_ready_accepts [OF c1(2), of hc "of_nat n" SET_BLOCK_COUNT] c1(3) by (auto simp: host_commands)
  let ?arg = "of_nat (if hc then a else 512 * a) :: u32"
  have "card_command hc (h_card c2) ?arg WRITE_MULT_BLOCK (h_phase c2) = (0, Receiving (512 * a))"
    using c2(2) assms(3,4) unfolding card_command_def host_addr [OF assms(2)]
    by (simp add: host_ready_def READ_MULT_BLOCK_def READ_SINGLE_BLOCK_def WRITE_MULT_BLOCK_def)
  then have "accepted (host_sdio hc) ?arg WRITE_MULT_BLOCK c2
      (c2\<lparr> h_sta := 0, h_cmd := WRITE_MULT_BLOCK, h_resp := state_bits (Receiving (512 * a)), h_phase := Receiving (512 * a) \<rparr>)"
    (is "accepted _ _ _ _ ?c3") using c2(2) by (intro host_accepts) (simp_all add: host_ready_def)
  moreover have "host_moving Writing (k\<lparr> cbytes := mem_put (cbytes k) (512 * a) (mem_get (h_mem c) (unat buf) (512 * n)) \<rparr>) (h_mem c) n
      (DMA_channel (host_sdio hc) ToCard buf (of_nat (128 * n)) (SDIO_DMACmd (host_sdio hc) True (SDIO_ITConfig (host_sdio hc) tx_mask True
        (SDIO_DataConfig (host_sdio hc) (of_nat (512 * n)) 0x90 ToCard True ?c3))))"
    using assms(3-6) c2(2,3) by (auto simp: host_moving_def host_ready_def dma_buffer_def x_mask_def word_count byte_count simp del: of_nat_mult)
  ultimately show ?thesis using c1(1) c2(1) by blast
qed

lemma host_irq:
  assumes "host_going x k m d False t c" "SDIO_IRQ (host_sdio hc) c"
  shows "\<exists>st c1 c2. STA (host_sdio hc) c = (st, c1) \<and> st AND DATAEND \<noteq> 0 \<and>
    (if x = Single then c2 = c1 else accepted (host_sdio hc) 0 STOP_TRANSMISSION c1 c2) \<and>
    host_going x k m d True t (SDIO_ITConfig (host_sdio hc) irq_mask False (SDIO_ClearFlag (host_sdio hc) DATAEND c2))"
proof -
  have m: "host_moved x k m False c" using assms by (cases x) (auto simp: host_going_def host_moving_def)
  define p where "p = (if x = Writing then Prog 3 else Tran)"
  define c2 where "c2 = (if x = Single then c else c\<lparr> h_sta := 0, h_cmd := STOP_TRANSMISSION, h_resp := state_bits p, h_phase := p \<rparr>)"
  have "x \<noteq> Single \<longrightarrow> card_command hc (h_card c) 0 STOP_TRANSMISSION (h_phase c) = (0, p)"
    using m by (cases x) (auto simp: host_moved_def p_def card_command_def STOP_TRANSMISSION_def READ_MULT_BLOCK_def READ_SINGLE_BLOCK_def WRITE_MULT_BLOCK_def)
  then have a: "if x = Single then c2 = c else accepted (host_sdio hc) 0 STOP_TRANSMISSION c c2"
    using m host_accepts [of c hc 0 STOP_TRANSMISSION p] by (cases x) (auto simp: c2_def host_moved_def)
  have "host_moved x k m True (SDIO_ITConfig (host_sdio hc) irq_mask False (SDIO_ClearFlag (host_sdio hc) DATAEND c2))"
    using m by (cases x) (simp_all add: host_moved_def c2_def p_def x_mask_def host_flags)
  then show ?thesis using a m by (intro exI [of _ "h_sta c"] exI [of _ c] exI [of _ c2]) (simp add: host_going_def host_moved_def DATAEND_def)
qed

lemma host_programming_status:
  assumes "host_programming k t c"
  shows "\<exists>c'. accepted (host_sdio hc) arg SEND_STATUS c c' \<and> h_mem c' = h_mem c \<and>
    (if drop_bit 9 (SDIO_GetResponse (host_sdio hc) 1 c') AND 0xF \<in> {6, 7} then \<exists>t' < t. host_programming k t' c' else host_ready k c')"
proof -
  define p where "p = (if t \<le> 1 then Tran else Prog (t - 1))"
  have "card_command hc (h_card c) arg SEND_STATUS (h_phase c) = (0, p)"
    using assms by (auto simp: host_programming_def p_def host_commands)
  then have "accepted (host_sdio hc) arg SEND_STATUS c (c\<lparr> h_sta := 0, h_cmd := SEND_STATUS, h_resp := state_bits p, h_phase := p \<rparr>)"
    using assms by (intro host_accepts) (simp_all add: host_programming_def)
  then show ?thesis
    using assms by (intro exI [of _ "c\<lparr> h_sta := 0, h_cmd := SEND_STATUS, h_resp := state_bits p, h_phase := p \<rparr>"])
      (auto simp: host_programming_def host_ready_def p_def state_bits_def SD_CARD_LOCKED_def)
qed

lemma host_read_dead:
  assumes "host_ready k c" "a < 2 ^ 23" "a + 512 * n \<le> cblocks k" "0 < n"
  shows "\<exists>c'. accepted (host_sdio hc) (of_nat (if hc then a else 512 * a)) READ_MULT_BLOCK (SDIO_DataConfig (host_sdio hc) len 0x90 ToSDIO True c) c' \<and>
    host_dead (DMA_channel (host_sdio hc) ToSDIO buf (of_nat (128 * (512 * n))) (SDIO_DMACmd (host_sdio hc) True (SDIO_ITConfig (host_sdio hc) rx_mask True c')))"
proof -
  let ?c = "SDIO_DataConfig (host_sdio hc) len 0x90 ToSDIO True c" and ?arg = "of_nat (if hc then a else 512 * a) :: u32"
  let ?p = "Sending (512 * a) True"
  have "card_command hc (h_card ?c) ?arg READ_MULT_BLOCK (h_phase ?c) = (0, ?p)"
    using assms unfolding card_command_def host_addr [OF assms(2)] by (simp add: host_ready_def READ_MULT_BLOCK_def READ_SINGLE_BLOCK_def)
  then have "accepted (host_sdio hc) ?arg READ_MULT_BLOCK ?c (?c\<lparr> h_sta := 0, h_cmd := READ_MULT_BLOCK, h_resp := state_bits ?p, h_phase := ?p \<rparr>)"
    using assms(1) by (intro host_accepts) (simp_all add: host_ready_def)
  then show ?thesis
    by (intro exI [of _ "?c\<lparr> h_sta := 0, h_cmd := READ_MULT_BLOCK, h_resp := state_bits ?p, h_phase := ?p \<rparr>"])
      (use word_count_0 [of n] in \<open>simp add: host_dead_def del: of_nat_mult\<close>)
qed

lemma host_dead_steps:
  "host_dead c \<Longrightarrow> \<exists>c'. DMA_TC4 (host_sdio hc) c = (False, c') \<and> host_dead c'"
  "host_dead c \<Longrightarrow> STA (host_sdio hc) c = (st, c') \<Longrightarrow> st AND DATAEND = 0 \<and> host_dead c'"
  "host_dead c \<Longrightarrow> host_dead (SDIO_ClearFlag (host_sdio hc) f c) \<and> host_dead (SDIO_ITConfig (host_sdio hc) g b c)"
proof -
  have z: "w AND DATAEND = 0 \<Longrightarrow> (w AND NOT f) AND DATAEND = 0" for w f :: u32
    by (simp add: and.assoc and.commute [of "NOT f"]) (simp flip: and.assoc)
  have o: "w AND DATAEND = 0 \<Longrightarrow> (w OR RXOVERR) AND DATAEND = 0" for w :: u32
    by (simp add: bit.conj_disj_distrib2 DATAEND_def RXOVERR_def)
  show "host_dead c \<Longrightarrow> \<exists>c'. DMA_TC4 (host_sdio hc) c = (False, c') \<and> host_dead c'" by (auto simp: host_dead_def tick_def o)
  show "host_dead c \<Longrightarrow> STA (host_sdio hc) c = (st, c') \<Longrightarrow> st AND DATAEND = 0 \<and> host_dead c'" by (auto simp: host_dead_def)
  show "host_dead c \<Longrightarrow> host_dead (SDIO_ClearFlag (host_sdio hc) f c) \<and> host_dead (SDIO_ITConfig (host_sdio hc) g b c)"
    by (auto simp: host_dead_def z)
qed

interpretation host: sd_bus "host_sdio hc" hc rca h_mem host_ready host_moving host_going host_programming host_dead for hc rca
proof unfold_locales
  fix k c c' assume "host_ready k c" "c' = SDIO_DMACmd (host_sdio hc) False (SDIO_DataConfig (host_sdio hc) 0 0 ToCard False c)"
  then show "host_ready k c' \<and> h_mem c' = h_mem c" by (simp add: host_ready_def)
next
  fix k c assume r: "host_ready k c"
  show "SDIO_GetResponse (host_sdio hc) 1 c AND SD_CARD_LOCKED = 0" using r by (simp add: host_ready_def)
  show "\<exists>c'. accepted (host_sdio hc) 512 SET_BLOCKLEN c c' \<and> host_ready k c' \<and> h_mem c' = h_mem c"
    by (rule host_ready_accepts [OF r]) (simp_all add: host_commands)
  show "\<exists>c' t. accepted (host_sdio hc) (push_bit 16 rca) SEND_STATUS c c' \<and> host_ready k c' \<and> h_mem c' = h_mem c"
    using host_ready_accepts [OF r, of hc "push_bit 16 rca" SEND_STATUS] by (simp add: host_commands)
  show "\<exists>t. host_programming k t (SDIO_ClearFlag (host_sdio hc) SDIO_STATIC_FLAGS c) \<and> h_mem (SDIO_ClearFlag (host_sdio hc) SDIO_STATIC_FLAGS c) = h_mem c"
    using r by (auto simp: host_ready_def host_programming_def)
next
  fix k c a and arg buf :: u32
  assume "host_ready k c" "a < 2 ^ 23" "a < cblocks k" "arg = of_nat (if hc then a else 512 * a)" "dma_buffer buf"
  then show "\<exists>c' t. accepted (host_sdio hc) arg READ_SINGLE_BLOCK (SDIO_DataConfig (host_sdio hc) 512 0x90 ToSDIO True c) c' \<and>
      host_moving Single k (mem_put (h_mem c) (unat buf) (mem_get (cbytes k) (512 * a) 512)) t
        (DMA_channel (host_sdio hc) ToSDIO buf 128 (SDIO_DMACmd (host_sdio hc) True (SDIO_ITConfig (host_sdio hc) rx_mask True c')))"
    using host_read [of k c a 1 buf False READ_SINGLE_BLOCK hc] by simp
next
  fix k c a n and arg buf :: u32
  assume a: "host_ready k c" "a < 2 ^ 23" "a + n \<le> cblocks k" "arg = of_nat (if hc then a else 512 * a)" "1 < n" "n < 512" "dma_buffer buf"
  show "\<exists>c' t. accepted (host_sdio hc) arg READ_MULT_BLOCK (SDIO_DataConfig (host_sdio hc) (of_nat (512 * n)) 0x90 ToSDIO True c) c' \<and>
      host_moving Multi k (mem_put (h_mem c) (unat buf) (mem_get (cbytes k) (512 * a) (512 * n))) t
        (DMA_channel (host_sdio hc) ToSDIO buf (of_nat (128 * n)) (SDIO_DMACmd (host_sdio hc) True (SDIO_ITConfig (host_sdio hc) rx_mask True c')))"
    using host_read [of k c a n buf True READ_MULT_BLOCK hc] a by (simp del: of_nat_mult)
  show "\<exists>c1 c2 c3 t. accepted (host_sdio hc) (push_bit 16 rca) APP_CMD c c1 \<and> accepted (host_sdio hc) (of_nat n) SET_BLOCK_COUNT c1 c2 \<and>
      accepted (host_sdio hc) arg WRITE_MULT_BLOCK c2 c3 \<and>
      host_moving Writing (k\<lparr> cbytes := mem_put (cbytes k) (512 * a) (mem_get (h_mem c) (unat buf) (512 * n)) \<rparr>) (h_mem c) t
        (DMA_channel (host_sdio hc) ToCard buf (of_nat (128 * n)) (SDIO_DMACmd (host_sdio hc) True (SDIO_ITConfig (host_sdio hc) tx_mask True
          (SDIO_DataConfig (host_sdio hc) (of_nat (512 * n)) 0x90 ToCard True c3))))"
    unfolding a(4) by (rule host_write [OF a(1-3,5-7)])
next
  fix x k m d e t c tc c'
  show "host_going x k m d e t c \<Longrightarrow> \<not> SDIO_IRQ (host_sdio hc) c \<Longrightarrow> DMA_TC4 (host_sdio hc) c = (tc, c') \<Longrightarrow>
      (tc \<longrightarrow> host_going x k m True e t c' \<and> (x = Single \<longrightarrow> e)) \<and> (\<not> tc \<longrightarrow> (\<exists>t' < t. host_going x k m d e t' c'))"
    by (rule host_going_tc)
  show "host_moving x k m t c \<Longrightarrow> host_going x k m False False t c \<and> \<not> SDIO_IRQ (host_sdio hc) c"
    by (cases x) (simp_all add: host_going_def host_moving_def)
  show "host_going x k m True False t c \<Longrightarrow>
      SDIO_IRQ (host_sdio hc) (pass_time (host_sdio hc) c) \<and> host_going x k m True False t (pass_time (host_sdio hc) c) \<or>
      \<not> SDIO_IRQ (host_sdio hc) (pass_time (host_sdio hc) c) \<and> (\<exists>t' < t. host_going x k m True False t' (pass_time (host_sdio hc) c))"
    by (auto simp: host_going_def tick_moved) (auto simp: host_moved_def x_mask_def host_flags split: if_splits)
  show "host_going x k m d True t c \<Longrightarrow> \<not> SDIO_IRQ (host_sdio hc) c"
    by (simp add: host_going_def host_moved_def)
  show "host_going x k m d False t c \<Longrightarrow> SDIO_IRQ (host_sdio hc) c \<Longrightarrow>
      \<exists>st c1 c2. STA (host_sdio hc) c = (st, c1) \<and> st AND DATAEND \<noteq> 0 \<and>
        (if x = Single then c2 = c1 else accepted (host_sdio hc) 0 STOP_TRANSMISSION c1 c2) \<and>
        host_going x k m d True t (SDIO_ITConfig (host_sdio hc) irq_mask False (SDIO_ClearFlag (host_sdio hc) DATAEND c2))"
    by (rule host_irq)
  show "host_going Single k m True True t c \<Longrightarrow> host_ready k c \<and> h_mem c = m" "host_going Multi k m True True t c \<Longrightarrow> host_ready k c \<and> h_mem c = m"
    by (simp_all add: host_going_def host_moved_def host_ready_def)
  show "host_going Writing k m True True t c \<Longrightarrow>
      \<exists>t'. host_programming k t' (SDIO_ClearFlag (host_sdio hc) SDIO_STATIC_FLAGS c) \<and> h_mem (SDIO_ClearFlag (host_sdio hc) SDIO_STATIC_FLAGS c) = m"
    by (auto simp: host_going_def host_moved_def host_programming_def)
  show "host_programming k t c \<Longrightarrow>
      \<exists>c'. accepted (host_sdio hc) (push_bit 16 rca) SEND_STATUS c c' \<and> h_mem c' = h_mem c \<and>
        (if drop_bit 9 (SDIO_GetResponse (host_sdio hc) 1 c') AND 0xF \<in> {6, 7} then \<exists>t' < t. host_programming k t' c' else host_ready k c')"
    by (rule host_programming_status)
next
  fix k c a n and arg buf :: u32
  assume a: "host_ready k c" "a < 2 ^ 23" "a + 512 * n \<le> cblocks k" "arg = of_nat (if hc then a else 512 * a)" "0 < n" "n < 128"
  show "\<exists>c'. accepted (host_sdio hc) arg READ_MULT_BLOCK (SDIO_DataConfig (host_sdio hc) (of_nat (512 * (512 * n))) 0x90 ToSDIO True c) c' \<and>
      host_dead (DMA_channel (host_sdio hc) ToSDIO buf (of_nat (128 * (512 * n))) (SDIO_DMACmd (host_sdio hc) True (SDIO_ITConfig (host_sdio hc) rx_mask True c')))"
    unfolding a(4) by (rule host_read_dead [OF a(1-3,5)])
qed (fact host_dead_steps)+

end
