(* ===== verification/Mmc.thy ===== *)
theory Mmc
  imports Part_Dos Sd_Host
begin

text \<open>
  The memory card: the driver \<^verbatim>\<open>drivers/mmc/stm32f10x_mmc.c\<close> and the command \<^verbatim>\<open>mmc\<close> of \<^verbatim>\<open>common/cmd_mmc.c\<close>.

  \<open>sd_mmc_up\<close>, \<open>sd_mmc_read\<close> and \<open>sd_mmc_write\<close> are the driver on the card controller of \<open>Sd_Card\<close>. The code above the driver sees
  less of it: a reader \<open>sd\<close>, to which a byte address, a block size of 16 bits and a number of blocks give the status and the
  bytes stored, and \<open>info\<close>, the description of the card, None when one of the steps that bring the card up fails. \<open>sd_read\<close> is
  the reader of a card that holds bytes, and the driver on a controller with that card refines it.
\<close>

section \<open>The code\<close>

subsection \<open>On the controller\<close>

text \<open>The steps that bring a card up; \<open>ci\<close> is what the automatic variable for the description holds before.\<close>

definition sd_mmc_up :: "'c sdio \<Rightarrow> SD_CardInfo \<Rightarrow> 'c sdcard \<Rightarrow> (SD_CardInfo option \<times> 'c sdcard) option" where
  "sd_mmc_up H ci s =
     do { (e, s1) \<leftarrow> SD_Init H s;
          let cardInfo = SD_GetCardInfo s1 ci;
          (e2, s2) \<leftarrow> (if e \<noteq> SD_OK then Some (e, s1)
                      else sd_then (SD_SelectDeselect H (push_bit 16 (ucast (info_RCA cardInfo))) s1) (SD_EnableWideBusOperation H SDIO_BusWide_4b));
          Some (if e2 = SD_OK then Some cardInfo else None, s2) }"

definition sd_mmc_read :: "'c sdio \<Rightarrow> u32 \<Rightarrow> u32 \<Rightarrow> u32 \<Rightarrow> u32 \<Rightarrow> 'c sdcard \<Rightarrow> (u32 \<times> 'c sdcard) option" where
  "sd_mmc_read H blksz start blkcnt buffer s =
     do { (status, s1) \<leftarrow> (if blkcnt = 1 then SD_ReadBlock H (push_bit 9 start) buffer (ucast blksz) s
                           else SD_ReadMultiBlocks H (push_bit 9 start) buffer (ucast blksz) blkcnt s);
          Some (if status = SD_OK then blkcnt else 0, s1) }"

definition sd_mmc_write :: "'c sdio \<Rightarrow> u32 \<Rightarrow> u32 \<Rightarrow> u32 \<Rightarrow> u32 \<Rightarrow> 'c sdcard \<Rightarrow> (u32 \<times> 'c sdcard) option" where
  "sd_mmc_write H blksz start blkcnt buffer s =
     do { (status, s1) \<leftarrow> SD_WriteMultiBlocks H start buffer (ucast blksz) blkcnt s;
          Some (if status = SD_OK then blkcnt else 0, s1) }"

subsection \<open>For the code above\<close>

type_synonym sd_reader = "u32 \<Rightarrow> u16 \<Rightarrow> u32 \<Rightarrow> SD_Error \<times> char list"

text \<open>One block is read with \<^verbatim>\<open>SD_ReadBlock\<close>, any other number with \<^verbatim>\<open>SD_ReadMultiBlocks\<close>; both are \<open>sd\<close>.\<close>

definition mmc_read_block :: "sd_reader \<Rightarrow> u32 \<Rightarrow> block_reader" where
  "mmc_read_block sd blksz start blkcnt =
     (let (status, bs) = sd (push_bit 9 start) (ucast blksz) blkcnt
      in (if status = SD_OK then blkcnt else 0, bs))"

definition mmc_blkdev_0 :: block_dev_desc where
  "mmc_blkdev_0 = \<lparr> if_type = IF_TYPE_UNKNOWN, dev_no = 0, part_type = PART_TYPE_UNKNOWN, target = 0, lun = 0, dev_type = 0,
     removable = False, dev_lba = 0, blk_size = 0, vendor = [], product = [], revision = [], block_read = None \<rparr>"

definition hexn :: "u32 \<Rightarrow> int \<Rightarrow> string" where
  "hexn v w = number (ucast v) 16 w (-1) (if w = -1 then SMALL else ZEROPAD OR SMALL)"

text \<open>The result is the device and the value returned, which is 0 also when no card answers.\<close>

definition mmc_legacy_init :: "SD_CardInfo option \<Rightarrow> sd_reader \<Rightarrow> block_dev_desc \<Rightarrow> (block_dev_desc \<times> int) option" where
  "mmc_legacy_init info sd d =
     (case info of
        None \<Rightarrow> Some (d, 0)
      | Some ci \<Rightarrow>
          do { d' \<leftarrow> init_part (d\<lparr> dev_lba := CardCapacity ci div CardBlockSize ci, if_type := IF_TYPE_MMC, part_type := PART_TYPE_DOS,
                 blk_size := CardBlockSize ci, dev_type := info_CardType ci, dev_no := 0,
                 block_read := Some (mmc_read_block sd (CardBlockSize ci)),
                 vendor := ''Man '' @ hexn (ucast (ManufacturerID (SD_cid ci))) 2 @ hexn (ucast (OEM_AppliID (SD_cid ci))) 4 @ '' Snr '' @ hexn (ProdSN (SD_cid ci)) 8,
                 product := takeWhile (\<lambda>c. c \<noteq> NUL) [char_of (unat (ProdName1 (SD_cid ci))), char_of (unat (ProdName2 (SD_cid ci)))],
                 revision := hexn (ucast (drop_bit 4 (ProdRev (SD_cid ci)))) (-1) @ '' '' @ hexn (ucast (ProdRev (SD_cid ci) AND 0x0f)) (-1) \<rparr>);
               Some (d', 0) })"

definition mmc_get_dev :: "block_dev_desc \<Rightarrow> int \<Rightarrow> block_dev_desc" where "mmc_get_dev d _ = d"

text \<open>\<^verbatim>\<open>get_dev\<close> with the one driver of the board: a name that begins with its name is enough.\<close>

definition get_dev :: "block_dev_desc \<Rightarrow> string \<Rightarrow> int \<Rightarrow> block_dev_desc option" where
  "get_dev d ifname n = (if take 3 ifname = ''mmc'' then Some (mmc_get_dev d n) else None)"

record mmc_state =
  mmc_blkdev :: block_dev_desc
  curr_device :: int
  mmc_out :: string

definition mmc_say :: "string \<Rightarrow> mmc_state \<Rightarrow> mmc_state" where "mmc_say t s = s\<lparr> mmc_out := mmc_out s @ t \<rparr>"

definition decarg :: "string \<Rightarrow> int" where "decarg a = sint (fst (simple_strtoul a 10))"

definition do_mmc_init :: "SD_CardInfo option \<Rightarrow> sd_reader \<Rightarrow> int \<Rightarrow> mmc_state \<Rightarrow> (mmc_state \<times> int) option" where
  "do_mmc_init info sd n s =
     do { (d, rc) \<leftarrow> mmc_legacy_init info sd (mmc_blkdev s);
          let s' = s\<lparr> mmc_blkdev := d \<rparr>;
          Some (if rc \<noteq> 0 then (mmc_say (''No MMC card found'' @ nl) s', 1)
                else (mmc_say (''mmc'' @ dec n @ '' is available'' @ nl) (s'\<lparr> curr_device := n \<rparr>), 0)) }"

definition do_mmc :: "SD_CardInfo option \<Rightarrow> sd_reader \<Rightarrow> string \<Rightarrow> string list \<Rightarrow> mmc_state \<Rightarrow> (mmc_state \<times> int) option" where
  "do_mmc info sd usage argv s =
     (if length argv < 2 then Some (mmc_say usage s, 1)
      else if argv ! 1 = ''init''
      then if length argv = 2 then do_mmc_init info sd (if curr_device s < 0 then 1 else curr_device s) s
           else if length argv = 3 then do_mmc_init info sd (decarg (argv ! 2)) s
           else Some (mmc_say usage s, 1)
      else if argv ! 1 = ''device''
      then if length argv = 2
           then Some (if curr_device s < 0 then (mmc_say (''No MMC device available'' @ nl) s, 1)
                      else (mmc_say (''mmc'' @ dec (curr_device s) @ '' is current device'' @ nl) s, 0))
           else if length argv = 3
           then let n = decarg (argv ! 2)
                in Some (mmc_say (''mmc'' @ dec n @ '' is current device'' @ nl) (s\<lparr> curr_device := n \<rparr>), 0)
           else Some (mmc_say usage s, 1)
      else Some (mmc_say usage s, 1))"

section \<open>A card that holds bytes\<close>

text \<open>A card serves fewer than 512 blocks of 512 bytes that lie on it, at a byte address. The driver on the controller ends a longer
  run with an error or not at all, and no use is made of one here.\<close>

definition on_card :: "sd_card \<Rightarrow> u32 \<Rightarrow> u16 \<Rightarrow> u32 \<Rightarrow> bool" where
  "on_card c a bs n \<longleftrightarrow> bs = 512 \<and> 512 dvd unat a \<and> unat a div 512 + unat n \<le> cblocks c \<and> unat n < 512"

definition sd_read :: "sd_card \<Rightarrow> sd_reader" where
  "sd_read c a bs n = (if on_card c a bs n then (SD_OK, mem_get (cbytes c) (unat a) (512 * unat n)) else (SD_ADDR_OUT_OF_RANGE, []))"

definition reachable_blocks :: "sd_card \<Rightarrow> nat" where
  "reachable_blocks c = min (cblocks c) (2 ^ 23)"

lemma unat_push_9: "unat s < 2 ^ 23 \<Longrightarrow> unat (push_bit 9 s) = 512 * unat s" for s :: u32
  by (simp add: push_bit_eq_mult unat_word_ariths)

lemma mmc_read_eq:
  assumes "unat s + unat n \<le> reachable_blocks c" "unat n < 2 ^ 9"
  shows "mmc_read_block (sd_read c) 512 s n = (n, mem_get (cbytes c) (512 * unat s) (512 * unat n))"
proof (cases "unat s < 2 ^ 23")
  case True
  then show ?thesis using assms by (simp add: mmc_read_block_def sd_read_def on_card_def unat_push_9 reachable_blocks_def)
next
  case False
  then have "unat s = 2 ^ 23" "unat n = 0" using assms by (auto simp: reachable_blocks_def)
  then have "s = 0x800000" "n = 0" by (simp_all add: word_unat_eq_iff)
  then show ?thesis by (simp add: mmc_read_block_def sd_read_def on_card_def)
qed

interpretation mmc: block_device "\<lambda>c. mmc_read_block (sd_read c) 512" cbytes reachable_blocks
  by unfold_locales (rule mmc_read_eq)

section \<open>The driver on the controller\<close>

text \<open>The controller with the card \<open>k\<close> in the transfer state, and what the driver knows of it.\<close>

definition host_selected :: "bool \<Rightarrow> sd_card \<Rightarrow> host sdcard \<Rightarrow> bool" where
  "host_selected hc k s \<longleftrightarrow> host_ready k (hw s) \<and> is_sd (CardType s) \<and> (CardType s = SDIO_HIGH_CAPACITY_SD_CARD \<longleftrightarrow> hc)"

lemma host_selected_iff: "host_selected hc k s \<longleftrightarrow> host.selected hc (RCA s) k s"
  by (auto simp: host_selected_def host.selected_def host.known_def)

lemma host_selectedI: "host.selected hc rca k s \<Longrightarrow> host_selected hc k s"
  by (simp add: host_selected_def host.selected_def host.known_def)

lemma sd_mmc_read_ok:
  assumes "host_selected hc k s" "unat start < 2 ^ 23" "unat start + unat n \<le> cblocks k" "dma_buffer buf" "unat n < 512"
  shows "\<exists>s'. sd_mmc_read (host_sdio hc) 512 start n buf s = Some (n, s') \<and> host_selected hc k s' \<and>
    h_mem (hw s') = mem_put (h_mem (hw s)) (unat buf) (mem_get (cbytes k) (512 * unat start) (512 * unat n))"
proof -
  note sel = assms(1) [unfolded host_selected_iff]
  have u: "of_nat (unat start) = start" by simp
  show ?thesis
  proof (cases "n = 1")
    case True
    then show ?thesis
      using host.SD_ReadBlock_ok [OF sel assms(2) _ assms(4)] assms(3) u by (auto simp: sd_mmc_read_def dest: host_selectedI)
  next
    case False
    then show ?thesis
      using host.SD_ReadMultiBlocks_ok [OF sel assms(2-4) False assms(5)] u by (auto simp: sd_mmc_read_def dest: host_selectedI)
  qed
qed

lemma byte_address: "unat addr = 512 * a \<Longrightarrow> addr = push_bit 9 (of_nat a)" for addr :: u32
proof -
  assume "unat addr = 512 * a"
  then have "addr = of_nat (512 * a)" by (metis of_nat_unat ucast_id)
  then show ?thesis by (simp add: push_bit_eq_mult mult.commute)
qed

lemma SD_write_ok:
  assumes "host_selected hc k s" "unat addr = 512 * a" "a + unat n \<le> cblocks k" "dma_buffer buf" "1 < n" "unat n < 512"
  shows "\<exists>s'. SD_WriteMultiBlocks (host_sdio hc) addr buf 512 n s = Some (SD_OK, s') \<and> h_mem (hw s') = h_mem (hw s) \<and>
    host_selected hc (k\<lparr> cbytes := mem_put (cbytes k) (512 * a) (mem_get (h_mem (hw s)) (unat buf) (512 * unat n)) \<rparr>) s'"
proof -
  have a: "a < 2 ^ 23" using assms(2) unsigned_less [of addr, where 'a = nat] by simp
  have "addr = (if hc then push_bit 9 (of_nat a) else of_nat (512 * a))" using byte_address [OF assms(2)] by (simp add: push_bit_eq_mult mult.commute)
  then show ?thesis
    using host.SD_WriteMultiBlocks_ok [OF assms(1) [unfolded host_selected_iff] a assms(3-6)] by (auto dest: host_selectedI)
qed

text \<open>A card with 1024 blocks, each filled with its number, in the transfer state.\<close>

definition sample_card :: sd_card where
  "sample_card = \<lparr> cbytes = (\<lambda>a. char_of (a div 512)), cblocks = 1024 \<rparr>"

definition sample_host :: "bool \<Rightarrow> host sdcard" where
  "sample_host hc = \<lparr> hw = \<lparr> h_card = sample_card, h_mem = (\<lambda>_. CHR ''x''), h_sta = 0, h_mask = 0, h_cmd = 0, h_resp = 0, h_len = 0,
       h_chan = Off, h_phase = Tran \<rparr>, CardType = (if hc then SDIO_HIGH_CAPACITY_SD_CARD else SDIO_STD_CAPACITY_SD_CARD_V1_1), CSD_Tab = [], CID_Tab = [],
     RCA = 1, TransferError = SD_OK, TransferEnd = 0, NumberOfBytes = 0, TotalNumberOfBytes = 0, StopCondition = 0 \<rparr>"

lemma sample_host_selected: "host_selected hc sample_card (sample_host hc)"
  by (simp add: host_selected_def sample_host_def host_ready_def is_sd_def SDIO_HIGH_CAPACITY_SD_CARD_def SDIO_STD_CAPACITY_SD_CARD_V1_1_def)

section \<open>Properties\<close>

text \<open>C37: Reading blocks through the card controller is reading the bytes of the card: on the command protocol of the card, the data
  path, the DMA channel and the interrupt handler, the driver ends, reports all blocks, leaves the card ready for the next transfer
  and puts into the buffer what the abstract reader of the code above gives, for fewer than 512 blocks and an aligned buffer.\<close>

theorem sd_mmc_read_refines:
  assumes "host_selected hc k s" "unat start < 2 ^ 23" "unat start + unat n \<le> cblocks k" "dma_buffer buf" "unat n < 512"
  shows "\<exists>s'. sd_mmc_read (host_sdio hc) 512 start n buf s = Some (fst (mmc_read_block (sd_read k) 512 start n), s') \<and> host_selected hc k s' \<and>
    h_mem (hw s') = mem_put (h_mem (hw s)) (unat buf) (snd (mmc_read_block (sd_read k) 512 start n))"
proof (cases "unat start + unat n \<le> 2 ^ 23")
  case True
  then show ?thesis using sd_mmc_read_ok [OF assms] mmc_read_eq [of start n k] assms(3,5) by (simp add: reachable_blocks_def)
next
  case False
  have "mmc_read_block (sd_read k) 512 start n = (n, mem_get (cbytes k) (512 * unat start) (512 * unat n))"
    using assms(2,3,5) by (simp add: mmc_read_block_def sd_read_def on_card_def unat_push_9)
  then show ?thesis using sd_mmc_read_ok [OF assms] by simp
qed

theorem sd_mmc_read_refines_witness:
  "\<exists>s'. sd_mmc_read (host_sdio True) 512 3 2 0x20000000 (sample_host True) = Some (fst (mmc_read_block (sd_read sample_card) 512 3 2), s') \<and>
    host_selected True sample_card s' \<and>
    h_mem (hw s') = mem_put (h_mem (hw (sample_host True))) 0x20000000 (snd (mmc_read_block (sd_read sample_card) 512 3 2))"
  using sd_mmc_read_refines [OF sample_host_selected, of 3 2 "0x20000000" True] by (simp add: sample_card_def dma_buffer_def)

text \<open>A write of one block is lost. The driver reports it as done, but it only sends the commands for the block size and the
  status, and the card and the memory are as before.\<close>

theorem sd_mmc_write_one_lost:
  assumes "host_selected hc k s" "buf \<noteq> 0"
  shows "\<exists>s'. sd_mmc_write (host_sdio hc) 512 start 1 buf s = Some (1, s') \<and> host_selected hc k s' \<and> h_mem (hw s') = h_mem (hw s)"
  using host.SD_WriteMultiBlocks_one [OF assms(1) [unfolded host_selected_iff] assms(2), of 1 start]
  by (auto simp: sd_mmc_write_def dest: host_selectedI)

theorem sd_mmc_write_one_lost_witness:
  "\<exists>s'. sd_mmc_write (host_sdio False) 512 5 1 0x20000000 (sample_host False) = Some (1, s') \<and> host_selected False sample_card s' \<and>
    h_mem (hw s') = h_mem (hw (sample_host False))"
  by (rule sd_mmc_write_one_lost [OF sample_host_selected]) simp

text \<open>C40: A write of several blocks goes to the wrong place. The number of the first block is taken for a byte address: the blocks
  from \<open>start div 512\<close> on are overwritten, and what is read back as the blocks that were to be written is what was there before.\<close>

theorem sd_mmc_write_wrong_block:
  assumes "host_selected hc k s" "unat start = 512 * a" "0 < a" "unat start + unat n \<le> cblocks k" "unat start < 2 ^ 23" "dma_buffer buf" "dma_buffer buf2"
    "1 < n" "unat n < 512"
  shows "\<exists>s1 s2. sd_mmc_write (host_sdio hc) 512 start n buf s = Some (n, s1) \<and>
    host_selected hc (k\<lparr> cbytes := mem_put (cbytes k) (512 * a) (mem_get (h_mem (hw s)) (unat buf) (512 * unat n)) \<rparr>) s1 \<and>
    sd_mmc_read (host_sdio hc) 512 start n buf2 s1 = Some (n, s2) \<and>
    mem_get (h_mem (hw s2)) (unat buf2) (512 * unat n) = mem_get (cbytes k) (512 * unat start) (512 * unat n)"
proof -
  have "a + unat n \<le> cblocks k" using assms(2,4) by linarith
  from SD_write_ok [OF assms(1,2) this assms(6,8,9)] obtain s1 where
    s1: "SD_WriteMultiBlocks (host_sdio hc) start buf 512 n s = Some (SD_OK, s1)" "h_mem (hw s1) = h_mem (hw s)"
      "host_selected hc (k\<lparr> cbytes := mem_put (cbytes k) (512 * a) (mem_get (h_mem (hw s)) (unat buf) (512 * unat n)) \<rparr>) s1"
    by blast
  then have w: "sd_mmc_write (host_sdio hc) 512 start n buf s = Some (n, s1)" by (simp add: sd_mmc_write_def)
  have "512 * a + 512 * unat n \<le> 512 * unat start" using assms(2,3,9) by linarith
  then show ?thesis
    using sd_mmc_read_ok [OF s1(3) assms(5) _ assms(7,9)] assms(4) w s1(3) mem_get_put [of _ "unat buf2" "mem_get _ _ (512 * unat n)"]
    by (auto simp: mem_get_put_disjoint)
qed

theorem sd_mmc_write_wrong_block_witness:
  "\<exists>s1 s2. sd_mmc_write (host_sdio False) 512 512 2 0x20000000 (sample_host False) = Some (2, s1) \<and>
    host_selected False (sample_card\<lparr> cbytes := mem_put (cbytes sample_card) 512 (replicate 1024 (CHR ''x'')) \<rparr>) s1 \<and>
    sd_mmc_read (host_sdio False) 512 512 2 0x20001000 s1 = Some (2, s2) \<and>
    mem_get (h_mem (hw s2)) 0x20001000 1024 = mem_get (cbytes sample_card) 262144 1024"
proof -
  have "mem_get (\<lambda>_. CHR ''x'') p n = replicate n (CHR ''x'')" for p n by (simp add: mem_get_def map_replicate_const)
  then show ?thesis
    using sd_mmc_write_wrong_block [OF sample_host_selected, of 512 1 2 "0x20000000" "0x20001000" False]
    by (simp add: sample_card_def dma_buffer_def sample_host_def)
qed

text \<open>C38: What the driver writes to a card it reads back. Between 2 and 511 blocks are written from one aligned buffer: the write succeeds, the memory is as
  before, the card holds the bytes of the buffer at the address and its other bytes as before, and it has finished programming, so
  that it takes the next command. They are then read into another aligned buffer, which holds the same bytes, and the card keeps them.\<close>

theorem SD_write_read:
  assumes "host_selected hc k s" "unat addr = 512 * a" "a + unat n \<le> cblocks k" "dma_buffer src" "dma_buffer dst" "1 < n" "unat n < 512"
    "k' = k\<lparr> cbytes := mem_put (cbytes k) (512 * a) (mem_get (h_mem (hw s)) (unat src) (512 * unat n)) \<rparr>"
  shows "\<exists>s1 s2. SD_WriteMultiBlocks (host_sdio hc) addr src 512 n s = Some (SD_OK, s1) \<and> host_selected hc k' s1 \<and> h_mem (hw s1) = h_mem (hw s) \<and>
    SD_ReadMultiBlocks (host_sdio hc) addr dst 512 n s1 = Some (SD_OK, s2) \<and> host_selected hc k' s2 \<and>
    mem_get (h_mem (hw s2)) (unat dst) (512 * unat n) = mem_get (h_mem (hw s)) (unat src) (512 * unat n)"
proof -
  obtain s1 where s1: "SD_WriteMultiBlocks (host_sdio hc) addr src 512 n s = Some (SD_OK, s1)" "h_mem (hw s1) = h_mem (hw s)" "host_selected hc k' s1"
    using SD_write_ok [OF assms(1-4,6,7)] assms(8) by blast
  have a: "a < 2 ^ 23" using assms(2) unsigned_less [of addr, where 'a = nat] by simp
  have addr: "addr = push_bit 9 (of_nat a)" by (rule byte_address [OF assms(2)])
  have "n \<noteq> 1" "a + unat n \<le> cblocks k'" using assms(3,6,8) by auto
  then obtain s2 where "SD_ReadMultiBlocks (host_sdio hc) addr dst 512 n s1 = Some (SD_OK, s2)" "host_selected hc k' s2"
      "h_mem (hw s2) = mem_put (h_mem (hw s1)) (unat dst) (mem_get (cbytes k') (512 * a) (512 * unat n))"
    using host.SD_ReadMultiBlocks_ok [OF s1(3) [unfolded host_selected_iff] a _ assms(5) _ assms(7)] unfolding addr by (auto dest: host_selectedI)
  then show ?thesis using s1 assms(8) mem_get_put [of _ _ "mem_get _ _ (512 * unat n)"] by simp
qed

theorem SD_write_read_witness:
  "\<exists>s1 s2. SD_WriteMultiBlocks (host_sdio True) 512 0x20000000 512 2 (sample_host True) = Some (SD_OK, s1) \<and> h_phase (hw s1) = Tran \<and>
    SD_ReadMultiBlocks (host_sdio True) 512 0x20001000 512 2 s1 = Some (SD_OK, s2) \<and>
    mem_get (h_mem (hw s2)) 0x20001000 1024 = mem_get (h_mem (hw (sample_host True))) 0x20000000 1024"
  using SD_write_read [OF sample_host_selected, of 512 1 2 "0x20000000" "0x20001000" _ True]
  by (simp add: sample_card_def dma_buffer_def host_selected_def host_ready_def) blast

text \<open>C39: A read of 512 blocks, or of a multiple, never ends: the channel counts words in 16 bits, and the driver waits for it although
  its interrupt handler has noted that the receiver overran.\<close>

theorem sd_mmc_read_stuck:
  assumes "host_selected hc k s" "unat start < 2 ^ 23" "unat start + 512 * m \<le> cblocks k" "buf \<noteq> 0" "0 < m" "m < 128"
  shows "sd_mmc_read (host_sdio hc) 512 start (of_nat (512 * m)) buf s = None"
proof -
  have "unat (of_nat (512 * m) :: u32) = 512 * m" by (rule byte_count) (use assms(6) in simp)
  then have "of_nat (512 * m) \<noteq> (1 :: u32)" by (metis assms(5) less_numeral_extra(3) mult_is_0 nat_mult_eq_1_iff num.distinct(1) one_eq_numeral_iff unat_1)
  then show ?thesis
    using host.SD_ReadMultiBlocks_stuck [OF assms(1) [unfolded host_selected_iff] assms(2-6)] by (simp add: sd_mmc_read_def)
qed

theorem sd_mmc_read_stuck_witness: "sd_mmc_read (host_sdio False) 512 0 512 0x20000000 (sample_host False) = None"
  using sd_mmc_read_stuck [OF sample_host_selected, of 0 1 "0x20000000" False] by (simp add: sample_card_def)

text \<open>The command \<^verbatim>\<open>mmc init\<close> reports a card even when there is none: the driver's start-up gives 0 on every path.\<close>

theorem do_mmc_init_without_card:
  "do_mmc None sd usage [''mmc'', ''init''] s =
    (let n = (if curr_device s < 0 then 1 else curr_device s)
     in Some (mmc_say (''mmc'' @ dec n @ '' is available'' @ nl) (s\<lparr> curr_device := n \<rparr>), 0))"
  by (simp add: do_mmc_def do_mmc_init_def mmc_legacy_init_def Let_def)

end
