(* ===== verification/Fat.thy ===== *)
theory Fat
  imports Mmc
begin

text \<open>
  The read-only FAT file system \<^verbatim>\<open>fs/fat/fat.c\<close>: the code.

  Everything sectors are read into is in one memory: the cache for FAT sectors, the three static arrays for directories, the
  arrays on the stack and the buffer a file is loaded to. Their addresses are in \<open>fat_layout\<close>
  and in \<open>fatbuf\<close>; nothing in the definitions keeps them apart, as nothing in the code does. The three static arrays have
  \<open>MAX_CLUSTSIZE\<close> = 255 bytes each and the code reads whole clusters into them, so that it writes behind their ends; the
  model does the same. The variables \<^verbatim>\<open>cur_dev\<close>, \<^verbatim>\<open>part_offset\<close> and \<^verbatim>\<open>cur_part\<close> are values of \<open>fat_globals\<close> here; \<open>global_words\<close> says
  where their words are in the memory, for statements about what the code may overwrite. A directory entry is read
  from its 32 bytes, and names are strings. \<^verbatim>\<open>FAT_DPRINT\<close> is empty in the board's build, \<^verbatim>\<open>FAT2CPU16\<close> and
  \<^verbatim>\<open>FAT2CPU32\<close> are the identity on a little-endian processor.

  Loops over directories, links and paths that may never end have no result then (None); nor has a long name that is written
  behind the end of the array \<^verbatim>\<open>l_name\<close> of 256 bytes, which is a local variable and not in the memory of the model.
\<close>

section \<open>Devices and sectors\<close>

record fat_globals =
  cur_dev :: "block_dev_desc option"
  part_offset :: u32
  cur_part :: int

record fat_layout =
  get_vfatname_block :: addr
  get_dentfromdir_block :: addr
  do_fat_read_block :: addr
  tmpbuf :: addr
  bootblock :: addr
  global_words :: "addr list"

record fsdata =
  fatbuf :: addr
  fatsize :: nat
  fatlength :: u16
  fat_sect :: u16
  rootdir_sect :: u16
  clust_size :: u16
  data_begin :: u16
  fatbufnum :: u32

definition MAX_CLUSTSIZE :: nat where "MAX_CLUSTSIZE = 255"
definition FS_BLOCK_SIZE :: u32 where "FS_BLOCK_SIZE = 512"
definition FATBUFBLOCKS :: u32 where "FATBUFBLOCKS = 6"
definition FATBUFSIZE :: u32 where "FATBUFSIZE = FS_BLOCK_SIZE * FATBUFBLOCKS"

definition disk_read :: "fat_globals \<Rightarrow> u32 \<Rightarrow> u32 \<Rightarrow> addr \<Rightarrow> mem \<Rightarrow> int \<times> mem" where
  "disk_read g startblock getsize bufptr m =
     (case cur_dev g of
        None \<Rightarrow> (-1, m)
      | Some d \<Rightarrow>
          (case block_read d of
             None \<Rightarrow> (-1, m)
           | Some br \<Rightarrow> let (n, bs) = br (startblock + part_offset g) getsize in (sint n, mem_put m bufptr bs)))"

text \<open>The result, the new globals and the text; no result when the partition table has none.\<close>

definition fat_register_device :: "fat_globals \<Rightarrow> block_dev_desc \<Rightarrow> int \<Rightarrow> (int \<times> fat_globals \<times> string) option" where
  "fat_register_device g d part_no =
     (case block_read d of
        None \<Rightarrow> Some (-1, g, [])
      | Some br \<Rightarrow>
          let g1 = g\<lparr> cur_dev := Some d \<rparr> in
          (case read_sector br 0 of
             None \<Rightarrow> Some (-1, g1, ''** Can'' @ [CHR 0x27] @ ''t read from device '' @ dec (dev_no d) @ '' **'' @ nl)
           | Some b \<Rightarrow>
               if bad_signature b then Some (-1, g1, [])
               else do { (info, t) \<leftarrow> get_partition_info d part_no;
                         Some (case info of
                                 Some i \<Rightarrow> (0, g1\<lparr> part_offset := part_start i, cur_part := part_no \<rparr>, t)
                               | None \<Rightarrow>
                                   if mem_get b 0x36 3 = ''FAT'' then (0, g1\<lparr> cur_part := 1, part_offset := 0 \<rparr>, t)
                                   else (-1, g1, t @ ''** Partition '' @ dec part_no @ '' not valid on device '' @ dec (dev_no d) @ '' **'' @ nl)) }))"

section \<open>Names\<close>

definition TOLOWER :: "char \<Rightarrow> char" where
  "TOLOWER c = (if 65 \<le> (of_char c :: nat) \<and> of_char c \<le> (90 :: nat) then char_of (of_char c + 32 :: nat) else c)"

definition downcase :: "string \<Rightarrow> string" where "downcase s = map TOLOWER s"

definition ISDIRDELIM :: "char \<Rightarrow> bool" where "ISDIRDELIM c \<longleftrightarrow> c = CHR ''/'' \<or> c = CHR 0x5C"

definition dirdelim :: "string \<Rightarrow> nat option" where
  "dirdelim s = (let i = length (takeWhile (\<lambda>c. \<not> ISDIRDELIM c) s) in if i < length s then Some i else None)"

record dir_entry =
  de_name :: string
  de_ext :: string
  de_attr :: u8
  de_starthi :: u16
  de_start :: u16
  de_size :: u32

definition load16 :: "mem \<Rightarrow> addr \<Rightarrow> u16" where
  "load16 m p = of_char (m p) OR push_bit 8 (of_char (m (p + 1)))"

definition dent :: "mem \<Rightarrow> addr \<Rightarrow> dir_entry" where
  "dent m p = \<lparr> de_name = mem_get m p 8, de_ext = mem_get m (p + 8) 3, de_attr = of_char (m (p + 11)), de_starthi = load16 m (p + 20),
     de_start = load16 m (p + 26), de_size = load32 m (p + 28) \<rparr>"

definition ATTR_VOLUME :: u8 where "ATTR_VOLUME = 8"
definition ATTR_DIR :: u8 where "ATTR_DIR = 16"
definition ATTR_VFAT :: u8 where "ATTR_VFAT = 0x0f"
definition DELETED_FLAG :: char where "DELETED_FLAG = CHR 0xE5"
definition aRING :: char where "aRING = CHR 0x05"
definition LAST_LONG_ENTRY_MASK :: u8 where "LAST_LONG_ENTRY_MASK = 0x40"

definition START :: "fsdata \<Rightarrow> dir_entry \<Rightarrow> u32" where
  "START d e = ucast (de_start e) + (if fatsize d \<noteq> 32 then 0 else push_bit 16 (ucast (de_starthi e)))"

definition CHECK_CLUST :: "u32 \<Rightarrow> nat \<Rightarrow> bool" where
  "CHECK_CLUST x fs \<longleftrightarrow> x \<le> 1 \<or> x \<ge> (if fs \<noteq> 32 then 0xfff0 else 0xffffff0)"

text \<open>The treatment of the first character that short and long names share.\<close>

definition first_char :: "string \<Rightarrow> string" where
  "first_char s =
     (case s of [] \<Rightarrow> [] | c # cs \<Rightarrow> if c = DELETED_FLAG then [] else if c = aRING then DELETED_FLAG # cs else s)"

definition name_end :: "char \<Rightarrow> bool" where "name_end c \<longleftrightarrow> c = NUL \<or> c = CHR '' ''"

definition get_name :: "dir_entry \<Rightarrow> string" where
  "get_name e =
     downcase (first_char (takeWhile (\<lambda>c. \<not> name_end c) (de_name e) @
       (if name_end (de_ext e ! 0) then [] else CHR ''.'' # takeWhile (\<lambda>c. \<not> name_end c) (de_ext e))))"

section \<open>The file allocation table\<close>

definition bufsize :: "nat \<Rightarrow> u32 option" where
  "bufsize fs = (if fs = 32 then Some (FATBUFSIZE div 4) else if fs = 16 then Some (FATBUFSIZE div 2)
                 else if fs = 12 then Some (FATBUFSIZE * 2 div 3) else None)"

text \<open>Reading a block of entries into the cache; False when the device refuses.\<close>

definition fill_fatbuf :: "fat_globals \<Rightarrow> fsdata \<Rightarrow> u32 \<Rightarrow> mem \<Rightarrow> bool \<times> fsdata \<times> mem" where
  "fill_fatbuf g d bufnum m =
     (if bufnum = fatbufnum d then (True, d, m)
      else let getsize = FATBUFSIZE div FS_BLOCK_SIZE;
               fatlen = ucast (fatlength d) * FS_BLOCK_SIZE;
               startblock = bufnum * FATBUFBLOCKS + ucast (fat_sect d);
               (r, m') = disk_read g startblock (if getsize > fatlen then fatlen else getsize) (fatbuf d) m
           in if r < 0 then (False, d, m') else (True, d\<lparr> fatbufnum := bufnum \<rparr>, m'))"

definition fat12_value :: "mem \<Rightarrow> addr \<Rightarrow> u32 \<Rightarrow> u32" where
  "fat12_value m buf offset =
     (let off16 = (offset * 3) div 4;
          w0 = load16 m (buf + 2 * unat off16);
          w1 = load16 m (buf + 2 * unat (off16 + 1))
      in if offset AND 3 = 0 then ucast w0 AND 0xfff
         else if offset AND 3 = 1 then push_bit 4 (ucast (w1 AND 0x00ff)) OR drop_bit 12 (ucast (w0 AND 0xf000))
         else if offset AND 3 = 2 then push_bit 8 (ucast (w1 AND 0x000f)) OR drop_bit 8 (ucast (w0 AND 0xff00))
         else drop_bit 4 (ucast w0 AND 0xfff0))"

definition get_fatent :: "fat_globals \<Rightarrow> fsdata \<Rightarrow> u32 \<Rightarrow> mem \<Rightarrow> u32 \<times> fsdata \<times> mem" where
  "get_fatent g d entry m =
     (case bufsize (fatsize d) of
        None \<Rightarrow> (0, d, m)
      | Some k \<Rightarrow>
          let bufnum = entry div k; offset = entry - bufnum * k;
              (ok, d', m') = fill_fatbuf g d bufnum m
          in if \<not> ok then (0, d', m')
             else (if fatsize d = 32 then load32 m' (fatbuf d' + 4 * unat offset)
                   else if fatsize d = 16 then ucast (load16 m' (fatbuf d' + 2 * unat offset))
                   else fat12_value m' (fatbuf d') offset, d', m'))"

section \<open>File contents\<close>

definition get_cluster :: "fat_globals \<Rightarrow> fat_layout \<Rightarrow> fsdata \<Rightarrow> u32 \<Rightarrow> addr \<Rightarrow> u32 \<Rightarrow> mem \<Rightarrow> int \<times> mem" where
  "get_cluster g L d clustnum buffer sz m =
     (let startsect = (if clustnum > 0 then scast (data_begin d) + clustnum * ucast (clust_size d) else ucast (rootdir_sect d));
          (r, m1) = disk_read g startsect (sz div FS_BLOCK_SIZE) buffer m
      in if r < 0 then (-1, m1)
         else if sz mod FS_BLOCK_SIZE \<noteq> 0
         then let idx = sz div FS_BLOCK_SIZE; (r2, m2) = disk_read g (startsect + idx) 1 (tmpbuf L) m1
              in if r2 < 0 then (-1, m2)
                 else (0, mem_put m2 (buffer + unat (idx * FS_BLOCK_SIZE)) (mem_get m2 (tmpbuf L) (unat (sz mod FS_BLOCK_SIZE))))
         else (0, m1))"

lemma check_clust_grows: "\<not> CHECK_CLUST n fs \<Longrightarrow> 2 ^ 32 - unat n < 2 ^ 32 - unat (n - 1)"
  using unsigned_less [of n, where ?'a = nat] by (auto simp: CHECK_CLUST_def unat_sub word_le_nat_alt)

text \<open>The search for consecutive clusters: how it ends, the last cluster, the bytes up to its end.\<close>

datatype run_end = Enough | Broken | Invalid

function find_run :: "fat_globals \<Rightarrow> fsdata \<Rightarrow> u32 \<Rightarrow> u32 \<Rightarrow> u32 \<Rightarrow> mem \<Rightarrow> run_end \<times> u32 \<times> u32 \<times> fsdata \<times> mem" where
  "find_run g d endclust actsize filesize m =
     (if actsize < filesize
      then let (newclust, d', m') = get_fatent g d endclust m
           in if newclust - 1 \<noteq> endclust then (Broken, endclust, actsize, d', m')
              else if CHECK_CLUST newclust (fatsize d) then (Invalid, endclust, actsize, d', m')
              else find_run g d' newclust (actsize + ucast (clust_size d) * FS_BLOCK_SIZE) filesize m'
      else (Enough, endclust, actsize, d, m))"
  by pat_completeness auto
termination
  by (relation "measure (\<lambda>(_, _, endclust, _). 2 ^ 32 - unat endclust)") (auto dest: check_clust_grows)

declare find_run.simps [simp del]

text \<open>The outer loop: one run of clusters after the other. The result is the value returned and the text.\<close>

partial_function (option) contents_loop ::
  "fat_globals \<Rightarrow> fat_layout \<Rightarrow> fsdata \<Rightarrow> u32 \<Rightarrow> addr \<Rightarrow> u32 \<Rightarrow> u32 \<Rightarrow> mem \<Rightarrow> (int \<times> mem \<times> string) option" where
  "contents_loop g L d curclust buffer filesize gotsize m =
     (let bytesperclust = ucast (clust_size d) * FS_BLOCK_SIZE;
          (e, endclust, actsize, d1, m1) = find_run g d curclust bytesperclust filesize m
      in case e of
           Invalid \<Rightarrow> Some (sint gotsize, m1, [])
         | Enough \<Rightarrow>
             let act = actsize - bytesperclust; (r, m2) = get_cluster g L d1 curclust buffer act m1
             in if r \<noteq> 0 then Some (-1, m2, ''Error reading cluster'' @ nl)
                else let rest = filesize - act; (r3, m3) = get_cluster g L d1 endclust (buffer + unat act) rest m2
                     in if r3 \<noteq> 0 then Some (-1, m3, ''Error reading cluster'' @ nl)
                        else Some (sint (gotsize + act + rest), m3, [])
         | Broken \<Rightarrow>
             let (r, m2) = get_cluster g L d1 curclust buffer actsize m1
             in if r \<noteq> 0 then Some (-1, m2, ''Error reading cluster'' @ nl)
                else let (newclust, d2, m3) = get_fatent g d1 endclust m2
                     in if CHECK_CLUST newclust (fatsize d2) then Some (sint (gotsize + actsize), m3, ''Invalid FAT entry'' @ nl)
                        else contents_loop g L d2 newclust (buffer + unat actsize) (filesize - actsize) (gotsize + actsize) m3)"

definition get_contents :: "fat_globals \<Rightarrow> fat_layout \<Rightarrow> fsdata \<Rightarrow> dir_entry \<Rightarrow> addr \<Rightarrow> u32 \<Rightarrow> mem \<Rightarrow> (int \<times> mem \<times> string) option" where
  "get_contents g L d e buffer maxsize m =
     contents_loop g L d (START d e) buffer (if maxsize > 0 \<and> de_size e > maxsize then maxsize else de_size e) 0 m"

section \<open>Long names\<close>

text \<open>The 13 characters of a slot, up to a zero: written to the array \<^verbatim>\<open>l_name\<close> behind those it has, with True when there was a
  zero, which is written too. The callers' array has 256 bytes (line 525 and line 791); a write behind its end has no result.\<close>

definition L_NAME_SIZE :: nat where "L_NAME_SIZE = 256"

definition slot_chars :: "mem \<Rightarrow> addr \<Rightarrow> string" where
  "slot_chars m p = map (\<lambda>j. m (p + j)) [1, 3, 5, 7, 9, 14, 16, 18, 20, 22, 24, 28, 30]"

definition slot2str :: "mem \<Rightarrow> addr \<Rightarrow> string \<Rightarrow> (bool \<times> string) option" where
  "slot2str m p l_name =
     (let t = takeWhile (\<lambda>c. c \<noteq> NUL) (slot_chars m p); zero = length t < 13
      in if length l_name + length t + (if zero then 1 else 0) \<le> L_NAME_SIZE then Some (zero, l_name @ t) else None)"

definition slot_seq :: "mem \<Rightarrow> addr \<Rightarrow> nat" where
  "slot_seq m p = unat (of_char (m p) AND NOT LAST_LONG_ENTRY_MASK :: u8)"

text \<open>The slots of a name, counted down; None when they are not numbered so.\<close>

fun slot_walk :: "mem \<Rightarrow> addr \<Rightarrow> nat \<Rightarrow> addr \<Rightarrow> addr option" where
  "slot_walk m nextclust 0 slotptr = Some slotptr"
| "slot_walk m nextclust (Suc counter) slotptr =
     (if slotptr < nextclust
      then if slot_seq m slotptr \<noteq> Suc counter then None else slot_walk m nextclust counter (slotptr + 32)
      else Some slotptr)"

partial_function (option) slot_first :: "mem \<Rightarrow> addr \<Rightarrow> addr option" where
  "slot_first m p = (if (of_char (m p) :: nat) > 1 then slot_first m (p + 32) else Some p)"

function slots_down :: "mem \<Rightarrow> addr \<Rightarrow> addr \<Rightarrow> string \<Rightarrow> string option" where
  "slots_down m block p l_name =
     (if block \<le> p
      then case slot2str m p l_name of
             None \<Rightarrow> None
           | Some (_, l) \<Rightarrow> if p < 32 then Some l else slots_down m block (p - 32) l
      else Some l_name)"
  by pat_completeness auto
termination by (relation "measure (\<lambda>(_, _, p, _). p)") auto

text \<open>The name collected from the slots before \<open>slotptr\<close>, back to the one that is marked as the last.\<close>

function name_down :: "mem \<Rightarrow> addr \<Rightarrow> string \<Rightarrow> string option" where
  "name_down m slotptr l_name =
     (if slotptr < 32 then None
      else let p = slotptr - 32
           in case slot2str m p l_name of
                None \<Rightarrow> None
              | Some (fin, l) \<Rightarrow> if fin \<or> (of_char (m p) :: u8) AND LAST_LONG_ENTRY_MASK \<noteq> 0 then Some l else name_down m p l)"
  by pat_completeness auto
termination by (relation "measure (\<lambda>(_, p, _). p)") auto

declare slots_down.simps [simp del] name_down.simps [simp del]

text \<open>The zero behind the name is written to the array too; then the first character and the letters are changed.\<close>

definition name_done :: "string \<Rightarrow> string option" where
  "name_done l = (if length l < L_NAME_SIZE then Some (downcase (first_char l)) else None)"

text \<open>The value returned, the name, and the entry at \<open>retdent\<close> in the memory replaced by the real one.\<close>

definition get_vfatname ::
  "fat_globals \<Rightarrow> fat_layout \<Rightarrow> fsdata \<Rightarrow> u32 \<Rightarrow> addr \<Rightarrow> addr \<Rightarrow> mem \<Rightarrow> (int \<times> string \<times> fsdata \<times> mem \<times> string) option" where
  "get_vfatname g L d curclust cluster retdent m =
     (let nextclust = cluster + unat (clust_size d) * 512 in
      case slot_walk m nextclust (slot_seq m retdent) retdent of
        None \<Rightarrow> Some (-1, [], d, m, [])
      | Some slotptr \<Rightarrow>
          if slotptr \<ge> nextclust
          then let (clust, d1, m1) = get_fatent g d curclust m
               in if CHECK_CLUST clust (fatsize d1) then Some (-1, [], d1, m1, ''Invalid FAT entry'' @ nl)
                  else let (r, m2) = get_cluster g L d1 clust (get_vfatname_block L) (ucast (clust_size d1) * FS_BLOCK_SIZE) m1
                       in if r \<noteq> 0 then Some (-1, [], d1, m2, [])
                          else do { p \<leftarrow> slot_first m2 (get_vfatname_block L);
                                    l0 \<leftarrow> slots_down m2 (get_vfatname_block L) p [];
                                    l1 \<leftarrow> name_down m2 (slotptr - 32) l0;
                                    l \<leftarrow> name_done l1;
                                    Some (0, l, d1, mem_put m2 retdent (mem_get m2 (p + 32) 32), []) }
          else do { l1 \<leftarrow> name_down m slotptr [];
                    l \<leftarrow> name_done l1;
                    Some (0, l, d, mem_put m retdent (mem_get m slotptr 32), []) })"

definition mkcksum :: "string \<Rightarrow> u8" where
  "mkcksum s = fold (\<lambda>c ret. (push_bit 7 (ret AND 1) OR drop_bit 1 (ret AND 0xfe)) + of_char c) (take 11 s) 0"

section \<open>Directories\<close>

record scan =
  sfs :: fsdata
  smem :: mem
  prevcksum :: u16
  files :: int
  dirs :: int
  sout :: string

definition scan_say :: "string \<Rightarrow> scan \<Rightarrow> scan" where "scan_say t s = s\<lparr> sout := sout s @ t \<rparr>"

definition is_dir :: "dir_entry \<Rightarrow> bool" where "is_dir e \<longleftrightarrow> de_attr e AND ATTR_DIR \<noteq> 0"

text \<open>An entry in a listing. \<open>named\<close>: whether a directory is listed only with a name.\<close>

definition ls_entry :: "bool \<Rightarrow> dir_entry \<Rightarrow> string \<Rightarrow> scan \<Rightarrow> scan" where
  "ls_entry named e name s =
     (if is_dir e
      then if named \<and> name = [] then s else scan_say (''            '' @ name @ ''/'' @ nl) (s\<lparr> dirs := dirs s + 1 \<rparr>)
      else if name = [] then s
      else scan_say ('' '' @ number (scast (de_size e)) 10 8 (-1) SIGN @ ''   '' @ name @ '' '' @ nl) (s\<lparr> files := files s + 1 \<rparr>))"

definition ls_summary :: "scan \<Rightarrow> scan" where
  "ls_summary s = scan_say (nl @ dec (files s) @ '' file(s), '' @ dec (dirs s) @ '' dir(s)'' @ nl @ nl) s"

definition is_long_slot :: "dir_entry \<Rightarrow> bool" where
  "is_long_slot e \<longleftrightarrow> de_attr e AND ATTR_VFAT \<noteq> 0 \<and> (of_char (de_name e ! 0) :: u8) AND LAST_LONG_ENTRY_MASK \<noteq> 0"

text \<open>The long name at \<open>ptr\<close>: the entry behind it replaces the slot.\<close>

definition long_name :: "fat_globals \<Rightarrow> fat_layout \<Rightarrow> u32 \<Rightarrow> addr \<Rightarrow> addr \<Rightarrow> scan \<Rightarrow> (string \<times> scan) option" where
  "long_name g L curclust cluster ptr s =
     do { (r, l, d, m, t) \<leftarrow> get_vfatname g L (sfs s) curclust cluster ptr (smem s);
          Some (l, s\<lparr> sfs := d, smem := m, prevcksum := of_char (smem s (ptr + 13)), sout := sout s @ t \<rparr>) }"

text \<open>The second half of the loop body of \<^verbatim>\<open>get_dentfromdir\<close>: on to the next entry (Inl) or a result (Inr).\<close>

definition dent_short :: "string \<Rightarrow> int \<Rightarrow> dir_entry \<Rightarrow> string \<Rightarrow> scan \<Rightarrow> scan + dir_entry option \<times> scan" where
  "dent_short filename dols e l_name s =
     (if de_name e ! 0 = NUL then Inr (None, if dols \<noteq> 0 then ls_summary s else s)
      else if dols \<noteq> 0 \<and> ucast (mkcksum (de_name e @ de_ext e)) = prevcksum s then Inl s
      else if dols \<noteq> 0 then Inl (ls_entry False e (get_name e) s)
      else if filename \<noteq> get_name e \<and> filename \<noteq> l_name then Inl s
      else Inr (Some e, s))"

definition dent_step ::
  "fat_globals \<Rightarrow> fat_layout \<Rightarrow> u32 \<Rightarrow> string \<Rightarrow> int \<Rightarrow> addr \<Rightarrow> scan \<Rightarrow> (scan + dir_entry option \<times> scan) option" where
  "dent_step g L curclust filename dols ptr s =
     (let e = dent (smem s) ptr in
      if de_name e ! 0 = DELETED_FLAG then Some (Inl s)
      else if de_attr e AND ATTR_VOLUME \<noteq> 0
      then if is_long_slot e
           then do { (l_name, s') \<leftarrow> long_name g L curclust (get_dentfromdir_block L) ptr s;
                     let e' = dent (smem s') ptr;
                     Some (if dols \<noteq> 0 then Inl (ls_entry False e' l_name s') else dent_short filename dols e' l_name s') }
           else Some (Inl s)
      else Some (dent_short filename dols e [] s))"

text \<open>The loop over the entries that both directory readers have.\<close>

primrec entries :: "(addr \<Rightarrow> scan \<Rightarrow> (scan + 'r \<times> scan) option) \<Rightarrow> nat \<Rightarrow> addr \<Rightarrow> scan \<Rightarrow> (scan + 'r \<times> scan) option" where
  "entries step 0 ptr s = Some (Inl s)"
| "entries step (Suc n) ptr s =
     do { r \<leftarrow> step ptr s; case r of Inl s' \<Rightarrow> entries step n (ptr + 32) s' | Inr x \<Rightarrow> Some (Inr x) }"

partial_function (option) dentfromdir_loop ::
  "fat_globals \<Rightarrow> fat_layout \<Rightarrow> string \<Rightarrow> int \<Rightarrow> u32 \<Rightarrow> scan \<Rightarrow> (dir_entry option \<times> scan) option" where
  "dentfromdir_loop g L filename dols curclust s =
     (let (r, m) = get_cluster g L (sfs s) curclust (get_dentfromdir_block L) (ucast (clust_size (sfs s)) * FS_BLOCK_SIZE) (smem s);
          s1 = s\<lparr> smem := m \<rparr>
      in if r \<noteq> 0 then Some (None, s1)
         else do { x \<leftarrow> entries (dent_step g L curclust filename dols) (unat (clust_size (sfs s)) * 512 div 32) (get_dentfromdir_block L) s1;
                   case x of
                     Inr (res, s2) \<Rightarrow> Some (res, s2)
                   | Inl s2 \<Rightarrow>
                       let (clust, d, m3) = get_fatent g (sfs s2) curclust (smem s2); s3 = s2\<lparr> sfs := d, smem := m3 \<rparr>
                       in if CHECK_CLUST clust (fatsize d) then Some (None, scan_say (''Invalid FAT entry'' @ nl) s3)
                          else dentfromdir_loop g L filename dols clust s3 })"

definition get_dentfromdir ::
  "fat_globals \<Rightarrow> fat_layout \<Rightarrow> fsdata \<Rightarrow> string \<Rightarrow> dir_entry \<Rightarrow> int \<Rightarrow> mem \<Rightarrow> (dir_entry option \<times> fsdata \<times> mem \<times> string) option" where
  "get_dentfromdir g L d filename retdent dols m =
     do { (r, s) \<leftarrow> dentfromdir_loop g L filename dols (START d retdent)
                      \<lparr> sfs = d, smem = m, prevcksum = 0xffff, files = 0, dirs = 0, sout = [] \<rparr>;
          Some (r, sfs s, smem s, sout s) }"

section \<open>The boot sector\<close>

record boot_sector =
  bs_cluster_size :: u8
  bs_reserved :: u16
  bs_fats :: u8
  bs_dir_entries :: nat
  bs_fat_length :: u16
  bs_secs_track :: u16
  bs_heads :: u16
  bs_total_sect :: u32
  bs_fat32_length :: u32
  bs_flags :: u16
  bs_root_cluster :: u32
  bs_info_sector :: u16
  bs_backup_boot :: u16

record volume_info =
  vi_volume_label :: string
  vi_fs_type :: string

definition boot_sector_at :: "mem \<Rightarrow> addr \<Rightarrow> boot_sector" where
  "boot_sector_at m p = \<lparr> bs_cluster_size = of_char (m (p + 13)), bs_reserved = load16 m (p + 14), bs_fats = of_char (m (p + 16)),
     bs_dir_entries = of_char (m (p + 18)) * 256 + of_char (m (p + 17)), bs_fat_length = load16 m (p + 22),
     bs_secs_track = load16 m (p + 24), bs_heads = load16 m (p + 26), bs_total_sect = load32 m (p + 32),
     bs_fat32_length = load32 m (p + 36), bs_flags = load16 m (p + 40), bs_root_cluster = load32 m (p + 44),
     bs_info_sector = load16 m (p + 48), bs_backup_boot = load16 m (p + 50) \<rparr>"

definition volume_info_at :: "mem \<Rightarrow> addr \<Rightarrow> volume_info" where
  "volume_info_at m p = \<lparr> vi_volume_label = mem_get m (p + 7) 11, vi_fs_type = mem_get m (p + 18) 8 \<rparr>"

text \<open>The boot sector, the volume information and the width of the table; None for -1.\<close>

definition read_bootsectandvi :: "fat_globals \<Rightarrow> fat_layout \<Rightarrow> mem \<Rightarrow> (boot_sector \<times> volume_info \<times> nat) option \<times> mem" where
  "read_bootsectandvi g L m =
     (let (r, m1) = disk_read g 0 1 (bootblock L) m in
      if r < 0 then (None, m1)
      else let bs = boot_sector_at m1 (bootblock L); fat32 = (bs_fat_length bs = 0);
               vi = volume_info_at m1 (bootblock L + (if fat32 then 64 else 36))
           in (if fat32 then if vi_fs_type vi = ''FAT32   '' then Some (bs, vi, 32) else None
               else if vi_fs_type vi = ''FAT12   '' then Some (bs, vi, 12)
               else if vi_fs_type vi = ''FAT16   '' then Some (bs, vi, 16)
               else None, m1))"

text \<open>The file system parameters; \<^verbatim>\<open>fatlength\<close>, \<^verbatim>\<open>rootdir_sect\<close> and \<^verbatim>\<open>data_begin\<close> have 16 bits. \<open>fb\<close> is the
  address of the cache, on the stack.\<close>

definition fs_setup :: "addr \<Rightarrow> boot_sector \<Rightarrow> nat \<Rightarrow> fsdata" where
  "fs_setup fb bs fs =
     (let fatlen = (if fs = 32 then ucast (bs_fat32_length bs) else bs_fat_length bs);
          root = bs_reserved bs + fatlen * ucast (bs_fats bs);
          clust = ucast (bs_cluster_size bs);
          rootdir_size = (if fs = 32 then 0 else of_nat (bs_dir_entries bs * 32 div 512))
      in \<lparr> fatbuf = fb, fatsize = fs, fatlength = fatlen, fat_sect = bs_reserved bs, rootdir_sect = root, clust_size = clust,
           data_begin = root + rootdir_size - clust * 2, fatbufnum = -1 \<rparr>)"

section \<open>The root directory\<close>

definition LS_NO :: int where "LS_NO = 0"
definition LS_YES :: int where "LS_YES = 1"
definition LS_ROOT :: int where "LS_ROOT = 2"

text \<open>A step ends in the entry that was found, or in the value that \<^verbatim>\<open>do_fat_read\<close> returns.\<close>

definition root_short :: "string \<Rightarrow> int \<Rightarrow> bool \<Rightarrow> dir_entry \<Rightarrow> string \<Rightarrow> scan \<Rightarrow> scan + (int + dir_entry) \<times> scan" where
  "root_short fname dols isdir e l_name s =
     (if dols = LS_ROOT then Inl (ls_entry True e (get_name e) s)
      else if fname \<noteq> get_name e \<and> fname \<noteq> l_name then Inl s
      else if isdir \<and> \<not> is_dir e then Inr (Inl (-1), s)
      else Inr (Inr e, s))"

definition root_step ::
  "fat_globals \<Rightarrow> fat_layout \<Rightarrow> string \<Rightarrow> int \<Rightarrow> bool \<Rightarrow> addr \<Rightarrow> scan \<Rightarrow> (scan + (int + dir_entry) \<times> scan) option" where
  "root_step g L fname dols isdir ptr s =
     (let e = dent (smem s) ptr in
      if de_attr e AND ATTR_VOLUME \<noteq> 0
      then if is_long_slot e
           then do { (l_name, s') \<leftarrow> long_name g L 0 (do_fat_read_block L) ptr s;
                     let e' = dent (smem s') ptr;
                     Some (if dols = LS_ROOT then Inl (ls_entry False e' l_name s') else root_short fname dols isdir e' l_name s') }
           else Some (Inl s)
      else if de_name e ! 0 = NUL
      then Some (Inr (if dols = LS_ROOT then (Inl 0, ls_summary s) else (Inl (-1), s)))
      else if dols = LS_ROOT \<and> ucast (mkcksum (de_name e @ de_ext e)) = prevcksum s then Some (Inl s)
      else Some (root_short fname dols isdir e [] s))"

partial_function (option) root_loop ::
  "fat_globals \<Rightarrow> fat_layout \<Rightarrow> string \<Rightarrow> int \<Rightarrow> bool \<Rightarrow> u32 \<Rightarrow> scan \<Rightarrow> ((int + dir_entry) \<times> scan) option" where
  "root_loop g L fname dols isdir cursect s =
     (let (r, m) = disk_read g cursect (ucast (clust_size (sfs s))) (do_fat_read_block L) (smem s); s1 = s\<lparr> smem := m \<rparr>
      in if r < 0 then Some (Inl (-1), s1)
         else do { x \<leftarrow> entries (root_step g L fname dols isdir) 16 (do_fat_read_block L) s1;
                   case x of Inr y \<Rightarrow> Some y | Inl s2 \<Rightarrow> root_loop g L fname dols isdir (cursect + 1) s2 })"

section \<open>Paths\<close>

text \<open>The loop over the directories of a path, from the directory entry \<open>e\<close> on.\<close>

partial_function (option) path_loop ::
  "fat_globals \<Rightarrow> fat_layout \<Rightarrow> int \<Rightarrow> bool \<Rightarrow> string \<Rightarrow> dir_entry \<Rightarrow> scan \<Rightarrow> ((int + dir_entry) \<times> scan) option" where
  "path_loop g L dols firsttime subname e s =
     (let idx = dirdelim subname;
          sub = (case idx of None \<Rightarrow> subname | Some i \<Rightarrow> take i subname);
          nextname = (case idx of None \<Rightarrow> subname | Some i \<Rightarrow> dropWhile ISDIRDELIM (drop (i + 1) subname));
          isdir = (idx \<noteq> None \<or> dols \<noteq> 0 \<and> firsttime);
          first = (if idx \<noteq> None then firsttime \<and> \<not> (dols \<noteq> 0 \<and> nextname = []) else firsttime \<and> dols = 0)
      in do { (r, d, m, t) \<leftarrow> get_dentfromdir g L (sfs s) sub e (if isdir then 0 else dols) (smem s);
              let s' = s\<lparr> sfs := d, smem := m, sout := sout s @ t \<rparr>;
              case r of
                None \<Rightarrow> Some (Inl (if dols \<noteq> 0 \<and> \<not> isdir then 0 else -1), s')
              | Some e' \<Rightarrow>
                  if idx \<noteq> None \<and> \<not> is_dir e' then Some (Inl (-1), s')
                  else if isdir then path_loop g L dols first nextname e' s'
                  else Some (Inr e', s') })"

text \<open>The directories and the file of a path, from the root directory on. \<open>dols\<close> is what the caller asked for.\<close>

definition find_path :: "fat_globals \<Rightarrow> fat_layout \<Rightarrow> string \<Rightarrow> int \<Rightarrow> scan \<Rightarrow> ((int + dir_entry) \<times> scan) option" where
  "find_path g L filename dols s =
     (let fname = downcase (dropWhile ISDIRDELIM filename); cursect = ucast (rootdir_sect (sfs s)) in
      if fname = [] then if dols = 0 then Some (Inl (-1), s) else root_loop g L [] LS_ROOT False cursect s
      else let idx = dirdelim fname;
               isdir = (idx \<noteq> None \<or> dols \<noteq> 0);
               first = (case idx of None \<Rightarrow> fname | Some i \<Rightarrow> take i fname);
               subname = (case idx of None \<Rightarrow> [] | Some i \<Rightarrow> dropWhile ISDIRDELIM (drop (i + 1) fname))
           in do { (r, s') \<leftarrow> root_loop g L first dols isdir cursect s;
                   case r of
                     Inl v \<Rightarrow> Some (Inl v, s')
                   | Inr e \<Rightarrow> if isdir then path_loop g L dols True subname e s' else Some (Inr e, s') })"

definition do_fat_read ::
  "fat_globals \<Rightarrow> fat_layout \<Rightarrow> addr \<Rightarrow> string \<Rightarrow> addr \<Rightarrow> u32 \<Rightarrow> int \<Rightarrow> mem \<Rightarrow> (int \<times> mem \<times> string) option" where
  "do_fat_read g L fb filename buffer maxsize dols m =
     (case read_bootsectandvi g L m of
        (None, m1) \<Rightarrow> Some (-1, m1, [])
      | (Some (bs, vi, fs), m1) \<Rightarrow>
          do { (r, s) \<leftarrow> find_path g L filename dols
                 \<lparr> sfs = fs_setup fb bs fs, smem = m1, prevcksum = 0xffff, files = 0, dirs = 0, sout = [] \<rparr>;
               case r of
                 Inl v \<Rightarrow> Some (v, smem s, sout s)
               | Inr e \<Rightarrow> do { (n, m', t) \<leftarrow> get_contents g L (sfs s) e buffer maxsize (smem s); Some (n, m', sout s @ t) } })"

section \<open>The entry points\<close>

definition fat_if_name :: "if_type \<Rightarrow> string" where
  "fat_if_name t =
     (case t of IF_TYPE_IDE \<Rightarrow> ''IDE'' | IF_TYPE_SATA \<Rightarrow> ''SATA'' | IF_TYPE_SCSI \<Rightarrow> ''SCSI'' | IF_TYPE_ATAPI \<Rightarrow> ''ATAPI''
      | IF_TYPE_USB \<Rightarrow> ''USB'' | IF_TYPE_DOC \<Rightarrow> ''DOC'' | IF_TYPE_MMC \<Rightarrow> ''MMC'' | _ \<Rightarrow> ''Unknown'')"

definition upto_NUL :: "string \<Rightarrow> string" where "upto_NUL s = takeWhile (\<lambda>c. c \<noteq> NUL) s"

definition file_fat_detectfs :: "fat_globals \<Rightarrow> fat_layout \<Rightarrow> mem \<Rightarrow> int \<times> mem \<times> string" where
  "file_fat_detectfs g L m =
     (case cur_dev g of
        None \<Rightarrow> (1, m, ''No current device'' @ nl)
      | Some d \<Rightarrow>
          let t = ''Interface:  '' @ fat_if_name (if_type d) @ nl @ ''  Device '' @ dec (dev_no d) @ '': '' @ dev_print d in
          (case read_bootsectandvi g L m of
             (None, m1) \<Rightarrow> (1, m1, t @ nl @ ''No valid FAT fs found'' @ nl)
           | (Some (bs, vi, fs), m1) \<Rightarrow>
               (0, m1, t @ ''Partition '' @ dec (cur_part g) @ '': Filesystem: '' @ upto_NUL (take 5 (vi_fs_type vi)) @ '' '' @
                       quoted (upto_NUL (vi_volume_label vi)) @ nl)))"

definition file_fat_ls :: "fat_globals \<Rightarrow> fat_layout \<Rightarrow> addr \<Rightarrow> string \<Rightarrow> mem \<Rightarrow> (int \<times> mem \<times> string) option" where
  "file_fat_ls g L fb dir m = do_fat_read g L fb dir 0 0 LS_YES m"

definition file_fat_read :: "fat_globals \<Rightarrow> fat_layout \<Rightarrow> addr \<Rightarrow> string \<Rightarrow> addr \<Rightarrow> u32 \<Rightarrow> mem \<Rightarrow> (int \<times> mem \<times> string) option" where
  "file_fat_read g L fb filename buffer maxsize m =
     do { (n, m', t) \<leftarrow> do_fat_read g L fb filename buffer maxsize LS_NO m;
          Some (n, m', ''reading '' @ filename @ nl @ t) }"

end
