(* ===== verification/Fat_Read.thy ===== *)
theory Fat_Read
  imports Fat
begin

text \<open>
  Reading a FAT volume: entries of the file allocation table, clusters and the contents of files.

  A volume is its bytes \<open>vol\<close> and its number of sectors; \<open>serves\<close> says that the current device and partition give them, and every
  provider of the locale \<open>block_device\<close> does. The list \<open>cs\<close> of a file's clusters abstracts its chain in the table (\<open>linked\<close>), and
  \<open>contents_loop_ok\<close> shows that the loops of \<^verbatim>\<open>get_contents\<close>, which read consecutive clusters at once, give their
  concatenation. What a read may write is a list of memory areas (\<open>kept_outside\<close>).
\<close>

section \<open>Volumes\<close>

text \<open>\<open>serves g vol n\<close>: the current device and partition give the \<open>n\<close> sectors of the volume \<open>vol\<close>, at most 511 at a
  time, as the controller does.\<close>

definition serves :: "fat_globals \<Rightarrow> mem \<Rightarrow> nat \<Rightarrow> bool" where
  "serves g vol nsec \<longleftrightarrow> nsec < 2 ^ 31 \<and>
     (\<forall>s n p m. unat s + unat n \<le> nsec \<longrightarrow> unat n < 2 ^ 9 \<longrightarrow>
        disk_read g s n p m = (int (unat n), mem_put m p (mem_get vol (512 * unat s) (512 * unat n))))"

lemma serves_read:
  "serves g vol nsec \<Longrightarrow> unat s + unat n \<le> nsec \<Longrightarrow> unat n < 2 ^ 9 \<Longrightarrow>
   disk_read g s n p m = (int (unat n), mem_put m p (mem_get vol (512 * unat s) (512 * unat n)))"
  by (simp add: serves_def)

context block_device
begin

lemma serves_partition:
  assumes "cur_dev g = Some d" "block_read d = Some (rd c)" "unat (part_offset g) + nsec \<le> blocks c" "blocks c < 2 ^ 31"
  shows "serves g (\<lambda>a. bytes c (512 * unat (part_offset g) + a)) nsec"
proof -
  have "disk_read g s n p m = (int (unat n), mem_put m p (mem_get (\<lambda>a. bytes c (512 * unat (part_offset g) + a)) (512 * unat s) (512 * unat n)))"
    if "unat s + unat n \<le> nsec" "unat n < 2 ^ 9" for s n p m
  proof -
    have u: "unat (s + part_offset g) = unat s + unat (part_offset g)"
      using that assms(3,4) by (simp add: unat_word_ariths)
    have "sint n = int (unat n)" using that assms(3,4) by (simp add: sint_small_eq_uint)
    moreover have "mem_get (bytes c) (512 * (unat s + unat (part_offset g))) (512 * unat n) =
        mem_get (\<lambda>a. bytes c (512 * unat (part_offset g) + a)) (512 * unat s) (512 * unat n)"
      by (rule nth_equalityI) (simp_all add: algebra_simps)
    ultimately show ?thesis using rd [of "s + part_offset g" n c] assms that u by (simp add: disk_read_def)
  qed
  then show ?thesis using assms by (simp add: serves_def)
qed

end

section \<open>The file allocation table\<close>

text \<open>The reference: entry \<open>i\<close> of the table is the little-endian number at bit \<open>w * i\<close>.\<close>

definition fat_entry :: "mem \<Rightarrow> nat \<Rightarrow> nat \<Rightarrow> nat \<Rightarrow> u32" where
  "fat_entry vol base w i =
     (if w = 32 then load32 vol (base + 4 * i)
      else if w = 16 then ucast (load16 vol (base + 2 * i))
      else ucast (drop_bit (if even i then 0 else 4) (load16 vol (base + 3 * i div 2))) AND 0xfff)"

definition fat_base :: "fsdata \<Rightarrow> nat" where "fat_base d = 512 * unat (fat_sect d)"

definition cached :: "mem \<Rightarrow> fsdata \<Rightarrow> mem \<Rightarrow> bool" where
  "cached vol d m \<longleftrightarrow> fatbufnum d = -1 \<or>
     mem_get m (fatbuf d) 3072 = mem_get vol (fat_base d + 3072 * unat (fatbufnum d)) 3072"

definition fat_width :: "nat \<Rightarrow> bool" where "fat_width w \<longleftrightarrow> w \<in> {12, 16, 32}"

definition per_buf :: "nat \<Rightarrow> nat" where "per_buf w = 3072 * 8 div w"

lemma bufsize_eq: "fat_width w \<Longrightarrow> bufsize w = Some (of_nat (per_buf w))"
  by (auto simp: fat_width_def bufsize_def per_buf_def FATBUFSIZE_def FS_BLOCK_SIZE_def FATBUFBLOCKS_def)

lemma load16_same: "m p = m' p' \<Longrightarrow> m (p + 1) = m' (p' + 1) \<Longrightarrow> load16 m p = load16 m' p'"
  by (simp add: load16_def)

lemma load32_same:
  "m p = m' p' \<Longrightarrow> m (p + 1) = m' (p' + 1) \<Longrightarrow> m (p + 2) = m' (p' + 2) \<Longrightarrow> m (p + 3) = m' (p' + 3) \<Longrightarrow> load32 m p = load32 m' p'"
  by (simp add: load32_def)

lemma mem_get_eqD: "mem_get m p n = mem_get m' q n \<Longrightarrow> i < n \<Longrightarrow> m (p + i) = m' (q + i)"
  by (metis nth_mem_get)

lemma bit_load16: "bit (load16 m p) n \<longleftrightarrow> (if n < 8 then bit (of_char (m p) :: nat) n else bit (of_char (m (p + 1)) :: nat) (n - 8))"
  by (auto simp: load16_def bit_simps bit_of_char_u16 dest: bit_of_char_nat)

text \<open>The four cases of the 12-bit decoder are the reference.\<close>

lemma unat_of_nat_div: "unat (of_nat (unat i div k) :: u32) = unat i div k" for i :: u32
  by (rule unat_of_nat_u32) (rule le_less_trans [OF div_le_dividend unat_less_u32])

lemma div_of_nat_u32: "k < 2 ^ 32 \<Longrightarrow> i div of_nat k = of_nat (unat i div k)" for i :: u32
  unfolding word_unat_eq_iff unat_of_nat_div by (simp add: unat_div_distrib unat_of_nat_u32)

lemma of_nat_and_3: "(of_nat n :: u32) AND 3 = of_nat (n mod 4)"
proof -
  have "(of_nat n :: u32) AND mask 2 = of_nat (take_bit 2 n)" by (simp add: take_bit_eq_mask [symmetric] take_bit_of_nat)
  then show ?thesis by (simp add: mask_eq_exp_minus_1 take_bit_eq_mod)
qed

lemma off16:
  assumes "n < 2048"
  shows "unat ((of_nat n * 3 :: u32) div 4) = n * 3 div 4" "unat ((of_nat n * 3 :: u32) div 4 + 1) = n * 3 div 4 + 1"
proof -
  have "unat (of_nat n * 3 :: u32) = n * 3" using assms by (simp add: unat_word_ariths unat_of_nat_u32)
  then show "unat ((of_nat n * 3 :: u32) div 4) = n * 3 div 4" by (simp add: unat_div_distrib)
  then show "unat ((of_nat n * 3 :: u32) div 4 + 1) = n * 3 div 4 + 1" using assms by (simp add: unat_word_ariths)
qed

lemma mask_bits:
  "bit (0xfff :: int) n \<longleftrightarrow> n < 12" "bit (0xfff0 :: int) n \<longleftrightarrow> 4 \<le> n \<and> n < 16"
  "bit (0xff :: int) n \<longleftrightarrow> n < 8" "bit (0xf :: int) n \<longleftrightarrow> n < 4"
  "bit (0xf000 :: int) n \<longleftrightarrow> 12 \<le> n \<and> n < 16" "bit (0xff00 :: int) n \<longleftrightarrow> 8 \<le> n \<and> n < 16"
proof -
  have m: "(0xfff :: int) = mask 12" "(0xfff0 :: int) = push_bit 4 (mask 12)" "(0xff :: int) = mask 8" "(0xf :: int) = mask 4"
    "(0xf000 :: int) = push_bit 12 (mask 4)" "(0xff00 :: int) = push_bit 8 (mask 8)"
    by (simp_all add: mask_eq_exp_minus_1 push_bit_eq_mult)
  show "bit (0xfff :: int) n \<longleftrightarrow> n < 12" "bit (0xfff0 :: int) n \<longleftrightarrow> 4 \<le> n \<and> n < 16"
    "bit (0xff :: int) n \<longleftrightarrow> n < 8" "bit (0xf :: int) n \<longleftrightarrow> n < 4"
    "bit (0xf000 :: int) n \<longleftrightarrow> 12 \<le> n \<and> n < 16" "bit (0xff00 :: int) n \<longleftrightarrow> 8 \<le> n \<and> n < 16"
    unfolding m by (auto simp: bit_simps)
qed

lemma fat12_value_eq:
  assumes "n < 2048"
  shows "fat12_value m buf (of_nat n) = ucast (drop_bit (if even n then 0 else 4) (load16 m (buf + 3 * n div 2))) AND 0xfff"
proof -
  define q where "q = n div 4"
  have n: "n = 4 * q + n mod 4" by (simp add: q_def)
  have q: "q < 512" using assms by (simp add: q_def)
  have [simp]: "4 + k - 8 = k - 4" "k - 8 < 4 \<longleftrightarrow> k < 12" "k - 8 < 8 \<longleftrightarrow> k < 16" for k :: nat by auto
  have [simp]: "a + (b + 3) = Suc (Suc (Suc (a + b)))" "4 + a = Suc (Suc (Suc (Suc a)))"
    "a + (b + 4) = Suc (Suc (Suc (Suc (a + b))))" "5 + a = Suc (Suc (Suc (Suc (Suc a))))" for a b :: nat by simp_all
  have "n mod 4 = 0 \<or> n mod 4 = 1 \<or> n mod 4 = 2 \<or> n mod 4 = 3" by auto
  then show ?thesis
  proof (elim disjE)
    assume r: "n mod 4 = 0"
    then have "n = 4 * q" using n by simp
    then have "n * 3 div 4 = 3 * q" "3 * n div 2 = 6 * q" "even n" by simp_all
    then show ?thesis
      using q assms r by (simp add: fat12_value_def Let_def off16 of_nat_and_3)
  next
    assume r: "n mod 4 = 1"
    then have "n = 4 * q + 1" using n by simp
    then have "n * 3 div 4 = 3 * q" "3 * n div 2 = 6 * q + 1" "odd n" by simp_all
    then show ?thesis
      using q assms r
      by (simp add: fat12_value_def Let_def off16 of_nat_and_3)
         (auto intro!: bit_word_eqI simp: bit_simps bit_load16 mask_bits dest: bit_of_char_nat split: if_splits)
  next
    assume r: "n mod 4 = 2"
    then have "n = 4 * q + 2" using n by simp
    then have "n * 3 div 4 = 3 * q + 1" "3 * n div 2 = 6 * q + 3" "even n" by simp_all
    then show ?thesis
      using q assms r
      by (simp add: fat12_value_def Let_def off16 of_nat_and_3)
         (auto intro!: bit_word_eqI simp: bit_simps bit_load16 mask_bits dest: bit_of_char_nat split: if_splits)
  next
    assume r: "n mod 4 = 3"
    then have "n = 4 * q + 3" using n by simp
    then have "n * 3 div 4 = 3 * q + 2" "3 * n div 2 = 6 * q + 4" "odd n" by simp_all
    then show ?thesis
      using q assms r
      by (simp add: fat12_value_def Let_def off16 of_nat_and_3)
         (auto intro!: bit_word_eqI simp: bit_simps bit_load16 mask_bits dest: bit_of_char_nat split: if_splits)
  qed
qed

lemma fill_fatbuf_correct:
  assumes "serves g vol nsec" "cached vol d m" "fatlength d \<noteq> 0" "unat (fat_sect d) + 6 * b + 6 \<le> nsec"
  shows "\<exists>m'. fill_fatbuf g d (of_nat b) m = (True, d\<lparr> fatbufnum := of_nat b \<rparr>, m') \<and>
    mem_get m' (fatbuf d) 3072 = mem_get vol (fat_base d + 3072 * b) 3072 \<and>
    (\<forall>a. a < fatbuf d \<or> fatbuf d + 3072 \<le> a \<longrightarrow> m' a = m a)"
proof -
  have n: "nsec < 2 ^ 31" using assms(1) by (simp add: serves_def)
  show ?thesis
  proof (cases "of_nat b = fatbufnum d")
    case True
    have "unat (fatbufnum d) = b" using unat_of_nat_u32 [of b] assms(4) n True by simp
    moreover have "fatbufnum d \<noteq> -1" using calculation assms(4) n by (auto simp: unsigned_minus_1_eq_mask mask_eq_exp_minus_1)
    ultimately show ?thesis using True assms(2) by (auto simp: fill_fatbuf_def cached_def intro!: exI [of _ m])
  next
    case False
    let ?s = "of_nat b * 6 + ucast (fat_sect d) :: u32"
    have s: "unat ?s = 6 * b + unat (fat_sect d)"
      using assms(4) n by (simp add: unat_word_ariths unat_of_nat_u32 unsigned_ucast_eq take_bit_nat_eq_self)
    have f: "\<not> (6 :: u32) > ucast (fatlength d) * 512"
    proof -
      have "0 < unat (fatlength d)" using assms(3) by (simp add: unat_gt_0)
      then show ?thesis using unat_less_u16 [of "fatlength d"] by (simp add: word_less_nat_alt unat_word_ariths unsigned_ucast_eq take_bit_nat_eq_self)
    qed
    have r: "disk_read g ?s 6 (fatbuf d) m = (6, mem_put m (fatbuf d) (mem_get vol (512 * unat ?s) 3072))"
      using serves_read [OF assms(1), of ?s 6 "fatbuf d" m] assms(4) s by simp
    have "mem_get vol (512 * unat ?s) 3072 = mem_get vol (fat_base d + 3072 * b) 3072"
      unfolding s by (simp add: fat_base_def algebra_simps)
    moreover have "mem_get (mem_put m (fatbuf d) (mem_get vol (512 * unat ?s) 3072)) (fatbuf d) 3072 = mem_get vol (512 * unat ?s) 3072"
      using mem_get_put [of m "fatbuf d" "mem_get vol (512 * unat ?s) 3072"] by simp
    ultimately show ?thesis using False r f
      by (auto simp: fill_fatbuf_def FATBUFSIZE_def FS_BLOCK_SIZE_def FATBUFBLOCKS_def Let_def mem_simps)
  qed
qed


definition kept_outside :: "(nat \<times> nat) list \<Rightarrow> mem \<Rightarrow> mem \<Rightarrow> bool" where
  "kept_outside rs m m' \<longleftrightarrow> (\<forall>a. (\<forall>(p, n) \<in> set rs. a < p \<or> p + n \<le> a) \<longrightarrow> m' a = m a)"

lemma kept_apart: "kept_outside rs m m' \<Longrightarrow> \<forall>r \<in> set rs. apart r (p, n) \<Longrightarrow> p \<le> a \<Longrightarrow> a < p + n \<Longrightarrow> m' a = m a"
  unfolding kept_outside_def apart_def by (erule allE [of _ a], erule mp) fastforce

text \<open>A table entry can be read: its block of the table lies on the volume.\<close>

definition fat_ok :: "fsdata \<Rightarrow> nat \<Rightarrow> nat \<Rightarrow> bool" where
  "fat_ok d nsec i \<longleftrightarrow> fat_width (fatsize d) \<and> fatlength d \<noteq> 0 \<and> unat (fat_sect d) + 6 * (i div per_buf (fatsize d)) + 6 \<le> nsec"

lemma get_fatent_ok:
  assumes "serves g vol nsec" "cached vol d m" "fat_ok d nsec (unat i)"
  shows "\<exists>m' b. get_fatent g d i m = (fat_entry vol (fat_base d) (fatsize d) (unat i), d\<lparr> fatbufnum := b \<rparr>, m') \<and>
    cached vol (d\<lparr> fatbufnum := b \<rparr>) m' \<and> kept_outside [(fatbuf d, 3072)] m m'"
proof -
  let ?w = "fatsize d" and ?k = "per_buf (fatsize d)"
  have w: "?w = 12 \<or> ?w = 16 \<or> ?w = 32" using assms(3) by (auto simp: fat_ok_def fat_width_def)
  have k: "0 < ?k" "?k < 2 ^ 32" using w by (auto simp: per_buf_def)
  define b where "b = unat i div ?k"
  define j where "j = unat i mod ?k"
  have i: "unat i = b * ?k + j" "j < ?k" using k by (simp_all add: b_def j_def)
  have b: "i div of_nat ?k = of_nat b" using div_of_nat_u32 [OF k(2)] by (simp add: b_def)
  have "i = of_nat (b * ?k + j)" using arg_cong [OF i(1), where f = "of_nat :: nat \<Rightarrow> u32"] by simp
  then have o: "i - of_nat b * of_nat ?k = of_nat j" by simp
  have j2: "unat (of_nat j :: u32) = j" using i(2) k(2) by (intro unat_of_nat_u32) simp
  obtain m' where m': "fill_fatbuf g d (of_nat b) m = (True, d\<lparr> fatbufnum := of_nat b \<rparr>, m')"
      "mem_get m' (fatbuf d) 3072 = mem_get vol (fat_base d + 3072 * b) 3072"
      "\<forall>a. a < fatbuf d \<or> fatbuf d + 3072 \<le> a \<longrightarrow> m' a = m a"
    using fill_fatbuf_correct [OF assms(1,2), of b] assms(3) by (auto simp: fat_ok_def b_def)
  have eq: "m' (fatbuf d + x) = vol (fat_base d + 3072 * b + x)" if "x < 3072" for x
    using mem_get_eqD [OF m'(2) that] .
  have b2: "unat (of_nat b :: u32) = b" by (simp add: b_def unat_of_nat_div del: unat_of_nat)
  have "get_fatent g d i m = (fat_entry vol (fat_base d) ?w (unat i), d\<lparr> fatbufnum := of_nat b \<rparr>, m')"
    using w
  proof (elim disjE)
    assume w: "?w = 32"
    have "load32 m' (fatbuf d + 4 * j) = load32 vol (fat_base d + 4 * unat i)"
      using i w eq [of "4 * j"] eq [of "4 * j + 1"] eq [of "4 * j + 2"] eq [of "4 * j + 3"]
      by (intro load32_same) (simp_all add: per_buf_def algebra_simps)
    then show ?thesis
      using w b o j2 m'(1) bufsize_eq [of 32] by (simp add: get_fatent_def fat_entry_def Let_def fat_width_def)
  next
    assume w: "?w = 16"
    have "load16 m' (fatbuf d + 2 * j) = load16 vol (fat_base d + 2 * unat i)"
      using i w eq [of "2 * j"] eq [of "2 * j + 1"] by (intro load16_same) (simp_all add: per_buf_def algebra_simps)
    then show ?thesis
      using w b o j2 m'(1) bufsize_eq [of 16] by (simp add: get_fatent_def fat_entry_def Let_def fat_width_def)
  next
    assume w: "?w = 12"
    have j: "j < 2048" "unat i = 2048 * b + j" using i w by (simp_all add: per_buf_def)
    have h: "3 * unat i div 2 = 3072 * b + 3 * j div 2" "even (unat i) = even j" using j(2) by simp_all
    have "load16 m' (fatbuf d + 3 * j div 2) = load16 vol (fat_base d + 3 * unat i div 2)"
      using j(1) eq [of "3 * j div 2"] eq [of "3 * j div 2 + 1"] unfolding h by (intro load16_same) (simp_all add: algebra_simps)
    then show ?thesis
      using w b o m'(1) bufsize_eq [of 12] fat12_value_eq [OF j(1), of m' "fatbuf d"] h(2)
      by (simp add: get_fatent_def fat_entry_def Let_def fat_width_def)
  qed
  moreover have "cached vol (d\<lparr> fatbufnum := of_nat b \<rparr>) m'" using m'(2) b2 by (simp add: cached_def fat_base_def)
  moreover have "kept_outside [(fatbuf d, 3072)] m m'" using m'(3) by (auto simp: kept_outside_def)
  ultimately show ?thesis by blast
qed

section \<open>Memory areas\<close>

lemma kept_outside_refl [simp]: "kept_outside rs m m"
  by (simp add: kept_outside_def)

lemma kept_outside_trans: "kept_outside rs m m' \<Longrightarrow> kept_outside rs m' m'' \<Longrightarrow> kept_outside rs m m''"
  by (simp add: kept_outside_def)

lemma kept_outside_mono:
  assumes "kept_outside rs m m'" "\<forall>(p, n) \<in> set rs. \<exists>(q, k) \<in> set ss. q \<le> p \<and> p + n \<le> q + k"
  shows "kept_outside ss m m'"
  unfolding kept_outside_def
proof (intro allI impI)
  fix a assume a: "\<forall>(p, n) \<in> set ss. a < p \<or> p + n \<le> a"
  have "a < p \<or> p + n \<le> a" if pn: "(p, n) \<in> set rs" for p n
  proof -
    obtain q k where "(q, k) \<in> set ss" "q \<le> p" "p + n \<le> q + k" using assms(2) pn by fast
    then show ?thesis using a by fastforce
  qed
  then show "m' a = m a" using assms(1) unfolding kept_outside_def by blast
qed

lemma kept_outside_put: "(p, length xs) \<in> set rs \<Longrightarrow> kept_outside rs m (mem_put m p xs)"
  by (fastforce simp: kept_outside_def mem_put_def)

lemma kept_outside_get:
  assumes "kept_outside rs m m'" "\<forall>r \<in> set rs. apart r (p, n)"
  shows "mem_get m' p n = mem_get m p n"
proof (rule mem_get_cong)
  fix i assume "i < n"
  then have "\<forall>(q, k) \<in> set rs. p + i < q \<or> q + k \<le> p + i" using assms(2) by (fastforce simp: apart_def)
  then show "m' (p + i) = m (p + i)" using assms(1) by (auto simp: kept_outside_def)
qed

lemma cached_same:
  assumes "cached vol d m" "kept_outside rs m m'" "\<forall>r \<in> set rs. apart r (fatbuf d, 3072)"
  shows "cached vol d m'"
  using assms kept_outside_get [OF assms(2,3)] by (auto simp: cached_def)

section \<open>Clusters\<close>

definition csect :: "fsdata \<Rightarrow> u32 \<Rightarrow> nat" where
  "csect d c = unat (scast (data_begin d) + c * ucast (clust_size d) :: u32)"

definition bpc :: "fsdata \<Rightarrow> nat" where "bpc d = 512 * unat (clust_size d)"

definition cluster :: "mem \<Rightarrow> fsdata \<Rightarrow> u32 \<Rightarrow> char list" where
  "cluster vol d c = mem_get vol (512 * csect d c) (bpc d)"

lemma length_cluster [simp]: "length (cluster vol d c) = bpc d"
  by (simp add: cluster_def)

lemma unat_div_512: "unat (w div FS_BLOCK_SIZE) = unat w div 512" "unat (w mod FS_BLOCK_SIZE) = unat w mod 512"
  by (simp_all add: FS_BLOCK_SIZE_def unat_div_distrib unat_mod_distrib)

lemma get_cluster_ok:
  assumes "serves g vol nsec" "c > 0" "512 * csect d c + unat sz \<le> 512 * nsec" "apart (buf, unat sz) (tmpbuf L, 512)" "unat sz < 2 ^ 18"
  shows "\<exists>m'. get_cluster g L d c buf sz m = (0, m') \<and> mem_get m' buf (unat sz) = mem_get vol (512 * csect d c) (unat sz) \<and>
    kept_outside [(buf, unat sz), (tmpbuf L, 512)] m m'"
proof -
  let ?S = "scast (data_begin d) + c * ucast (clust_size d) :: u32"
  let ?q = "unat sz div 512" and ?r = "unat sz mod 512"
  have n: "nsec < 2 ^ 31" using assms(1) by (simp add: serves_def)
  have S: "unat ?S = csect d c" by (simp add: csect_def)
  have sz: "unat sz = 512 * ?q + ?r" by simp
  define m1 where "m1 = mem_put m buf (mem_get vol (512 * csect d c) (512 * ?q))"
  have r1: "disk_read g ?S (sz div FS_BLOCK_SIZE) buf m = (int ?q, m1)"
    using serves_read [OF assms(1), of ?S "sz div FS_BLOCK_SIZE" buf m] assms(3,5) S unfolding unat_div_512 m1_def by simp
  show ?thesis
  proof (cases "?r = 0")
    case True
    then have "sz mod FS_BLOCK_SIZE = 0" by (simp add: word_unat_eq_iff unat_div_512)
    then have "get_cluster g L d c buf sz m = (0, m1)" using r1 assms(2) by (simp add: get_cluster_def Let_def)
    moreover have "mem_get m1 buf (unat sz) = mem_get vol (512 * csect d c) (unat sz)"
      using mem_get_put [of m buf "mem_get vol (512 * csect d c) (512 * ?q)"] sz True by (simp add: m1_def)
    moreover have "kept_outside [(buf, unat sz), (tmpbuf L, 512)] m m1"
      using sz True unfolding m1_def by (intro kept_outside_put) simp
    ultimately show ?thesis by blast
  next
    case False
    then have nz: "sz mod FS_BLOCK_SIZE \<noteq> 0" by (simp add: word_unat_eq_iff unat_div_512)
    have u: "unat (?S + sz div FS_BLOCK_SIZE) = csect d c + ?q"
      using assms(3) n sz False unfolding unat_word_ariths(1) [of ?S] S unat_div_512 by simp
    define m2 where "m2 = mem_put m1 (tmpbuf L) (mem_get vol (512 * (csect d c + ?q)) 512)"
    have r2: "disk_read g (?S + sz div FS_BLOCK_SIZE) 1 (tmpbuf L) m1 = (1, m2)"
      using serves_read [OF assms(1), of "?S + sz div FS_BLOCK_SIZE" 1 "tmpbuf L" m1] assms(3) sz False
      unfolding u m2_def by simp
    have q: "unat (sz div FS_BLOCK_SIZE * FS_BLOCK_SIZE) = 512 * ?q"
      using unat_less_u32 [of sz] unfolding unat_word_ariths(2) unat_div_512 by (simp add: FS_BLOCK_SIZE_def)
    define m3 where "m3 = mem_put m2 (buf + 512 * ?q) (mem_get m2 (tmpbuf L) ?r)"
    have g3: "get_cluster g L d c buf sz m = (0, m3)"
      using r1 r2 nz q assms(2) by (simp add: get_cluster_def Let_def m3_def unat_div_512)
    have tmp: "mem_get m2 (tmpbuf L) ?r = mem_get vol (512 * csect d c + 512 * ?q) ?r"
    proof (rule nth_equalityI)
      fix i assume "i < length (mem_get m2 (tmpbuf L) ?r)"
      then have "i < ?r" "i < 512" by (simp_all add: order_less_trans [of i ?r 512])
      then show "mem_get m2 (tmpbuf L) ?r ! i = mem_get vol (512 * csect d c + 512 * ?q) ?r ! i"
        by (simp add: m2_def mem_put_def algebra_simps)
    qed simp
    have "mem_get m3 buf (512 * ?q + ?r) = mem_get m1 buf (512 * ?q) @ mem_get m2 (tmpbuf L) ?r"
    proof -
      have "mem_get m3 buf (512 * ?q) = mem_get m1 buf (512 * ?q)"
        using assms(4) sz by (intro mem_get_cong) (auto simp: m3_def m2_def mem_put_def apart_def)
      moreover have "mem_get m3 (buf + 512 * ?q) ?r = mem_get m2 (tmpbuf L) ?r"
        using mem_get_put [of m2 "buf + 512 * ?q" "mem_get m2 (tmpbuf L) ?r"] by (simp add: m3_def)
      ultimately show ?thesis by (simp only: mem_get_add)
    qed
    moreover have "mem_get m1 buf (512 * ?q) = mem_get vol (512 * csect d c) (512 * ?q)"
      using mem_get_put [of m buf "mem_get vol (512 * csect d c) (512 * ?q)"] by (simp add: m1_def)
    ultimately have "mem_get m3 buf (unat sz) = mem_get vol (512 * csect d c) (unat sz)"
      using tmp sz by (metis mem_get_add)
    moreover have "kept_outside [(buf, unat sz), (tmpbuf L, 512)] m m3"
      using sz unfolding kept_outside_def m3_def m2_def m1_def by (auto simp: mem_put_def)
    ultimately show ?thesis using g3 by blast
  qed
qed

section \<open>Files\<close>

definition on_volume :: "fsdata \<Rightarrow> nat \<Rightarrow> u32 \<Rightarrow> bool" where
  "on_volume d nsec c \<longleftrightarrow> c > 0 \<and> csect d c + unat (clust_size d) \<le> nsec \<and> unat (clust_size d) < 2 ^ 9"

text \<open>The clusters are linked by the table, and they and the table are on the volume.\<close>

fun linked :: "mem \<Rightarrow> fsdata \<Rightarrow> nat \<Rightarrow> u32 list \<Rightarrow> bool" where
  "linked vol d nsec [] = False"
| "linked vol d nsec [c] = on_volume d nsec c"
| "linked vol d nsec (c # c' # cs) =
     (on_volume d nsec c \<and> fat_ok d nsec (unat c) \<and> fat_entry vol (fat_base d) (fatsize d) (unat c) = c' \<and>
      \<not> CHECK_CLUST c' (fatsize d) \<and> linked vol d nsec (c' # cs))"

text \<open>Facts about the volume do not depend on which part of the table is cached.\<close>

lemma fatbufnum_irrelevant [simp]:
  "fat_base (d\<lparr> fatbufnum := b \<rparr>) = fat_base d" "fat_ok (d\<lparr> fatbufnum := b \<rparr>) = fat_ok d" "csect (d\<lparr> fatbufnum := b \<rparr>) = csect d"
  "bpc (d\<lparr> fatbufnum := b \<rparr>) = bpc d" "on_volume (d\<lparr> fatbufnum := b \<rparr>) = on_volume d" "cluster vol (d\<lparr> fatbufnum := b \<rparr>) = cluster vol d"
  by (auto simp: fat_base_def fat_ok_def csect_def bpc_def on_volume_def cluster_def fun_eq_iff)

lemma linked_irrelevant [simp]: "linked vol (d\<lparr> fatbufnum := b \<rparr>) nsec cs = linked vol d nsec cs"
  by (induction vol d nsec cs rule: linked.induct) auto

lemma unat_bpc: "unat (ucast (clust_size d) * FS_BLOCK_SIZE :: u32) = bpc d"
  using unat_less_u16 [of "clust_size d"]
  by (simp add: bpc_def FS_BLOCK_SIZE_def unat_word_ariths unsigned_ucast_eq take_bit_nat_eq_self)

lemma u32_add: "unat a + unat b < 2 ^ 32 \<Longrightarrow> unat (a + b) = unat a + unat b" for a b :: u32
  by (simp add: unat_word_ariths)

lemma find_run_ok:
  assumes "serves g vol nsec" "cached vol d m" "linked vol d nsec (c # cs)"
    "unat F \<le> unat A + bpc d * length cs" "cs \<noteq> [] \<longrightarrow> unat A + bpc d * (length cs - 1) < unat F" "unat F < 2 ^ 31"
  shows "\<exists>j m' b. j \<le> length cs \<and>
    find_run g d c A F m = (if j = length cs then Enough else Broken, (c # cs) ! j, A + of_nat (bpc d * j), d\<lparr> fatbufnum := b \<rparr>, m') \<and>
    (\<forall>i \<le> j. (c # cs) ! i = c + of_nat i) \<and> (j < length cs \<longrightarrow> unat A + bpc d * j < unat F) \<and>
    cached vol (d\<lparr> fatbufnum := b \<rparr>) m' \<and> kept_outside [(fatbuf d, 3072)] m m'"
  using assms
proof (induction cs arbitrary: c A d m)
  case Nil
  then have "\<not> A < F" by (simp add: word_less_nat_alt)
  then show ?case using Nil(2) by (auto simp: find_run.simps intro!: exI [of _ "fatbufnum d"])
next
  case (Cons c' cs)
  have AF: "A < F" using Cons.prems(5) by (simp add: word_less_nat_alt)
  obtain m1 b1 where f: "get_fatent g d c m = (c', d\<lparr> fatbufnum := b1 \<rparr>, m1)" "cached vol (d\<lparr> fatbufnum := b1 \<rparr>) m1"
      "kept_outside [(fatbuf d, 3072)] m m1"
    using get_fatent_ok [OF Cons.prems(1,2), of c] Cons.prems(3) by auto
  have nc: "\<not> CHECK_CLUST c' (fatsize d)" and l: "linked vol d nsec (c' # cs)" using Cons.prems(3) by auto
  show ?case
  proof (cases "c' - 1 = c")
    case False
    then have "find_run g d c A F m = (Broken, c, A, d\<lparr> fatbufnum := b1 \<rparr>, m1)"
      using f(1) AF by (subst find_run.simps) simp
    then show ?thesis using f Cons.prems(5) by (intro exI [of _ 0]) (auto simp: eq_commute)
  next
    case True
    let ?B = "ucast (clust_size d) * FS_BLOCK_SIZE :: u32"
    let ?d = "d\<lparr> fatbufnum := b1 \<rparr>"
    have B: "unat (A + ?B) = unat A + bpc d"
    proof -
      have "bpc d \<le> 2 ^ 25" using unat_less_u16 [of "clust_size d"] by (simp add: bpc_def)
      moreover have "unat A < 2 ^ 31" using AF Cons.prems(6) by (simp add: word_less_nat_alt)
      ultimately show ?thesis using u32_add [of A ?B] unfolding unat_bpc by simp
    qed
    have step: "find_run g d c A F m = find_run g ?d c' (A + ?B) F m1"
      using f(1) AF True nc by (subst find_run.simps) simp
    have h: "unat F \<le> unat (A + ?B) + bpc ?d * length cs" "cs \<noteq> [] \<longrightarrow> unat (A + ?B) + bpc ?d * (length cs - 1) < unat F"
      using Cons.prems(4,5) unfolding B by (auto simp: algebra_simps neq_Nil_conv)
    have l': "linked vol ?d nsec (c' # cs)" using l by simp
    have upd: "?d\<lparr> fatbufnum := b \<rparr> = d\<lparr> fatbufnum := b \<rparr>" for b by simp
    have fb: "fatbuf ?d = fatbuf d" by simp
    note ih = Cons.IH [OF Cons.prems(1) f(2) l' h Cons.prems(6), unfolded B upd fb fatbufnum_irrelevant]
    obtain j m' b where j: "j \<le> length cs"
        "find_run g ?d c' (A + ?B) F m1 = (if j = length cs then Enough else Broken, (c' # cs) ! j, A + ?B + of_nat (bpc d * j),
           d\<lparr> fatbufnum := b \<rparr>, m')"
        "\<forall>i \<le> j. (c' # cs) ! i = c' + of_nat i" "j < length cs \<longrightarrow> unat A + bpc d + bpc d * j < unat F"
        "cached vol (d\<lparr> fatbufnum := b \<rparr>) m'" "kept_outside [(fatbuf d, 3072)] m1 m'"
      using ih by blast
    have c': "c' = c + 1" using True by (simp add: algebra_simps)
    have BB: "?B = of_nat (bpc d)" using arg_cong [OF unat_bpc [of d], where f = "of_nat :: nat \<Rightarrow> u32"] by simp
    have "(c # c' # cs) ! i = c + of_nat i" if "i \<le> Suc j" for i
      using j(3) that c' by (cases i) auto
    moreover have "A + ?B + of_nat (bpc d * j) = A + of_nat (bpc d * Suc j)" unfolding BB by simp
    moreover have "kept_outside [(fatbuf d, 3072)] m m'" using f(3) j(6) kept_outside_trans by blast
    ultimately show ?thesis using step j by (intro exI [of _ "Suc j"] exI [of _ m'] exI [of _ b]) auto
  qed
qed

lemma linked_on_volume: "linked vol d nsec cs \<Longrightarrow> c \<in> set cs \<Longrightarrow> on_volume d nsec c"
  by (induction vol d nsec cs rule: linked.induct) auto

lemma linked_drop: "linked vol d nsec cs \<Longrightarrow> j < length cs \<Longrightarrow> linked vol d nsec (drop j cs)"
proof (induction vol d nsec cs arbitrary: j rule: linked.induct)
  case (3 vol d nsec c c' cs)
  then show ?case by (cases j) auto
qed auto

lemma csect_next:
  assumes "\<forall>i < k. on_volume d nsec (c + of_nat i)" "nsec < 2 ^ 31"
  shows "i < k \<Longrightarrow> csect d (c + of_nat i) = csect d c + i * unat (clust_size d)"
proof (induction i)
  case (Suc i)
  let ?x = "scast (data_begin d) + (c + of_nat i) * ucast (clust_size d) :: u32" and ?s = "ucast (clust_size d) :: u32"
  have s: "unat ?s = unat (clust_size d)"
    using unat_less_u16 [of "clust_size d"] by (simp add: unsigned_ucast_eq take_bit_nat_eq_self)
  have "csect d (c + of_nat i) + unat (clust_size d) \<le> nsec" using assms(1) Suc.prems by (simp add: on_volume_def)
  then have "unat (?x + ?s) = unat ?x + unat ?s" using assms(2) s by (intro u32_add) (simp add: csect_def)
  moreover have "scast (data_begin d) + (c + of_nat (Suc i)) * ?s = ?x + ?s" by (simp add: algebra_simps)
  ultimately have "csect d (c + of_nat (Suc i)) = csect d (c + of_nat i) + unat (clust_size d)"
    using s unfolding csect_def by metis
  then show ?case using Suc by simp
qed simp

lemma run_bytes:
  assumes "\<forall>i < k. on_volume d nsec (c + of_nat i)" "nsec < 2 ^ 31"
  shows "mem_get vol (512 * csect d c) (bpc d * k) = concat (map (\<lambda>i. cluster vol d (c + of_nat i)) [0..<k])"
  using assms
proof (induction k)
  case (Suc k)
  have "csect d (c + of_nat k) = csect d c + k * unat (clust_size d)" using csect_next [OF Suc.prems] by simp
  then have "mem_get vol (512 * csect d c + bpc d * k) (bpc d) = cluster vol d (c + of_nat k)"
    by (simp add: cluster_def bpc_def algebra_simps)
  then show ?case using Suc mem_get_add [of vol "512 * csect d c" "bpc d * k" "bpc d"] by (simp add: algebra_simps)
qed simp

lemma get_run_ok:
  assumes "serves g vol nsec" "\<forall>i < k. on_volume d nsec (c + of_nat i)" "on_volume d nsec c" "bpc d * k < 2 ^ 18"
    "apart (buf, bpc d * k) (tmpbuf L, 512)"
  shows "\<exists>m'. get_cluster g L d c buf (of_nat (bpc d * k)) m = (0, m') \<and>
    mem_get m' buf (bpc d * k) = concat (map (\<lambda>i. cluster vol d (c + of_nat i)) [0..<k]) \<and>
    kept_outside [(buf, bpc d * k), (tmpbuf L, 512)] m m'"
proof -
  have n: "nsec < 2 ^ 31" using assms(1) by (simp add: serves_def)
  have u: "unat (of_nat (bpc d * k) :: u32) = bpc d * k" using assms(4) by (intro unat_of_nat_u32) simp
  have "csect d c + k * unat (clust_size d) \<le> nsec"
  proof (cases k)
    case 0
    then show ?thesis using assms(3) by (simp add: on_volume_def)
  next
    case (Suc k')
    then have "csect d (c + of_nat k') = csect d c + k' * unat (clust_size d)" "on_volume d nsec (c + of_nat k')"
      using csect_next [OF assms(2) n, of k'] assms(2) by auto
    then show ?thesis using Suc by (simp add: on_volume_def)
  qed
  then have "512 * csect d c + bpc d * k \<le> 512 * nsec" by (simp add: bpc_def algebra_simps)
  then show ?thesis
    using get_cluster_ok [OF assms(1), of c d "of_nat (bpc d * k)" buf L m] assms(3-5) run_bytes [OF assms(2) n]
    unfolding u by (auto simp: on_volume_def)
qed

lemma sint_unat: "unat w < 2 ^ 31 \<Longrightarrow> sint w = int (unat w)" for w :: u32
  by (simp add: sint_small_eq_uint)

lemma concat_take_drop:
  assumes "j \<le> length cs" "\<forall>i < j. cs ! i = c + of_nat i"
  shows "concat (map (cluster vol d) cs) =
    concat (map (\<lambda>i. cluster vol d (c + of_nat i)) [0..<j]) @ concat (map (cluster vol d) (drop j cs))"
proof -
  have "take j cs = map (\<lambda>i. c + of_nat i) [0..<j]" using assms by (intro nth_equalityI) auto
  then have "concat (map (cluster vol d) (take j cs)) = concat (map (\<lambda>i. cluster vol d (c + of_nat i)) [0..<j])" by (simp add: comp_def)
  then show ?thesis by (metis append_take_drop_id concat_append map_append)
qed

lemma length_concat_clusters [simp]: "length (concat (map (\<lambda>i. cluster vol d (f i)) xs)) = bpc d * length xs"
  by (induction xs) (simp_all add: algebra_simps)

lemma mem_get_split:
  "k \<le> n \<Longrightarrow> mem_get m p n = mem_get m p k @ mem_get m (p + k) (n - k)"
  using mem_get_add [of m p k "n - k"] by simp

lemma mem_get_prefix: "n \<le> k \<Longrightarrow> mem_get m p n = take n (mem_get m p k)"
  by (rule nth_equalityI) auto

text \<open>The last run: its clusters but the last, and the bytes of the last one.\<close>

lemma last_run_ok:
  assumes "serves g vol nsec" "\<forall>i \<le> j. on_volume d nsec (c + of_nat i)" "bpc d * j \<le> unat F" "unat F \<le> bpc d * (j + 1)"
    "bpc d * Suc j < 2 ^ 18" "apart (buf, unat F) (tmpbuf L, 512)"
  shows "\<exists>m1 m2. get_cluster g L d c buf (of_nat (bpc d * j)) m = (0, m1) \<and>
    get_cluster g L d (c + of_nat j) (buf + bpc d * j) (F - of_nat (bpc d * j)) m1 = (0, m2) \<and>
    mem_get m2 buf (unat F) = take (unat F) (concat (map (\<lambda>i. cluster vol d (c + of_nat i)) [0..<Suc j])) \<and>
    kept_outside [(buf, unat F), (tmpbuf L, 512)] m m2"
proof -
  let ?k = "bpc d * j" and ?r = "F - of_nat (bpc d * j)"
  have u: "unat (of_nat ?k :: u32) = ?k" using assms(3,5) by (intro unat_of_nat_u32) simp
  have r: "unat ?r = unat F - ?k" using assms(3) u by (simp add: unat_sub word_le_nat_alt)
  have c: "on_volume d nsec c" "on_volume d nsec (c + of_nat j)" using assms(2) by (auto dest: spec [of _ 0])
  obtain m1 where m1: "get_cluster g L d c buf (of_nat ?k) m = (0, m1)"
      "mem_get m1 buf ?k = concat (map (\<lambda>i. cluster vol d (c + of_nat i)) [0..<j])" "kept_outside [(buf, ?k), (tmpbuf L, 512)] m m1"
    using get_run_ok [OF assms(1), of j d c buf L m] assms(2,3,5,6) c by (auto simp: apart_def)
  have c0: "c + of_nat j > 0" using c(2) by (simp add: on_volume_def)
  have "unat F - ?k \<le> bpc d" using assms(4) by simp
  moreover from this have le: "unat F - ?k < 2 ^ 18" using assms(5) by simp
  moreover have "512 * csect d (c + of_nat j) + bpc d \<le> 512 * nsec" using c(2) by (simp add: on_volume_def bpc_def)
  ultimately have bound: "512 * csect d (c + of_nat j) + (unat F - ?k) \<le> 512 * nsec" by linarith
  have ap: "apart (buf + ?k, unat F - ?k) (tmpbuf L, 512)" using assms(3,6) by (auto simp: apart_def)
  obtain m2 where m2: "get_cluster g L d (c + of_nat j) (buf + ?k) ?r m1 = (0, m2)"
      "mem_get m2 (buf + ?k) (unat F - ?k) = mem_get vol (512 * csect d (c + of_nat j)) (unat F - ?k)"
      "kept_outside [(buf + ?k, unat F - ?k), (tmpbuf L, 512)] m1 m2"
    using get_cluster_ok [OF assms(1), of "c + of_nat j" d ?r "buf + ?k" L m1, unfolded r, OF c0 bound ap] le by blast
  have "mem_get m2 buf ?k = mem_get m1 buf ?k"
    by (rule kept_outside_get [OF m2(3)]) (use assms(3,6) in \<open>auto simp: apart_def\<close>)
  moreover have "mem_get vol (512 * csect d (c + of_nat j)) (unat F - ?k) = take (unat F - ?k) (cluster vol d (c + of_nat j))"
    unfolding cluster_def by (rule mem_get_prefix) (use assms(4) in simp)
  ultimately have "mem_get m2 buf (unat F) = take (unat F) (concat (map (\<lambda>i. cluster vol d (c + of_nat i)) [0..<Suc j]))"
    using m1(2) m2(2) assms(3) unfolding mem_get_split [OF assms(3), of m2] by simp
  moreover have "kept_outside [(buf, unat F), (tmpbuf L, 512)] m m2"
    by (rule kept_outside_trans [OF kept_outside_mono [OF m1(3)] kept_outside_mono [OF m2(3)]]) (use assms(3) in auto)
  ultimately show ?thesis using m1(1) m2(1) by blast
qed

text \<open>A run that ends before the file does: its clusters are read, and the table gives the first cluster of the next run.\<close>

lemma broken_run_ok:
  assumes "serves g vol nsec" "cached vol d m" "linked vol d nsec (c # cs)" "j < length cs" "\<forall>i \<le> j. (c # cs) ! i = c + of_nat i"
    "bpc d * Suc j < F" "bpc d * Suc j < 2 ^ 18" "apart (buf, F) (fatbuf d, 3072)" "apart (buf, F) (tmpbuf L, 512)" "apart (fatbuf d, 3072) (tmpbuf L, 512)"
  shows "\<exists>m2 m3 b. get_cluster g L d c buf (of_nat (bpc d * Suc j)) m = (0, m2) \<and>
    get_fatent g d ((c # cs) ! j) m2 = (cs ! j, d\<lparr> fatbufnum := b \<rparr>, m3) \<and> \<not> CHECK_CLUST (cs ! j) (fatsize d) \<and>
    linked vol d nsec (cs ! j # drop (Suc j) cs) \<and> cached vol (d\<lparr> fatbufnum := b \<rparr>) m3 \<and>
    mem_get m3 buf (bpc d * Suc j) = concat (map (\<lambda>i. cluster vol d (c + of_nat i)) [0..<Suc j]) \<and>
    kept_outside [(buf, F), (fatbuf d, 3072), (tmpbuf L, 512)] m m3"
proof -
  let ?k = "bpc d * Suc j" and ?areas = "[(buf, F), (fatbuf d, 3072), (tmpbuf L, 512)]"
  have vol: "\<forall>i < Suc j. on_volume d nsec (c + of_nat i)"
    using assms(4,5) linked_on_volume [OF assms(3)] by (metis length_Cons less_SucI less_Suc_eq_le nth_mem order_le_less_trans)
  then have c: "on_volume d nsec c" by (auto dest: spec [of _ 0])
  have "apart (buf, ?k) (tmpbuf L, 512)" using assms(6,9) by (auto simp: apart_def)
  then obtain m2 where m2: "get_cluster g L d c buf (of_nat ?k) m = (0, m2)"
      "mem_get m2 buf ?k = concat (map (\<lambda>i. cluster vol d (c + of_nat i)) [0..<Suc j])" "kept_outside [(buf, ?k), (tmpbuf L, 512)] m m2"
    using get_run_ok [OF assms(1) vol c] assms(6,7) by (meson less_trans)
  have ca: "cached vol d m2"
    by (rule cached_same [OF assms(2) m2(3)]) (use assms(6,8,10) in \<open>auto simp: apart_def\<close>)
  have "drop j (c # cs) = (c # cs) ! j # cs ! j # drop (Suc j) cs"
    using assms(4) by (metis Cons_nth_drop_Suc drop_Suc_Cons length_Cons less_SucI)
  then have lk: "linked vol d nsec ((c # cs) ! j # cs ! j # drop (Suc j) cs)"
    using linked_drop [OF assms(3), of j] assms(4) by (metis length_Cons less_SucI)
  obtain m3 b where m3: "get_fatent g d ((c # cs) ! j) m2 = (cs ! j, d\<lparr> fatbufnum := b \<rparr>, m3)" "cached vol (d\<lparr> fatbufnum := b \<rparr>) m3"
      "kept_outside [(fatbuf d, 3072)] m2 m3"
    using get_fatent_ok [OF assms(1) ca, of "(c # cs) ! j"] lk by auto
  have "mem_get m3 buf ?k = mem_get m2 buf ?k"
    by (rule kept_outside_get [OF m3(3)]) (use assms(6,8) in \<open>auto simp: apart_def\<close>)
  moreover have "kept_outside ?areas m m2" by (rule kept_outside_mono [OF m2(3)]) (use assms(6) in auto)
  moreover have "kept_outside ?areas m2 m3" by (rule kept_outside_mono [OF m3(3)]) auto
  ultimately show ?thesis using m2(1,2) m3(1,2) lk kept_outside_trans [of ?areas m m2 m3] by auto
qed

text \<open>The runs of consecutive clusters are shorter than the 256 KByte that one transfer of the controller can have.\<close>

definition short_runs :: "fsdata \<Rightarrow> u32 list \<Rightarrow> bool" where
  "short_runs d cs \<longleftrightarrow>
     (\<forall>i j. i + j < length cs \<and> (\<forall>k \<le> j. cs ! (i + k) = cs ! i + of_nat k) \<longrightarrow> bpc d * Suc j < 2 ^ 18)"

lemma short_runs_irrelevant [simp]: "short_runs (d\<lparr> fatbufnum := b \<rparr>) = short_runs d"
  by (simp add: short_runs_def fun_eq_iff)

lemma short_runs_first: "short_runs d (c # cs) \<Longrightarrow> j \<le> length cs \<Longrightarrow> \<forall>i \<le> j. (c # cs) ! i = c + of_nat i \<Longrightarrow> bpc d * Suc j < 2 ^ 18"
proof -
  assume "short_runs d (c # cs)" and j: "j \<le> length cs" "\<forall>i \<le> j. (c # cs) ! i = c + of_nat i"
  then have "0 + j < length (c # cs) \<and> (\<forall>k \<le> j. (c # cs) ! (0 + k) = (c # cs) ! 0 + of_nat k) \<longrightarrow> bpc d * Suc j < 2 ^ 18"
    unfolding short_runs_def by blast
  then show "bpc d * Suc j < 2 ^ 18" using j by simp
qed

lemma short_runs_drop: "short_runs d cs \<Longrightarrow> short_runs d (drop n cs)"
  unfolding short_runs_def
proof (intro allI impI)
  fix i j
  assume s: "\<forall>i j. i + j < length cs \<and> (\<forall>k \<le> j. cs ! (i + k) = cs ! i + of_nat k) \<longrightarrow> bpc d * Suc j < 2 ^ 18"
    and h: "i + j < length (drop n cs) \<and> (\<forall>k \<le> j. drop n cs ! (i + k) = drop n cs ! i + of_nat k)"
  then have "n + i + j < length cs \<and> (\<forall>k \<le> j. cs ! (n + i + k) = cs ! (n + i) + of_nat k)" by (auto simp: add.assoc)
  then show "bpc d * Suc j < 2 ^ 18" using s by blast
qed

lemma short_runs_small: "bpc d * length cs < 2 ^ 18 \<Longrightarrow> short_runs d cs"
proof -
  assume b: "bpc d * length cs < 2 ^ 18"
  have "bpc d * Suc j < 2 ^ 18" if "i + j < length cs" for i j
    by (rule le_less_trans [OF mult_le_mono2 b]) (use that in simp)
  then show "short_runs d cs" unfolding short_runs_def by blast
qed

lemma contents_loop_ok:
  assumes "serves g vol nsec" "cached vol d m" "linked vol d nsec (c # cs)" "unat F \<le> bpc d * (length cs + 1)"
    "cs \<noteq> [] \<longrightarrow> bpc d * length cs < unat F" "unat G + unat F < 2 ^ 31" "short_runs d (c # cs)"
    "apart (buf, unat F) (fatbuf d, 3072)" "apart (buf, unat F) (tmpbuf L, 512)" "apart (fatbuf d, 3072) (tmpbuf L, 512)"
  shows "\<exists>m'. contents_loop g L d c buf F G m = Some (int (unat G + unat F), m', []) \<and>
    mem_get m' buf (unat F) = take (unat F) (concat (map (cluster vol d) (c # cs))) \<and>
    kept_outside [(buf, unat F), (fatbuf d, 3072), (tmpbuf L, 512)] m m'"
  using assms
proof (induction "length cs" arbitrary: c cs d m buf F G rule: less_induct)
  case less
  let ?B = "ucast (clust_size d) * FS_BLOCK_SIZE :: u32" and ?areas = "[(buf, unat F), (fatbuf d, 3072), (tmpbuf L, 512)]"
  have BB: "?B = of_nat (bpc d)" using arg_cong [OF unat_bpc [of d], where f = "of_nat :: nat \<Rightarrow> u32"] by simp
  have F31: "unat F < 2 ^ 31" using less.prems(6) by simp
  have h: "unat F \<le> unat ?B + bpc d * length cs" "cs \<noteq> [] \<longrightarrow> unat ?B + bpc d * (length cs - 1) < unat F"
    using less.prems(4,5) unfolding unat_bpc by (auto simp: neq_Nil_conv)
  obtain j m1 b where j: "j \<le> length cs"
      "find_run g d c ?B F m = (if j = length cs then Enough else Broken, (c # cs) ! j, ?B + of_nat (bpc d * j), d\<lparr> fatbufnum := b \<rparr>, m1)"
      "\<forall>i \<le> j. (c # cs) ! i = c + of_nat i" "j < length cs \<longrightarrow> unat ?B + bpc d * j < unat F"
      "cached vol (d\<lparr> fatbufnum := b \<rparr>) m1" "kept_outside [(fatbuf d, 3072)] m m1"
    using find_run_ok [OF less.prems(1-3) h F31] by blast
  let ?d = "d\<lparr> fatbufnum := b \<rparr>"
  have k1: "kept_outside ?areas m m1" by (rule kept_outside_mono [OF j(6)]) auto
  have data: "concat (map (cluster vol d) (c # cs)) =
      concat (map (\<lambda>i. cluster vol ?d (c + of_nat i)) [0..<Suc j]) @ concat (map (cluster vol d) (drop j cs))"
    using concat_take_drop [of "Suc j" "c # cs" c vol d] j(1,3) by simp
  show ?case
  proof (cases "j = length cs")
    case True
    have vol: "\<forall>i \<le> j. on_volume ?d nsec (c + of_nat i)"
      using j(1,3) linked_on_volume [OF less.prems(3)] by (metis fatbufnum_irrelevant(5) length_Cons less_Suc_eq_le nth_mem order_trans)
    have le: "bpc d * j \<le> unat F" using less.prems(5) True by (cases "cs = []") auto
    have "unat F \<le> bpc ?d * (j + 1)" using less.prems(4) True by simp
    then obtain m2 m3 where m: "get_cluster g L ?d c buf (of_nat (bpc d * j)) m1 = (0, m2)"
        "get_cluster g L ?d (c + of_nat j) (buf + bpc d * j) (F - of_nat (bpc d * j)) m2 = (0, m3)"
        "mem_get m3 buf (unat F) = take (unat F) (concat (map (\<lambda>i. cluster vol ?d (c + of_nat i)) [0..<Suc j]))"
        "kept_outside [(buf, unat F), (tmpbuf L, 512)] m1 m3"
      using last_run_ok [OF less.prems(1) vol, of F buf L m1] le short_runs_first [OF less.prems(7) j(1,3)] less.prems(9) by auto
    have u: "unat (of_nat (bpc d * j) :: u32) = bpc d * j" using le F31 by (intro unat_of_nat_u32) simp
    have "contents_loop g L d c buf F G m = Some (sint (G + F), m3, [])"
      using j(2,3) True m(1,2) u BB by (subst contents_loop.simps) (simp add: Let_def)
    moreover have "unat (G + F) = unat G + unat F" using less.prems(6) by (intro u32_add) simp
    then have "sint (G + F) = int (unat G + unat F)" using less.prems(6) sint_unat [of "G + F"] by metis
    moreover have "kept_outside ?areas m1 m3" by (rule kept_outside_mono [OF m(4)]) auto
    ultimately show ?thesis using m(3) k1 kept_outside_trans data True by fastforce
  next
    case False
    then have js: "j < length cs" using j(1) by simp
    let ?k = "bpc d * Suc j"
    have kF: "?k < unat F" using j(4) js unfolding unat_bpc by (simp add: algebra_simps)
    have u: "unat (of_nat ?k :: u32) = ?k" using kF F31 by (intro unat_of_nat_u32) simp
    have l': "linked vol ?d nsec (c # cs)" using less.prems(3) by simp
    obtain m2 m3 b3 where m2: "get_cluster g L ?d c buf (of_nat ?k) m1 = (0, m2)"
        "get_fatent g ?d ((c # cs) ! j) m2 = (cs ! j, d\<lparr> fatbufnum := b3 \<rparr>, m3)" "\<not> CHECK_CLUST (cs ! j) (fatsize d)"
        "linked vol d nsec (cs ! j # drop (Suc j) cs)" "cached vol (d\<lparr> fatbufnum := b3 \<rparr>) m3"
        "mem_get m3 buf ?k = concat (map (\<lambda>i. cluster vol ?d (c + of_nat i)) [0..<Suc j])" "kept_outside ?areas m1 m3"
      using broken_run_ok [OF less.prems(1) j(5) l' js j(3), of "unat F" buf L] kF short_runs_first [OF less.prems(7) j(1,3)] less.prems(8-10) by auto
    let ?F = "F - of_nat ?k" and ?G = "G + of_nat ?k" and ?d3 = "d\<lparr> fatbufnum := b3 \<rparr>"
    have uF: "unat ?F = unat F - ?k" using kF u by (simp add: unat_sub word_le_nat_alt)
    have uG: "unat ?G = unat G + ?k" using kF less.prems(6) u by (subst u32_add) simp_all
    have "\<exists>m4. contents_loop g L ?d3 (cs ! j) (buf + ?k) ?F ?G m3 = Some (int (unat ?G + unat ?F), m4, []) \<and>
        mem_get m4 (buf + ?k) (unat ?F) = take (unat ?F) (concat (map (cluster vol ?d3) (cs ! j # drop (Suc j) cs))) \<and>
        kept_outside [(buf + ?k, unat ?F), (fatbuf ?d3, 3072), (tmpbuf L, 512)] m3 m4"
    proof (rule less.hyps)
      show "unat ?F \<le> bpc ?d3 * (length (drop (Suc j) cs) + 1)"
        using less.prems(4) js unfolding uF by (auto simp: algebra_simps diff_mult_distrib2)
      show "drop (Suc j) cs \<noteq> [] \<longrightarrow> bpc ?d3 * length (drop (Suc j) cs) < unat ?F"
      proof
        assume "drop (Suc j) cs \<noteq> []"
        then have "?k \<le> bpc d * length cs" by (intro mult_le_mono2) simp
        moreover have "bpc d * length cs < unat F" using less.prems(5) js by auto
        ultimately have "bpc d * length cs - ?k < unat F - ?k" by (rule diff_less_mono [rotated])
        then show "bpc ?d3 * length (drop (Suc j) cs) < unat ?F" unfolding uF by (simp only: fatbufnum_irrelevant length_drop diff_mult_distrib2)
      qed
      show "short_runs ?d3 (cs ! j # drop (Suc j) cs)"
        using short_runs_drop [OF less.prems(7), of "Suc j"] js by (simp add: Cons_nth_drop_Suc)
    qed (use less.prems js kF uF uG m2(4,5) in \<open>auto simp: apart_def\<close>)
    then obtain m4 where m4: "contents_loop g L ?d3 (cs ! j) (buf + ?k) ?F ?G m3 = Some (int (unat G + unat F), m4, [])"
        "mem_get m4 (buf + ?k) (unat F - ?k) = take (unat F - ?k) (concat (map (cluster vol d) (drop j cs)))"
        "kept_outside [(buf + ?k, unat F - ?k), (fatbuf d, 3072), (tmpbuf L, 512)] m3 m4"
      using kF js Cons_nth_drop_Suc [of j cs] unfolding uF uG by auto
    have step: "contents_loop g L d c buf F G m = Some (int (unat G + unat F), m4, [])"
      using j(2) False m2(1-3) m4(1) u BB by (subst contents_loop.simps) (simp add: Let_def)
    have "mem_get m4 buf ?k = mem_get m3 buf ?k"
      by (rule kept_outside_get [OF m4(3)]) (use kF less.prems(8,9) in \<open>auto simp: apart_def\<close>)
    then have res: "mem_get m4 buf (unat F) = take (unat F) (concat (map (cluster vol d) (c # cs)))"
      unfolding data mem_get_split [OF less_imp_le [OF kF], of m4] using m2(6) m4(2) kF by (simp add: add.commute)
    have k4: "kept_outside ?areas m3 m4" by (rule kept_outside_mono [OF m4(3)]) (use kF in auto)
    show ?thesis using step res kept_outside_trans [OF k1 kept_outside_trans [OF m2(7) k4]] by blast
  qed
qed

end
