(* ===== verification/Fat_Dir.thy ===== *)
theory Fat_Dir
  imports Fat_Read
begin

text \<open>
  Looking names up in FAT directories: what the entries of a block show, and that the two directory readers of
  \<^verbatim>\<open>fs/fat/fat.c\<close> find the first entry whose short or long name is the one looked for.

  A block of a directory is given by its bytes \<open>blk\<close>, from address 0 on, and its length \<open>N\<close>. While it is scanned, the slots
  already passed may have been overwritten with the entries behind them; \<open>agree\<close> says from where on the block is as read.
\<close>

section \<open>What a block of a directory shows\<close>

definition agree :: "mem \<Rightarrow> nat \<Rightarrow> nat \<Rightarrow> addr \<Rightarrow> mem \<Rightarrow> bool" where
  "agree blk N x p m \<longleftrightarrow> (\<forall>y. x \<le> y \<and> y < N \<longrightarrow> m (p + y) = blk y)"

definition volume_attr :: "dir_entry \<Rightarrow> bool" where "volume_attr e \<longleftrightarrow> de_attr e AND ATTR_VOLUME \<noteq> 0"

text \<open>A long name that starts at \<open>x\<close>: the name and the entry behind it, all in the block.\<close>

definition good_long :: "mem \<Rightarrow> nat \<Rightarrow> nat \<Rightarrow> string \<Rightarrow> dir_entry \<Rightarrow> bool" where
  "good_long blk N x l e \<longleftrightarrow> volume_attr (dent blk x) \<and> is_long_slot (dent blk x) \<and> blk x \<noteq> DELETED_FLAG \<and>
     (\<exists>y l0. x < y \<and> y + 32 \<le> N \<and> slot_walk blk N (slot_seq blk x) x = Some y \<and> name_down blk y [] = Some l0 \<and>
        name_done l0 = Some l \<and> e = dent blk y \<and> blk y \<noteq> NUL)"

text \<open>The entry at \<open>x\<close> is not the one looked for, and not the end of the directory.\<close>

definition passes :: "mem \<Rightarrow> nat \<Rightarrow> string \<Rightarrow> nat \<Rightarrow> bool" where
  "passes blk N fname x \<longleftrightarrow>
     (let e = dent blk x in
      if \<not> volume_attr e then blk x \<noteq> NUL \<and> get_name e \<noteq> fname
      else is_long_slot e \<longrightarrow>
             slot_walk blk N (slot_seq blk x) x = None \<and> get_name e \<noteq> fname \<or>
             (\<exists>l e'. good_long blk N x l e' \<and> get_name e' \<noteq> fname \<and> l \<noteq> fname))"

text \<open>The entry at \<open>x\<close> is the one looked for.\<close>

definition hits :: "mem \<Rightarrow> nat \<Rightarrow> string \<Rightarrow> nat \<Rightarrow> dir_entry \<Rightarrow> bool" where
  "hits blk N fname x e \<longleftrightarrow>
     \<not> volume_attr e \<and> e = dent blk x \<and> blk x \<noteq> NUL \<and> get_name e = fname \<or>
     (\<exists>l. good_long blk N x l e \<and> (get_name e = fname \<or> l = fname))"

lemma agreeD: "agree blk N x p m \<Longrightarrow> x \<le> y \<Longrightarrow> y < N \<Longrightarrow> m (p + y) = blk y"
  by (simp add: agree_def)

lemma mem_get_agree: "agree blk N x p m \<Longrightarrow> x \<le> y \<Longrightarrow> y + n \<le> N \<Longrightarrow> mem_get m (p + y) n = mem_get blk y n"
  by (rule nth_equalityI) (auto simp: add.assoc intro!: agreeD)

lemma dent_agree:
  assumes "agree blk N x p m" "x + 32 \<le> N"
  shows "dent m (p + x) = dent blk x"
proof -
  have b: "m (p + (x + i)) = blk (x + i)" if "i < 32" for i using agreeD [OF assms(1), of "x + i"] assms(2) that by simp
  have b': "m (i + (p + x)) = blk (i + x)" if "i < 32" for i using b [OF that] by (simp add: ac_simps)
  have "mem_get m (p + x) 8 = mem_get blk x 8" "mem_get m (p + x + 8) 3 = mem_get blk (x + 8) 3"
    using mem_get_agree [OF assms(1), of x 8] mem_get_agree [OF assms(1), of "x + 8" 3] assms(2) by (simp_all add: add.assoc)
  moreover have "load16 m (p + x + 20) = load16 blk (x + 20)" "load16 m (p + x + 26) = load16 blk (x + 26)"
    "load32 m (p + x + 28) = load32 blk (x + 28)"
    by (simp_all add: load16_def load32_def add.assoc b b')
  ultimately show ?thesis using b [of 11] by (simp add: dent_def add.assoc)
qed

lemma agree_mono: "agree blk N x p m \<Longrightarrow> x \<le> y \<Longrightarrow> agree blk N y p m"
  by (auto simp: agree_def)

lemma slot_walk_agree:
  "agree blk N x p m \<Longrightarrow> slot_walk m (p + N) c (p + x) = map_option ((+) p) (slot_walk blk N c x)"
proof (induction blk N c x rule: slot_walk.induct)
  case (2 blk N c x)
  then show ?case using agree_mono [OF 2(2), of "x + 32"] by (auto simp: slot_seq_def agree_def add.assoc)
qed simp

lemma slot_walk_ge: "slot_walk m N c x = Some y \<Longrightarrow> \<exists>k. y = x + 32 * k"
proof (induction m N c x rule: slot_walk.induct)
  case (2 m N c x)
  show ?case
  proof (cases "x < N")
    case True
    then obtain k where "y = x + 32 + 32 * k" using 2 by (auto split: if_splits)
    then show ?thesis by (intro exI [of _ "Suc k"]) simp
  qed (use 2(2) in simp)
qed simp

lemma slot2str_agree: 
  assumes "agree blk N x p m" "x \<le> y" "y + 32 \<le> N"
  shows "slot2str m (p + y) l = slot2str blk y l"
proof -
  have "slot_chars m (p + y) = slot_chars blk y"
    using mem_get_agree [OF assms, THEN arg_cong, of "\<lambda>xs. map (\<lambda>j. xs ! j) [1, 3, 5, 7, 9, 14, 16, 18, 20, 22, 24, 28, 30]"]
    by (simp add: slot_chars_def)
  then show ?thesis by (simp add: slot2str_def)
qed

text \<open>The name is collected back to the marked slot at \<open>x\<close>, and no further.\<close>

lemma name_down_agree:
  assumes "agree blk N x p m" "(of_char (blk x) :: u8) AND LAST_LONG_ENTRY_MASK \<noteq> 0" "x + 32 * Suc k \<le> N"
  shows "name_down m (p + (x + 32 * Suc k)) l = name_down blk (x + 32 * Suc k) l"
  using assms(3)
proof (induction k arbitrary: l)
  case 0
  have "m (p + x) = blk x" using assms(1) 0 by (simp add: agree_def)
  then show ?case using assms 0 slot2str_agree [OF assms(1), of x] by (subst (1 2) name_down.simps) (simp add: Let_def split: option.split)
next
  case (Suc k)
  let ?y = "x + 32 * Suc k"
  have y: "m (p + ?y) = blk ?y" using assms(1) Suc.prems by (simp add: agree_def)
  have s: "slot2str m (p + ?y) l = slot2str blk ?y l" for l using Suc.prems by (intro slot2str_agree [OF assms(1)]) simp_all
  have e: "p + (x + 32 * Suc (Suc k)) - 32 = p + ?y" "x + 32 * Suc (Suc k) - 32 = ?y" by simp_all
  have ih: "name_down m (p + ?y) l = name_down blk ?y l" for l using Suc by simp
  have "\<not> p + (x + 32 * Suc (Suc k)) < 32" "\<not> x + 32 * Suc (Suc k) < 32" by simp_all
  then show ?case
    unfolding name_down.simps [of m "p + (x + 32 * Suc (Suc k))"] name_down.simps [of blk "x + 32 * Suc (Suc k)"] e
    using y s ih by (simp only: Let_def split_beta if_False)
qed

lemma dent_copy: "dent (mem_put m a (mem_get m b 32)) a = dent m b"
proof -
  let ?f = "\<lambda>z. m (b + z)"
  have "agree ?f 32 0 a (mem_put m a (mem_get m b 32))" "agree ?f 32 0 b m" by (auto simp: agree_def mem_put_def)
  then show ?thesis using dent_agree [of ?f 32 0 a] dent_agree [of ?f 32 0 b] by simp
qed

lemma slot_seq_agree: "agree blk N x p m \<Longrightarrow> x < N \<Longrightarrow> slot_seq m (p + x) = slot_seq blk x"
  by (simp add: slot_seq_def agree_def)

lemma name_0 [simp]: "de_name (dent m p) ! 0 = m p"
  by (simp add: dent_def)

lemma get_vfatname_good:
  assumes "good_long blk N x l e" "agree blk N x p m" "N = unat (clust_size d) * 512"
  shows "\<exists>m'. get_vfatname g L d c p (p + x) m = Some (0, l, d, m', []) \<and> dent m' (p + x) = e \<and> m' (p + x) \<noteq> NUL \<and>
    agree blk N (x + 32) p m' \<and> kept_outside [(p, N)] m m'"
proof -
  obtain y l0 where y: "x < y" "y + 32 \<le> N" "slot_walk blk N (slot_seq blk x) x = Some y" "name_down blk y [] = Some l0"
      "name_done l0 = Some l" "e = dent blk y" "blk y \<noteq> NUL" and long: "is_long_slot (dent blk x)"
    using assms(1) by (auto simp: good_long_def)
  obtain k0 where "y = x + 32 * k0" using slot_walk_ge [OF y(3)] by blast
  then obtain k where k: "y = x + 32 * Suc k" using y(1) by (cases k0) auto
  have nd: "name_down m (p + y) [] = Some l0"
    using name_down_agree [OF assms(2), of k "[]"] long y(2,4) k by (simp add: is_long_slot_def)
  have sw: "slot_walk m (p + N) (slot_seq m (p + x)) (p + x) = Some (p + y)"
    using slot_walk_agree [OF assms(2)] slot_seq_agree [OF assms(2)] y(1-3) by simp
  let ?m = "mem_put m (p + x) (mem_get m (p + y) 32)"
  have "get_vfatname g L d c p (p + x) m = Some (0, l, d, ?m, [])"
    using sw nd y(2,5) assms(3) by (simp add: get_vfatname_def Let_def)
  moreover have "dent ?m (p + x) = e"
    using dent_copy [of m "p + x" "p + y"] dent_agree [OF agree_mono [OF assms(2)], of y] y by simp
  moreover have "?m (p + x) \<noteq> NUL" using agreeD [OF assms(2), of y] y by (simp add: mem_put_def)
  moreover have "agree blk N (x + 32) p ?m" using assms(2) by (auto simp: agree_def mem_put_def)
  moreover have "kept_outside [(p, N)] m ?m" using y by (auto simp: kept_outside_def mem_put_def)
  ultimately show ?thesis by blast
qed

lemma get_name_deleted: "m p = DELETED_FLAG \<Longrightarrow> get_name (dent m p) = []"
  by (simp add: get_name_def dent_def downcase_def mem_get_Suc eval_nat_numeral first_char_def DELETED_FLAG_def name_end_def)

section \<open>Scanning\<close>

text \<open>The state of a scan that started in \<open>s0\<close> and has reached the entry at \<open>x\<close>.\<close>

definition at_entry :: "mem \<Rightarrow> nat \<Rightarrow> addr \<Rightarrow> scan \<Rightarrow> nat \<Rightarrow> scan \<Rightarrow> bool" where
  "at_entry blk N p s0 x s \<longleftrightarrow> agree blk N x p (smem s) \<and> sfs s = sfs s0 \<and> sout s = sout s0 \<and> kept_outside [(p, N)] (smem s0) (smem s)"

lemma long_name_good:
  assumes "good_long blk N x l e" "at_entry blk N p s0 x s" "N = unat (clust_size (sfs s0)) * 512"
  shows "\<exists>s'. long_name g L c p (p + x) s = Some (l, s') \<and> dent (smem s') (p + x) = e \<and> smem s' (p + x) \<noteq> NUL \<and>
    at_entry blk N p s0 (x + 32) s'"
  using get_vfatname_good [OF assms(1), of p "smem s" "sfs s" g L c] assms(2,3) kept_outside_trans
  by (fastforce simp: at_entry_def long_name_def)

lemma long_name_bad:
  assumes "slot_walk blk N (slot_seq blk x) x = None" "at_entry blk N p s0 x s" "N = unat (clust_size (sfs s0)) * 512" "x + 32 \<le> N"
  shows "\<exists>s'. long_name g L c p (p + x) s = Some ([], s') \<and> smem s' = smem s \<and> at_entry blk N p s0 (x + 32) s'"
proof -
  have "get_vfatname g L (sfs s) c p (p + x) (smem s) = Some (-1, [], sfs s, smem s, [])"
    using assms slot_walk_agree [of blk N x p "smem s"] slot_seq_agree [of blk N x p "smem s"]
    by (simp add: at_entry_def get_vfatname_def Let_def)
  then show ?thesis using assms(2) agree_mono [of blk N x p "smem s" "x + 32"] by (auto simp: at_entry_def long_name_def)
qed

lemma at_entry_next: "at_entry blk N p s0 x s \<Longrightarrow> at_entry blk N p s0 (x + 32) s"
  by (auto simp: at_entry_def agree_def)

lemma at_entry_dent:
  "at_entry blk N p s0 x s \<Longrightarrow> x + 32 \<le> N \<Longrightarrow> dent (smem s) (p + x) = dent blk x \<and> smem s (p + x) = blk x"
  using dent_agree [of blk N x p "smem s"] by (simp add: at_entry_def agree_def)

lemma root_pass:
  assumes "passes blk N fname x" "at_entry blk N p s0 x s" "N = unat (clust_size (sfs s0)) * 512" "x + 32 \<le> N" "fname \<noteq> []"
    "p = do_fat_read_block L"
  shows "\<exists>s'. root_step g L fname LS_NO isdir (p + x) s = Some (Inl s') \<and> at_entry blk N p s0 (x + 32) s'"
proof -
  note d = at_entry_dent [OF assms(2,4)]
  consider "\<not> volume_attr (dent blk x)" | "volume_attr (dent blk x)" "\<not> is_long_slot (dent blk x)"
    | "volume_attr (dent blk x)" "is_long_slot (dent blk x)" "slot_walk blk N (slot_seq blk x) x = None" "get_name (dent blk x) \<noteq> fname"
    | l e where "volume_attr (dent blk x)" "is_long_slot (dent blk x)" "good_long blk N x l e" "get_name e \<noteq> fname" "l \<noteq> fname"
    using assms(1) by (auto simp: passes_def Let_def split: if_splits)
  then show ?thesis
  proof cases
    case 1
    then show ?thesis using assms(1,5) d at_entry_next [OF assms(2)]
      by (auto simp: root_step_def root_short_def passes_def volume_attr_def Let_def LS_NO_def LS_ROOT_def)
  next
    case 2
    then show ?thesis using d at_entry_next [OF assms(2)] by (auto simp: root_step_def volume_attr_def Let_def)
  next
    case 3
    then show ?thesis using d assms(5,6) long_name_bad [OF 3(3) assms(2,3,4), of g L 0]
      by (auto simp: root_step_def root_short_def volume_attr_def Let_def LS_NO_def LS_ROOT_def)
  next
    case (4 l e)
    then show ?thesis using d assms(6) long_name_good [OF 4(3) assms(2,3), of g L 0]
      by (auto simp: root_step_def root_short_def volume_attr_def Let_def LS_NO_def LS_ROOT_def)
  qed
qed

lemma root_hit:
  assumes "hits blk N fname x e" "at_entry blk N p s0 x s" "N = unat (clust_size (sfs s0)) * 512" "x + 32 \<le> N"
    "p = do_fat_read_block L" "isdir \<longrightarrow> is_dir e"
  shows "\<exists>s'. root_step g L fname LS_NO isdir (p + x) s = Some (Inr (Inr e, s')) \<and> at_entry blk N p s0 (x + 32) s'"
proof -
  note d = at_entry_dent [OF assms(2,4)]
  consider "\<not> volume_attr e" "e = dent blk x" "blk x \<noteq> NUL" "get_name e = fname"
    | l where "good_long blk N x l e" "get_name e = fname \<or> l = fname"
    using assms(1) by (auto simp: hits_def)
  then show ?thesis
  proof cases
    case 1
    then show ?thesis using d at_entry_next [OF assms(2)] assms(6)
      by (auto simp: root_step_def root_short_def volume_attr_def Let_def LS_NO_def LS_ROOT_def)
  next
    case (2 l)
    then have "volume_attr (dent blk x)" "is_long_slot (dent blk x)" by (auto simp: good_long_def)
    then show ?thesis using 2(2) d assms(5,6) long_name_good [OF 2(1) assms(2,3), of g L 0]
      by (auto simp: root_step_def root_short_def volume_attr_def Let_def LS_NO_def LS_ROOT_def)
  qed
qed

text \<open>The same in a directory that is a file.\<close>

lemma dent_pass:
  assumes "passes blk N fname x" "at_entry blk N p s0 x s" "N = unat (clust_size (sfs s0)) * 512" "x + 32 \<le> N" "fname \<noteq> []"
    "p = get_dentfromdir_block L"
  shows "\<exists>s'. dent_step g L c fname 0 (p + x) s = Some (Inl s') \<and> at_entry blk N p s0 (x + 32) s'"
proof -
  note d = at_entry_dent [OF assms(2,4)]
  consider "blk x = DELETED_FLAG" | "\<not> volume_attr (dent blk x)" "blk x \<noteq> DELETED_FLAG"
    | "volume_attr (dent blk x)" "\<not> is_long_slot (dent blk x)" "blk x \<noteq> DELETED_FLAG"
    | "volume_attr (dent blk x)" "is_long_slot (dent blk x)" "slot_walk blk N (slot_seq blk x) x = None" "get_name (dent blk x) \<noteq> fname"
        "blk x \<noteq> DELETED_FLAG"
    | l e where "volume_attr (dent blk x)" "is_long_slot (dent blk x)" "good_long blk N x l e" "get_name e \<noteq> fname" "l \<noteq> fname"
        "blk x \<noteq> DELETED_FLAG"
    using assms(1) by (auto simp: passes_def Let_def split: if_splits)
  then show ?thesis
  proof cases
    case 1
    then show ?thesis using d at_entry_next [OF assms(2)] by (auto simp: dent_step_def Let_def)
  next
    case 2
    then show ?thesis using assms(1,5) d at_entry_next [OF assms(2)]
      by (auto simp: dent_step_def dent_short_def passes_def volume_attr_def Let_def)
  next
    case 3
    then show ?thesis using d at_entry_next [OF assms(2)] by (auto simp: dent_step_def volume_attr_def Let_def)
  next
    case 4
    then have "blk x \<noteq> NUL" by (auto simp: is_long_slot_def)
    then show ?thesis using 4 d assms(5,6) long_name_bad [OF 4(3) assms(2,3,4), of g L c]
      by (auto simp: dent_step_def dent_short_def volume_attr_def Let_def)
  next
    case (5 l e)
    then show ?thesis using d assms(6) long_name_good [OF 5(3) assms(2,3), of g L c]
      by (auto simp: dent_step_def dent_short_def volume_attr_def Let_def)
  qed
qed

lemma dent_hit:
  assumes "hits blk N fname x e" "at_entry blk N p s0 x s" "N = unat (clust_size (sfs s0)) * 512" "x + 32 \<le> N" "fname \<noteq> []"
    "p = get_dentfromdir_block L"
  shows "\<exists>s'. dent_step g L c fname 0 (p + x) s = Some (Inr (Some e, s')) \<and> at_entry blk N p s0 (x + 32) s'"
proof -
  note d = at_entry_dent [OF assms(2,4)]
  consider "\<not> volume_attr e" "e = dent blk x" "blk x \<noteq> NUL" "get_name e = fname"
    | l where "good_long blk N x l e" "get_name e = fname \<or> l = fname"
    using assms(1) by (auto simp: hits_def)
  then show ?thesis
  proof cases
    case 1
    then have "blk x \<noteq> DELETED_FLAG" using assms(5) get_name_deleted [of blk x] by auto
    then show ?thesis using 1 d at_entry_next [OF assms(2)]
      by (auto simp: dent_step_def dent_short_def volume_attr_def Let_def)
  next
    case (2 l)
    then have "volume_attr (dent blk x)" "is_long_slot (dent blk x)" "blk x \<noteq> DELETED_FLAG" by (auto simp: good_long_def)
    then show ?thesis using 2(2) d assms(6) long_name_good [OF 2(1) assms(2,3), of g L c]
      by (auto simp: dent_step_def dent_short_def volume_attr_def Let_def)
  qed
qed

lemma entries_pass:
  assumes "\<forall>x s. passes blk N fname x \<and> at_entry blk N p s0 x s \<and> x + 32 \<le> N \<longrightarrow>
      (\<exists>s'. step (p + x) s = Some (Inl s') \<and> at_entry blk N p s0 (x + 32) s')"
  shows "\<forall>i < n. passes blk N fname (x + 32 * i) \<Longrightarrow> x + 32 * n \<le> N \<Longrightarrow> at_entry blk N p s0 x s \<Longrightarrow>
    \<exists>s'. entries step n (p + x) s = Some (Inl s') \<and> at_entry blk N p s0 (x + 32 * n) s'"
proof (induction n arbitrary: x s)
  case (Suc n)
  obtain s1 where s1: "step (p + x) s = Some (Inl s1)" "at_entry blk N p s0 (x + 32) s1"
    using assms Suc.prems by fastforce
  have "\<forall>i < n. passes blk N fname (x + 32 + 32 * i)"
    using Suc.prems(1) by (metis Suc_less_eq add.assoc mult_Suc_right)
  then obtain s' where "entries step n (p + (x + 32)) s1 = Some (Inl s')" "at_entry blk N p s0 (x + 32 + 32 * n) s'"
    using Suc.IH [of "x + 32" s1] s1(2) Suc.prems(2) by auto
  then show ?case using s1(1) by (auto simp: add.assoc)
qed auto

lemma entries_append: "entries step (n + k) p s =
    do { r \<leftarrow> entries step n p s; case r of Inl s' \<Rightarrow> entries step k (p + 32 * n) s' | Inr x \<Rightarrow> Some (Inr x) }"
proof (induction n arbitrary: p s)
  case (Suc n)
  show ?case by (cases "step p s") (auto simp: Suc add.assoc split: sum.split)
qed simp

lemma entries_hit:
  assumes "\<forall>x s. passes blk N fname x \<and> at_entry blk N p s0 x s \<and> x + 32 \<le> N \<longrightarrow>
      (\<exists>s'. step (p + x) s = Some (Inl s') \<and> at_entry blk N p s0 (x + 32) s')"
    and "\<forall>x s. hits blk N fname x e \<and> at_entry blk N p s0 x s \<and> x + 32 \<le> N \<longrightarrow>
      (\<exists>s'. step (p + x) s = Some (Inr (r, s')) \<and> at_entry blk N p s0 (x + 32) s')"
    and "\<forall>i < k. passes blk N fname (32 * i)" "hits blk N fname (32 * k) e" "k < n" "32 * n \<le> N" "at_entry blk N p s0 0 s"
  shows "\<exists>s'. entries step n p s = Some (Inr (r, s')) \<and> at_entry blk N p s0 (32 * k + 32) s'"
proof -
  obtain s1 where s1: "entries step k p s = Some (Inl s1)" "at_entry blk N p s0 (32 * k) s1"
    using entries_pass [OF assms(1), of k 0 s] assms(3,5-7) by auto
  obtain s2 where s2: "step (p + 32 * k) s1 = Some (Inr (r, s2))" "at_entry blk N p s0 (32 * k + 32) s2"
    using assms(2,4-6) s1(2) by fastforce
  have "n = k + Suc (n - Suc k)" using assms(5) by simp
  then have "entries step n p s = Some (Inr (r, s2))"
    using s1(1) s2(1) entries_append [of step k "Suc (n - Suc k)" p s] by simp
  then show ?thesis using s2(2) by blast
qed

section \<open>The root directory\<close>

definition sect :: "mem \<Rightarrow> nat \<Rightarrow> mem" where "sect vol t = (\<lambda>x. vol (512 * t + x))"

text \<open>The name is that of entry \<open>r\<close> of the sector \<open>t + q\<close>, and no entry from the sector \<open>t\<close> on stops the search before.\<close>

definition in_root :: "mem \<Rightarrow> fsdata \<Rightarrow> nat \<Rightarrow> nat \<Rightarrow> string \<Rightarrow> nat \<Rightarrow> nat \<Rightarrow> dir_entry \<Rightarrow> bool" where
  "in_root vol d nsec t fname q r e \<longleftrightarrow> r < 16 \<and> 0 < clust_size d \<and> unat (clust_size d) < 2 ^ 9 \<and> t + q + unat (clust_size d) \<le> nsec \<and>
     (\<forall>u < q. \<forall>i < 16. passes (sect vol (t + u)) (bpc d) fname (32 * i)) \<and>
     (\<forall>i < r. passes (sect vol (t + q)) (bpc d) fname (32 * i)) \<and> hits (sect vol (t + q)) (bpc d) fname (32 * r) e"

lemma bpc_512: "bpc d = unat (clust_size d) * 512"
  by (simp add: bpc_def)

lemma read_at_entry:
  "at_entry (sect vol t) N p (s\<lparr> smem := mem_put m p (mem_get vol (512 * t) N) \<rparr>) 0 (s\<lparr> smem := mem_put m p (mem_get vol (512 * t) N) \<rparr>)"
  by (auto simp: at_entry_def agree_def sect_def mem_put_def)

lemma unat_clust: "unat (ucast (clust_size d) :: u32) = unat (clust_size d)"
  using unat_less_u16 [of "clust_size d"] by (simp add: unsigned_ucast_eq take_bit_nat_eq_self)

lemma read_clust:
  assumes "serves g vol nsec" "unat t + unat (clust_size d) \<le> nsec" "unat (clust_size d) < 2 ^ 9"
  shows "disk_read g t (ucast (clust_size d)) p m = (int (unat (clust_size d)), mem_put m p (mem_get vol (512 * unat t) (bpc d)))"
  using serves_read [OF assms(1), of t "ucast (clust_size d)" p m] assms(2,3) unfolding unat_clust by (simp add: bpc_def)

text \<open>What one read of the root directory leads to.\<close>

lemma root_block:
  assumes "0 < clust_size (sfs s)" "p = do_fat_read_block L" "fname \<noteq> []"
    "s1 = s\<lparr> smem := mem_put (smem s) p (mem_get vol (512 * t) (bpc (sfs s))) \<rparr>"
  shows root_block_pass: "\<forall>i < 16. passes (sect vol t) (bpc (sfs s)) fname (32 * i) \<Longrightarrow>
      \<exists>s'. entries (root_step g L fname LS_NO isdir) 16 p s1 = Some (Inl s') \<and> at_entry (sect vol t) (bpc (sfs s)) p s1 512 s'"
    and root_block_hit: "\<lbrakk> \<forall>i < r. passes (sect vol t) (bpc (sfs s)) fname (32 * i); hits (sect vol t) (bpc (sfs s)) fname (32 * r) e;
        r < 16; isdir \<longrightarrow> is_dir e \<rbrakk> \<Longrightarrow>
      \<exists>s'. entries (root_step g L fname LS_NO isdir) 16 p s1 = Some (Inr (Inr e, s')) \<and>
        at_entry (sect vol t) (bpc (sfs s)) p s1 (32 * r + 32) s'"
proof -
  have N: "512 \<le> bpc (sfs s)" using assms(1) by (simp add: bpc_def word_less_nat_alt)
  have b: "bpc (sfs s1) = unat (clust_size (sfs s1)) * 512" by (simp add: bpc_def)
  have s: "sfs s = sfs s1" by (simp add: assms(4))
  have a: "at_entry (sect vol t) (bpc (sfs s1)) p s1 0 s1" using read_at_entry assms(4) by simp
  have pass: "\<forall>x s. passes (sect vol t) (bpc (sfs s1)) fname x \<and> at_entry (sect vol t) (bpc (sfs s1)) p s1 x s \<and> x + 32 \<le> bpc (sfs s1) \<longrightarrow>
      (\<exists>s'. root_step g L fname LS_NO isdir (p + x) s = Some (Inl s') \<and> at_entry (sect vol t) (bpc (sfs s1)) p s1 (x + 32) s')"
    using root_pass [OF _ _ b _ assms(3,2)] by blast
  show "\<exists>s'. entries (root_step g L fname LS_NO isdir) 16 p s1 = Some (Inl s') \<and> at_entry (sect vol t) (bpc (sfs s)) p s1 512 s'"
    if "\<forall>i < 16. passes (sect vol t) (bpc (sfs s)) fname (32 * i)"
    using entries_pass [OF pass, of 16 0 s1] a that N unfolding s by simp
  show "\<exists>s'. entries (root_step g L fname LS_NO isdir) 16 p s1 = Some (Inr (Inr e, s')) \<and>
      at_entry (sect vol t) (bpc (sfs s)) p s1 (32 * r + 32) s'"
    if "\<forall>i < r. passes (sect vol t) (bpc (sfs s)) fname (32 * i)" "hits (sect vol t) (bpc (sfs s)) fname (32 * r) e" "r < 16" "isdir \<longrightarrow> is_dir e"
  proof -
    have "\<forall>x s. hits (sect vol t) (bpc (sfs s1)) fname x e \<and> at_entry (sect vol t) (bpc (sfs s1)) p s1 x s \<and> x + 32 \<le> bpc (sfs s1) \<longrightarrow>
        (\<exists>s'. root_step g L fname LS_NO isdir (p + x) s = Some (Inr (Inr e, s')) \<and> at_entry (sect vol t) (bpc (sfs s1)) p s1 (x + 32) s')"
      using root_hit [OF _ _ b _ assms(2) that(4)] by blast
    then show ?thesis using entries_hit [OF pass, of e "Inr e" r 16 s1] a that(1-3) N unfolding s by simp
  qed
qed

lemma root_loop_ok:
  assumes "serves g vol nsec" "in_root vol (sfs s) nsec (unat t) fname q r e" "fname \<noteq> []" "isdir \<longrightarrow> is_dir e"
  shows "\<exists>s'. root_loop g L fname LS_NO isdir t s = Some (Inr e, s') \<and> sfs s' = sfs s \<and> sout s' = sout s \<and>
    agree (sect vol (unat t + q)) (bpc (sfs s)) (32 * r + 32) (do_fat_read_block L) (smem s') \<and>
    kept_outside [(do_fat_read_block L, bpc (sfs s))] (smem s) (smem s')"
  using assms(2)
proof (induction q arbitrary: t s)
  case (0 t s)
  let ?p = "do_fat_read_block L" and ?N = "bpc (sfs s)"
  define s1 where "s1 = s\<lparr> smem := mem_put (smem s) ?p (mem_get vol (512 * unat t) ?N) \<rparr>"
  note q = 0 [unfolded in_root_def]
  have r: "disk_read g t (ucast (clust_size (sfs s))) ?p (smem s) = (int (unat (clust_size (sfs s))), smem s1)"
    using read_clust [OF assms(1), of t "sfs s" ?p "smem s"] q by (simp add: s1_def)
  obtain s' where s': "entries (root_step g L fname LS_NO isdir) 16 ?p s1 = Some (Inr (Inr e, s'))"
      "at_entry (sect vol (unat t)) ?N ?p s1 (32 * r + 32) s'"
    using root_block_hit [OF _ refl assms(3) s1_def, of r e isdir g] q assms(4) by auto
  have "root_loop g L fname LS_NO isdir t s = Some (Inr e, s')"
    using r s'(1) by (subst root_loop.simps) (simp add: Let_def s1_def)
  moreover have "kept_outside [(?p, ?N)] (smem s) (smem s1)" unfolding s1_def by (simp add: kept_outside_put)
  ultimately show ?case using s'(2) kept_outside_trans [of _ "smem s" "smem s1" "smem s'"] by (auto simp: at_entry_def s1_def)
next
  case (Suc q t s)
  let ?p = "do_fat_read_block L" and ?N = "bpc (sfs s)"
  define s1 where "s1 = s\<lparr> smem := mem_put (smem s) ?p (mem_get vol (512 * unat t) ?N) \<rparr>"
  note q = Suc.prems [unfolded in_root_def]
  have r: "disk_read g t (ucast (clust_size (sfs s))) ?p (smem s) = (int (unat (clust_size (sfs s))), smem s1)"
    using read_clust [OF assms(1), of t "sfs s" ?p "smem s"] q by (simp add: s1_def)
  obtain s2 where s2: "entries (root_step g L fname LS_NO isdir) 16 ?p s1 = Some (Inl s2)" "at_entry (sect vol (unat t)) ?N ?p s1 512 s2"
    using root_block_pass [OF _ refl assms(3) s1_def, of g isdir] q by fastforce
  have t1: "unat (t + 1) = unat t + 1"
    using q assms(1) u32_add [of t 1] by (simp add: serves_def)
  have "in_root vol (sfs s2) nsec (unat (t + 1)) fname q r e"
    using q s2(2) unfolding in_root_def t1 by (fastforce simp: at_entry_def s1_def)
  then obtain s' where s': "root_loop g L fname LS_NO isdir (t + 1) s2 = Some (Inr e, s')" "sfs s' = sfs s2" "sout s' = sout s2"
      "agree (sect vol (unat t + Suc q)) (bpc (sfs s2)) (32 * r + 32) ?p (smem s')" "kept_outside [(?p, bpc (sfs s2))] (smem s2) (smem s')"
    using Suc.IH [of s2 "t + 1"] t1 by auto
  have "root_loop g L fname LS_NO isdir t s = Some (Inr e, s')"
    using r s2(1) s'(1) by (subst root_loop.simps) (simp add: Let_def s1_def)
  moreover have "kept_outside [(?p, ?N)] (smem s) (smem s1)" unfolding s1_def by (simp add: kept_outside_put)
  ultimately show ?case using s2(2) s' kept_outside_trans [of _ "smem s" "smem s1" "smem s2"] kept_outside_trans [of _ "smem s" "smem s2" "smem s'"]
    by (auto simp: at_entry_def s1_def)
qed

section \<open>Directories that are files\<close>

text \<open>The clusters of a directory up to the one that holds the entry, which is its entry \<open>r\<close>.\<close>

fun in_dir :: "mem \<Rightarrow> fsdata \<Rightarrow> string \<Rightarrow> u32 list \<Rightarrow> nat \<Rightarrow> dir_entry \<Rightarrow> bool" where
  "in_dir vol d fname [] r e = False"
| "in_dir vol d fname [c] r e =
     (r < bpc d div 32 \<and> (\<forall>i < r. passes (sect vol (csect d c)) (bpc d) fname (32 * i)) \<and> hits (sect vol (csect d c)) (bpc d) fname (32 * r) e)"
| "in_dir vol d fname (c # c' # cs) r e =
     ((\<forall>i < bpc d div 32. passes (sect vol (csect d c)) (bpc d) fname (32 * i)) \<and> in_dir vol d fname (c' # cs) r e)"

text \<open>What the lookup in a directory writes, and that it does not destroy the cache: a whole cluster goes to the array, which has fewer
  bytes.\<close>

definition dir_written :: "fat_layout \<Rightarrow> fsdata \<Rightarrow> (nat \<times> nat) list" where
  "dir_written L d = [(get_dentfromdir_block L, bpc d), (fatbuf d, 3072), (tmpbuf L, 512)]"

definition dir_apart :: "fat_layout \<Rightarrow> fsdata \<Rightarrow> bool" where
  "dir_apart L d \<longleftrightarrow> apart (get_dentfromdir_block L, bpc d) (fatbuf d, 3072) \<and> apart (get_dentfromdir_block L, bpc d) (tmpbuf L, 512) \<and>
     apart (fatbuf d, 3072) (tmpbuf L, 512)"

lemma layout_irrelevant [simp]: "dir_written L (d\<lparr> fatbufnum := b \<rparr>) = dir_written L d" "dir_apart L (d\<lparr> fatbufnum := b \<rparr>) = dir_apart L d"
  by (simp_all add: dir_written_def dir_apart_def)

lemma in_dir_irrelevant [simp]: "in_dir vol (d\<lparr> fatbufnum := b \<rparr>) fname cs r e = in_dir vol d fname cs r e"
  by (induction vol d fname cs r e rule: in_dir.induct) auto

lemma dir_cluster:
  assumes "serves g vol nsec" "on_volume (sfs s) nsec c" "dir_apart L (sfs s)" "cached vol (sfs s) (smem s)"
  shows "\<exists>s1. get_cluster g L (sfs s) c (get_dentfromdir_block L) (ucast (clust_size (sfs s)) * FS_BLOCK_SIZE) (smem s) = (0, smem s1) \<and>
    s\<lparr> smem := smem s1 \<rparr> = s1 \<and> sfs s1 = sfs s \<and> sout s1 = sout s \<and> at_entry (sect vol (csect (sfs s) c)) (bpc (sfs s)) (get_dentfromdir_block L) s1 0 s1 \<and>
    kept_outside (dir_written L (sfs s)) (smem s) (smem s1) \<and> cached vol (sfs s) (smem s1)"
proof -
  let ?p = "get_dentfromdir_block L" and ?sz = "ucast (clust_size (sfs s)) * FS_BLOCK_SIZE :: u32"
  have "512 * csect (sfs s) c + bpc (sfs s) \<le> 512 * nsec" "bpc (sfs s) < 2 ^ 18" using assms(2) by (simp_all add: on_volume_def bpc_def)
  then obtain m where m: "get_cluster g L (sfs s) c ?p ?sz (smem s) = (0, m)"
      "mem_get m ?p (bpc (sfs s)) = mem_get vol (512 * csect (sfs s) c) (bpc (sfs s))" "kept_outside [(?p, bpc (sfs s)), (tmpbuf L, 512)] (smem s) m"
    using get_cluster_ok [OF assms(1), of c "sfs s" ?sz ?p L "smem s"] assms(2,3) unfolding unat_bpc by (auto simp: on_volume_def dir_apart_def)
  have "agree (sect vol (csect (sfs s) c)) (bpc (sfs s)) 0 ?p m"
    using mem_get_eqD [OF m(2)] by (simp add: agree_def sect_def)
  moreover have "kept_outside (dir_written L (sfs s)) (smem s) m"
    by (rule kept_outside_mono [OF m(3)]) (auto simp: dir_written_def)
  moreover have "cached vol (sfs s) m"
    by (rule cached_same [OF assms(4) m(3)]) (use assms(3) in \<open>auto simp: dir_apart_def apart_def\<close>)
  ultimately show ?thesis using m(1) by (intro exI [of _ "s\<lparr> smem := m \<rparr>"]) (simp add: at_entry_def)
qed

lemma at_entry_kept:
  assumes "at_entry blk (bpc d) (get_dentfromdir_block L) s1 x s2" "sfs s1 = d" "dir_apart L d" "cached vol d (smem s1)"
  shows "kept_outside (dir_written L d) (smem s1) (smem s2) \<and> cached vol d (smem s2) \<and> sfs s2 = d \<and> sout s2 = sout s1"
proof -
  have k: "kept_outside [(get_dentfromdir_block L, bpc d)] (smem s1) (smem s2)" using assms(1) by (simp add: at_entry_def)
  have "kept_outside (dir_written L d) (smem s1) (smem s2)" by (rule kept_outside_mono [OF k]) (auto simp: dir_written_def)
  moreover have "cached vol d (smem s2)" by (rule cached_same [OF assms(4) k]) (use assms(3) in \<open>auto simp: dir_apart_def\<close>)
  ultimately show ?thesis using assms(1,2) by (simp add: at_entry_def)
qed

lemma dent_block:
  assumes "fname \<noteq> []" "p = get_dentfromdir_block L" "at_entry blk (bpc (sfs sa)) p sa 0 sa"
  shows dent_block_pass: "\<forall>i < bpc (sfs sa) div 32. passes blk (bpc (sfs sa)) fname (32 * i) \<Longrightarrow>
      \<exists>s' x. entries (dent_step g L c fname 0) (unat (clust_size (sfs sa)) * 512 div 32) p sa = Some (Inl s') \<and> at_entry blk (bpc (sfs sa)) p sa x s'"
    and dent_block_hit: "\<lbrakk> \<forall>i < r. passes blk (bpc (sfs sa)) fname (32 * i); hits blk (bpc (sfs sa)) fname (32 * r) e; r < bpc (sfs sa) div 32 \<rbrakk> \<Longrightarrow>
      \<exists>s' x. entries (dent_step g L c fname 0) (unat (clust_size (sfs sa)) * 512 div 32) p sa = Some (Inr (Some e, s')) \<and>
        at_entry blk (bpc (sfs sa)) p sa x s'"
proof -
  have b: "bpc (sfs sa) = unat (clust_size (sfs sa)) * 512" by (simp add: bpc_def)
  have pass: "\<forall>x s. passes blk (bpc (sfs sa)) fname x \<and> at_entry blk (bpc (sfs sa)) p sa x s \<and> x + 32 \<le> bpc (sfs sa) \<longrightarrow>
      (\<exists>s'. dent_step g L c fname 0 (p + x) s = Some (Inl s') \<and> at_entry blk (bpc (sfs sa)) p sa (x + 32) s')"
    using dent_pass [OF _ _ b _ assms(1,2)] by blast
  have hit: "\<forall>x s. hits blk (bpc (sfs sa)) fname x e \<and> at_entry blk (bpc (sfs sa)) p sa x s \<and> x + 32 \<le> bpc (sfs sa) \<longrightarrow>
      (\<exists>s'. dent_step g L c fname 0 (p + x) s = Some (Inr (Some e, s')) \<and> at_entry blk (bpc (sfs sa)) p sa (x + 32) s')"
    using dent_hit [OF _ _ b _ assms(1,2)] by blast
  show "\<exists>s' x. entries (dent_step g L c fname 0) (unat (clust_size (sfs sa)) * 512 div 32) p sa = Some (Inl s') \<and> at_entry blk (bpc (sfs sa)) p sa x s'"
    if "\<forall>i < bpc (sfs sa) div 32. passes blk (bpc (sfs sa)) fname (32 * i)"
    using entries_pass [OF pass, of "bpc (sfs sa) div 32" 0 sa] assms(3) that b by auto
  show "\<exists>s' x. entries (dent_step g L c fname 0) (unat (clust_size (sfs sa)) * 512 div 32) p sa = Some (Inr (Some e, s')) \<and>
      at_entry blk (bpc (sfs sa)) p sa x s'"
    if "\<forall>i < r. passes blk (bpc (sfs sa)) fname (32 * i)" "hits blk (bpc (sfs sa)) fname (32 * r) e" "r < bpc (sfs sa) div 32"
    using entries_hit [OF pass hit, of r "bpc (sfs sa) div 32" sa] assms(3) that b by auto
qed

lemma dentfromdir_loop_ok:
  assumes "serves g vol nsec" "cached vol (sfs s) (smem s)" "linked vol (sfs s) nsec (c # cs)" "in_dir vol (sfs s) fname (c # cs) r e"
    "fname \<noteq> []" "dir_apart L (sfs s)"
  shows "\<exists>s' b. dentfromdir_loop g L fname 0 c s = Some (Some e, s') \<and> sfs s' = (sfs s)\<lparr> fatbufnum := b \<rparr> \<and> sout s' = sout s \<and>
    cached vol (sfs s') (smem s') \<and> kept_outside (dir_written L (sfs s)) (smem s) (smem s')"
  using assms(2-4,6)
proof (induction cs arbitrary: c s)
  case (Nil c s)
  then have c: "on_volume (sfs s) nsec c" by simp
  obtain s1 where s1: "get_cluster g L (sfs s) c (get_dentfromdir_block L) (ucast (clust_size (sfs s)) * FS_BLOCK_SIZE) (smem s) = (0, smem s1)"
      "s\<lparr> smem := smem s1 \<rparr> = s1" and e: "sfs s1 = sfs s" "sout s1 = sout s" and s1': "at_entry (sect vol (csect (sfs s) c)) (bpc (sfs s)) (get_dentfromdir_block L) s1 0 s1"
      "kept_outside (dir_written L (sfs s)) (smem s) (smem s1)" "cached vol (sfs s) (smem s1)"
    using dir_cluster [OF assms(1) c Nil(4,1)] by blast
  obtain s' x where s': "entries (dent_step g L c fname 0) (unat (clust_size (sfs s)) * 512 div 32) (get_dentfromdir_block L) s1 = Some (Inr (Some e, s'))"
      "at_entry (sect vol (csect (sfs s) c)) (bpc (sfs s)) (get_dentfromdir_block L) s1 x s'"
    using dent_block_hit [OF assms(5) refl, where blk = "sect vol (csect (sfs s) c)" and L = L and sa = s1 and r = r and e = e and g = g and c = c] s1'(1) Nil(3) unfolding e by auto
  have "dentfromdir_loop g L fname 0 c s = Some (Some e, s')"
    using s1(1,2) s'(1) by (subst dentfromdir_loop.simps) (simp add: Let_def)
  then show ?case
    using at_entry_kept [OF s'(2) e(1) Nil(4) s1'(3)] kept_outside_trans [OF s1'(2)] e(2) by (intro exI [of _ s'] exI [of _ "fatbufnum (sfs s)"]) simp
next
  case (Cons c' cs c s)
  then have c: "on_volume (sfs s) nsec c" by simp
  obtain s1 where s1: "get_cluster g L (sfs s) c (get_dentfromdir_block L) (ucast (clust_size (sfs s)) * FS_BLOCK_SIZE) (smem s) = (0, smem s1)"
      "s\<lparr> smem := smem s1 \<rparr> = s1" and e: "sfs s1 = sfs s" "sout s1 = sout s" and s1': "at_entry (sect vol (csect (sfs s) c)) (bpc (sfs s)) (get_dentfromdir_block L) s1 0 s1"
      "kept_outside (dir_written L (sfs s)) (smem s) (smem s1)" "cached vol (sfs s) (smem s1)"
    using dir_cluster [OF assms(1) c Cons(5,2)] by blast
  obtain s2 x where s2: "entries (dent_step g L c fname 0) (unat (clust_size (sfs s)) * 512 div 32) (get_dentfromdir_block L) s1 = Some (Inl s2)"
      "at_entry (sect vol (csect (sfs s) c)) (bpc (sfs s)) (get_dentfromdir_block L) s1 x s2"
    using dent_block_pass [OF assms(5) refl, where blk = "sect vol (csect (sfs s) c)" and L = L and sa = s1 and g = g and c = c] s1'(1) Cons(4) unfolding e by auto
  note k2 = at_entry_kept [OF s2(2) e(1) Cons(5) s1'(3)]
  obtain m3 b3 where m3: "get_fatent g (sfs s) c (smem s2) = (c', (sfs s)\<lparr> fatbufnum := b3 \<rparr>, m3)" "cached vol ((sfs s)\<lparr> fatbufnum := b3 \<rparr>) m3"
      "kept_outside [(fatbuf (sfs s), 3072)] (smem s2) m3"
    using get_fatent_ok [OF assms(1), of "sfs s" "smem s2" c] k2 Cons(3) by auto
  define s3 where "s3 = s2\<lparr> sfs := (sfs s)\<lparr> fatbufnum := b3 \<rparr>, smem := m3 \<rparr>"
  have k3: "kept_outside (dir_written L (sfs s)) (smem s2) m3" by (rule kept_outside_mono [OF m3(3)]) (auto simp: dir_written_def)
  obtain s' b where s': "dentfromdir_loop g L fname 0 c' s3 = Some (Some e, s')" "sfs s' = (sfs s)\<lparr> fatbufnum := b \<rparr>" "sout s' = sout s3"
      "cached vol (sfs s') (smem s')" "kept_outside (dir_written L (sfs s)) m3 (smem s')"
    using Cons(1) [of s3 c'] m3(2) Cons(3-5) by (auto simp: s3_def)
  have "dentfromdir_loop g L fname 0 c s = Some (Some e, s')"
    using s1(1,2) s2(1) k2 m3(1) s'(1) Cons(3) by (subst dentfromdir_loop.simps) (simp add: Let_def s3_def)
  then show ?case
    using s' k2 e(2) kept_outside_trans [OF s1'(2) kept_outside_trans [OF _ kept_outside_trans [OF k3 s'(5)]]] by (auto simp: s3_def)
qed

end
