(* ===== verification/Fat_Names.thy ===== *)
theory Fat_Names
  imports Fat_Dir
begin

text \<open>
  The names of directory entries: what \<^verbatim>\<open>get_name\<close> makes of the eleven bytes of a short name, and how \<^verbatim>\<open>get_vfatname\<close> puts a
  long name together from its slots.
\<close>

section \<open>Short names\<close>

definition padded :: "nat \<Rightarrow> string \<Rightarrow> string" where "padded n s = s @ replicate (n - length s) (CHR '' '')"

definition name_chars :: "string \<Rightarrow> bool" where "name_chars s \<longleftrightarrow> (\<forall>c \<in> set s. \<not> name_end c)"

lemma takeWhile_padded: "name_chars s \<Longrightarrow> takeWhile (\<lambda>c. \<not> name_end c) (padded n s) = s"
  by (cases "n - length s") (simp_all add: padded_def name_chars_def takeWhile_append2 name_end_def takeWhile_eq_all_conv [THEN iffD2])

lemma length_downcase [simp]: "length (downcase s) = length s"
  by (simp add: downcase_def)

lemma length_first_char: "length (first_char s) \<le> length s"
  by (simp add: first_char_def split: list.split)

text \<open>A short name is its base name and, after a dot, its extension, without the padding and in lower case; it fits the 14 bytes
  that the callers have for it.\<close>

theorem get_name_correct:
  assumes "de_name e = padded 8 base" "de_ext e = padded 3 ext" "0 < length base" "length base \<le> 8" "length ext \<le> 3" "name_chars base" "name_chars ext"
    "hd base \<noteq> DELETED_FLAG" "hd base \<noteq> aRING"
  shows "get_name e = downcase (base @ (if ext = [] then [] else CHR ''.'' # ext)) \<and> length (get_name e) < 14"
proof -
  have "name_end (de_ext e ! 0) \<longleftrightarrow> ext = []" using assms(2,7) by (cases ext) (auto simp: padded_def name_chars_def name_end_def)
  then have "get_name e = downcase (first_char (base @ (if ext = [] then [] else CHR ''.'' # ext)))"
    using assms(1,2) takeWhile_padded [OF assms(6)] takeWhile_padded [OF assms(7)] by (simp add: get_name_def)
  moreover have "first_char (base @ t) = base @ t" for t using assms(3,8,9) by (cases base) (simp_all add: first_char_def)
  ultimately show ?thesis using assms(4,5) by simp
qed

theorem get_name_correct_witness:
  "get_name \<lparr> de_name = ''UIMAGE  '', de_ext = ''BIN'', de_attr = 0x20, de_starthi = 0, de_start = 2, de_size = 9 \<rparr> = ''uimage.bin''"
proof -
  let ?e = "\<lparr> de_name = ''UIMAGE  '', de_ext = ''BIN'', de_attr = 0x20, de_starthi = 0, de_start = 2, de_size = 9 \<rparr> :: dir_entry"
  have "de_name ?e = padded 8 ''UIMAGE''" "de_ext ?e = padded 3 ''BIN''" by (simp_all add: padded_def numeral_2_eq_2)
  then have "get_name ?e = downcase (''UIMAGE'' @ (if ''BIN'' = [] then [] else CHR ''.'' # ''BIN''))"
    using get_name_correct [of ?e "''UIMAGE''" "''BIN''"] by (simp add: name_chars_def name_end_def DELETED_FLAG_def aRING_def)
  moreover have "downcase (''UIMAGE'' @ (if ''BIN'' = [] then [] else CHR ''.'' # ''BIN'')) = ''uimage.bin''" by code_simp
  ultimately show ?thesis by simp
qed

section \<open>Long names\<close>

text \<open>The slots of a long name in the block: the parts of 13 characters from the last slot to the first, which is marked and may
  end with a zero; the slots are numbered down to 1.\<close>

definition long_slots :: "mem \<Rightarrow> nat \<Rightarrow> string list \<Rightarrow> bool" where
  "long_slots blk x parts \<longleftrightarrow> parts \<noteq> [] \<and> (of_char (blk x) :: u8) AND LAST_LONG_ENTRY_MASK \<noteq> 0 \<and>
     (\<forall>i < length parts. let y = x + 32 * (length parts - 1 - i) in
        slot_seq blk y = i + 1 \<and> slot_chars blk y = parts ! i \<and>
        (i < length parts - 1 \<longrightarrow> (of_char (blk y) :: u8) AND LAST_LONG_ENTRY_MASK = 0 \<and> NUL \<notin> set (parts ! i)))"

definition joined :: "string list \<Rightarrow> string" where
  "joined parts = concat (butlast parts) @ takeWhile (\<lambda>c. c \<noteq> NUL) (last parts)"

lemma slot_walk_slots:
  assumes "\<forall>i < k. slot_seq blk (y + 32 * (k - 1 - i)) = i + 1" "y + 32 * k \<le> N"
  shows "slot_walk blk N k y = Some (y + 32 * k)"
  using assms
proof (induction k arbitrary: y)
  case (Suc k)
  have "slot_seq blk y = Suc k" using Suc.prems(1) by (auto dest: spec [of _ k])
  moreover have "\<forall>i < k. slot_seq blk (y + 32 + 32 * (k - 1 - i)) = i + 1"
  proof (intro allI impI)
    fix i assume "i < k"
    then have "slot_seq blk (y + 32 * (Suc k - 1 - i)) = i + 1" using Suc.prems(1) by simp
    moreover have "y + 32 + 32 * (k - 1 - i) = y + 32 * (Suc k - 1 - i)" using \<open>i < k\<close> by auto
    ultimately show "slot_seq blk (y + 32 + 32 * (k - 1 - i)) = i + 1" by metis
  qed
  then have "slot_walk blk N k (y + 32) = Some (y + 32 + 32 * k)" using Suc.IH [of "y + 32"] Suc.prems(2) by simp
  ultimately show ?case using Suc.prems(2) by simp
qed simp

lemma length_slot_chars [simp]: "length (slot_chars blk y) = 13"
  by (simp add: slot_chars_def)

lemma slot2str_full:
  assumes "NUL \<notin> set (slot_chars blk y)"
  shows "slot2str blk y l = (if length l + 13 \<le> L_NAME_SIZE then Some (False, l @ slot_chars blk y) else None)"
proof -
  have "takeWhile (\<lambda>c. c \<noteq> NUL) (slot_chars blk y) = slot_chars blk y" using assms unfolding takeWhile_eq_all_conv by blast
  then show ?thesis by (simp only: slot2str_def Let_def length_slot_chars less_irrefl if_False add_0_right)
qed

text \<open>A slot whose characters leave no room for a zero behind them never gets through.\<close>

lemma slot2str_done:
  "(case slot2str blk y l of None \<Rightarrow> None | Some (fin, l') \<Rightarrow> name_done l') = name_done (l @ takeWhile (\<lambda>c. c \<noteq> NUL) (slot_chars blk y))"
  by (auto simp: slot2str_def name_done_def Let_def)

lemma joined_drop:
  "j < length parts \<Longrightarrow> joined (drop j parts) =
     (if j = length parts - 1 then takeWhile (\<lambda>c. c \<noteq> NUL) (parts ! j) else parts ! j @ joined (drop (Suc j) parts))"
  using Cons_nth_drop_Suc [of j parts, symmetric] by (auto simp: joined_def)

lemma name_down_slots:
  assumes "long_slots blk x parts" "j < length parts"
  shows "Option.bind (name_down blk (x + 32 * (length parts - j)) l) name_done = name_done (l @ joined (drop j parts))"
  using assms(2)
proof (induction "length parts - j" arbitrary: j l)
  case (Suc n j l)
  let ?k = "length parts" and ?y = "x + 32 * (length parts - 1 - j)"
  have y: "slot_chars blk ?y = parts ! j" "j < ?k - 1 \<longrightarrow> (of_char (blk ?y) :: u8) AND LAST_LONG_ENTRY_MASK = 0 \<and> NUL \<notin> set (parts ! j)"
    using assms(1) Suc.prems by (auto simp: long_slots_def Let_def)
  have e: "x + 32 * (?k - j) - 32 = ?y" "\<not> x + 32 * (?k - j) < 32" using Suc.prems by auto
  show ?case
  proof (cases "j = ?k - 1")
    case True
    then have "(of_char (blk ?y) :: u8) AND LAST_LONG_ENTRY_MASK \<noteq> 0" using assms(1) by (simp add: long_slots_def)
    then have "Option.bind (name_down blk (x + 32 * (?k - j)) l) name_done = (case slot2str blk ?y l of None \<Rightarrow> None | Some (fin, l') \<Rightarrow> name_done l')"
      using e by (subst name_down.simps) (simp add: Let_def split: option.split)
    then show ?thesis using True y(1) joined_drop [OF Suc.prems] by (simp add: slot2str_done)
  next
    case False
    then have j: "j < ?k - 1" using Suc.prems by simp
    have ih: "Option.bind (name_down blk (x + 32 * (?k - Suc j)) (l @ parts ! j)) name_done = name_done ((l @ parts ! j) @ joined (drop (Suc j) parts))"
      using Suc.hyps(1) [of "Suc j"] Suc.hyps(2) j by simp
    have "slot2str blk ?y l = (if length l + 13 \<le> L_NAME_SIZE then Some (False, l @ parts ! j) else None)"
      using slot2str_full [of blk ?y l] y j by simp
    moreover have "length (parts ! j) = 13" using y(1) length_slot_chars [of blk ?y] by simp
    ultimately show ?thesis using ih y(2) j e joined_drop [OF Suc.prems] False
      by (subst name_down.simps) (auto simp: Let_def name_done_def)
  qed
qed simp

text \<open>C13: The long name of an entry whose slots, and the entry behind them, lie in one cluster: the slots that start at \<open>ptr\<close> are put
  together, in lower case, and the entry behind them takes the place of the first slot, exactly when the name has at most 255 characters. A longer
  name, which 20 slots can hold, is written behind the end of the array of 256 bytes and has no result. Names whose slots or
  entry are in the next cluster are not covered; for them the code loses a slot (line 439).\<close>

theorem get_vfatname_correct:
  assumes "agree blk N x p m" "N = unat (clust_size d) * 512" "long_slots blk x parts" "x + 32 * length parts < N"
  shows "get_vfatname g L d c p (p + x) m =
    (if length (joined parts) \<le> 255
     then Some (0, downcase (first_char (joined parts)), d, mem_put m (p + x) (mem_get m (p + x + 32 * length parts) 32), [])
     else None)"
proof -
  let ?k = "length parts"
  have k: "0 < ?k" "(of_char (blk x) :: u8) AND LAST_LONG_ENTRY_MASK \<noteq> 0" using assms(3) by (auto simp: long_slots_def)
  have seq: "\<forall>i < ?k. slot_seq blk (x + 32 * (?k - 1 - i)) = i + 1" using assms(3) by (simp add: long_slots_def Let_def)
  have "slot_seq blk x = ?k" using seq [THEN spec, of "?k - 1"] k(1) by simp
  then have walk: "slot_walk m (p + N) (slot_seq m (p + x)) (p + x) = Some (p + (x + 32 * ?k))"
    using slot_walk_agree [OF assms(1)] slot_seq_agree [OF assms(1)] slot_walk_slots [OF seq] assms(4) by simp
  obtain k' where k': "?k = Suc k'" using k(1) by (cases ?k) auto
  then have down: "Option.bind (name_down m (p + (x + 32 * ?k)) []) name_done = name_done (joined parts)"
    using name_down_agree [OF assms(1) k(2), of k' "[]"] name_down_slots [OF assms(3), of 0 "[]"] assms(4) unfolding k' by simp
  have "get_vfatname g L d c p (p + x) m = Option.bind (Option.bind (name_down m (p + (x + 32 * ?k)) []) name_done)
      (\<lambda>l. Some (0, l, d, mem_put m (p + x) (mem_get m (p + x + 32 * ?k) 32), []))"
    using walk assms(2,4) by (simp add: get_vfatname_def Let_def add.assoc)
  then show ?thesis unfolding down by (auto simp: name_done_def L_NAME_SIZE_def)
qed

text \<open>A directory cluster with \<open>n\<close> slots and no zero in them.\<close>

definition slot_block :: "nat \<Rightarrow> mem" where
  "slot_block n = (\<lambda>a. if a mod 32 = 0 then if a = 0 then char_of (0x40 + n) else if a < 32 * n then char_of (n - a div 32) else CHR ''X''
     else CHR ''n'')"

lemma slot_block_slots:
  assumes "0 < n" "n < 21"
  shows "long_slots (slot_block n) 0 (replicate n (replicate 13 (CHR ''n'')))"
proof -
  have "\<forall>i \<in> set [1..<21]. unat ((of_char (char_of i) :: u8) AND NOT LAST_LONG_ENTRY_MASK) = i \<and> (of_char (char_of i) :: u8) AND LAST_LONG_ENTRY_MASK = 0 \<and>
      unat ((of_char (char_of (0x40 + i)) :: u8) AND NOT LAST_LONG_ENTRY_MASK) = i \<and> (of_char (char_of (0x40 + i)) :: u8) AND LAST_LONG_ENTRY_MASK \<noteq> 0"
    by code_simp
  then have ids: "unat ((of_char (char_of i) :: u8) AND NOT LAST_LONG_ENTRY_MASK) = i" "(of_char (char_of i) :: u8) AND LAST_LONG_ENTRY_MASK = 0"
      "unat ((of_char (char_of (0x40 + i)) :: u8) AND NOT LAST_LONG_ENTRY_MASK) = i" "(of_char (char_of (0x40 + i)) :: u8) AND LAST_LONG_ENTRY_MASK \<noteq> 0"
    if "0 < i" "i < 21" for i using that by (simp_all del: upt_rec_numeral)
  have rep: "replicate 13 c = [c, c, c, c, c, c, c, c, c, c, c, c, c]" for c :: char by (simp add: eval_nat_numeral)
  have chars: "slot_chars (slot_block n) (32 * j) = replicate 13 (CHR ''n'')" for j
    unfolding rep by (simp add: slot_chars_def slot_block_def mod_Suc)
  have "slot_seq (slot_block n) (32 * (n - 1 - i)) = i + 1 \<and>
      (i < n - 1 \<longrightarrow> (of_char (slot_block n (32 * (n - 1 - i))) :: u8) AND LAST_LONG_ENTRY_MASK = 0)" if "i < n" for i
    using that assms ids [of "i + 1"] by (cases "i = n - 1") (auto simp: slot_seq_def slot_block_def)
  moreover have "slot_block n 0 = char_of (0x40 + n)" by (simp add: slot_block_def)
  ultimately show ?thesis using assms ids(4) [of n] chars by (simp add: long_slots_def Let_def)
qed

lemma joined_replicate: "0 < n \<Longrightarrow> c \<noteq> NUL \<Longrightarrow> joined (replicate n (replicate k c)) = replicate (n * k) c"
proof (induction n)
  case (Suc n)
  have "takeWhile (\<lambda>c. c \<noteq> NUL) (replicate k c) = replicate k c" using Suc.prems by (simp add: takeWhile_eq_all_conv)
  then show ?case using Suc by (cases n) (auto simp: joined_def replicate_add)
qed simp

theorem get_vfatname_correct_witness:
  "\<forall>g L. let d = \<lparr> fatbuf = 0, fatsize = 16, fatlength = 1, fat_sect = 1, rootdir_sect = 2, clust_size = 2, data_begin = 0, fatbufnum = -1 \<rparr> in
    (\<exists>m. get_vfatname g L d 2 0 0 (slot_block 19) = Some (0, replicate 247 (CHR ''n''), d, m, [])) \<and> get_vfatname g L d 2 0 0 (slot_block 20) = None"
proof (intro allI)
  fix g L
  let ?d = "\<lparr> fatbuf = 0, fatsize = 16, fatlength = 1, fat_sect = 1, rootdir_sect = 2, clust_size = 2, data_begin = 0, fatbufnum = -1 \<rparr> :: fsdata"
  have a: "agree (slot_block n) 1024 0 0 (slot_block n)" for n by (simp add: agree_def)
  have n: "1024 = unat (clust_size ?d) * 512" by simp
  have j: "joined (replicate n (replicate 13 (CHR ''n''))) = replicate (n * 13) (CHR ''n'')" if "0 < n" for n by (rule joined_replicate [OF that]) simp
  have f: "downcase (first_char (replicate (19 * 13) (CHR ''n''))) = replicate 247 (CHR ''n'')" by code_simp
  have "get_vfatname g L ?d 2 0 (0 + 0) (slot_block n) = (if n * 13 \<le> 255
      then Some (0, downcase (first_char (replicate (n * 13) (CHR ''n''))), ?d, mem_put (slot_block n) (0 + 0) (mem_get (slot_block n) (0 + 0 + 32 * n) 32), [])
      else None)" if "0 < n" "n < 21" for n
    using get_vfatname_correct [OF a n slot_block_slots [OF that], of g L 2] that by (simp add: j)
  from this [of 19] this [of 20]
  show "let d = ?d in (\<exists>m. get_vfatname g L d 2 0 0 (slot_block 19) = Some (0, replicate 247 (CHR ''n''), d, m, [])) \<and> get_vfatname g L d 2 0 0 (slot_block 20) = None"
    unfolding f [symmetric] by simp
qed

end
