(* ===== verification/Fat_File.thy ===== *)
theory Fat_File
  imports Fat_Names
begin

text \<open>
  Reading a file by its path from a FAT volume: the composition of the boot sector, the directories and the file's contents, and
  the places where the code departs from what it means to do.
\<close>

section \<open>Paths\<close>

definition path_name :: "string \<Rightarrow> bool" where
  "path_name n \<longleftrightarrow> n \<noteq> [] \<and> (\<forall>c \<in> set n. \<not> ISDIRDELIM c)"

fun path_str :: "string list \<Rightarrow> string" where
  "path_str [] = []"
| "path_str [n] = n"
| "path_str (n # n' # ns) = n @ CHR ''/'' # path_str (n' # ns)"

text \<open>From the directory \<open>e\<close> the names lead to \<open>e'\<close>.\<close>

fun resolve :: "mem \<Rightarrow> fsdata \<Rightarrow> nat \<Rightarrow> dir_entry \<Rightarrow> string list \<Rightarrow> dir_entry \<Rightarrow> bool" where
  "resolve vol d nsec e [] e' = (e' = e)"
| "resolve vol d nsec e (n # ns) e' =
     (path_name n \<and> (\<exists>cs r e1. linked vol d nsec (START d e # cs) \<and> in_dir vol d n (START d e # cs) r e1 \<and> (ns \<noteq> [] \<longrightarrow> is_dir e1) \<and>
        resolve vol d nsec e1 ns e'))"

lemma dirdelim_plain: "path_name n \<Longrightarrow> dirdelim n = None"
  by (simp add: path_name_def dirdelim_def takeWhile_eq_all_conv [THEN iffD2])

lemma dirdelim_path: "path_name n \<Longrightarrow> dirdelim (n @ CHR ''/'' # s) = Some (length n)"
  by (simp add: path_name_def dirdelim_def takeWhile_append2 ISDIRDELIM_def)

lemma dropWhile_path: "path_name n \<Longrightarrow> dropWhile ISDIRDELIM (path_str (n # ns)) = path_str (n # ns)"
  by (cases ns; cases n) (auto simp: path_name_def)

lemma START_irrelevant [simp]: "START (d\<lparr> fatbufnum := b \<rparr>) e = START d e"
  by (simp add: START_def)

lemma resolve_irrelevant [simp]: "resolve vol (d\<lparr> fatbufnum := b \<rparr>) nsec e ns e' = resolve vol d nsec e ns e'"
  by (induction ns arbitrary: e) auto

lemma get_dentfromdir_ok:
  assumes "serves g vol nsec" "cached vol d m" "linked vol d nsec (START d e # cs)" "in_dir vol d fname (START d e # cs) r e1"
    "fname \<noteq> []" "dir_apart L d"
  shows "\<exists>m' b. get_dentfromdir g L d fname e 0 m = Some (Some e1, d\<lparr> fatbufnum := b \<rparr>, m', []) \<and> cached vol (d\<lparr> fatbufnum := b \<rparr>) m' \<and>
    kept_outside (dir_written L d) m m'"
  using dentfromdir_loop_ok [OF assms(1), of "\<lparr> sfs = d, smem = m, prevcksum = 0xffff, files = 0, dirs = 0, sout = [] \<rparr>" "START d e" cs fname r e1 L]
    assms(2-6) by (fastforce simp: get_dentfromdir_def)

lemma path_loop_ok:
  assumes "serves g vol nsec" "cached vol (sfs s) (smem s)" "resolve vol (sfs s) nsec e ns e'" "ns \<noteq> []" "dir_apart L (sfs s)"
  shows "\<exists>s' b. path_loop g L LS_NO first (path_str ns) e s = Some (Inr e', s') \<and> sfs s' = (sfs s)\<lparr> fatbufnum := b \<rparr> \<and> sout s' = sout s \<and>
    cached vol (sfs s') (smem s') \<and> kept_outside (dir_written L (sfs s)) (smem s) (smem s')"
  using assms(2-5)
proof (induction ns arbitrary: e s first)
  case step: (Cons n ns e s first)
  obtain cs r e1 where n: "path_name n" and e1: "linked vol (sfs s) nsec (START (sfs s) e # cs)" "in_dir vol (sfs s) n (START (sfs s) e # cs) r e1"
      "ns \<noteq> [] \<longrightarrow> is_dir e1" "resolve vol (sfs s) nsec e1 ns e'"
    using step.prems(2) by auto
  obtain m1 b1 where m1: "get_dentfromdir g L (sfs s) n e 0 (smem s) = Some (Some e1, (sfs s)\<lparr> fatbufnum := b1 \<rparr>, m1, [])"
      "cached vol ((sfs s)\<lparr> fatbufnum := b1 \<rparr>) m1" "kept_outside (dir_written L (sfs s)) (smem s) m1"
    using get_dentfromdir_ok [OF assms(1) step.prems(1) e1(1,2) _ step.prems(4)] n by (auto simp: path_name_def)
  define s1 where "s1 = s\<lparr> sfs := (sfs s)\<lparr> fatbufnum := b1 \<rparr>, smem := m1 \<rparr>"
  show ?case
  proof (cases ns)
    case Nil
    have "path_loop g L LS_NO first (path_str (n # ns)) e s = Some (Inr e1, s1)"
      using m1(1) n Nil by (subst path_loop.simps) (simp add: dirdelim_plain LS_NO_def Let_def s1_def)
    then show ?thesis using m1 e1(4) Nil by (auto simp: s1_def)
  next
    case (Cons n' ns')
    have n': "path_name n'" using e1(4) Cons by simp
    have ca: "cached vol (sfs s1) (smem s1)" and rs: "resolve vol (sfs s1) nsec e1 ns e'" and lay: "dir_apart L (sfs s1)"
      using m1(2) e1(4) step.prems(4) by (simp_all add: s1_def)
    obtain s' b where s': "path_loop g L LS_NO first (path_str ns) e1 s1 = Some (Inr e', s')" "sfs s' = (sfs s1)\<lparr> fatbufnum := b \<rparr>" "sout s' = sout s1"
        "cached vol (sfs s') (smem s')" "kept_outside (dir_written L (sfs s1)) (smem s1) (smem s')"
      using step.IH [OF ca rs _ lay, of first] Cons by blast
    have "path_loop g L LS_NO first (path_str (n # ns)) e s = Some (Inr e', s')"
      using m1(1) n n' Cons e1(3) s'(1) dropWhile_path [OF n', of ns']
      by (subst path_loop.simps) (simp add: dirdelim_path LS_NO_def Let_def s1_def)
    then show ?thesis using s' kept_outside_trans [OF m1(3)] by (auto simp: s1_def)
  qed
qed simp

text \<open>A file of the volume: its entry is reached from the root directory by the names.\<close>

definition names_file :: "mem \<Rightarrow> fsdata \<Rightarrow> nat \<Rightarrow> string list \<Rightarrow> dir_entry \<Rightarrow> bool" where
  "names_file vol d nsec ns e \<longleftrightarrow> ns \<noteq> [] \<and> path_name (hd ns) \<and>
     (\<exists>q r e1. in_root vol d nsec (unat (rootdir_sect d)) (hd ns) q r e1 \<and> (tl ns \<noteq> [] \<longrightarrow> is_dir e1) \<and> resolve vol d nsec e1 (tl ns) e)"

definition path_written :: "fat_layout \<Rightarrow> fsdata \<Rightarrow> (nat \<times> nat) list" where
  "path_written L d = (do_fat_read_block L, bpc d) # dir_written L d"

lemma unat_rootdir: "unat (ucast (rootdir_sect d) :: u32) = unat (rootdir_sect d)"
  using unat_less_u16 [of "rootdir_sect d"] by (simp add: unsigned_ucast_eq take_bit_nat_eq_self)

lemma find_path_ok:
  assumes "serves g vol nsec" "cached vol (sfs s) (smem s)" "names_file vol (sfs s) nsec ns e" "dir_apart L (sfs s)"
    "downcase (dropWhile ISDIRDELIM filename) = path_str ns" "apart (do_fat_read_block L, bpc (sfs s)) (fatbuf (sfs s), 3072)"
  shows "\<exists>s' b. find_path g L filename LS_NO s = Some (Inr e, s') \<and> sfs s' = (sfs s)\<lparr> fatbufnum := b \<rparr> \<and> sout s' = sout s \<and>
    cached vol (sfs s') (smem s') \<and> kept_outside (path_written L (sfs s)) (smem s) (smem s')"
proof -
  let ?d = "sfs s" and ?t = "ucast (rootdir_sect (sfs s)) :: u32"
  obtain n ns' where ns: "ns = n # ns'" using assms(3) by (cases ns) (auto simp: names_file_def)
  obtain q r e1 where f: "path_name n" "in_root vol ?d nsec (unat ?t) n q r e1" "ns' \<noteq> [] \<longrightarrow> is_dir e1" "resolve vol ?d nsec e1 ns' e"
    using assms(3) ns unfolding unat_rootdir by (auto simp: names_file_def)
  have n: "n \<noteq> []" using f(1) by (simp add: path_name_def)
  obtain s1 where s1: "root_loop g L n LS_NO (ns' \<noteq> []) ?t s = Some (Inr e1, s1)" "sfs s1 = ?d" "sout s1 = sout s"
      "kept_outside [(do_fat_read_block L, bpc ?d)] (smem s) (smem s1)"
    using root_loop_ok [OF assms(1) f(2) n f(3), of L] by blast
  have ca: "cached vol ?d (smem s1)" by (rule cached_same [OF assms(2) s1(4)]) (use assms(6) in simp)
  have k1: "kept_outside (path_written L ?d) (smem s) (smem s1)"
    by (rule kept_outside_mono [OF s1(4)]) (auto simp: path_written_def)
  show ?thesis
  proof (cases ns')
    case Nil
    have "find_path g L filename LS_NO s = Some (Inr e, s1)"
      using s1(1) f(1,4) n Nil assms(5) ns by (simp add: find_path_def LS_NO_def dirdelim_plain Let_def)
    then show ?thesis using s1(2,3) ca k1 by (intro exI [of _ s1] exI [of _ "fatbufnum ?d"]) simp
  next
    case (Cons n' ns'')
    have n': "path_name n'" using f(4) Cons by simp
    obtain s' b where s': "path_loop g L LS_NO True (path_str ns') e1 s1 = Some (Inr e, s')" "sfs s' = ?d\<lparr> fatbufnum := b \<rparr>" "sout s' = sout s"
        "cached vol (sfs s') (smem s')" "kept_outside (dir_written L ?d) (smem s1) (smem s')"
      using path_loop_ok [OF assms(1), of s1 e1 ns' e L True, unfolded s1(2,3)] ca f(4) assms(4) Cons by blast
    have "find_path g L filename LS_NO s = Some (Inr e, s')"
      using s1(1) s'(1) f(1) n Cons assms(5) ns dropWhile_path [OF n', of ns''] by (simp add: find_path_def LS_NO_def dirdelim_path Let_def)
    moreover have "kept_outside (path_written L ?d) (smem s1) (smem s')"
      by (rule kept_outside_mono [OF s'(5)]) (auto simp: path_written_def)
    ultimately show ?thesis using s' kept_outside_trans [OF k1] by blast
  qed
qed

section \<open>Volumes\<close>

definition fat_type :: "mem \<Rightarrow> nat \<Rightarrow> bool" where
  "fat_type vol fs \<longleftrightarrow>
     (if bs_fat_length (boot_sector_at vol 0) = 0 then fs = 32 \<and> mem_get vol 82 8 = ''FAT32   ''
      else fs = 12 \<and> mem_get vol 54 8 = ''FAT12   '' \<or> fs = 16 \<and> mem_get vol 54 8 = ''FAT16   '')"

lemma read_bootsectandvi_ok:
  assumes "serves g vol nsec" "0 < nsec" "fat_type vol fs"
  shows "\<exists>vi m'. read_bootsectandvi g L m = (Some (boot_sector_at vol 0, vi, fs), m') \<and> kept_outside [(bootblock L, 512)] m m'"
proof -
  let ?m = "mem_put m (bootblock L) (mem_get vol 0 512)"
  have r: "disk_read g 0 1 (bootblock L) m = (1, ?m)" using serves_read [OF assms(1), of 0 1] assms(2) by simp
  have b: "?m (bootblock L + i) = vol i" if "i < 512" for i using that by (simp add: mem_put_def)
  have b': "?m (i + bootblock L) = vol i" if "i < 512" for i using b [OF that] by (simp add: add.commute)
  have bs: "boot_sector_at ?m (bootblock L) = boot_sector_at vol 0"
    by (simp add: boot_sector_at_def load16_def load32_def add.assoc b b')
  have "mem_get ?m (bootblock L + 64 + 18) 8 = mem_get vol 82 8" "mem_get ?m (bootblock L + 36 + 18) 8 = mem_get vol 54 8"
    by (rule nth_equalityI; simp add: add.assoc b)+
  then show ?thesis using r assms(3) bs
    by (auto simp: read_bootsectandvi_def Let_def volume_info_at_def fat_type_def kept_outside_put split: if_splits)
qed

section \<open>Reading a file\<close>

text \<open>The number of bytes asked for.\<close>

definition read_size :: "dir_entry \<Rightarrow> u32 \<Rightarrow> u32" where
  "read_size e maxsize = (if maxsize > 0 \<and> de_size e > maxsize then maxsize else de_size e)"

text \<open>The clusters hold the first \<open>n\<close> bytes of the file, and no cluster is too many.\<close>

definition file_data :: "mem \<Rightarrow> fsdata \<Rightarrow> nat \<Rightarrow> dir_entry \<Rightarrow> nat \<Rightarrow> u32 list \<Rightarrow> bool" where
  "file_data vol d nsec e n cs \<longleftrightarrow> linked vol d nsec (START d e # cs) \<and> n \<le> bpc d * (length cs + 1) \<and> (cs \<noteq> [] \<longrightarrow> bpc d * length cs < n) \<and>
     n < 2 ^ 31 \<and> short_runs d (START d e # cs)"

definition file_bytes :: "mem \<Rightarrow> fsdata \<Rightarrow> dir_entry \<Rightarrow> nat \<Rightarrow> u32 list \<Rightarrow> char list" where
  "file_bytes vol d e n cs = take n (concat (map (cluster vol d) (START d e # cs)))"

text \<open>The arrays of the code, with the sizes they are declared with. A directory read puts a cluster into an array of
  \<open>MAX_CLUSTSIZE\<close> = 255 bytes; the rest of it goes to the bytes behind the array.\<close>

definition fat_arrays :: "fat_layout \<Rightarrow> fsdata \<Rightarrow> (nat \<times> nat) list" where
  "fat_arrays L d = [(bootblock L, 512), (do_fat_read_block L, MAX_CLUSTSIZE), (get_dentfromdir_block L, MAX_CLUSTSIZE), (fatbuf d, 3072), (tmpbuf L, 512)]"

definition overrun :: "addr \<Rightarrow> fsdata \<Rightarrow> nat \<times> nat" where
  "overrun p d = (p + MAX_CLUSTSIZE, bpc d - MAX_CLUSTSIZE)"

definition fat_overruns :: "fat_layout \<Rightarrow> fsdata \<Rightarrow> (nat \<times> nat) list" where
  "fat_overruns L d = [overrun (do_fat_read_block L) d, overrun (get_dentfromdir_block L) d]"

definition fat_areas :: "fat_layout \<Rightarrow> fsdata \<Rightarrow> nat \<times> nat \<Rightarrow> (nat \<times> nat) list" where
  "fat_areas L d buf = buf # fat_arrays L d @ fat_overruns L d"

text \<open>The arrays as declared and the buffer for the file do not overlap the cache and the array for partial sectors: no
  two arrays of a program do.\<close>

definition fat_layout_ok :: "fat_layout \<Rightarrow> fsdata \<Rightarrow> nat \<times> nat \<Rightarrow> bool" where
  "fat_layout_ok L d buf \<longleftrightarrow> apart (fatbuf d, 3072) (tmpbuf L, 512) \<and> apart (do_fat_read_block L, MAX_CLUSTSIZE) (fatbuf d, 3072) \<and>
     (\<forall>r \<in> {buf, (get_dentfromdir_block L, MAX_CLUSTSIZE)}. apart r (fatbuf d, 3072) \<and> apart r (tmpbuf L, 512))"

text \<open>What no declaration promises: that the bytes behind the two arrays are not those of the cache or of the array for partial
  sectors.\<close>

definition overruns_harmless :: "fat_layout \<Rightarrow> fsdata \<Rightarrow> bool" where
  "overruns_harmless L d \<longleftrightarrow> apart (overrun (do_fat_read_block L) d) (fatbuf d, 3072) \<and>
     apart (overrun (get_dentfromdir_block L) d) (fatbuf d, 3072) \<and> apart (overrun (get_dentfromdir_block L) d) (tmpbuf L, 512)"

lemma apart_overrun: "apart (p, MAX_CLUSTSIZE) (q, n) \<Longrightarrow> apart (overrun p d) (q, n) \<Longrightarrow> 0 < n \<Longrightarrow> apart (p, bpc d) (q, n)"
  by (auto simp: apart_def overrun_def)

lemma kept_overrun:
  assumes "kept_outside ((p, bpc d) # rs) m m'" "{(p, MAX_CLUSTSIZE), overrun p d} \<subseteq> set rs'" "set rs \<subseteq> set rs'"
  shows "kept_outside rs' m m'"
  unfolding kept_outside_def
proof (intro allI impI)
  fix a assume out: "\<forall>(p, n) \<in> set rs'. a < p \<or> p + n \<le> a"
  then have "a < p \<or> p + MAX_CLUSTSIZE \<le> a" "a < p + MAX_CLUSTSIZE \<or> p + MAX_CLUSTSIZE + (bpc d - MAX_CLUSTSIZE) \<le> a"
    using assms(2) by (auto simp: overrun_def)
  then have "a < p \<or> p + bpc d \<le> a" by linarith
  moreover have "\<forall>(p, n) \<in> set rs. a < p \<or> p + n \<le> a" using out assms(3) by blast
  ultimately show "m' a = m a" using assms(1) by (simp add: kept_outside_def)
qed

lemma layout_apart:
  assumes "fat_layout_ok L d buf" "overruns_harmless L d"
  shows "dir_apart L d" "apart (do_fat_read_block L, bpc d) (fatbuf d, 3072)"
  using assms by (auto simp: fat_layout_ok_def overruns_harmless_def dir_apart_def intro: apart_overrun)

lemma path_written_areas:
  assumes "kept_outside (path_written L d) m m'"
  shows "kept_outside (fat_areas L d buf) m m'"
proof -
  have "kept_outside ((get_dentfromdir_block L, bpc d) # (do_fat_read_block L, bpc d) # [(fatbuf d, 3072), (tmpbuf L, 512)]) m m'"
    by (rule kept_outside_mono [OF assms]) (auto simp: path_written_def dir_written_def)
  then have "kept_outside ((do_fat_read_block L, bpc d) # fat_areas L d buf) m m'"
    by (rule kept_overrun) (auto simp: fat_areas_def fat_arrays_def fat_overruns_def)
  then show ?thesis by (rule kept_overrun) (auto simp: fat_areas_def fat_arrays_def fat_overruns_def)
qed

lemma get_contents_ok:
  assumes "serves g vol nsec" "cached vol d m" "file_data vol d nsec e (unat (read_size e maxsize)) cs"
    "apart (buf, unat (read_size e maxsize)) (fatbuf d, 3072)" "apart (buf, unat (read_size e maxsize)) (tmpbuf L, 512)"
    "apart (fatbuf d, 3072) (tmpbuf L, 512)"
  shows "\<exists>m'. get_contents g L d e buf maxsize m = Some (int (unat (read_size e maxsize)), m', []) \<and>
    mem_get m' buf (unat (read_size e maxsize)) = file_bytes vol d e (unat (read_size e maxsize)) cs \<and>
    kept_outside [(buf, unat (read_size e maxsize)), (fatbuf d, 3072), (tmpbuf L, 512)] m m'"
  using contents_loop_ok [OF assms(1,2), of "START d e" cs "read_size e maxsize" 0 buf L] assms(3-6)
  by (auto simp: get_contents_def file_data_def file_bytes_def read_size_def)

lemma file_irrelevant [simp]:
  "file_data vol (d\<lparr> fatbufnum := b \<rparr>) = file_data vol d" "file_bytes vol (d\<lparr> fatbufnum := b \<rparr>) = file_bytes vol d"
  by (auto simp: file_data_def file_bytes_def fun_eq_iff)

lemma do_fat_read_ok:
  assumes "serves g vol nsec" "fat_type vol fs" "0 < nsec" "d = fs_setup fb (boot_sector_at vol 0) fs"
    "downcase (dropWhile ISDIRDELIM filename) = path_str ns" "names_file vol d nsec ns e"
    "n = unat (read_size e maxsize)" "file_data vol d nsec e n cs" "fat_layout_ok L d (buf, n)" "overruns_harmless L d"
  shows "\<exists>m'. do_fat_read g L fb filename buf maxsize LS_NO m = Some (int n, m', []) \<and>
    mem_get m' buf n = file_bytes vol d e n cs \<and> kept_outside (fat_areas L d (buf, n)) m m'"
proof -
  obtain vi m1 where m1: "read_bootsectandvi g L m = (Some (boot_sector_at vol 0, vi, fs), m1)" "kept_outside [(bootblock L, 512)] m m1"
    using read_bootsectandvi_ok [OF assms(1,3,2)] by blast
  let ?s = "\<lparr> sfs = d, smem = m1, prevcksum = 0xffff, files = 0, dirs = 0, sout = [] \<rparr>"
  have "cached vol d m1" using assms(4) by (simp add: cached_def fs_setup_def Let_def)
  then obtain s' b where s': "find_path g L filename LS_NO ?s = Some (Inr e, s')" "sfs s' = d\<lparr> fatbufnum := b \<rparr>" "sout s' = []"
      "cached vol (sfs s') (smem s')" "kept_outside (path_written L d) m1 (smem s')"
    using find_path_ok [OF assms(1), of ?s ns e L filename] assms(5,6) layout_apart [OF assms(9,10)] by auto
  obtain m' where m': "get_contents g L (sfs s') e buf maxsize (smem s') = Some (int n, m', [])" "mem_get m' buf n = file_bytes vol d e n cs"
      "kept_outside [(buf, n), (fatbuf d, 3072), (tmpbuf L, 512)] (smem s') m'"
    using get_contents_ok [OF assms(1) s'(4), of e maxsize cs buf L] assms(7-9) s'(2) by (auto simp: fat_layout_ok_def)
  have "do_fat_read g L fb filename buf maxsize LS_NO m = Some (int n, m', [])"
    using m1(1) s'(1,3) m'(1) assms(4) by (simp add: do_fat_read_def)
  moreover have "kept_outside (fat_areas L d (buf, n)) m m1"
    by (rule kept_outside_mono [OF m1(2)]) (auto simp: fat_areas_def fat_arrays_def)
  moreover have "kept_outside (fat_areas L d (buf, n)) m1 (smem s')" by (rule path_written_areas [OF s'(5)])
  moreover have "kept_outside (fat_areas L d (buf, n)) (smem s') m'"
    by (rule kept_outside_mono [OF m'(3)]) (auto simp: fat_areas_def fat_arrays_def)
  ultimately show ?thesis using m'(2) kept_outside_trans by blast
qed

section \<open>A volume\<close>

text \<open>A FAT16 volume of 20 sectors with one file of 600 bytes, in the clusters 2 and 4, on a card without a partition table.\<close>

definition sample_vol :: mem where
  "sample_vol = (\<lambda>_. NUL)(13 := CHR 0x01, 14 := CHR 0x01, 16 := CHR 0x01, 17 := CHR 0x10, 22 := CHR 0x06,
     54 := CHR ''F'', 55 := CHR ''A'', 56 := CHR ''T'', 57 := CHR ''1'', 58 := CHR ''6'', 59 := CHR '' '', 60 := CHR '' '', 61 := CHR '' '',
     510 := CHR 0x55, 511 := CHR 0xAA, 516 := CHR 0x04, 520 := CHR 0xFF, 521 := CHR 0xFF,
     3584 := CHR ''D'', 3585 := CHR ''A'', 3586 := CHR ''T'', 3587 := CHR ''A'', 3588 := CHR '' '', 3595 := CHR 0x08,
     3616 := CHR ''H'', 3617 := CHR ''I'', 3618 := CHR '' '', 3624 := CHR ''T'', 3625 := CHR ''X'', 3626 := CHR ''T'', 3627 := CHR 0x20,
     3642 := CHR 0x02, 3644 := CHR 0x58, 3645 := CHR 0x02, 4096 := CHR ''a'', 5120 := CHR ''z'')"

text \<open>The state after a card without partitions was chosen, with the driver of the board.\<close>

definition card_globals :: "mem \<Rightarrow> nat \<Rightarrow> fat_globals" where
  "card_globals vol n = \<lparr> cur_dev = Some (mmc_blkdev_0\<lparr> block_read := Some (mmc_read_block (sd_read \<lparr> cbytes = vol, cblocks = n \<rparr>) 512) \<rparr>),
     part_offset = 0, cur_part = 1 \<rparr>"

lemma card_serves: "n \<le> 2 ^ 23 \<Longrightarrow> serves (card_globals vol n) vol n"
  using mmc.serves_partition [of "card_globals vol n" _ "\<lparr> cbytes = vol, cblocks = n \<rparr>" n]
  by (simp add: card_globals_def reachable_blocks_def)

definition sample_layout :: fat_layout where
  "sample_layout = \<lparr> get_vfatname_block = 0x1000, get_dentfromdir_block = 0x2000, do_fat_read_block = 0x3000, tmpbuf = 0x8000, bootblock = 0x9000, global_words = [0x7000, 0x7004, 0x7100] \<rparr>"

definition sample_fs :: fsdata where
  "sample_fs = \<lparr> fatbuf = 0xA000, fatsize = 16, fatlength = 6, fat_sect = 1, rootdir_sect = 7, clust_size = 1, data_begin = 6, fatbufnum = -1 \<rparr>"

abbreviation sample_globals :: fat_globals where "sample_globals \<equiv> card_globals sample_vol 20"

lemma sample_serves: "serves sample_globals sample_vol 20"
  by (simp add: card_serves)

lemma sample_setup: "fs_setup 0xA000 (boot_sector_at sample_vol 0) 16 = sample_fs"
  by (simp add: fs_setup_def boot_sector_at_def sample_vol_def sample_fs_def load16_def)

lemma sample_type: "fat_type sample_vol 16"
  by (simp add: fat_type_def boot_sector_at_def load16_def mem_get_def upt_rec sample_vol_def)

definition sample_entry :: dir_entry where
  "sample_entry = \<lparr> de_name = ''HI '' @ [NUL, NUL, NUL, NUL, NUL], de_ext = ''TXT'', de_attr = 0x20, de_starthi = 0, de_start = 2, de_size = 600 \<rparr>"

lemma sample_dents:
  "dent (sect sample_vol 7) 32 = sample_entry" "de_attr (dent (sect sample_vol 7) 0) = 8" "sect sample_vol 7 0 = CHR ''D''"
  by (simp_all add: dent_def sect_def sample_entry_def load16_def load32_def mem_get_def upt_rec sample_vol_def)

lemma sample_name: "get_name sample_entry = ''hi.txt''" "get_name (dent (sect sample_vol 7) 0) = ''data''"
proof -
  show "get_name sample_entry = ''hi.txt''" by code_simp
  have "dent (sect sample_vol 7) 0 = \<lparr> de_name = ''DATA '' @ [NUL, NUL, NUL], de_ext = [NUL, NUL, NUL], de_attr = 8, de_starthi = 0, de_start = 0, de_size = 0 \<rparr>"
    by (simp add: dent_def sect_def load16_def load32_def mem_get_def upt_rec sample_vol_def)
  moreover have "get_name \<lparr> de_name = ''DATA '' @ [NUL, NUL, NUL], de_ext = [NUL, NUL, NUL], de_attr = 8, de_starthi = 0, de_start = 0, de_size = 0 \<rparr> = ''data''"
    by code_simp
  ultimately show "get_name (dent (sect sample_vol 7) 0) = ''data''" by simp
qed

lemma sample_walk: "slot_walk (sect sample_vol 7) 512 (slot_seq (sect sample_vol 7) 0) 0 = None"
proof -
  have "slot_seq (sect sample_vol 7) 0 = Suc 3" "slot_seq (sect sample_vol 7) 32 = 8"
    by (simp_all add: slot_seq_def sect_def sample_vol_def LAST_LONG_ENTRY_MASK_def)
  then show ?thesis by (simp add: eval_nat_numeral)
qed

lemma sample_in_root: "in_root sample_vol sample_fs 20 7 ''hi.txt'' 0 1 sample_entry"
proof -
  have "passes (sect sample_vol 7) 512 ''hi.txt'' 0"
    by (simp add: passes_def volume_attr_def Let_def ATTR_VOLUME_def sample_dents sample_name sample_walk)
  moreover have "hits (sect sample_vol 7) 512 ''hi.txt'' 32 sample_entry"
    using sample_name(1) by (simp add: hits_def volume_attr_def sample_dents(1) sample_entry_def ATTR_VOLUME_def) (simp add: sect_def sample_vol_def)
  ultimately show ?thesis by (simp add: in_root_def sample_fs_def bpc_def)
qed

lemma sample_names: "names_file sample_vol sample_fs 20 [''hi.txt''] sample_entry"
  using sample_in_root by (auto simp: names_file_def path_name_def ISDIRDELIM_def sample_fs_def)

lemma sample_data: "file_data sample_vol sample_fs 20 sample_entry 600 [4]"
  by (simp add: file_data_def short_runs_small START_def sample_entry_def sample_fs_def on_volume_def csect_def bpc_def fat_ok_def fat_width_def per_buf_def
      fat_entry_def fat_base_def CHECK_CLUST_def load16_def sample_vol_def word_le_nat_alt)

lemma sample_layout_ok:
  "fat_layout_ok sample_layout sample_fs (0x20000, 600)" "overruns_harmless sample_layout sample_fs"
  "\<forall>r \<in> set (fat_areas sample_layout sample_fs (0x20000, 600)). \<forall>w \<in> set (global_words sample_layout). apart r (w, 4)"
  by (simp_all add: fat_layout_ok_def overruns_harmless_def overrun_def apart_def sample_layout_def sample_fs_def bpc_def MAX_CLUSTSIZE_def
      fat_areas_def fat_arrays_def fat_overruns_def)

section \<open>Properties\<close>

text \<open>C11: An entry of the file allocation table is read as the table on the volume has it, for each of the three widths, through the
  cache of six sectors; what was cached before does not matter, and nothing outside the cache changes.\<close>

theorem get_fatent_correct:
  assumes "serves g vol nsec" "cached vol d m" "fat_ok d nsec (unat i)"
  shows "\<exists>m' b. get_fatent g d i m = (fat_entry vol (fat_base d) (fatsize d) (unat i), d\<lparr> fatbufnum := b \<rparr>, m') \<and>
    cached vol (d\<lparr> fatbufnum := b \<rparr>) m' \<and> kept_outside [(fatbuf d, 3072)] m m'"
  by (rule get_fatent_ok [OF assms])

theorem get_fatent_correct_witness:
  "\<exists>d' m'. get_fatent sample_globals sample_fs 2 (\<lambda>_. NUL) = (4, d', m') \<and> m' 0x20000 = NUL"
proof -
  have "cached sample_vol sample_fs (\<lambda>_. NUL)" "fat_ok sample_fs 20 (unat (2 :: u32))"
    "fat_entry sample_vol (fat_base sample_fs) (fatsize sample_fs) (unat (2 :: u32)) = 4"
    by (simp_all add: cached_def fat_ok_def fat_width_def per_buf_def fat_entry_def fat_base_def load16_def sample_fs_def sample_vol_def)
  then show ?thesis using get_fatent_correct [OF sample_serves, of sample_fs "\<lambda>_. NUL" 2] by (auto simp: kept_outside_def sample_fs_def)
qed

text \<open>C10: A file is read by its path. The names, in lower case, lead from the root directory over directories to the entry, by short or by
  long names; the value returned is the size of the file, or the limit if that is less; the buffer holds that many bytes of the
  file's clusters in their order, whether or not they are consecutive. A run of consecutive clusters is shorter than 256 KByte,
  which is what the driver of the card can read at once.
  Written are the buffer, the code's arrays, and the bytes behind the two static arrays for directories: these have 255 bytes, and
  each cluster of a directory is read into them as a whole, so that at least 257 bytes land behind the array. That the reading works all the
  same is proved for a layout in which these bytes belong neither to the cache of the table, nor to the array for partial sectors
  (\<open>overruns_harmless\<close>), nor to the words of \<^verbatim>\<open>cur_dev\<close>, \<^verbatim>\<open>part_offset\<close> and \<^verbatim>\<open>cur_part\<close>, which are then unchanged; local variables are
  taken to be out of their reach as well. Nothing in the code ensures this.\<close>

theorem do_fat_read_correct:
  assumes "serves g vol nsec" "fat_type vol fs" "0 < nsec" "d = fs_setup fb (boot_sector_at vol 0) fs"
    "downcase (dropWhile ISDIRDELIM filename) = path_str ns" "names_file vol d nsec ns e"
    "n = unat (read_size e maxsize)" "file_data vol d nsec e n cs" "fat_layout_ok L d (buf, n)"
    and overruns: "overruns_harmless L d" "\<forall>r \<in> set (fat_areas L d (buf, n)). \<forall>w \<in> set (global_words L). apart r (w, 4)"
  shows "\<exists>m'. do_fat_read g L fb filename buf maxsize LS_NO m = Some (int n, m', []) \<and>
    mem_get m' buf n = file_bytes vol d e n cs \<and> kept_outside ((buf, n) # fat_arrays L d @ fat_overruns L d) m m' \<and>
    (\<forall>w \<in> set (global_words L). mem_get m' w 4 = mem_get m w 4)"
proof -
  obtain m' where m': "do_fat_read g L fb filename buf maxsize LS_NO m = Some (int n, m', [])"
      "mem_get m' buf n = file_bytes vol d e n cs" "kept_outside (fat_areas L d (buf, n)) m m'"
    using do_fat_read_ok [OF assms(1-10)] by blast
  have "mem_get m' w 4 = mem_get m w 4" if "w \<in> set (global_words L)" for w
    using kept_apart [OF m'(3), of w 4] overruns(2) that by (auto intro!: nth_equalityI)
  then show ?thesis using m' unfolding fat_areas_def by blast
qed

theorem do_fat_read_correct_witness:
  "\<exists>m'. do_fat_read sample_globals sample_layout 0xA000 ''/HI.txt'' 0x20000 0 LS_NO (\<lambda>_. CHR ''?'') = Some (600, m', []) \<and>
    m' 0x20000 = CHR ''a'' \<and> m' (0x20000 + 512) = CHR ''z'' \<and> m' (0x20000 + 600) = CHR ''?''"
proof -
  have "read_size sample_entry 0 = 600" by (simp add: read_size_def sample_entry_def)
  moreover have "downcase (dropWhile ISDIRDELIM ''/HI.txt'') = path_str [''hi.txt'']" by code_simp
  ultimately obtain m' where m': "do_fat_read sample_globals sample_layout 0xA000 ''/HI.txt'' 0x20000 0 LS_NO (\<lambda>_. CHR ''?'') = Some (600, m', [])"
      "mem_get m' 0x20000 600 = file_bytes sample_vol sample_fs sample_entry 600 [4]"
      "kept_outside (fat_areas sample_layout sample_fs (0x20000, 600)) (\<lambda>_. CHR ''?'') m'"
    using do_fat_read_correct [OF sample_serves sample_type _ sample_setup [symmetric] _ sample_names _ sample_data sample_layout_ok, of "''/HI.txt''" 0]
    unfolding fat_areas_def by auto
  have b: "file_bytes sample_vol sample_fs sample_entry 600 [4] ! i = sample_vol (if i < 512 then 4096 + i else 5120 + (i - 512))" if "i < 600" for i
    using that by (simp add: file_bytes_def cluster_def bpc_def csect_def START_def sample_fs_def sample_entry_def nth_append)
  have "m' (0x20000 + i) = sample_vol (if i < 512 then 4096 + i else 5120 + (i - 512))" if "i < 600" for i
    using b [OF that] that by (simp add: m'(2) [symmetric])
  from this [of 0] this [of 512] have "m' 0x20000 = CHR ''a''" "m' (0x20000 + 512) = CHR ''z''" by (simp_all add: sample_vol_def)
  moreover have "m' (0x20000 + 600) = CHR ''?''"
    using m'(3) by (auto simp: kept_outside_def fat_areas_def fat_arrays_def fat_overruns_def overrun_def MAX_CLUSTSIZE_def sample_layout_def sample_fs_def bpc_def)
  ultimately show ?thesis using m'(1) by blast
qed

section \<open>Where the code goes wrong\<close>

text \<open>Looking up the name of the volume finds the volume label as if it were a file, when the label starts with a
  character from \<^verbatim>\<open>@\<close> to \<^verbatim>\<open>_\<close>, as a letter is: the test for a long name looks for any of the four attribute bits, not for all
  of them, so the label passes for a long name, and when no numbered slots follow it is compared like an entry.\<close>

theorem label_taken_for_file:
  assumes "volume_attr e" "e = dent (smem s) ptr" "(of_char (smem s ptr) :: u8) AND LAST_LONG_ENTRY_MASK \<noteq> 0"
    "slot_walk (smem s) (do_fat_read_block L + unat (clust_size (sfs s)) * 512) (slot_seq (smem s) ptr) ptr = None"
  shows "\<exists>s'. root_step g L (get_name e) LS_NO False ptr s = Some (Inr (Inr e, s'))"
proof -
  have "(de_attr e AND ATTR_VFAT) AND ATTR_VOLUME = de_attr e AND ATTR_VOLUME" by (simp add: ATTR_VFAT_def ATTR_VOLUME_def and.assoc)
  then have "is_long_slot e" using assms(1-3) by (auto simp: is_long_slot_def volume_attr_def)
  then show ?thesis
    using assms by (auto simp: root_step_def volume_attr_def long_name_def get_vfatname_def Let_def root_short_def LS_NO_def LS_ROOT_def)
qed

theorem label_taken_for_file_witness:
  "\<exists>s'. root_step sample_globals (sample_layout\<lparr> do_fat_read_block := 0 \<rparr>) ''data'' LS_NO False 0
      \<lparr> sfs = sample_fs, smem = sect sample_vol 7, prevcksum = 0xffff, files = 0, dirs = 0, sout = [] \<rparr> =
    Some (Inr (Inr (dent (sect sample_vol 7) 0), s'))"
proof -
  let ?s = "\<lparr> sfs = sample_fs, smem = sect sample_vol 7, prevcksum = 0xffff, files = 0, dirs = 0, sout = [] \<rparr>"
  let ?L = "sample_layout\<lparr> do_fat_read_block := 0 \<rparr>"
  have a: "volume_attr (dent (sect sample_vol 7) 0)" by (simp add: volume_attr_def ATTR_VOLUME_def sample_dents)
  have b: "(of_char (smem ?s 0) :: u8) AND LAST_LONG_ENTRY_MASK \<noteq> 0" by (simp add: sample_dents LAST_LONG_ENTRY_MASK_def)
  have "do_fat_read_block ?L + unat (clust_size (sfs ?s)) * 512 = 512" by (simp add: sample_fs_def)
  then have c: "slot_walk (smem ?s) (do_fat_read_block ?L + unat (clust_size (sfs ?s)) * 512) (slot_seq (smem ?s) 0) 0 = None"
    using sample_walk by (metis scan.select_convs(2))
  have "\<exists>s'. root_step sample_globals ?L (get_name (dent (sect sample_vol 7) 0)) LS_NO False 0 ?s = Some (Inr (Inr (dent (sect sample_vol 7) 0), s'))"
    by (rule label_taken_for_file [OF a _ b c]) simp
  then show ?thesis unfolding sample_name(2) .
qed

text \<open>C36: Reading the root directory writes past the end of the static buffer: whatever the cluster size, the array has 255
  bytes and a sector has 512, so that the bytes after the array are those of the directory.\<close>

theorem root_read_overruns_buffer:
  assumes "serves g vol nsec" "in_root vol (sfs s) nsec (unat t) fname q r e" "fname \<noteq> []" "r < 7" "isdir \<longrightarrow> is_dir e"
  shows "\<exists>s'. root_loop g L fname LS_NO isdir t s = Some (Inr e, s') \<and>
    (\<forall>i. MAX_CLUSTSIZE \<le> i \<and> i < 512 \<longrightarrow> smem s' (do_fat_read_block L + i) = vol (512 * (unat t + q) + i))"
proof -
  have "0 < clust_size (sfs s)" using assms(2) by (simp add: in_root_def)
  then have N: "512 \<le> bpc (sfs s)" by (simp add: bpc_def word_less_nat_alt)
  obtain s' where s': "root_loop g L fname LS_NO isdir t s = Some (Inr e, s')"
      "agree (sect vol (unat t + q)) (bpc (sfs s)) (32 * r + 32) (do_fat_read_block L) (smem s')"
    using root_loop_ok [OF assms(1,2,3,5), of L] by blast
  have "smem s' (do_fat_read_block L + i) = vol (512 * (unat t + q) + i)" if "MAX_CLUSTSIZE \<le> i" "i < 512" for i
    using agreeD [OF s'(2), of i] that N assms(4) by (simp add: sect_def MAX_CLUSTSIZE_def)
  then show ?thesis using s'(1) by blast
qed

theorem root_read_overruns_buffer_witness:
  "\<exists>s'. root_loop sample_globals sample_layout ''hi.txt'' LS_NO False 7
      \<lparr> sfs = sample_fs, smem = (\<lambda>_. CHR ''?''), prevcksum = 0xffff, files = 0, dirs = 0, sout = [] \<rparr> = Some (Inr sample_entry, s') \<and>
    smem s' (0x3000 + MAX_CLUSTSIZE) = NUL"
proof -
  let ?s = "\<lparr> sfs = sample_fs, smem = (\<lambda>_. CHR ''?''), prevcksum = 0xffff, files = 0, dirs = 0, sout = [] \<rparr>"
  have "in_root sample_vol (sfs ?s) 20 (unat (7 :: u32)) ''hi.txt'' 0 1 sample_entry" using sample_in_root by simp
  from root_read_overruns_buffer [OF sample_serves this, of False sample_layout]
  obtain s' where "root_loop sample_globals sample_layout ''hi.txt'' LS_NO False 7 ?s = Some (Inr sample_entry, s')"
    "\<forall>i. MAX_CLUSTSIZE \<le> i \<and> i < 512 \<longrightarrow> smem s' (do_fat_read_block sample_layout + i) = sample_vol (3584 + i)" by auto
  then show ?thesis by (auto simp: MAX_CLUSTSIZE_def sample_layout_def sample_vol_def dest!: spec [of _ 255])
qed

text \<open>A read error of the memory card is not noticed. The driver reports it by 0 blocks read, and \<^verbatim>\<open>disk_read\<close> hands that on where
  its callers look for a negative number: a file of one cluster at most is reported as read, and the memory is as before.\<close>

theorem read_error_unnoticed:
  assumes "cur_dev g = Some dev" "block_read dev = Some (mmc_read_block (\<lambda>_ _ _. (err, [])) 512)"
    "err \<noteq> SD_OK" "unat (de_size e) \<le> bpc d" "512 dvd unat (de_size e)"
  shows "get_contents g L d e buf 0 m = Some (sint (de_size e), m, [])"
proof -
  have r: "disk_read g s n p m = (0, m)" for s n p m using assms(1-3) by (simp add: disk_read_def mmc_read_block_def)
  have gc: "get_cluster g L d c p sz m = (0, m)" if "512 dvd unat sz" for c p sz
  proof -
    have "sz mod FS_BLOCK_SIZE = 0" using that unat_div_512(2) [of sz] by (simp add: word_unat_eq_iff)
    then show ?thesis using r by (simp add: get_cluster_def Let_def)
  qed
  have "\<not> ucast (clust_size d) * FS_BLOCK_SIZE < de_size e" using assms(4) unat_bpc [of d] by (simp add: word_less_nat_alt)
  then have "find_run g d c (ucast (clust_size d) * FS_BLOCK_SIZE) (de_size e) m = (Enough, c, ucast (clust_size d) * FS_BLOCK_SIZE, d, m)" for c
    by (simp add: find_run.simps)
  then show ?thesis using gc assms(5) by (simp add: get_contents_def contents_loop.simps Let_def)
qed

theorem read_error_unnoticed_witness:
  "get_contents ((card_globals sample_vol 20)\<lparr> cur_dev := Some (mmc_blkdev_0\<lparr> block_read := Some (mmc_read_block (\<lambda>_ _ _. (SD_DATA_TIMEOUT, [])) 512) \<rparr>) \<rparr>)
     sample_layout sample_fs (sample_entry\<lparr> de_size := 512 \<rparr>) 0x20000 0 (\<lambda>_. CHR ''?'') = Some (512, \<lambda>_. CHR ''?'', [])"
  using read_error_unnoticed [of "(card_globals sample_vol 20)\<lparr> cur_dev := Some (mmc_blkdev_0\<lparr> block_read :=
      Some (mmc_read_block (\<lambda>_ _ _. (SD_DATA_TIMEOUT, [])) 512) \<rparr>) \<rparr>" _ SD_DATA_TIMEOUT "sample_entry\<lparr> de_size := 512 \<rparr>" sample_fs]
  by (simp add: bpc_def sample_fs_def)

text \<open>The end of a directory on a FAT12 volume is not recognised: the marks 0xff0 to 0xfff that end a chain there are taken for
  clusters, and the search goes on in them.\<close>

theorem fat12_end_not_recognised:
  assumes "serves g vol nsec" "cached vol (sfs s) (smem s)" "on_volume (sfs s) nsec c" "dir_apart L (sfs s)" "fname \<noteq> []"
    "\<forall>i < bpc (sfs s) div 32. passes (sect vol (csect (sfs s) c)) (bpc (sfs s)) fname (32 * i)"
    "fatsize (sfs s) = 12" "fat_ok (sfs s) nsec (unat c)" "fat_entry vol (fat_base (sfs s)) 12 (unat c) = mark" "0xff0 \<le> mark" "mark \<le> 0xfff"
  shows "\<exists>s'. dentfromdir_loop g L fname 0 c s = dentfromdir_loop g L fname 0 mark s'"
proof -
  obtain s1 where s1: "get_cluster g L (sfs s) c (get_dentfromdir_block L) (ucast (clust_size (sfs s)) * FS_BLOCK_SIZE) (smem s) = (0, smem s1)"
      "s\<lparr> smem := smem s1 \<rparr> = s1" "sfs s1 = sfs s" "at_entry (sect vol (csect (sfs s) c)) (bpc (sfs s)) (get_dentfromdir_block L) s1 0 s1"
      "cached vol (sfs s) (smem s1)"
    using dir_cluster [OF assms(1,3,4,2)] by blast
  obtain s2 x where s2: "entries (dent_step g L c fname 0) (unat (clust_size (sfs s)) * 512 div 32) (get_dentfromdir_block L) s1 = Some (Inl s2)"
      "at_entry (sect vol (csect (sfs s) c)) (bpc (sfs s)) (get_dentfromdir_block L) s1 x s2"
    using dent_block_pass [OF assms(5) refl, where blk = "sect vol (csect (sfs s) c)" and L = L and sa = s1 and g = g and c = c] s1(4) assms(6)
    unfolding s1(3) by auto
  note k = at_entry_kept [OF s2(2) s1(3) assms(4) s1(5)]
  obtain b m where "get_fatent g (sfs s) c (smem s2) = (mark, (sfs s)\<lparr> fatbufnum := b \<rparr>, m)"
    using get_fatent_ok [OF assms(1), of "sfs s" "smem s2" c] k assms(7-9) by auto
  moreover have "\<not> CHECK_CLUST mark 12"
    using assms(10,11) by (auto simp: CHECK_CLUST_def word_le_nat_alt)
  ultimately show ?thesis using s1(1,2) s2(1) k assms(7) by (subst dentfromdir_loop.simps) (auto simp: Let_def)
qed

definition full_vol :: mem where
  "full_vol = (\<lambda>a. if 4096 \<le> a then if a mod 32 = 11 then CHR 0x08 else CHR ''1'' else if a = 515 then CHR 0xFF else if a = 516 then CHR 0x0F else NUL)"

theorem fat12_end_not_recognised_witness:
  "\<exists>s'. dentfromdir_loop (card_globals full_vol 20) sample_layout ''x'' 0 2
      \<lparr> sfs = sample_fs\<lparr> fatsize := 12 \<rparr>, smem = (\<lambda>_. NUL), prevcksum = 0xffff, files = 0, dirs = 0, sout = [] \<rparr> =
    dentfromdir_loop (card_globals full_vol 20) sample_layout ''x'' 0 0xfff s'"
proof -
  let ?d = "sample_fs\<lparr> fatsize := 12 \<rparr>"
  have c: "csect ?d 2 = 8" "bpc ?d = 512" by (simp_all add: csect_def bpc_def sample_fs_def)
  have "passes (sect full_vol 8) 512 ''x'' (32 * i)" for i
    by (simp add: passes_def Let_def volume_attr_def is_long_slot_def dent_def sect_def full_vol_def ATTR_VOLUME_def LAST_LONG_ENTRY_MASK_def)
  then show ?thesis
    using fat12_end_not_recognised [OF card_serves [of 20 full_vol], of "\<lparr> sfs = ?d, smem = (\<lambda>_. NUL), prevcksum = 0xffff, files = 0, dirs = 0, sout = [] \<rparr>"
        2 sample_layout "''x''"] c
    by (simp add: cached_def on_volume_def dir_apart_def apart_def fat_ok_def fat_width_def per_buf_def fat_entry_def fat_base_def load16_def
        sample_fs_def sample_layout_def full_vol_def)
qed

end
