(* ===== verification/Fat_Cmd.thy ===== *)
theory Fat_Cmd
  imports Env Fat_File
begin

text \<open>
  The commands of \<^verbatim>\<open>common/cmd_fat.c\<close>: \<^verbatim>\<open>fatload\<close>, \<^verbatim>\<open>fatls\<close> and \<^verbatim>\<open>fatinfo\<close>, on the memory card of the board.

  The memory that files are loaded to is the one the environment lives in, and the console is that of the environment commands;
  \<open>fc_mmc\<close> is the device of the card's driver. \<open>L\<close> and \<open>fb\<close> are the places of the file system's arrays.
\<close>

section \<open>The code\<close>

record fatcmd =
  fc_env :: env_state
  fc_globals :: fat_globals
  fc_mmc :: block_dev_desc

definition fc_say :: "string \<Rightarrow> fatcmd \<Rightarrow> fatcmd" where "fc_say t s = s\<lparr> fc_env := puts t (fc_env s) \<rparr>"

definition set_mem :: "mem \<Rightarrow> fatcmd \<Rightarrow> fatcmd" where "set_mem m s = s\<lparr> fc_env := (fc_env s)\<lparr> emem := m \<rparr> \<rparr>"

text \<open>The choice of the device and the partition, with which the three commands begin: the failure's result, or the device
  number and the partition.\<close>

definition fat_choose :: "string \<Rightarrow> string list \<Rightarrow> fatcmd \<Rightarrow> (fatcmd \<times> (int \<times> int) option) option" where
  "fat_choose name argv s =
     (let (dv, ep) = simple_strtoul (argv ! 2) 16 in
      case get_dev (fc_mmc s) (argv ! 1) (sint dv) of
        None \<Rightarrow> Some (fc_say (nl @ ''** Invalid boot device **'' @ nl) s, None)
      | Some d \<Rightarrow>
          if ep \<noteq> [] \<and> hd ep \<noteq> CHR '':''
          then Some (fc_say (nl @ ''** Invalid boot device, use '' @ [CHR 0x60] @ ''dev[:part]'' @ [CHR 0x27] @ '' **'' @ nl) s, None)
          else let part = (if ep = [] then 1 else sint (fst (simple_strtoul (tl ep) 16))) in
               do { (r, g, t) \<leftarrow> fat_register_device (fc_globals s) d part;
                    let s1 = fc_say t (s\<lparr> fc_globals := g \<rparr>);
                    Some (if r \<noteq> 0
                          then (fc_say (nl @ ''** Unable to use '' @ argv ! 1 @ '' '' @ dec (sint dv) @ '':'' @ dec part @ '' for '' @ name @ '' **'' @ nl) s1, None)
                          else (s1, Some (sint dv, part))) })"


definition do_fat_ls :: "fat_layout \<Rightarrow> addr \<Rightarrow> string list \<Rightarrow> fatcmd \<Rightarrow> (fatcmd \<times> int) option" where
  "do_fat_ls L fb argv s =
     (if length argv < 3 then Some (fc_say (''usage: fatls <interface> <dev[:part]> [directory]'' @ nl) s, 0)
      else do { (s1, r) \<leftarrow> fat_choose ''fatls'' argv s;
                case r of
                  None \<Rightarrow> Some (s1, 1)
                | Some _ \<Rightarrow>
                    do { (ret, m, t) \<leftarrow> file_fat_ls (fc_globals s1) L fb (if length argv = 4 then argv ! 3 else ''/'') (emem (fc_env s1));
                         let s2 = fc_say t (set_mem m s1);
                         Some (if ret \<noteq> 0 then fc_say (''No Fat FS detected'' @ nl) s2 else s2, ret) } })"

text \<open>The check of \<^verbatim>\<open>fatinfo\<close> lets a call with one argument through, which then parses a null pointer: no result.\<close>

definition do_fat_fsinfo :: "fat_layout \<Rightarrow> string list \<Rightarrow> fatcmd \<Rightarrow> (fatcmd \<times> int) option" where
  "do_fat_fsinfo L argv s =
     (if length argv < 2 then Some (fc_say (''usage: fatinfo <interface> <dev[:part]>'' @ nl) s, 0)
      else if length argv = 2 then None
      else do { (s1, r) \<leftarrow> fat_choose ''fatinfo'' argv s;
                case r of
                  None \<Rightarrow> Some (s1, 1)
                | Some _ \<Rightarrow> let (ret, m, t) = file_fat_detectfs (fc_globals s1) L (emem (fc_env s1)) in Some (fc_say t (set_mem m s1), ret) })"

section \<open>Loading a file\<close>




section \<open>Properties\<close>











end
