(* ===== verification/Kermit.thy ===== *)
theory Kermit
  imports Uboot_Prelude "HOL-Library.Monad_Syntax"
begin

text \<open>
  The Kermit receiver of \<^verbatim>\<open>common/cmd_load.c\<close>, with which \<^verbatim>\<open>loadb\<close> takes a file from the serial line.

  The characters that come in are a list, \<open>k_in\<close>; a read from an empty list waits for ever, and then there is no result. The
  characters sent are collected in \<open>k_out\<close>. The static variables of the file are fields of the record \<open>kermit\<close>.
  \<^verbatim>\<open>os_data_state\<close> is always 0, and the two function pointers are set once, to the functions for binary files. \<open>send_parms\<close> has the
  bytes in front of \<^verbatim>\<open>send_ptr\<close>: when 19 are there, further ones go to the last place of the array, which is not looked at.
\<close>

section \<open>The code\<close>

abbreviation START_CHAR :: char where "START_CHAR \<equiv> CHR 0x01"
abbreviation ETX_CHAR :: char where "ETX_CHAR \<equiv> CHR 0x03"
abbreviation END_CHAR :: char where "END_CHAR \<equiv> CHR 0x0D"
abbreviation K_ESCAPE :: char where "K_ESCAPE \<equiv> CHR 0x23"
abbreviation SEND_TYPE :: char where "SEND_TYPE \<equiv> CHR ''S''"
abbreviation DATA_TYPE :: char where "DATA_TYPE \<equiv> CHR ''D''"
abbreviation ACK_TYPE :: char where "ACK_TYPE \<equiv> CHR ''Y''"
abbreviation NACK_TYPE :: char where "NACK_TYPE \<equiv> CHR ''N''"
abbreviation BREAK_TYPE :: char where "BREAK_TYPE \<equiv> CHR ''B''"

definition SEND_DATA_SIZE :: nat where "SEND_DATA_SIZE = 20"

definition tochar :: "nat \<Rightarrow> char" where "tochar x = char_of (x + 0x20)"
definition untochar :: "char \<Rightarrow> nat" where "untochar c = (of_char c + (256 - 0x20)) mod 256"

record kermit =
  k_in :: "char list"
  k_out :: "char list"
  k_mem :: mem
  his_eol :: char
  his_pad_count :: nat
  his_pad_char :: char
  his_quote :: char
  bin_start_address :: addr
  os_data_addr :: addr
  os_data_addr_saved :: addr
  k_data_escape :: bool
  k_data_escape_saved :: bool
  send_parms :: "char list"
  k_state :: char
  k_state_saved :: char
  k_n :: nat
  last_n :: int

subsection \<open>Packets that are sent\<close>

text \<open>Converts an escaped character.\<close>

definition ktrans :: "char \<Rightarrow> char" where
  "ktrans c =
     (let v = of_char c :: nat
      in if v AND 0x60 = 0x40 then char_of (v - 0x40) else if v AND 0x7f = 0x3f then char_of (v OR 0x40) else c)"

definition fold6 :: "nat \<Rightarrow> nat" where "fold6 t = (t + t div 64 mod 4) mod 64"

definition chk1 :: "char list \<Rightarrow> nat" where
  "chk1 buffer = fold6 (sum_list (map of_char (takeWhile (\<lambda>c. c \<noteq> NUL) buffer)))"

definition send_pad :: "kermit \<Rightarrow> kermit" where
  "send_pad s = s\<lparr> k_out := k_out s @ replicate (his_pad_count s) (his_pad_char s) \<rparr>"

definition s1_sendpacket :: "char list \<Rightarrow> kermit \<Rightarrow> kermit" where
  "s1_sendpacket packet s = (let s1 = send_pad s in s1\<lparr> k_out := k_out s1 @ takeWhile (\<lambda>c. c \<noteq> NUL) packet \<rparr>)"

text \<open>A packet from the length on: the check, the end of line of the other side, and the start in front.\<close>

definition send_framed :: "char list \<Rightarrow> kermit \<Rightarrow> kermit" where
  "send_framed body s = s1_sendpacket (START_CHAR # body @ [tochar (chk1 body), his_eol s]) s"

definition send_ack :: "nat \<Rightarrow> kermit \<Rightarrow> kermit" where
  "send_ack n = send_framed [tochar 3, tochar n, ACK_TYPE]"

definition send_nack :: "nat \<Rightarrow> kermit \<Rightarrow> kermit" where
  "send_nack n = send_framed [tochar 3, tochar n, NACK_TYPE]"

text \<open>What is answered to the parameters of the other side: one field for each of them, and four for the tenth.\<close>

definition my_parms :: "char list" where
  "my_parms = [tochar 94, tochar 1, tochar 0, CHR 0x40, tochar (of_char END_CHAR), CHR ''#'', CHR ''N'', CHR ''1'', CHR ''N'']"

definition handle_send_packet :: "nat \<Rightarrow> kermit \<Rightarrow> kermit" where
  "handle_send_packet n s =
     (let bytes = (if length (send_parms s) = SEND_DATA_SIZE - 1 then SEND_DATA_SIZE - 2 else length (send_parms s)); p = send_parms s;
          s1 = s\<lparr> his_eol := (if bytes \<ge> 5 then char_of (untochar (p ! 4)) else END_CHAR),
                  his_pad_count := (if bytes \<ge> 3 then untochar (p ! 2) else 0),
                  his_pad_char := (if bytes \<ge> 4 then ktrans (p ! 3) else NUL),
                  his_quote := (if bytes \<ge> 6 then p ! 5 else K_ESCAPE) \<rparr>;
          answer = take bytes my_parms @ (if bytes \<ge> 10 then [tochar 2, tochar 0, tochar 94, tochar 94] else [])
      in send_framed ([tochar (length answer + 3), tochar n, ACK_TYPE] @ answer) s1)"

subsection \<open>Data that is received\<close>

definition os_data_char :: "char \<Rightarrow> kermit \<Rightarrow> kermit" where
  "os_data_char c s = s\<lparr> k_mem := (k_mem s)(os_data_addr s := c), os_data_addr := os_data_addr s + 1 \<rparr>"

definition k_data_init :: "kermit \<Rightarrow> kermit" where
  "k_data_init s = s\<lparr> k_data_escape := False, os_data_addr := bin_start_address s \<rparr>"

definition k_data_save :: "kermit \<Rightarrow> kermit" where
  "k_data_save s = s\<lparr> k_data_escape_saved := k_data_escape s, os_data_addr_saved := os_data_addr s \<rparr>"

definition k_data_restore :: "kermit \<Rightarrow> kermit" where
  "k_data_restore s = s\<lparr> k_data_escape := k_data_escape_saved s, os_data_addr := os_data_addr_saved s \<rparr>"

definition k_data_char :: "char \<Rightarrow> kermit \<Rightarrow> kermit" where
  "k_data_char c s =
     (if k_data_escape s then (os_data_char (ktrans c) s)\<lparr> k_data_escape := False \<rparr>
      else if c = his_quote s then s\<lparr> k_data_escape := True \<rparr>
      else os_data_char c s)"

definition restore :: "kermit \<Rightarrow> kermit" where
  "restore s = k_data_restore (s\<lparr> k_state := k_state_saved s \<rparr>)"

subsection \<open>Receiving a packet\<close>

definition k_getc :: "kermit \<Rightarrow> (char \<times> kermit) option" where
  "k_getc s = (case k_in s of [] \<Rightarrow> None | c # cs \<Rightarrow> Some (c, s\<lparr> k_in := cs \<rparr>))"

text \<open>The next character of a packet and the sum with it, unless it is a control character.\<close>

definition with_char :: "nat \<Rightarrow> (char \<Rightarrow> nat \<Rightarrow> kermit \<Rightarrow> (bool \<times> kermit) option) \<Rightarrow> kermit \<Rightarrow> (bool \<times> kermit) option" where
  "with_char sm rest s =
     do { (c, s1) \<leftarrow> k_getc s; if of_char c < (0x20 :: nat) then Some (False, s1) else rest c (sm + of_char c) s1 }"

definition check_seq :: "nat \<Rightarrow> kermit \<Rightarrow> kermit" where
  "check_seq n s =
     (let s1 = s\<lparr> k_n := n \<rparr>
      in if int n = last_n s then restore s1 else k_data_save (s1\<lparr> last_n := int n, k_state_saved := k_state s1 \<rparr>))"

definition take_char :: "char \<Rightarrow> kermit \<Rightarrow> kermit" where
  "take_char c s =
     (if k_state s = DATA_TYPE then k_data_char c s
      else if k_state s = SEND_TYPE
      then if length (send_parms s) < SEND_DATA_SIZE - 1 then s\<lparr> send_parms := send_parms s @ [c] \<rparr> else s
      else s)"

definition packet_end :: "nat \<Rightarrow> kermit \<Rightarrow> (bool \<times> kermit) option" where
  "packet_end sm s =
     with_char sm (\<lambda>c _ s1. if c \<noteq> tochar (fold6 sm) then Some (False, s1)
                             else do { (e, s2) \<leftarrow> k_getc s1; Some (e = END_CHAR, s2) }) s"

primrec data_loop :: "nat \<Rightarrow> nat \<Rightarrow> kermit \<Rightarrow> (bool \<times> kermit) option" where
  "data_loop 0 sm s = packet_end sm s"
| "data_loop (Suc j) sm s = with_char sm (\<lambda>c sum1 s1. data_loop j sum1 (take_char c s1)) s"

definition long_header :: "nat \<Rightarrow> kermit \<Rightarrow> (bool \<times> kermit) option" where
  "long_header sm s =
     with_char sm (\<lambda>hi sum1 s1.
       with_char sum1 (\<lambda>lo sum2 s2.
         with_char sum2 (\<lambda>c sum3 s3.
           if c \<noteq> tochar (fold6 sum2) then Some (False, s3)
           else data_loop (untochar hi * 95 + untochar lo - 1) sum3 s3) s2) s1) s"

text \<open>A packet after its start: whether it is a good one.\<close>

definition k_packet :: "kermit \<Rightarrow> (bool \<times> kermit) option" where
  "k_packet s =
     with_char 0 (\<lambda>len sum1 s1.
       with_char sum1 (\<lambda>seq sum2 s2.
         with_char sum2 (\<lambda>ty sum3 s3.
           (if untochar len = 0 then long_header sum3 else data_loop (untochar len - 3) sum3) (s3\<lparr> k_state := ty \<rparr>))
           (check_seq (untochar seq) s2)) s1) s"

text \<open>Up to the start of a packet, or to a control-C.\<close>

primrec wait_start :: "char list \<Rightarrow> (bool \<times> char list) option" where
  "wait_start [] = None"
| "wait_start (c # cs) = (if c = START_CHAR then Some (True, cs) else if c = ETX_CHAR then Some (False, cs) else wait_start cs)"

lemma wait_start_length: "wait_start cs = Some (b, cs') \<Longrightarrow> length cs' < length cs"
  by (induction cs) (auto split: if_splits)

lemma with_char_length:
  assumes "with_char sm rest s = Some (ok, s')" "\<And>c sm s1. rest c sm s1 = Some (ok, s') \<Longrightarrow> length (k_in s') \<le> length (k_in s1)"
  shows "length (k_in s') < length (k_in s)"
proof (cases "k_in s")
  case (Cons c cs)
  then show ?thesis using assms(1) assms(2) [of c "sm + of_char c" "s\<lparr> k_in := cs \<rparr>"]
    by (auto simp: with_char_def k_getc_def split: if_splits)
qed (use assms(1) in \<open>simp add: with_char_def k_getc_def\<close>)

lemma k_in_keep [simp]:
  "k_in (check_seq n s) = k_in s" "k_in (take_char c s) = k_in s" "k_in (restore s) = k_in s" "k_in (send_framed b s) = k_in s"
  "k_in (handle_send_packet n s) = k_in s" "k_in (send_ack n s) = k_in s" "k_in (send_nack n s) = k_in s"
  by (simp_all add: check_seq_def Let_def restore_def k_data_restore_def k_data_save_def take_char_def k_data_char_def os_data_char_def send_framed_def
    s1_sendpacket_def send_pad_def handle_send_packet_def send_ack_def send_nack_def)

lemma packet_end_length: "packet_end sm s = Some (ok, s') \<Longrightarrow> length (k_in s') < length (k_in s)"
  unfolding packet_end_def by (erule with_char_length) (auto simp: k_getc_def split: if_splits list.splits bind_splits)

lemma data_loop_length: "data_loop n sm s = Some (ok, s') \<Longrightarrow> length (k_in s') < length (k_in s)"
proof (induction n arbitrary: sm s)
  case (Suc n)
  then show ?case by (auto elim!: with_char_length dest!: Suc.IH)
qed (simp add: packet_end_length)

lemma long_header_length: "long_header sm s = Some (ok, s') \<Longrightarrow> length (k_in s') < length (k_in s)"
  unfolding long_header_def
  by (erule with_char_length, rule less_imp_le, erule with_char_length, rule less_imp_le, erule with_char_length)
    (auto split: if_splits dest!: data_loop_length)

lemma k_packet_length:
  assumes "k_packet s = Some (ok, s')"
  shows "length (k_in s') < length (k_in s)"
proof -
  have t: "with_char sm (\<lambda>ty sum3 s3. (if untochar len = 0 then long_header sum3 else data_loop (untochar len - 3) sum3) (s3\<lparr> k_state := ty \<rparr>)) s2 = Some (ok, s')
      \<Longrightarrow> length (k_in s') < length (k_in s2)" for sm len s2
    by (erule with_char_length) (auto split: if_splits dest!: data_loop_length long_header_length)
  show ?thesis
    using assms unfolding k_packet_def
    by (elim with_char_length, intro less_imp_le, elim with_char_length, intro less_imp_le) (drule t, simp)
qed

function k_recv_loop :: "kermit \<Rightarrow> (int \<times> kermit) option" where
  "k_recv_loop s =
     (case wait_start (k_in s) of
        None \<Rightarrow> None
      | Some (False, cs) \<Rightarrow> Some (0, s\<lparr> k_in := cs, send_parms := [] \<rparr>)
      | Some (True, cs) \<Rightarrow>
          (case k_packet (s\<lparr> k_in := cs, send_parms := [] \<rparr>) of
             None \<Rightarrow> None
           | Some (ok, s1) \<Rightarrow>
               if \<not> ok then k_recv_loop (send_nack (k_n s1) (restore s1))
               else if k_state s1 = SEND_TYPE then k_recv_loop (handle_send_packet (k_n s1) s1)
               else let s2 = send_ack (k_n s1) s1
                    in if k_state s1 = BREAK_TYPE then Some (int (os_data_addr s2) - int (bin_start_address s2), s2) else k_recv_loop s2))"
  by pat_completeness auto
termination
  by (relation "measure (\<lambda>s. length (k_in s))") (force dest!: wait_start_length k_packet_length)+

declare k_recv_loop.simps [simp del]

definition k_recv :: "kermit \<Rightarrow> (int \<times> kermit) option" where
  "k_recv s =
     (let s1 = k_data_init (s\<lparr> his_eol := END_CHAR, his_pad_count := 0, his_pad_char := NUL, his_quote := K_ESCAPE, k_state := NUL \<rparr>)
      in k_recv_loop (k_data_save (s1\<lparr> k_state_saved := k_state s1, k_n := 0, last_n := -1 \<rparr>)))"

end
