(* ===== verification/Kermit_Send.thy ===== *)
theory Kermit_Send
  imports Kermit
begin

text \<open>
  What the Kermit receiver makes of a file that is sent: the sender's side of the protocol, with noise on the line, damaged packets
  and packets that are sent again, and the proof that the file arrives.
\<close>

section \<open>The other side\<close>

text \<open>How a file is encoded: control characters and the quote character itself are quoted.\<close>

definition kenc :: "char \<Rightarrow> char \<Rightarrow> char list" where
  "kenc q c =
     (let v = of_char c :: nat
      in if v mod 128 < 32 \<or> v mod 128 = 127 then [q, char_of (v XOR 64)] else if v mod 128 = of_char q then [q, c] else [c])"

definition quote_ok :: "char \<Rightarrow> bool" where
  "quote_ok q \<longleftrightarrow> (let v = of_char q :: nat in 33 \<le> v \<and> v \<le> 62 \<or> 96 \<le> v \<and> v \<le> 126)"

definition quote_of :: "char list \<Rightarrow> char" where
  "quote_of p = (if length p \<ge> 6 then p ! 5 else K_ESCAPE)"

text \<open>What the receiver makes of characters of data, after an escape or not.\<close>

fun kdec :: "char \<Rightarrow> bool \<Rightarrow> char list \<Rightarrow> bool \<times> char list" where
  "kdec q e [] = (e, [])"
| "kdec q e (c # cs) =
     (if e then let (e1, out) = kdec q False cs in (e1, ktrans c # out)
      else if c = q then kdec q True cs
      else let (e1, out) = kdec q False cs in (e1, c # out))"

abbreviation printable :: "char \<Rightarrow> bool" where "printable c \<equiv> \<not> of_char c < (0x20 :: nat)"

definition sumc :: "char list \<Rightarrow> nat" where "sumc cs = sum_list (map of_char cs)"

definition short_head :: "nat \<Rightarrow> char \<Rightarrow> char list \<Rightarrow> char list" where
  "short_head n ty d = [tochar (length d + 3), tochar n, ty]"

definition long_head :: "nat \<Rightarrow> char \<Rightarrow> char list \<Rightarrow> char list" where
  "long_head n ty d = (let h = [tochar 0, tochar n, ty, tochar ((length d + 1) div 95), tochar ((length d + 1) mod 95)] in h @ [tochar (fold6 (sumc h))])"

definition head_ok :: "nat \<Rightarrow> char \<Rightarrow> char list \<Rightarrow> char list \<Rightarrow> bool" where
  "head_ok n ty d h \<longleftrightarrow> n < 64 \<and> printable ty \<and> (\<forall>c \<in> set d. printable c) \<and>
     (h = short_head n ty d \<and> length d \<le> 91 \<or> h = long_head n ty d \<and> length d + 1 < 95 * 95)"

definition check_char :: "char list \<Rightarrow> char" where "check_char cs = tochar (fold6 (sumc cs))"

definition good_packet :: "nat \<Rightarrow> char \<Rightarrow> char list \<Rightarrow> char list \<Rightarrow> bool" where
  "good_packet n ty d p \<longleftrightarrow> (\<exists>h. head_ok n ty d h \<and> p = START_CHAR # h @ d @ [check_char (h @ d), END_CHAR])"

text \<open>A packet that was damaged in its type, its data or its check.\<close>

definition bad_packet :: "nat \<Rightarrow> char list \<Rightarrow> bool" where
  "bad_packet n p \<longleftrightarrow> (\<exists>ty d h c. head_ok n ty d h \<and> printable c \<and> c \<noteq> check_char (h @ d) \<and> p = START_CHAR # h @ d @ [c, END_CHAR])"

definition noise :: "char list \<Rightarrow> bool" where "noise z \<longleftrightarrow> START_CHAR \<notin> set z \<and> ETX_CHAR \<notin> set z"

text \<open>The attempts to send one packet: some may be damaged, or good ones whose answer was lost; the last is good.\<close>

inductive transmitted :: "nat \<Rightarrow> char \<Rightarrow> char list \<Rightarrow> char list \<Rightarrow> bool" where
  transmitted_last: "noise z \<Longrightarrow> good_packet n ty d p \<Longrightarrow> transmitted n ty d (z @ p)"
| transmitted_again: "noise z \<Longrightarrow> good_packet n ty d p \<or> bad_packet n p \<Longrightarrow> transmitted n ty d w \<Longrightarrow> transmitted n ty d (z @ p @ w)"

inductive sends :: "nat \<Rightarrow> (char \<times> char list) list \<Rightarrow> char list \<Rightarrow> bool" where
  sends_Nil: "sends n [] []"
| sends_Cons: "transmitted (n mod 64) ty d w \<Longrightarrow> sends (Suc n) ps ws \<Longrightarrow> sends n ((ty, d) # ps) (w @ ws)"

inductive_cases sends_ConsE: "sends n ((ty, d) # ps) w"

section \<open>Encoding and packets\<close>

definition ktv :: "nat \<Rightarrow> nat" where
  "ktv v = (if v AND 0x60 = 0x40 then v - 0x40 else if v AND 0x7f = 0x3f then v OR 0x40 else v)"

lemma ktrans_eq: "ktrans c = char_of (ktv (of_char c))"
  by (simp add: ktrans_def ktv_def Let_def)

definition ktv_ok :: "nat \<Rightarrow> bool" where
  "ktv_ok v \<longleftrightarrow> (v mod 128 < 32 \<or> v mod 128 = 127 \<longrightarrow> v XOR 64 < 256 \<and> 32 \<le> v XOR 64 \<and> ktv (v XOR 64) = v) \<and>
    (33 \<le> v mod 128 \<and> v mod 128 \<le> 62 \<or> 96 \<le> v mod 128 \<and> v mod 128 \<le> 126 \<longrightarrow> ktv v = v)"

lemma ktv_table: "list_all ktv_ok [0..<256]"
proof -
  have "[0..<256] = 0 # 1 # [2..<256]" by (simp add: upt_conv_Cons numeral_2_eq_2)
  then show ?thesis by (simp add: ktv_ok_def ktv_def upt_rec_numeral)
qed

lemma ktv_control: "v < 256 \<Longrightarrow> v mod 128 < 32 \<or> v mod 128 = 127 \<Longrightarrow> v XOR 64 < 256 \<and> 32 \<le> v XOR 64 \<and> ktv (v XOR 64) = v"
  and ktv_quote: "v < 256 \<Longrightarrow> 33 \<le> v mod 128 \<and> v mod 128 \<le> 62 \<or> 96 \<le> v mod 128 \<and> v mod 128 \<le> 126 \<Longrightarrow> ktv v = v"
  using ktv_table by (auto simp: list_all_iff ktv_ok_def)

lemma of_char_less_nat [simp]: "of_char c < (256 :: nat)"
  by (simp add: nat_of_char_less_256)

lemma kdec_enc:
  assumes "quote_ok q"
  shows "kdec q False (kenc q c @ cs) = (let (e, out) = kdec q False cs in (e, c # out))"
proof -
  let ?v = "of_char c :: nat"
  have v: "?v < 256" by simp
  consider (ctl) "?v mod 128 < 32 \<or> ?v mod 128 = 127" | (quote) "\<not> (?v mod 128 < 32 \<or> ?v mod 128 = 127)" "?v mod 128 = of_char q" | (plain) "kenc q c = [c]" "?v mod 128 \<noteq> of_char q"
    unfolding kenc_def Let_def by metis
  then show ?thesis
  proof cases
    case ctl
    then have "ktrans (char_of (?v XOR 64)) = c" using ktv_control [OF v ctl] by (simp add: ktrans_eq)
    then show ?thesis using ctl by (simp add: kenc_def Let_def)
  next
    case quote
    then have "ktrans c = c" using ktv_quote [OF v] assms by (simp add: ktrans_eq quote_ok_def Let_def)
    then show ?thesis using quote by (simp add: kenc_def Let_def)
  next
    case plain
    have "(of_char q :: nat) < 128" using assms by (auto simp: quote_ok_def Let_def)
    then have "c \<noteq> q" using plain(2) by auto
    then show ?thesis using plain(1) by simp
  qed
qed

lemma kdec_append: "kdec q e (cs @ ds) = (let (e1, o1) = kdec q e cs; (e2, o2) = kdec q e1 ds in (e2, o1 @ o2))"
  by (induction q e cs rule: kdec.induct) (auto split: prod.splits)

lemma kdec_file: "quote_ok q \<Longrightarrow> kdec q False (concat (map (kenc q) cs)) = (False, cs)"
  by (induction cs) (simp_all add: kdec_enc)

subsection \<open>One packet\<close>

lemma of_char_tochar [simp]: "of_char (tochar x) = (x + 32) mod 256"
  by (simp add: tochar_def)

lemma untochar_tochar: "x < 256 \<Longrightarrow> untochar (tochar x) = x"
  by (simp add: untochar_def mod_simps)

lemma printable_tochar: "x < 224 \<Longrightarrow> printable (tochar x)"
  by simp

lemma sumc_simps [simp]: "sumc [] = 0" "sumc (c # cs) = of_char c + sumc cs" "sumc (cs @ ds) = sumc cs + sumc ds"
  by (simp_all add: sumc_def)

lemma fold6_less: "fold6 x < 64"
  by (simp add: fold6_def)

lemma with_char_Cons:
  "k_in s = c # cs \<Longrightarrow> printable c \<Longrightarrow> with_char sm rest s = rest c (sm + of_char c) (s\<lparr> k_in := cs \<rparr>)"
  by (simp add: with_char_def k_getc_def)

lemma k_in_commute [simp]:
  "take_char c (s\<lparr> k_in := x \<rparr>) = (take_char c s)\<lparr> k_in := x \<rparr>" "check_seq n (s\<lparr> k_in := x \<rparr>) = (check_seq n s)\<lparr> k_in := x \<rparr>"
  by (simp_all add: take_char_def k_data_char_def os_data_char_def check_seq_def Let_def restore_def k_data_restore_def k_data_save_def)

lemma fold_take_char_k_in [simp]: "fold take_char d (s\<lparr> k_in := x \<rparr>) = (fold take_char d s)\<lparr> k_in := x \<rparr>"
  by (induction d arbitrary: s) simp_all

lemma data_loop_eq:
  "k_in s = d @ r \<Longrightarrow> \<forall>c \<in> set d. printable c \<Longrightarrow> data_loop (length d) sm s = packet_end (sm + sumc d) ((fold take_char d s)\<lparr> k_in := r \<rparr>)"
proof (induction d arbitrary: s sm)
  case Nil
  then have "s\<lparr> k_in := r \<rparr> = s" by simp
  then show ?case by simp
next
  case (Cons c d)
  then show ?case by (simp add: with_char_Cons Cons.IH add.assoc)
qed

lemma packet_end_eq:
  "k_in s = c # END_CHAR # r \<Longrightarrow> printable c \<Longrightarrow>
    packet_end sm s = Some (c = tochar (fold6 sm), s\<lparr> k_in := (if c = tochar (fold6 sm) then r else END_CHAR # r) \<rparr>)"
  by (auto simp: packet_end_def with_char_Cons k_getc_def)

lemma k_in_state: "s\<lparr> k_in := x, k_state := ty \<rparr> = s\<lparr> k_state := ty, k_in := x \<rparr>"
  by simp

lemma long_header_eq:
  assumes "hi < 95" "lo < 95" "hi * 95 + lo - 1 = length d" "\<forall>c \<in> set d. printable c" "k_in s = tochar hi # tochar lo # c # d @ r"
    "c = tochar (fold6 (sm + (hi + 32) + (lo + 32)))"
  shows "long_header sm s = packet_end (sm + (hi + 32) + (lo + 32) + of_char c + sumc d) ((fold take_char d s)\<lparr> k_in := r \<rparr>)"
proof -
  have "printable c" using assms(6) fold6_less [of "sm + (hi + 32) + (lo + 32)"] by simp
  moreover have "(hi + 32) mod 256 = hi + 32" "(lo + 32) mod 256 = lo + 32" using assms(1,2) by simp_all
  ultimately show ?thesis
    using assms(1,2,5) unfolding long_header_def
    by (simp add: with_char_Cons untochar_tochar assms(3) [simplified] assms(6) [simplified] data_loop_eq [of _ d r] assms(4))
qed

lemma k_packet_eq:
  assumes "head_ok n ty d h" "printable c" "k_in s = h @ d @ c # END_CHAR # r"
  shows "k_packet s = Some (c = check_char (h @ d),
    (fold take_char d ((check_seq n s)\<lparr> k_state := ty \<rparr>))\<lparr> k_in := (if c = check_char (h @ d) then r else END_CHAR # r) \<rparr>)"
proof -
  let ?s = "(check_seq n s)\<lparr> k_state := ty \<rparr>" and ?r = "c # END_CHAR # r"
  have d: "\<forall>c \<in> set d. printable c" "n < 64" "printable ty" using assms(1) by (auto simp: head_ok_def)
  consider (short) "h = short_head n ty d" "length d \<le> 91" | (long) "h = long_head n ty d" "length d + 1 < 95 * 95"
    using assms(1) by (auto simp: head_ok_def)
  then have "k_packet s = packet_end (sumc (h @ d)) ((fold take_char d ?s)\<lparr> k_in := ?r \<rparr>)"
  proof cases
    case short
    then show ?thesis
      using d assms(3) by (simp add: k_packet_def short_head_def with_char_Cons untochar_tochar data_loop_eq add.assoc k_in_state)
  next
    case long
    define hi lo where hl: "hi = (length d + 1) div 95" "lo = (length d + 1) mod 95"
    have l: "hi < 95" "lo < 95" using long(2) by (simp_all add: hl div_less_iff_less_mult del: add_Suc_right)
    have e: "hi * 95 + lo - 1 = length d" by (simp add: hl div_mult_mod_eq)
    let ?m = "32 + (n + 32) + of_char ty"
    have h: "h = [tochar 0, tochar n, ty, tochar hi, tochar lo, tochar (fold6 (?m + (hi + 32) + (lo + 32)))]"
      using d(2) l unfolding long(1) long_head_def hl [symmetric] by (simp add: add.assoc)
    have "k_packet s = long_header ?m (?s\<lparr> k_in := tl (tl (tl h)) @ d @ ?r \<rparr>)"
      using d assms(3) unfolding h by (simp add: k_packet_def with_char_Cons untochar_tochar k_in_state add.assoc)
    also have "\<dots> = packet_end (sumc (h @ d)) ((fold take_char d ?s)\<lparr> k_in := ?r \<rparr>)"
      using long_header_eq [OF l e d(1), of "?s\<lparr> k_in := tl (tl (tl h)) @ d @ ?r \<rparr>" _ ?r ?m] d(2) l unfolding h by (simp add: add.assoc)
    finally show ?thesis .
  qed
  then show ?thesis using packet_end_eq [of "(fold take_char d ?s)\<lparr> k_in := ?r \<rparr>" c r] assms(2) by (simp add: check_char_def)
qed

lemma take_char_cases:
  "k_state s = DATA_TYPE \<Longrightarrow> k_data_escape s \<Longrightarrow>
    take_char c s = s\<lparr> k_mem := (k_mem s)(os_data_addr s := ktrans c), os_data_addr := os_data_addr s + 1, k_data_escape := False \<rparr>"
  "k_state s = DATA_TYPE \<Longrightarrow> \<not> k_data_escape s \<Longrightarrow> c = his_quote s \<Longrightarrow> take_char c s = s\<lparr> k_data_escape := True \<rparr>"
  "k_state s = DATA_TYPE \<Longrightarrow> \<not> k_data_escape s \<Longrightarrow> c \<noteq> his_quote s \<Longrightarrow>
    take_char c s = s\<lparr> k_mem := (k_mem s)(os_data_addr s := c), os_data_addr := os_data_addr s + 1, k_data_escape := False \<rparr>"
  "k_state s = SEND_TYPE \<Longrightarrow> length (send_parms s) \<le> 19 \<Longrightarrow> take_char c s = s\<lparr> send_parms := take 19 (send_parms s @ [c]) \<rparr>"
  "k_state s \<noteq> DATA_TYPE \<Longrightarrow> k_state s \<noteq> SEND_TYPE \<Longrightarrow> take_char c s = s"
  by (auto simp: take_char_def k_data_char_def os_data_char_def SEND_DATA_SIZE_def not_less intro: kermit.equality)

lemma fold_take_data:
  "k_state s = DATA_TYPE \<Longrightarrow> kdec (his_quote s) (k_data_escape s) d = (e, out) \<Longrightarrow>
    fold take_char d s = s\<lparr> k_mem := mem_put (k_mem s) (os_data_addr s) out, os_data_addr := os_data_addr s + length out, k_data_escape := e \<rparr>"
proof (induction d arbitrary: s e out)
  case (Cons c d)
  consider "k_data_escape s" | "\<not> k_data_escape s" "c = his_quote s" | "\<not> k_data_escape s" "c \<noteq> his_quote s" by blast
  then show ?case
    using Cons.prems by cases (auto simp: take_char_cases(1-3) Cons.IH mem_put_Cons fun_upd_def split: prod.splits)
qed simp

lemma fold_take_send:
  "k_state s = SEND_TYPE \<Longrightarrow> length (send_parms s) \<le> 19 \<Longrightarrow> fold take_char d s = s\<lparr> send_parms := take 19 (send_parms s @ d) \<rparr>"
proof (induction d arbitrary: s)
  case (Cons c d)
  let ?p = "take 19 (send_parms s @ [c])"
  have "fold take_char d (s\<lparr> send_parms := ?p \<rparr>) = (s\<lparr> send_parms := ?p \<rparr>)\<lparr> send_parms := take 19 (?p @ d) \<rparr>"
    using Cons.IH [of "s\<lparr> send_parms := ?p \<rparr>"] Cons.prems(1) by simp
  moreover have "take 19 (?p @ d) = take 19 (send_parms s @ c # d)" by (simp add: take_Cons' min_def)
  ultimately show ?case using take_char_cases(4) [OF Cons.prems, of c] by simp
qed simp

lemma fold_take_other: "k_state s \<noteq> DATA_TYPE \<Longrightarrow> k_state s \<noteq> SEND_TYPE \<Longrightarrow> fold take_char d s = s"
  by (induction d) (simp_all add: take_char_cases(5))

lemma take_char_keeps:
  "k_state (take_char c s) = k_state s" "his_quote (take_char c s) = his_quote s" "bin_start_address (take_char c s) = bin_start_address s"
  "os_data_addr_saved (take_char c s) = os_data_addr_saved s" "k_data_escape_saved (take_char c s) = k_data_escape_saved s"
  "last_n (take_char c s) = last_n s" "k_n (take_char c s) = k_n s" "os_data_addr s \<le> os_data_addr (take_char c s)"
  "x < os_data_addr s \<Longrightarrow> k_mem (take_char c s) x = k_mem s x"
  by (auto simp: take_char_def k_data_char_def os_data_char_def)

lemma fold_take_keeps:
  "k_state (fold take_char d s) = k_state s" "his_quote (fold take_char d s) = his_quote s" "bin_start_address (fold take_char d s) = bin_start_address s"
  "os_data_addr_saved (fold take_char d s) = os_data_addr_saved s" "k_data_escape_saved (fold take_char d s) = k_data_escape_saved s"
  "last_n (fold take_char d s) = last_n s" "k_n (fold take_char d s) = k_n s"
  "x < os_data_addr s \<Longrightarrow> k_mem (fold take_char d s) x = k_mem s x"
proof (induction d arbitrary: s)
  case (Cons c d)
  {
    case 8
    then show ?case using Cons.IH(8) [of "take_char c s"] take_char_keeps(8) [of s c] by (simp add: take_char_keeps(9))
  }
qed (simp_all add: take_char_keeps(1-7))

section \<open>The receiver\<close>

lemma wait_start_noise: "noise z \<Longrightarrow> wait_start (z @ cs) = wait_start cs"
  by (induction z) (auto simp: noise_def)

lemma k_recv_loop_noise: "k_in s = z @ cs \<Longrightarrow> noise z \<Longrightarrow> k_recv_loop s = k_recv_loop (s\<lparr> k_in := cs \<rparr>)"
  by (subst (1 2) k_recv_loop.simps) (auto simp: wait_start_noise split: option.split bool.split)

text \<open>Before an attempt to send the packet \<open>n\<close>: the data goes to \<open>a\<close>, after an escape when \<open>e\<close>, and the memory in front is \<open>m\<close>.
  When the last packet had the same number, this is what was saved.\<close>

definition expects :: "nat \<Rightarrow> addr \<Rightarrow> addr \<Rightarrow> bool \<Rightarrow> mem \<Rightarrow> kermit \<Rightarrow> bool" where
  "expects n b a e m s \<longleftrightarrow> bin_start_address s = b \<and> (\<forall>x < a. k_mem s x = m x) \<and>
     (if last_n s = int n then os_data_addr_saved s = a \<and> k_data_escape_saved s = e else os_data_addr s = a \<and> k_data_escape s = e)"

lemma check_seq_expects:
  assumes "expects n b a e m s"
  shows "os_data_addr (check_seq n s) = a" "k_data_escape (check_seq n s) = e" "os_data_addr_saved (check_seq n s) = a"
    "k_data_escape_saved (check_seq n s) = e" "last_n (check_seq n s) = int n" "k_n (check_seq n s) = n" "k_mem (check_seq n s) = k_mem s"
    "his_quote (check_seq n s) = his_quote s" "bin_start_address (check_seq n s) = b" "send_parms (check_seq n s) = send_parms s"
  using assms by (auto simp: check_seq_def expects_def Let_def restore_def k_data_restore_def k_data_save_def)

lemma send_keeps [simp]:
  "his_quote (send_framed p s) = his_quote s" "bin_start_address (send_framed p s) = bin_start_address s" "os_data_addr (send_framed p s) = os_data_addr s"
  "k_data_escape (send_framed p s) = k_data_escape s" "os_data_addr_saved (send_framed p s) = os_data_addr_saved s"
  "k_data_escape_saved (send_framed p s) = k_data_escape_saved s" "last_n (send_framed p s) = last_n s" "k_mem (send_framed p s) = k_mem s"
  by (simp_all add: send_framed_def s1_sendpacket_def send_pad_def Let_def)

lemma bad_attempt:
  assumes "expects n b a e m s" "bad_packet n p" "k_in s = p @ r"
  shows "\<exists>s'. k_recv_loop s = k_recv_loop s' \<and> k_in s' = r \<and> expects n b a e m s' \<and> his_quote s' = his_quote s \<and>
    last_n s' = int n \<and> os_data_addr s' = a \<and> k_data_escape s' = e"
proof -
  obtain ty d h c where p: "head_ok n ty d h" "printable c" "c \<noteq> check_char (h @ d)" "p = START_CHAR # h @ d @ [c, END_CHAR]"
    using assms(2) by (auto simp: bad_packet_def)
  let ?s = "s\<lparr> k_in := h @ d @ c # END_CHAR # r, send_parms := [] \<rparr>"
  let ?t = "(check_seq n ?s)\<lparr> k_state := ty \<rparr>"
  let ?u = "send_nack n (restore ((fold take_char d ?t)\<lparr> k_in := END_CHAR # r \<rparr>))"
  have e: "expects n b a e m ?s" using assms(1) by (simp add: expects_def)
  note c = check_seq_expects [OF e]
  have "k_packet ?s = Some (False, (fold take_char d ?t)\<lparr> k_in := END_CHAR # r \<rparr>)" using k_packet_eq [OF p(1,2), of ?s r] p(3) by simp
  moreover have "wait_start (k_in s) = Some (True, h @ d @ c # END_CHAR # r)" using assms(3) p(4) by simp
  ultimately have "k_recv_loop s = k_recv_loop ?u"
    by (subst k_recv_loop.simps) (simp add: fold_take_keeps c)
  also have "\<dots> = k_recv_loop (?u\<lparr> k_in := r \<rparr>)" by (rule k_recv_loop_noise [of _ "[END_CHAR]"]) (simp_all add: noise_def)
  finally have "k_recv_loop s = k_recv_loop (?u\<lparr> k_in := r \<rparr>)" .
  moreover have "expects n b a e m (?u\<lparr> k_in := r \<rparr>)" "his_quote (?u\<lparr> k_in := r \<rparr>) = his_quote s"
      "last_n (?u\<lparr> k_in := r \<rparr>) = int n" "os_data_addr (?u\<lparr> k_in := r \<rparr>) = a" "k_data_escape (?u\<lparr> k_in := r \<rparr>) = e"
    using e by (simp_all add: expects_def send_nack_def restore_def k_data_restore_def fold_take_keeps c)
  ultimately show ?thesis by (intro exI [of _ "?u\<lparr> k_in := r \<rparr>"]) simp
qed

text \<open>What a good packet changes.\<close>

definition delivered :: "char \<Rightarrow> char list \<Rightarrow> nat \<Rightarrow> addr \<Rightarrow> addr \<Rightarrow> bool \<Rightarrow> char \<Rightarrow> mem \<Rightarrow> kermit \<Rightarrow> bool" where
  "delivered ty d n b a e q m s \<longleftrightarrow>
     (let (e', out) = (if ty = DATA_TYPE then kdec q e d else (e, []))
      in bin_start_address s = b \<and> last_n s = int n \<and> os_data_addr s = a + length out \<and> k_data_escape s = e' \<and>
         his_quote s = (if ty = SEND_TYPE then quote_of d else q) \<and> (\<forall>x < a + length out. k_mem s x = mem_put m a out x) \<and>
         os_data_addr_saved s = a \<and> k_data_escape_saved s = e)"

lemma delivered_expects: "delivered ty d n b a e q m s \<Longrightarrow> expects n b a e m s"
  by (auto simp: delivered_def expects_def mem_put_outside split: prod.splits)

lemma good_attempt:
  assumes "expects n b a e m s" "good_packet n ty d p" "k_in s = p @ r" "q = his_quote s"
  shows "\<exists>s'. (k_recv_loop s = (if ty = BREAK_TYPE then Some (int (os_data_addr s') - int (bin_start_address s'), s') else k_recv_loop s')) \<and>
    k_in s' = r \<and> delivered ty d n b a e q m s'"
proof -
  obtain h where p: "head_ok n ty d h" "p = START_CHAR # h @ d @ [check_char (h @ d), END_CHAR]" using assms(2) by (auto simp: good_packet_def)
  have pr: "printable (check_char (h @ d))" using fold6_less [of "sumc (h @ d)"] by (simp add: check_char_def)
  let ?s = "s\<lparr> k_in := h @ d @ check_char (h @ d) # END_CHAR # r, send_parms := [] \<rparr>"
  let ?t = "(check_seq n ?s)\<lparr> k_state := ty \<rparr>"
  let ?u = "(fold take_char d ?t)\<lparr> k_in := r \<rparr>"
  define s' where "s' = (if ty = SEND_TYPE then handle_send_packet n ?u else send_ack n ?u)"
  have e: "expects n b a e m ?s" using assms(1) by (simp add: expects_def)
  note c = check_seq_expects [OF e]
  have "k_packet ?s = Some (True, ?u)" using k_packet_eq [OF p(1) pr, of ?s r] by simp
  moreover have "wait_start (k_in s) = Some (True, h @ d @ check_char (h @ d) # END_CHAR # r)" using assms(3) p(2) by simp
  ultimately have "k_recv_loop s = (if ty = BREAK_TYPE then Some (int (os_data_addr s') - int (bin_start_address s'), s') else k_recv_loop s')"
    by (subst k_recv_loop.simps) (simp add: fold_take_keeps c s'_def Let_def)
  moreover have "k_in s' = r" by (simp add: s'_def)
  moreover have "delivered ty d n b a e q m s'"
  proof -
    consider (data) "ty = DATA_TYPE" | (send) "ty = SEND_TYPE" | (other) "ty \<noteq> DATA_TYPE" "ty \<noteq> SEND_TYPE" by blast
    then show ?thesis
    proof cases
      case data
      obtain e' out where k: "kdec q e d = (e', out)" by force
      then have "fold take_char d ?t = ?t\<lparr> k_mem := mem_put (k_mem s) a out, os_data_addr := a + length out, k_data_escape := e' \<rparr>"
        using data fold_take_data [of ?t d e' out] assms(4) by (simp add: c)
      moreover have "\<forall>x < a + length out. mem_put (k_mem s) a out x = mem_put m a out x" using e by (auto simp: expects_def mem_put_def)
      ultimately show ?thesis using data k by (simp add: delivered_def s'_def send_ack_def c assms(4))
    next
      case send
      then have f: "fold take_char d ?t = ?t\<lparr> send_parms := take 19 d \<rparr>" using fold_take_send [of ?t d] by (simp add: c)
      show ?thesis
        using send e unfolding s'_def f by (simp add: delivered_def handle_send_packet_def Let_def c SEND_DATA_SIZE_def quote_of_def expects_def)
    next
      case other
      then have f: "fold take_char d ?t = ?t" using fold_take_other [of ?t d] by simp
      show ?thesis using other e unfolding s'_def f by (simp add: delivered_def send_ack_def c expects_def assms(4))
    qed
  qed
  ultimately show ?thesis by blast
qed

lemma expects_k_in [simp]: "expects n b a e m (s\<lparr> k_in := x \<rparr>) = expects n b a e m s"
  by (simp add: expects_def)

lemma attempts_received:
  assumes "transmitted n ty d w" "expects n b a e m s" "k_in s = w @ r" "ty \<noteq> SEND_TYPE \<longrightarrow> his_quote s = q"
  shows "\<exists>s'. if ty = BREAK_TYPE then k_recv_loop s = Some (int a - int b, s') \<and> (\<forall>x < a. k_mem s' x = m x)
    else k_recv_loop s = k_recv_loop s' \<and> k_in s' = r \<and> delivered ty d n b a e q m s'"
  using assms
proof (induction arbitrary: s rule: transmitted.induct)
  case (transmitted_last z n ty d p)
  let ?s = "s\<lparr> k_in := p @ r \<rparr>"
  have l: "k_recv_loop s = k_recv_loop ?s" using transmitted_last by (intro k_recv_loop_noise) simp_all
  obtain s' where s': "k_recv_loop ?s = (if ty = BREAK_TYPE then Some (int (os_data_addr s') - int (bin_start_address s'), s') else k_recv_loop s')"
      "k_in s' = r" "delivered ty d n b a e (his_quote s) m s'"
    using good_attempt [of n b a e m ?s ty d p r "his_quote s"] transmitted_last by auto
  then show ?case using l transmitted_last.prems(3) by (intro exI [of _ s']) (auto simp: delivered_def)
next
  case (transmitted_again z n ty d p w)
  let ?s = "s\<lparr> k_in := p @ w @ r \<rparr>"
  have l: "k_recv_loop s = k_recv_loop ?s" using transmitted_again by (intro k_recv_loop_noise) simp_all
  from transmitted_again(2) show ?case
  proof
    assume "bad_packet n p"
    then obtain s1 where s1: "k_recv_loop ?s = k_recv_loop s1" "k_in s1 = w @ r" "expects n b a e m s1" "his_quote s1 = his_quote s"
      using bad_attempt [of n b a e m ?s p "w @ r"] transmitted_again.prems by auto
    then show ?case using transmitted_again.IH [of s1] transmitted_again.prems(3) l by (auto split: if_splits)
  next
    assume "good_packet n ty d p"
    then obtain s1 where s1: "k_recv_loop ?s = (if ty = BREAK_TYPE then Some (int (os_data_addr s1) - int (bin_start_address s1), s1) else k_recv_loop s1)"
        "k_in s1 = w @ r" "delivered ty d n b a e (his_quote s) m s1"
      using good_attempt [of n b a e m ?s ty d p "w @ r" "his_quote s"] transmitted_again.prems by auto
    show ?case
    proof (cases "ty = BREAK_TYPE")
      case True
      then show ?thesis using l s1 by (auto simp: delivered_def)
    next
      case False
      have "ty \<noteq> SEND_TYPE \<longrightarrow> his_quote s1 = q" using s1(3) transmitted_again.prems(3) by (auto simp: delivered_def split: prod.splits)
      then show ?thesis using transmitted_again.IH [OF delivered_expects [OF s1(3)] s1(2)] l s1(1) False by simp
    qed
  qed
qed

definition awaits :: "nat \<Rightarrow> char \<Rightarrow> addr \<Rightarrow> addr \<Rightarrow> bool \<Rightarrow> mem \<Rightarrow> kermit \<Rightarrow> bool" where
  "awaits n q b a e m s \<longleftrightarrow> expects (n mod 64) b a e m s \<and> his_quote s = q"

lemma delivered_awaits:
  assumes "delivered ty d (n mod 64) b a e q m s" "(e', out) = (if ty = DATA_TYPE then kdec q e d else (e, []))"
  shows "awaits (Suc n) (if ty = SEND_TYPE then quote_of d else q) b (a + length out) e' (mem_put m a out) s"
proof -
  have "Suc n mod 64 \<noteq> n mod 64" by (simp add: mod_Suc)
  then show ?thesis using assms by (auto simp: delivered_def awaits_def expects_def split: if_splits)
qed

lemma sends_step:
  assumes "sends n ((ty, d) # ps) w" "awaits n q b a e m s" "k_in s = w @ r" "ty \<noteq> BREAK_TYPE" "(e', out) = (if ty = DATA_TYPE then kdec q e d else (e, []))"
  shows "\<exists>s' w'. k_recv_loop s = k_recv_loop s' \<and> k_in s' = w' @ r \<and> sends (Suc n) ps w' \<and>
    awaits (Suc n) (if ty = SEND_TYPE then quote_of d else q) b (a + length out) e' (mem_put m a out) s'"
proof -
  obtain u w' where w: "w = u @ w'" "transmitted (n mod 64) ty d u" "sends (Suc n) ps w'" using assms(1) by (auto elim: sends_ConsE)
  have "expects (n mod 64) b a e m s" "ty \<noteq> SEND_TYPE \<longrightarrow> his_quote s = q" using assms(2) by (simp_all add: awaits_def)
  then obtain s' where s': "k_recv_loop s = k_recv_loop s'" "k_in s' = w' @ r" "delivered ty d (n mod 64) b a e q m s'"
    using attempts_received [OF w(2), of b a e m s "w' @ r" q] assms(3,4) w(1) by auto
  then show ?thesis using delivered_awaits [OF s'(3) assms(5)] w(3) by blast
qed

lemma sends_data:
  assumes "sends n (map (Pair DATA_TYPE) ds @ ps) w" "awaits n q b a e m s" "k_in s = w @ r" "kdec q e (concat ds) = (e', out)"
  shows "\<exists>s' w' n'. k_recv_loop s = k_recv_loop s' \<and> k_in s' = w' @ r \<and> sends n' ps w' \<and> awaits n' q b (a + length out) e' (mem_put m a out) s'"
  using assms
proof (induction ds arbitrary: n w s a e m out)
  case Nil
  then show ?case by auto
next
  case (Cons d ds)
  obtain e1 o1 where d: "kdec q e d = (e1, o1)" by force
  obtain o2 where ds: "kdec q e1 (concat ds) = (e', o2)" "out = o1 @ o2" using Cons.prems(4) d by (auto simp: kdec_append split: prod.splits)
  have w: "sends n ((DATA_TYPE, d) # map (Pair DATA_TYPE) ds @ ps) w" using Cons.prems(1) by simp
  obtain s1 w1 where s1: "k_recv_loop s = k_recv_loop s1" "k_in s1 = w1 @ r" "sends (Suc n) (map (Pair DATA_TYPE) ds @ ps) w1"
      "awaits (Suc n) q b (a + length o1) e1 (mem_put m a o1) s1"
    using sends_step [OF w Cons.prems(2,3), of e1 o1] d by auto
  show ?case using Cons.IH [OF s1(3,4,2) ds(1)] s1(1) ds(2) by (simp add: mem_put_append add.assoc)
qed

section \<open>Properties\<close>

text \<open>The packets of a file: parameters, name, data, end of file, end of transmission.\<close>

definition file_packets :: "char list \<Rightarrow> char list \<Rightarrow> char list list \<Rightarrow> (char \<times> char list) list" where
  "file_packets p name ds = (SEND_TYPE, p) # (CHR ''F'', name) # map (Pair DATA_TYPE) ds @ [(CHR ''Z'', []), (BREAK_TYPE, [])]"

lemma k_recv_ok:
  assumes "sends 0 (file_packets p name ds) w" "concat ds = concat (map (kenc (quote_of p)) file)" "quote_ok (quote_of p)" "k_in s = w @ r"
  shows "\<exists>s'. k_recv s = Some (int (length file), s') \<and> mem_get (k_mem s') (bin_start_address s) (length file) = file \<and>
    (\<forall>x < bin_start_address s. k_mem s' x = k_mem s x)"
proof -
  let ?b = "bin_start_address s" and ?q = "quote_of p" and ?m = "mem_put (k_mem s) (bin_start_address s) file"
  let ?D = "map (Pair DATA_TYPE) ds @ [(CHR ''Z'', []), (BREAK_TYPE, [])]"
  obtain s0 where s0: "k_recv s = k_recv_loop s0" "k_in s0 = w @ r" "awaits 0 K_ESCAPE ?b ?b False (k_mem s) s0"
    by (simp add: k_recv_def Let_def k_data_init_def k_data_save_def awaits_def expects_def assms(4))
  obtain s1 w1 where s1: "k_recv_loop s0 = k_recv_loop s1" "k_in s1 = w1 @ r" "sends 1 ((CHR ''F'', name) # ?D) w1" "awaits 1 ?q ?b ?b False (k_mem s) s1"
    using sends_step [OF assms(1) [unfolded file_packets_def] s0(3,2), of False "[]"] by auto
  obtain s2 w2 where s2: "k_recv_loop s1 = k_recv_loop s2" "k_in s2 = w2 @ r" "sends 2 ?D w2" "awaits 2 ?q ?b ?b False (k_mem s) s2"
    using sends_step [OF s1(3,4,2), of False "[]"] by (auto simp: numeral_2_eq_2)
  have "kdec ?q False (concat ds) = (False, file)" using kdec_file [OF assms(3)] assms(2) by simp
  then obtain s3 w3 n where s3: "k_recv_loop s2 = k_recv_loop s3" "k_in s3 = w3 @ r" "sends n [(CHR ''Z'', []), (BREAK_TYPE, [])] w3"
      "awaits n ?q ?b (?b + length file) False ?m s3"
    using sends_data [OF s2(3,4,2)] by blast
  obtain s4 w4 where s4: "k_recv_loop s3 = k_recv_loop s4" "k_in s4 = w4 @ r" "sends (Suc n) [(BREAK_TYPE, [])] w4"
      "awaits (Suc n) ?q ?b (?b + length file) False ?m s4"
    using sends_step [OF s3(3,4,2), of False "[]"] by auto
  obtain u v where u: "w4 = u @ v" "transmitted (Suc n mod 64) BREAK_TYPE [] u" using s4(3) by (auto elim: sends_ConsE)
  obtain s5 where "k_recv_loop s4 = Some (int (length file), s5)" "\<forall>x < ?b + length file. k_mem s5 x = ?m x"
    using attempts_received [OF u(2), of ?b "?b + length file" False ?m s4 "v @ r" ?q] s4(2,4) u(1) by (auto simp: awaits_def)
  moreover have "mem_get (k_mem s5) ?b (length file) = mem_get ?m ?b (length file)" by (rule mem_get_cong) (use calculation(2) in simp)
  ultimately show ?thesis using s0(1) s1(1) s2(1) s3(1) s4(1) by (auto simp: mem_put_outside)
qed

text \<open>C4: A file that is sent with the Kermit protocol arrives. Whatever its bytes, however its encoding is cut into short and long
  packets, with noise between the packets, packets that were damaged in type, data or check, and packets that are sent again because
  an answer was lost, the receiver ends with the size of the file, the file is at the load address, and the memory in front of it is
  as before.\<close>

theorem k_recv_correct:
  assumes "sends 0 (file_packets p name ds) w" "concat ds = concat (map (kenc (quote_of p)) file)" "quote_ok (quote_of p)" "k_in s = w @ r"
  shows "\<exists>s'. k_recv s = Some (int (length file), s') \<and> mem_get (k_mem s') (bin_start_address s) (length file) = file \<and>
    (\<forall>x < bin_start_address s. k_mem s' x = k_mem s x)"
  using assms by (rule k_recv_ok)

text \<open>A packet in the short form, and sessions for the witnesses.\<close>

definition packet :: "nat \<Rightarrow> char \<Rightarrow> char list \<Rightarrow> char list" where
  "packet n ty d = START_CHAR # short_head n ty d @ d @ [check_char (short_head n ty d @ d), END_CHAR]"

lemma good_packetI: "n < 64 \<Longrightarrow> printable ty \<Longrightarrow> \<forall>c \<in> set d. printable c \<Longrightarrow> length d \<le> 91 \<Longrightarrow> good_packet n ty d (packet n ty d)"
  by (auto simp: good_packet_def packet_def head_ok_def)

lemma bad_packetI:
  "n < 64 \<Longrightarrow> printable ty \<Longrightarrow> \<forall>c \<in> set d. printable c \<Longrightarrow> length d \<le> 91 \<Longrightarrow> printable c \<Longrightarrow> c \<noteq> check_char (short_head n ty d @ d) \<Longrightarrow>
    bad_packet n (START_CHAR # short_head n ty d @ d @ [c, END_CHAR])"
  by (auto simp: bad_packet_def head_ok_def)

lemma transmitted_one: "good_packet n ty d p \<Longrightarrow> transmitted n ty d p"
  using transmitted_last [of "[]" n ty d p] by (simp add: noise_def)

text \<open>A sender that sends every packet once.\<close>

primrec wire :: "nat \<Rightarrow> (char \<times> char list) list \<Rightarrow> char list" where
  "wire n [] = []"
| "wire n (p # ps) = packet (n mod 64) (fst p) (snd p) @ wire (Suc n) ps"

lemma sends_wire: "\<forall>(ty, d) \<in> set ps. printable ty \<and> (\<forall>c \<in> set d. printable c) \<and> length d \<le> 91 \<Longrightarrow> sends n ps (wire n ps)"
proof (induction ps arbitrary: n)
  case (Cons p ps)
  then show ?case
    using sends_Cons [OF transmitted_one [OF good_packetI [of "n mod 64" "fst p" "snd p"]], of ps "wire (Suc n) ps"] by (cases p) simp
qed (simp add: sends_Nil)

lemma kenc_printable: "quote_ok q \<Longrightarrow> c \<in> set (kenc q x) \<Longrightarrow> printable c"
proof -
  assume q: "quote_ok q" "c \<in> set (kenc q x)"
  have "\<forall>v \<in> set [0..<256]. (v mod 128 < 32 \<or> v mod 128 = 127 \<longrightarrow> 32 \<le> (v XOR 64) mod (256 :: nat)) \<and> (32 \<le> v mod 128 \<longrightarrow> 32 \<le> v)" by code_simp
  then have "\<forall>v < 256. (v mod 128 < 32 \<or> v mod 128 = 127 \<longrightarrow> 32 \<le> (v XOR 64) mod (256 :: nat)) \<and> (32 \<le> v mod 128 \<longrightarrow> 32 \<le> v)" by simp
  from this [rule_format, of "of_char x"] show ?thesis
    using q by (auto simp: kenc_def quote_ok_def Let_def not_less split: if_splits)
qed

definition sample_kermit :: "char list \<Rightarrow> kermit" where
  "sample_kermit w = \<lparr> k_in = w, k_out = [], k_mem = (\<lambda>_. CHR ''.''), his_eol = NUL, his_pad_count = 0, his_pad_char = NUL, his_quote = NUL,
     bin_start_address = 0x1000, os_data_addr = 0, os_data_addr_saved = 0, k_data_escape = False, k_data_escape_saved = False, send_parms = [],
     k_state = NUL, k_state_saved = NUL, k_n = 0, last_n = -1 \<rparr>"

definition sample_bad :: "char list" where
  "sample_bad = START_CHAR # short_head 2 DATA_TYPE ''ho#J'' @ ''ho#J'' @ [check_char (short_head 2 DATA_TYPE ''hi#J'' @ ''hi#J''), END_CHAR]"

definition sample_wire :: "char list" where
  "sample_wire = packet 0 SEND_TYPE ''~* @-#N1'' @ packet 1 (CHR ''F'') ''F'' @ (sample_bad @ packet 2 DATA_TYPE ''hi#J'') @
     packet 3 (CHR ''Z'') [] @ packet 4 BREAK_TYPE []"

lemma sample_wire_sends: "sends 0 (file_packets ''~* @-#N1'' ''F'' [''hi#J'']) sample_wire"
proof -
  have "bad_packet 2 sample_bad" unfolding sample_bad_def by (rule bad_packetI) (simp_all add: check_char_def short_head_def fold6_def tochar_def)
  moreover have "transmitted 2 DATA_TYPE ''hi#J'' (packet 2 DATA_TYPE ''hi#J'')" by (intro transmitted_one good_packetI) simp_all
  ultimately have "transmitted 2 DATA_TYPE ''hi#J'' (sample_bad @ packet 2 DATA_TYPE ''hi#J'')"
    using transmitted_again [of "[]"] by (simp add: noise_def)
  note data = this
  have one: "transmitted 0 SEND_TYPE ''~* @-#N1'' (packet 0 SEND_TYPE ''~* @-#N1'')" "transmitted 1 (CHR ''F'') ''F'' (packet 1 (CHR ''F'') ''F'')"
    "transmitted 3 (CHR ''Z'') [] (packet 3 (CHR ''Z'') [])" "transmitted 4 BREAK_TYPE [] (packet 4 BREAK_TYPE [])"
    by (intro transmitted_one good_packetI; simp)+
  have "sends 4 [(BREAK_TYPE, [])] (packet 4 BREAK_TYPE [])" using sends_Cons [of 4 BREAK_TYPE "[]" _ "[]" "[]"] one(4) sends_Nil by simp
  then have "sends 3 [(CHR ''Z'', []), (BREAK_TYPE, [])] (packet 3 (CHR ''Z'') [] @ packet 4 BREAK_TYPE [])"
    using sends_Cons [of 3 "CHR ''Z''" "[]"] one(3) by simp
  then have "sends 2 [(DATA_TYPE, ''hi#J''), (CHR ''Z'', []), (BREAK_TYPE, [])]
      ((sample_bad @ packet 2 DATA_TYPE ''hi#J'') @ packet 3 (CHR ''Z'') [] @ packet 4 BREAK_TYPE [])"
    using sends_Cons [of 2 DATA_TYPE "''hi#J''" "sample_bad @ packet 2 DATA_TYPE ''hi#J''"] data by simp
  then have "sends 1 [(CHR ''F'', ''F''), (DATA_TYPE, ''hi#J''), (CHR ''Z'', []), (BREAK_TYPE, [])]
      (packet 1 (CHR ''F'') ''F'' @ (sample_bad @ packet 2 DATA_TYPE ''hi#J'') @ packet 3 (CHR ''Z'') [] @ packet 4 BREAK_TYPE [])"
    using sends_Cons [of 1 "CHR ''F''" "''F''"] one(2) by (simp add: numeral_2_eq_2)
  then show ?thesis using sends_Cons [of 0 SEND_TYPE "''~* @-#N1''"] one(1) by (simp add: file_packets_def sample_wire_def)
qed

lemma sample_kermit_fields: "k_in (sample_kermit w) = w" "bin_start_address (sample_kermit w) = 0x1000" "k_mem (sample_kermit w) = (\<lambda>_. CHR ''.'')"
  by (simp_all add: sample_kermit_def)

lemma sample_wire_quote: "quote_ok (quote_of ''~* @-#N1'')" by (simp add: quote_of_def quote_ok_def)

lemma sample_wire_file: "concat [''hi#J''] = concat (map (kenc (quote_of ''~* @-#N1'')) (''hi'' @ [CHR 0x0A]))"
proof -
  have "of_char (CHR ''J'') = (74 :: nat)" by simp
  then have "char_of (74 :: nat) = CHR ''J''" by (metis char_of_char)
  then show ?thesis by (simp add: kenc_def quote_of_def)
qed

theorem k_recv_correct_witness:
  "\<exists>s'. k_recv (sample_kermit sample_wire) = Some (3, s') \<and> mem_get (k_mem s') 0x1000 3 = ''hi'' @ [CHR 0x0A] \<and>
    (\<forall>x < 0x1000. k_mem s' x = CHR ''.'')"
  using k_recv_correct [OF sample_wire_sends sample_wire_file sample_wire_quote, of "sample_kermit sample_wire" "[]"]
  unfolding sample_kermit_fields by (simp add: numeral_3_eq_3)

text \<open>C33: The receiver trusts the number of a packet before it has checked the packet. When the number of a damaged packet reads as
  that of the packet before, which was received well, the address goes back: the packet before is lost, and the next good packet
  is stored over it although both were acknowledged.\<close>

theorem k_recv_number_damaged:
  assumes "awaits n q b a e m s" "k_in s = p1 @ p2 @ p3 @ r" "good_packet (n mod 64) DATA_TYPE d1 p1" "bad_packet (n mod 64) p2"
    "good_packet (Suc n mod 64) DATA_TYPE d2 p3" "kdec q e d2 = (e2, out2)"
  shows "\<exists>s'. k_recv_loop s = k_recv_loop s' \<and> k_in s' = r \<and> awaits (Suc (Suc n)) q b (a + length out2) e2 (mem_put m a out2) s'"
proof -
  have ex: "expects (n mod 64) b a e m s" "q = his_quote s" using assms(1) by (simp_all add: awaits_def)
  obtain s1 where s1: "k_recv_loop s = k_recv_loop s1" "k_in s1 = p2 @ p3 @ r" "delivered DATA_TYPE d1 (n mod 64) b a e q m s1"
    using good_attempt [OF ex(1) assms(3) _ ex(2)] assms(2) by auto
  have q1: "his_quote s1 = q" using s1(3) by (auto simp: delivered_def split: prod.splits)
  obtain s2 where s2: "k_recv_loop s1 = k_recv_loop s2" "k_in s2 = p3 @ r" "expects (n mod 64) b a e m s2" "his_quote s2 = q"
      "last_n s2 = int (n mod 64)" "os_data_addr s2 = a" "k_data_escape s2 = e"
    using bad_attempt [OF delivered_expects [OF s1(3)] assms(4) s1(2)] q1 by auto
  have "Suc n mod 64 \<noteq> n mod 64" by (simp add: mod_Suc)
  then have "expects (Suc n mod 64) b a e m s2" using s2 by (auto simp: expects_def)
  then obtain s3 where s3: "k_recv_loop s2 = k_recv_loop s3" "k_in s3 = r" "delivered DATA_TYPE d2 (Suc n mod 64) b a e q m s3"
    using good_attempt [OF _ assms(5) s2(2), of b a e m q] s2(4) by auto
  have "awaits (Suc (Suc n)) q b (a + length out2) e2 (mem_put m a out2) s3" using delivered_awaits [OF s3(3)] assms(6) by force
  then show ?thesis using s1(1) s2(1) s3(1,2) by auto
qed

theorem k_recv_number_damaged_witness:
  "let s = (sample_kermit (packet 2 DATA_TYPE ''one'' @
         (START_CHAR # short_head 2 DATA_TYPE ''two'' @ ''two'' @ [check_char (short_head 3 DATA_TYPE ''two'' @ ''two''), END_CHAR]) @
         packet 3 DATA_TYPE ''two'' @ []))\<lparr> his_quote := CHR ''#'', os_data_addr := 0x1000 \<rparr>
   in \<exists>s'. k_recv_loop s = k_recv_loop s' \<and> k_in s' = [] \<and> awaits 4 (CHR ''#'') 0x1000 0x1003 False (mem_put (\<lambda>_. CHR ''.'') 0x1000 ''two'') s'"
proof -
  let ?p2 = "START_CHAR # short_head 2 DATA_TYPE ''two'' @ ''two'' @ [check_char (short_head 3 DATA_TYPE ''two'' @ ''two''), END_CHAR]"
  let ?s = "(sample_kermit (packet 2 DATA_TYPE ''one'' @ ?p2 @ packet 3 DATA_TYPE ''two'' @ []))\<lparr> his_quote := CHR ''#'', os_data_addr := 0x1000 \<rparr>"
  have p: "good_packet (2 mod 64) DATA_TYPE ''one'' (packet 2 DATA_TYPE ''one'')" "good_packet (Suc 2 mod 64) DATA_TYPE ''two'' (packet 3 DATA_TYPE ''two'')"
    "bad_packet (2 mod 64) ?p2"
    using good_packetI [of 2 DATA_TYPE "''one''"] good_packetI [of 3 DATA_TYPE "''two''"]
      bad_packetI [of 2 DATA_TYPE "''two''" "check_char (short_head 3 DATA_TYPE ''two'' @ ''two'')"]
    by (simp_all add: check_char_def short_head_def fold6_def tochar_def)
  have a: "awaits 2 (CHR ''#'') 0x1000 0x1000 False (\<lambda>_. CHR ''.'') ?s" by (simp add: awaits_def expects_def sample_kermit_def)
  show ?thesis
    using k_recv_number_damaged [OF a _ p(1,3,2), of "[]" False "''two''"] by (simp add: sample_kermit_def eval_nat_numeral)
qed

end
