(* ===== verification/Load_Cmd.thy ===== *)
theory Load_Cmd
  imports Env Flash Kermit_Send
begin

text \<open>
  The command \<^verbatim>\<open>loadb\<close> of \<^verbatim>\<open>common/cmd_load.c\<close>, on the memory, the console and the environment of the running system. The serial
  line is the console: what is sent is in \<open>con_in\<close>, the packets of the receiver go to \<open>con_out\<close>.

  \<open>late\<close> is the number of characters that come in while the command waits after a download; it looks for one a hundred times.
  The receiver for the Ymodem protocol is an argument, \<open>ymodem\<close>. Setting up the speed of the serial port has no effect in the model.
\<close>

section \<open>The code\<close>

definition CONFIG_SYS_LOAD_ADDR :: u32 where "CONFIG_SYS_LOAD_ADDR = 0x68000000"

text \<open>The receiver's variables, of which all but the address are set when it starts.\<close>

definition set_kerm_bin_mode :: "u32 \<Rightarrow> env_state \<Rightarrow> kermit" where
  "set_kerm_bin_mode adr s =
     \<lparr> k_in = con_in s, k_out = con_out s, k_mem = emem s, his_eol = NUL, his_pad_count = 0, his_pad_char = NUL, his_quote = NUL,
       bin_start_address = unat adr, os_data_addr = 0, os_data_addr_saved = 0, k_data_escape = False, k_data_escape_saved = False,
       send_parms = [], k_state = NUL, k_state_saved = NUL, k_n = 0, last_n = 0 \<rparr>"

definition load_serial_bin :: "(nat \<Rightarrow> string \<Rightarrow> bool) \<Rightarrow> nat \<Rightarrow> u32 \<Rightarrow> env_state \<Rightarrow> (env_state \<times> u32) option" where
  "load_serial_bin console_assign late offset s =
     do { (r, k) \<leftarrow> k_recv (set_kerm_bin_mode offset s);
          let size = (of_int r :: u32);
          let s1 = s\<lparr> emem := k_mem k, con_in := drop (min 100 late) (k_in k), con_out := k_out k \<rparr>;
          let s2 = puts (''## Total Size      = 0x'' @ hex8 size @ '' = '' @ dec (sint size) @ '' Bytes'' @ nl) s1;
          (s3, _) \<leftarrow> setenv console_assign s2 ''filesize'' (Some (number (ucast size) 16 (-1) (-1) 0));
          Some (s3, offset) }"

text \<open>A change of the speed, after which the user presses a key.\<close>

definition switch_baudrate :: "u32 \<Rightarrow> string \<Rightarrow> char \<Rightarrow> env_state \<Rightarrow> env_state option" where
  "switch_baudrate rate key c s =
     (let s1 = (puts (''## Switch baudrate to '' @ dec (sint rate) @ '' bps and press '' @ key @ '' ...'' @ nl) s)\<lparr> gd_baudrate := rate \<rparr>;
          inp = dropWhile (\<lambda>x. x \<noteq> c) (con_in s1)
      in if inp = [] then None else Some (s1\<lparr> con_in := tl inp \<rparr>))"

text \<open>The address and the speed that a call asks for.\<close>

definition load_offset :: "string list \<Rightarrow> env_state \<Rightarrow> u32 option" where
  "load_offset argv s =
     do { v \<leftarrow> getenv s ''loadaddr'';
          pre \<leftarrow> (case v of None \<Rightarrow> Some CONFIG_SYS_LOAD_ADDR | Some a \<Rightarrow> map_option (\<lambda>t. fst (simple_strtoul t 16)) (str_at (emem s) a));
          Some (if length argv \<ge> 2 then fst (simple_strtoul (argv ! 1) 16) else pre) }"

definition load_baudrate :: "string list \<Rightarrow> env_state \<Rightarrow> u32" where
  "load_baudrate argv s =
     (let rate = fst (simple_strtoul (argv ! 2) 10) in if length argv = 3 \<and> rate \<noteq> 0 then rate else gd_baudrate s)"

definition do_load_serial_bin :: "(nat \<Rightarrow> string \<Rightarrow> bool) \<Rightarrow> (u32 \<Rightarrow> env_state \<Rightarrow> (env_state \<times> u32) option) \<Rightarrow> nat \<Rightarrow> string list \<Rightarrow>
    env_state \<Rightarrow> (env_state \<times> int) option" where
  "do_load_serial_bin console_assign ymodem late argv s =
     do { offset \<leftarrow> load_offset argv s;
          let current = gd_baudrate s;
          let rate = load_baudrate argv s;
          let ready = (\<lambda>kind. puts (''## Ready for binary ('' @ kind @ '') download to 0x'' @ HEX8 offset @ '' at '' @ dec (sint rate) @ '' bps...'' @ nl));
          s1 \<leftarrow> (if rate \<noteq> current then switch_baudrate rate ''ENTER'' CHR 0x0D s else Some s);
          (s2, rcode) \<leftarrow>
            (if argv ! 0 = ''loady'' then map_option (\<lambda>(s2, _). (s2, 0)) (ymodem offset (ready ''ymodem'' s1))
             else do { (s2, adr) \<leftarrow> load_serial_bin console_assign late offset (ready ''kermit'' s1);
                       Some (if adr = -1 then (puts (''## Binary (kermit) download aborted'' @ nl) (s2\<lparr> load_addr := 0 \<rparr>), 1)
                             else ((puts (''## Start Addr      = 0x'' @ HEX8 adr @ nl) s2)\<lparr> load_addr := adr \<rparr>, 0)) });
          s3 \<leftarrow> (if rate \<noteq> current then switch_baudrate current ''ESC'' CHR 0x1B s2 else Some s2);
          Some (s3, rcode) }"

section \<open>The address\<close>

lemma load_offset_ok:
  assumes "env_ok s es"
  shows "load_offset argv s = Some (if length argv \<ge> 2 then fst (simple_strtoul (argv ! 1) 16)
    else case env_lookup ''loadaddr'' es of None \<Rightarrow> CONFIG_SYS_LOAD_ADDR | Some v \<Rightarrow> fst (simple_strtoul v 16))"
  using getenv_ok [OF assms, of "''loadaddr''"] str_at_cstr
  by (auto simp: load_offset_def name_ok_def split: option.splits)

lemma load_baudrate_keeps: "length argv \<le> 2 \<Longrightarrow> load_baudrate argv s = gd_baudrate s"
  by (simp add: load_baudrate_def)

text \<open>What the receiver leaves: a result and memory that is as before in front of the load address.\<close>

lemma load_serial_bin_ok:
  assumes "k_recv (set_kerm_bin_mode offset s) = Some (int n, k)" "n < 2 ^ 31" "\<forall>x < unat offset. k_mem k x = emem s x"
    and "env_ok s es" "env_ptr s + CONFIG_ENV_SIZE \<le> unat offset"
    and "esize (env_remove ''filesize'' es) + length (''filesize='' @ number (of_nat n) 16 (-1) (-1) 0) + 2 \<le> ENV_SIZE"
  shows "\<exists>s'. load_serial_bin ca late offset s = Some (s', offset) \<and> mem_get (emem s') (unat offset) n = mem_get (k_mem k) (unat offset) n \<and>
    env_ok s' (env_remove ''filesize'' es @ [''filesize='' @ number (of_nat n) 16 (-1) (-1) 0]) \<and> crc_ok s' \<and> env_ptr s' = env_ptr s"
proof -
  let ?s1 = "s\<lparr> emem := k_mem k, con_in := drop (min 100 late) (k_in k), con_out := k_out k \<rparr>"
  let ?s2 = "puts (''## Total Size      = 0x'' @ hex8 (of_nat n) @ '' = '' @ dec (sint (of_nat n :: u32)) @ '' Bytes'' @ nl) ?s1"
  have "env_ok (s\<lparr> emem := k_mem k \<rparr>) es" using assms(3,5) by (intro env_ok_cong [OF assms(4)]) auto
  then have ok: "env_ok ?s2 es" by (simp add: env_ok_def env_data_def puts_def)
  have u: "ucast (of_nat n :: u32) = (of_nat n :: 64 word)" using assms(2) by (simp add: unsigned_of_nat take_bit_nat_eq_self)
  obtain e where e: "setenv ca ?s2 ''filesize'' (Some (number (of_nat n) 16 (-1) (-1) 0)) = Some (e, 0)"
      "env_ok e (env_remove ''filesize'' es @ [''filesize='' @ number (of_nat n) 16 (-1) (-1) 0])" "crc_ok e"
      "same_outside (env_ptr s) CONFIG_ENV_SIZE (k_mem k) (emem e)" "env_ptr e = env_ptr s"
    using setenv_filesize [OF ok assms(6), of ca] by auto
  have "mem_get (emem e) (unat offset) n = mem_get (k_mem k) (unat offset) n"
    using e(4) assms(5) by (intro nth_equalityI) (auto simp: same_outside_def)
  then show ?thesis using e assms(1) u by (auto simp: load_serial_bin_def Let_def)
qed

text \<open>The command after a call of the receiver that ends.\<close>

lemma loadb_ok:
  assumes "length argv \<le> 2" "argv ! 0 \<noteq> ''loady''" "load_offset argv s = Some offset" "offset \<noteq> -1"
    and "\<And>out. \<exists>k. k_recv (set_kerm_bin_mode offset (puts out s)) = Some (int (length bytes), k) \<and>
      mem_get (k_mem k) (unat offset) (length bytes) = bytes \<and> (\<forall>x < unat offset. k_mem k x = emem s x)" "length bytes < 2 ^ 31"
    and "env_ok s es" "env_ptr s + CONFIG_ENV_SIZE \<le> unat offset" "hexsize = number (of_nat (length bytes)) 16 (-1) (-1) 0"
      "esize (env_remove ''filesize'' es) + length (''filesize='' @ hexsize) + 2 \<le> ENV_SIZE"
  shows "\<exists>s'. do_load_serial_bin ca ymodem late argv s = Some (s', 0) \<and> mem_get (emem s') (unat offset) (length bytes) = bytes \<and>
    load_addr s' = offset \<and> env_ok s' (env_remove ''filesize'' es @ [''filesize='' @ hexsize]) \<and> crc_ok s' \<and> env_ptr s' = env_ptr s"
proof -
  let ?s = "puts (''## Ready for binary (kermit) download to 0x'' @ HEX8 offset @ '' at '' @ dec (sint (gd_baudrate s)) @ '' bps...'' @ nl) s"
  obtain k where k: "k_recv (set_kerm_bin_mode offset ?s) = Some (int (length bytes), k)" "mem_get (k_mem k) (unat offset) (length bytes) = bytes"
      "\<forall>x < unat offset. k_mem k x = emem ?s x"
    using assms(5) unfolding env_ok_puts(2) by blast
  have "env_ok ?s es" "env_ptr ?s + CONFIG_ENV_SIZE \<le> unat offset" using assms(7,8) by simp_all
  from load_serial_bin_ok [OF k(1) assms(6) k(3) this assms(10) [unfolded assms(9)], of ca late]
  obtain s' where s': "load_serial_bin ca late offset ?s = Some (s', offset)" "mem_get (emem s') (unat offset) (length bytes) = bytes"
      "env_ok s' (env_remove ''filesize'' es @ [''filesize='' @ hexsize])" "crc_ok s'" "env_ptr s' = env_ptr s"
    using k(2) assms(9) by auto
  let ?t = "(puts (''## Start Addr      = 0x'' @ HEX8 offset @ nl) s')\<lparr> load_addr := offset \<rparr>"
  have "do_load_serial_bin ca ymodem late argv s = Some (?t, 0)"
    using s'(1) assms(2-4) load_baudrate_keeps [OF assms(1)] by (simp add: do_load_serial_bin_def Let_def)
  moreover have "emem ?t = emem s'" "env_ok ?t es' = env_ok s' es'" "crc_ok ?t = crc_ok s'" "env_ptr ?t = env_ptr s'" for es'
    by (simp_all add: puts_def env_ok_def env_data_def crc_ok_def)
  ultimately show ?thesis using s' by auto
qed

lemma wait_start_cancelled: "START_CHAR \<notin> set w \<Longrightarrow> ETX_CHAR \<notin> set w \<Longrightarrow> wait_start (w @ ETX_CHAR # r) = Some (False, r)"
  by (induction w) auto

lemma loadb_sent_ok:
  assumes sent: "sends 0 (file_packets p name ds) w" "concat ds = concat (map (kenc (quote_of p)) file)" "quote_ok (quote_of p)"
      "con_in s = w @ r" "length file < 2 ^ 31"
    and argv: "length argv \<le> 2" "argv ! 0 \<noteq> ''loady''"
      "offset = (if length argv = 2 then fst (simple_strtoul (argv ! 1) 16)
         else case env_lookup ''loadaddr'' es of None \<Rightarrow> CONFIG_SYS_LOAD_ADDR | Some v \<Rightarrow> fst (simple_strtoul v 16))" "offset \<noteq> -1"
    and env: "env_ok s es" "env_ptr s + CONFIG_ENV_SIZE \<le> unat offset" "hexsize = number (of_nat (length file)) 16 (-1) (-1) 0"
      "esize (env_remove ''filesize'' es) + length (''filesize='' @ hexsize) + 2 \<le> ENV_SIZE"
  shows "\<exists>s'. do_load_serial_bin ca ymodem late argv s = Some (s', 0) \<and> mem_get (emem s') (unat offset) (length file) = file \<and>
    load_addr s' = offset \<and> env_ok s' (env_remove ''filesize'' es @ [''filesize='' @ hexsize]) \<and> crc_ok s' \<and> env_ptr s' = env_ptr s"
proof (rule loadb_ok [OF argv(1,2) _ argv(4) _ sent(5) env])
  show "load_offset argv s = Some offset" using load_offset_ok [OF env(1), of argv] argv(1,3) by simp
  fix out
  have f: "k_in (set_kerm_bin_mode offset (puts out s)) = w @ r" "bin_start_address (set_kerm_bin_mode offset (puts out s)) = unat offset"
    "k_mem (set_kerm_bin_mode offset (puts out s)) = emem s"
    using sent(4) by (simp_all add: set_kerm_bin_mode_def puts_def)
  show "\<exists>k. k_recv (set_kerm_bin_mode offset (puts out s)) = Some (int (length file), k) \<and>
      mem_get (k_mem k) (unat offset) (length file) = file \<and> (\<forall>x < unat offset. k_mem k x = emem s x)"
    using k_recv_ok [OF sent(1-3) f(1)] unfolding f(2,3) .
qed

section \<open>Properties\<close>

text \<open>C29: \<^verbatim>\<open>loadb\<close> with a file that is sent with the Kermit protocol, despite noise, damaged and repeated packets: it returns 0, the
  file is at the address of the argument, or else of the variable \<^verbatim>\<open>loadaddr\<close>, or else of the configuration, which becomes the
  default address of the commands, and \<^verbatim>\<open>filesize\<close> holds its size in hexadecimal in a well-formed environment with a right
  checksum, when the environment lies in front of the load address.\<close>

theorem loadb_correct:
  assumes sent: "sends 0 (file_packets p name ds) w" "concat ds = concat (map (kenc (quote_of p)) file)" "quote_ok (quote_of p)"
      "con_in s = w @ r" "length file < 2 ^ 31"
    and argv: "length argv \<le> 2" "argv ! 0 \<noteq> ''loady''"
      "offset = (if length argv = 2 then fst (simple_strtoul (argv ! 1) 16)
         else case env_lookup ''loadaddr'' es of None \<Rightarrow> CONFIG_SYS_LOAD_ADDR | Some v \<Rightarrow> fst (simple_strtoul v 16))" "offset \<noteq> -1"
    and env: "env_ok s es" "env_ptr s + CONFIG_ENV_SIZE \<le> unat offset" "hexsize = number (of_nat (length file)) 16 (-1) (-1) 0"
      "esize (env_remove ''filesize'' es) + length (''filesize='' @ hexsize) + 2 \<le> ENV_SIZE"
  shows "\<exists>s'. do_load_serial_bin ca ymodem late argv s = Some (s', 0) \<and> mem_get (emem s') (unat offset) (length file) = file \<and>
    load_addr s' = offset \<and> env_ok s' (env_remove ''filesize'' es @ [''filesize='' @ hexsize]) \<and> crc_ok s'"
  using loadb_sent_ok [OF sent argv env] by blast

definition loadb_state :: "char list \<Rightarrow> env_state" where "loadb_state w = sample_env\<lparr> con_in := w \<rparr>"

lemma loadb_state_ok: "env_ok (loadb_state w) [''bootdelay=3'', ''a=1'']" "con_in (loadb_state w) = w" "env_ptr (loadb_state w) = env_ptr sample_env"
  using sample_env_ok by (simp_all add: loadb_state_def env_ok_def env_data_def)

lemma loadb_address: "simple_strtoul ''20000'' 16 = (0x20000, [])"
  by (simp add: simple_strtoul_def strtou_base_def at_def isxdigit_iff isdigit_iff digit_value_def)

lemma loadb_filesize: "env_remove ''filesize'' [''bootdelay=3'', ''a=1''] = [''bootdelay=3'', ''a=1'']" by code_simp

theorem loadb_correct_witness:
  "\<exists>s'. do_load_serial_bin (\<lambda>_ _. True) (\<lambda>_ _. None) 0 [''loadb'', ''20000''] (loadb_state sample_wire) = Some (s', 0) \<and>
     mem_get (emem s') 0x20000 3 = ''hi'' @ [CHR 0x0A] \<and> load_addr s' = 0x20000 \<and> env_ok s' [''bootdelay=3'', ''a=1'', ''filesize=3'']"
proof -
  have n: "number 3 16 (-1) (-1) 0 = ''3''" by code_simp
  have "\<exists>s'. do_load_serial_bin (\<lambda>_ _. True) (\<lambda>_ _. None) 0 [''loadb'', ''20000''] (loadb_state sample_wire) = Some (s', 0) \<and>
      mem_get (emem s') (unat (0x20000 :: u32)) (length (''hi'' @ [CHR 0x0A])) = ''hi'' @ [CHR 0x0A] \<and> load_addr s' = 0x20000 \<and>
      env_ok s' (env_remove ''filesize'' [''bootdelay=3'', ''a=1''] @ [''filesize='' @ ''3'']) \<and> crc_ok s'"
    by (rule loadb_correct [OF sample_wire_sends sample_wire_file sample_wire_quote _ _ _ _ _ _ loadb_state_ok(1), where r = "[]"])
      (simp_all add: loadb_state_ok loadb_address n sample_env_def ENV_SIZE_def CONFIG_ENV_SIZE_def ENV_HEADER_SIZE_def loadb_filesize)
  then show ?thesis unfolding loadb_filesize by (auto simp: numeral_3_eq_3)
qed

text \<open>C34: A download that the user stops with control-C before it begins is reported as one that went well: \<^verbatim>\<open>loadb\<close> returns 0, takes the
  address over as the default of the commands and sets \<^verbatim>\<open>filesize\<close> to 0. The message that it was aborted, and the result 1, are for
  an address of all ones, which the receiver never makes.\<close>

theorem loadb_cancelled:
  assumes "con_in s = w @ ETX_CHAR # r" "START_CHAR \<notin> set w" "ETX_CHAR \<notin> set w"
    and argv: "length argv = 2" "argv ! 0 \<noteq> ''loady''" "offset = fst (simple_strtoul (argv ! 1) 16)" "offset \<noteq> -1"
    and env: "env_ok s es" "env_ptr s + CONFIG_ENV_SIZE \<le> unat offset" "esize (env_remove ''filesize'' es) + length ''filesize=0'' + 2 \<le> ENV_SIZE"
  shows "\<exists>s'. do_load_serial_bin ca ymodem late argv s = Some (s', 0) \<and> load_addr s' = offset \<and>
    env_ok s' (env_remove ''filesize'' es @ [''filesize=0'']) \<and> crc_ok s'"
proof -
  have n: "number (of_nat (length [])) 16 (-1) (-1) 0 = ''0''" by code_simp
  have o: "load_offset argv s = Some offset" using load_offset_ok [OF env(1), of argv] argv by simp
  have k: "\<exists>k. k_recv (set_kerm_bin_mode offset (puts out s)) = Some (int (length []), k) \<and>
      mem_get (k_mem k) (unat offset) (length []) = [] \<and> (\<forall>x < unat offset. k_mem k x = emem s x)" for out
    using assms(1) wait_start_cancelled [OF assms(2,3), of r]
    by (simp add: k_recv_def Let_def k_data_init_def k_data_save_def set_kerm_bin_mode_def puts_def k_recv_loop.simps)
  show ?thesis using loadb_ok [OF _ argv(2) o argv(4) k _ env(1,2) n [symmetric], of ca ymodem late] argv(1) env(3) by fastforce
qed

theorem loadb_cancelled_witness:
  "\<exists>s'. do_load_serial_bin (\<lambda>_ _. True) (\<lambda>_ _. None) 0 [''loadb'', ''20000''] (loadb_state [CHR ''x'', CHR 0x03]) = Some (s', 0) \<and>
     load_addr s' = 0x20000 \<and> env_ok s' [''bootdelay=3'', ''a=1'', ''filesize=0'']"
proof -
  have "\<exists>s'. do_load_serial_bin (\<lambda>_ _. True) (\<lambda>_ _. None) 0 [''loadb'', ''20000''] (loadb_state [CHR ''x'', CHR 0x03]) = Some (s', 0) \<and>
      load_addr s' = 0x20000 \<and> env_ok s' (env_remove ''filesize'' [''bootdelay=3'', ''a=1''] @ [''filesize=0'']) \<and> crc_ok s'"
    by (rule loadb_cancelled [OF _ _ _ _ _ _ _ loadb_state_ok(1), where w = "''x''" and r = "[]"])
      (simp_all add: loadb_state_ok loadb_address sample_env_def ENV_SIZE_def CONFIG_ENV_SIZE_def ENV_HEADER_SIZE_def loadb_filesize)
  then show ?thesis unfolding loadb_filesize by auto
qed

end
