(* ===== verification/Image.thy ===== *)
theory Image
  imports Flash
begin

text \<open>
  Images of the legacy format (\<^verbatim>\<open>common/image.c\<close>, \<^verbatim>\<open>include/image.h\<close>): a header of 64 bytes in network byte order with a checksum of
  itself and one of the data, which follows. An image of several components starts its data with a table of their sizes.

  The board is built without the newer format and without a device tree, so a header with another magic number is no image. A
  header is given by its address, a \<open>ulong\<close>; its fields are read from memory. Texts that the code prints are returned. The counting
  of components goes on to the first size 0, for ever when there is none: no result then.

  The header is written by the tool \<^verbatim>\<open>mkimage\<close> (\<^verbatim>\<open>tools/default_image.c\<close>), modelled at the end of the code.
\<close>

section \<open>The code\<close>

subsection \<open>Codes\<close>

abbreviation (input) IH_OS_NETBSD :: u8 where "IH_OS_NETBSD \<equiv> 2"
abbreviation (input) IH_OS_LINUX :: u8 where "IH_OS_LINUX \<equiv> 5"
abbreviation (input) IH_OS_RTEMS :: u8 where "IH_OS_RTEMS \<equiv> 18"
abbreviation (input) IH_ARCH_ARM :: u8 where "IH_ARCH_ARM \<equiv> 2"
abbreviation (input) IH_TYPE_STANDALONE :: u8 where "IH_TYPE_STANDALONE \<equiv> 1"
abbreviation (input) IH_TYPE_KERNEL :: u8 where "IH_TYPE_KERNEL \<equiv> 2"
abbreviation (input) IH_TYPE_RAMDISK :: u8 where "IH_TYPE_RAMDISK \<equiv> 3"
abbreviation (input) IH_TYPE_MULTI :: u8 where "IH_TYPE_MULTI \<equiv> 4"
abbreviation (input) IH_TYPE_SCRIPT :: u8 where "IH_TYPE_SCRIPT \<equiv> 6"
abbreviation (input) IH_COMP_NONE :: u8 where "IH_COMP_NONE \<equiv> 0"
abbreviation (input) IH_COMP_GZIP :: u8 where "IH_COMP_GZIP \<equiv> 1"

definition IH_MAGIC :: u32 where "IH_MAGIC = 0x27051956"

type_synonym table_entry = "int \<times> string option \<times> string"

definition uimage_arch :: "table_entry list" where
  "uimage_arch =
     [(0, None, ''Invalid ARCH''), (1, Some ''alpha'', ''Alpha''), (2, Some ''arm'', ''ARM''), (3, Some ''x86'', ''Intel x86''),
      (4, Some ''ia64'', ''IA64''), (12, Some ''m68k'', ''M68K''), (14, Some ''microblaze'', ''MicroBlaze''), (5, Some ''mips'', ''MIPS''),
      (6, Some ''mips64'', ''MIPS 64 Bit''), (13, Some ''nios'', ''NIOS''), (15, Some ''nios2'', ''NIOS II''), (7, Some ''powerpc'', ''PowerPC''),
      (7, Some ''ppc'', ''PowerPC''), (8, Some ''s390'', ''IBM S390''), (9, Some ''sh'', ''SuperH''), (10, Some ''sparc'', ''SPARC''),
      (11, Some ''sparc64'', ''SPARC 64 Bit''), (16, Some ''blackfin'', ''Blackfin''), (17, Some ''avr32'', ''AVR32''), (-1, Some '''', '''')]"

definition uimage_os :: "table_entry list" where
  "uimage_os =
     [(0, None, ''Invalid OS''), (5, Some ''linux'', ''Linux''), (2, Some ''netbsd'', ''NetBSD''), (18, Some ''rtems'', ''RTEMS''),
      (17, Some ''u-boot'', ''U-Boot''), (-1, Some '''', '''')]"

definition uimage_type :: "table_entry list" where
  "uimage_type =
     [(0, None, ''Invalid Image''), (7, Some ''filesystem'', ''Filesystem Image''), (5, Some ''firmware'', ''Firmware''),
      (2, Some ''kernel'', ''Kernel Image''), (4, Some ''multi'', ''Multi-File Image''), (3, Some ''ramdisk'', ''RAMDisk Image''),
      (6, Some ''script'', ''Script''), (1, Some ''standalone'', ''Standalone Program''), (8, Some ''flat_dt'', ''Flat Device Tree''),
      (9, Some ''kwbimage'', ''Kirkwood Boot Image''), (10, Some ''imximage'', ''Freescale i.MX Boot Image''), (-1, Some '''', '''')]"

definition uimage_comp :: "table_entry list" where
  "uimage_comp =
     [(0, Some ''none'', ''uncompressed''), (2, Some ''bzip2'', ''bzip2 compressed''), (1, Some ''gzip'', ''gzip compressed''),
      (3, Some ''lzma'', ''lzma compressed''), (4, Some ''lzo'', ''lzo compressed''), (-1, Some '''', '''')]"

primrec get_table_entry_name :: "table_entry list \<Rightarrow> string \<Rightarrow> int \<Rightarrow> string" where
  "get_table_entry_name [] msg i = msg"
| "get_table_entry_name (e # table) msg i =
     (if fst e < 0 then msg else if fst e = i then snd (snd e) else get_table_entry_name table msg i)"

primrec get_table_entry_id :: "table_entry list \<Rightarrow> string \<Rightarrow> int" where
  "get_table_entry_id [] name = -1"
| "get_table_entry_id (e # table) name =
     (if fst e < 0 then -1 else if fst (snd e) = Some name then fst e else get_table_entry_id table name)"

definition genimg_get_os_name :: "u8 \<Rightarrow> string" where "genimg_get_os_name i = get_table_entry_name uimage_os ''Unknown OS'' (uint i)"
definition genimg_get_arch_name :: "u8 \<Rightarrow> string" where "genimg_get_arch_name i = get_table_entry_name uimage_arch ''Unknown Architecture'' (uint i)"
definition genimg_get_type_name :: "u8 \<Rightarrow> string" where "genimg_get_type_name i = get_table_entry_name uimage_type ''Unknown Image'' (uint i)"
definition genimg_get_comp_name :: "u8 \<Rightarrow> string" where "genimg_get_comp_name i = get_table_entry_name uimage_comp ''Unknown Compression'' (uint i)"

definition genimg_get_os_id :: "string \<Rightarrow> int" where "genimg_get_os_id = get_table_entry_id uimage_os"
definition genimg_get_arch_id :: "string \<Rightarrow> int" where "genimg_get_arch_id = get_table_entry_id uimage_arch"
definition genimg_get_type_id :: "string \<Rightarrow> int" where "genimg_get_type_id = get_table_entry_id uimage_type"
definition genimg_get_comp_id :: "string \<Rightarrow> int" where "genimg_get_comp_id = get_table_entry_id uimage_comp"

subsection \<open>The header\<close>

definition swab32 :: "u32 \<Rightarrow> u32" where
  "swab32 x = push_bit 24 (take_bit 8 x) OR push_bit 16 (take_bit 8 (drop_bit 8 x)) OR push_bit 8 (take_bit 8 (drop_bit 16 x)) OR drop_bit 24 x"

definition uimage_to_cpu :: "u32 \<Rightarrow> u32" where "uimage_to_cpu x = swab32 x"
definition cpu_to_uimage :: "u32 \<Rightarrow> u32" where "cpu_to_uimage x = swab32 x"

definition image_get_header_size :: u32 where "image_get_header_size = 64"

definition image_get_magic :: "mem \<Rightarrow> u32 \<Rightarrow> u32" where "image_get_magic m hdr = uimage_to_cpu (load32 m (unat hdr))"
definition image_get_hcrc :: "mem \<Rightarrow> u32 \<Rightarrow> u32" where "image_get_hcrc m hdr = uimage_to_cpu (load32 m (unat hdr + 4))"
definition image_get_time :: "mem \<Rightarrow> u32 \<Rightarrow> u32" where "image_get_time m hdr = uimage_to_cpu (load32 m (unat hdr + 8))"
definition image_get_size :: "mem \<Rightarrow> u32 \<Rightarrow> u32" where "image_get_size m hdr = uimage_to_cpu (load32 m (unat hdr + 12))"
definition image_get_load :: "mem \<Rightarrow> u32 \<Rightarrow> u32" where "image_get_load m hdr = uimage_to_cpu (load32 m (unat hdr + 16))"
definition image_get_ep :: "mem \<Rightarrow> u32 \<Rightarrow> u32" where "image_get_ep m hdr = uimage_to_cpu (load32 m (unat hdr + 20))"
definition image_get_dcrc :: "mem \<Rightarrow> u32 \<Rightarrow> u32" where "image_get_dcrc m hdr = uimage_to_cpu (load32 m (unat hdr + 24))"
definition image_get_os :: "mem \<Rightarrow> u32 \<Rightarrow> u8" where "image_get_os m hdr = of_char (m (unat hdr + 28))"
definition image_get_arch :: "mem \<Rightarrow> u32 \<Rightarrow> u8" where "image_get_arch m hdr = of_char (m (unat hdr + 29))"
definition image_get_type :: "mem \<Rightarrow> u32 \<Rightarrow> u8" where "image_get_type m hdr = of_char (m (unat hdr + 30))"
definition image_get_comp :: "mem \<Rightarrow> u32 \<Rightarrow> u8" where "image_get_comp m hdr = of_char (m (unat hdr + 31))"
definition image_get_name :: "u32 \<Rightarrow> addr" where "image_get_name hdr = unat hdr + 32"

definition image_get_data_size :: "mem \<Rightarrow> u32 \<Rightarrow> u32" where "image_get_data_size m hdr = image_get_size m hdr"
definition image_get_data :: "u32 \<Rightarrow> u32" where "image_get_data hdr = hdr + image_get_header_size"
definition image_get_image_size :: "mem \<Rightarrow> u32 \<Rightarrow> u32" where "image_get_image_size m hdr = image_get_size m hdr + image_get_header_size"
definition image_get_image_end :: "mem \<Rightarrow> u32 \<Rightarrow> u32" where "image_get_image_end m hdr = hdr + image_get_image_size m hdr"

definition image_set_magic :: "mem \<Rightarrow> u32 \<Rightarrow> u32 \<Rightarrow> mem" where "image_set_magic m hdr v = store32 m (unat hdr) (cpu_to_uimage v)"
definition image_set_hcrc :: "mem \<Rightarrow> u32 \<Rightarrow> u32 \<Rightarrow> mem" where "image_set_hcrc m hdr v = store32 m (unat hdr + 4) (cpu_to_uimage v)"
definition image_set_time :: "mem \<Rightarrow> u32 \<Rightarrow> u32 \<Rightarrow> mem" where "image_set_time m hdr v = store32 m (unat hdr + 8) (cpu_to_uimage v)"
definition image_set_size :: "mem \<Rightarrow> u32 \<Rightarrow> u32 \<Rightarrow> mem" where "image_set_size m hdr v = store32 m (unat hdr + 12) (cpu_to_uimage v)"
definition image_set_load :: "mem \<Rightarrow> u32 \<Rightarrow> u32 \<Rightarrow> mem" where "image_set_load m hdr v = store32 m (unat hdr + 16) (cpu_to_uimage v)"
definition image_set_ep :: "mem \<Rightarrow> u32 \<Rightarrow> u32 \<Rightarrow> mem" where "image_set_ep m hdr v = store32 m (unat hdr + 20) (cpu_to_uimage v)"
definition image_set_dcrc :: "mem \<Rightarrow> u32 \<Rightarrow> u32 \<Rightarrow> mem" where "image_set_dcrc m hdr v = store32 m (unat hdr + 24) (cpu_to_uimage v)"
definition image_set_os :: "mem \<Rightarrow> u32 \<Rightarrow> u8 \<Rightarrow> mem" where "image_set_os m hdr v = m(unat hdr + 28 := char_of (unat v))"
definition image_set_arch :: "mem \<Rightarrow> u32 \<Rightarrow> u8 \<Rightarrow> mem" where "image_set_arch m hdr v = m(unat hdr + 29 := char_of (unat v))"
definition image_set_type :: "mem \<Rightarrow> u32 \<Rightarrow> u8 \<Rightarrow> mem" where "image_set_type m hdr v = m(unat hdr + 30 := char_of (unat v))"
definition image_set_comp :: "mem \<Rightarrow> u32 \<Rightarrow> u8 \<Rightarrow> mem" where "image_set_comp m hdr v = m(unat hdr + 31 := char_of (unat v))"

text \<open>\<^verbatim>\<open>strncpy\<close> of the host, which fills up with zeros.\<close>

definition image_set_name :: "mem \<Rightarrow> u32 \<Rightarrow> string \<Rightarrow> mem" where
  "image_set_name m hdr name = mem_put m (image_get_name hdr) (take 32 (name @ replicate 32 NUL))"

definition image_check_magic :: "mem \<Rightarrow> u32 \<Rightarrow> bool" where "image_check_magic m hdr = (image_get_magic m hdr = IH_MAGIC)"
definition image_check_type :: "mem \<Rightarrow> u32 \<Rightarrow> u8 \<Rightarrow> bool" where "image_check_type m hdr t = (image_get_type m hdr = t)"
definition image_check_arch :: "mem \<Rightarrow> u32 \<Rightarrow> u8 \<Rightarrow> bool" where "image_check_arch m hdr a = (image_get_arch m hdr = a)"
definition image_check_os :: "mem \<Rightarrow> u32 \<Rightarrow> u8 \<Rightarrow> bool" where "image_check_os m hdr v = (image_get_os m hdr = v)"
definition image_check_target_arch :: "mem \<Rightarrow> u32 \<Rightarrow> bool" where "image_check_target_arch m hdr = image_check_arch m hdr IH_ARCH_ARM"

text \<open>A header of its own, at address 0 of an empty memory: the local variable of \<^verbatim>\<open>image_check_hcrc\<close>, and the copy that the boot
  command keeps.\<close>

definition header_copy :: "mem \<Rightarrow> u32 \<Rightarrow> mem" where
  "header_copy m hdr = mem_put (\<lambda>_. NUL) 0 (mem_get m (unat hdr) (unat image_get_header_size))"

definition image_check_hcrc :: "mem \<Rightarrow> u32 \<Rightarrow> bool" where
  "image_check_hcrc m hdr = (crc32 (image_set_hcrc (header_copy m hdr) 0 0) 0 0 (unat image_get_header_size) = image_get_hcrc m hdr)"

definition CHUNKSZ_CRC32 :: nat where "CHUNKSZ_CRC32 = 64 * 1024"

definition image_check_dcrc :: "mem \<Rightarrow> u32 \<Rightarrow> bool option" where
  "image_check_dcrc m hdr =
     map_option (\<lambda>dcrc. dcrc = image_get_dcrc m hdr)
       (crc32_wd False m 0 (unat (image_get_data hdr)) (unat (image_get_data_size m hdr)) CHUNKSZ_CRC32)"

subsection \<open>Several components\<close>

partial_function (option) count_sizes :: "mem \<Rightarrow> addr \<Rightarrow> nat \<Rightarrow> nat option" where
  "count_sizes m tab i = (if load32 m (tab + 4 * i) \<noteq> 0 then count_sizes m tab (Suc i) else Some i)"

definition image_multi_count :: "mem \<Rightarrow> u32 \<Rightarrow> nat option" where
  "image_multi_count m hdr = count_sizes m (unat (image_get_data hdr)) 0"

definition multi_size :: "mem \<Rightarrow> u32 \<Rightarrow> nat \<Rightarrow> u32" where
  "multi_size m hdr i = uimage_to_cpu (load32 m (unat (image_get_data hdr) + 4 * i))"

definition multi_part :: "mem \<Rightarrow> u32 \<Rightarrow> nat \<Rightarrow> nat \<Rightarrow> u32 \<times> u32" where
  "multi_part m hdr count idx =
     (let img_data = image_get_data hdr + of_nat ((count + 1) * 4)
      in if idx < count
         then (img_data + sum_list (map (\<lambda>i. (multi_size m hdr i + 3) AND NOT 3) [0..<idx]), multi_size m hdr idx)
         else (0, 0))"

text \<open>The address and the length of a component.\<close>

definition image_multi_getimg :: "mem \<Rightarrow> u32 \<Rightarrow> nat \<Rightarrow> (u32 \<times> u32) option" where
  "image_multi_getimg m hdr idx = map_option (\<lambda>count. multi_part m hdr count idx) (image_multi_count m hdr)"

subsection \<open>Printing\<close>

definition print_size :: "u32 \<Rightarrow> string \<Rightarrow> string" where
  "print_size sz s =
     (let (c, d) = (if sz < 2 ^ 30 then if sz < 2 ^ 20 then (''k'', 2 ^ 10) else (''M'', 2 ^ 20) else (''G'', 2 ^ 30));
          n0 = sz div d;
          m0 = (if sz mod d \<noteq> 0 then (10 * (sz - n0 * d) + d div 2) div d else 0);
          (m, n) = (if m0 \<ge> 10 then (m0 - 10, n0 + 1) else (m0, n0))
      in number (scast n) 10 2 (-1) SIGN @ (if m \<noteq> 0 then ''.'' @ dec (sint m) else '''') @ '' '' @ c @ ''B'' @ s)"

definition genimg_print_size :: "u32 \<Rightarrow> string" where
  "genimg_print_size sz = dec (sint sz) @ '' Bytes = '' @ print_size sz nl"

definition image_print_type :: "mem \<Rightarrow> u32 \<Rightarrow> string" where
  "image_print_type m hdr =
     genimg_get_arch_name (image_get_arch m hdr) @ '' '' @ genimg_get_os_name (image_get_os m hdr) @ '' '' @
     genimg_get_type_name (image_get_type m hdr) @ '' ('' @ genimg_get_comp_name (image_get_comp m hdr) @ '')'' @ nl"

definition print_components :: "mem \<Rightarrow> u32 \<Rightarrow> nat \<Rightarrow> string" where
  "print_components m hdr count =
     concat (map (\<lambda>i. let (data, len) = multi_part m hdr count i
                      in ''      Image '' @ dec (int i) @ '': '' @ genimg_print_size len @
                         (if image_check_type m hdr IH_TYPE_SCRIPT \<and> i > 0 then ''       Offset = 0x'' @ hex8 data @ nl else '''')) [0..<count])"

definition image_print_contents :: "mem \<Rightarrow> u32 \<Rightarrow> string option" where
  "image_print_contents m hdr =
     (let txt = ''   Image Name:   '' @ takeWhile (\<lambda>c. c \<noteq> NUL) (mem_get m (image_get_name hdr) 32) @ nl @
                ''   Image Type:   '' @ image_print_type m hdr @
                ''   Data Size:    '' @ genimg_print_size (image_get_data_size m hdr) @
                ''   Load Address: '' @ hex8 (image_get_load m hdr) @ nl @
                ''   Entry Point:  '' @ hex8 (image_get_ep m hdr) @ nl
      in if image_check_type m hdr IH_TYPE_MULTI \<or> image_check_type m hdr IH_TYPE_SCRIPT
         then map_option (\<lambda>count. txt @ ''   Contents:'' @ nl @ print_components m hdr count) (image_multi_count m hdr)
         else Some txt)"

subsection \<open>Verifying an image\<close>

definition genimg_get_format :: "mem \<Rightarrow> u32 \<Rightarrow> bool" where "genimg_get_format m hdr = image_check_magic m hdr"

definition getenv_yesno :: "env_state \<Rightarrow> string \<Rightarrow> bool option" where
  "getenv_yesno s var = map_option (\<lambda>v. case v of None \<Rightarrow> True | Some a \<Rightarrow> emem s a \<noteq> CHR ''n'') (getenv s var)"

text \<open>The checks that \<^verbatim>\<open>image_get_kernel\<close> and \<^verbatim>\<open>image_get_ramdisk\<close> share.\<close>

definition image_verify :: "bool \<Rightarrow> u32 \<Rightarrow> env_state \<Rightarrow> (env_state \<times> bool) option" where
  "image_verify verify hdr s =
     (if \<not> image_check_magic (emem s) hdr then Some (puts (''Bad Magic Number'' @ nl) s, False)
      else if \<not> image_check_hcrc (emem s) hdr then Some (puts (''Bad Header Checksum'' @ nl) s, False)
      else do { txt \<leftarrow> image_print_contents (emem s) hdr;
                let s1 = puts txt s;
                if verify
                then do { ok \<leftarrow> image_check_dcrc (emem s) hdr;
                          Some (if ok then (puts (''   Verifying Checksum ... OK'' @ nl) s1, True)
                                else (puts (''   Verifying Checksum ... Bad Data CRC'' @ nl) s1, False)) }
                else Some (s1, True) })"

definition image_get_ramdisk :: "u32 \<Rightarrow> u8 \<Rightarrow> bool \<Rightarrow> env_state \<Rightarrow> (env_state \<times> bool) option" where
  "image_get_ramdisk rd_hdr arch verify s =
     do { (s1, ok) \<leftarrow> image_verify verify rd_hdr s;
          Some (if \<not> ok then (s1, False)
                else if \<not> image_check_os (emem s1) rd_hdr IH_OS_LINUX \<or> \<not> image_check_arch (emem s1) rd_hdr arch \<or>
                        \<not> image_check_type (emem s1) rd_hdr IH_TYPE_RAMDISK
                then (puts (''No Linux '' @ genimg_get_arch_name arch @ '' Ramdisk Image'' @ nl) s1, False)
                else (s1, True)) }"

subsection \<open>The tool that makes images\<close>

record mkimage_params =
  par_time :: u32
  par_addr :: u32
  par_ep :: u32
  par_os :: u8
  par_arch :: u8
  par_type :: u8
  par_comp :: u8
  par_name :: string

text \<open>\<open>st_size\<close> is the size of the file, header included.\<close>

definition image_set_header :: "mem \<Rightarrow> u32 \<Rightarrow> nat \<Rightarrow> mkimage_params \<Rightarrow> mem" where
  "image_set_header m hdr st_size par =
     (let checksum = crc32 m 0 (unat hdr + 64) (st_size - 64);
          m1 = image_set_magic m hdr IH_MAGIC;
          m2 = image_set_time m1 hdr (par_time par);
          m3 = image_set_size m2 hdr (of_nat (st_size - 64));
          m4 = image_set_load m3 hdr (par_addr par);
          m5 = image_set_ep m4 hdr (par_ep par);
          m6 = image_set_dcrc m5 hdr checksum;
          m7 = image_set_os m6 hdr (par_os par);
          m8 = image_set_arch m7 hdr (par_arch par);
          m9 = image_set_type m8 hdr (par_type par);
          m10 = image_set_comp m9 hdr (par_comp par);
          m11 = image_set_name m10 hdr (par_name par)
      in image_set_hcrc m11 hdr (crc32 m11 0 (unat hdr) 64))"

section \<open>Words in memory\<close>

lemma bit_swab32:
  "bit (swab32 x) n \<longleftrightarrow> (if n < 8 then bit x (n + 24) else if n < 16 then bit x (n + 8) else if n < 24 then bit x (n - 8) else n < 32 \<and> bit x (n - 24))"
proof -
  consider "n < 8" | "8 \<le> n" "n < 16" | "16 \<le> n" "n < 24" | "24 \<le> n" "n < 32" | "32 \<le> n" by linarith
  then show ?thesis by cases (auto simp: swab32_def bit_simps le_diff_conv2 add.commute dest: bit_imp_le_length)
qed

lemma swab32_swab32 [simp]: "swab32 (swab32 x) = x"
proof (rule bit_eqI)
  fix n :: nat
  consider "n < 8" | "8 \<le> n" "n < 16" | "16 \<le> n" "n < 24" | "24 \<le> n" "n < 32" | "32 \<le> n" by linarith
  then show "bit (swab32 (swab32 x)) n = bit x n" by cases (auto simp: bit_swab32 dest: bit_imp_le_length)
qed

lemma swab32_0 [simp]: "swab32 0 = 0" by (simp add: swab32_def)

lemma swab32_inject [simp]: "swab32 x = swab32 y \<longleftrightarrow> x = y" by (metis swab32_swab32)

lemma load32_differs:
  assumes "m' (p + i) \<noteq> m (p + i)" "i < 4"
  shows "load32 m' p \<noteq> load32 m p"
proof
  assume e: "load32 m' p = load32 m p"
  have "i = 0 \<or> i = 1 \<or> i = 2 \<or> i = 3" using assms(2) by linarith
  then show False using char_of_load32 [of m' p] char_of_load32 [of m p] assms(1) unfolding e by auto
qed

lemma store32_outside: "a < p \<or> p + 4 \<le> a \<Longrightarrow> store32 m p w a = m a"
  by (auto simp: store32_def)

lemma load32_store32_apart: "q + 4 \<le> p \<or> p + 4 \<le> q \<Longrightarrow> load32 (store32 m p w) q = load32 m q"
  by (rule load32_cong) (auto simp: store32_outside)

lemma load32_upd_apart: "a < q \<or> q + 4 \<le> a \<Longrightarrow> load32 (m(a := c)) q = load32 m q"
  by (rule load32_cong) auto

lemma load32_put_apart: "q + 4 \<le> p \<or> p + length xs \<le> q \<Longrightarrow> load32 (mem_put m p xs) q = load32 m q"
  by (rule load32_cong) (auto simp: mem_put_outside)

lemma align4:
  fixes w :: u32
  assumes "unat w + 3 < 2 ^ 32"
  shows "unat ((w + 3) AND NOT 3) = 4 * ((unat w + 3) div 4)"
proof -
  have m: "(3 :: u32) = mask 2" by (simp add: mask_eq_exp_minus_1)
  have "bit ((w + mask 2) AND NOT (mask 2)) n = bit (push_bit 2 (drop_bit 2 (w + mask 2))) n" for n
    by (cases "2 \<le> n") (auto simp: bit_simps dest: le_Suc_ex)
  then have "(w + 3) AND NOT 3 = push_bit 2 (drop_bit 2 (w + 3))" unfolding m by (rule bit_eqI)
  moreover have "unat (w + 3) = unat w + 3" using assms by (simp add: unat_add_lem [THEN iffD1])
  moreover have "unat (push_bit 2 (drop_bit 2 v)) = 4 * (unat v div 4)" for v :: u32
    using unat_less_u32 [of v] by (simp add: push_bit_eq_mult drop_bit_eq_div unat_word_ariths unat_div)
  ultimately show ?thesis by simp
qed

section \<open>Images from the tool are accepted\<close>

lemmas image_get_defs = image_get_magic_def image_get_hcrc_def image_get_time_def image_get_size_def image_get_load_def image_get_ep_def
  image_get_dcrc_def image_get_os_def image_get_arch_def image_get_type_def image_get_comp_def image_get_name_def
lemmas image_set_defs = image_set_magic_def image_set_hcrc_def image_set_time_def image_set_size_def image_set_load_def image_set_ep_def
  image_set_dcrc_def image_set_os_def image_set_arch_def image_set_type_def image_set_comp_def image_set_name_def
lemmas load32_through = load32_store32 load32_store32_apart load32_upd_apart load32_put_apart store32_outside mem_put_outside

lemma of_char_char_of_u8 [simp]: "of_char (char_of (unat v)) = v" for v :: u8
proof -
  have "unat (of_char (char_of (unat v)) :: u8) = unat v" using unat_less_u8 [of v] by simp
  then show ?thesis by (simp only: word_unat_eq_iff)
qed

lemma header_fields:
  fixes m hdr st_size par
  defines "m' \<equiv> image_set_header m hdr st_size par"
  shows "image_get_magic m' hdr = IH_MAGIC" "image_get_size m' hdr = of_nat (st_size - 64)" "image_get_load m' hdr = par_addr par"
    "image_get_ep m' hdr = par_ep par" "image_get_dcrc m' hdr = crc32 m 0 (unat hdr + 64) (st_size - 64)" "image_get_os m' hdr = par_os par"
    "image_get_arch m' hdr = par_arch par" "image_get_type m' hdr = par_type par" "image_get_comp m' hdr = par_comp par"
  unfolding m'_def image_set_header_def Let_def image_get_defs image_set_defs uimage_to_cpu_def cpu_to_uimage_def
  by (simp_all add: load32_through)

lemma header_only: "a < unat hdr \<or> unat hdr + 64 \<le> a \<Longrightarrow> image_set_header m hdr st_size par a = m a"
  unfolding image_set_header_def Let_def image_set_defs image_get_name_def by (auto simp: store32_outside mem_put_outside)

lemma nth_header_copy: "i < 64 \<Longrightarrow> header_copy m hdr i = m (unat hdr + i)"
  by (simp add: header_copy_def image_get_header_size_def mem_put_def)

text \<open>The bytes over which the checksum of a header goes: its own field counts as 0.\<close>

definition blanked :: "mem \<Rightarrow> u32 \<Rightarrow> char list" where
  "blanked m hdr = map (\<lambda>i. if 4 \<le> i \<and> i < 8 then NUL else m (unat hdr + i)) [0..<64]"

lemma image_check_hcrc_eq: "image_check_hcrc m hdr \<longleftrightarrow> foldl crc_ref 0xffffffff (blanked m hdr) XOR 0xffffffff = image_get_hcrc m hdr"
proof -
  have "store32 (header_copy m hdr) 4 0 i = (if 4 \<le> i \<and> i < 8 then NUL else m (unat hdr + i))" if "i < 64" for i
    using that by (auto simp: nth_header_copy store32_def char_of_def)
  then have "mem_get (image_set_hcrc (header_copy m hdr) 0 0) 0 64 = blanked m hdr"
    by (intro nth_equalityI) (simp_all add: blanked_def image_set_hcrc_def cpu_to_uimage_def)
  then show ?thesis by (simp add: image_check_hcrc_def crc32_eq image_get_header_size_def)
qed

lemma header_hcrc:
  assumes "\<forall>i < 4. m (unat hdr + 4 + i) = NUL"
  shows "image_check_hcrc (image_set_header m hdr st_size par) hdr"
proof -
  let ?m' = "image_set_header m hdr st_size par"
  have "\<exists>m11. ?m' = image_set_hcrc m11 hdr (crc32 m11 0 (unat hdr) 64) \<and> (\<forall>i < 4. m11 (unat hdr + 4 + i) = NUL)"
    unfolding image_set_header_def Let_def
    by (rule exI, rule conjI, rule refl) (use assms in \<open>simp add: image_set_defs image_get_name_def store32_outside mem_put_outside\<close>)
  then obtain m11 where m11: "?m' = image_set_hcrc m11 hdr (crc32 m11 0 (unat hdr) 64)" "\<forall>i < 4. m11 (unat hdr + 4 + i) = NUL" by blast
  have "blanked ?m' hdr = mem_get m11 (unat hdr) 64"
  proof (rule nth_equalityI)
    fix i assume "i < length (blanked ?m' hdr)"
    then have i: "i < 64" by (simp add: blanked_def)
    have "m11 (unat hdr + i) = NUL" if "4 \<le> i" "i < 8" using m11(2) [rule_format, of "i - 4"] that by simp
    then show "blanked ?m' hdr ! i = mem_get m11 (unat hdr) 64 ! i" using i by (auto simp: blanked_def m11(1) image_set_hcrc_def store32_outside)
  qed (simp add: blanked_def)
  then show ?thesis
    by (simp add: image_check_hcrc_eq crc32_eq) (simp add: m11(1) image_set_hcrc_def image_get_hcrc_def load32_store32 cpu_to_uimage_def uimage_to_cpu_def crc32_eq)
qed

lemma unat_image_data: "unat hdr + 64 < 2 ^ 32 \<Longrightarrow> unat (image_get_data hdr) = unat hdr + 64"
  unfolding image_get_data_def image_get_header_size_def by (simp add: unat_add_lem [THEN iffD1])

lemma image_check_dcrc_eq:
  "image_check_dcrc m hdr = Some (crc32 m 0 (unat (image_get_data hdr)) (unat (image_get_size m hdr)) = image_get_dcrc m hdr)"
  by (simp add: image_check_dcrc_def crc32_wd_def image_get_data_size_def)

lemma header_dcrc:
  assumes "unat hdr + st_size < 2 ^ 32" "64 < st_size"
  shows "image_check_dcrc (image_set_header m hdr st_size par) hdr = Some True"
proof -
  have "unat (of_nat (st_size - 64) :: u32) = st_size - 64" using assms by (intro unat_of_nat_u32) simp
  moreover have "mem_get (image_set_header m hdr st_size par) (unat hdr + 64) n = mem_get m (unat hdr + 64) n" for n
    by (rule mem_get_cong) (simp add: header_only)
  ultimately show ?thesis using assms by (simp add: image_check_dcrc_eq header_fields unat_image_data crc32_eq)
qed

section \<open>Damaged images\<close>

lemma magic_damaged:
  assumes "image_check_magic m hdr" "i < 4" "c \<noteq> m (unat hdr + i)"
  shows "\<not> image_check_magic (m(unat hdr + i := c)) hdr"
  using load32_differs [of "m(unat hdr + i := c)" "unat hdr" i m] assms
  by (auto simp: image_check_magic_def image_get_magic_def uimage_to_cpu_def) (metis swab32_inject)

lemma hcrc_damaged:
  assumes "image_check_hcrc m hdr" "4 \<le> i" "i < 64" "c \<noteq> m (unat hdr + i)"
  shows "\<not> image_check_hcrc (m(unat hdr + i := c)) hdr"
proof (cases "i < 8")
  case True
  then have "blanked (m(unat hdr + i := c)) hdr = blanked m hdr" using assms(2) by (auto simp: blanked_def)
  moreover have "load32 (m(unat hdr + i := c)) (unat hdr + 4) \<noteq> load32 m (unat hdr + 4)"
    using load32_differs [of "m(unat hdr + i := c)" "unat hdr + 4" "i - 4" m] assms True by simp
  ultimately show ?thesis using assms(1) by (simp add: image_check_hcrc_eq image_get_hcrc_def uimage_to_cpu_def)
next
  case False
  have "blanked (m(unat hdr + i := c)) hdr = (blanked m hdr)[i := c]"
    using assms False by (intro nth_equalityI) (auto simp: blanked_def nth_list_update)
  moreover have "foldl crc_ref 0xffffffff ((blanked m hdr)[i := c]) \<noteq> foldl crc_ref 0xffffffff (blanked m hdr)"
    using crc32s.detects_change [of i "blanked m hdr" c] assms False by (simp add: blanked_def)
  moreover have "image_get_hcrc (m(unat hdr + i := c)) hdr = image_get_hcrc m hdr"
    using False by (simp add: image_get_hcrc_def load32_upd_apart)
  ultimately show ?thesis using assms(1) by (auto simp: image_check_hcrc_eq xor_right_cancel dest: sym)
qed

lemma dcrc_damaged:
  assumes "image_check_dcrc m hdr = Some True" "64 \<le> i" "i < 64 + unat (image_get_size m hdr)" "c \<noteq> m (unat hdr + i)" "unat hdr + 64 < 2 ^ 32"
  shows "image_check_dcrc (m(unat hdr + i := c)) hdr = Some False"
proof -
  have "image_get_size (m(unat hdr + i := c)) hdr = image_get_size m hdr" "image_get_dcrc (m(unat hdr + i := c)) hdr = image_get_dcrc m hdr"
    using assms(2) by (simp_all add: image_get_defs load32_upd_apart)
  then show ?thesis
    using crc32_byte_change [of "unat hdr + 64" "unat hdr + i" "unat (image_get_size m hdr)" c m 0] assms
    by (simp add: image_check_dcrc_eq unat_image_data)
qed

section \<open>Components\<close>

text \<open>A list of components as the format lays them out: the table of sizes, closed by 0, and the components at multiples of 4.\<close>

definition part_at :: "nat \<Rightarrow> char list list \<Rightarrow> nat \<Rightarrow> nat" where
  "part_at p parts i = p + 4 * (length parts + 1) + sum_list (map (\<lambda>x. 4 * ((length x + 3) div 4)) (take i parts))"

definition multi_at :: "mem \<Rightarrow> nat \<Rightarrow> char list list \<Rightarrow> bool" where
  "multi_at m p parts \<longleftrightarrow> [] \<notin> set parts \<and> part_at p parts (length parts) < 2 ^ 32 \<and>
     (\<forall>i < length parts. load32 m (p + 4 * i) = cpu_to_uimage (of_nat (length (parts ! i))) \<and>
        mem_get m (part_at p parts i) (length (parts ! i)) = parts ! i) \<and>
     load32 m (p + 4 * length parts) = 0"

lemma count_sizes_eq:
  assumes "\<forall>j < n. load32 m (p + 4 * j) \<noteq> 0" "load32 m (p + 4 * n) = 0" "i \<le> n"
  shows "count_sizes m p i = Some n"
  using assms(3)
proof (induction "n - i" arbitrary: i)
  case 0
  then show ?case using assms(2) by (subst count_sizes.simps) simp
next
  case (Suc k)
  then show ?case using assms(1) by (subst count_sizes.simps) simp
qed

lemma part_length: "i < length parts \<Longrightarrow> length (parts ! i) + 3 \<le> sum_list (map (\<lambda>x. 4 * ((length x + 3) div 4)) parts) + 3"
proof -
  assume "i < length parts"
  then have "4 * ((length (parts ! i) + 3) div 4) \<le> sum_list (map (\<lambda>x. 4 * ((length x + 3) div 4)) parts)"
    by (intro member_le_sum_list) (auto simp: image_iff intro!: bexI [of _ "parts ! i"])
  then show ?thesis by linarith
qed

lemma part_at_mono: "part_at p parts i \<le> part_at p parts (length parts)"
proof -
  have "sum_list (map f (take i xs)) \<le> sum_list (map f xs)" for f :: "char list \<Rightarrow> nat" and xs
    by (subst (2) append_take_drop_id [of i xs, symmetric]) (simp del: append_take_drop_id)
  then show ?thesis by (simp add: part_at_def)
qed

lemma unat_multi_size:
  assumes "multi_at m (unat (image_get_data hdr)) parts" "i < length parts"
  shows "unat (multi_size m hdr i) = length (parts ! i)" "multi_size m hdr i \<noteq> 0" "unat ((multi_size m hdr i + 3) AND NOT 3) = 4 * ((length (parts ! i) + 3) div 4)"
proof -
  have l: "length (parts ! i) + 3 < 2 ^ 32" using part_length [OF assms(2)] assms(1) by (simp add: multi_at_def part_at_def)
  have "multi_size m hdr i = of_nat (length (parts ! i))"
    using assms by (simp add: multi_size_def multi_at_def uimage_to_cpu_def cpu_to_uimage_def)
  then show u: "unat (multi_size m hdr i) = length (parts ! i)" using l by (simp add: unat_of_nat_u32)
  moreover have "parts ! i \<noteq> []" using assms nth_mem [OF assms(2)] by (metis multi_at_def)
  ultimately show "multi_size m hdr i \<noteq> 0" by (metis length_0_conv unat_0)
  show "unat ((multi_size m hdr i + 3) AND NOT 3) = 4 * ((length (parts ! i) + 3) div 4)" using align4 [of "multi_size m hdr i"] u l by simp
qed

lemma multi_count:
  assumes "multi_at m (unat (image_get_data hdr)) parts"
  shows "image_multi_count m hdr = Some (length parts)"
proof -
  have "load32 m (unat (image_get_data hdr) + 4 * j) \<noteq> 0" if "j < length parts" for j
    using unat_multi_size(2) [OF assms that] by (auto simp: multi_size_def uimage_to_cpu_def)
  then show ?thesis using count_sizes_eq [of "length parts"] assms by (simp add: image_multi_count_def multi_at_def)
qed

lemma unat_add_eq: "unat a + n < 2 ^ 32 \<Longrightarrow> unat b = n \<Longrightarrow> unat (a + b) = unat a + n" for a b :: u32
  by (simp add: unat_add_lem [THEN iffD1])

lemma multi_offset:
  assumes "multi_at m (unat (image_get_data hdr)) parts" "i \<le> length parts"
  shows "unat (image_get_data hdr + of_nat ((length parts + 1) * 4) + sum_list (map (\<lambda>i. (multi_size m hdr i + 3) AND NOT 3) [0..<i])) =
    part_at (unat (image_get_data hdr)) parts i"
  using assms(2)
proof (induction i)
  case 0
  have "unat (image_get_data hdr) + (length parts + 1) * 4 < 2 ^ 32" using assms(1) part_at_mono [of _ parts 0] by (simp add: multi_at_def part_at_def)
  moreover from this have "unat (of_nat ((length parts + 1) * 4) :: u32) = (length parts + 1) * 4" by (intro unat_of_nat_u32) simp
  ultimately show ?case using unat_add_eq by (simp add: part_at_def)
next
  case (Suc i)
  have s: "part_at p parts (Suc i) = part_at p parts i + 4 * ((length (parts ! i) + 3) div 4)" for p
    using Suc.prems by (simp add: part_at_def take_Suc_conv_app_nth)
  then have "part_at (unat (image_get_data hdr)) parts i + 4 * ((length (parts ! i) + 3) div 4) < 2 ^ 32"
    using assms(1) part_at_mono [of "unat (image_get_data hdr)" parts "Suc i"] by (simp add: multi_at_def)
  then show ?case
    using Suc unat_multi_size(3) [OF assms(1), of i] s unat_add_eq [of "image_get_data hdr + of_nat ((length parts + 1) * 4) +
      sum_list (map (\<lambda>i. (multi_size m hdr i + 3) AND NOT 3) [0..<i])" _ "(multi_size m hdr i + 3) AND NOT 3"]
    by (simp add: add.assoc)
qed

lemma image_multi_getimg_ok:
  assumes "multi_at m (unat (image_get_data hdr)) parts"
  shows "if idx < length parts
    then \<exists>data len. image_multi_getimg m hdr idx = Some (data, len) \<and> unat data = part_at (unat (image_get_data hdr)) parts idx \<and>
      unat len = length (parts ! idx) \<and> mem_get m (unat data) (unat len) = parts ! idx
    else image_multi_getimg m hdr idx = Some (0, 0)"
  using multi_offset [OF assms, of idx] unat_multi_size(1) [OF assms, of idx] assms
  by (auto simp: image_multi_getimg_def multi_count [OF assms] multi_part_def multi_at_def)

section \<open>Properties\<close>

text \<open>C30: An image whose header \<^verbatim>\<open>mkimage\<close> has written passes the checks of the boot loader, with any parameters and any data: the magic
  number and both checksums are right, the fields read back as what was set, and the data is untouched. The field of the header's
  own checksum has to be 0 when the tool begins, since it is not cleared.\<close>

theorem mkimage_accepted:
  assumes "64 < st_size" "unat hdr + st_size < 2 ^ 32" "\<forall>i < 4. m (unat hdr + 4 + i) = NUL" "m' = image_set_header m hdr st_size par"
  shows "image_check_magic m' hdr \<and> image_check_hcrc m' hdr \<and> image_check_dcrc m' hdr = Some True \<and>
    image_get_size m' hdr = of_nat (st_size - 64) \<and> image_get_load m' hdr = par_addr par \<and> image_get_ep m' hdr = par_ep par \<and>
    image_get_os m' hdr = par_os par \<and> image_get_arch m' hdr = par_arch par \<and> image_get_type m' hdr = par_type par \<and>
    image_get_comp m' hdr = par_comp par \<and> (\<forall>a. a < unat hdr \<or> unat hdr + 64 \<le> a \<longrightarrow> m' a = m a)"
  unfolding assms(4) using header_hcrc [OF assms(3)] header_dcrc [OF assms(2,1)] header_only by (simp add: image_check_magic_def header_fields)

definition sample_params :: mkimage_params where
  "sample_params = \<lparr> par_time = 0, par_addr = 0x30000, par_ep = 0x30040, par_os = IH_OS_LINUX, par_arch = IH_ARCH_ARM, par_type = IH_TYPE_KERNEL,
     par_comp = IH_COMP_NONE, par_name = ''test'' \<rparr>"

theorem mkimage_accepted_witness:
  "image_check_hcrc (image_set_header (\<lambda>_. NUL) 0x1000 80 sample_params) 0x1000 \<and>
   image_check_dcrc (image_set_header (\<lambda>_. NUL) 0x1000 80 sample_params) 0x1000 = Some True \<and>
   image_get_load (image_set_header (\<lambda>_. NUL) 0x1000 80 sample_params) 0x1000 = 0x30000"
  using mkimage_accepted [of 80 "0x1000" "\<lambda>_. NUL" "image_set_header (\<lambda>_. NUL) 0x1000 80 sample_params" sample_params] by (simp add: sample_params_def)

text \<open>C31: The components of an image are found: for data laid out as the format says, with a table of the sizes in network order, closed
  by 0, and every component at a multiple of 4 behind it, the address and the length of each are returned, and zeros behind the last.\<close>

theorem image_multi_getimg_correct:
  assumes "multi_at m (unat (image_get_data hdr)) parts"
  shows "if idx < length parts
    then \<exists>data len. image_multi_getimg m hdr idx = Some (data, len) \<and> unat data = part_at (unat (image_get_data hdr)) parts idx \<and>
      unat len = length (parts ! idx) \<and> mem_get m (unat data) (unat len) = parts ! idx
    else image_multi_getimg m hdr idx = Some (0, 0)"
  using assms by (rule image_multi_getimg_ok)

definition sample_multi :: mem where
  "sample_multi = mem_put (\<lambda>_. NUL) 0x1040 ([NUL, NUL, NUL, CHR 0x05, NUL, NUL, NUL, CHR 0x02, NUL, NUL, NUL, NUL] @ ''abcde'' @ [NUL, NUL, NUL] @ ''xy'')"

lemma sample_multi_at: "multi_at sample_multi (unat (image_get_data 0x1000)) [''abcde'', ''xy'']"
proof -
  have d: "unat (image_get_data 0x1000) = 0x1040" by (simp add: image_get_data_def image_get_header_size_def)
  have b: "load32 sample_multi 0x1040 = 0x5000000" "load32 sample_multi 0x1044 = 0x2000000" "load32 sample_multi 0x1048 = 0"
    by (simp_all add: load32_def sample_multi_def mem_put_def)
  have "swab32 5 = 0x5000000" "swab32 2 = 0x2000000" by code_simp+
  moreover have "mem_get sample_multi 0x104C (Suc (Suc (Suc (Suc (Suc 0))))) = ''abcde''" "mem_get sample_multi 0x1054 (Suc (Suc 0)) = ''xy''"
    by (simp_all add: mem_get_def upt_rec sample_multi_def mem_put_def)
  ultimately show ?thesis
    using b unfolding d by (simp add: multi_at_def part_at_def cpu_to_uimage_def less_Suc_eq all_conj_distrib)
qed

theorem image_multi_getimg_correct_witness: "\<exists>data. image_multi_getimg sample_multi 0x1000 1 = Some (data, 2) \<and> mem_get sample_multi (unat data) 2 = ''xy''"
proof -
  obtain data len where d: "image_multi_getimg sample_multi 0x1000 1 = Some (data, len)" "unat len = length ''xy''" "mem_get sample_multi (unat data) (unat len) = ''xy''"
    using image_multi_getimg_correct [OF sample_multi_at, of 1] by (simp del: One_nat_def) (metis (no_types, lifting))
  have "len = 2" using d(2) by (simp add: word_unat_eq_iff)
  then show ?thesis using d by simp
qed

end
