(* ===== verification/Bootm.thy ===== *)
theory Bootm
  imports Command Image "HOL-Library.Sublist"
begin

text \<open>
  The boot command (\<^verbatim>\<open>common/cmd_bootm.c\<close>) and the start of Linux on ARM (\<^verbatim>\<open>lib_arm/bootm.c\<close>): an image in memory is verified, its
  contents are moved to the load address, the list of tags for the kernel is written, and control goes to the entry point.

  \<open>outcome\<close> says how a call ends: with a result, with a jump into the image (\<open>entry\<close> has the address and the arguments; what the
  started program does is not part of the model), or with a reset of the board. A call through a null pointer, or through what
  lies behind the table of operating systems, has no result. The board is built with the boot functions for Linux, NetBSD and
  RTEMS and with gzip; \<open>gunzip\<close>, the decompressor, is an argument: it gets the destination, its size, the source, its length and
  memory, and returns an error code, the length and memory. There is no allocator of memory regions (\<^verbatim>\<open>CONFIG_LMB\<close>), no tag for a
  ramdisk, and the progress codes and the switch of interrupts have no effect.
\<close>

section \<open>The code\<close>

record image_info =
  os_start :: u32
  os_end :: u32
  image_start :: u32
  image_len :: u32
  os_load :: u32
  os_comp :: u8
  os_type :: u8
  os_os :: u8

record bootm_headers =
  legacy_hdr_os :: u32
  legacy_hdr_os_copy :: mem
  legacy_hdr_valid :: bool
  images_os :: image_info
  images_ep :: u32
  rd_start :: u32
  rd_end :: u32
  images_verify :: bool
  images_state :: u32

record bd_info =
  bi_arch_number :: u32
  bi_boot_params :: u32
  bi_dram :: "(u32 \<times> u32) list"

datatype entry = Linux u32 u32 u32 | Netbsd u32 u32 string string | Rtems u32 | Standalone u32 "string list"

datatype outcome = Returned int | Jump entry | Reset

record bootm =
  b_env :: env_state
  b_images :: bootm_headers

abbreviation (input) BOOTM_STATE_START :: u32 where "BOOTM_STATE_START \<equiv> 0x00000001"
abbreviation (input) BOOTM_STATE_LOADOS :: u32 where "BOOTM_STATE_LOADOS \<equiv> 0x00000002"
abbreviation (input) BOOTM_STATE_OS_CMDLINE :: u32 where "BOOTM_STATE_OS_CMDLINE \<equiv> 0x00000010"
abbreviation (input) BOOTM_STATE_OS_BD_T :: u32 where "BOOTM_STATE_OS_BD_T \<equiv> 0x00000020"
abbreviation (input) BOOTM_STATE_OS_PREP :: u32 where "BOOTM_STATE_OS_PREP \<equiv> 0x00000040"
abbreviation (input) BOOTM_STATE_OS_GO :: u32 where "BOOTM_STATE_OS_GO \<equiv> 0x00000080"

definition CONFIG_SYS_BOOTM_LEN :: u32 where "CONFIG_SYS_BOOTM_LEN = 0x800000"

definition no_images :: bootm_headers where
  "no_images =
     \<lparr> legacy_hdr_os = 0, legacy_hdr_os_copy = (\<lambda>_. NUL), legacy_hdr_valid = False,
       images_os = \<lparr> os_start = 0, os_end = 0, image_start = 0, image_len = 0, os_load = 0, os_comp = 0, os_type = 0, os_os = 0 \<rparr>,
       images_ep = 0, rd_start = 0, rd_end = 0, images_verify = False, images_state = 0 \<rparr>"

subsection \<open>Finding the images\<close>

definition image_get_kernel :: "u32 \<Rightarrow> bool \<Rightarrow> env_state \<Rightarrow> (env_state \<times> bool) option" where
  "image_get_kernel hdr verify s =
     do { (s1, ok) \<leftarrow> image_verify verify hdr s;
          Some (if \<not> ok then (s1, False)
                else if \<not> image_check_target_arch (emem s1) hdr
                then (puts (''Unsupported Architecture 0x'' @ number (ucast (image_get_arch (emem s1) hdr)) 16 (-1) (-1) SMALL @ nl) s1, False)
                else (s1, True)) }"

text \<open>The header, the address and the length of the kernel, zeros when there is none.\<close>

definition boot_get_kernel :: "string list \<Rightarrow> bootm_headers \<Rightarrow> env_state \<Rightarrow> (env_state \<times> bootm_headers \<times> u32 \<times> u32 \<times> u32) option" where
  "boot_get_kernel argv images s =
     (let img_addr = (if length argv < 2 then load_addr s else fst (simple_strtoul (argv ! 1) 16)) in
      if \<not> genimg_get_format (emem s) img_addr then Some (puts (''Wrong Image Format for bootm command'' @ nl) s, images, 0, 0, 0)
      else do { (s1, ok) \<leftarrow> image_get_kernel img_addr (images_verify images)
                  (puts (''## Booting kernel from Legacy Image at '' @ hex8 img_addr @ '' ...'' @ nl) s);
                if \<not> ok then Some (s1, images, 0, 0, 0)
                else let ty = image_get_type (emem s1) img_addr;
                         images1 = images\<lparr> legacy_hdr_os_copy := header_copy (emem s1) img_addr, legacy_hdr_os := img_addr, legacy_hdr_valid := True \<rparr>
                     in if ty = IH_TYPE_KERNEL \<or> ty = IH_TYPE_STANDALONE
                        then Some (s1, images1, img_addr, image_get_data img_addr, image_get_data_size (emem s1) img_addr)
                        else if ty = IH_TYPE_MULTI
                        then map_option (\<lambda>(os_data, os_len). (s1, images1, img_addr, os_data, os_len)) (image_multi_getimg (emem s1) img_addr 0)
                        else Some (puts (''Wrong Image Type for bootm command'' @ nl) s1, images, 0, 0, 0) })"

text \<open>The place of the ramdisk: zeros when there is none, and nothing when it is no good.\<close>

definition boot_get_ramdisk :: "string list \<Rightarrow> bootm_headers \<Rightarrow> u8 \<Rightarrow> env_state \<Rightarrow> (env_state \<times> (u32 \<times> u32) option) option" where
  "boot_get_ramdisk argv images arch s =
     (let found = (\<lambda>rd_data rd_len. if rd_data = 0 then (0, 0) else (rd_data, rd_data + rd_len)) in
      if length argv \<ge> 3 \<and> argv ! 2 = ''-'' then Some (s, Some (0, 0))
      else if length argv \<ge> 3
      then let rd_addr = fst (simple_strtoul (argv ! 2) 16)
           in if genimg_get_format (emem s) rd_addr
              then do { (s1, ok) \<leftarrow> image_get_ramdisk rd_addr arch (images_verify images)
                          (puts (''## Loading init Ramdisk from Legacy Image at '' @ hex8 rd_addr @ '' ...'' @ nl) s);
                        Some (s1, if ok then Some (found (image_get_data rd_addr) (image_get_data_size (emem s1) rd_addr)) else None) }
              else Some (puts (''Wrong Ramdisk Image Format'' @ nl) s, None)
      else if legacy_hdr_valid images \<and> image_check_type (legacy_hdr_os_copy images) 0 IH_TYPE_MULTI
      then do { (rd_data, rd_len) \<leftarrow> image_multi_getimg (emem s) (legacy_hdr_os images) 1;
                Some (puts (''## Loading init Ramdisk from multi component Legacy Image at '' @ hex8 (legacy_hdr_os images) @ '' ...'' @ nl) s,
                      Some (found rd_data rd_len)) }
      else Some (s, Some (0, 0)))"

definition bootm_start :: "string list \<Rightarrow> bootm \<Rightarrow> (bootm \<times> int) option" where
  "bootm_start argv b =
     do { v \<leftarrow> getenv_yesno (b_env b) ''verify'';
          (s1, im1, os_hdr, os_data, os_len) \<leftarrow> boot_get_kernel argv (no_images\<lparr> images_verify := v \<rparr>) (b_env b);
          let im2 = im1\<lparr> images_os := (images_os im1)\<lparr> image_start := os_data, image_len := os_len \<rparr> \<rparr>;
          let failed = (\<lambda>s im msg. Some (\<lparr> b_env = puts (msg @ nl) s, b_images = im \<rparr>, 1));
          if os_len = 0 then failed s1 im2 (''ERROR: can'' @ [CHR 0x27] @ ''t get kernel image!'')
          else if \<not> genimg_get_format (emem s1) os_hdr then failed s1 im2 ''ERROR: unknown image format type!''
          else
            let im3 = im2\<lparr> images_os := (images_os im2)\<lparr> os_type := image_get_type (emem s1) os_hdr, os_comp := image_get_comp (emem s1) os_hdr,
                             os_os := image_get_os (emem s1) os_hdr, os_end := image_get_image_end (emem s1) os_hdr, os_load := image_get_load (emem s1) os_hdr \<rparr> \<rparr>
            in if \<not> legacy_hdr_valid im3 then failed s1 im3 ''Could not find kernel entry point!''
               else
                 let im4 = im3\<lparr> images_ep := image_get_ep (legacy_hdr_os_copy im3) 0 \<rparr>; os = images_os im4;
                     finished = (\<lambda>s im. Some (\<lparr> b_env = s, b_images = im\<lparr> images_os := (images_os im)\<lparr> os_start := os_hdr \<rparr>, images_state := BOOTM_STATE_START \<rparr> \<rparr>, 0))
                 in if (os_type os = IH_TYPE_KERNEL \<or> os_type os = IH_TYPE_MULTI) \<and> os_os os = IH_OS_LINUX
                    then do { (s2, rd) \<leftarrow> boot_get_ramdisk argv im4 IH_ARCH_ARM s1;
                              case rd of
                                None \<Rightarrow> failed s2 im4 ''Ramdisk image is corrupt or invalid''
                              | Some (st, en) \<Rightarrow> finished s2 (im4\<lparr> rd_start := st, rd_end := en \<rparr>) }
                    else finished s1 im4 }"

subsection \<open>Loading\<close>

abbreviation (input) BOOTM_ERR_RESET :: int where "BOOTM_ERR_RESET \<equiv> -1"
abbreviation (input) BOOTM_ERR_OVERLAP :: int where "BOOTM_ERR_OVERLAP \<equiv> -2"
abbreviation (input) BOOTM_ERR_UNIMPLEMENTED :: int where "BOOTM_ERR_UNIMPLEMENTED \<equiv> -3"

definition memmove_wd :: "u32 \<Rightarrow> u32 \<Rightarrow> u32 \<Rightarrow> mem \<Rightarrow> mem" where
  "memmove_wd to from len m = fst (memmove (unat to) (unat from) (unat len) m)"

type_synonym gunzip_fn = "u32 \<Rightarrow> u32 \<Rightarrow> u32 \<Rightarrow> u32 \<Rightarrow> mem \<Rightarrow> int \<times> u32 \<times> mem"

definition bootm_load_os :: "gunzip_fn \<Rightarrow> image_info \<Rightarrow> env_state \<Rightarrow> env_state \<times> int" where
  "bootm_load_os gunzip os s =
     (let load = os_load os;
          type_name = genimg_get_type_name (os_type os);
          loaded = (\<lambda>s1 load_end. (puts (''OK'' @ nl) s1, if load < os_end os \<and> load_end > os_start os then BOOTM_ERR_OVERLAP else 0))
      in if os_comp os = IH_COMP_NONE
         then let s1 = (if load = os_start os then puts (''   XIP '' @ type_name @ '' ... '') s
                        else let s0 = puts (''   Loading '' @ type_name @ '' ... '') s
                             in if load \<noteq> image_start os then s0\<lparr> emem := memmove_wd load (image_start os) (image_len os) (emem s0) \<rparr> else s0)
              in loaded (puts (''OK'' @ nl) s1) (load + image_len os)
         else if os_comp os = IH_COMP_GZIP
         then let (r, len, m) = gunzip load CONFIG_SYS_BOOTM_LEN (image_start os) (image_len os) (emem s);
                  s1 = (puts (''   Uncompressing '' @ type_name @ '' ... '') s)\<lparr> emem := m \<rparr>
              in if r \<noteq> 0 then (puts (''GUNZIP: uncompress, out-of-mem or overwrite error - must RESET board to recover'' @ nl) s1, BOOTM_ERR_RESET)
                 else loaded s1 (load + len)
         else (puts (''Unimplemented compression type '' @ dec (uint (os_comp os)) @ nl) s, BOOTM_ERR_UNIMPLEMENTED))"

subsection \<open>The tags for the kernel\<close>

abbreviation (input) ATAG_NONE :: u32 where "ATAG_NONE \<equiv> 0x00000000"
abbreviation (input) ATAG_CORE :: u32 where "ATAG_CORE \<equiv> 0x54410001"
abbreviation (input) ATAG_MEM :: u32 where "ATAG_MEM \<equiv> 0x54410002"
abbreviation (input) ATAG_CMDLINE :: u32 where "ATAG_CMDLINE \<equiv> 0x54410009"

definition tag_next :: "mem \<Rightarrow> addr \<Rightarrow> addr" where "tag_next m t = t + 4 * unat (load32 m t)"

definition set_hdr :: "mem \<Rightarrow> addr \<Rightarrow> u32 \<Rightarrow> u32 \<Rightarrow> mem" where
  "set_hdr m params tag sz = store32 (store32 m (params + 4) tag) params sz"

definition setup_start_tag :: "bd_info \<Rightarrow> mem \<Rightarrow> mem \<times> addr" where
  "setup_start_tag bd m =
     (let params = unat (bi_boot_params bd);
          m1 = set_hdr m params ATAG_CORE 5;
          m2 = store32 (store32 (store32 m1 (params + 8) 0) (params + 12) 0) (params + 16) 0
      in (m2, tag_next m2 params))"

primrec setup_memory_tags :: "(u32 \<times> u32) list \<Rightarrow> mem \<times> addr \<Rightarrow> mem \<times> addr" where
  "setup_memory_tags [] mp = mp"
| "setup_memory_tags (bank # banks) mp =
     (let (m, params) = mp;
          m1 = set_hdr m params ATAG_MEM 4;
          m2 = store32 (store32 m1 (params + 12) (fst bank)) (params + 8) (snd bank)
      in setup_memory_tags banks (m2, tag_next m2 params))"

partial_function (option) skip_spaces :: "mem \<Rightarrow> addr \<Rightarrow> addr option" where
  "skip_spaces m p = (if m p = CHR '' '' then skip_spaces m (p + 1) else Some p)"

text \<open>The variable \<^verbatim>\<open>ethaddr\<close> is added to a command line that was copied from \<open>p\<close>, unless it is there.\<close>

definition add_ethaddr :: "env_state \<Rightarrow> addr \<Rightarrow> addr \<Rightarrow> mem \<Rightarrow> mem option" where
  "add_ethaddr s params p m =
     do { line \<leftarrow> str_at m p;
          if sublist ''ethaddr='' line then Some m
          else do { e \<leftarrow> getenv (s\<lparr> emem := m \<rparr>) ''ethaddr'';
                    case e of
                      None \<Rightarrow> Some m
                    | Some ea \<Rightarrow> do { v \<leftarrow> str_at m ea;
                                     let m1 = mem_put m (params + 8 + length line) ('' ethaddr='' @ v @ [NUL]);
                                     len \<leftarrow> strlen m1 (params + 8);
                                     Some (store32 m1 params (of_nat ((8 + len + 1 + 4) div 4))) } } }"

definition setup_commandline_tag :: "env_state \<Rightarrow> addr option \<Rightarrow> mem \<times> addr \<Rightarrow> (mem \<times> addr) option" where
  "setup_commandline_tag s commandline mp =
     (case commandline of
        None \<Rightarrow> Some mp
      | Some cl \<Rightarrow>
          let (m, params) = mp in
          do { p \<leftarrow> skip_spaces m cl;
               if m p = NUL then Some mp
               else do { let m1 = store32 m (params + 4) ATAG_CMDLINE;
                         len \<leftarrow> strlen m1 p;
                         (m2, _) \<leftarrow> strcpy (params + 8) p (store32 m1 params (of_nat ((8 + len + 1 + 4) div 4)));
                         m3 \<leftarrow> add_ethaddr s params p m2;
                         Some (m3, tag_next m3 params) } })"

definition setup_end_tag :: "mem \<times> addr \<Rightarrow> mem" where
  "setup_end_tag mp = set_hdr (fst mp) (snd mp) ATAG_NONE 0"

subsection \<open>Starting an operating system\<close>

definition do_bootm_linux :: "bd_info \<Rightarrow> u32 \<Rightarrow> string list \<Rightarrow> bootm_headers \<Rightarrow> env_state \<Rightarrow> (env_state \<times> outcome) option" where
  "do_bootm_linux bd flag argv images s =
     do { commandline \<leftarrow> getenv s ''bootargs'';
          if flag \<noteq> 0 \<and> flag \<noteq> BOOTM_STATE_OS_GO then Some (s, Returned 1)
          else do { v \<leftarrow> getenv s ''machid'';
                    (s1, machid) \<leftarrow> (case v of
                        None \<Rightarrow> Some (s, bi_arch_number bd)
                      | Some a \<Rightarrow> do { t \<leftarrow> str_at (emem s) a;
                                       let machid = fst (simple_strtoul t 16);
                                       Some (puts (''Using machid 0x'' @ number (ucast machid) 16 (-1) (-1) SMALL @ '' from environment'' @ nl) s, machid) });
                    mp \<leftarrow> setup_commandline_tag s1 commandline (setup_memory_tags (bi_dram bd) (setup_start_tag bd (emem s1)));
                    Some (puts (nl @ ''Starting kernel ...'' @ nl @ nl) (s1\<lparr> emem := setup_end_tag mp \<rparr>),
                          Jump (Linux (images_ep images) machid (bi_boot_params bd))) } }"

text \<open>The arguments of NetBSD are joined with blanks, or else the variable is used.\<close>

primrec join_words :: "string list \<Rightarrow> string" where
  "join_words [] = ''''"
| "join_words (w # ws) = w @ (if ws = [] then '''' else '' '' @ join_words ws)"

definition do_bootm_netbsd :: "bd_info \<Rightarrow> u32 \<Rightarrow> string list \<Rightarrow> bootm_headers \<Rightarrow> env_state \<Rightarrow> (env_state \<times> outcome) option" where
  "do_bootm_netbsd bd flag argv images s =
     (if flag \<noteq> 0 \<and> flag \<noteq> BOOTM_STATE_OS_GO then Some (s, Returned 1)
      else do { os_hdr \<leftarrow> (if image_check_type (legacy_hdr_os_copy images) 0 IH_TYPE_MULTI
                           then do { (kernel_data, kernel_len) \<leftarrow> image_multi_getimg (emem s) (legacy_hdr_os images) 1;
                                     Some (if kernel_len \<noteq> 0 then legacy_hdr_os images else 0) }
                           else Some 0);
                cmdline \<leftarrow> (if length argv > 2 then Some (join_words (drop 2 argv))
                            else do { v \<leftarrow> getenv s ''bootargs''; case v of None \<Rightarrow> Some '''' | Some a \<Rightarrow> str_at (emem s) a });
                Some (puts (''## Transferring control to NetBSD stage-2 loader (at address '' @ hex8 (images_ep images) @ '') ...'' @ nl) s,
                      Jump (Netbsd (images_ep images) os_hdr '''' cmdline)) })"

definition do_bootm_rtems :: "bd_info \<Rightarrow> u32 \<Rightarrow> string list \<Rightarrow> bootm_headers \<Rightarrow> env_state \<Rightarrow> (env_state \<times> outcome) option" where
  "do_bootm_rtems bd flag argv images s =
     (if flag \<noteq> 0 \<and> flag \<noteq> BOOTM_STATE_OS_GO then Some (s, Returned 1)
      else Some (puts (''## Transferring control to RTEMS (at address '' @ hex8 (images_ep images) @ '') ...'' @ nl) s, Jump (Rtems (images_ep images))))"

type_synonym boot_os_fn = "bd_info \<Rightarrow> u32 \<Rightarrow> string list \<Rightarrow> bootm_headers \<Rightarrow> env_state \<Rightarrow> (env_state \<times> outcome) option"

text \<open>The table has 19 places, of which three are filled.\<close>

definition boot_os :: "boot_os_fn option list" where
  "boot_os = (replicate 19 None)[5 := Some do_bootm_linux, 2 := Some do_bootm_netbsd, 18 := Some do_bootm_rtems]"

definition bootm_start_standalone :: "(nat \<Rightarrow> string \<Rightarrow> bool) \<Rightarrow> string list \<Rightarrow> bootm \<Rightarrow> (bootm \<times> outcome) option" where
  "bootm_start_standalone console_assign argv b =
     do { let s = b_env b;
          v \<leftarrow> getenv s ''autostart'';
          no \<leftarrow> (case v of None \<Rightarrow> Some False | Some a \<Rightarrow> map_option (\<lambda>t. t = ''no'') (str_at (emem s) a));
          if no
          then do { (s1, _) \<leftarrow> setenv console_assign s ''filesize'' (Some (number (ucast (image_len (images_os (b_images b)))) 16 (-1) (-1) 0));
                    Some (b\<lparr> b_env := s1 \<rparr>, Returned 0) }
          else Some (b, Jump (Standalone (swab32 (images_ep (b_images b))) (tl argv))) }"

subsection \<open>The command\<close>

definition cmd_bootm_sub :: "(string \<times> u32) list" where
  "cmd_bootm_sub = [(''start'', BOOTM_STATE_START), (''loados'', BOOTM_STATE_LOADOS), (''cmdline'', BOOTM_STATE_OS_CMDLINE), (''bdt'', BOOTM_STATE_OS_BD_T),
     (''prep'', BOOTM_STATE_OS_PREP), (''go'', BOOTM_STATE_OS_GO)]"

definition sub_table :: "unit cmd_tbl list" where
  "sub_table = map (\<lambda>(name, _). \<lparr> cmd_name = name, cmd_maxargs = 0, cmd_repeatable = 1, cmd_fun = (\<lambda>_ _ _. None), cmd_usage_msg = Some '''',
     cmd_help_msg = Some '''' \<rparr>) cmd_bootm_sub"

text \<open>A step of the operating system's function, which is called for it.\<close>

definition sub_call :: "bd_info \<Rightarrow> u32 \<Rightarrow> string \<Rightarrow> string list \<Rightarrow> bootm \<Rightarrow> (bootm \<times> outcome) option" where
  "sub_call bd st name argv b =
     (let os = unat (os_os (images_os (b_images b))) in
      if os \<ge> length boot_os then None
      else case boot_os ! os of
             None \<Rightarrow> None
           | Some boot_fn \<Rightarrow>
               do { (s1, r) \<leftarrow> boot_fn bd st argv (b_images b) (b_env b);
                    Some (b\<lparr> b_env := (if r \<noteq> Returned 0 \<and> st \<noteq> BOOTM_STATE_OS_GO then puts (name @ '' subcommand not supported'' @ nl) s1 else s1) \<rparr>,
                          if st = BOOTM_STATE_OS_GO then (case r of Returned _ \<Rightarrow> Returned 0 | _ \<Rightarrow> r) else r) })"

definition do_bootm_subcommand :: "gunzip_fn \<Rightarrow> bd_info \<Rightarrow> 'c cmd_tbl \<Rightarrow> string list \<Rightarrow> bootm \<Rightarrow> (bootm \<times> outcome) option" where
  "do_bootm_subcommand gunzip bd cmdtp argv b =
     (let usage = (\<lambda>txt. Some (b\<lparr> b_env := puts (txt @ fst (cmd_usage cmdtp)) (b_env b) \<rparr>, Returned 1)) in
      case find_cmd_tbl (argv ! 1) sub_table of
        None \<Rightarrow> usage ''''
      | Some c \<Rightarrow>
          let st = the (map_of cmd_bootm_sub (cmd_name c)); images = b_images b in
          if st = BOOTM_STATE_START then map_option (\<lambda>(b1, r). (b1, Returned r)) (bootm_start (tl argv) b)
          else if images_state images \<ge> st then usage (''Trying to execute a command out of order'' @ nl)
          else let b1 = b\<lparr> b_images := images\<lparr> images_state := images_state images OR st \<rparr> \<rparr>
               in if st = BOOTM_STATE_LOADOS
                  then let (s1, r) = bootm_load_os gunzip (images_os images) (b_env b1) in Some (b1\<lparr> b_env := s1 \<rparr>, Returned r)
                  else sub_call bd st (cmd_name c) argv b1)"

definition do_bootm :: "gunzip_fn \<Rightarrow> bd_info \<Rightarrow> (nat \<Rightarrow> string \<Rightarrow> bool) \<Rightarrow> 'c cmd_tbl \<Rightarrow> string list \<Rightarrow> bootm \<Rightarrow> (bootm \<times> outcome) option" where
  "do_bootm gunzip bd console_assign cmdtp argv b =
     (let endp = snd (simple_strtoul (argv ! 1) 16) in
      if length argv > 1 \<and> endp \<noteq> [] \<and> hd endp \<noteq> CHR '':'' \<and> hd endp \<noteq> CHR 0x23
      then do_bootm_subcommand gunzip bd cmdtp argv b
      else
        do { (b1, r) \<leftarrow> bootm_start argv b;
             if r \<noteq> 0 then Some (b1, Returned 1)
             else
               let os = images_os (b_images b1);
                   (s2, ret) = bootm_load_os gunzip os (b_env b1);
                   warned = (ret = BOOTM_ERR_OVERLAP \<and> legacy_hdr_valid (b_images b1) \<and> image_check_type (legacy_hdr_os_copy (b_images b1)) 0 IH_TYPE_MULTI);
                   b2 = b1\<lparr> b_env := (if warned then puts (''WARNING: legacy format multi component image overwritten'' @ nl) s2 else s2) \<rparr>
               in if ret = BOOTM_ERR_RESET then Some (b2, Reset)
                  else if ret = BOOTM_ERR_OVERLAP \<and> \<not> legacy_hdr_valid (b_images b1)
                  then Some (b2\<lparr> b_env := puts (''ERROR: new format image overwritten - must RESET the board to recover'' @ nl) s2 \<rparr>, Reset)
                  else if ret = BOOTM_ERR_UNIMPLEMENTED then Some (b2, Returned 1)
                  else if os_type os = IH_TYPE_STANDALONE then bootm_start_standalone console_assign argv b2
                  else if unat (os_os os) \<ge> length boot_os then None
                  else case boot_os ! unat (os_os os) of
                         None \<Rightarrow> Some (b2\<lparr> b_env := puts (''ERROR: booting os '' @ [CHR 0x27] @ genimg_get_os_name (os_os os) @ [CHR 0x27] @ '' ('' @
                                         dec (uint (os_os os)) @ '') is not supported'' @ nl) (b_env b2) \<rparr>, Returned 1)
                       | Some boot_fn \<Rightarrow>
                           do { (s3, r3) \<leftarrow> boot_fn bd 0 argv (b_images b2) (b_env b2);
                                Some (b2\<lparr> b_env := s3 \<rparr>, case r3 of Returned _ \<Rightarrow> Reset | _ \<Rightarrow> r3) } })"

end
