(* ===== verification/Bootm_Linux.thy ===== *)
theory Bootm_Linux
  imports Bootm
begin

text \<open>
  What the boot command does: an image that passes the checks is loaded and started with the list of tags that the kernel reads, and
  a damaged one is refused. \<open>good_image\<close> collects what is verified, \<open>tag_list\<close> says what the kernel finds, \<open>boot_tags\<close> which tags it
  gets for an environment, and \<open>tags_room\<close> bounds the memory that the list takes.
\<close>

section \<open>Verification\<close>

lemma puts_puts [simp]: "puts u (puts t s) = puts (t @ u) s"
  by (simp add: puts_def)

lemma puts_fields [simp]: "con_in (puts t s) = con_in s" "load_addr (puts t s) = load_addr s" "getenv (puts t s) = getenv s"
proof -
  have "env_get_char (puts t s) = env_get_char s" "env_get_addr (puts t s) = env_get_addr s" 
    by (auto simp: fun_eq_iff puts_def env_get_char_def env_get_char_memory_def env_get_char_init_def env_get_char_spec_def env_get_addr_def)
  then show "getenv (puts t s) = getenv s" by (auto simp: getenv_def)
qed (simp_all add: puts_def)

text \<open>An image in memory that passes every check, with data that ends below the end of the address space.\<close>

definition good_image :: "mem \<Rightarrow> u32 \<Rightarrow> bool" where
  "good_image m hdr \<longleftrightarrow> image_check_magic m hdr \<and> image_check_hcrc m hdr \<and> image_check_dcrc m hdr = Some True \<and>
     image_get_arch m hdr = IH_ARCH_ARM \<and> unat hdr + 64 + unat (image_get_size m hdr) < 2 ^ 32 \<and> image_get_size m hdr \<noteq> 0"

abbreviation (input) single_image :: "mem \<Rightarrow> u32 \<Rightarrow> bool" where
  "single_image m hdr \<equiv> image_get_type m hdr = IH_TYPE_KERNEL \<or> image_get_type m hdr = IH_TYPE_STANDALONE"

lemma header_copy_fields:
  "image_get_ep (header_copy m hdr) 0 = image_get_ep m hdr" "image_get_type (header_copy m hdr) 0 = image_get_type m hdr"
proof -
  have "load32 (header_copy m hdr) 20 = load32 m (unat hdr + 20)" by (rule load32_cong) (simp add: nth_header_copy add.assoc)
  then show "image_get_ep (header_copy m hdr) 0 = image_get_ep m hdr" by (simp add: image_get_ep_def)
qed (simp add: image_get_type_def nth_header_copy)

text \<open>An image stays good in a memory that has the same bytes.\<close>

lemma image_fields_cong:
  assumes "\<And>i. i < 64 \<Longrightarrow> m' (unat hdr + i) = m (unat hdr + i)"
  shows "image_get_magic m' hdr = image_get_magic m hdr" "image_get_hcrc m' hdr = image_get_hcrc m hdr" "image_get_size m' hdr = image_get_size m hdr"
    "image_get_load m' hdr = image_get_load m hdr" "image_get_ep m' hdr = image_get_ep m hdr" "image_get_dcrc m' hdr = image_get_dcrc m hdr"
    "image_get_os m' hdr = image_get_os m hdr" "image_get_arch m' hdr = image_get_arch m hdr" "image_get_type m' hdr = image_get_type m hdr"
    "image_get_comp m' hdr = image_get_comp m hdr"
proof -
  have "load32 m' (unat hdr + k) = load32 m (unat hdr + k)" if "k + 4 \<le> 64" for k
    using that assms by (intro load32_cong) (metis add.assoc add_less_cancel_left le_eq_less_or_eq less_le_trans)
  from this [of 0] this [of 4] this [of 12] this [of 16] this [of 20] this [of 24] show "image_get_magic m' hdr = image_get_magic m hdr"
    "image_get_hcrc m' hdr = image_get_hcrc m hdr" "image_get_size m' hdr = image_get_size m hdr" "image_get_load m' hdr = image_get_load m hdr"
    "image_get_ep m' hdr = image_get_ep m hdr" "image_get_dcrc m' hdr = image_get_dcrc m hdr"
    by (simp_all add: image_get_defs)
qed (simp_all add: image_get_defs assms)

lemma good_image_cong:
  assumes "good_image m hdr" "\<And>i. i < 64 + unat (image_get_size m hdr) \<Longrightarrow> m' (unat hdr + i) = m (unat hdr + i)"
  shows "good_image m' hdr"
proof -
  have f: "m' (unat hdr + i) = m (unat hdr + i)" if "i < 64" for i using assms(2) that by simp
  note c = image_fields_cong [of m' hdr m, OF f]
  have "blanked m' hdr = blanked m hdr" using f by (simp add: blanked_def)
  moreover have "mem_get m' (unat hdr + 64) (unat (image_get_size m hdr)) = mem_get m (unat hdr + 64) (unat (image_get_size m hdr))"
    using assms(2) by (intro mem_get_cong) (simp add: add.assoc)
  ultimately show ?thesis
    using assms(1) by (auto simp: good_image_def image_check_magic_def image_check_hcrc_eq image_check_dcrc_eq c crc32_eq unat_image_data)
qed

lemma print_single: "single_image m hdr \<Longrightarrow> \<exists>txt. image_print_contents m hdr = Some txt"
  by (auto simp: image_print_contents_def image_check_type_def Let_def)

lemma image_verify_good:
  assumes "good_image (emem s) hdr" "single_image (emem s) hdr"
  shows "\<exists>t. image_verify v hdr s = Some (puts t s, True)"
  using print_single [OF assms(2)] assms(1) by (auto simp: image_verify_def good_image_def Let_def)

lemma getenv_yesno_ok: "env_ok s es \<Longrightarrow> name_ok name \<Longrightarrow>
  getenv_yesno s name = Some (case env_lookup name es of None \<Rightarrow> True | Some v \<Rightarrow> take 1 v \<noteq> ''n'')"
proof -
  assume "env_ok s es" "name_ok name"
  moreover have "cstr m a v \<Longrightarrow> (m a \<noteq> CHR ''n'') = (take 1 v \<noteq> ''n'')" for m a v by (cases v) auto
  ultimately show ?thesis using getenv_ok [of s es name] by (auto simp: getenv_yesno_def split: option.splits)
qed

lemma bootm_start_good:
  assumes "env_ok (b_env b) es" "length argv \<le> 2" "m = emem (b_env b)"
    and "hdr = (if length argv < 2 then load_addr (b_env b) else fst (simple_strtoul (argv ! 1) 16))"
    and "good_image m hdr" "single_image m hdr"
  shows "\<exists>t im. bootm_start argv b = Some (\<lparr> b_env = puts t (b_env b), b_images = im \<rparr>, 0) \<and> images_ep im = image_get_ep m hdr \<and>
    legacy_hdr_valid im \<and> image_get_type (legacy_hdr_os_copy im) 0 = image_get_type m hdr \<and>
    images_os im = \<lparr> os_start = hdr, os_end = image_get_image_end m hdr, image_start = image_get_data hdr, image_len = image_get_size m hdr,
      os_load = image_get_load m hdr, os_comp = image_get_comp m hdr, os_type = image_get_type m hdr, os_os = image_get_os m hdr \<rparr>"
proof -
  let ?s = "puts (''## Booting kernel from Legacy Image at '' @ hex8 hdr @ '' ...'' @ nl) (b_env b)"
  obtain v where v: "getenv_yesno (b_env b) ''verify'' = Some v" using getenv_yesno_ok [OF assms(1), of "''verify''"] by (auto simp: name_ok_def)
  obtain t where "image_verify v hdr ?s = Some (puts t ?s, True)" using image_verify_good [of ?s hdr v] assms(3,5,6) by auto
  then have k: "image_get_kernel hdr v ?s = Some (puts t ?s, True)"
    using assms(3,5) by (simp add: image_get_kernel_def image_check_target_arch_def image_check_arch_def good_image_def)
  have g: "genimg_get_format m hdr" "image_get_size m hdr \<noteq> 0" using assms(5) by (simp_all add: genimg_get_format_def good_image_def)
  have ty: "image_get_type m hdr \<noteq> IH_TYPE_MULTI" using assms(6) by auto
  let ?im = "no_images\<lparr> images_verify := v, legacy_hdr_os_copy := header_copy m hdr, legacy_hdr_os := hdr, legacy_hdr_valid := True \<rparr>"
  have "\<exists>u. boot_get_kernel argv (no_images\<lparr> images_verify := v \<rparr>) (b_env b) = Some (puts u (b_env b), ?im, hdr, image_get_data hdr, image_get_size m hdr)"
    using assms(3,6) k g(1) by (auto simp: boot_get_kernel_def assms(4) [symmetric] image_get_data_size_def no_images_def)
  then obtain u where gk: "boot_get_kernel argv (no_images\<lparr> images_verify := v \<rparr>) (b_env b) = Some (puts u (b_env b), ?im, hdr, image_get_data hdr, image_get_size m hdr)"
    by blast
  have rd: "boot_get_ramdisk argv im IH_ARCH_ARM s = Some (s, Some (0, 0))" if "legacy_hdr_os_copy im = header_copy m hdr" for im s
    using assms(2) ty that by (simp add: boot_get_ramdisk_def image_check_type_def header_copy_fields)
  show ?thesis
    using g assms(3) by (simp add: bootm_start_def v gk rd header_copy_fields Let_def) (auto simp: no_images_def)
qed

section \<open>Loading\<close>

lemma puts_emem [simp]: "puts t (s\<lparr> emem := m \<rparr>) = (puts t s)\<lparr> emem := m \<rparr>" "(puts t s)\<lparr> emem := emem s \<rparr> = puts t s"
  by (simp_all add: puts_def)

lemma mem_put_self [simp]: "mem_put m p (mem_get m p n) = m"
  by (rule ext) (auto simp: mem_put_def)

lemma bootm_load_ok:
  assumes "os_comp os = IH_COMP_NONE" "os_load os \<noteq> os_start os"
  shows "\<exists>t r. bootm_load_os gz os s = ((puts t s)\<lparr> emem := mem_put (emem s) (unat (os_load os)) (mem_get (emem s) (unat (image_start os)) (unat (image_len os))) \<rparr>, r) \<and>
    (r = 0 \<or> r = BOOTM_ERR_OVERLAP)"
  using assms by (auto simp: bootm_load_os_def Let_def memmove_wd_def memmove_eq)

section \<open>The list of tags\<close>

text \<open>What the kernel reads: tags one behind the other, each with its size in words, up to one of size 0.\<close>

datatype atag = Core | Mem u32 u32 | Cmdline string

fun tag_at :: "mem \<Rightarrow> addr \<Rightarrow> atag \<Rightarrow> bool" where
  "tag_at m p Core \<longleftrightarrow> load32 m p = 5 \<and> load32 m (p + 4) = ATAG_CORE \<and> load32 m (p + 8) = 0 \<and> load32 m (p + 12) = 0 \<and> load32 m (p + 16) = 0"
| "tag_at m p (Mem start sz) \<longleftrightarrow> load32 m p = 4 \<and> load32 m (p + 4) = ATAG_MEM \<and> load32 m (p + 8) = sz \<and> load32 m (p + 12) = start"
| "tag_at m p (Cmdline line) \<longleftrightarrow> load32 m (p + 4) = ATAG_CMDLINE \<and> cstr m (p + 8) line \<and> 8 + length line < 4 * unat (load32 m p)"

primrec tag_list :: "mem \<Rightarrow> addr \<Rightarrow> atag list \<Rightarrow> bool" where
  "tag_list m p [] \<longleftrightarrow> load32 m p = 0 \<and> load32 m (p + 4) = ATAG_NONE"
| "tag_list m p (t # ts) \<longleftrightarrow> tag_at m p t \<and> tag_list m (tag_next m p) ts"

text \<open>A list that is not closed yet, up to an address.\<close>

primrec tag_seg :: "mem \<Rightarrow> addr \<Rightarrow> atag list \<Rightarrow> addr \<Rightarrow> bool" where
  "tag_seg m p [] q \<longleftrightarrow> p = q"
| "tag_seg m p (t # ts) q \<longleftrightarrow> tag_at m p t \<and> tag_next m p \<le> q \<and> tag_seg m (tag_next m p) ts q"

lemma tag_at_size: "tag_at m p t \<Longrightarrow> p + 8 < tag_next m p"
  by (cases t) (auto simp: tag_next_def)

lemma tag_at_cong:
  assumes "tag_at m p t" "\<And>a. p \<le> a \<Longrightarrow> a < tag_next m p \<Longrightarrow> m' a = m a"
  shows "tag_at m' p t" "tag_next m' p = tag_next m p"
proof -
  have l: "load32 m' (p + i) = load32 m (p + i)" if "p + i + 4 \<le> tag_next m p" for i using that by (intro load32_cong assms(2)) auto
  have l0: "load32 m' p = load32 m p" using l [of 0] tag_at_size [OF assms(1)] by simp
  then show "tag_next m' p = tag_next m p" by (simp add: tag_next_def)
  show "tag_at m' p t"
  proof (cases t)
    case (Cmdline line)
    then have "cstr m' (p + 8) line = cstr m (p + 8) line" using assms(1) by (intro cstr_cong assms(2)) (auto simp: tag_next_def)
    then show ?thesis using assms(1) l [of 4] l0 tag_at_size [OF assms(1)] Cmdline by simp
  qed (use assms(1) l [of 4] l [of 8] l [of 12] l [of 16] l0 in \<open>simp_all add: tag_next_def\<close>)
qed

lemma tag_seg_frame: "tag_seg m p ts q \<Longrightarrow> (\<And>a. p \<le> a \<Longrightarrow> a < q \<Longrightarrow> m' a = m a) \<Longrightarrow> tag_seg m' p ts q"
proof (induction ts arbitrary: p)
  case (Cons t ts)
  have c: "tag_at m' p t" "tag_next m' p = tag_next m p" using Cons.prems by (auto intro!: tag_at_cong [of m p t m'])
  have "tag_seg m' (tag_next m p) ts q" using Cons.prems tag_at_size [of m p t] by (intro Cons.IH) auto
  then show ?case using c Cons.prems(1) by simp
qed simp

lemma tag_seg_snoc: "tag_seg m p ts q \<Longrightarrow> tag_at m q t \<Longrightarrow> tag_seg m p (ts @ [t]) (tag_next m q)"
proof (induction ts arbitrary: p)
  case (Cons u ts)
  then show ?case using tag_at_size [of m q t] by fastforce
qed simp

lemma tag_seg_le: "tag_seg m p ts q \<Longrightarrow> p \<le> q"
proof (cases ts)
  case (Cons t us)
  moreover assume "tag_seg m p ts q"
  ultimately show ?thesis using tag_at_size [of m p t] by simp
qed simp

lemma tag_list_seg: "tag_seg m p ts q \<Longrightarrow> load32 m q = 0 \<Longrightarrow> load32 m (q + 4) = ATAG_NONE \<Longrightarrow> tag_list m p ts"
  by (induction ts arbitrary: p) auto

text \<open>A list that has been written from \<open>p\<close> on into a memory.\<close>

definition tags_written :: "mem \<Rightarrow> addr \<Rightarrow> atag list \<Rightarrow> mem \<times> addr \<Rightarrow> bool" where
  "tags_written m p ts mp \<longleftrightarrow> tag_seg (fst mp) p ts (snd mp) \<and> (\<forall>a. a < p \<or> snd mp \<le> a \<longrightarrow> fst mp a = m a)"

lemma tags_written_snoc:
  assumes "tags_written m p ts (m1, q)" "tag_at m2 q t" "\<And>a. a < q \<or> tag_next m2 q \<le> a \<Longrightarrow> m2 a = m1 a"
  shows "tags_written m p (ts @ [t]) (m2, tag_next m2 q)"
proof -
  have "tag_seg m1 p ts q" "p \<le> q" using assms(1) by (auto simp: tags_written_def dest: tag_seg_le)
  then have "tag_seg m2 p ts q" using tag_seg_frame [of m1 p ts q m2] assms(3) by simp
  then show ?thesis
    using tag_seg_snoc [OF _ assms(2)] tag_at_size [OF assms(2)] assms(1,3) \<open>p \<le> q\<close> by (auto simp: tags_written_def)
qed

lemma setup_start_written: "tags_written m (unat (bi_boot_params bd)) [Core] (setup_start_tag bd m)"
  by (simp add: setup_start_tag_def Let_def tags_written_def set_hdr_def tag_next_def load32_through)

lemma setup_memory_written:
  "tags_written m p ts mp \<Longrightarrow> tags_written m p (ts @ map (\<lambda>(start, sz). Mem start sz) banks) (setup_memory_tags banks mp)"
proof (induction banks arbitrary: ts mp)
  case (Cons bank banks)
  obtain m1 q where mp: "mp = (m1, q)" by force
  let ?m2 = "store32 (store32 (set_hdr m1 q ATAG_MEM 4) (q + 12) (fst bank)) (q + 8) (snd bank)"
  have "tags_written m p (ts @ [Mem (fst bank) (snd bank)]) (?m2, tag_next ?m2 q)"
    by (rule tags_written_snoc [OF Cons.prems [unfolded mp]]) (auto simp: set_hdr_def tag_next_def load32_through)
  from Cons.IH [OF this] show ?case by (simp add: mp Let_def case_prod_unfold)
qed simp

lemma setup_memory_end: "snd (setup_memory_tags banks mp) = snd mp + 16 * length banks"
  by (induction banks arbitrary: mp) (auto simp: Let_def set_hdr_def tag_next_def load32_through split: prod.splits)

lemma setup_end_list:
  assumes "tags_written m p ts mp"
  shows "tag_list (setup_end_tag mp) p ts" "\<And>a. a < p \<or> snd mp + 8 \<le> a \<Longrightarrow> setup_end_tag mp a = m a"
proof -
  obtain m1 q where mp: "mp = (m1, q)" by force
  have "tag_seg m1 p ts q" "p \<le> q" using assms mp by (auto simp: tags_written_def dest: tag_seg_le)
  then have "tag_seg (set_hdr m1 q ATAG_NONE 0) p ts q" using tag_seg_frame [of m1 p ts q] by (simp add: set_hdr_def store32_outside)
  then show "tag_list (setup_end_tag mp) p ts"
    by (intro tag_list_seg [of _ p ts q]) (simp_all add: setup_end_tag_def mp set_hdr_def load32_through)
  show "\<And>a. a < p \<or> snd mp + 8 \<le> a \<Longrightarrow> setup_end_tag mp a = m a"
    using assms \<open>p \<le> q\<close> by (auto simp: setup_end_tag_def mp set_hdr_def store32_outside tags_written_def)
qed

subsection \<open>The command line\<close>

text \<open>The command line that the kernel gets: the variable without the blanks in front, with the network address unless it has one.\<close>

definition boot_line :: "string list \<Rightarrow> string option" where
  "boot_line es =
     (case env_lookup ''bootargs'' es of
        None \<Rightarrow> None
      | Some v \<Rightarrow>
          let p = dropWhile (\<lambda>c. c = CHR '' '') v
          in if p = [] then None
             else if sublist ''ethaddr='' p then Some p
             else case env_lookup ''ethaddr'' es of None \<Rightarrow> Some p | Some e \<Rightarrow> Some (p @ '' ethaddr='' @ e))"

lemma skip_spaces_cstr:
  "cstr m a v \<Longrightarrow> \<exists>p. skip_spaces m a = Some p \<and> cstr m p (dropWhile (\<lambda>c. c = CHR '' '') v) \<and> a \<le> p \<and>
     p + length (dropWhile (\<lambda>c. c = CHR '' '') v) = a + length v"
proof (induction v arbitrary: a)
  case Nil
  then show ?case by (subst skip_spaces.simps) simp
next
  case (Cons c v)
  show ?case
  proof (cases "c = CHR '' ''")
    case True
    then show ?thesis using Cons.IH [of "a + 1"] Cons.prems by (subst skip_spaces.simps) fastforce
  next
    case False
    then show ?thesis using Cons.prems by (subst skip_spaces.simps) auto
  qed
qed

lemma cmdline_tag:
  assumes "load32 m q = of_nat ((8 + length line + 1 + 4) div 4)" "load32 m (q + 4) = ATAG_CMDLINE" "NUL \<notin> set line" "length line < 2 ^ 31"
    "m' = mem_put m (q + 8) (line @ [NUL])"
  shows "tag_at m' q (Cmdline line)" "tag_next m' q = q + 4 * ((length line + 13) div 4)"
proof -
  have u: "unat (load32 m q) = (length line + 13) div 4" using assms(1,4) by (simp add: unat_of_nat_u32)
  have l: "load32 m' q = load32 m q" "load32 m' (q + 4) = load32 m (q + 4)" using assms(5) by (simp_all add: load32_put_apart)
  show "tag_next m' q = q + 4 * ((length line + 13) div 4)" by (simp add: tag_next_def l u)
  have "cstr m' (q + 8) line" using assms(3,5) by simp
  moreover have "8 + length line < 4 * ((length line + 13) div 4)" by linarith
  ultimately show "tag_at m' q (Cmdline line)" using assms(2) by (simp add: l u)
qed

lemma mem_put_over_end: "mem_put (mem_put m p (w @ [NUL])) (p + length w) (x # xs) = mem_put m p (w @ x # xs)"
  by (rule ext) (auto simp: mem_put_def nth_append nth_Cons')

lemma store32_put_swap: "p + 4 \<le> q \<Longrightarrow> store32 (mem_put m q xs) p w = mem_put (store32 m p w) q xs"
  by (rule ext) (auto simp: mem_put_def store32_def)

lemma getenv_outside:
  assumes "env_ok s es" "name_ok name" "env_lookup name es = Some v" "apart (p, n) (env_ptr s, CONFIG_ENV_SIZE)"
  shows "\<exists>a. getenv s name = Some (Some a) \<and> cstr (emem s) a v \<and> (a + length v < p \<or> p + n \<le> a)"
proof -
  obtain a where a: "getenv s name = Some (Some a)" "cstr (emem s) a v" "env_data s \<le> a" "a + length v < env_data s + esize es"
    using getenv_inside [OF assms(1,2)] assms(3) by auto
  moreover have "esize es + 1 \<le> ENV_SIZE" using assms(1) by (simp add: env_ok_def)
  ultimately show ?thesis using assms(4) by (fastforce simp: apart_def env_data_def ENV_SIZE_def ENV_HEADER_SIZE_def CONFIG_ENV_SIZE_def)
qed

lemma env_ok_apart:
  assumes "env_ok (s\<lparr> emem := m \<rparr>) es" "apart (p, n) (env_ptr s, CONFIG_ENV_SIZE)" "\<And>a. a < p \<or> p + n \<le> a \<Longrightarrow> m' a = m a"
  shows "env_ok (s\<lparr> emem := m' \<rparr>) es"
  using env_ok_cong [OF assms(1), of m'] assms(2,3) by (fastforce simp: apart_def)

text \<open>The first part writes the variable without the blanks.\<close>

lemma setup_line:
  assumes "skip_spaces m a = Some p" "cstr m p w" "w \<noteq> []" "p + length w < q \<or> q + n \<le> p" "length w + 13 \<le> n"
  shows "\<exists>m0. load32 m0 q = of_nat ((8 + length w + 1 + 4) div 4) \<and> load32 m0 (q + 4) = ATAG_CMDLINE \<and> (\<forall>x. x < q \<or> q + 8 \<le> x \<longrightarrow> m0 x = m x) \<and>
    str_at (mem_put m0 (q + 8) (w @ [NUL])) p = Some w \<and>
    setup_commandline_tag s (Some a) (m, q) = do { m3 \<leftarrow> add_ethaddr s q p (mem_put m0 (q + 8) (w @ [NUL])); Some (m3, tag_next m3 q) }"
proof -
  let ?m1 = "store32 m (q + 4) ATAG_CMDLINE"
  define m0 where "m0 = store32 ?m1 q (of_nat ((8 + length w + 1 + 4) div 4))"
  let ?m2 = "mem_put m0 (q + 8) (w @ [NUL])"
  have away: "cstr M p w" if "\<And>x. x < q \<or> q + n \<le> x \<Longrightarrow> M x = m x" for M
  proof -
    have "cstr M p w = cstr m p w" using that assms(4) by (intro cstr_cong) auto
    then show ?thesis using assms(2) by simp
  qed
  have m1: "strlen ?m1 p = Some (length w)" using assms(5) by (intro strlen_cstr away) (auto simp: store32_outside)
  have "cstr m0 p w" using assms(5) by (intro away) (auto simp: m0_def store32_outside)
  moreover have "q + 8 \<le> p \<or> p + length w < q + 8" using assms(4,5) by auto
  ultimately have cp: "strcpy_loop (q + 8) p m0 = Some ?m2" by (rule strcpy_loop_cstr)
  have "cstr ?m2 p w" using assms(5) by (intro away) (auto simp: m0_def mem_put_outside store32_outside)
  then have st: "str_at ?m2 p = Some w" by (rule str_at_cstr)
  have nz: "m p \<noteq> NUL" using assms(2,3) by (cases w) auto
  have "load32 m0 q = of_nat ((8 + length w + 1 + 4) div 4)" "load32 m0 (q + 4) = ATAG_CMDLINE" "\<forall>x. x < q \<or> q + 8 \<le> x \<longrightarrow> m0 x = m x"
    by (auto simp: m0_def load32_through)
  moreover have "setup_commandline_tag s (Some a) (m, q) = do { m3 \<leftarrow> add_ethaddr s q p ?m2; Some (m3, tag_next m3 q) }"
    using assms(1) nz cp m1 by (simp add: setup_commandline_tag_def Let_def strcpy_def m0_def)
  ultimately show ?thesis using st by blast
qed

text \<open>The second part: the command line is complete, with its size.\<close>

lemma add_ethaddr_ok:
  assumes env: "env_ok (s\<lparr> emem := m2 \<rparr>) es" and m2: "m2 = mem_put m0 (q + 8) (w @ [NUL])" "str_at m2 p = Some w" "NUL \<notin> set w"
    and m0: "load32 m0 q = of_nat ((8 + length w + 1 + 4) div 4)" "load32 m0 (q + 4) = ATAG_CMDLINE" "\<forall>x. x < q \<or> q + 8 \<le> x \<longrightarrow> m0 x = m x"
    and line: "line = (if sublist ''ethaddr='' w then w else case env_lookup ''ethaddr'' es of None \<Rightarrow> w | Some e \<Rightarrow> w @ '' ethaddr='' @ e)"
  shows "\<exists>M. add_ethaddr s q p m2 = Some (mem_put M (q + 8) (line @ [NUL])) \<and> NUL \<notin> set line \<and> load32 M q = of_nat ((8 + length line + 1 + 4) div 4) \<and>
    load32 M (q + 4) = ATAG_CMDLINE \<and> (\<forall>x. x < q \<or> q + 8 \<le> x \<longrightarrow> M x = m x)"
proof (cases "sublist ''ethaddr='' w \<or> env_lookup ''ethaddr'' es = None")
  case True
  then have l: "line = w" using line by auto
  have "\<not> sublist ''ethaddr='' w \<Longrightarrow> getenv (s\<lparr> emem := m2 \<rparr>) ''ethaddr'' = Some None"
    using getenv_ok [OF env, of "''ethaddr''"] True by (simp add: name_ok_def)
  then have "add_ethaddr s q p m2 = Some m2" using m2(2) by (simp add: add_ethaddr_def)
  then show ?thesis using m0 m2(1,3) l by blast
next
  case False
  then obtain e where e: "env_lookup ''ethaddr'' es = Some e" by auto
  then have l: "line = w @ '' ethaddr='' @ e" using line False by simp
  obtain ea where ea: "getenv (s\<lparr> emem := m2 \<rparr>) ''ethaddr'' = Some (Some ea)" "cstr m2 ea e"
    using getenv_ok [OF env, of "''ethaddr''"] e by (auto simp: name_ok_def)
  define m3 where "m3 = mem_put m0 (q + 8) (line @ [NUL])"
  have m3: "mem_put m2 (q + 8 + length w) ('' ethaddr='' @ e @ [NUL]) = m3" by (simp add: m2(1) m3_def l mem_put_over_end)
  have n0: "NUL \<notin> set line" using m2(3) cstr_no_NUL [OF ea(2)] l by simp
  then have s3: "strlen m3 (q + 8) = Some (length line)" by (intro strlen_cstr) (simp add: m3_def)
  let ?sz = "of_nat ((8 + length line + 1 + 4) div 4)"
  have "add_ethaddr s q p m2 = Some (store32 m3 q ?sz)"
    using ea False m2(2) m3 s3 str_at_cstr [OF ea(2)] by (simp add: add_ethaddr_def Let_def)
  moreover have "store32 m3 q ?sz = mem_put (store32 m0 q ?sz) (q + 8) (line @ [NUL])" by (simp add: m3_def store32_put_swap)
  ultimately show ?thesis using n0 m0(2,3) by (intro exI [of _ "store32 m0 q ?sz"]) (simp add: load32_through)
qed

text \<open>The tag that is written in the end; \<open>n\<close> is the room for it.\<close>

lemma setup_line_tag:
  assumes env: "env_ok (s\<lparr> emem := m \<rparr>) es" "apart (q, n) (env_ptr s, CONFIG_ENV_SIZE)"
    and w: "skip_spaces m a = Some p" "cstr m p w" "w \<noteq> []" "p + length w < q \<or> q + n \<le> p"
    and line: "line = (if sublist ''ethaddr='' w then w else case env_lookup ''ethaddr'' es of None \<Rightarrow> w | Some e \<Rightarrow> w @ '' ethaddr='' @ e)"
      "length line + 13 \<le> n" "length line < 2 ^ 31"
  shows "\<exists>m'. setup_commandline_tag s (Some a) (m, q) = Some (m', tag_next m' q) \<and> tag_at m' q (Cmdline line) \<and>
    tag_next m' q = q + 4 * ((length line + 13) div 4) \<and> (\<forall>x. x < q \<or> tag_next m' q \<le> x \<longrightarrow> m' x = m x)"
proof -
  have le: "length w + 13 \<le> n" using line(1,2) by (auto split: option.splits if_splits)
  from setup_line [OF w le, of s] obtain m0 where m0: "load32 m0 q = of_nat ((8 + length w + 1 + 4) div 4)" "load32 m0 (q + 4) = ATAG_CMDLINE"
      "\<forall>x. x < q \<or> q + 8 \<le> x \<longrightarrow> m0 x = m x" "str_at (mem_put m0 (q + 8) (w @ [NUL])) p = Some w"
      "setup_commandline_tag s (Some a) (m, q) = do { m3 \<leftarrow> add_ethaddr s q p (mem_put m0 (q + 8) (w @ [NUL])); Some (m3, tag_next m3 q) }" by blast
  have ok2: "env_ok (s\<lparr> emem := mem_put m0 (q + 8) (w @ [NUL]) \<rparr>) es"
    using m0(3) le by (intro env_ok_apart [OF env]) (auto simp: mem_put_outside)
  obtain M where M: "add_ethaddr s q p (mem_put m0 (q + 8) (w @ [NUL])) = Some (mem_put M (q + 8) (line @ [NUL]))" "NUL \<notin> set line"
      "load32 M q = of_nat ((8 + length line + 1 + 4) div 4)" "load32 M (q + 4) = ATAG_CMDLINE" "\<forall>x. x < q \<or> q + 8 \<le> x \<longrightarrow> M x = m x"
    using add_ethaddr_ok [OF ok2 refl m0(4) cstr_no_NUL [OF w(2)] m0(1-3) line(1)] by blast
  note t = cmdline_tag [OF M(3,4,2) line(3) refl]
  have "length line + 9 \<le> 4 * ((length line + 13) div 4)" by linarith
  then have "mem_put M (q + 8) (line @ [NUL]) x = m x" if "x < q \<or> q + 4 * ((length line + 13) div 4) \<le> x" for x
    using that M(5) by (auto simp: mem_put_outside)
  then show ?thesis using m0(5) M(1) t by auto
qed

lemma setup_commandline_tag_ok:
  assumes env: "env_ok (s\<lparr> emem := m \<rparr>) es" "apart (q, n) (env_ptr s, CONFIG_ENV_SIZE)"
    and cl: "case env_lookup ''bootargs'' es of None \<Rightarrow> cl = None
      | Some v \<Rightarrow> \<exists>a. cl = Some a \<and> cstr m a v \<and> (a + length v < q \<or> q + n \<le> a)"
    and room: "\<And>line. boot_line es = Some line \<Longrightarrow> length line + 13 \<le> n \<and> length line < 2 ^ 31"
  shows "case boot_line es of None \<Rightarrow> setup_commandline_tag s cl (m, q) = Some (m, q)
    | Some line \<Rightarrow> \<exists>m'. setup_commandline_tag s cl (m, q) = Some (m', tag_next m' q) \<and> tag_at m' q (Cmdline line) \<and>
        tag_next m' q = q + 4 * ((length line + 13) div 4) \<and> (\<forall>x. x < q \<or> tag_next m' q \<le> x \<longrightarrow> m' x = m x)"
proof (cases "env_lookup ''bootargs'' es")
  case None
  then show ?thesis using cl by (simp add: boot_line_def setup_commandline_tag_def)
next
  case (Some v)
  let ?w = "dropWhile (\<lambda>c. c = CHR '' '') v"
  obtain a p where a: "cl = Some a" "skip_spaces m a = Some p" "cstr m p ?w" "p + length ?w < q \<or> q + n \<le> p"
    using cl Some skip_spaces_cstr by fastforce
  show ?thesis
  proof (cases "?w = []")
    case True
    have "m p = NUL" using a(3) unfolding True by simp
    then show ?thesis using a True Some by (simp add: boot_line_def setup_commandline_tag_def)
  next
    case False
    obtain line where line: "boot_line es = Some line" "length line + 13 \<le> n" "length line < 2 ^ 31"
      "line = (if sublist ''ethaddr='' ?w then ?w else case env_lookup ''ethaddr'' es of None \<Rightarrow> ?w | Some e \<Rightarrow> ?w @ '' ethaddr='' @ e)"
      using room False Some by (auto simp: boot_line_def Let_def split: option.splits if_splits)
    then show ?thesis using setup_line_tag [OF env a(2,3) False a(4) line(4,2,3)] a(1) by simp
  qed
qed

section \<open>Starting Linux\<close>

definition boot_tags :: "bd_info \<Rightarrow> string list \<Rightarrow> atag list" where
  "boot_tags bd es = [Core] @ map (\<lambda>(start, sz). Mem start sz) (bi_dram bd) @ (case boot_line es of None \<Rightarrow> [] | Some line \<Rightarrow> [Cmdline line])"

text \<open>The room that the list takes.\<close>

definition tags_room :: "bd_info \<Rightarrow> string list \<Rightarrow> nat" where
  "tags_room bd es = 28 + 16 * length (bi_dram bd) + (case boot_line es of None \<Rightarrow> 0 | Some line \<Rightarrow> length line + 13)"

definition boot_machid :: "bd_info \<Rightarrow> string list \<Rightarrow> u32" where
  "boot_machid bd es = (case env_lookup ''machid'' es of None \<Rightarrow> bi_arch_number bd | Some v \<Rightarrow> fst (simple_strtoul v 16))"

lemma env_ok_puts_emem [simp]: "env_ok ((puts t s)\<lparr> emem := m \<rparr>) es = env_ok (s\<lparr> emem := m \<rparr>) es"
  by (simp add: env_ok_def env_data_def puts_def)

lemma boot_tags_written:
  assumes "env_ok s es" "bp = unat (bi_boot_params bd)" "apart (bp, tags_room bd es) (env_ptr s, CONFIG_ENV_SIZE)" "tags_room bd es < 2 ^ 31"
    and cl: "getenv s ''bootargs'' = Some cl"
  shows "\<exists>mp. setup_commandline_tag s cl (setup_memory_tags (bi_dram bd) (setup_start_tag bd (emem s))) = Some mp \<and>
    tags_written (emem s) bp (boot_tags bd es) mp \<and> snd mp + 8 \<le> bp + tags_room bd es"
proof -
  let ?k = "20 + 16 * length (bi_dram bd)"
  have st: "snd (setup_start_tag bd (emem s)) = bp + 20" by (simp add: setup_start_tag_def Let_def set_hdr_def tag_next_def load32_through assms(2))
  obtain m q where mq: "setup_memory_tags (bi_dram bd) (setup_start_tag bd (emem s)) = (m, q)" by force
  have q: "q = bp + ?k" using setup_memory_end [of "bi_dram bd" "setup_start_tag bd (emem s)"] by (simp add: mq st)
  have wr: "tags_written (emem s) bp ([Core] @ map (\<lambda>(start, sz). Mem start sz) (bi_dram bd)) (m, q)"
    using setup_memory_written [OF setup_start_written [of "emem s" bd], of "bi_dram bd"] by (simp add: mq assms(2))
  have le: "?k + 8 \<le> tags_room bd es" by (simp add: tags_room_def)
  have out: "m x = emem s x" if "x < bp \<or> bp + tags_room bd es \<le> x" for x using wr that le q by (auto simp: tags_written_def)
  have ok: "env_ok (s\<lparr> emem := m \<rparr>) es" using env_ok_apart [OF _ assms(3), of "emem s" es m] assms(1) out by simp
  have ap: "apart (q, tags_room bd es - ?k) (env_ptr s, CONFIG_ENV_SIZE)" using assms(3) le q by (auto simp: apart_def)
  have "case env_lookup ''bootargs'' es of None \<Rightarrow> cl = None
      | Some v \<Rightarrow> \<exists>a. cl = Some a \<and> cstr m a v \<and> (a + length v < q \<or> q + (tags_room bd es - ?k) \<le> a)"
  proof (cases "env_lookup ''bootargs'' es")
    case None
    then show ?thesis using getenv_ok [OF assms(1), of "''bootargs''"] cl by (simp add: name_ok_def)
  next
    case (Some v)
    obtain a where a: "cl = Some a" "cstr (emem s) a v" "a + length v < bp \<or> bp + tags_room bd es \<le> a"
      using getenv_outside [OF assms(1) _ Some assms(3)] cl by (auto simp: name_ok_def)
    have "cstr m a v = cstr (emem s) a v" using a(3) by (intro cstr_cong out) auto
    then show ?thesis using a Some le q by auto
  qed
  note c = setup_commandline_tag_ok [OF ok ap this]
  show ?thesis
  proof (cases "boot_line es")
    case None
    then show ?thesis using c wr q by (simp add: mq boot_tags_def tags_room_def)
  next
    case (Some line)
    have room: "length line + 13 \<le> tags_room bd es - ?k" "length line < 2 ^ 31" using Some assms(4) by (simp_all add: tags_room_def)
    then obtain m' where m': "setup_commandline_tag s cl (m, q) = Some (m', tag_next m' q)" "tag_at m' q (Cmdline line)"
        "tag_next m' q = q + 4 * ((length line + 13) div 4)" "\<forall>x. x < q \<or> tag_next m' q \<le> x \<longrightarrow> m' x = m x"
      using c Some by auto
    have "tags_written (emem s) bp (boot_tags bd es) (m', tag_next m' q)"
      using tags_written_snoc [OF wr m'(2)] m'(4) Some by (simp add: boot_tags_def)
    moreover have "tag_next m' q + 8 \<le> bp + tags_room bd es" unfolding m'(3) using Some q by (simp add: tags_room_def)
    ultimately show ?thesis using m'(1) by (simp add: mq)
  qed
qed

lemma do_bootm_linux_ok:
  assumes "env_ok s es" "bp = unat (bi_boot_params bd)" "apart (bp, tags_room bd es) (env_ptr s, CONFIG_ENV_SIZE)" "tags_room bd es < 2 ^ 31"
  shows "\<exists>t m'. do_bootm_linux bd 0 argv images s = Some ((puts t s)\<lparr> emem := m' \<rparr>, Jump (Linux (images_ep images) (boot_machid bd es) (bi_boot_params bd))) \<and>
    tag_list m' bp (boot_tags bd es) \<and> (\<forall>a. a < bp \<or> bp + tags_room bd es \<le> a \<longrightarrow> m' a = emem s a)"
proof -
  obtain cl where cl: "getenv s ''bootargs'' = Some cl" using getenv_ok [OF assms(1), of "''bootargs''"] by (auto simp: name_ok_def split: option.splits)
  obtain t where v: "(case getenv s ''machid'' of None \<Rightarrow> None | Some None \<Rightarrow> Some (s, bi_arch_number bd)
      | Some (Some a) \<Rightarrow> do { t \<leftarrow> str_at (emem s) a; let machid = fst (simple_strtoul t 16);
          Some (puts (''Using machid 0x'' @ number (ucast machid) 16 (-1) (-1) SMALL @ '' from environment'' @ nl) s, machid) }) =
      Some (puts t s, boot_machid bd es)"
  proof (cases "env_lookup ''machid'' es")
    case None
    then show ?thesis using getenv_ok [OF assms(1), of "''machid''"] that [of "[]"] by (simp add: name_ok_def boot_machid_def puts_def)
  next
    case (Some w)
    then obtain a where "getenv s ''machid'' = Some (Some a)" "cstr (emem s) a w" using getenv_ok [OF assms(1), of "''machid''"] by (auto simp: name_ok_def)
    then show ?thesis using that Some by (simp add: str_at_cstr boot_machid_def Let_def)
  qed
  have cl': "getenv (puts t s) ''bootargs'' = Some cl" using cl by simp
  obtain mp where mp: "setup_commandline_tag (puts t s) cl (setup_memory_tags (bi_dram bd) (setup_start_tag bd (emem s))) = Some mp"
      "tags_written (emem s) bp (boot_tags bd es) mp" "snd mp + 8 \<le> bp + tags_room bd es"
    using boot_tags_written [OF _ assms(2) _ assms(4) cl'] assms(1,3) by auto
  have "\<exists>u. do_bootm_linux bd 0 argv images s = Some ((puts u s)\<lparr> emem := setup_end_tag mp \<rparr>, Jump (Linux (images_ep images) (boot_machid bd es) (bi_boot_params bd)))"
    using cl v mp(1) by (auto simp: do_bootm_linux_def split: option.splits)
  then show ?thesis using setup_end_list [OF mp(2)] mp(3) by (meson le_trans)
qed

section \<open>Damaged images\<close>

lemma image_verify_damaged:
  assumes "good_image m hdr" "single_image m hdr" "4 \<le> i" "i < 64 + unat (image_get_size m hdr)" "c \<noteq> m (unat hdr + i)" "emem s = m(unat hdr + i := c)"
    and magic: "image_check_magic (emem s) hdr"
  shows "\<exists>t. image_verify True hdr s = Some (puts t s, False)"
proof (cases "i < 64")
  case True
  then have "\<not> image_check_hcrc (emem s) hdr" using hcrc_damaged [of m hdr i c] assms by (simp add: good_image_def)
  then show ?thesis using magic by (auto simp: image_verify_def)
next
  case False
  have d: "image_check_dcrc (emem s) hdr = Some False" using dcrc_damaged [of m hdr i c] assms False by (simp add: good_image_def)
  have "single_image (emem s) hdr" using assms(2,6) False by (simp add: image_get_type_def)
  from print_single [OF this] show ?thesis using d magic by (auto simp: image_verify_def Let_def)
qed

lemma bootm_start_damaged:
  assumes "env_ok (b_env b) es" "env_lookup ''verify'' es = None" "emem (b_env b) = m(unat hdr + i := c)"
    and "hdr = (if length argv < 2 then load_addr (b_env b) else fst (simple_strtoul (argv ! 1) 16))"
    and good: "good_image m hdr" "single_image m hdr" "i < 64 + unat (image_get_size m hdr)" "c \<noteq> m (unat hdr + i)"
  shows "\<exists>t im. bootm_start argv b = Some (\<lparr> b_env = puts t (b_env b), b_images = im \<rparr>, 1)"
proof -
  have v: "getenv_yesno (b_env b) ''verify'' = Some True" using getenv_yesno_ok [OF assms(1), of "''verify''"] assms(2) by (simp add: name_ok_def)
  have "\<exists>u im. boot_get_kernel argv (no_images\<lparr> images_verify := True \<rparr>) (b_env b) = Some (puts u (b_env b), im, 0, 0, 0)"
  proof (cases "image_check_magic (emem (b_env b)) hdr")
    case True
    then have i: "4 \<le> i" using magic_damaged [of m hdr i c] good assms(3) by (force simp: good_image_def)
    let ?s = "puts (''## Booting kernel from Legacy Image at '' @ hex8 hdr @ '' ...'' @ nl) (b_env b)"
    obtain t where "image_verify True hdr ?s = Some (puts t ?s, False)"
      using image_verify_damaged [OF good(1,2) i good(3,4), of ?s] assms(3) True by auto
    then show ?thesis using True by (auto simp: boot_get_kernel_def assms(4) [symmetric] genimg_get_format_def image_get_kernel_def)
  next
    case False
    then show ?thesis by (auto simp: boot_get_kernel_def assms(4) [symmetric] genimg_get_format_def)
  qed
  then show ?thesis by (auto simp: bootm_start_def v)
qed

section \<open>Properties\<close>

text \<open>A call without a sub-command.\<close>

definition plain_call :: "string list \<Rightarrow> bool" where
  "plain_call argv \<longleftrightarrow> length argv \<le> 2 \<and> (length argv = 2 \<longrightarrow> snd (simple_strtoul (argv ! 1) 16) = [])"

definition boot_address :: "string list \<Rightarrow> env_state \<Rightarrow> u32" where
  "boot_address argv s = (if length argv < 2 then load_addr s else fst (simple_strtoul (argv ! 1) 16))"

lemma plain_call_do_bootm:
  assumes "plain_call argv" "bootm_start argv b = Some (b1, 0)" "os_comp (images_os (b_images b1)) = IH_COMP_NONE" "legacy_hdr_valid (b_images b1)"
    "os_load (images_os (b_images b1)) \<noteq> os_start (images_os (b_images b1))" "image_get_type (legacy_hdr_os_copy (b_images b1)) 0 \<noteq> IH_TYPE_MULTI"
    "os = images_os (b_images b1)" "m = emem (b_env b1)"
  shows "\<exists>t. do_bootm gz bd ca cmdtp argv b =
    (let b2 = b1\<lparr> b_env := (puts t (b_env b1))\<lparr> emem := mem_put m (unat (os_load os)) (mem_get m (unat (image_start os)) (unat (image_len os))) \<rparr> \<rparr>
     in if os_type os = IH_TYPE_STANDALONE then bootm_start_standalone ca argv b2
        else if unat (os_os os) \<ge> length boot_os then None
        else case boot_os ! unat (os_os os) of
               None \<Rightarrow> Some (b2\<lparr> b_env := puts (''ERROR: booting os '' @ [CHR 0x27] @ genimg_get_os_name (os_os os) @ [CHR 0x27] @ '' ('' @
                         dec (uint (os_os os)) @ '') is not supported'' @ nl) (b_env b2) \<rparr>, Returned 1)
             | Some boot_fn \<Rightarrow> do { (s3, r3) \<leftarrow> boot_fn bd 0 argv (b_images b2) (b_env b2);
                                    Some (b2\<lparr> b_env := s3 \<rparr>, case r3 of Returned _ \<Rightarrow> Reset | _ \<Rightarrow> r3) })"
proof -
  obtain t r where l: "bootm_load_os gz os (b_env b1) =
      ((puts t (b_env b1))\<lparr> emem := mem_put m (unat (os_load os)) (mem_get m (unat (image_start os)) (unat (image_len os))) \<rparr>, r)" "r = 0 \<or> r = BOOTM_ERR_OVERLAP"
    using bootm_load_ok [of os gz "b_env b1"] assms(3,5,7,8) by auto
  have n: "\<not> (length argv > 1 \<and> snd (simple_strtoul (argv ! 1) 16) \<noteq> [])" using assms(1) by (auto simp: plain_call_def)
  show ?thesis
    by (rule exI [of _ t]) (use n l assms(2,4,6,7) in \<open>auto simp: do_bootm_def Let_def image_check_type_def\<close>)
qed

lemma bootm_linux_ok:
  assumes env: "env_ok (b_env b) es" "plain_call argv" "hdr = boot_address argv (b_env b)" "m = emem (b_env b)"
    and img: "good_image m hdr" "image_get_type m hdr = IH_TYPE_KERNEL" "image_get_os m hdr = IH_OS_LINUX" "image_get_comp m hdr = IH_COMP_NONE"
      "image_get_load m hdr \<noteq> hdr" "load = unat (image_get_load m hdr)" "n = unat (image_get_size m hdr)"
    and areas: "bp = unat (bi_boot_params bd)" "tags_room bd es < 2 ^ 31" "apart (load, n) (env_ptr (b_env b), CONFIG_ENV_SIZE)"
      "apart (bp, tags_room bd es) (env_ptr (b_env b), CONFIG_ENV_SIZE)" "apart (bp, tags_room bd es) (load, n)"
  shows "\<exists>b'. do_bootm gz bd ca cmdtp argv b = Some (b', Jump (Linux (image_get_ep m hdr) (boot_machid bd es) (bi_boot_params bd))) \<and>
    mem_get (emem (b_env b')) load n = mem_get m (unat hdr + 64) n \<and> tag_list (emem (b_env b')) bp (boot_tags bd es)"
proof -
  have "length argv \<le> 2" using env(2) by (simp add: plain_call_def)
  then obtain t im where st: "bootm_start argv b = Some (\<lparr> b_env = puts t (b_env b), b_images = im \<rparr>, 0)" "images_ep im = image_get_ep m hdr"
      "legacy_hdr_valid im" "image_get_type (legacy_hdr_os_copy im) 0 = image_get_type m hdr"
      "images_os im = \<lparr> os_start = hdr, os_end = image_get_image_end m hdr, image_start = image_get_data hdr, image_len = image_get_size m hdr,
        os_load = image_get_load m hdr, os_comp = image_get_comp m hdr, os_type = image_get_type m hdr, os_os = image_get_os m hdr \<rparr>"
    using bootm_start_good [of b es argv m hdr] env img(1,2) by (auto simp: boot_address_def)
  have data: "unat (image_get_data hdr) = unat hdr + 64" using img(1) by (intro unat_image_data) (simp add: good_image_def)
  let ?m2 = "mem_put m load (mem_get m (unat hdr + 64) n)"
  have "boot_os ! 5 = Some do_bootm_linux" "length boot_os = 19" by (simp_all add: boot_os_def)
  then obtain u where call: "do_bootm gz bd ca cmdtp argv b =
      do { (s3, r3) \<leftarrow> do_bootm_linux bd 0 argv im ((puts u (b_env b))\<lparr> emem := ?m2 \<rparr>);
           Some (\<lparr> b_env = s3, b_images = im \<rparr>, case r3 of Returned _ \<Rightarrow> Reset | _ \<Rightarrow> r3) }"
    using plain_call_do_bootm [OF env(2) st(1), of _ _ gz bd ca cmdtp] st(3-5) img(2-7) data env(4) by (auto simp: Let_def)
  have ok: "env_ok ((puts u (b_env b))\<lparr> emem := ?m2 \<rparr>) es"
    using env_ok_apart [OF _ areas(3), of m es ?m2] env(1,4) by (simp add: mem_put_outside)
  obtain v m' where m': "do_bootm_linux bd 0 argv im ((puts u (b_env b))\<lparr> emem := ?m2 \<rparr>) = Some ((puts v (puts u (b_env b)))\<lparr> emem := m' \<rparr>,
      Jump (Linux (images_ep im) (boot_machid bd es) (bi_boot_params bd)))" "tag_list m' bp (boot_tags bd es)"
      "\<forall>a. a < bp \<or> bp + tags_room bd es \<le> a \<longrightarrow> m' a = ?m2 a"
    using do_bootm_linux_ok [OF ok areas(1) _ areas(2), of argv im] areas(4) by auto
  have "mem_get m' load n = mem_get ?m2 load n" using m'(3) areas(5) by (intro mem_get_cong) (auto simp: apart_def)
  also have "\<dots> = mem_get m (unat hdr + 64) n" using mem_get_put [of m load "mem_get m (unat hdr + 64) n"] by simp
  finally show ?thesis using call m'(1,2) st(2) by (auto simp: Let_def)
qed

text \<open>An environment with a command line, and an image that the tool has made, for the witnesses.\<close>

abbreviation (input) boot_vars :: "string list" where "boot_vars \<equiv> [''bootargs=  root=1'', ''ethaddr=C0:B1'']"

definition boot_mem :: "u8 \<Rightarrow> mem" where
  "boot_mem ty = image_set_header (mem_put (\<lambda>_. NUL) 104 (enc boot_vars)) 0x40000 80 (sample_params\<lparr> par_type := ty \<rparr>)"

definition boot_sample :: "mem \<Rightarrow> bootm" where
  "boot_sample m = \<lparr> b_env = sample_env\<lparr> emem := m \<rparr>, b_images = no_images \<rparr>"

definition sample_bd :: bd_info where
  "sample_bd = \<lparr> bi_arch_number = 2189, bi_boot_params = 0x50000, bi_dram = [(0x68000000, 0x400000), (0, 0), (0, 0)] \<rparr>"

definition sample_bootm :: "unit cmd_tbl" where
  "sample_bootm = \<lparr> cmd_name = ''bootm'', cmd_maxargs = 16, cmd_repeatable = 1, cmd_fun = (\<lambda>_ _ _. None), cmd_usage_msg = None, cmd_help_msg = None \<rparr>"

lemma boot_env_ok: "env_ok (sample_env\<lparr> emem := mem_put (\<lambda>_. NUL) 104 (enc boot_vars) \<rparr>) boot_vars"
proof -
  have "strs (mem_put (\<lambda>_. NUL) 104 (enc boot_vars @ [])) 104 boot_vars" by (rule strs_enc) (simp add: entry_ok_def)
  moreover have "mem_put (\<lambda>_. NUL) 104 (enc boot_vars) (104 + esize boot_vars) = NUL" by (simp add: mem_put_outside enc_def)
  ultimately show ?thesis
    by (simp add: env_ok_def env_at_def sample_env_def env_data_def ENV_HEADER_SIZE_def ENV_SIZE_def CONFIG_ENV_SIZE_def name_of_def)
qed

lemma boot_sample_ok:
  assumes "\<And>a. a < 0x40000 \<Longrightarrow> m a = boot_mem ty a"
  shows "env_ok (b_env (boot_sample m)) boot_vars" "emem (b_env (boot_sample m)) = m" "env_ptr (b_env (boot_sample m)) = 100"
proof -
  have "env_ok (sample_env\<lparr> emem := m \<rparr>) boot_vars"
    using env_ok_cong [OF boot_env_ok, of m] assms by (simp add: boot_mem_def header_only sample_env_def CONFIG_ENV_SIZE_def)
  then show "env_ok (b_env (boot_sample m)) boot_vars" by (simp add: boot_sample_def)
qed (simp_all add: boot_sample_def sample_env_def)

lemma boot_mem_fields:
  "image_get_size (boot_mem ty) 0x40000 = 16" "image_get_load (boot_mem ty) 0x40000 = 0x30000" "image_get_ep (boot_mem ty) 0x40000 = 0x30040"
  "image_get_os (boot_mem ty) 0x40000 = IH_OS_LINUX" "image_get_type (boot_mem ty) 0x40000 = ty" "image_get_comp (boot_mem ty) 0x40000 = IH_COMP_NONE"
  by (simp_all add: boot_mem_def header_fields sample_params_def)

lemma boot_mem_good: "good_image (boot_mem ty) 0x40000"
proof -
  have "image_check_hcrc (boot_mem ty) 0x40000" unfolding boot_mem_def by (rule header_hcrc) (simp add: mem_put_outside enc_def)
  moreover have "image_check_dcrc (boot_mem ty) 0x40000 = Some True" unfolding boot_mem_def by (rule header_dcrc) simp_all
  moreover have "image_check_magic (boot_mem ty) 0x40000" "image_get_arch (boot_mem ty) 0x40000 = IH_ARCH_ARM"
    by (simp_all add: boot_mem_def image_check_magic_def header_fields sample_params_def)
  ultimately show ?thesis by (simp add: good_image_def boot_mem_fields)
qed

lemma boot_args: "simple_strtoul ''40000'' 16 = (0x40000, [])" "plain_call [''bootm'', ''40000'']" "boot_address [''bootm'', ''40000''] s = 0x40000"
proof -
  show "simple_strtoul ''40000'' 16 = (0x40000, [])"
    by (simp add: simple_strtoul_def strtou_base_def at_def isxdigit_iff isdigit_iff digit_value_def)
  then show "plain_call [''bootm'', ''40000'']" "boot_address [''bootm'', ''40000''] s = 0x40000" by (simp_all add: plain_call_def boot_address_def)
qed

lemma boot_sample_tags:
  "boot_tags sample_bd boot_vars = [Core, Mem 0x68000000 0x400000, Mem 0 0, Mem 0 0, Cmdline ''root=1 ethaddr=C0:B1'']"
  "tags_room sample_bd boot_vars = 109" "boot_machid sample_bd boot_vars = 2189" "bi_boot_params sample_bd = 0x50000"
proof -
  have "boot_line boot_vars = Some ''root=1 ethaddr=C0:B1''" by code_simp
  then show "boot_tags sample_bd boot_vars = [Core, Mem 0x68000000 0x400000, Mem 0 0, Mem 0 0, Cmdline ''root=1 ethaddr=C0:B1'']"
    "tags_room sample_bd boot_vars = 109" by (simp_all add: boot_tags_def tags_room_def sample_bd_def)
qed (simp_all add: boot_machid_def env_lookup_def name_of_def sample_bd_def)

text \<open>C2: The boot command starts Linux. For a verified uncompressed kernel image at the address of the argument, or at the default
  address, control goes to the entry point of the header with the machine number and the address of the tags; at that moment the
  data of the image is at the load address, also when the load area overlaps the image itself, and the tag list reads as the core
  tag, the banks of memory and the command line: \<^verbatim>\<open>bootargs\<close> without blanks in front, with \<^verbatim>\<open>ethaddr\<close> added unless it is there. The load
  area, the tags and the environment must not overlap.\<close>

theorem bootm_linux_correct:
  assumes env: "env_ok (b_env b) es" "plain_call argv" "hdr = boot_address argv (b_env b)" "m = emem (b_env b)"
    and img: "good_image m hdr" "image_get_type m hdr = IH_TYPE_KERNEL" "image_get_os m hdr = IH_OS_LINUX" "image_get_comp m hdr = IH_COMP_NONE"
      "image_get_load m hdr \<noteq> hdr" "load = unat (image_get_load m hdr)" "n = unat (image_get_size m hdr)"
    and areas: "bp = unat (bi_boot_params bd)" "tags_room bd es < 2 ^ 31" "apart (load, n) (env_ptr (b_env b), CONFIG_ENV_SIZE)"
      "apart (bp, tags_room bd es) (env_ptr (b_env b), CONFIG_ENV_SIZE)" "apart (bp, tags_room bd es) (load, n)"
  shows "\<exists>b'. do_bootm gz bd ca cmdtp argv b = Some (b', Jump (Linux (image_get_ep m hdr) (boot_machid bd es) (bi_boot_params bd))) \<and>
    mem_get (emem (b_env b')) load n = mem_get m (unat hdr + 64) n \<and> tag_list (emem (b_env b')) bp (boot_tags bd es)"
  using assms by (rule bootm_linux_ok)

theorem bootm_linux_correct_witness:
  "\<exists>b'. do_bootm (\<lambda>_ _ _ _ m. (1, 0, m)) sample_bd (\<lambda>_ _. True) sample_bootm [''bootm'', ''40000''] (boot_sample (boot_mem IH_TYPE_KERNEL)) =
       Some (b', Jump (Linux 0x30040 2189 0x50000)) \<and>
     mem_get (emem (b_env b')) 0x30000 16 = mem_get (boot_mem IH_TYPE_KERNEL) 0x40040 16 \<and>
     tag_list (emem (b_env b')) 0x50000 [Core, Mem 0x68000000 0x400000, Mem 0 0, Mem 0 0, Cmdline ''root=1 ethaddr=C0:B1'']"
proof -
  let ?b = "boot_sample (boot_mem IH_TYPE_KERNEL)"
  note ok = boot_sample_ok [of "boot_mem IH_TYPE_KERNEL" IH_TYPE_KERNEL, OF refl]
  have "\<exists>b'. do_bootm (\<lambda>_ _ _ _ m. (1, 0, m)) sample_bd (\<lambda>_ _. True) sample_bootm [''bootm'', ''40000''] ?b =
      Some (b', Jump (Linux (image_get_ep (boot_mem IH_TYPE_KERNEL) 0x40000) (boot_machid sample_bd boot_vars) (bi_boot_params sample_bd))) \<and>
      mem_get (emem (b_env b')) 0x30000 16 = mem_get (boot_mem IH_TYPE_KERNEL) (unat (0x40000 :: u32) + 64) 16 \<and>
      tag_list (emem (b_env b')) 0x50000 (boot_tags sample_bd boot_vars)"
    by (rule bootm_linux_correct [OF ok(1) boot_args(2) boot_args(3) [symmetric] ok(2) [symmetric] boot_mem_good])
      (simp_all add: boot_mem_fields ok boot_sample_tags apart_def CONFIG_ENV_SIZE_def)
  then show ?thesis by (simp add: boot_mem_fields boot_sample_tags)
qed

text \<open>C3: A damaged image is not started. When one byte of a good image is changed, anywhere in the header or the data, \<^verbatim>\<open>bootm\<close> returns 1
  and leaves memory as it is, unless the check of the data is switched off with the variable \<^verbatim>\<open>verify\<close>.\<close>

theorem bootm_damaged:
  assumes "env_ok (b_env b) es" "env_lookup ''verify'' es = None" "plain_call argv" "hdr = boot_address argv (b_env b)"
    and "good_image m hdr" "image_get_type m hdr = IH_TYPE_KERNEL \<or> image_get_type m hdr = IH_TYPE_STANDALONE"
    and "emem (b_env b) = m(unat hdr + i := c)" "i < 64 + unat (image_get_size m hdr)" "c \<noteq> m (unat hdr + i)"
  shows "\<exists>b'. do_bootm gz bd ca cmdtp argv b = Some (b', Returned 1) \<and> emem (b_env b') = emem (b_env b)"
proof -
  obtain t im where "bootm_start argv b = Some (\<lparr> b_env = puts t (b_env b), b_images = im \<rparr>, 1)"
    using bootm_start_damaged [OF assms(1,2,7) _ assms(5,6,8,9), of argv] assms(4) by (auto simp: boot_address_def)
  moreover have "\<not> (length argv > 1 \<and> snd (simple_strtoul (argv ! 1) 16) \<noteq> [])" using assms(3) by (auto simp: plain_call_def)
  ultimately show ?thesis by (auto simp: do_bootm_def Let_def)
qed

theorem bootm_damaged_witness:
  "\<exists>b'. do_bootm (\<lambda>_ _ _ _ m. (1, 0, m)) sample_bd (\<lambda>_ _. True) sample_bootm [''bootm'', ''40000'']
     (boot_sample ((boot_mem IH_TYPE_KERNEL)(0x40047 := CHR ''x''))) = Some (b', Returned 1)"
proof -
  let ?m = "(boot_mem IH_TYPE_KERNEL)(unat (0x40000 :: u32) + 71 := CHR ''x'')"
  have ok: "env_ok (b_env (boot_sample ?m)) boot_vars" "emem (b_env (boot_sample ?m)) = ?m" by (rule boot_sample_ok; simp)+
  have "boot_mem IH_TYPE_KERNEL (unat (0x40000 :: u32) + 71) = NUL" by (simp add: boot_mem_def header_only mem_put_outside enc_def)
  then have "\<exists>b'. do_bootm (\<lambda>_ _ _ _ m. (1, 0, m)) sample_bd (\<lambda>_ _. True) sample_bootm [''bootm'', ''40000''] (boot_sample ?m) = Some (b', Returned 1) \<and>
      emem (b_env b') = emem (b_env (boot_sample ?m))"
    by (intro bootm_damaged [OF ok(1) _ boot_args(2) boot_args(3) [symmetric] boot_mem_good _ ok(2)])
      (simp_all add: boot_mem_fields env_lookup_def name_of_def)
  then show ?thesis by auto
qed

text \<open>C32: A standalone program is started at the wrong place: the entry point, which was brought to the byte order of the processor when
  the header was read, is swapped once more.\<close>

theorem bootm_standalone_swapped:
  assumes "env_ok (b_env b) es" "env_lookup ''autostart'' es = None" "plain_call argv" "hdr = boot_address argv (b_env b)" "m = emem (b_env b)"
    and "good_image m hdr" "image_get_type m hdr = IH_TYPE_STANDALONE" "image_get_comp m hdr = IH_COMP_NONE" "image_get_load m hdr \<noteq> hdr"
    and "apart (unat (image_get_load m hdr), unat (image_get_size m hdr)) (env_ptr (b_env b), CONFIG_ENV_SIZE)"
  shows "\<exists>b'. do_bootm gz bd ca cmdtp argv b = Some (b', Jump (Standalone (swab32 (image_get_ep m hdr)) (tl argv)))"
proof -
  have "length argv \<le> 2" using assms(3) by (simp add: plain_call_def)
  then obtain t im where st: "bootm_start argv b = Some (\<lparr> b_env = puts t (b_env b), b_images = im \<rparr>, 0)" "images_ep im = image_get_ep m hdr"
      "legacy_hdr_valid im" "image_get_type (legacy_hdr_os_copy im) 0 = image_get_type m hdr"
      "images_os im = \<lparr> os_start = hdr, os_end = image_get_image_end m hdr, image_start = image_get_data hdr, image_len = image_get_size m hdr,
        os_load = image_get_load m hdr, os_comp = image_get_comp m hdr, os_type = image_get_type m hdr, os_os = image_get_os m hdr \<rparr>"
    using bootm_start_good [of b es argv m hdr] assms(1,4-7) by (auto simp: boot_address_def)
  let ?m2 = "mem_put m (unat (image_get_load m hdr)) (mem_get m (unat (image_get_data hdr)) (unat (image_get_size m hdr)))"
  obtain u where call: "do_bootm gz bd ca cmdtp argv b =
      bootm_start_standalone ca argv \<lparr> b_env = (puts u (b_env b))\<lparr> emem := ?m2 \<rparr>, b_images = im \<rparr>"
    using plain_call_do_bootm [OF assms(3) st(1), of _ _ gz bd ca cmdtp] st(3-5) assms(5,7-9) by (auto simp: Let_def)
  have "env_ok ((puts u (b_env b))\<lparr> emem := ?m2 \<rparr>) es"
    using env_ok_apart [OF _ assms(10), of m es ?m2] assms(1,5) by (simp add: mem_put_outside)
  then have "getenv ((puts u (b_env b))\<lparr> emem := ?m2 \<rparr>) ''autostart'' = Some None"
    using getenv_ok [of _ es "''autostart''"] assms(2) by (simp add: name_ok_def)
  then show ?thesis using call st(2) by (simp add: bootm_start_standalone_def Let_def)
qed

theorem bootm_standalone_swapped_witness:
  "\<exists>b'. do_bootm (\<lambda>_ _ _ _ m. (1, 0, m)) sample_bd (\<lambda>_ _. True) sample_bootm [''bootm'', ''40000''] (boot_sample (boot_mem IH_TYPE_STANDALONE)) =
     Some (b', Jump (Standalone 0x40000300 [''40000'']))"
proof -
  note ok = boot_sample_ok [of "boot_mem IH_TYPE_STANDALONE" IH_TYPE_STANDALONE, OF refl]
  have "\<exists>b'. do_bootm (\<lambda>_ _ _ _ m. (1, 0, m)) sample_bd (\<lambda>_ _. True) sample_bootm [''bootm'', ''40000''] (boot_sample (boot_mem IH_TYPE_STANDALONE)) =
      Some (b', Jump (Standalone (swab32 (image_get_ep (boot_mem IH_TYPE_STANDALONE) 0x40000)) (tl [''bootm'', ''40000''])))"
    by (rule bootm_standalone_swapped [OF ok(1) _ boot_args(2) boot_args(3) [symmetric] ok(2) [symmetric] boot_mem_good])
      (simp_all add: boot_mem_fields ok apart_def CONFIG_ENV_SIZE_def env_lookup_def name_of_def)
  moreover have "swab32 0x30040 = 0x40000300" by code_simp
  ultimately show ?thesis by (simp add: boot_mem_fields)
qed

end
