(* ===== verification/Spec2Isabelle.thy ===== *)
theory Spec2Isabelle
  imports C_String C_Format Crc Circbuf Lmb Env Cli Flash Env_Flash Mem_Cmd Sd_Info Fat_Cmd Load_Cmd Bootm_Linux
begin

text \<open>
  A model of U-Boot for the STM32F10x board "dragon" (\<^verbatim>\<open>src/u-boot\<close>, configured by \<^verbatim>\<open>include/configs/dragon.h\<close>): an ARM
  Cortex-M3 with one NOR flash chip, a memory card, a serial console, the simple command interpreter, and the environment in flash.

  \<^bold>\<open>How the program works.\<close> The startup code finds the flash chip and the saved environment, moves the environment to memory, and
  enters \<^verbatim>\<open>main_loop\<close>, which runs the variable \<^verbatim>\<open>bootcmd\<close> unless a key is pressed during a countdown, and then reads and runs command
  lines for ever. A line is expanded with the variables, split into commands and arguments, and each command is looked up in a
  table and called. The commands change the environment, memory or the flash, load files from the memory card (\<^verbatim>\<open>fatload\<close>) or the
  serial line (\<^verbatim>\<open>loadb\<close>), and start an image (\<^verbatim>\<open>bootm\<close>). Underneath is a C library of strings, numbers and checksums, a ring buffer
  and an allocator of memory blocks.

  \<^bold>\<open>How it is modelled.\<close> Addresses are natural numbers and memory is a function from addresses to bytes, on which the routines that
  work on raw memory run. Machine integers are words of their width. A structure is a record, a table is a list, the console is a
  text that grows. A loop whose end depends on what memory or the hardware holds is a partial function whose value None means that
  it does not end, and the theorems say when it does. Code that is switched off by the configuration is not in the model.

  \<^item> \<open>Uboot_Prelude\<close>: the types, areas of memory and C strings.
  \<^item> \<open>C_String\<close>, \<open>C_Ctype\<close>, \<open>C_Div64\<close>, \<open>C_Format\<close> (\<^verbatim>\<open>lib_generic/string.c\<close>, \<^verbatim>\<open>ctype.c\<close>, \<^verbatim>\<open>div64.c\<close>, \<^verbatim>\<open>vsprintf.c\<close>): every routine
    with what it computes; the decimal printer that never divides, its round trips with the parsers, and the format interpreter.
  \<^item> \<open>Crc\<close> (\<^verbatim>\<open>crc32.c\<close>, \<^verbatim>\<open>crc16.c\<close>): the table-driven loops are the bitwise shift registers, and every changed byte is detected. The
    locale of shift registers is interpreted for both.
  \<^item> \<open>Circbuf\<close> (\<^verbatim>\<open>circbuf.c\<close>): the ring buffer refines a bounded queue.
  \<^item> \<open>Lmb\<close> (\<^verbatim>\<open>lmb.c\<close>): the region tables stand for sets of addresses; an allocation takes the highest place that fits, and fails only
    when there is none or the table is full.
  \<^item> \<open>Env\<close> (\<^verbatim>\<open>common/env_common.c\<close>, \<^verbatim>\<open>common/cmd_nvedit.c\<close>): the variables as a list of entries in memory with its checksum; setting,
    deleting, reading and printing. The locale of variable stores is interpreted on \<^verbatim>\<open>setenv\<close> and \<^verbatim>\<open>getenv\<close>.
  \<^item> \<open>Command\<close>, \<open>Readline\<close>, \<open>Cli\<close> (\<^verbatim>\<open>common/command.c\<close>, \<^verbatim>\<open>common/main.c\<close>): the command table, the line editor with what the terminal
    shows, the expansion and splitting of lines, \<^verbatim>\<open>run_command\<close> with its big-step relation \<open>line_runs\<close>, \<^verbatim>\<open>run\<close>, the countdown and the
    command loop.
  \<^item> \<open>Flash\<close> (\<^verbatim>\<open>common/flash.c\<close>, \<^verbatim>\<open>common/cmd_flash.c\<close>): sector ranges, accepted when they cover whole sectors or end behind the bank, and protection.
  \<^item> \<open>Nor_Flash\<close>, \<open>Nor_Chip\<close> (\<^verbatim>\<open>board/stm/dragon/flash.c\<close>): the driver of the chip. The chip is hardware, so it is a parameter; its data
    sheet is the locale \<open>nor_device\<close>, extended by \<open>nor_ident\<close> for the identification, and \<open>Nor_Chip\<close> interprets both on the command state
    machine of the chip.
  \<^item> \<open>Env_Flash\<close> (\<^verbatim>\<open>common/env_flash.c\<close>): saving the environment and finding it again.
  \<^item> \<open>Mem_Cmd\<close> (\<^verbatim>\<open>common/cmd_mem.c\<close>, \<^verbatim>\<open>lib_generic/display_options.c\<close>): the commands that show, change, copy, compare and test memory, and
    copy to flash.
  \<^item> \<open>Sd_Card\<close> (\<^verbatim>\<open>drivers/mmc/stm32f10x_sdcard.c\<close>): the driver of the card controller, on a controller that is a parameter. \<open>Sd_Bus\<close> states
    what the driver relies on as the locale \<open>sd_bus\<close>; \<open>Sd_Host\<close> interprets it on a model of the controller, its DMA channel, its interrupt
    and a card that answers only the commands its state allows; \<open>Sd_Info\<close> decodes the registers of a card.
  \<^item> \<open>Block_Dev\<close>, \<open>Part_Dos\<close>, \<open>Mmc\<close> (\<^verbatim>\<open>disk/part.c\<close>, \<^verbatim>\<open>disk/part_dos.c\<close>, \<^verbatim>\<open>drivers/mmc/stm32f10x_mmc.c\<close>, \<^verbatim>\<open>common/cmd_mmc.c\<close>): block devices, tables of
    partitions, and the card as a block device: what a read delivers is what the card holds.
  \<^item> \<open>Fat\<close>, \<open>Fat_Read\<close>, \<open>Fat_Dir\<close>, \<open>Fat_Names\<close>, \<open>Fat_File\<close>, \<open>Fat_Cmd\<close> (\<^verbatim>\<open>fs/fat/fat.c\<close>, \<^verbatim>\<open>common/cmd_fat.c\<close>): the code of the file system;
    reading the table and the clusters, directories, long names, files along a path, and the commands. The static arrays for
    directories have 255 bytes and clusters are read into them; the model writes behind their ends as the code does, and the theorems name the
    bytes that are hit and assume that they are not those of the code's own data.
  \<^item> \<open>Kermit\<close>, \<open>Kermit_Send\<close>, \<open>Load_Cmd\<close> (\<^verbatim>\<open>common/cmd_load.c\<close>): the Kermit receiver; a sender as a relation \<open>sends\<close> between packets and
    characters on the line, with noise, damage and repetition, whose file arrives; and the command \<^verbatim>\<open>loadb\<close>.
  \<^item> \<open>Image\<close>, \<open>Bootm\<close>, \<open>Bootm_Linux\<close> (\<^verbatim>\<open>common/image.c\<close>, \<^verbatim>\<open>common/cmd_bootm.c\<close>, \<^verbatim>\<open>lib_arm/bootm.c\<close>, \<^verbatim>\<open>tools/default_image.c\<close>): the image format
    and its checks, the components of an image, the boot command with its sub-commands, and the start of Linux with its tags.
  \<^item> this theory: a kernel that is sent over the serial line is booted.

  \<^bold>\<open>Bounds.\<close> \<^verbatim>\<open>run\<close> calls the interpreter again without a limit, so that \<open>run_nested\<close> follows it to a given depth; a deeper look never
  changes a result (\<open>run_nested_le\<close>), and a variable that runs itself has no result at any depth. The command loop never ends, so
  that \<open>main_loop_turns\<close> makes a given number of turns. The status loop of the flash has the timeouts of the code, and the data sheet
  promises that the chip is ready before. Transfers from the card are shorter than 512 blocks, and runs of clusters shorter than
  256 KByte, because the counter of the DMA channel has 16 bits: a longer one never ends (\<open>sd_mmc_read_stuck\<close>). Long file names have
  at most 255 characters and lie in one cluster: a longer one is written behind its array, which is no result. Allocations have a power of two as
  alignment, and no limit or one that is not below the size. The flash is written in whole words. An interrupt is taken
  at every look of a waiting loop. A reader of the serial line that runs out of characters waits for ever, which is no result. A
  jump into an image ends the model.

  \<^bold>\<open>Not modelled.\<close> The other boards, processors and their drivers; the network, USB and display code, other file systems and the
  newer image format, which this configuration does not build; the hush shell, line history and command completion, which are
  switched off; the decompressor \<^verbatim>\<open>gunzip\<close> and the allocator \<^verbatim>\<open>malloc\<close>, third-party code whose results are arguments here; the Ymodem
  receiver \<^verbatim>\<open>common/xyzModem.c\<close>, also third-party code, an argument of the load command; the switch of the console devices, a
  parameter of \<^verbatim>\<open>setenv\<close>; the assembly startup code, clocks, pins and the serial port, which are register accesses; of the card's
  driver the polling and interrupt modes, which are never selected, and \<^verbatim>\<open>SD_SendSDStatus\<close>, which is never called.
\<close>

section \<open>From the serial line to the kernel\<close>

text \<open>The bytes of an image that is sent as a file, at the address to which it is loaded.\<close>

definition image_file :: "u32 \<Rightarrow> char list \<Rightarrow> mem" where
  "image_file hdr bytes = mem_put (\<lambda>_. NUL) (unat hdr) bytes"

lemma image_file_loaded:
  assumes "mem_get m (unat hdr) (length bytes) = bytes" "i < length bytes"
  shows "m (unat hdr + i) = image_file hdr bytes (unat hdr + i)"
proof -
  have "m (unat hdr + i) = mem_get m (unat hdr) (length bytes) ! i" using assms(2) by simp
  then show ?thesis using assms by (simp add: image_file_def mem_put_def)
qed

text \<open>C1: A kernel image that is sent over the serial line is booted. When the file is a verified image, \<^verbatim>\<open>loadb\<close> receives it, despite
  noise and damaged packets, and \<^verbatim>\<open>bootm\<close> without an address then finds it at the default address that \<^verbatim>\<open>loadb\<close> has set, verifies it
  and jumps to its entry point, with the data of the image at its load address and the tag list in place. The Kermit receiver, the
  environment, the checksums, the image format and the boot command work together here.\<close>

theorem loadb_bootm:
  assumes sent: "sends 0 (file_packets p name ds) w" "concat ds = concat (map (kenc (quote_of p)) bytes)" "quote_ok (quote_of p)"
      "con_in s = w @ r" "length bytes < 2 ^ 31"
    and argv: "argv = [''loadb'', adr]" "hdr = fst (simple_strtoul adr 16)" "hdr \<noteq> -1"
    and env: "env_ok s es" "env_ptr s + CONFIG_ENV_SIZE \<le> unat hdr"
      "es' = env_remove ''filesize'' es @ [''filesize='' @ number (of_nat (length bytes)) 16 (-1) (-1) 0]" "esize es' + 1 \<le> ENV_SIZE"
    and img: "m = image_file hdr bytes" "good_image m hdr" "length bytes = 64 + n" "n = unat (image_get_size m hdr)"
      "image_get_type m hdr = IH_TYPE_KERNEL" "image_get_os m hdr = IH_OS_LINUX" "image_get_comp m hdr = IH_COMP_NONE"
      "image_get_load m hdr \<noteq> hdr" "load = unat (image_get_load m hdr)"
    and areas: "bp = unat (bi_boot_params bd)" "tags_room bd es' < 2 ^ 31" "apart (load, n) (env_ptr s, CONFIG_ENV_SIZE)"
      "apart (bp, tags_room bd es') (env_ptr s, CONFIG_ENV_SIZE)" "apart (bp, tags_room bd es') (load, n)"
  shows "\<exists>s'. do_load_serial_bin ca ymodem late argv s = Some (s', 0) \<and>
    (\<exists>b'. do_bootm gz bd ca cmdtp [''bootm''] \<lparr> b_env = s', b_images = im \<rparr> =
        Some (b', Jump (Linux (image_get_ep m hdr) (boot_machid bd es') (bi_boot_params bd))) \<and>
      mem_get (emem (b_env b')) load n = drop 64 bytes \<and> tag_list (emem (b_env b')) bp (boot_tags bd es'))"
proof -
  have "esize (env_remove ''filesize'' es) + length (''filesize='' @ number (of_nat (length bytes)) 16 (-1) (-1) 0) + 2 \<le> ENV_SIZE"
    using env(3,4) by simp
  then obtain s' where s': "do_load_serial_bin ca ymodem late argv s = Some (s', 0)" "mem_get (emem s') (unat hdr) (length bytes) = bytes"
      "load_addr s' = hdr" "env_ok s' es'" "env_ptr s' = env_ptr s"
    using loadb_sent_ok [OF sent, of argv hdr es _ ca ymodem late] argv env(1-3) by auto
  note eq = image_file_loaded [OF s'(2), folded img(1)]
  have good: "good_image (emem s') hdr" using good_image_cong [OF img(2)] eq img(3,4) by simp
  have "\<And>i. i < 64 \<Longrightarrow> emem s' (unat hdr + i) = m (unat hdr + i)" using eq img(3) by simp
  note f = image_fields_cong [of "emem s'" hdr m, OF this]
  let ?b = "\<lparr> b_env = s', b_images = im \<rparr>"
  have "\<exists>b'. do_bootm gz bd ca cmdtp [''bootm''] ?b = Some (b', Jump (Linux (image_get_ep (emem s') hdr) (boot_machid bd es') (bi_boot_params bd))) \<and>
      mem_get (emem (b_env b')) load n = mem_get (emem s') (unat hdr + 64) n \<and> tag_list (emem (b_env b')) bp (boot_tags bd es')"
    using good s' img(4-9) areas by (intro bootm_linux_ok) (simp_all add: plain_call_def boot_address_def f)
  moreover have "mem_get (emem s') (unat hdr + 64) n = drop 64 bytes"
    using mem_get_add [of "emem s'" "unat hdr" 64 n] s'(2) img(3) by (metis append_eq_conv_conj length_mem_get)
  ultimately show ?thesis using s'(1) by (auto simp: f)
qed

definition kernel_file :: "char list" where "kernel_file = mem_get (boot_mem IH_TYPE_KERNEL) 0x40000 80"

abbreviation (input) kernel_vars :: "string list" where "kernel_vars \<equiv> [''bootargs=  root=1'', ''ethaddr=C0:B1'', ''filesize=50'']"

definition kernel_wire :: "char list" where
  "kernel_wire = wire 0 (file_packets ''~* @-#N1'' ''F'' (map (kenc (CHR ''#'')) kernel_file))"

definition kernel_sent :: env_state where
  "kernel_sent = sample_env\<lparr> emem := mem_put (\<lambda>_. NUL) 104 (enc boot_vars), con_in := kernel_wire \<rparr>"

lemma kernel_wire_sends: "sends 0 (file_packets ''~* @-#N1'' ''F'' (map (kenc (CHR ''#'')) kernel_file)) kernel_wire"
proof -
  have "quote_ok (CHR ''#'')" by (simp add: quote_ok_def)
  moreover have "length (kenc q c) \<le> 91" for q c by (simp add: kenc_def Let_def)
  ultimately show ?thesis
    unfolding kernel_wire_def by (intro sends_wire) (auto simp: file_packets_def dest: kenc_printable [rotated])
qed

lemma kernel_file_image: "i < 80 \<Longrightarrow> image_file 0x40000 kernel_file (unat (0x40000 :: u32) + i) = boot_mem IH_TYPE_KERNEL (unat (0x40000 :: u32) + i)"
  by (simp add: image_file_def mem_put_def kernel_file_def)

lemma kernel_image_good: "good_image (image_file 0x40000 kernel_file) 0x40000"
  by (rule good_image_cong [OF boot_mem_good [of IH_TYPE_KERNEL]]) (rule kernel_file_image, simp add: boot_mem_fields)

lemma kernel_image:
  "image_get_size (image_file 0x40000 kernel_file) 0x40000 = 16" "image_get_load (image_file 0x40000 kernel_file) 0x40000 = 0x30000"
  "image_get_ep (image_file 0x40000 kernel_file) 0x40000 = 0x30040" "image_get_type (image_file 0x40000 kernel_file) 0x40000 = IH_TYPE_KERNEL"
  "image_get_os (image_file 0x40000 kernel_file) 0x40000 = IH_OS_LINUX" "image_get_comp (image_file 0x40000 kernel_file) 0x40000 = IH_COMP_NONE"
proof -
  have "image_file 0x40000 kernel_file (unat (0x40000 :: u32) + i) = boot_mem IH_TYPE_KERNEL (unat (0x40000 :: u32) + i)" if "i < 64" for i
    using kernel_file_image [of i] that by simp
  note f = image_fields_cong [of "image_file 0x40000 kernel_file" "0x40000" "boot_mem IH_TYPE_KERNEL", OF this]
  show "image_get_size (image_file 0x40000 kernel_file) 0x40000 = 16" "image_get_load (image_file 0x40000 kernel_file) 0x40000 = 0x30000"
    "image_get_ep (image_file 0x40000 kernel_file) 0x40000 = 0x30040" "image_get_type (image_file 0x40000 kernel_file) 0x40000 = IH_TYPE_KERNEL"
    "image_get_os (image_file 0x40000 kernel_file) 0x40000 = IH_OS_LINUX" "image_get_comp (image_file 0x40000 kernel_file) 0x40000 = IH_COMP_NONE"
    by (simp_all add: f boot_mem_fields)
qed

lemma kernel_sent_ok: "env_ok kernel_sent boot_vars" "con_in kernel_sent = kernel_wire @ []" "env_ptr kernel_sent = 100"
proof -
  have "env_ok kernel_sent boot_vars = env_ok (sample_env\<lparr> emem := mem_put (\<lambda>_. NUL) 104 (enc boot_vars) \<rparr>) boot_vars"
    by (simp add: env_ok_def env_data_def kernel_sent_def)
  then show "env_ok kernel_sent boot_vars" using boot_env_ok by simp
qed (simp_all add: kernel_sent_def sample_env_def)

lemma kernel_tags: "boot_tags sample_bd kernel_vars = [Core, Mem 0x68000000 0x400000, Mem 0 0, Mem 0 0, Cmdline ''root=1 ethaddr=C0:B1'']"
  "tags_room sample_bd kernel_vars = 109" "boot_machid sample_bd kernel_vars = 2189"
proof -
  have "boot_line kernel_vars = Some ''root=1 ethaddr=C0:B1''" by code_simp
  then show "boot_tags sample_bd kernel_vars = [Core, Mem 0x68000000 0x400000, Mem 0 0, Mem 0 0, Cmdline ''root=1 ethaddr=C0:B1'']"
    "tags_room sample_bd kernel_vars = 109" by (simp_all add: boot_tags_def tags_room_def sample_bd_def)
qed (simp add: boot_machid_def env_lookup_def name_of_def sample_bd_def)

theorem loadb_bootm_witness:
  "\<exists>s'. do_load_serial_bin (\<lambda>_ _. True) (\<lambda>_ _. None) 0 [''loadb'', ''40000''] kernel_sent = Some (s', 0) \<and>
     (\<exists>b'. do_bootm (\<lambda>_ _ _ _ m. (1, 0, m)) sample_bd (\<lambda>_ _. True) sample_bootm [''bootm''] \<lparr> b_env = s', b_images = no_images \<rparr> =
         Some (b', Jump (Linux 0x30040 2189 0x50000)) \<and>
       mem_get (emem (b_env b')) 0x30000 16 = drop 64 kernel_file \<and>
       tag_list (emem (b_env b')) 0x50000 [Core, Mem 0x68000000 0x400000, Mem 0 0, Mem 0 0, Cmdline ''root=1 ethaddr=C0:B1''])"
proof -
  let ?m = "image_file 0x40000 kernel_file"
  have q: "quote_of ''~* @-#N1'' = CHR ''#''" by (simp add: quote_of_def)
  have l: "length kernel_file = 80" by (simp add: kernel_file_def)
  have h: "number 80 16 (-1) (-1) 0 = ''50''" by code_simp
  have rm: "env_remove ''filesize'' boot_vars = boot_vars" by code_simp
  have es: "kernel_vars = env_remove ''filesize'' boot_vars @ [''filesize='' @ number (of_nat (length kernel_file)) 16 (-1) (-1) 0]"
    unfolding rm l by (simp add: h)
  have "\<exists>s'. do_load_serial_bin (\<lambda>_ _. True) (\<lambda>_ _. None) 0 [''loadb'', ''40000''] kernel_sent = Some (s', 0) \<and>
      (\<exists>b'. do_bootm (\<lambda>_ _ _ _ m. (1, 0, m)) sample_bd (\<lambda>_ _. True) sample_bootm [''bootm''] \<lparr> b_env = s', b_images = no_images \<rparr> =
          Some (b', Jump (Linux (image_get_ep ?m 0x40000) (boot_machid sample_bd kernel_vars) (bi_boot_params sample_bd))) \<and>
        mem_get (emem (b_env b')) 0x30000 16 = drop 64 kernel_file \<and> tag_list (emem (b_env b')) 0x50000 (boot_tags sample_bd kernel_vars))"
    by (rule loadb_bootm [OF kernel_wire_sends _ _ kernel_sent_ok(2) _ refl _ _ kernel_sent_ok(1) _ es _ refl kernel_image_good])
      (simp_all add: q sample_wire_quote [unfolded q] l kernel_image kernel_sent_ok kernel_tags boot_args boot_sample_tags apart_def ENV_SIZE_def
        CONFIG_ENV_SIZE_def ENV_HEADER_SIZE_def)
  then show ?thesis unfolding kernel_image kernel_tags boot_sample_tags .
qed

end
